(* ===== verification/Prelude.thy ===== *)
theory Prelude
  imports Complex_Main "HOL-Library.Word" "HOL-Library.AList"
begin

unbundle bit_operations_syntax

text \<open>
  Shared vocabulary of the development: bytes and their hexadecimal text, Python values that
  travel in journal events, exceptions with their class hierarchy, and a small
  state-and-exception calculus in which the operations of the program are written.

  A Python \<open>str\<close> is a HOL \<open>string\<close> that holds its UTF-8 bytes, so encoding is the
  identity on the underlying bytes. Text built by f-strings is kept as the list of its pieces
  (\<open>PFStr\<close>), with \<open>PRepr\<close> for a piece printed with \<open>!r\<close>: which values a message
  mentions is part of the model, their decimal rendering is not.
\<close>

named_theorems keeps_intros \<open>closure rules of invariant preservation\<close>
named_theorems act_defs \<open>definitions of the state and exception calculus\<close>

section \<open>Bytes\<close>

type_synonym byte = "8 word"
type_synonym bytes = "byte list"

definition encode_str :: "string \<Rightarrow> bytes" where
  "encode_str s = map of_char s"

definition decode_str :: "bytes \<Rightarrow> string" where
  "decode_str bs = map (\<lambda>b. char_of (unat b)) bs"

lemma length_encode_str [simp]: "length (encode_str s) = length s"
  by (simp add: encode_str_def)

lemma unat_byte_less [simp]: "unat (b :: byte) < 256"
  using unsigned_less [of b] by simp

lemma unat_of_char: "unat (of_char c :: byte) = of_char c"
proof -
  have "(of_char c :: nat) < 256" by (cases c) (use nat_of_char_less_256 in blast)
  then have "unat (of_nat (of_char c) :: byte) = of_char c"
    by (simp add: unat_of_nat take_bit_eq_mod)
  then show ?thesis by (simp add: of_nat_of_char)
qed

lemma decode_encode_str [simp]: "decode_str (encode_str s) = s"
  by (simp add: encode_str_def decode_str_def unat_of_char map_idI o_def)

lemma encode_decode_str [simp]: "encode_str (decode_str bs) = bs"
proof -
  have "of_char (char_of (unat b)) = b" for b :: byte
  proof -
    have "(of_char (char_of (unat b)) :: byte) = of_nat (unat b mod 256)"
      by (metis of_char_of of_nat_of_char)
    then show ?thesis by simp
  qed
  then show ?thesis by (simp add: encode_str_def decode_str_def map_idI o_def)
qed

section \<open>Hexadecimal text\<close>

definition hex_digit :: "nat \<Rightarrow> char" where
  "hex_digit n = ''0123456789abcdef'' ! n"

definition hex_val :: "char \<Rightarrow> nat option" where
  "hex_val c =
     (let n = of_char c :: nat in
      if 48 \<le> n \<and> n \<le> 57 then Some (n - 48)
      else if 97 \<le> n \<and> n \<le> 102 then Some (n - 87)
      else if 65 \<le> n \<and> n \<le> 70 then Some (n - 55)
      else None)"

definition ascii_space :: "char \<Rightarrow> bool" where
  "ascii_space c = (let n = of_char c :: nat in n = 32 \<or> 9 \<le> n \<and> n \<le> 13)"

text \<open>\<open>bytes.hex\<close> and \<open>bytes.fromhex\<close>; the latter skips ASCII white space before a pair.\<close>

definition hex_byte :: "byte \<Rightarrow> string" where
  "hex_byte b = [hex_digit (unat b div 16), hex_digit (unat b mod 16)]"

definition to_hex :: "bytes \<Rightarrow> string" where
  "to_hex bs = concat (map hex_byte bs)"

fun from_hex :: "string \<Rightarrow> bytes option" where
  "from_hex [] = Some []"
| "from_hex [c] = (if ascii_space c then Some [] else None)"
| "from_hex (c # d # cs) =
     (if ascii_space c then from_hex (d # cs)
      else case (hex_val c, hex_val d) of
        (Some h, Some l) \<Rightarrow> map_option ((#) (word_of_nat (16 * h + l))) (from_hex cs)
      | _ \<Rightarrow> None)"

lemma hex_digit_vals:
  assumes "n < 16"
  shows "hex_val (hex_digit n) = Some n" and "\<not> ascii_space (hex_digit n)"
proof -
  have "\<forall>n \<in> {0..<16}. hex_val (hex_digit n) = Some n \<and> \<not> ascii_space (hex_digit n)"
    by code_simp
  with assms show "hex_val (hex_digit n) = Some n" and "\<not> ascii_space (hex_digit n)"
    by auto
qed

lemma to_hex_simps [simp]:
  "to_hex [] = []" "to_hex (b # bs) = hex_byte b @ to_hex bs"
  by (simp_all add: to_hex_def)

lemma from_hex_byte: "from_hex (hex_byte b @ cs) = map_option ((#) b) (from_hex cs)"
proof -
  have "unat b div 16 < 16" using unat_byte_less [of b] by linarith
  moreover have "16 * (unat b div 16) + unat b mod 16 = unat b" by simp
  ultimately show ?thesis by (simp add: hex_byte_def hex_digit_vals)
qed

lemma from_to_hex [simp]: "from_hex (to_hex bs) = Some bs"
  by (induction bs) (simp_all add: from_hex_byte)

lemma to_hex_inject [simp]: "to_hex a = to_hex b \<longleftrightarrow> a = b"
  by (metis from_to_hex option.inject)

lemma length_to_hex [simp]: "length (to_hex bs) = 2 * length bs"
  by (induction bs) (simp_all add: hex_byte_def)

section \<open>Python values and exceptions\<close>

text \<open>A finite float is the rational it denotes; rounding is not modelled.\<close>

datatype pfloat = Fin rat | PosInf | NegInf | NaN

fun pf_less :: "pfloat \<Rightarrow> pfloat \<Rightarrow> bool" where
  "pf_less (Fin a) (Fin b) = (a < b)"
| "pf_less NegInf (Fin _) = True"
| "pf_less NegInf PosInf = True"
| "pf_less (Fin _) PosInf = True"
| "pf_less _ _ = False"

definition pf_le :: "pfloat \<Rightarrow> pfloat \<Rightarrow> bool" where
  "pf_le a b = (pf_less a b \<or> (a = b \<and> a \<noteq> NaN))"

definition pf_finite :: "pfloat \<Rightarrow> bool" where
  "pf_finite a = (case a of Fin _ \<Rightarrow> True | _ \<Rightarrow> False)"

datatype pyval =
    PNone
  | PBool bool
  | PInt int
  | PNum pfloat
  | PStr string
  | PUtf8 bytes
  | PList "pyval list"
  | PDict "(string \<times> pyval) list"
  | PFStr "pyval list"
  | PRepr pyval

text \<open>\<open>PUtf8 bs\<close> is the text \<open>bs.decode("utf-8", "replace")\<close>.\<close>

datatype exn_class =
    SandboxViolation | QuotaExceeded | RateLimitExceeded | OperationTimeout
  | VerificationError | ConnectionLost | TransportClosedError | TransportIoError
  | JournalCorrupt | PolicyViolation
  | ReplayMismatch | MpReplError | ModbusException
  | OSErr | TimeoutErr | ConnectionErr | FileExistsErr | FileNotFoundErr | NotADirectoryErr
  | PermissionErr | ValueErr | UnicodeDecodeErr | LookupErr | KeyErr | IndexErr | TypeErr | RuntimeErr | ImportErr
  | AttributeErr | AssertionErr | StructErr | QueueFull | QueueEmpty | OtherErr

datatype exn = Exn (eclass: exn_class) (emsg: pyval)

fun exn_parent :: "exn_class \<Rightarrow> exn_class option" where
  "exn_parent TransportClosedError = Some RuntimeErr"
| "exn_parent TransportIoError = Some OSErr"
| "exn_parent PolicyViolation = Some PermissionErr"
| "exn_parent MpReplError = Some RuntimeErr"
| "exn_parent TimeoutErr = Some OSErr"
| "exn_parent ConnectionErr = Some OSErr"
| "exn_parent FileExistsErr = Some OSErr"
| "exn_parent FileNotFoundErr = Some OSErr"
| "exn_parent NotADirectoryErr = Some OSErr"
| "exn_parent PermissionErr = Some OSErr"
| "exn_parent UnicodeDecodeErr = Some ValueErr"
| "exn_parent KeyErr = Some LookupErr"
| "exn_parent IndexErr = Some LookupErr"
| "exn_parent _ = None"

text \<open>\<open>isinstance\<close> on exception classes; the chains have at most two links.\<close>

definition exn_is :: "exn_class \<Rightarrow> exn_class \<Rightarrow> bool" where
  "exn_is c d =
     (c = d \<or> (case exn_parent c of None \<Rightarrow> False
        | Some p \<Rightarrow> p = d \<or> (case exn_parent p of None \<Rightarrow> False | Some q \<Rightarrow> q = d)))"

definition catches :: "exn_class list \<Rightarrow> exn \<Rightarrow> bool" where
  "catches ds e = list_ex (exn_is (eclass e)) ds"

text \<open>\<open>str(e)\<close>: the message, which a \<open>KeyError\<close> prints with \<open>repr\<close>.\<close>

definition exn_str :: "exn \<Rightarrow> pyval" where
  "exn_str e = (if eclass e = KeyErr then PRepr (emsg e) else emsg e)"

section \<open>Journal events\<close>

type_synonym fields = "(string \<times> pyval) list"
type_synonym event = "string \<times> fields"

section \<open>State and exceptions\<close>

type_synonym ('s, 'a) act = "'s \<Rightarrow> 's \<times> (exn + 'a)"

definition mret :: "'a \<Rightarrow> ('s, 'a) act" where
  [act_defs]: "mret x = (\<lambda>s. (s, Inr x))"

definition mraise :: "exn \<Rightarrow> ('s, 'a) act" where
  [act_defs]: "mraise e = (\<lambda>s. (s, Inl e))"

definition mbind :: "('s, 'a) act \<Rightarrow> ('a \<Rightarrow> ('s, 'b) act) \<Rightarrow> ('s, 'b) act" where
  [act_defs]: "mbind m f = (\<lambda>s. case m s of (s', Inl e) \<Rightarrow> (s', Inl e) | (s', Inr x) \<Rightarrow> f x s')"

definition mthen :: "('s, unit) act \<Rightarrow> ('s, 'b) act \<Rightarrow> ('s, 'b) act" where
  [act_defs]: "mthen m k = mbind m (\<lambda>_. k)"

definition mget :: "('s \<Rightarrow> 'a) \<Rightarrow> ('s, 'a) act" where
  [act_defs]: "mget f = (\<lambda>s. (s, Inr (f s)))"

definition mmod :: "('s \<Rightarrow> 's) \<Rightarrow> ('s, unit) act" where
  [act_defs]: "mmod f = (\<lambda>s. (f s, Inr ()))"

definition mcatch :: "(exn \<Rightarrow> bool) \<Rightarrow> ('s, 'a) act \<Rightarrow> (exn \<Rightarrow> ('s, 'a) act) \<Rightarrow> ('s, 'a) act" where
  [act_defs]: "mcatch p m h =
     (\<lambda>s. case m s of (s', Inl e) \<Rightarrow> if p e then h e s' else (s', Inl e) | (s', Inr x) \<Rightarrow> (s', Inr x))"

text \<open>\<open>try: m finally: c\<close>, where the clean-up itself cannot raise.\<close>

definition mfinally :: "('s, 'a) act \<Rightarrow> ('s \<Rightarrow> 's) \<Rightarrow> ('s, 'a) act" where
  [act_defs]: "mfinally m c = (\<lambda>s. case m s of (s', r) \<Rightarrow> (c s', r))"

definition mlift :: "exn + 'a \<Rightarrow> ('s, 'a) act" where
  [act_defs]: "mlift r = (\<lambda>s. (s, r))"

lemma act_apply:
  "mret x s = (s, Inr x)"
  "mraise e s = (s, Inl e)"
  "mbind m f s = (case m s of (s', Inl e) \<Rightarrow> (s', Inl e) | (s', Inr y) \<Rightarrow> f y s')"
  "mthen u k s = (case u s of (s', Inl e) \<Rightarrow> (s', Inl e) | (s', Inr _) \<Rightarrow> k s')"
  "mget g s = (s, Inr (g s))"
  "mmod h s = (h s, Inr ())"
  "mcatch p m hn s = (case m s of (s', Inl e) \<Rightarrow> if p e then hn e s' else (s', Inl e) | (s', Inr y) \<Rightarrow> (s', Inr y))"
  "mfinally m c s = (case m s of (s', r) \<Rightarrow> (c s', r))"
  "mlift q s = (s, q)"
  by (simp_all add: act_defs)

text \<open>
  How a whole action may move the state: \<open>moves R m\<close> says that the state after \<open>m\<close>,
  returned or raised, is related by \<open>R\<close> to the state before. For a preorder the
  relation is closed under the calculus.
\<close>

definition moves :: "('s \<Rightarrow> 's \<Rightarrow> bool) \<Rightarrow> ('s, 'a) act \<Rightarrow> bool" where
  "moves R m \<longleftrightarrow> (\<forall>s. R s (fst (m s)))"

lemma movesD: "moves R m \<Longrightarrow> m s = (s', r) \<Longrightarrow> R s s'"
  by (metis fst_conv moves_def)

lemma movesI: "(\<And>s s' r. m s = (s', r) \<Longrightarrow> R s s') \<Longrightarrow> moves R m"
  unfolding moves_def by (metis prod.collapse)

locale evolution =
  fixes R :: "'s \<Rightarrow> 's \<Rightarrow> bool"
  assumes refl: "R s s"
    and trans: "R s t \<Longrightarrow> R t u \<Longrightarrow> R s u"
begin

lemma ret [keeps_intros]: "moves R (mret x)"
  by (simp add: moves_def mret_def refl)

lemma raising [keeps_intros]: "moves R (mraise e)"
  by (simp add: moves_def mraise_def refl)

lemma get [keeps_intros]: "moves R (mget f)"
  by (simp add: moves_def mget_def refl)

lemma lifted [keeps_intros]: "moves R (mlift r)"
  by (simp add: moves_def mlift_def refl)

lemma modify: "(\<And>s. R s (f s)) \<Longrightarrow> moves R (mmod f)"
  by (simp add: moves_def mmod_def)

lemma bind [keeps_intros]: "moves R m \<Longrightarrow> (\<And>x. moves R (f x)) \<Longrightarrow> moves R (mbind m f)"
  unfolding moves_def mbind_def
  by (auto split: prod.splits sum.splits) (metis fst_conv trans)+

lemma seq [keeps_intros]: "moves R m \<Longrightarrow> moves R k \<Longrightarrow> moves R (mthen m k)"
  by (simp add: mthen_def bind)

lemma catching [keeps_intros]:
  "moves R m \<Longrightarrow> (\<And>e. moves R (h e)) \<Longrightarrow> moves R (mcatch p m h)"
  unfolding moves_def mcatch_def
  by (auto split: prod.splits sum.splits) (metis fst_conv trans)+

lemma finalising: "moves R m \<Longrightarrow> (\<And>s. R s (c s)) \<Longrightarrow> moves R (mfinally m c)"
  unfolding moves_def mfinally_def
  by (auto split: prod.splits) (metis fst_conv trans)

end

lemma moves_if [keeps_intros]: "moves R m \<Longrightarrow> moves R k \<Longrightarrow> moves R (if b then m else k)"
  by simp

lemma moves_option [keeps_intros]:
  "moves R m \<Longrightarrow> (\<And>x. moves R (k x)) \<Longrightarrow> moves R (case o' of None \<Rightarrow> m | Some x \<Rightarrow> k x)"
  by (simp split: option.split)

lemma moves_prod [keeps_intros]: "(\<And>x y. moves R (f x y)) \<Longrightarrow> moves R (case p of (x, y) \<Rightarrow> f x y)"
  by (cases p) simp

end
