(* ===== verification/PyText.thy ===== *)
theory PyText
  imports Prelude "HOL-Library.Sublist"
begin

text \<open>
  The part of Python's \<open>str\<close> and \<open>bytes\<close> library the program uses: stripping, splitting,
  searching, and the numeric readers \<open>int()\<close> and \<open>float()\<close>. Case folding and
  white space are those of ASCII.
\<close>

section \<open>Characters\<close>

definition py_space :: "char \<Rightarrow> bool" where
  "py_space c = (let n = of_char c :: nat in n = 32 \<or> 9 \<le> n \<and> n \<le> 13 \<or> 28 \<le> n \<and> n \<le> 31)"

definition is_digit :: "char \<Rightarrow> bool" where
  "is_digit c = (let n = of_char c :: nat in 48 \<le> n \<and> n \<le> 57)"

definition digit_val :: "char \<Rightarrow> nat" where
  "digit_val c = of_char c - 48"

definition lower_char :: "char \<Rightarrow> char" where
  "lower_char c = (let n = of_char c :: nat in if 65 \<le> n \<and> n \<le> 90 then char_of (n + 32) else c)"

definition casefold :: "string \<Rightarrow> string" where
  "casefold s = map lower_char s"

definition strip :: "string \<Rightarrow> string" where
  "strip s = rev (dropWhile py_space (rev (dropWhile py_space s)))"

definition blank :: "string \<Rightarrow> bool" where
  "blank s = (strip s = [])"

lemma lower_char_idem [simp]: "lower_char (lower_char c) = lower_char c"
  by (auto simp: lower_char_def Let_def)

lemma casefold_idem [simp]: "casefold (casefold s) = casefold s"
  by (simp add: casefold_def)

lemma casefold_append [simp]: "casefold (s @ t) = casefold s @ casefold t"
  by (simp add: casefold_def)

lemma dropWhile_hd: "s = [] \<or> \<not> p (hd s) \<Longrightarrow> dropWhile p s = s"
  by (cases s) auto

lemma strip_fixed: "s = [] \<or> \<not> py_space (hd s) \<and> \<not> py_space (last s) \<Longrightarrow> strip s = s"
  by (elim disjE) (simp_all add: strip_def dropWhile_hd hd_rev)

lemma blank_iff: "blank s \<longleftrightarrow> list_all py_space s"
proof -
  let ?d = "dropWhile py_space s"
  have "dropWhile py_space (rev ?d) = [] \<longleftrightarrow> ?d = []"
  proof (cases ?d)
    case (Cons c cs)
    then have "\<not> py_space c" using hd_dropWhile [of py_space s] by simp
    then have "dropWhile py_space (rev ?d) \<noteq> []" using Cons by (auto simp: dropWhile_eq_Nil_conv)
    with Cons show ?thesis by simp
  next
    case Nil
    show ?thesis by (simp only: Nil rev.simps dropWhile.simps)
  qed
  then have "blank s \<longleftrightarrow> ?d = []" by (simp add: blank_def strip_def)
  then show ?thesis by (simp only: dropWhile_eq_Nil_conv list_all_iff)
qed

section \<open>Splitting and joining\<close>

fun split_on :: "'a \<Rightarrow> 'a list \<Rightarrow> 'a list list" where
  "split_on d [] = [[]]"
| "split_on d (c # cs) =
     (if c = d then [] # split_on d cs
      else (case split_on d cs of [] \<Rightarrow> [[c]] | w # ws \<Rightarrow> (c # w) # ws))"

fun join_with :: "'a \<Rightarrow> 'a list list \<Rightarrow> 'a list" where
  "join_with d [] = []"
| "join_with d [w] = w"
| "join_with d (w # v # ws) = w @ d # join_with d (v # ws)"

lemma split_on_nonempty [simp]: "split_on d s \<noteq> []"
  by (induction s) (auto split: list.split)

lemma join_split [simp]: "join_with d (split_on d s) = s"
proof (induction s)
  case Nil
  show ?case by simp
next
  case (Cons c cs)
  obtain w ws where w: "split_on d cs = w # ws"
    using split_on_nonempty by (metis list.exhaust)
  with Cons show ?case by (cases ws) auto
qed

lemma split_on_none: "d \<notin> set s \<Longrightarrow> split_on d s = [s]"
  by (induction s) auto

lemma split_on_append: "d \<notin> set w \<Longrightarrow> split_on d (w @ d # s) = w # split_on d s"
  by (induction w) auto

lemma split_join:
  "ws \<noteq> [] \<Longrightarrow> \<forall>w \<in> set ws. d \<notin> set w \<Longrightarrow> split_on d (join_with d ws) = ws"
  by (induction d ws rule: join_with.induct) (auto simp: split_on_none split_on_append)

lemma split_on_parts: "w \<in> set (split_on d s) \<Longrightarrow> d \<notin> set w"
  by (induction s arbitrary: w) (auto split: if_splits list.splits)

text \<open>\<open>s.partition(d)\<close> and \<open>s.rpartition(d)\<close>, with the separator's presence as a flag.\<close>

fun partition_at :: "'a \<Rightarrow> 'a list \<Rightarrow> 'a list \<times> bool \<times> 'a list" where
  "partition_at d [] = ([], False, [])"
| "partition_at d (c # cs) =
     (if c = d then ([], True, cs)
      else case partition_at d cs of (b, f, a) \<Rightarrow> (c # b, f, a))"

definition rpartition_at :: "'a \<Rightarrow> 'a list \<Rightarrow> 'a list \<times> bool \<times> 'a list" where
  "rpartition_at d s =
     (case partition_at d (rev s) of (b, f, a) \<Rightarrow> if f then (rev a, True, rev b) else ([], False, s))"

lemma partition_at_hit: "d \<notin> set b \<Longrightarrow> partition_at d (b @ d # a) = (b, True, a)"
  by (induction b) auto

lemma partition_at_miss: "d \<notin> set b \<Longrightarrow> partition_at d b = (b, False, [])"
  by (induction b) auto

lemma rpartition_at_hit: "d \<notin> set a \<Longrightarrow> rpartition_at d (b @ d # a) = (b, True, a)"
  by (simp add: rpartition_at_def partition_at_hit)

lemma rpartition_at_miss: "d \<notin> set b \<Longrightarrow> rpartition_at d b = ([], False, b)"
  by (simp add: rpartition_at_def partition_at_miss)

section \<open>Searching\<close>

text \<open>\<open>find_at n xs\<close> is the least index where \<open>n\<close> occurs in \<open>xs\<close> (\<open>find\<close>).\<close>

fun find_at :: "'a list \<Rightarrow> 'a list \<Rightarrow> nat option" where
  "find_at n [] = (if n = [] then Some 0 else None)"
| "find_at n (x # xs) = (if prefix n (x # xs) then Some 0 else map_option Suc (find_at n xs))"

definition occurs :: "'a list \<Rightarrow> 'a list \<Rightarrow> bool" where
  "occurs n xs = (find_at n xs \<noteq> None)"

lemma find_at_SomeD:
  "find_at n xs = Some i \<Longrightarrow> prefix n (drop i xs) \<and> i \<le> length xs \<and> (\<forall>j<i. \<not> prefix n (drop j xs))"
proof (induction xs arbitrary: i)
  case Nil
  then show ?case by (auto split: if_splits)
next
  case (Cons x xs)
  then show ?case
    by (auto split: if_splits simp: less_Suc_eq_0_disj)
qed

lemma find_at_NoneD: "find_at n xs = None \<Longrightarrow> \<not> prefix n (drop j xs)"
proof (induction xs arbitrary: j)
  case Nil
  then show ?case by (auto split: if_splits)
next
  case (Cons x xs)
  then show ?case by (cases j) (auto split: if_splits)
qed

lemma find_at_split: "find_at n xs = Some i \<Longrightarrow> xs = take i xs @ n @ drop (i + length n) xs"
  by (metis add.commute append_take_drop_id drop_drop find_at_SomeD prefix_def append_eq_conv_conj)

lemma find_at_bound: "find_at n xs = Some i \<Longrightarrow> i + length n \<le> length xs"
  using find_at_SomeD [of n xs i] prefix_length_le [of n "drop i xs"] by auto

lemma occurs_iff: "occurs n xs \<longleftrightarrow> (\<exists>ys zs. xs = ys @ n @ zs)"
proof
  assume "occurs n xs"
  then show "\<exists>ys zs. xs = ys @ n @ zs"
    by (metis find_at_split not_Some_eq occurs_def)
next
  assume "\<exists>ys zs. xs = ys @ n @ zs"
  then obtain ys zs where "xs = ys @ n @ zs" by blast
  then have "prefix n (drop (length ys) xs)" by simp
  then show "occurs n xs" using find_at_NoneD occurs_def by metis
qed

lemma find_at_append: "find_at n xs = Some i \<Longrightarrow> find_at n (xs @ ys) = Some i"
proof (induction xs arbitrary: i)
  case Nil
  then show ?case by (cases ys) (auto split: if_splits)
next
  case (Cons x xs)
  have "prefix n (x # xs) \<longleftrightarrow> prefix n ((x # xs) @ ys)"
    using Cons.prems find_at_bound [of n "x # xs" i]
    by (metis add_leD2 prefix_length_prefix prefix_order.trans prefixI)
  with Cons show ?case by (auto split: if_splits)
qed

section \<open>UTF-8\<close>

text \<open>Well-formed UTF-8: no overlong forms, no surrogates, nothing above U+10FFFF.\<close>

definition utf8_cont :: "byte \<Rightarrow> bool" where
  "utf8_cont b = (128 \<le> unat b \<and> unat b \<le> 191)"

fun utf8_valid :: "bytes \<Rightarrow> bool" where
  "utf8_valid [] = True"
| "utf8_valid (a # bs) =
     (let n = unat a in
      if n < 128 then utf8_valid bs
      else if 194 \<le> n \<and> n \<le> 223 then
        (case bs of b # cs \<Rightarrow> utf8_cont b \<and> utf8_valid cs | _ \<Rightarrow> False)
      else if 224 \<le> n \<and> n \<le> 239 then
        (case bs of b # c # ds \<Rightarrow> utf8_cont b \<and> utf8_cont c \<and> (n = 224 \<longrightarrow> 160 \<le> unat b) \<and>
            (n = 237 \<longrightarrow> unat b \<le> 159) \<and> utf8_valid ds
         | _ \<Rightarrow> False)
      else if 240 \<le> n \<and> n \<le> 244 then
        (case bs of b # c # d # es \<Rightarrow> utf8_cont b \<and> utf8_cont c \<and> utf8_cont d \<and>
            (n = 240 \<longrightarrow> 144 \<le> unat b) \<and> (n = 244 \<longrightarrow> unat b \<le> 143) \<and> utf8_valid es
         | _ \<Rightarrow> False)
      else False)"

section \<open>Numbers\<close>

fun digits_val :: "nat \<Rightarrow> bool \<Rightarrow> string \<Rightarrow> nat option" where
  "digits_val acc ok [] = (if ok then Some acc else None)"
| "digits_val acc ok (c # cs) =
     (if is_digit c then digits_val (10 * acc + digit_val c) True cs
      else if c = CHR ''_'' \<and> ok then digits_val acc False cs
      else None)"

definition all_digits :: "string \<Rightarrow> bool" where
  "all_digits s = (s \<noteq> [] \<and> list_all is_digit s)"

text \<open>\<open>int(s)\<close>; \<open>None\<close> is the \<open>ValueError\<close>.\<close>

definition py_int :: "string \<Rightarrow> int option" where
  "py_int s =
     (case strip s of [] \<Rightarrow> None
      | c # cs \<Rightarrow>
          if c = CHR ''-'' then map_option (\<lambda>n. - int n) (digits_val 0 False cs)
          else if c = CHR ''+'' then map_option int (digits_val 0 False cs)
          else map_option int (digits_val 0 False (c # cs)))"

text \<open>The range of a double: overflow to infinity and underflow to zero, no rounding.\<close>

definition to_double :: "rat \<Rightarrow> pfloat" where
  "to_double q =
     (if 2 ^ 1024 - 2 ^ 970 \<le> q then PosInf
      else if q \<le> - (2 ^ 1024 - 2 ^ 970) then NegInf
      else if \<bar>q\<bar> \<le> 1 / 2 ^ 1075 then Fin 0
      else Fin q)"

definition opt_digits :: "string \<Rightarrow> nat option" where
  "opt_digits s = (if s = [] then Some 0 else digits_val 0 False s)"

definition exp_part :: "string \<Rightarrow> int option" where
  "exp_part s =
     (case s of [] \<Rightarrow> None
      | c # cs \<Rightarrow>
          if c = CHR ''-'' then map_option (\<lambda>n. - int n) (digits_val 0 False cs)
          else if c = CHR ''+'' then map_option int (digits_val 0 False cs)
          else map_option int (digits_val 0 False (c # cs)))"

definition scale10 :: "int \<Rightarrow> rat \<Rightarrow> rat" where
  "scale10 e q = (if 0 \<le> e then q * 10 ^ nat e else q / 10 ^ nat (- e))"

definition decimal :: "string \<Rightarrow> rat option" where
  "decimal s =
     (case partition_at (CHR ''e'') s of (m, has_e, e) \<Rightarrow>
      case partition_at (CHR ''.'') m of (i, _, f) \<Rightarrow>
      if i = [] \<and> f = [] then None
      else case (opt_digits i, opt_digits f, if has_e then exp_part e else Some 0) of
        (Some a, Some b, Some x) \<Rightarrow>
          Some (scale10 x (of_nat a + of_nat b / 10 ^ length (filter is_digit f)))
      | _ \<Rightarrow> None)"

text \<open>\<open>float(s)\<close>; \<open>None\<close> is the \<open>ValueError\<close>.\<close>

definition unsigned_float :: "string \<Rightarrow> pfloat option" where
  "unsigned_float s =
     (if s = ''inf'' \<or> s = ''infinity'' then Some PosInf
      else if s = ''nan'' then Some NaN
      else map_option to_double (decimal s))"

fun pf_neg :: "pfloat \<Rightarrow> pfloat" where
  "pf_neg (Fin q) = Fin (- q)"
| "pf_neg PosInf = NegInf"
| "pf_neg NegInf = PosInf"
| "pf_neg NaN = NaN"

definition py_float :: "string \<Rightarrow> pfloat option" where
  "py_float s =
     (case casefold (strip s) of [] \<Rightarrow> None
      | c # cs \<Rightarrow>
          if c = CHR ''-'' then map_option pf_neg (unsigned_float cs)
          else if c = CHR ''+'' then unsigned_float cs
          else unsigned_float (c # cs))"

text \<open>Decimal text of a natural number, for ports and counts.\<close>

fun show_nat :: "nat \<Rightarrow> string" where
  "show_nat n = (if n < 10 then [char_of (n + 48)] else show_nat (n div 10) @ [char_of (n mod 10 + 48)])"

declare show_nat.simps [simp del]

lemma digit_char: "n < 10 \<Longrightarrow> is_digit (char_of (n + 48))" "n < 10 \<Longrightarrow> digit_val (char_of (n + 48)) = n"
  by (simp_all add: is_digit_def digit_val_def)

lemma digits_val_append:
  "list_all is_digit s \<Longrightarrow> s \<noteq> [] \<Longrightarrow>
   digits_val acc ok (s @ t) = digits_val (the (digits_val acc ok s)) True t"
proof (induction s arbitrary: acc ok)
  case Nil
  then show ?case by simp
next
  case (Cons c cs)
  then show ?case by (cases "cs = []") simp_all
qed

lemma show_nat_digits: "all_digits (show_nat n)"
proof (induction n rule: show_nat.induct)
  case (1 n)
  then show ?case
    by (subst show_nat.simps) (auto simp: all_digits_def digit_char list_all_append)
qed

lemma digits_val_show_nat: "digits_val 0 False (show_nat n) = Some n"
proof (induction n rule: show_nat.induct)
  case (1 n)
  show ?case
  proof (cases "n < 10")
    case True
    then show ?thesis by (subst show_nat.simps) (simp add: digit_char)
  next
    case False
    with 1 have "digits_val 0 False (show_nat (n div 10)) = Some (n div 10)" by simp
    then have "digits_val 0 False (show_nat n) =
        digits_val (n div 10) True [char_of (n mod 10 + 48)]"
      using False show_nat_digits [of "n div 10"]
      by (subst show_nat.simps) (simp add: digits_val_append all_digits_def)
    then show ?thesis by (simp add: digit_char)
  qed
qed

end
