(* ===== verification/Policy.thy ===== *)
theory Policy
  imports PyText
begin

text \<open>
  \<open>src/io_core/policy.py\<close>: the access policy. Parsers of the three environment variables, the
  host allowlist, and the gates \<open>check_host\<close> and \<open>check_kind\<close>, which report a denial to
  the \<open>on_event\<close> hook before they raise. A hook is an action on the state of its owner; the
  environment is a map from names to text.
\<close>

type_synonym environ = "string \<Rightarrow> string option"
type_synonym 's hook = "string \<Rightarrow> fields \<Rightarrow> ('s, unit) act"

definition ALLOWED_HOSTS_ENV :: string where
  "ALLOWED_HOSTS_ENV = ''IRONHARNESS_ALLOWED_HOSTS''"

definition ENABLED_KINDS_ENV :: string where
  "ENABLED_KINDS_ENV = ''IRONHARNESS_ENABLED_KINDS''"

definition MAX_CONNECTIONS_ENV :: string where
  "MAX_CONNECTIONS_ENV = ''IRONHARNESS_MAX_CONNECTIONS''"

definition ALL_KINDS :: "string list" where
  "ALL_KINDS = [''serial'', ''modbus'', ''mqtt'', ''esp'', ''file'']"

section \<open>Parsers\<close>

definition parse_max_connections :: "string option \<Rightarrow> exn + int option" where
  "parse_max_connections raw =
     (case raw of None \<Rightarrow> Inr None
      | Some r \<Rightarrow>
          if blank r then Inr None
          else case py_int r of
            None \<Rightarrow> Inl (Exn ValueErr (PFStr [PStr ''invalid literal for int(): '', PRepr (PStr r)]))
          | Some n \<Rightarrow>
              if n < 0
              then Inl (Exn ValueErr (PFStr [PStr MAX_CONNECTIONS_ENV, PStr '' must be >= 0, got '', PRepr (PStr r)]))
              else Inr (Some n))"

type_synonym host_entry = "string \<times> nat option"

text \<open>One entry of the comma-separated list; \<open>None\<close> for a blank one.\<close>

definition parse_host_part :: "string \<Rightarrow> exn + host_entry option" where
  "parse_host_part raw_part =
     (let part = strip raw_part in
      if part = [] then Inr None
      else if 1 < count_list part (CHR '':'') then
        Inl (Exn ValueErr (PFStr [PStr ALLOWED_HOSTS_ENV, PStr '': IPv6 literals are not supported (got '',
               PRepr (PStr part), PStr ''); use an IPv4 address or a hostname'']))
      else case rpartition_at (CHR '':'') part of (host, sep, port) \<Rightarrow>
        if \<not> sep then Inr (Some (casefold part, None))
        else if \<not> all_digits port then
          Inl (Exn ValueErr (PFStr [PStr ''invalid port in '', PStr ALLOWED_HOSTS_ENV, PStr '' entry '', PRepr (PStr part)]))
        else Inr (Some (casefold (strip host), digits_val 0 False port)))"

fun parse_host_parts :: "string list \<Rightarrow> exn + host_entry list" where
  "parse_host_parts [] = Inr []"
| "parse_host_parts (p # ps) =
     (case parse_host_part p of
        Inl e \<Rightarrow> Inl e
      | Inr x \<Rightarrow>
          (case parse_host_parts ps of
             Inl e \<Rightarrow> Inl e
           | Inr es \<Rightarrow> Inr (case x of None \<Rightarrow> es | Some h \<Rightarrow> h # es)))"

definition parse_allowed_hosts :: "string option \<Rightarrow> exn + host_entry list" where
  "parse_allowed_hosts raw =
     parse_host_parts (split_on (CHR '','') (case raw of None \<Rightarrow> [] | Some r \<Rightarrow> r))"

fun parse_kind_parts :: "string list \<Rightarrow> string list \<Rightarrow> exn + string list" where
  "parse_kind_parts [] kinds = Inr kinds"
| "parse_kind_parts (p # ps) kinds =
     (let part = casefold (strip p) in
      if part = [] then parse_kind_parts ps kinds
      else if part \<notin> set ALL_KINDS then
        Inl (Exn ValueErr (PFStr [PStr ''unknown kind '', PRepr (PStr part), PStr '' in '', PStr ENABLED_KINDS_ENV,
               PStr ''; known kinds: '', PList (map PStr ALL_KINDS)]))
      else parse_kind_parts ps (List.insert part kinds))"

definition parse_enabled_kinds :: "string option \<Rightarrow> exn + string list" where
  "parse_enabled_kinds raw =
     (case raw of None \<Rightarrow> Inr ALL_KINDS
      | Some r \<Rightarrow>
          if blank r then Inr ALL_KINDS
          else case parse_kind_parts (split_on (CHR '','') r) [] of
            Inl e \<Rightarrow> Inl e
          | Inr kinds \<Rightarrow> Inr (if kinds \<noteq> [] then kinds else ALL_KINDS))"

section \<open>The allowlist and the policy\<close>

definition host_restricted :: "host_entry list \<Rightarrow> bool" where
  "host_restricted es = (es \<noteq> [])"

definition host_allows :: "host_entry list \<Rightarrow> string \<Rightarrow> nat \<Rightarrow> bool" where
  "host_allows es host port =
     list_ex (\<lambda>(h, p). h = casefold host \<and> (p = None \<or> p = Some port)) es"

record access_policy =
  ap_hosts :: "host_entry list"
  ap_kinds :: "string list"

definition policy_from_env :: "environ \<Rightarrow> exn + access_policy" where
  "policy_from_env env =
     (case parse_allowed_hosts (env ALLOWED_HOSTS_ENV) of
        Inl e \<Rightarrow> Inl e
      | Inr hs \<Rightarrow>
          (case parse_enabled_kinds (env ENABLED_KINDS_ENV) of
             Inl e \<Rightarrow> Inl e
           | Inr ks \<Rightarrow> Inr \<lparr>ap_hosts = hs, ap_kinds = ks\<rparr>))"

definition policy_deny :: "'s hook \<Rightarrow> pyval \<Rightarrow> fields \<Rightarrow> ('s, unit) act" where
  "policy_deny on_event message details =
     mthen (on_event ''policy_violation'' details) (mraise (Exn PolicyViolation message))"

definition check_host :: "'s hook \<Rightarrow> access_policy \<Rightarrow> string \<Rightarrow> nat \<Rightarrow> ('s, unit) act" where
  "check_host on_event ap host port =
     (if \<not> host_restricted (ap_hosts ap) \<or> host_allows (ap_hosts ap) host port then mret ()
      else policy_deny on_event
        (PFStr [PStr ''host '', PStr host, PStr '':'', PInt (int port), PStr '' is not in '', PStr ALLOWED_HOSTS_ENV])
        [(''rule'', PStr ''allowed_hosts''), (''host'', PStr host), (''port'', PInt (int port))])"

definition check_kind :: "'s hook \<Rightarrow> access_policy \<Rightarrow> string \<Rightarrow> ('s, unit) act" where
  "check_kind on_event ap kind =
     (if kind \<in> set (ap_kinds ap) then mret ()
      else policy_deny on_event
        (PFStr [PStr ''transport kind '', PRepr (PStr kind), PStr '' is disabled by '', PStr ENABLED_KINDS_ENV])
        [(''rule'', PStr ''enabled_kinds''), (''transport'', PStr kind)])"

text \<open>
  \<open>AccessPolicy.from_env(on_event=...).check_host(...)\<close> and \<open>.check_kind(...)\<close>, the two
  calls of the transports and of the session.
\<close>

definition gate_host :: "environ \<Rightarrow> 's hook \<Rightarrow> string \<Rightarrow> nat \<Rightarrow> ('s, unit) act" where
  "gate_host env on_event host port =
     mbind (mlift (policy_from_env env)) (\<lambda>ap. check_host on_event ap host port)"

definition gate_kind :: "environ \<Rightarrow> 's hook \<Rightarrow> string \<Rightarrow> ('s, unit) act" where
  "gate_kind env on_event kind =
     mbind (mlift (policy_from_env env)) (\<lambda>ap. check_kind on_event ap kind)"

section \<open>Facts about the parsers\<close>

lemma parse_host_part_blank: "parse_host_part p = Inr None \<longleftrightarrow> blank p"
  by (auto simp: parse_host_part_def blank_def Let_def split: prod.splits if_splits)

lemma parse_host_parts_Nil: "parse_host_parts ps = Inr [] \<longleftrightarrow> (\<forall>p \<in> set ps. blank p)"
  by (induction ps) (auto simp: parse_host_part_blank [symmetric] split: sum.splits option.splits)

lemma parse_kind_parts_sub:
  "parse_kind_parts ps ks = Inr ks' \<Longrightarrow> set ks \<subseteq> set ALL_KINDS \<Longrightarrow>
   set ks' = set ks \<union> {casefold (strip p) |p. p \<in> set ps \<and> \<not> blank p} \<and> set ks' \<subseteq> set ALL_KINDS"
proof (induction ps arbitrary: ks)
  case Nil
  then show ?case by simp
next
  case (Cons p ps)
  have blank: "casefold (strip p) = [] \<longleftrightarrow> blank p" by (simp add: casefold_def blank_def)
  show ?case
  proof (cases "blank p")
    case True
    with Cons.prems have "parse_kind_parts ps ks = Inr ks'" by (simp add: blank [symmetric])
    from Cons.IH [OF this Cons.prems(2)] True show ?thesis by auto
  next
    case False
    with Cons.prems have k: "casefold (strip p) \<in> set ALL_KINDS"
      and r: "parse_kind_parts ps (List.insert (casefold (strip p)) ks) = Inr ks'"
      by (auto simp: blank Let_def split: if_splits)
    from k Cons.prems(2) have "set (List.insert (casefold (strip p)) ks) \<subseteq> set ALL_KINDS" by auto
    from Cons.IH [OF r this] False show ?thesis by auto
  qed
qed

text \<open>Printing an entry as the documentation writes it.\<close>

definition show_entry :: "host_entry \<Rightarrow> string" where
  "show_entry e = (case e of (h, None) \<Rightarrow> h | (h, Some p) \<Rightarrow> h @ '':'' @ show_nat p)"

definition host_name :: "string \<Rightarrow> bool" where
  "host_name h \<longleftrightarrow> h \<noteq> [] \<and> CHR '','' \<notin> set h \<and> CHR '':'' \<notin> set h \<and> list_all (\<lambda>c. \<not> py_space c) h"

lemma digit_facts: "is_digit c \<Longrightarrow> \<not> py_space c" "is_digit c \<Longrightarrow> c \<noteq> CHR '':''" "is_digit c \<Longrightarrow> c \<noteq> CHR '',''"
  by (auto simp: is_digit_def py_space_def Let_def)

lemma show_nat_chars: "set (show_nat n) \<subseteq> {c. is_digit c}" "show_nat n \<noteq> []"
  using show_nat_digits [of n] by (auto simp: all_digits_def list_all_iff)

lemma strip_no_space: "list_all (\<lambda>c. \<not> py_space c) s \<Longrightarrow> strip s = s"
  by (rule strip_fixed) (auto simp: list_all_iff)

lemma parse_host_part_show:
  assumes "host_name (fst e)"
  shows "parse_host_part (show_entry e) = Inr (Some (casefold (fst e), snd e))"
proof (cases e)
  case (Pair h p)
  have h: "h \<noteq> []" "CHR '':'' \<notin> set h" "strip h = h" "list_all (\<lambda>c. \<not> py_space c) h"
    using assms Pair by (auto simp: host_name_def strip_no_space)
  show ?thesis
  proof (cases p)
    case None
    with h Pair show ?thesis
      by (simp add: parse_host_part_def show_entry_def rpartition_at_miss)
  next
    case (Some n)
    have d: "CHR '':'' \<notin> set (show_nat n)" and sp: "list_all (\<lambda>c. \<not> py_space c) (show_nat n)"
      using show_nat_chars [of n] digit_facts by (auto simp: list_all_iff)
    have c: "\<not> py_space (CHR '':'')" by code_simp
    have s: "strip (h @ CHR '':'' # show_nat n) = h @ CHR '':'' # show_nat n"
      by (rule strip_no_space) (use h sp c in simp)
    show ?thesis
      using h d Pair Some show_nat_digits [of n]
      by (simp add: parse_host_part_def show_entry_def s rpartition_at_hit digits_val_show_nat
          Let_def)
  qed
qed

lemma parse_host_parts_show:
  "list_all (host_name \<circ> fst) es \<Longrightarrow>
   parse_host_parts (map show_entry es) = Inr (map (\<lambda>(h, p). (casefold h, p)) es)"
  by (induction es) (auto simp: parse_host_part_show)

lemma show_entry_no_comma: "host_name (fst e) \<Longrightarrow> CHR '','' \<notin> set (show_entry e)"
  using show_nat_chars digit_facts
  by (cases e) (auto simp: show_entry_def host_name_def split: option.splits, blast)

lemma parse_allowed_hosts_show:
  assumes "list_all (host_name \<circ> fst) es" and "es \<noteq> []"
  shows "parse_allowed_hosts (Some (join_with (CHR '','') (map show_entry es))) =
         Inr (map (\<lambda>(h, p). (casefold h, p)) es)"
proof -
  have "\<forall>w \<in> set (map show_entry es). CHR '','' \<notin> set w"
    using assms(1) show_entry_no_comma by (auto simp: list_all_iff)
  then show ?thesis
    using assms by (simp add: parse_allowed_hosts_def split_join parse_host_parts_show)
qed

lemma host_allows_iff:
  "host_allows (map (\<lambda>(h, p). (casefold h, p)) es) host port \<longleftrightarrow>
   (\<exists>(h, p) \<in> set es. casefold h = casefold host \<and> (p = None \<or> p = Some port))"
  by (induction es) (auto simp: host_allows_def)

text \<open>The simplest hook: append the event to a list.\<close>

definition log_hook :: "event list hook" where
  "log_hook k d = mmod (\<lambda>s. s @ [(k, d)])"

lemma log_hook_apply: "log_hook k d s = (s @ [(k, d)], Inr ())"
  by (simp add: log_hook_def act_apply)

lemma check_host_log:
  "check_host log_hook ap host port s =
     (if \<not> host_restricted (ap_hosts ap) \<or> host_allows (ap_hosts ap) host port then (s, Inr ())
      else (s @ [(''policy_violation'', [(''rule'', PStr ''allowed_hosts''), (''host'', PStr host), (''port'', PInt (int port))])],
            Inl (Exn PolicyViolation (PFStr [PStr ''host '', PStr host, PStr '':'', PInt (int port),
              PStr '' is not in '', PStr ALLOWED_HOSTS_ENV]))))"
  by (simp add: check_host_def policy_deny_def act_apply log_hook_apply)

section \<open>Properties\<close>

text \<open>
  The host allowlist end to end, from the text of the environment variable to the decision:
  for any non-empty list of entries written as documented, a connection is let through without
  an event exactly when an entry has the same host up to case and no port or this port; any
  other connection raises \<open>PolicyViolation\<close> after exactly one \<open>policy_violation\<close> event.
\<close>

theorem host_gate_end_to_end:
  assumes "list_all (host_name \<circ> fst) es" and "es \<noteq> []"
    and "env ALLOWED_HOSTS_ENV = Some (join_with (CHR '','') (map show_entry es))"
    and "env ENABLED_KINDS_ENV = None"
  shows "gate_host env log_hook host port evs =
    (if \<exists>(h, p) \<in> set es. casefold h = casefold host \<and> (p = None \<or> p = Some port) then (evs, Inr ())
     else (evs @ [(''policy_violation'', [(''rule'', PStr ''allowed_hosts''), (''host'', PStr host), (''port'', PInt (int port))])],
           Inl (Exn PolicyViolation (PFStr [PStr ''host '', PStr host, PStr '':'', PInt (int port),
              PStr '' is not in '', PStr ALLOWED_HOSTS_ENV]))))"
proof -
  have "policy_from_env env = Inr \<lparr>ap_hosts = map (\<lambda>(h, p). (casefold h, p)) es, ap_kinds = ALL_KINDS\<rparr>"
    using assms by (simp add: policy_from_env_def parse_allowed_hosts_show parse_enabled_kinds_def)
  then show ?thesis
    using \<open>es \<noteq> []\<close>
    by (simp only: gate_host_def act_defs check_host_log host_allows_iff host_restricted_def)
       (simp add: host_allows_iff)
qed

theorem host_gate_end_to_end_witness:
  "snd (gate_host ((\<lambda>_. None)(ALLOWED_HOSTS_ENV \<mapsto> ''Broker.lan:1883,plc.local'')) log_hook ''evil'' 1883 []) \<noteq> Inr ()"
proof -
  let ?es = "[(''Broker.lan'', Some 1883), (''plc.local'', None)] :: host_entry list"
  have t: "join_with (CHR '','') (map show_entry ?es) = ''Broker.lan:1883,plc.local''" by code_simp
  have h: "list_all (host_name \<circ> fst) ?es" by code_simp
  show ?thesis
    using host_gate_end_to_end [OF h, of "(\<lambda>_. None)(ALLOWED_HOSTS_ENV \<mapsto> ''Broker.lan:1883,plc.local'')" "''evil''" 1883 "[]"]
    unfolding t by (simp add: ENABLED_KINDS_ENV_def ALLOWED_HOSTS_ENV_def casefold_def lower_char_def)
qed

text \<open>
  The parser of \<open>IRONHARNESS_ENABLED_KINDS\<close> never fails open: it returns a non-empty
  subset of the known kinds, which is exactly the set of the listed names when any is listed
  and all kinds when none is; and it raises exactly when a listed name is unknown.
\<close>

theorem enabled_kinds_exact:
  "case parse_enabled_kinds (Some r) of
     Inr ks \<Rightarrow> set ks \<noteq> {} \<and> set ks \<subseteq> set ALL_KINDS \<and>
       (let named = {casefold (strip p) |p. p \<in> set (split_on (CHR '','') r) \<and> \<not> blank p}
        in set ks = (if named = {} then set ALL_KINDS else named))
   | Inl e \<Rightarrow> eclass e = ValueErr \<and>
       (\<exists>p \<in> set (split_on (CHR '','') r). \<not> blank p \<and> casefold (strip p) \<notin> set ALL_KINDS)"
proof (cases "blank r")
  case True
  have "blank p" if "p \<in> set (split_on (CHR '','') r)" for p
    using that True by (induction r arbitrary: p) (auto simp: blank_iff split: if_splits list.splits)
  with True show ?thesis by (auto simp: parse_enabled_kinds_def ALL_KINDS_def)
next
  case False
  show ?thesis
  proof (cases "parse_kind_parts (split_on (CHR '','') r) []")
    case (Inr ks)
    from parse_kind_parts_sub [OF this]
    have ks: "set ks = {casefold (strip p) |p. p \<in> set (split_on (CHR '','') r) \<and> \<not> blank p}"
      and sub: "set ks \<subseteq> set ALL_KINDS" by auto
    have "set ALL_KINDS \<noteq> {}" by (simp add: ALL_KINDS_def)
    then show ?thesis
      using False Inr sub unfolding ks [symmetric] by (auto simp: parse_enabled_kinds_def Let_def)
  next
    case (Inl e)
    have "parse_kind_parts ps ks = Inl e \<Longrightarrow> eclass e = ValueErr \<and>
        (\<exists>p \<in> set ps. \<not> blank p \<and> casefold (strip p) \<notin> set ALL_KINDS)" for ps ks
      by (induction ps arbitrary: ks)
         (auto simp: Let_def blank_def casefold_def split: if_splits)
    from this [OF Inl] show ?thesis using False Inl by (simp add: parse_enabled_kinds_def)
  qed
qed

end
