(* ===== verification/OpLimits.thy ===== *)
theory OpLimits
  imports Policy
begin

text \<open>
  \<open>src/io_core/limits.py\<close>: the readers of the two limit variables, the fixed-window rate
  limiter, and the two transport wrappers. A wrapped call is an action on the state of the inner
  transport; the wrapper's own fields are a record beside it. Each reading of the injected clock
  is an argument.
\<close>

definition TRANSPORT_DEADLINE_ENV :: string where
  "TRANSPORT_DEADLINE_ENV = ''IRONHARNESS_TRANSPORT_DEADLINE''"

definition TRANSPORT_RATE_ENV :: string where
  "TRANSPORT_RATE_ENV = ''IRONHARNESS_TRANSPORT_RATE''"

definition DEFAULT_TRANSPORT_DEADLINE_SEC :: rat where
  "DEFAULT_TRANSPORT_DEADLINE_SEC = 600"

section \<open>Configuration\<close>

definition float_error :: "string \<Rightarrow> exn" where
  "float_error s = Exn ValueErr (PFStr [PStr ''could not convert string to float: '', PRepr (PStr s)])"

definition parse_transport_deadline :: "string option \<Rightarrow> exn + rat option" where
  "parse_transport_deadline raw =
     (case raw of None \<Rightarrow> Inr (Some DEFAULT_TRANSPORT_DEADLINE_SEC)
      | Some r \<Rightarrow>
          if blank r then Inr (Some DEFAULT_TRANSPORT_DEADLINE_SEC)
          else if casefold (strip r) \<in> {''0'', ''off''} then Inr None
          else case py_float r of
            None \<Rightarrow> Inl (float_error r)
          | Some (Fin q) \<Rightarrow> if 0 < q then Inr (Some q)
              else Inl (Exn ValueErr (PFStr [PStr TRANSPORT_DEADLINE_ENV, PStr '' must be a finite number > 0, or 0/off'']))
          | Some _ \<Rightarrow> Inl (Exn ValueErr (PFStr [PStr TRANSPORT_DEADLINE_ENV, PStr '' must be a finite number > 0, or 0/off''])))"

definition parse_transport_rate :: "string option \<Rightarrow> exn + (nat \<times> rat) option" where
  "parse_transport_rate raw =
     (case raw of None \<Rightarrow> Inr None
      | Some r \<Rightarrow>
          if blank r then Inr None
          else case partition_at (CHR ''/'') r of (max_s, sep, per_s) \<Rightarrow>
            if \<not> sep then
              Inl (Exn ValueErr (PFStr [PStr TRANSPORT_RATE_ENV, PStr '' must be max_calls/window_seconds, got '', PRepr (PStr r)]))
            else case py_int max_s of
              None \<Rightarrow> Inl (Exn ValueErr (PFStr [PStr ''invalid literal for int(): '', PRepr (PStr max_s)]))
            | Some n \<Rightarrow>
                (case py_float per_s of
                   None \<Rightarrow> Inl (float_error per_s)
                 | Some per \<Rightarrow>
                     (case per of Fin q \<Rightarrow>
                        if 1 \<le> n \<and> n \<le> 10 ^ 9 \<and> 0 < q then Inr (Some (nat n, q))
                        else Inl (Exn ValueErr (PFStr [PStr TRANSPORT_RATE_ENV, PStr '' must be max_calls >= 1 and a finite window > 0'']))
                      | _ \<Rightarrow> Inl (Exn ValueErr (PFStr [PStr TRANSPORT_RATE_ENV, PStr '' must be max_calls >= 1 and a finite window > 0''])))))"

section \<open>The rate limiter\<close>

record rate_limiter =
  rl_max_calls :: nat
  rl_per :: rat
  rl_window_start :: "rat option"
  rl_used :: nat

definition rate_limiter_init :: "nat \<Rightarrow> rat \<Rightarrow> rate_limiter" where
  "rate_limiter_init max_calls per_seconds =
     \<lparr>rl_max_calls = max_calls, rl_per = per_seconds, rl_window_start = None, rl_used = 0\<rparr>"

definition acquire :: "rat \<Rightarrow> (rate_limiter, unit) act" where
  "acquire now l =
     (let fresh = (case rl_window_start l of None \<Rightarrow> True | Some w \<Rightarrow> rl_per l \<le> now - w);
          l1 = (if fresh then l\<lparr>rl_window_start := Some now, rl_used := 0\<rparr> else l);
          l2 = l1\<lparr>rl_used := Suc (rl_used l1)\<rparr>
      in (l2, if rl_max_calls l2 < rl_used l2
              then Inl (Exn RateLimitExceeded (PFStr [PStr ''operation #'', PInt (int (rl_used l2)),
                     PStr '' in window '', PNum (Fin (rl_per l2)), PStr ''s (limit '', PInt (int (rl_max_calls l2)), PStr '')'']))
              else Inr ()))"

text \<open>
  \<open>RateLimitedTransport\<close>: a call of a method of the wrapped transport. \<open>hook\<close> is its
  \<open>on_event\<close>; the inner transport and the hook share the state \<open>'s\<close>.
\<close>

definition rate_call :: "'s hook option \<Rightarrow> rat \<Rightarrow> ('s, 'a) act \<Rightarrow> (rate_limiter \<times> 's, 'a) act" where
  "rate_call hook now op =
     (\<lambda>(l, s). case acquire now l of
        (l', Inr _) \<Rightarrow> (case op s of (s', r) \<Rightarrow> ((l', s'), r))
      | (l', Inl e) \<Rightarrow>
          (if catches [RateLimitExceeded] e then
             (case hook of None \<Rightarrow> ((l', s), Inl e)
              | Some h \<Rightarrow> (case h ''rate_denied'' [(''error'', exn_str e)] s of
                  (s', Inl e') \<Rightarrow> ((l', s'), Inl e') | (s', Inr _) \<Rightarrow> ((l', s'), Inl e)))
           else ((l', s), Inl e)))"

section \<open>The idle deadline\<close>

record deadline =
  dl_seconds :: rat
  dl_started :: "rat option"
  dl_label :: "string option"

definition deadline_init :: "rat \<Rightarrow> string option \<Rightarrow> deadline" where
  "deadline_init seconds label = \<lparr>dl_seconds = seconds, dl_started = None, dl_label = label\<rparr>"

definition stale_error :: "deadline \<Rightarrow> exn" where
  "stale_error d =
     Exn OperationTimeout (PFStr
                 ([PStr ''no successful operation within '', PNum (Fin (dl_seconds d)), PStr ''s''] @
                  (case dl_label d of Some l \<Rightarrow> (if l = [] then [] else [PStr '' on connection '', PRepr (PStr l)]) | None \<Rightarrow> []) @
                  [PStr '' - the connection went stale, close and reopen it to reset the deadline'']))"

definition deadline_check :: "'s hook option \<Rightarrow> rat \<Rightarrow> deadline \<Rightarrow> ('s, unit) act" where
  "deadline_check hook now d =
     (case dl_started d of
        None \<Rightarrow> mraise (Exn TransportClosedError (PStr ''transport is not open''))
      | Some t0 \<Rightarrow>
          if dl_seconds d < now - t0 then
            mthen (case hook of None \<Rightarrow> mret ()
                   | Some h \<Rightarrow> h ''deadline_denied''
                       [(''deadline_sec'', PNum (Fin (dl_seconds d))), (''idle_sec'', PNum (Fin (now - t0)))])
              (mraise (stale_error d))
          else mret ())"

text \<open>
  A forwarded call reads the clock before the call and again after a successful one; only the
  second reading moves the window.
\<close>

definition deadline_call :: "'s hook option \<Rightarrow> rat \<Rightarrow> rat \<Rightarrow> ('s, 'a) act \<Rightarrow> (deadline \<times> 's, 'a) act" where
  "deadline_call hook before after op =
     (\<lambda>(d, s). case deadline_check hook before d s of
        (s1, Inl e) \<Rightarrow> ((d, s1), Inl e)
      | (s1, Inr _) \<Rightarrow>
          (case op s1 of
             (s2, Inl e) \<Rightarrow> ((d, s2), Inl e)
           | (s2, Inr x) \<Rightarrow> ((d\<lparr>dl_started := Some after\<rparr>, s2), Inr x)))"

definition deadline_open :: "rat \<Rightarrow> ('s, unit) act \<Rightarrow> (deadline \<times> 's, unit) act" where
  "deadline_open now inner_open =
     (\<lambda>(d, s). case inner_open s of
        (s', Inl e) \<Rightarrow> ((d, s'), Inl e)
      | (s', Inr _) \<Rightarrow> ((d\<lparr>dl_started := Some now\<rparr>, s'), Inr ()))"

definition deadline_close :: "('s, unit) act \<Rightarrow> (deadline \<times> 's, unit) act" where
  "deadline_close inner_close = (\<lambda>(d, s). case inner_close s of (s', r) \<Rightarrow> ((d, s'), r))"

section \<open>Runs of the limiter\<close>

fun acquires :: "rate_limiter \<Rightarrow> rat list \<Rightarrow> bool list" where
  "acquires l [] = []"
| "acquires l (t # ts) = (case acquire t l of (l', r) \<Rightarrow> (r = Inr ()) # acquires l' ts)"

text \<open>The calls let through at a time in \<open>[a, b)\<close>.\<close>

fun passed_in :: "rat \<Rightarrow> rat \<Rightarrow> rate_limiter \<Rightarrow> rat list \<Rightarrow> nat" where
  "passed_in a b l [] = 0"
| "passed_in a b l (t # ts) =
     (case acquire t l of (l', r) \<Rightarrow>
        (if r = Inr () \<and> a \<le> t \<and> t < b then 1 else 0) + passed_in a b l' ts)"

lemma passed_in_acquires:
  "passed_in a b l ts = length (filter (\<lambda>(t, ok). ok \<and> a \<le> t \<and> t < b) (zip ts (acquires l ts)))"
  by (induction ts arbitrary: l) (auto split: prod.split)

definition rl_fresh :: "rate_limiter \<Rightarrow> rat \<Rightarrow> bool" where
  "rl_fresh l t = (case rl_window_start l of None \<Rightarrow> True | Some w \<Rightarrow> rl_per l \<le> t - w)"

lemma acquire_eq:
  "acquire t l =
     (let l1 = (if rl_fresh l t then l\<lparr>rl_window_start := Some t, rl_used := 0\<rparr> else l);
          l2 = l1\<lparr>rl_used := Suc (rl_used l1)\<rparr>
      in (l2, snd (acquire t l)))"
  by (simp add: acquire_def rl_fresh_def Let_def)

lemma acquire_state:
  assumes "acquire t l = (l', r)"
  shows "rl_max_calls l' = rl_max_calls l" "rl_per l' = rl_per l"
    and "rl_window_start l' = (if rl_fresh l t then Some t else rl_window_start l)"
    and "rl_used l' = (if rl_fresh l t then 1 else Suc (rl_used l))"
    and "r = Inr () \<longleftrightarrow> rl_used l' \<le> rl_max_calls l"
  using assms by (auto simp: acquire_def rl_fresh_def Let_def split: if_splits)

text \<open>A window opened inside the interval lets through at most what is left of it.\<close>

lemma passed_inner:
  assumes "rl_window_start l = Some w" "a \<le> w" "sorted ts" "\<forall>t \<in> set ts. w \<le> t"
  shows "passed_in a (a + rl_per l) l ts \<le> rl_max_calls l - rl_used l"
  using assms
proof (induction ts arbitrary: l w)
  case Nil
  then show ?case by simp
next
  case (Cons t ts)
  obtain l' r where acq: "acquire t l = (l', r)" by fastforce
  note st = acquire_state [OF acq]
  show ?case
  proof (cases "rl_fresh l t")
    case False
    have "passed_in a (a + rl_per l') l' ts \<le> rl_max_calls l' - rl_used l'"
      by (rule Cons.IH [of l' w]) (use Cons.prems False st in auto)
    with False st acq show ?thesis by auto
  next
    case True
    with Cons.prems have late: "a + rl_per l \<le> t" by (simp add: rl_fresh_def)
    have none: "passed_in a b k us = 0" if "\<forall>u \<in> set us. b \<le> u" for b k us
      using that by (induction us arbitrary: k) (auto split: prod.split)
    have "passed_in a (a + rl_per l) l (t # ts) = 0"
      by (rule none) (use late Cons.prems in force)
    then show ?thesis by simp
  qed
qed

text \<open>Once the interval has begun, the window that was open gives the rest of its budget and one
  more window can open.\<close>

lemma passed_begun:
  assumes "\<forall>t \<in> set ts. a \<le> t" "sorted ts"
  shows "passed_in a (a + rl_per l) l ts \<le> (rl_max_calls l - rl_used l) + rl_max_calls l"
  using assms
proof (induction ts arbitrary: l)
  case Nil
  then show ?case by simp
next
  case (Cons t ts)
  obtain l' r where acq: "acquire t l = (l', r)" by fastforce
  note st = acquire_state [OF acq]
  show ?case
  proof (cases "rl_fresh l t")
    case True
    have "passed_in a (a + rl_per l') l' ts \<le> rl_max_calls l' - rl_used l'"
      by (rule passed_inner [of _ t]) (use Cons.prems True st in auto)
    with True st acq show ?thesis by auto
  next
    case False
    have "passed_in a (a + rl_per l') l' ts \<le> (rl_max_calls l' - rl_used l') + rl_max_calls l'"
      by (rule Cons.IH) (use Cons.prems in auto)
    with False st acq show ?thesis by auto
  qed
qed

lemma passed_any:
  assumes "sorted ts"
  shows "passed_in a (a + rl_per l) l ts \<le> 2 * rl_max_calls l"
  using assms
proof (induction ts arbitrary: l)
  case Nil
  then show ?case by simp
next
  case (Cons t ts)
  obtain l' r where acq: "acquire t l = (l', r)" by fastforce
  note st = acquire_state [OF acq]
  show ?case
  proof (cases "a \<le> t")
    case True
    have "passed_in a (a + rl_per l) l (t # ts) \<le> (rl_max_calls l - rl_used l) + rl_max_calls l"
      by (rule passed_begun) (use Cons.prems True in auto)
    then show ?thesis by simp
  next
    case False
    have "passed_in a (a + rl_per l') l' ts \<le> 2 * rl_max_calls l'"
      by (rule Cons.IH) (use Cons.prems in auto)
    with False st acq show ?thesis by auto
  qed
qed

section \<open>Runs under the idle deadline\<close>

text \<open>
  A conversation: each call with the two clock readings around it. \<open>raw_run\<close> is the same
  conversation on the unwrapped transport.
\<close>

fun deadline_run :: "'s hook option \<Rightarrow> (rat \<times> rat \<times> ('s, 'a) act) list \<Rightarrow> deadline \<times> 's \<Rightarrow> (deadline \<times> 's) \<times> (exn + 'a) list" where
  "deadline_run hook [] ds = (ds, [])"
| "deadline_run hook ((b, a, op) # cs) ds =
     (case deadline_call hook b a op ds of (ds', r) \<Rightarrow>
        (case deadline_run hook cs ds' of (ds'', rs) \<Rightarrow> (ds'', r # rs)))"

fun raw_run :: "(rat \<times> rat \<times> ('s, 'a) act) list \<Rightarrow> 's \<Rightarrow> 's \<times> (exn + 'a) list" where
  "raw_run [] s = (s, [])"
| "raw_run ((b, a, op) # cs) s =
     (case op s of (s', r) \<Rightarrow> (case raw_run cs s' of (s'', rs) \<Rightarrow> (s'', r # rs)))"

text \<open>The clock never shows more than \<open>w\<close> since the last successful call.\<close>

fun lively :: "rat \<Rightarrow> rat \<Rightarrow> (rat \<times> rat \<times> ('s, 'a) act) list \<Rightarrow> (exn + 'a) list \<Rightarrow> bool" where
  "lively w t0 ((b, a, op) # cs) (r # rs) =
     (b - t0 \<le> w \<and> lively w (case r of Inr _ \<Rightarrow> a | Inl _ \<Rightarrow> t0) cs rs)"
| "lively w t0 _ _ = True"

section \<open>Properties\<close>

text \<open>C38. The rate limiter: over any run of calls at non-decreasing times, and for every interval
  as long as the window (aligned to it or not), the calls let through in that interval are at
  most twice the configured number: the fixed window gives its full budget at most once in each
  of the two windows the interval can meet.
\<close>

theorem rate_limiter_bound:
  assumes "sorted ts"
  shows "length (filter (\<lambda>(t, ok). ok \<and> a \<le> t \<and> t < a + per)
           (zip ts (acquires (rate_limiter_init n per) ts))) \<le> 2 * n"
  using passed_any [OF assms, of a "rate_limiter_init n per"]
  by (simp add: passed_in_acquires rate_limiter_init_def)

theorem rate_limiter_bound_witness:
  "sorted [0, 5, 10, 11 :: rat] \<and>
   length (filter (\<lambda>(t, ok). ok \<and> 5 \<le> t \<and> t < 5 + (10 :: rat))
     (zip [0, 5, 10, 11] (acquires (rate_limiter_init 2 10) [0, 5, 10, 11]))) \<le> 2 * 2"
proof -
  have h: "sorted [0, 5, 10, 11 :: rat]" by simp
  show ?thesis using h rate_limiter_bound [OF h, of 5 10 2] by blast
qed

text \<open>
  Inside one window the limit is exact: the first \<open>n\<close> calls after the window opens pass,
  every later one before it ends is refused with \<open>RateLimitExceeded\<close>.
\<close>

theorem rate_limiter_window_exact:
  assumes "\<forall>u \<in> set ts. t \<le> u \<and> u < t + per" and "0 < n" and "0 < per"
  shows "acquires (rate_limiter_init n per) (t # ts) = map (\<lambda>i. i < n) [0..<Suc (length ts)]"
proof -
  have gen: "acquires l ts = map (\<lambda>i. i < rl_max_calls l) [rl_used l..<rl_used l + length ts]"
    if "rl_window_start l = Some t" "rl_per l = per" "\<forall>u \<in> set ts. t \<le> u \<and> u < t + per" for l ts
    using that
  proof (induction ts arbitrary: l)
    case Nil
    then show ?case by simp
  next
    case (Cons u us)
    obtain l' r where acq: "acquire u l = (l', r)" by fastforce
    note st = acquire_state [OF acq]
    have stale: "\<not> rl_fresh l u" using Cons.prems by (auto simp: rl_fresh_def)
    have "acquires l' us = map (\<lambda>i. i < rl_max_calls l') [rl_used l'..<rl_used l' + length us]"
      by (rule Cons.IH) (use Cons.prems stale st in auto)
    then show ?case
      using acq st stale by (simp add: upt_conv_Cons Suc_le_eq)
  qed
  obtain l' r where acq: "acquire t (rate_limiter_init n per) = (l', r)" by fastforce
  note st = acquire_state [OF acq]
  have f: "rl_fresh (rate_limiter_init n per) t" by (simp add: rl_fresh_def rate_limiter_init_def)
  have "acquires l' ts = map (\<lambda>i. i < n) [1..<1 + length ts]"
    using gen [of l' ts] st f assms by (simp add: rate_limiter_init_def)
  moreover have "r = Inr ()" using st f assms by (simp add: rate_limiter_init_def)
  ultimately show ?thesis using acq \<open>0 < n\<close> by (simp add: upt_conv_Cons del: upt_Suc)
qed

theorem rate_limiter_window_exact_witness:
  "acquires (rate_limiter_init 1 60) [0, 1] = [True, False]"
proof -
  have h: "\<forall>u \<in> set [1 :: rat]. 0 \<le> u \<and> u < 0 + 60" by simp
  show ?thesis using rate_limiter_window_exact [OF h, of 1] by simp
qed

text \<open>
  The idle deadline is invisible to a conversation in which no more than the configured time
  passes since the last successful call: every call gives the result it gives on the bare
  transport, failed calls included, and the transport ends in the same state.
\<close>

theorem deadline_transparent:
  assumes "dl_started d = Some t0"
    and "lively (dl_seconds d) t0 cs (snd (raw_run cs s))"
  shows "snd (deadline_run hook cs (d, s)) = snd (raw_run cs s) \<and>
         snd (fst (deadline_run hook cs (d, s))) = fst (raw_run cs s)"
  using assms
proof (induction cs arbitrary: d s t0)
  case Nil
  then show ?case by simp
next
  case (Cons c cs)
  obtain b a op where c: "c = (b, a, op)" by (cases c)
  obtain s1 r where op: "op s = (s1, r)" by fastforce
  let ?d1 = "case r of Inr _ \<Rightarrow> d\<lparr>dl_started := Some a\<rparr> | Inl _ \<Rightarrow> d"
  obtain s2 rs where raw: "raw_run cs s1 = (s2, rs)" by fastforce
  have live: "b - t0 \<le> dl_seconds d" "lively (dl_seconds d) (case r of Inr _ \<Rightarrow> a | Inl _ \<Rightarrow> t0) cs rs"
    using Cons.prems c op raw by auto
  have call: "deadline_call hook b a op (d, s) = ((?d1, s1), r)"
    using Cons.prems(1) live(1) op
    by (simp add: deadline_call_def deadline_check_def mret_def split: sum.split)
  have "snd (deadline_run hook cs (?d1, s1)) = snd (raw_run cs s1) \<and>
        snd (fst (deadline_run hook cs (?d1, s1))) = fst (raw_run cs s1)"
    by (rule Cons.IH [of ?d1 "case r of Inr _ \<Rightarrow> a | Inl _ \<Rightarrow> t0" s1])
       (use Cons.prems(1) live(2) raw in \<open>cases r; simp\<close>)+
  then show ?case using c op call by (simp add: split_beta)
qed

theorem deadline_transparent_witness:
  "snd (deadline_run None [(5, 6, mget id), (15, 16, mget id)] (\<lparr>dl_seconds = 10, dl_started = Some 0, dl_label = None\<rparr>, 7 :: nat))
   = [Inr 7, Inr 7]"
proof -
  let ?d = "\<lparr>dl_seconds = 10, dl_started = Some 0, dl_label = None\<rparr>"
  let ?cs = "[(5, 6, mget id), (15, 16, mget id)] :: (rat \<times> rat \<times> (nat, nat) act) list"
  have h: "lively (dl_seconds ?d) 0 ?cs (snd (raw_run ?cs 7))" by (simp add: mget_def)
  show ?thesis using deadline_transparent [of ?d 0 ?cs 7 None, OF _ h] by (simp add: mget_def)
qed

text \<open>
  A stale connection is refused and stays refused: once more than the configured time has
  passed since the last success, every call at that or a later time raises \<open>OperationTimeout\<close>,
  emits one \<open>deadline_denied\<close> event, does not reach the transport and does not move the window.
\<close>

theorem deadline_stale:
  assumes "dl_started d = Some t0" and "t0 + dl_seconds d < b" and "list_all (\<lambda>(b', _, _). b \<le> b') cs"
  shows "\<exists>evs. deadline_run (Some log_hook) cs (d, s) = ((d, s @ evs), map (\<lambda>c. Inl (stale_error d)) cs)
    \<and> map fst evs = replicate (length cs) ''deadline_denied''"
  using assms
proof (induction cs arbitrary: s)
  case Nil
  then show ?case by simp
next
  case (Cons c cs)
  obtain b' a op where c: "c = (b', a, op)" by (cases c)
  let ?ev = "(''deadline_denied'', [(''deadline_sec'', PNum (Fin (dl_seconds d))), (''idle_sec'', PNum (Fin (b' - t0)))])"
  have late: "dl_seconds d < b' - t0" using Cons.prems c by simp
  obtain evs where ih: "deadline_run (Some log_hook) cs (d, s @ [?ev]) = ((d, (s @ [?ev]) @ evs), map (\<lambda>c. Inl (stale_error d)) cs)"
    and n: "map fst evs = replicate (length cs) ''deadline_denied''"
    using Cons.IH [of "s @ [?ev]"] Cons.prems by auto
  show ?case
    by (rule exI [of _ "?ev # evs"])
       (use c late Cons.prems(1) ih n in \<open>simp add: deadline_call_def deadline_check_def act_apply log_hook_apply [of _ _ s]\<close>)
qed

theorem deadline_stale_witness:
  "\<exists>evs. fst (deadline_run (Some log_hook) [(700, 701, mret ())]
      (\<lparr>dl_seconds = 600, dl_started = Some 0, dl_label = Some ''b''\<rparr>, [])) =
    (\<lparr>dl_seconds = 600, dl_started = Some 0, dl_label = Some ''b''\<rparr>, evs) \<and> length evs = 1"
proof -
  let ?d = "\<lparr>dl_seconds = 600, dl_started = Some 0, dl_label = Some ''b''\<rparr>"
  let ?cs = "[(700, 701, mret ())] :: (rat \<times> rat \<times> (event list, unit) act) list"
  have "dl_started ?d = Some 0" "0 + dl_seconds ?d < 700" "list_all (\<lambda>(b', _, _). 700 \<le> b') ?cs" by simp_all
  from deadline_stale [OF this, of "[]"] obtain evs where
    "fst (deadline_run (Some log_hook) ?cs (?d, [])) = (?d, evs)" "map fst evs = [''deadline_denied'']"
    by auto
  then show ?thesis by (metis length_map length_Cons list.size(3) One_nat_def)
qed

end
