(* ===== verification/Faults.thy ===== *)
theory Faults
  imports Policy
begin

text \<open>
  \<open>src/io_core/faults.py\<close>: scripted failures over a transport. The random generator is a
  record of its three draws (\<open>random\<close>, \<open>sample\<close>, \<open>randrange\<close>), the requested delays
  are collected in \<open>ft_slept\<close>, and the wrapped transport is a pair of actions on its own state.
\<close>

declare push_bit_of_1 [simp del]

section \<open>Fault events\<close>

definition ACTIONS :: "string list" where
  "ACTIONS = [''drop'', ''corrupt'', ''delay'', ''disconnect'']"

record fault =
  f_action :: string
  f_after_ops :: int
  f_count :: "int option"
  f_probability :: rat
  f_ratio :: rat
  f_seconds :: rat

definition mk_fault :: "string \<Rightarrow> int \<Rightarrow> int option \<Rightarrow> rat \<Rightarrow> rat \<Rightarrow> rat \<Rightarrow> exn + fault" where
  "mk_fault action after_ops count probability ratio seconds =
     (if action \<notin> set ACTIONS then
        Inl (Exn ValueErr (PFStr [PStr ''unknown action '', PRepr (PStr action), PStr ''; allowed: '', PList (map PStr ACTIONS)]))
      else if \<not> (0 \<le> probability \<and> probability \<le> 1) then Inl (Exn ValueErr (PStr ''probability must be in [0, 1]''))
      else if \<not> (0 \<le> ratio \<and> ratio \<le> 1) then Inl (Exn ValueErr (PStr ''ratio must be in [0, 1]''))
      else if seconds < 0 then Inl (Exn ValueErr (PStr ''seconds must be >= 0''))
      else if after_ops < 0 then Inl (Exn ValueErr (PStr ''after_ops must be >= 0''))
      else if (case count of None \<Rightarrow> False | Some c \<Rightarrow> c < 1) then Inl (Exn ValueErr (PStr ''count must be >= 1 or None''))
      else Inr \<lparr>f_action = action, f_after_ops = after_ops, f_count = count, f_probability = probability,
                f_ratio = ratio, f_seconds = seconds\<rparr>)"

record 'r rng =
  r_random :: "'r \<Rightarrow> rat \<times> 'r"
  r_sample :: "nat \<Rightarrow> nat \<Rightarrow> 'r \<Rightarrow> nat list \<times> 'r"
  r_randrange :: "nat \<Rightarrow> 'r \<Rightarrow> nat \<times> 'r"

text \<open>What \<open>random.Random\<close> documents of its draws.\<close>

definition rng_ok :: "'r rng \<Rightarrow> bool" where
  "rng_ok R \<longleftrightarrow>
     (\<forall>g. 0 \<le> fst (r_random R g) \<and> fst (r_random R g) < 1) \<and>
     (\<forall>n k g. k \<le> n \<longrightarrow> distinct (fst (r_sample R n k g)) \<and> length (fst (r_sample R n k g)) = k \<and>
        (\<forall>i \<in> set (fst (r_sample R n k g)). i < n)) \<and>
     (\<forall>n g. 0 < n \<longrightarrow> fst (r_randrange R n g) < n)"

section \<open>Corruption\<close>

definition corrupt_count :: "nat \<Rightarrow> rat \<Rightarrow> nat" where
  "corrupt_count len ratio =
     (let c = nat (floor (of_nat len * ratio)) in max 1 (min (if c = 0 then 1 else c) len))"

fun flip_at :: "'r rng \<Rightarrow> nat list \<Rightarrow> bytes \<Rightarrow> 'r \<Rightarrow> bytes \<times> 'r" where
  "flip_at R [] out g = (out, g)"
| "flip_at R (pos # ps) out g =
     (case r_randrange R 8 g of (k, g') \<Rightarrow> flip_at R ps (out[pos := (out ! pos) XOR push_bit k 1]) g')"

definition corrupt :: "'r rng \<Rightarrow> bytes \<Rightarrow> rat \<Rightarrow> 'r \<Rightarrow> bytes \<times> 'r" where
  "corrupt R data ratio g =
     (if data = [] \<or> ratio \<le> 0 then (data, g)
      else case r_sample R (length data) (corrupt_count (length data) ratio) g of
        (positions, g') \<Rightarrow> flip_at R positions data g')"

section \<open>The wrapper\<close>

record 'r faulty =
  ft_faults :: "fault list"
  ft_rng :: 'r
  ft_ops :: nat
  ft_slept :: "rat list"

fun pick_active :: "'r rng \<Rightarrow> nat \<Rightarrow> fault list \<Rightarrow> 'r \<Rightarrow> fault list \<times> 'r" where
  "pick_active R ops [] g = ([], g)"
| "pick_active R ops (f # fs) g =
     (if int ops \<le> f_after_ops f then pick_active R ops fs g
      else if (case f_count f of None \<Rightarrow> False | Some c \<Rightarrow> f_after_ops f + c < int ops) then pick_active R ops fs g
      else case r_random R g of (x, g1) \<Rightarrow>
        (case pick_active R ops fs g1 of (act, g2) \<Rightarrow> (if x < f_probability f then f # act else act, g2)))"

definition active :: "'r rng \<Rightarrow> 'r faulty \<Rightarrow> 'r faulty \<times> fault list" where
  "active R t =
     (let ops = Suc (ft_ops t) in
      case pick_active R ops (ft_faults t) (ft_rng t) of
        (act, g) \<Rightarrow> (t\<lparr>ft_ops := ops, ft_rng := g\<rparr>, act))"

definition sleep_all :: "fault list \<Rightarrow> 'r faulty \<Rightarrow> 'r faulty" where
  "sleep_all fs t = t\<lparr>ft_slept := ft_slept t @ map f_seconds (filter (\<lambda>f. f_action f = ''delay'') fs)\<rparr>"

fun corrupt_all :: "'r rng \<Rightarrow> fault list \<Rightarrow> bytes \<Rightarrow> 'r \<Rightarrow> bytes \<times> 'r" where
  "corrupt_all R [] data g = (data, g)"
| "corrupt_all R (f # fs) data g =
     (if f_action f = ''corrupt''
      then (case corrupt R data (f_ratio f) g of (d, g') \<Rightarrow> corrupt_all R fs d g')
      else corrupt_all R fs data g)"

definition disconnect_error :: "nat \<Rightarrow> exn" where
  "disconnect_error ops = Exn ConnectionLost (PFStr [PStr ''scripted disconnect at operation '', PInt (int ops)])"

definition faulty_write :: "'r rng \<Rightarrow> (bytes \<Rightarrow> ('s, unit) act) \<Rightarrow> bytes \<Rightarrow> ('r faulty \<times> 's, unit) act" where
  "faulty_write R target_write data =
     (\<lambda>(t, s). case active R t of (t1, fs) \<Rightarrow>
        if list_ex (\<lambda>f. f_action f = ''disconnect'') fs then ((t1, s), Inl (disconnect_error (ft_ops t1)))
        else let t2 = sleep_all fs t1 in
          if list_ex (\<lambda>f. f_action f = ''drop'') fs then ((t2, s), Inr ())
          else case corrupt_all R fs data (ft_rng t2) of (d, g) \<Rightarrow>
            (case target_write d s of (s', r) \<Rightarrow> ((t2\<lparr>ft_rng := g\<rparr>, s'), r)))"

definition faulty_read :: "'r rng \<Rightarrow> (nat \<Rightarrow> ('s, bytes) act) \<Rightarrow> nat \<Rightarrow> ('r faulty \<times> 's, bytes) act" where
  "faulty_read R target_read size' =
     (\<lambda>(t, s). case active R t of (t1, fs) \<Rightarrow>
        if list_ex (\<lambda>f. f_action f = ''disconnect'') fs then ((t1, s), Inl (disconnect_error (ft_ops t1)))
        else let t2 = sleep_all fs t1 in
          if list_ex (\<lambda>f. f_action f = ''drop'') fs then ((t2, s), Inr [])
          else case target_read size' s of (s', r) \<Rightarrow> ((t2, s'), r))"

section \<open>Facts about corruption\<close>

text \<open>Two bytes that differ in exactly one bit.\<close>

definition one_bit_apart :: "byte \<Rightarrow> byte \<Rightarrow> bool" where
  "one_bit_apart a b \<longleftrightarrow> (\<exists>k<8. b = a XOR push_bit k 1)"

lemma one_bit_apartI: "k < 8 \<Longrightarrow> one_bit_apart a (a XOR push_bit k 1)"
  unfolding one_bit_apart_def by blast

lemma one_bit_apart_neq: "one_bit_apart a b \<Longrightarrow> a \<noteq> b"
proof -
  assume "one_bit_apart a b"
  then obtain k where k: "k < 8" "b = a XOR push_bit k 1" by (auto simp: one_bit_apart_def)
  have "bit a k \<noteq> bit b k" using k by (simp add: bit_xor_iff bit_push_bit_iff)
  then show ?thesis by blast
qed

lemma flip_at_spec:
  assumes "rng_ok R" "distinct ps" "\<forall>i \<in> set ps. i < length out"
  shows "length (fst (flip_at R ps out g)) = length out \<and>
    (\<forall>i < length out. if i \<in> set ps then one_bit_apart (out ! i) (fst (flip_at R ps out g) ! i)
       else fst (flip_at R ps out g) ! i = out ! i)"
  using assms
proof (induction ps arbitrary: out g)
  case Nil
  then show ?case by simp
next
  case (Cons p ps)
  obtain k g' where kg: "r_randrange R 8 g = (k, g')" by fastforce
  have k: "k < 8" using Cons.prems(1) kg unfolding rng_ok_def by (metis fst_conv zero_less_numeral)
  let ?out = "out[p := (out ! p) XOR push_bit k 1]"
  let ?res = "fst (flip_at R ps ?out g')"
  have ih: "length ?res = length ?out \<and>
    (\<forall>i < length ?out. if i \<in> set ps then one_bit_apart (?out ! i) (?res ! i) else ?res ! i = ?out ! i)"
    by (rule Cons.IH) (use Cons.prems in auto)
  have res: "if i \<in> set (p # ps) then one_bit_apart (out ! i) (?res ! i) else ?res ! i = out ! i"
    if i: "i < length out" for i
  proof (cases "i = p")
    case True
    with ih i Cons.prems have "?res ! i = ?out ! p" by auto
    with True i one_bit_apartI [OF k, of "out ! p"] show ?thesis by simp
  next
    case False
    with i have "?out ! i = out ! i" by simp
    with ih i False show ?thesis by auto
  qed
  have "fst (flip_at R (p # ps) out g) = ?res" using kg by simp
  with ih res show ?case by simp
qed

lemma corrupt_count_bounds: "0 < len \<Longrightarrow> 1 \<le> corrupt_count len ratio \<and> corrupt_count len ratio \<le> len"
proof -
  assume "0 < len"
  then have "1 \<le> max 1 (min y len) \<and> max 1 (min y len) \<le> len" for y by auto
  then show ?thesis unfolding corrupt_count_def Let_def by blast
qed

section \<open>Properties\<close>

text \<open>
  Corruption: a non-empty message under a positive ratio keeps its length, and exactly
  \<open>corrupt_count\<close> of its bytes (at least one, never more than there are) change, each by one
  inverted bit.
\<close>

theorem corrupt_flips_exactly:
  assumes "rng_ok R" and "data \<noteq> []" and "0 < ratio"
  shows "length (fst (corrupt R data ratio g)) = length data \<and>
    card {i. i < length data \<and> fst (corrupt R data ratio g) ! i \<noteq> data ! i} = corrupt_count (length data) ratio \<and>
    (\<forall>i < length data. fst (corrupt R data ratio g) ! i \<noteq> data ! i \<longrightarrow>
       one_bit_apart (data ! i) (fst (corrupt R data ratio g) ! i))"
proof -
  let ?n = "length data" let ?k = "corrupt_count ?n ratio"
  obtain ps g' where s: "r_sample R ?n ?k g = (ps, g')" by fastforce
  have k: "?k \<le> ?n" using corrupt_count_bounds [of ?n ratio] assms(2) by simp
  have ps: "distinct ps" "length ps = ?k" "\<forall>i \<in> set ps. i < ?n"
    using assms(1) k s unfolding rng_ok_def by (metis fst_conv)+
  have c: "fst (corrupt R data ratio g) = fst (flip_at R ps data g')"
    using assms s by (simp add: corrupt_def)
  note sp = flip_at_spec [OF assms(1) ps(1) ps(3), of g']
  have "{i. i < ?n \<and> fst (flip_at R ps data g') ! i \<noteq> data ! i} = set ps"
    using sp ps(3) one_bit_apart_neq by (auto split: if_splits) metis+
  then show ?thesis using sp c ps by (auto simp: distinct_card split: if_splits)
qed

definition fixed_rng :: "nat rng" where
  "fixed_rng = \<lparr>r_random = (\<lambda>g. (0, g)), r_sample = (\<lambda>n k g. ([0..<k], g)), r_randrange = (\<lambda>n g. (0, g))\<rparr>"

lemma fixed_rng_ok: "rng_ok fixed_rng"
  by (auto simp: rng_ok_def fixed_rng_def)

theorem corrupt_flips_exactly_witness:
  "rng_ok fixed_rng \<and> card {i. i < 4 \<and> fst (corrupt fixed_rng [1, 2, 3, 4] (1 / 2) 0) ! i \<noteq> [1, 2, 3, 4] ! i} = 2"
proof -
  have "corrupt_count 4 (1 / 2) = 2" by (simp add: corrupt_count_def)
  moreover have "length [1, 2, 3, 4 :: byte] = 4" by simp
  ultimately show ?thesis
    using corrupt_flips_exactly [OF fixed_rng_ok, of "[1, 2, 3, 4]" "1 / 2" 0] fixed_rng_ok
    by (simp only: simp_thms) simp
qed

text \<open>A sequence of writes under a script; the target collects what reaches it.\<close>

definition collect :: "bytes \<Rightarrow> (bytes list, unit) act" where
  "collect d = mmod (\<lambda>s. s @ [d])"

fun write_all :: "'r rng \<Rightarrow> bytes list \<Rightarrow> 'r faulty \<times> bytes list \<Rightarrow> ('r faulty \<times> bytes list) \<times> (exn + unit) list" where
  "write_all R [] ts = (ts, [])"
| "write_all R (d # ds) ts =
     (case faulty_write R collect d ts of (ts', r) \<Rightarrow>
        (case write_all R ds ts' of (ts'', rs) \<Rightarrow> (ts'', r # rs)))"

definition in_window :: "fault \<Rightarrow> nat \<Rightarrow> bool" where
  "in_window f i \<longleftrightarrow> f_after_ops f < int i \<and> (case f_count f of None \<Rightarrow> True | Some c \<Rightarrow> int i \<le> f_after_ops f + c)"

lemma pick_one:
  assumes "rng_ok R" "f_probability f = 1"
  shows "fst (pick_active R ops [f] g) = (if in_window f ops then [f] else [])"
proof -
  have "fst (r_random R g) < 1" using assms(1) by (simp add: rng_ok_def)
  then show ?thesis
    using assms(2) by (auto simp: in_window_def split: prod.splits option.splits)
qed

text \<open>
  The window of a certain drop is exact: over any sequence of writes after which the script
  holds one \<open>drop\<close> of probability 1, the target receives, in order and unchanged, exactly the
  messages whose 1-based operation number is outside \<open>(after_ops, after_ops + count]\<close>, and no
  write reports an error.
\<close>

theorem drop_window_exact:
  assumes "rng_ok R" and "f_probability f = 1" and "f_action f = ''drop''" and "ft_faults t = [f]"
  shows "snd (fst (write_all R ds (t, s))) =
      s @ map fst (filter (\<lambda>(d, i). \<not> in_window f i) (zip ds [Suc (ft_ops t)..<Suc (ft_ops t) + length ds])) \<and>
    snd (write_all R ds (t, s)) = replicate (length ds) (Inr ())"
  using assms(4)
proof (induction ds arbitrary: t s)
  case Nil
  then show ?case by simp
next
  case (Cons d ds)
  let ?i = "Suc (ft_ops t)"
  obtain act g where pa: "pick_active R ?i [f] (ft_rng t) = (act, g)" by fastforce
  have act: "act = (if in_window f ?i then [f] else [])"
    using pick_one [OF assms(1,2), of ?i "ft_rng t"] pa by simp
  let ?t = "t\<lparr>ft_ops := ?i, ft_rng := g\<rparr>"
  have w: "faulty_write R collect d (t, s) =
      ((?t, if in_window f ?i then s else s @ [d]), Inr ())"
    using Cons.prems pa act assms(3)
    by (simp add: faulty_write_def active_def sleep_all_def collect_def act_apply)
  obtain fin rs where tail: "write_all R ds (?t, if in_window f ?i then s else s @ [d]) = (fin, rs)"
    by fastforce
  have "snd (fst (write_all R ds (?t, if in_window f ?i then s else s @ [d]))) =
      (if in_window f ?i then s else s @ [d]) @
        map fst (filter (\<lambda>(d, i). \<not> in_window f i) (zip ds [Suc (ft_ops ?t)..<Suc (ft_ops ?t) + length ds])) \<and>
    snd (write_all R ds (?t, if in_window f ?i then s else s @ [d])) = replicate (length ds) (Inr ())"
    by (rule Cons.IH) (use Cons.prems in simp)
  moreover have upt: "[?i..<?i + length (d # ds)] = ?i # [Suc ?i..<Suc ?i + length ds]"
    by (simp add: upt_conv_Cons del: upt_Suc)
  ultimately show ?case unfolding upt unfolding write_all.simps w prod.case tail by (auto simp del: upt_Suc)
qed

theorem drop_window_exact_witness:
  "snd (fst (write_all fixed_rng [[1], [2], [3]]
     (\<lparr>ft_faults = [\<lparr>f_action = ''drop'', f_after_ops = 1, f_count = Some 1, f_probability = 1, f_ratio = 1 / 4, f_seconds = 0\<rparr>],
       ft_rng = 0, ft_ops = 0, ft_slept = []\<rparr>, []))) = [[1], [3]]"
proof -
  let ?f = "\<lparr>f_action = ''drop'', f_after_ops = 1, f_count = Some 1, f_probability = 1, f_ratio = 1 / 4, f_seconds = 0\<rparr>"
  let ?t = "\<lparr>ft_faults = [?f], ft_rng = 0, ft_ops = 0, ft_slept = []\<rparr> :: nat faulty"
  have "[Suc 0..<Suc 0 + 3] = [1, 2, 3]" by (simp add: upt_conv_Cons)
  then show ?thesis
    using drop_window_exact [OF fixed_rng_ok, of ?f ?t "[[1], [2], [3]]" "[]"]
    by (simp add: in_window_def upt_rec del: upt_Suc write_all.simps)
qed

end
