(* ===== verification/ModbusSim.thy ===== *)
theory ModbusSim
  imports Prelude
begin

text \<open>
  \<open>src/io_core/modbus_sim.py\<close>: the Modbus TCP simulator. A frame handler is a function of the
  register block and the protocol data unit; the connection loop reads framed requests from a
  byte stream. Where Python's \<open>struct\<close> or \<open>bytes\<close> would raise, the handler returns the
  exception.
\<close>

section \<open>Big-endian fields\<close>

definition be16 :: "byte \<Rightarrow> byte \<Rightarrow> nat" where
  "be16 hi lo = unat hi * 256 + unat lo"

definition pack16 :: "nat \<Rightarrow> bytes" where
  "pack16 n = [word_of_nat (n div 256), word_of_nat (n mod 256)]"

lemma be16_bound: "be16 h l < 65536"
  using unat_byte_less [of h] unat_byte_less [of l] unfolding be16_def by linarith

lemma unat_byte_of_nat: "n < 256 \<Longrightarrow> unat (word_of_nat n :: byte) = n"
  by (simp add: unat_of_nat take_bit_eq_mod)

lemma be16_pack16: "n < 65536 \<Longrightarrow> be16 (word_of_nat (n div 256)) (word_of_nat (n mod 256)) = n"
  by (simp add: be16_def unat_byte_of_nat less_mult_imp_div_less)

lemma pack16_be16: "pack16 (be16 h l) = [h, l]"
proof -
  have "be16 h l div 256 = unat h" "be16 h l mod 256 = unat l"
    using unat_byte_less [of l] by (simp_all add: be16_def)
  then show ?thesis by (simp add: pack16_def)
qed

fun words16 :: "bytes \<Rightarrow> nat list" where
  "words16 (h # l # bs) = be16 h l # words16 bs"
| "words16 _ = []"

definition packs16 :: "nat list \<Rightarrow> bytes" where
  "packs16 ns = concat (map pack16 ns)"

lemma words16_packs16: "list_all (\<lambda>n. n < 65536) ns \<Longrightarrow> words16 (packs16 ns) = ns"
  by (induction ns) (auto simp: packs16_def pack16_def be16_pack16)

lemma words16_bound: "list_all (\<lambda>n. n < 65536) (words16 bs)"
  by (induction bs rule: words16.induct) (auto simp: be16_bound)

lemma length_words16: "length (words16 bs) = length bs div 2"
  by (induction bs rule: words16.induct) auto

lemma length_packs16 [simp]: "length (packs16 ns) = 2 * length ns"
  by (induction ns) (auto simp: packs16_def pack16_def)

section \<open>Requests\<close>

definition struct_error :: exn where
  "struct_error = Exn StructErr (PStr ''format requires 0 <= number <= 65535'')"

definition bytes_range_error :: exn where
  "bytes_range_error = Exn ValueErr (PStr ''bytes must be in range(0, 256)'')"

text \<open>\<open>_handle_pdu\<close>: the new registers and the answer, or the exception that escapes.\<close>

definition handle_pdu :: "nat list \<Rightarrow> bytes \<Rightarrow> nat list \<times> (exn + bytes)" where
  "handle_pdu regs pdu =
     (if pdu = [] then (regs, Inr [0x80, 0x01])
      else let fc = pdu ! 0 in
        if fc = 3 \<and> 5 \<le> length pdu then
          (let start = be16 (pdu ! 1) (pdu ! 2); qty = be16 (pdu ! 3) (pdu ! 4) in
           if length regs < start + qty then (regs, Inr [0x83, 0x02])
           else if 255 < qty * 2 then (regs, Inl bytes_range_error)
           else let vals = take qty (drop start regs) in
             if list_all (\<lambda>v. v < 65536) vals
             then (regs, Inr ([3, word_of_nat (qty * 2)] @ packs16 vals))
             else (regs, Inl struct_error))
        else if fc = 6 \<and> 5 \<le> length pdu then
          (let addr = be16 (pdu ! 1) (pdu ! 2); value = be16 (pdu ! 3) (pdu ! 4) in
           if length regs \<le> addr then (regs, Inr [0x86, 0x02])
           else (regs[addr := value], Inr (take 5 pdu)))
        else if fc = 16 \<and> 6 \<le> length pdu then
          (let start = be16 (pdu ! 1) (pdu ! 2); qty = be16 (pdu ! 3) (pdu ! 4) in
           if length pdu < 6 + qty * 2 then (regs, Inr [0x90, 0x03])
           else if length regs < start + qty then (regs, Inr [0x90, 0x02])
           else (take start regs @ words16 (take (qty * 2) (drop 6 pdu)) @ drop (start + qty) regs,
                 Inr ([16] @ pack16 start @ pack16 qty)))
        else (regs, Inr [fc OR 0x80, 0x01]))"

section \<open>The connection loop\<close>

datatype link_end = Closed | Dropped | Crashed exn | Waiting

text \<open>
  \<open>handle\<close> over the bytes the client sends before it closes: the registers at the end, the
  answers sent, and why the loop ended. \<open>fuel\<close> bounds the number of frames; each consumes at
  least seven bytes.
\<close>

fun serve :: "nat \<Rightarrow> nat list \<Rightarrow> bytes \<Rightarrow> nat list \<times> bytes list \<times> link_end" where
  "serve 0 regs input = (regs, [], Waiting)"
| "serve (Suc fuel) regs input =
     (if length input < 7 then (regs, [], Closed)
      else let tid = take 2 input; pid = be16 (input ! 2) (input ! 3);
               len = be16 (input ! 4) (input ! 5); uid = input ! 6; rest = drop 7 input in
        if pid \<noteq> 0 then (regs, [], Dropped)
        else if len < 2 \<or> 260 < len then
          (if len = 0 \<or> 260 < len then (regs, [], Dropped)
           else case serve fuel regs rest of
             (regs', out, e) \<Rightarrow> (regs', (tid @ [0, 0] @ pack16 3 @ [uid] @ [0x80, 0x01]) # out, e))
        else if length rest < len - 1 then (regs, [], Closed)
        else case handle_pdu regs (take (len - 1) rest) of
          (regs1, Inl e) \<Rightarrow> (regs1, [], Crashed e)
        | (regs1, Inr resp) \<Rightarrow>
            (case serve fuel regs1 (drop (len - 1) rest) of
               (regs', out, e) \<Rightarrow> (regs', (tid @ [0, 0] @ pack16 (length resp + 1) @ [uid] @ resp) # out, e)))"

section \<open>Invariants\<close>

text \<open>Every register holds a 16-bit value.\<close>

definition regs_ok :: "nat list \<Rightarrow> bool" where
  "regs_ok regs = list_all (\<lambda>v. v < 65536) regs"

lemma regs_ok_take: "regs_ok regs \<Longrightarrow> list_all (\<lambda>v. v < 65536) (take n (drop m regs))"
  unfolding regs_ok_def list_all_iff by (meson in_set_dropD in_set_takeD)

lemma handle_pdu_length: "length (fst (handle_pdu regs pdu)) = length regs"
  by (auto simp: handle_pdu_def Let_def length_words16)

lemma handle_pdu_regs_ok:
  assumes "regs_ok regs"
  shows "regs_ok (fst (handle_pdu regs pdu))"
proof -
  have u: "regs_ok (regs[a := be16 h l])" for a h l
    using assms be16_bound by (cases "a < length regs") (auto simp: regs_ok_def list_all_length nth_list_update list_update_beyond)
  have b: "regs_ok (take n regs @ words16 bs @ drop m regs)" for n m bs
    using assms words16_bound [of bs] unfolding regs_ok_def
    by (auto simp: list_all_iff dest: in_set_takeD in_set_dropD)
  show ?thesis using assms u b by (auto simp: handle_pdu_def Let_def)
qed

lemma handle_pdu_raises:
  assumes "regs_ok regs" and "snd (handle_pdu regs pdu) = Inl e"
  shows "5 \<le> length pdu \<and> pdu ! 0 = 3 \<and> 128 \<le> be16 (pdu ! 3) (pdu ! 4) \<and>
    be16 (pdu ! 1) (pdu ! 2) + be16 (pdu ! 3) (pdu ! 4) \<le> length regs \<and> e = bytes_range_error"
  using assms regs_ok_take [OF assms(1)]
  by (auto simp: handle_pdu_def Let_def split: if_splits)

lemma serve_invariant:
  "serve fuel regs input = (regs', out, e) \<Longrightarrow> regs_ok regs \<Longrightarrow> regs_ok regs' \<and> length regs' = length regs"
proof (induction fuel arbitrary: regs input regs' out e)
  case (Suc fuel)
  have "regs_ok r \<and> length r = length regs" if "handle_pdu regs pdu = (r, x)" for pdu r x
    using that handle_pdu_regs_ok [OF Suc.prems(2), of pdu] handle_pdu_length [of regs pdu] by simp
  then show ?case
    using Suc.prems Suc.IH by (fastforce simp: Let_def split: if_splits prod.splits sum.splits)
qed simp

lemma serve_enough_fuel: "length input < 7 * fuel \<Longrightarrow> serve fuel regs input \<noteq> (regs', out, Waiting)"
proof (induction fuel arbitrary: regs input regs' out)
  case (Suc fuel)
  have "serve fuel r (drop 7 input) \<noteq> (x, y, Waiting)"
    and "serve fuel r (drop n (drop 7 input)) \<noteq> (x, y, Waiting)" if "\<not> length input < 7" for r n x y
    using Suc that by simp_all
  then show ?case by (auto simp: Let_def split: prod.splits sum.splits simp del: drop_drop)
qed simp

lemma serve_no_crash:
  "regs_ok regs \<Longrightarrow> length regs \<le> 127 \<Longrightarrow> serve fuel regs input \<noteq> (regs', out, Crashed e)"
proof (induction fuel arbitrary: regs input regs' out)
  case (Suc fuel)
  have raise: "handle_pdu regs pdu \<noteq> (r1, Inl e')" for pdu e' r1
    using handle_pdu_raises [OF Suc.prems(1), of pdu e'] Suc.prems(2) by auto
  have "serve fuel r1 inp \<noteq> (x, y, Crashed e)" if "handle_pdu regs pdu = (r1, resp)" for r1 inp resp pdu x y
    using Suc.IH [of r1 inp] Suc.prems handle_pdu_regs_ok [of regs pdu] handle_pdu_length [of regs pdu] that by simp
  then show ?case
    using raise Suc by (auto simp: Let_def split: prod.splits sum.splits simp del: drop_drop)
qed simp

section \<open>The register block as an interface\<close>

text \<open>
  What a client of a block of holding registers relies on: in range, a read returns the values
  of the block and a write replaces a slice of it.
\<close>

locale register_block =
  fixes rd :: "'s \<Rightarrow> nat \<Rightarrow> nat \<Rightarrow> nat list option"
    and wr :: "'s \<Rightarrow> nat \<Rightarrow> nat list \<Rightarrow> 's option"
    and block :: "'s \<Rightarrow> nat list"
    and invar :: "'s \<Rightarrow> bool"
    and limit :: nat
  assumes rd_block: "invar s \<Longrightarrow> a + n \<le> length (block s) \<Longrightarrow> n \<le> limit \<Longrightarrow>
      rd s a n = Some (take n (drop a (block s)))"
    and wr_block: "invar s \<Longrightarrow> a + length vs \<le> length (block s) \<Longrightarrow> length vs \<le> limit \<Longrightarrow>
      list_all (\<lambda>v. v < 65536) vs \<Longrightarrow>
      \<exists>s'. wr s a vs = Some s' \<and> invar s' \<and>
        block s' = take a (block s) @ vs @ drop (a + length vs) (block s)"
begin

definition writes :: "'s \<Rightarrow> (nat \<times> nat list) list \<Rightarrow> 's option" where
  "writes s ws = fold (\<lambda>(a, vs) so. case so of None \<Rightarrow> None | Some t \<Rightarrow> wr t a vs) ws (Some s)"

definition in_range :: "nat \<Rightarrow> nat \<times> nat list \<Rightarrow> bool" where
  "in_range size' w \<longleftrightarrow> fst w + length (snd w) \<le> size' \<and> length (snd w) \<le> limit \<and>
     list_all (\<lambda>v. v < 65536) (snd w)"

lemma writes_snoc: "writes s (ws @ [(a, vs)]) = (case writes s ws of None \<Rightarrow> None | Some t \<Rightarrow> wr t a vs)"
  by (simp add: writes_def)

lemma writes_ok:
  "invar s \<Longrightarrow> list_all (in_range (length (block s))) ws \<Longrightarrow>
   \<exists>t. writes s ws = Some t \<and> invar t \<and> length (block t) = length (block s)"
proof (induction ws rule: rev_induct)
  case Nil
  then show ?case by (simp add: writes_def)
next
  case (snoc w ws)
  obtain a vs where w: "w = (a, vs)" by (cases w)
  obtain t where t: "writes s ws = Some t" "invar t" "length (block t) = length (block s)"
    using snoc by auto
  have r: "a + length vs \<le> length (block t)" "length vs \<le> limit" "list_all (\<lambda>v. v < 65536) vs"
    using snoc.prems w t by (auto simp: in_range_def)
  from wr_block [OF t(2) r] obtain u where "wr t a vs = Some u" "invar u"
    "block u = take a (block t) @ vs @ drop (a + length vs) (block t)" by blast
  then show ?case using w t r by (simp add: writes_snoc)
qed

text \<open>The last write of a slice is what a read of it returns, whatever was written before.\<close>

lemma read_last_write:
  assumes "invar s" and "list_all (in_range (length (block s))) (ws @ [(a, vs)])"
  shows "\<exists>t. writes s (ws @ [(a, vs)]) = Some t \<and> rd t a (length vs) = Some vs"
proof -
  obtain t where t: "writes s ws = Some t" "invar t" "length (block t) = length (block s)"
    using writes_ok assms by auto
  have r: "a + length vs \<le> length (block t)" "length vs \<le> limit" "list_all (\<lambda>v. v < 65536) vs"
    using assms(2) t by (auto simp: in_range_def)
  from wr_block [OF t(2) r] obtain u where u: "wr t a vs = Some u" "invar u"
    "block u = take a (block t) @ vs @ drop (a + length vs) (block t)" by blast
  have "rd u a (length vs) = Some (take (length vs) (drop a (block u)))"
    by (rule rd_block) (use u r in auto)
  with u t r show ?thesis by (simp add: writes_snoc)
qed

text \<open>A read of a slice that a write does not touch is unaffected by it.\<close>

lemma read_frame:
  assumes "invar s" and "in_range (length (block s)) (a, vs)"
    and "b + n \<le> length (block s)" "n \<le> limit" and "b + n \<le> a \<or> a + length vs \<le> b"
  shows "\<exists>t. wr s a vs = Some t \<and> rd t b n = rd s b n"
proof -
  have r: "a + length vs \<le> length (block s)" "length vs \<le> limit" "list_all (\<lambda>v. v < 65536) vs"
    using assms(2) by (auto simp: in_range_def)
  from wr_block [OF assms(1) r] obtain t where t: "wr s a vs = Some t" "invar t"
    "block t = take a (block s) @ vs @ drop (a + length vs) (block s)" by blast
  have "rd t b n = Some (take n (drop b (block t)))"
    by (rule rd_block) (use t r assms in auto)
  moreover have "take n (drop b (block t)) = take n (drop b (block s))"
  proof (rule nth_equalityI)
    show "length (take n (drop b (block t))) = length (take n (drop b (block s)))"
      using t r assms by auto
  next
    fix i assume "i < length (take n (drop b (block t)))"
    then show "take n (drop b (block t)) ! i = take n (drop b (block s)) ! i"
      using t r assms by (auto simp: nth_append)
  qed
  ultimately show ?thesis using t rd_block [OF assms(1,3,4)] by simp
qed

end

text \<open>The requests a Modbus client sends, and what it makes of the answers.\<close>

definition sim_read :: "nat list \<Rightarrow> nat \<Rightarrow> nat \<Rightarrow> nat list option" where
  "sim_read regs a n =
     (case snd (handle_pdu regs ([3] @ pack16 a @ pack16 n)) of
        Inr (c # k # bs) \<Rightarrow> if c = 3 then Some (words16 bs) else None
      | _ \<Rightarrow> None)"

definition sim_write :: "nat list \<Rightarrow> nat \<Rightarrow> nat list \<Rightarrow> nat list option" where
  "sim_write regs a vs =
     (case handle_pdu regs ([16] @ pack16 a @ pack16 (length vs) @ [word_of_nat (2 * length vs)] @ packs16 vs) of
        (regs', Inr (c # bs)) \<Rightarrow> if c = 16 then Some regs' else None
      | _ \<Rightarrow> None)"

definition sim_invar :: "nat list \<Rightarrow> bool" where
  "sim_invar regs \<longleftrightarrow> regs_ok regs \<and> length regs \<le> 65535"

lemma sim_read_ok:
  assumes "sim_invar regs" "a + n \<le> length regs" "n \<le> 127"
  shows "sim_read regs a n = Some (take n (drop a regs))"
proof -
  let ?pdu = "[3] @ pack16 a @ pack16 n :: bytes"
  have r: "a < 65536" "n < 65536" using assms by (auto simp: sim_invar_def)
  then have f: "be16 (?pdu ! 1) (?pdu ! 2) = a" "be16 (?pdu ! 3) (?pdu ! 4) = n" "?pdu ! 0 = 3" "length ?pdu = 5"
    using be16_pack16 [OF r(1)] be16_pack16 [OF r(2)] by (simp_all add: pack16_def)
  have v: "list_all (\<lambda>v. v < 65536) (take n (drop a regs))"
    using assms regs_ok_take by (simp add: sim_invar_def)
  have "handle_pdu regs ?pdu = (regs, Inr ([3, word_of_nat (n * 2)] @ packs16 (take n (drop a regs))))"
    unfolding handle_pdu_def Let_def f using assms v by simp
  with v show ?thesis by (simp add: sim_read_def words16_packs16)
qed

lemma sim_write_ok:
  assumes "sim_invar regs" "a + length vs \<le> length regs" "length vs \<le> 127" "list_all (\<lambda>v. v < 65536) vs"
  shows "\<exists>regs'. sim_write regs a vs = Some regs' \<and> sim_invar regs' \<and>
    regs' = take a regs @ vs @ drop (a + length vs) regs"
proof -
  let ?pdu = "[16] @ pack16 a @ pack16 (length vs) @ [word_of_nat (2 * length vs)] @ packs16 vs :: bytes"
  have r: "a < 65536" "length vs < 65536" using assms by (auto simp: sim_invar_def)
  then have f: "be16 (?pdu ! 1) (?pdu ! 2) = a" "be16 (?pdu ! 3) (?pdu ! 4) = length vs" "?pdu ! 0 = 16"
    "length ?pdu = 6 + length vs * 2" "drop 6 ?pdu = packs16 vs"
    using be16_pack16 [OF r(1)] be16_pack16 [OF r(2)] by (simp_all add: pack16_def)
  have h: "handle_pdu regs ?pdu =
      (take a regs @ vs @ drop (a + length vs) regs, Inr ([16] @ pack16 a @ pack16 (length vs)))"
    unfolding handle_pdu_def Let_def f using assms by (simp add: words16_packs16)
  have "regs_ok (fst (handle_pdu regs ?pdu))" "length (fst (handle_pdu regs ?pdu)) = length regs"
    using assms handle_pdu_regs_ok handle_pdu_length by (auto simp: sim_invar_def)
  with h assms show ?thesis by (simp add: sim_write_def sim_invar_def)
qed

interpretation sim: register_block sim_read sim_write "\<lambda>regs. regs" sim_invar 127
  by unfold_locales (use sim_read_ok sim_write_ok in auto)

section \<open>Properties\<close>

text \<open>
  Block write and block read of the simulator are inverse over the wire: after any sequence
  of in-range FC16 requests, an FC3 request for the slice written last returns exactly the
  values of that write, and none of the requests is refused.
\<close>

theorem modbus_read_last_write:
  assumes "sim_invar regs" and "list_all (\<lambda>(a, vs). a + length vs \<le> length regs \<and> length vs \<le> 127 \<and>
      list_all (\<lambda>v. v < 65536) vs) (ws @ [(a, vs)])"
  shows "\<exists>regs'. fold (\<lambda>(a, vs) so. case so of None \<Rightarrow> None | Some t \<Rightarrow> sim_write t a vs) (ws @ [(a, vs)]) (Some regs) = Some regs'
    \<and> sim_read regs' a (length vs) = Some vs"
  using sim.read_last_write [OF assms(1), of ws a vs] assms(2)
  unfolding sim.writes_def sim.in_range_def by (simp add: case_prod_unfold)

theorem modbus_read_last_write_witness:
  "\<exists>regs'. fold (\<lambda>(a, vs) so. case so of None \<Rightarrow> None | Some t \<Rightarrow> sim_write t a vs)
      [(0, [1, 2]), (1, [7, 8])] (Some (replicate 4 0)) = Some regs' \<and> sim_read regs' 1 2 = Some [7, 8]"
proof -
  have i: "sim_invar (replicate 4 0)" by (simp add: sim_invar_def regs_ok_def list_all_length)
  have w: "list_all (\<lambda>(a, vs). a + length vs \<le> length (replicate 4 (0 :: nat)) \<and> length vs \<le> 127 \<and>
      list_all (\<lambda>v. v < 65536) vs) ([(0, [1, 2 :: nat])] @ [(1, [7, 8 :: nat])])" by simp
  show ?thesis using modbus_read_last_write [OF i w] by (simp add: numeral_2_eq_2)
qed

text \<open>
  No input stream crashes the handler of a simulator with at most 127 registers (its
  default has 64): from registers that hold 16-bit values, any bytes leave as many registers,
  all 16-bit, and with one unit of fuel per seven bytes the loop has ended by closing or
  dropping the link, never by an exception.
\<close>

theorem modbus_serve_robust:
  assumes "regs_ok regs" and "length regs \<le> 127" and "length input < 7 * fuel"
  shows "case serve fuel regs input of (regs', answers, e) \<Rightarrow>
    regs_ok regs' \<and> length regs' = length regs \<and> (e = Closed \<or> e = Dropped)"
proof -
  obtain regs' answers e where s: "serve fuel regs input = (regs', answers, e)" by (metis prod_cases3)
  have "e \<noteq> Waiting" using serve_enough_fuel [OF assms(3), of regs] s by simp
  moreover have "e \<noteq> Crashed x" for x using serve_no_crash [OF assms(1,2), of fuel input] s by simp
  ultimately have "e = Closed \<or> e = Dropped" by (cases e) auto
  with serve_invariant [OF s assms(1)] s show ?thesis by simp
qed

theorem modbus_serve_robust_witness:
  "case serve 2 (replicate 64 0) [0, 1, 0, 0, 0, 6, 1, 6, 0, 3, 0, 9] of (regs', answers, e) \<Rightarrow>
    regs_ok regs' \<and> length regs' = length (replicate 64 (0 :: nat)) \<and> (e = Closed \<or> e = Dropped)"
proof -
  have "regs_ok (replicate 64 0)" "length (replicate 64 (0 :: nat)) \<le> 127"
    by (simp_all add: regs_ok_def list_all_length)
  then show ?thesis
    by (rule modbus_serve_robust) simp
qed

text \<open>
  The bound of the previous property is sharp, and the only exception that can escape the
  handler is the one of the byte count of an FC3 answer: a read of 128 registers or more from a
  block that has them raises \<open>ValueError\<close> instead of answering.
\<close>

theorem modbus_pdu_raises_iff:
  assumes "regs_ok regs"
  shows "(\<exists>e. snd (handle_pdu regs pdu) = Inl e) \<longleftrightarrow>
    5 \<le> length pdu \<and> pdu ! 0 = 3 \<and> 128 \<le> be16 (pdu ! 3) (pdu ! 4) \<and>
    be16 (pdu ! 1) (pdu ! 2) + be16 (pdu ! 3) (pdu ! 4) \<le> length regs"
proof
  assume "\<exists>e. snd (handle_pdu regs pdu) = Inl e"
  then show "5 \<le> length pdu \<and> pdu ! 0 = 3 \<and> 128 \<le> be16 (pdu ! 3) (pdu ! 4) \<and>
    be16 (pdu ! 1) (pdu ! 2) + be16 (pdu ! 3) (pdu ! 4) \<le> length regs"
    using handle_pdu_raises [OF assms] by blast
next
  assume "5 \<le> length pdu \<and> pdu ! 0 = 3 \<and> 128 \<le> be16 (pdu ! 3) (pdu ! 4) \<and>
    be16 (pdu ! 1) (pdu ! 2) + be16 (pdu ! 3) (pdu ! 4) \<le> length regs"
  then show "\<exists>e. snd (handle_pdu regs pdu) = Inl e"
    by (auto simp: handle_pdu_def Let_def)
qed

theorem modbus_pdu_raises_iff_witness:
  "\<exists>e. snd (handle_pdu (replicate 200 0) [3, 0, 0, 0, 128]) = Inl e"
proof -
  have r: "regs_ok (replicate 200 0)" by (simp add: regs_ok_def list_all_length)
  show ?thesis using modbus_pdu_raises_iff [OF r, of "[3, 0, 0, 0, 128]"] by (simp add: be16_def)
qed

end
