(* ===== verification/MqttSim.thy ===== *)
theory MqttSim
  imports PyText ModbusSim
begin

text \<open>
  \<open>src/io_core/mqtt_sim.py\<close>: the MQTT 3.1.1 simulator broker. Topic masks, the variable-length
  packet framing, and the handlers of one client on the state of the broker (the retained
  messages and, for every client, its subscriptions and the packets sent to it). Topics are the
  UTF-8 bytes of the Python strings, so decoding is the check that the bytes are valid UTF-8.
\<close>

section \<open>Topic masks\<close>

definition slash :: byte where "slash = 0x2f"
definition plus_mask :: bytes where "plus_mask = [0x2b]"
definition hash_mask :: bytes where "hash_mask = [0x23]"

text \<open>The loop of \<open>topic_matches\<close> over the levels of the mask, from position \<open>i\<close>.\<close>

fun match_levels :: "bytes list \<Rightarrow> bytes list \<Rightarrow> nat \<Rightarrow> bytes list \<Rightarrow> bool" where
  "match_levels p_levels t_levels i [] = (length p_levels = length t_levels)"
| "match_levels p_levels t_levels i (p # ps) =
     (if p = hash_mask then i = length p_levels - 1
      else if length t_levels \<le> i then False
      else if p \<noteq> plus_mask \<and> p \<noteq> t_levels ! i then False
      else match_levels p_levels t_levels (Suc i) ps)"

definition topic_matches :: "bytes \<Rightarrow> bytes \<Rightarrow> bool" where
  "topic_matches pattern topic =
     (let p_levels = split_on slash pattern; t_levels = split_on slash topic
      in match_levels p_levels t_levels 0 p_levels)"

text \<open>The meaning of a mask, level by level.\<close>

fun mask_sem :: "bytes list \<Rightarrow> bytes list \<Rightarrow> bool" where
  "mask_sem [] [] = True"
| "mask_sem [] (t # ts) = False"
| "mask_sem (p # ps) ts =
     (if p = hash_mask then ps = []
      else case ts of [] \<Rightarrow> False | t # ts' \<Rightarrow> (p = plus_mask \<or> p = t) \<and> mask_sem ps ts')"

lemma match_levels_sem:
  "length (take i pl) = i \<Longrightarrow> i \<le> length tl' \<Longrightarrow>
   match_levels pl tl' i (drop i pl) = mask_sem (drop i pl) (drop i tl')"
proof (induction "length pl - i" arbitrary: i)
  case 0
  then have "drop i pl = []" "i = length pl" by simp_all
  then show ?case using 0 by (cases "drop i tl'") auto
next
  case (Suc n)
  then have i: "i < length pl" by simp
  then have d: "drop i pl = pl ! i # drop (Suc i) pl" by (simp add: Cons_nth_drop_Suc)
  show ?case
  proof (cases "i < length tl'")
    case True
    then have t: "drop i tl' = tl' ! i # drop (Suc i) tl'" by (simp add: Cons_nth_drop_Suc)
    have "match_levels pl tl' (Suc i) (drop (Suc i) pl) = mask_sem (drop (Suc i) pl) (drop (Suc i) tl')"
      by (rule Suc.hyps(1)) (use Suc.hyps(2) i True in auto)
    then show ?thesis using i True by (auto simp: d t)
  next
    case False
    then show ?thesis using i by (auto simp: d)
  qed
qed

lemma topic_matches_sem: "topic_matches p t = mask_sem (split_on slash p) (split_on slash t)"
  using match_levels_sem [of 0 "split_on slash p" "split_on slash t"] by (simp add: topic_matches_def Let_def)

section \<open>Packet framing\<close>

text \<open>
  \<open>_read_exact\<close> and \<open>_read_varint\<close> on the bytes still to come; \<open>None\<close> is the
  \<open>ConnectionError\<close> of a stream that ends early.
\<close>

definition read_exact :: "nat \<Rightarrow> bytes \<Rightarrow> (bytes \<times> bytes) option" where
  "read_exact n input = (if length input < n then None else Some (take n input, drop n input))"

definition conn_error :: exn where
  "conn_error = Exn ConnectionErr (PStr ''client disconnected'')"

definition varint_error :: exn where
  "varint_error = Exn ValueErr (PStr ''invalid Remaining Length (more than 4 bytes)'')"

fun read_varint_loop :: "nat \<Rightarrow> nat \<Rightarrow> nat \<Rightarrow> bytes \<Rightarrow> exn + nat \<times> bytes" where
  "read_varint_loop 0 multiplier value' input = Inl varint_error"
| "read_varint_loop (Suc k) multiplier value' input =
     (case input of [] \<Rightarrow> Inl conn_error
      | b # rest \<Rightarrow>
          let v = value' + unat (b AND 0x7F) * multiplier in
          if b AND 0x80 = 0 then Inr (v, rest) else read_varint_loop k (multiplier * 128) v rest)"

definition read_varint :: "bytes \<Rightarrow> exn + nat \<times> bytes" where
  "read_varint input = read_varint_loop 4 1 0 input"

fun encode_varint :: "nat \<Rightarrow> bytes" where
  "encode_varint n =
     (if n < 128 then [word_of_nat n]
      else (word_of_nat (n mod 128) OR 0x80) # encode_varint (n div 128))"

declare encode_varint.simps [simp del]

definition encode_packet :: "byte \<Rightarrow> bytes \<Rightarrow> bytes" where
  "encode_packet type_flags body = [type_flags] @ encode_varint (length body) @ body"

text \<open>One packet off the stream, as the head of the loop of \<open>serve\<close> reads it.\<close>

definition read_packet :: "bytes \<Rightarrow> exn + (byte \<times> bytes) \<times> bytes" where
  "read_packet input =
     (case input of [] \<Rightarrow> Inl conn_error
      | tf # rest \<Rightarrow>
          (case read_varint rest of Inl e \<Rightarrow> Inl e
           | Inr (len, rest') \<Rightarrow>
               (case read_exact len rest' of None \<Rightarrow> Inl conn_error
                | Some (body, rest'') \<Rightarrow> Inr ((tf, body), rest''))))"

lemma low_bits:
  "n < 128 \<Longrightarrow> unat ((word_of_nat n :: byte) AND 0x7F) = n"
  "n < 128 \<Longrightarrow> (word_of_nat n :: byte) AND 0x80 = 0"
proof -
  have "\<forall>n \<in> {0..<128}. unat ((word_of_nat n :: byte) AND 0x7F) = n \<and> (word_of_nat n :: byte) AND 0x80 = 0"
    by code_simp
  then show "n < 128 \<Longrightarrow> unat ((word_of_nat n :: byte) AND 0x7F) = n"
    "n < 128 \<Longrightarrow> (word_of_nat n :: byte) AND 0x80 = 0" by simp_all
qed

lemma with_high_bit:
  "n < 128 \<Longrightarrow> unat (((word_of_nat n :: byte) OR 0x80) AND 0x7F) = n"
  "n < 128 \<Longrightarrow> ((word_of_nat n :: byte) OR 0x80) AND 0x80 \<noteq> 0"
proof -
  have "\<forall>n \<in> {0..<128}. unat (((word_of_nat n :: byte) OR 0x80) AND 0x7F) = n \<and>
      ((word_of_nat n :: byte) OR 0x80) AND 0x80 \<noteq> 0" by code_simp
  then show "n < 128 \<Longrightarrow> unat (((word_of_nat n :: byte) OR 0x80) AND 0x7F) = n"
    "n < 128 \<Longrightarrow> ((word_of_nat n :: byte) OR 0x80) AND 0x80 \<noteq> 0" by simp_all
qed

lemma read_encode_loop:
  "n < 128 ^ k \<Longrightarrow> 0 < k \<Longrightarrow> read_varint_loop k m v (encode_varint n @ rest) = Inr (v + n * m, rest)"
proof (induction k arbitrary: n m v)
  case 0
  then show ?case by simp
next
  case (Suc k)
  show ?case
  proof (cases "n < 128")
    case True
    then show ?thesis
      by (subst encode_varint.simps) (simp add: Let_def low_bits)
  next
    case False
    have k: "0 < k" using Suc.prems False by (cases k) auto
    have small: "n div 128 < 128 ^ k" using Suc.prems(1) by (simp add: less_mult_imp_div_less mult.commute)
    define q r where "q = n div 128" and "r = n mod 128"
    then have n: "n = 128 * q + r" by simp
    have eq: "v + n mod 128 * m + n div 128 * (m * 128) = v + n * m"
      unfolding q_def [symmetric] r_def [symmetric] unfolding n by (simp add: algebra_simps)
    have "n mod 128 < 128" by simp
    then show ?thesis
      using False Suc.IH [OF small k, of "m * 128" "v + n mod 128 * m"] eq
      by (subst encode_varint.simps) (simp add: Let_def with_high_bit)
  qed
qed

lemma read_encode_loop_long:
  "128 ^ k \<le> n \<Longrightarrow> read_varint_loop k m v (encode_varint n @ rest) = Inl varint_error"
proof (induction k arbitrary: n m v)
  case 0
  then show ?case by simp
next
  case (Suc k)
  have big: "\<not> n < 128"
  proof
    assume "n < 128"
    moreover have "(128 :: nat) \<le> 128 ^ Suc k" by simp
    ultimately show False using Suc.prems by linarith
  qed
  have ge: "128 ^ k \<le> n div 128" using Suc.prems by (simp add: less_eq_div_iff_mult_less_eq mult.commute)
  have "n mod 128 < 128" by simp
  then show ?case
    using big Suc.IH [OF ge] by (subst encode_varint.simps) (simp add: Let_def with_high_bit)
qed

section \<open>The broker and its clients\<close>

text \<open>
  A client is known by a number. \<open>sb_sent\<close> is the sequence of packets handed to the sockets,
  each with its addressee; a send to a client of \<open>sb_dead\<close> raises \<open>OSError\<close>.
\<close>

record sim_broker =
  sb_clients :: "(nat \<times> bytes list) list"
  sb_retained :: "(bytes \<times> bytes) list"
  sb_sent :: "(nat \<times> bytes) list"
  sb_dead :: "nat list"

definition CONNECT :: nat where "CONNECT = 1"
definition PUBLISH :: nat where "PUBLISH = 3"
definition SUBSCRIBE :: nat where "SUBSCRIBE = 8"
definition PINGREQ :: nat where "PINGREQ = 12"
definition DISCONNECT :: nat where "DISCONNECT = 14"

definition from_be :: "bytes \<Rightarrow> nat" where
  "from_be bs = fold (\<lambda>b n. n * 256 + unat b) bs 0"

definition send :: "nat \<Rightarrow> bytes \<Rightarrow> (sim_broker, unit) act" where
  "send c packet =
     (\<lambda>s. if c \<in> set (sb_dead s) then (s, Inl (Exn OSErr (PStr ''send'')))
          else (s\<lparr>sb_sent := sb_sent s @ [(c, packet)]\<rparr>, Inr ()))"

definition publish_body :: "bytes \<Rightarrow> bytes \<Rightarrow> bytes" where
  "publish_body topic payload = pack16 (length topic) @ topic @ payload"

definition publish_packet :: "bytes \<Rightarrow> bytes \<Rightarrow> bytes" where
  "publish_packet topic payload = encode_packet 0x30 (publish_body topic payload)"

definition subscribed :: "bytes list \<Rightarrow> bytes \<Rightarrow> bool" where
  "subscribed filters topic = list_ex (\<lambda>f. topic_matches f topic) filters"

fun broadcast_to :: "bytes \<Rightarrow> bytes \<Rightarrow> (nat \<times> bytes list) list \<Rightarrow> (sim_broker, unit) act" where
  "broadcast_to topic payload [] = mret ()"
| "broadcast_to topic payload ((c, subs) # cs) =
     mthen
       (if subscribed subs topic
        then mcatch (catches [OSErr]) (send c (publish_packet topic payload)) (\<lambda>_. mret ())
        else mret ())
       (broadcast_to topic payload cs)"

definition broadcast :: "bytes \<Rightarrow> bytes \<Rightarrow> nat \<Rightarrow> (sim_broker, unit) act" where
  "broadcast topic payload exclude =
     mbind (mget (\<lambda>s. filter (\<lambda>(c, _). c \<noteq> exclude) (sb_clients s))) (broadcast_to topic payload)"

definition decode_error :: exn where
  "decode_error = Exn UnicodeDecodeErr (PStr ''utf-8'')"

definition set_retained :: "bytes \<Rightarrow> bytes \<Rightarrow> sim_broker \<Rightarrow> sim_broker" where
  "set_retained topic rest s =
     s\<lparr>sb_retained := (if rest \<noteq> [] then AList.update topic rest (sb_retained s)
                       else AList.delete topic (sb_retained s))\<rparr>"

definition handle_publish :: "nat \<Rightarrow> byte \<Rightarrow> bytes \<Rightarrow> (sim_broker, unit) act" where
  "handle_publish c flags body =
     (let qos = unat (drop_bit 1 flags AND 3); retain = (flags AND 1 \<noteq> 0);
          tlen = from_be (take 2 body); topic = take tlen (drop 2 body); rest = drop (2 + tlen) body
      in if \<not> utf8_valid topic then mraise decode_error
         else if qos = 1 then
           mthen (send c (encode_packet 0x40 (take 2 rest)))
             (mthen (if retain then mmod (set_retained topic (drop 2 rest)) else mret ())
               (broadcast topic (drop 2 rest) c))
         else if qos \<noteq> 0 then mret ()
         else mthen (if retain then mmod (set_retained topic rest) else mret ())
               (broadcast topic rest c))"

text \<open>The filters of a SUBSCRIBE body after the packet identifier.\<close>

fun parse_filters :: "bytes \<Rightarrow> exn + bytes list" where
  "parse_filters [] = Inr []"
| "parse_filters (b # bs) =
     (let tlen = from_be (take 2 (b # bs)); pattern = take tlen (drop 2 (b # bs))
      in if \<not> utf8_valid pattern then Inl decode_error
         else case parse_filters (drop (tlen + 2) bs) of Inl e \<Rightarrow> Inl e | Inr fs \<Rightarrow> Inr (pattern # fs))"

definition add_subs :: "nat \<Rightarrow> bytes list \<Rightarrow> sim_broker \<Rightarrow> sim_broker" where
  "add_subs c filters s =
     s\<lparr>sb_clients := map (\<lambda>(d, subs). if d = c then (d, subs @ filters) else (d, subs)) (sb_clients s)\<rparr>"

fun send_retained :: "nat \<Rightarrow> bytes list \<Rightarrow> (bytes \<times> bytes) list \<Rightarrow> (sim_broker, unit) act" where
  "send_retained c filters [] = mret ()"
| "send_retained c filters ((topic, payload) # rs) =
     mthen (if subscribed filters topic then send c (publish_packet topic payload) else mret ())
       (send_retained c filters rs)"

definition handle_subscribe :: "nat \<Rightarrow> bytes \<Rightarrow> (sim_broker, unit) act" where
  "handle_subscribe c body =
     mbind (mlift (parse_filters (drop 2 body))) (\<lambda>filters.
     mthen (mmod (add_subs c filters))
     (mthen (send c (encode_packet 0x90 (take 2 body @ replicate (length filters) 0)))
     (mbind (mget sb_retained) (send_retained c filters))))"

text \<open>The body of the loop of \<open>serve\<close>; \<open>True\<close> is its \<open>return\<close> on DISCONNECT.\<close>

definition dispatch :: "nat \<Rightarrow> byte \<Rightarrow> bytes \<Rightarrow> (sim_broker, bool) act" where
  "dispatch c type_flags body =
     (let ptype = unat (drop_bit 4 type_flags) in
      if ptype = PUBLISH then mthen (handle_publish c (type_flags AND 0x0F) body) (mret False)
      else if ptype = SUBSCRIBE then mthen (handle_subscribe c body) (mret False)
      else if ptype = PINGREQ then mthen (send c [0xD0, 0x00]) (mret False)
      else if ptype = DISCONNECT then mret True
      else if ptype = CONNECT then mthen (send c [0x20, 0x02, 0x00, 0x00]) (mret False)
      else mret False)"

fun serve_loop :: "nat \<Rightarrow> nat \<Rightarrow> bytes \<Rightarrow> (sim_broker, unit) act" where
  "serve_loop 0 c input = mret ()"
| "serve_loop (Suc fuel) c input =
     (case read_packet input of
        Inl e \<Rightarrow> mraise e
      | Inr ((tf, body), rest) \<Rightarrow>
          mbind (dispatch c tf body) (\<lambda>stop. if stop then mret () else serve_loop fuel c rest))"

definition remove_client :: "nat \<Rightarrow> sim_broker \<Rightarrow> sim_broker" where
  "remove_client c s = s\<lparr>sb_clients := AList.delete c (sb_clients s)\<rparr>"

text \<open>\<open>_serve_client\<close>: one unit of fuel per byte of input is enough, a packet has at least two.\<close>

definition serve_client :: "nat \<Rightarrow> bytes \<Rightarrow> (sim_broker, unit) act" where
  "serve_client c input =
     mfinally (mcatch (catches [ConnectionErr, OSErr, ValueErr]) (serve_loop (Suc (length input)) c input)
       (\<lambda>_. mret ())) (remove_client c)"

definition accept_client :: "nat \<Rightarrow> sim_broker \<Rightarrow> sim_broker" where
  "accept_client c s = s\<lparr>sb_clients := sb_clients s @ [(c, [])]\<rparr>"

definition stop_broker :: "sim_broker \<Rightarrow> sim_broker" where
  "stop_broker s = s\<lparr>sb_clients := []\<rparr>"

section \<open>Facts about delivery\<close>

lemma broadcast_to_eq:
  "broadcast_to topic payload cs s =
     (s\<lparr>sb_sent := sb_sent s @ map (\<lambda>(c, _). (c, publish_packet topic payload))
        (filter (\<lambda>(c, subs). subscribed subs topic \<and> c \<notin> set (sb_dead s)) cs)\<rparr>, Inr ())"
proof (induction cs arbitrary: s)
  case Nil
  then show ?case by (simp add: act_apply)
next
  case (Cons d cs)
  obtain c subs where d: "d = (c, subs)" by (cases d)
  have "catches [OSErr] (Exn OSErr (PStr ''send''))" by (simp add: catches_def exn_is_def)
  then show ?case
    using Cons by (simp add: d act_apply send_def)
qed

lemma broadcast_eq:
  "broadcast topic payload c s =
     (s\<lparr>sb_sent := sb_sent s @ map (\<lambda>(d, _). (d, publish_packet topic payload))
        (filter (\<lambda>(d, subs). d \<noteq> c \<and> subscribed subs topic \<and> d \<notin> set (sb_dead s)) (sb_clients s))\<rparr>, Inr ())"
proof -
  have "filter (\<lambda>(d, subs). subscribed subs topic \<and> d \<notin> set (sb_dead s)) (filter (\<lambda>(d, _). d \<noteq> c) (sb_clients s)) =
      filter (\<lambda>(d, subs). d \<noteq> c \<and> subscribed subs topic \<and> d \<notin> set (sb_dead s)) (sb_clients s)"
    by (simp add: case_prod_unfold conj_assoc)
  then show ?thesis by (simp add: broadcast_def act_apply broadcast_to_eq)
qed

lemma from_be_pack16: "n < 65536 \<Longrightarrow> from_be (pack16 n) = n"
  using be16_pack16 [of n] by (simp add: from_be_def pack16_def be16_def)

lemma pack16_length [simp]: "length (pack16 n) = 2"
  by (simp add: pack16_def)

lemma publish_body_split:
  assumes "length topic < 65536"
  shows "from_be (take 2 (publish_body topic p)) = length topic"
    and "take (length topic) (drop 2 (publish_body topic p)) = topic"
    and "drop (2 + length topic) (publish_body topic p) = p"
  using assms by (simp_all add: publish_body_def from_be_pack16)

lemma send_retained_eq:
  "c \<notin> set (sb_dead s) \<Longrightarrow> send_retained c fs rs s =
     (s\<lparr>sb_sent := sb_sent s @ map (\<lambda>(t, p). (c, publish_packet t p)) (filter (\<lambda>(t, _). subscribed fs t) rs)\<rparr>, Inr ())"
  by (induction rs arbitrary: s) (auto simp: act_apply send_def)

section \<open>Properties\<close>

text \<open>C40. Packet framing round trip and its bound: a packet whose body is below \<open>128 ^ 4\<close> bytes is
  read back exactly, with the bytes after it left on the stream; for a longer body the header
  \<open>_encode_packet\<close> writes is one that \<open>_read_varint\<close> rejects.
\<close>

theorem mqtt_packet_roundtrip:
  "read_packet (encode_packet tf body @ rest) =
     (if length body < 128 ^ 4 then Inr ((tf, body), rest) else Inl varint_error)"
proof (cases "length body < 128 ^ 4")
  case True
  then show ?thesis
    using read_encode_loop [of "length body" 4 1 0 "body @ rest"]
    by (simp add: read_packet_def encode_packet_def read_varint_def read_exact_def)
next
  case False
  then show ?thesis
    using read_encode_loop_long [of 4 "length body" 1 0 "body @ rest"]
    by (simp add: read_packet_def encode_packet_def read_varint_def)
qed

text \<open>
  \<open>topic_matches\<close> decides the level-wise meaning of a mask: every level of the mask is
  the level of the topic or \<open>+\<close>, a \<open>#\<close> matches any remaining levels (none included) and only
  as the last level, and without it both have the same number of levels.
\<close>

theorem topic_matches_correct:
  "topic_matches (join_with slash ps) (join_with slash ts) = mask_sem ps ts"
  if "ps \<noteq> []" "ts \<noteq> []" "\<forall>w \<in> set (ps @ ts). slash \<notin> set w"
  using that by (simp add: topic_matches_sem split_join)

theorem topic_matches_correct_witness:
  "topic_matches (encode_str ''a/+/#'') (encode_str ''a/b'') \<and> \<not> topic_matches (encode_str ''a/+'') (encode_str ''a'')"
proof -
  have j: "encode_str ''a/+/#'' = join_with slash [encode_str ''a'', plus_mask, hash_mask]"
    "encode_str ''a/b'' = join_with slash [encode_str ''a'', encode_str ''b'']"
    "encode_str ''a/+'' = join_with slash [encode_str ''a'', plus_mask]"
    "encode_str ''a'' = join_with slash [encode_str ''a'']"
    by code_simp+
  have w: "\<forall>w \<in> set ([encode_str ''a'', plus_mask, hash_mask] @ [encode_str ''a'', encode_str ''b'']). slash \<notin> set w"
    "\<forall>w \<in> set ([encode_str ''a'', plus_mask] @ [encode_str ''a'']). slash \<notin> set w"
    by code_simp+
  have sem: "mask_sem [encode_str ''a'', plus_mask, hash_mask] [encode_str ''a'', encode_str ''b'']"
    "\<not> mask_sem [encode_str ''a'', plus_mask] [encode_str ''a'']"
    by code_simp+
  show ?thesis
    unfolding j(1-3) using sem topic_matches_correct [OF _ _ w(1)] topic_matches_correct [OF _ _ w(2)] j(4) by simp
qed

text \<open>
  Delivery of a QoS 0 publish, retained or not: every connected client other than the
  sender that has a matching subscription and a working socket receives exactly one packet with
  this topic and payload, in the order of connection; nobody else receives anything; and the
  retained message of the topic is replaced, or removed by an empty payload, exactly when the
  retain flag is set.
\<close>

theorem mqtt_publish_delivery:
  assumes "length topic < 65536" and "utf8_valid topic" and "flags = (if retain then 1 else 0)"
  shows "handle_publish c flags (publish_body topic p) s =
    (s\<lparr>sb_sent := sb_sent s @ map (\<lambda>(d, _). (d, publish_packet topic p))
         (filter (\<lambda>(d, subs). d \<noteq> c \<and> list_ex (\<lambda>f. topic_matches f topic) subs \<and> d \<notin> set (sb_dead s)) (sb_clients s)),
       sb_retained := (if \<not> retain then sb_retained s
         else if p = [] then AList.delete topic (sb_retained s) else AList.update topic p (sb_retained s))\<rparr>, Inr ())"
proof -
  note sp = publish_body_split [OF assms(1), of p]
  have f: "unat (drop_bit 1 flags AND 3) = 0" "(flags AND 1 \<noteq> 0) = retain"
    using assms(3) by (cases retain; simp)+
  show ?thesis
    unfolding handle_publish_def Let_def sp f
    using assms(2) by (simp add: act_apply broadcast_eq set_retained_def subscribed_def)
qed

theorem mqtt_publish_delivery_witness:
  "handle_publish 1 0 (publish_body (encode_str ''t'') [9])
     \<lparr>sb_clients = [(1, [hash_mask]), (2, [hash_mask]), (3, [])], sb_retained = [], sb_sent = [], sb_dead = []\<rparr> =
   (\<lparr>sb_clients = [(1, [hash_mask]), (2, [hash_mask]), (3, [])], sb_retained = [],
     sb_sent = [(2, publish_packet (encode_str ''t'') [9])], sb_dead = []\<rparr>, Inr ())"
proof -
  let ?s = "\<lparr>sb_clients = [(1, [hash_mask]), (2, [hash_mask]), (3, [])], sb_retained = [], sb_sent = [], sb_dead = []\<rparr>"
  have t: "length (encode_str ''t'') < 65536" "utf8_valid (encode_str ''t'')"
    by (simp, code_simp)
  have m: "topic_matches hash_mask (encode_str ''t'')" by code_simp
  have f: "filter (\<lambda>(d, subs). d \<noteq> 1 \<and> list_ex (\<lambda>f. topic_matches f (encode_str ''t'')) subs \<and> d \<notin> set (sb_dead ?s)) (sb_clients ?s) =
      [(2, [hash_mask])]" using m by simp
  have z: "(0 :: byte) = (if False then 1 else 0)" by simp
  show ?thesis
    unfolding mqtt_publish_delivery [OF t z, of 1 "[9]" ?s] f by simp
qed

text \<open>
  A late subscriber sees the retained state: right after the SUBACK a SUBSCRIBE is answered
  with, for every retained topic its filters match, exactly one packet with the retained payload.
\<close>

theorem mqtt_subscribe_retained:
  assumes "c \<notin> set (sb_dead s)" and "parse_filters (drop 2 body) = Inr filters"
  shows "handle_subscribe c body s =
    ((add_subs c filters s)\<lparr>sb_sent := sb_sent s @
       (c, encode_packet 0x90 (take 2 body @ replicate (length filters) 0)) #
       map (\<lambda>(t, p). (c, publish_packet t p)) (filter (\<lambda>(t, _). list_ex (\<lambda>f. topic_matches f t) filters) (sb_retained s))\<rparr>, Inr ())"
proof -
  let ?s1 = "(add_subs c filters s)\<lparr>sb_sent := sb_sent s @ [(c, encode_packet 0x90 (take 2 body @ replicate (length filters) 0))]\<rparr>"
  have d: "c \<notin> set (sb_dead (add_subs c filters s))" "sb_sent (add_subs c filters s) = sb_sent s"
    "sb_retained (add_subs c filters s) = sb_retained s" using assms by (simp_all add: add_subs_def)
  have "send_retained c filters (sb_retained s) ?s1 =
    (?s1\<lparr>sb_sent := sb_sent ?s1 @ map (\<lambda>(t, p). (c, publish_packet t p)) (filter (\<lambda>(t, _). subscribed filters t) (sb_retained s))\<rparr>, Inr ())"
    by (rule send_retained_eq) (use d in simp)
  then show ?thesis
    using d by (simp add: handle_subscribe_def act_apply assms(2) send_def subscribed_def)
qed

theorem mqtt_subscribe_retained_witness:
  "map fst (sb_sent (fst (handle_subscribe 4 [0, 7, 0, 1, 0x23, 0]
     \<lparr>sb_clients = [(4, [])], sb_retained = [([0x61], [5])], sb_sent = [], sb_dead = []\<rparr>))) = [4, 4]"
proof -
  let ?s = "\<lparr>sb_clients = [(4, [])], sb_retained = [([0x61], [5])], sb_sent = [], sb_dead = []\<rparr>"
  have p: "parse_filters (drop 2 [0, 7, 0, 1, 0x23, 0]) = Inr [[0x23]]" by code_simp
  have m: "topic_matches [0x23] [0x61]" by code_simp
  have d: "(4 :: nat) \<notin> set (sb_dead ?s)" by simp
  show ?thesis using mqtt_subscribe_retained [OF d p] m by simp
qed

end
