(* ===== verification/Verify.thy ===== *)
theory Verify
  imports PyText
begin

text \<open>
  \<open>src/io_core/verify.py\<close>: read until the expected bytes appear. The world the loop observes is
  a list with, for every turn of the loop, the clock reading of its head and the outcome of its
  \<open>transport.read\<close>; the pause after an empty read has no other effect. A call that needs
  more observations than the list has is \<open>None\<close>: it has not returned yet.
\<close>

type_synonym observation = "rat \<times> (exn + bytes)"

definition MAX_EXPECT_BUF :: nat where
  "MAX_EXPECT_BUF = 256 * 1024"

definition not_confirmed :: "bytes \<Rightarrow> rat \<Rightarrow> bytes \<Rightarrow> exn" where
  "not_confirmed expected timeout buf =
     Exn VerificationError (PFStr [PStr ''did not get '', PRepr (PUtf8 expected), PStr '' within '', PNum (Fin timeout),
       PStr ''s; buffer: '', PRepr (PUtf8 buf)])"

definition buffer_exceeded :: "bytes \<Rightarrow> bytes \<Rightarrow> exn" where
  "buffer_exceeded expected buf =
     Exn VerificationError (PFStr [PStr ''answer buffer exceeded '', PInt (int MAX_EXPECT_BUF), PStr '' bytes without '',
       PRepr (PUtf8 expected), PStr ''; tail: '', PRepr (PUtf8 (drop (length buf - 64) buf))])"

fun expect_loop :: "bytes \<Rightarrow> rat \<Rightarrow> rat \<Rightarrow> bytes \<Rightarrow> observation list \<Rightarrow> (exn + bytes) option" where
  "expect_loop expected timeout deadline buf obs =
     (if occurs expected buf then Some (Inr buf)
      else case obs of
        [] \<Rightarrow> None
      | (now, got) # rest \<Rightarrow>
          if deadline \<le> now then Some (Inl (not_confirmed expected timeout buf))
          else case got of
            Inl e \<Rightarrow> Some (Inl e)
          | Inr chunk \<Rightarrow>
              if MAX_EXPECT_BUF < length (buf @ chunk) then Some (Inl (buffer_exceeded expected (buf @ chunk)))
              else expect_loop expected timeout deadline (buf @ chunk) rest)"

declare expect_loop.simps [simp del]

definition expect_read :: "bytes \<Rightarrow> rat \<Rightarrow> rat \<Rightarrow> observation list \<Rightarrow> (exn + bytes) option" where
  "expect_read expected timeout start obs =
     (if expected = [] then Some (Inr []) else expect_loop expected timeout (start + timeout) [] obs)"

definition write_and_expect ::
  "(bytes \<Rightarrow> ('s, unit) act) \<Rightarrow> bytes \<Rightarrow> bytes option \<Rightarrow> rat \<Rightarrow> rat \<Rightarrow> observation list \<Rightarrow> 's \<Rightarrow> 's \<times> (exn + bytes) option" where
  "write_and_expect dev_write data expected timeout start obs s =
     (case dev_write data s of
        (s', Inl e) \<Rightarrow> (s', Some (Inl e))
      | (s', Inr _) \<Rightarrow> (s', expect_read (case expected of None \<Rightarrow> data | Some x \<Rightarrow> x) timeout start obs))"

section \<open>The loop in closed form\<close>

text \<open>The bytes the first \<open>k\<close> reads brought.\<close>

definition received :: "observation list \<Rightarrow> nat \<Rightarrow> bytes" where
  "received obs k = concat (map (\<lambda>(_, got). case got of Inr chunk \<Rightarrow> chunk | Inl _ \<Rightarrow> []) (take k obs))"

text \<open>Turn \<open>j\<close> neither ends the loop nor raises.\<close>

definition goes_on :: "rat \<Rightarrow> bytes \<Rightarrow> observation list \<Rightarrow> bytes \<Rightarrow> nat \<Rightarrow> bool" where
  "goes_on deadline buf obs expected j \<longleftrightarrow>
     \<not> occurs expected (buf @ received obs j) \<and> fst (obs ! j) < deadline \<and>
     (\<exists>chunk. snd (obs ! j) = Inr chunk) \<and> length (buf @ received obs (Suc j)) \<le> MAX_EXPECT_BUF"

lemma received_simps [simp]:
  "received obs 0 = []"
  "received ((t, Inr c) # obs) (Suc k) = c @ received obs k"
  by (simp_all add: received_def)

lemma goes_on_Suc [simp]:
  "goes_on d buf ((t, Inr c) # obs) x (Suc j) \<longleftrightarrow> goes_on d (buf @ c) obs x j"
  by (simp add: goes_on_def)

lemma goes_on_0 [simp]:
  "goes_on d buf ((t, got) # obs) x 0 \<longleftrightarrow>
     \<not> occurs x buf \<and> t < d \<and> (\<exists>c. got = Inr c \<and> length (buf @ c) \<le> MAX_EXPECT_BUF)"
  by (cases got) (auto simp: goes_on_def)

lemma expect_loop_success:
  "expect_loop x timeout d buf obs = Some (Inr res) \<longleftrightarrow>
     (\<exists>k \<le> length obs. (\<forall>j < k. goes_on d buf obs x j) \<and> res = buf @ received obs k \<and> occurs x res)"
proof (induction obs arbitrary: buf)
  case Nil
  then show ?case by (auto simp: expect_loop.simps [of x timeout d buf])
next
  case (Cons o1 obs)
  obtain t got where o1: "o1 = (t, got)" by (cases o1)
  show ?case
  proof (cases "occurs x buf \<or> d \<le> t \<or> (\<exists>e. got = Inl e) \<or> (\<exists>c. got = Inr c \<and> MAX_EXPECT_BUF < length (buf @ c))")
    case True
    have stuck: "\<not> goes_on d buf (o1 # obs) x 0" using True by (auto simp: o1)
    have "(\<exists>k \<le> length (o1 # obs). (\<forall>j < k. goes_on d buf (o1 # obs) x j) \<and> res = buf @ received (o1 # obs) k \<and> occurs x res)
        \<longleftrightarrow> res = buf \<and> occurs x res"
      using stuck by (metis append_Nil2 gr0I le0 not_less_zero received_simps(1))
    then show ?thesis
      using True by (subst expect_loop.simps) (auto simp: o1 split: sum.splits)
  next
    case False
    then obtain c where got: "got = Inr c" by (cases got) auto
    with False have g0: "goes_on d buf (o1 # obs) x 0" by (auto simp: o1)
    have step: "expect_loop x timeout d buf (o1 # obs) = expect_loop x timeout d (buf @ c) obs"
      using False by (subst expect_loop.simps) (auto simp: o1 got)
    have shift: "(\<exists>k \<le> length (o1 # obs). (\<forall>j < k. goes_on d buf (o1 # obs) x j) \<and> res = buf @ received (o1 # obs) k \<and> occurs x res)
        \<longleftrightarrow> (\<exists>k \<le> length obs. (\<forall>j < k. goes_on d (buf @ c) obs x j) \<and> res = (buf @ c) @ received obs k \<and> occurs x res)"
      (is "?L \<longleftrightarrow> ?R")
    proof
      assume ?L
      then obtain k where k: "k \<le> length (o1 # obs)" "\<forall>j < k. goes_on d buf (o1 # obs) x j"
        "res = buf @ received (o1 # obs) k" "occurs x res" by blast
      have "k \<noteq> 0" using k(3,4) False by (intro notI) simp
      then obtain k' where "k = Suc k'" by (cases k) auto
      with k show ?R by (intro exI [of _ k']) (force simp: o1 got)
    next
      assume ?R
      then obtain k where k: "k \<le> length obs" "\<forall>j < k. goes_on d (buf @ c) obs x j"
        "res = (buf @ c) @ received obs k" "occurs x res" by blast
      have "goes_on d buf (o1 # obs) x j" if "j < Suc k" for j
        using that k(2) g0 by (cases j) (auto simp: o1 got)
      with k show ?L by (intro exI [of _ "Suc k"]) (simp add: o1 got)
    qed
    show ?thesis unfolding step shift by (rule Cons.IH)
  qed
qed

lemma expect_loop_stops:
  "\<exists>o' \<in> set obs. d \<le> fst o' \<Longrightarrow> expect_loop x timeout d buf obs \<noteq> None"
proof (induction obs arbitrary: buf)
  case (Cons o1 obs)
  then show ?case
    by (subst expect_loop.simps) (auto split: sum.splits prod.splits)
qed simp

section \<open>Properties\<close>

text \<open>
  What \<open>expect_read\<close> returns, exactly: the concatenation of the first \<open>k\<close> chunks, for
  a \<open>k\<close> at which the expected bytes occur in it, when before that on every turn they did not
  occur yet, the clock was below the deadline, the read did not raise and the buffer stayed
  within its limit. So the result depends on the stream and not on how it was cut into chunks,
  and an answer whose last chunk overruns the limit is refused even if it is complete.
\<close>

theorem expect_read_exact:
  assumes "expected \<noteq> []"
  shows "expect_read expected timeout start obs = Some (Inr res) \<longleftrightarrow>
    (\<exists>k \<le> length obs. res = received obs k \<and> occurs expected res \<and>
       (\<forall>j < k. \<not> occurs expected (received obs j) \<and> fst (obs ! j) < start + timeout \<and>
          (\<exists>chunk. snd (obs ! j) = Inr chunk) \<and> length (received obs (Suc j)) \<le> MAX_EXPECT_BUF))"
  using assms by (auto simp: expect_read_def expect_loop_success goes_on_def)

theorem expect_read_exact_witness:
  "expect_read [2, 3] 5 0 [(1, Inr [1, 2]), (2, Inr []), (3, Inr [3, 4])] = Some (Inr [1, 2, 3, 4])"
proof -
  let ?o = "[(1, Inr [1, 2]), (2, Inr []), (3, Inr [3, 4])] :: observation list"
  have occ: "occurs [2, 3] [1, 2, 3, 4 :: byte]" "\<not> occurs [2, 3] ([] :: bytes)" "\<not> occurs [2, 3] [1, 2 :: byte]"
    by (simp_all add: occurs_def)
  have turns: "\<forall>j < 3. \<not> occurs [2, 3] (received ?o j) \<and> fst (?o ! j) < 0 + 5 \<and>
      (\<exists>chunk. snd (?o ! j) = Inr chunk) \<and> length (received ?o (Suc j)) \<le> MAX_EXPECT_BUF"
    using occ by (simp add: numeral_3_eq_3 All_less_Suc received_def MAX_EXPECT_BUF_def)
  have "received ?o 3 = [1, 2, 3, 4]" by (simp add: received_def)
  with turns occ(1) show ?thesis
    by (subst expect_read_exact, simp, intro exI [of _ 3]) simp
qed

text \<open>
  \<open>write_and_expect\<close> returns: as soon as one observed clock reading has reached the
  deadline the call is over, whatever the device sends; a failed write ends it at once.
\<close>

theorem write_and_expect_returns:
  assumes "\<exists>o' \<in> set obs. start + timeout \<le> fst o'"
  shows "\<exists>r. snd (write_and_expect dev_write data expected timeout start obs s) = Some r \<and>
    (\<forall>e. snd (dev_write data s) = Inl e \<longrightarrow> r = Inl e)"
  using expect_loop_stops [OF assms]
  by (auto simp: write_and_expect_def expect_read_def split: prod.splits sum.splits option.splits)

theorem write_and_expect_returns_witness:
  "\<exists>r. snd (write_and_expect (\<lambda>d s. (s @ d, Inr ())) [1] None 5 0 [(1, Inr [7]), (6, Inr [8])] []) = Some r"
  using write_and_expect_returns [of "[(1, Inr [7]), (6, Inr [8])]" 0 5 "\<lambda>d s. (s @ d, Inr ())" "[1]" None "[]"] by auto

end
