(* ===== verification/Sandbox.thy ===== *)
theory Sandbox
  imports PyText "HOL-Library.Sublist" "HOL-Library.List_Lexorder" "HOL-Library.Char_ord"
begin

text \<open>
  \<open>src/io_core/file_sandbox.py\<close>: file access confined to a root directory, with quotas. The
  file system is a finite map from absolute paths (lists of names) to files, directories and
  symbolic links, with the path resolution and the errors the standard library documents for
  POSIX under Python 3.12. A fault of the medium is part of the state: the next write stops
  after some bytes with the given \<open>OSError\<close>, a read, listing or deletion fails with it.
\<close>

section \<open>The file system\<close>

type_synonym path = "string list"

datatype node = File bytes | Dir | Link string

type_synonym fs = "(path \<times> node) list"

definition lookup :: "fs \<Rightarrow> path \<Rightarrow> node option" where
  "lookup m p = (if p = [] then Some Dir else map_of m p)"

definition absolute :: "string \<Rightarrow> bool" where
  "absolute s = (case s of [] \<Rightarrow> False | c # _ \<Rightarrow> c = CHR ''/'')"

definition parts :: "string \<Rightarrow> string list" where
  "parts s = filter (\<lambda>c. c \<noteq> [] \<and> c \<noteq> ''.'') (split_on (CHR ''/'') s)"

definition path_str :: "path \<Rightarrow> string" where
  "path_str p = CHR ''/'' # join_with (CHR ''/'') p"

text \<open>
  \<open>Path.resolve()\<close>: the names of \<open>rest\<close> are walked from \<open>cur\<close>, links are replaced by
  their targets; \<open>None\<close> is a loop, recognised by more than \<open>MAX_LINKS\<close> links followed.
\<close>

definition MAX_LINKS :: nat where "MAX_LINKS = 40"

fun realpath :: "fs \<Rightarrow> nat \<Rightarrow> path \<Rightarrow> string list \<Rightarrow> path option" where
  "realpath m n cur [] = Some cur"
| "realpath m n cur (c # rest) =
     (if c = ''..'' then realpath m n (butlast cur) rest
      else case lookup m (cur @ [c]) of
        Some (Link t) \<Rightarrow>
          (case n of 0 \<Rightarrow> None
           | Suc k \<Rightarrow> realpath m k (if absolute t then [] else cur) (parts t @ rest))
      | _ \<Rightarrow> realpath m n (cur @ [c]) rest)"

text \<open>What an access to a path reaches: the operating system follows links again.\<close>

definition node_at :: "fs \<Rightarrow> path \<Rightarrow> node option" where
  "node_at m p = (case realpath m MAX_LINKS [] p of None \<Rightarrow> None | Some q \<Rightarrow> lookup m q)"

definition os_error :: "exn_class \<Rightarrow> path \<Rightarrow> exn" where
  "os_error c p = Exn c (PRepr (PStr (path_str p)))"

text \<open>\<open>mkdir(parents=True, exist_ok=True)\<close>, from the root of the tree downwards.\<close>

fun make_dirs :: "fs \<Rightarrow> path \<Rightarrow> string list \<Rightarrow> fs \<times> (exn + unit)" where
  "make_dirs m cur [] = (m, Inr ())"
| "make_dirs m cur (c # rest) =
     (case (node_at m (cur @ [c]), lookup m (cur @ [c])) of
        (Some Dir, _) \<Rightarrow> make_dirs m (cur @ [c]) rest
      | (None, None) \<Rightarrow> make_dirs (AList.update (cur @ [c]) Dir m) (cur @ [c]) rest
      | _ \<Rightarrow> (m, Inl (os_error (if rest = [] then FileExistsErr else NotADirectoryErr) (cur @ [c]))))"

definition os_write :: "(nat \<times> exn) option \<Rightarrow> path \<Rightarrow> bytes \<Rightarrow> fs \<Rightarrow> fs \<times> (exn + unit)" where
  "os_write fault p data m =
     (case realpath m MAX_LINKS [] p of
        None \<Rightarrow> (m, Inl (os_error OSErr p))
      | Some q \<Rightarrow>
          if lookup m q = Some Dir then (m, Inl (os_error OSErr p))
          else if lookup m (butlast q) \<noteq> Some Dir then (m, Inl (os_error FileNotFoundErr p))
          else case fault of
            Some (n, e) \<Rightarrow> (AList.update q (File (take n data)) m, Inl e)
          | None \<Rightarrow> (AList.update q (File data) m, Inr ()))"

definition os_read :: "(nat \<times> exn) option \<Rightarrow> path \<Rightarrow> fs \<Rightarrow> exn + bytes" where
  "os_read fault p m =
     (case node_at m p of
        None \<Rightarrow> Inl (os_error FileNotFoundErr p)
      | Some (File bs) \<Rightarrow> (case fault of Some (_, e) \<Rightarrow> Inl e | None \<Rightarrow> Inr bs)
      | Some _ \<Rightarrow> Inl (os_error OSErr p))"

text \<open>\<open>unlink\<close> does not follow a link in the last name.\<close>

definition os_unlink :: "(nat \<times> exn) option \<Rightarrow> path \<Rightarrow> fs \<Rightarrow> fs \<times> (exn + unit)" where
  "os_unlink fault p m =
     (case lookup m p of
        None \<Rightarrow> (m, Inl (os_error FileNotFoundErr p))
      | Some Dir \<Rightarrow> (m, Inl (os_error OSErr p))
      | Some _ \<Rightarrow> (case fault of Some (_, e) \<Rightarrow> (m, Inl e) | None \<Rightarrow> (AList.delete p m, Inr ())))"

section \<open>The sandbox\<close>

record sandbox =
  fx_root :: path
  fx_max_bytes :: int
  fx_max_files :: int
  fx_hooked :: bool
  fx_log :: "event list"
  fx_fs :: fs
  fx_fault :: "(nat \<times> exn) option"
  fx_dir_size :: nat

definition fx_emit :: "string \<Rightarrow> fields \<Rightarrow> (sandbox, unit) act" where
  "fx_emit event data = mmod (\<lambda>s. if fx_hooked s then s\<lparr>fx_log := fx_log s @ [(event, data)]\<rparr> else s)"

definition resolve :: "string \<Rightarrow> (sandbox, path) act" where
  "resolve rel_path =
     (if absolute rel_path then
        mthen (fx_emit ''sandbox_violation'' [(''path'', PStr rel_path), (''reason'', PStr ''absolute path'')])
          (mraise (Exn SandboxViolation (PFStr [PStr ''absolute path is not allowed: '', PRepr (PStr rel_path)])))
      else mbind (mget (\<lambda>s. (fx_root s, realpath (fx_fs s) MAX_LINKS [] (fx_root s @ parts rel_path)))) (\<lambda>(base, r).
        case r of
          None \<Rightarrow> mraise (Exn RuntimeErr (PFStr [PStr ''Symlink loop from '', PRepr (PStr rel_path)]))
        | Some resolved \<Rightarrow>
            if \<not> prefix base resolved then
              mthen (fx_emit ''sandbox_violation''
                  [(''path'', PStr rel_path), (''resolved'', PStr (path_str resolved)), (''reason'', PStr ''escape'')])
                (mraise (Exn SandboxViolation (PFStr [PStr ''path '', PRepr (PStr rel_path),
                   PStr '' escapes the sandbox root '', PStr (path_str base)])))
            else mret resolved))"

definition file_at :: "fs \<Rightarrow> path \<Rightarrow> bytes option" where
  "file_at m p = (case node_at m p of Some (File bs) \<Rightarrow> Some bs | _ \<Rightarrow> None)"

definition usage :: "path \<Rightarrow> fs \<Rightarrow> nat \<times> nat" where
  "usage base m =
     (let files = List.map_filter (\<lambda>(q, _). if strict_prefix base q then file_at m q else None) m
      in (sum_list (map length files), length files))"

definition check_quota :: "int \<Rightarrow> int \<Rightarrow> string \<Rightarrow> (sandbox, unit) act" where
  "check_quota extra_bytes new_files path =
     mbind (mget (\<lambda>s. (usage (fx_root s) (fx_fs s), fx_max_bytes s, fx_max_files s)))
       (\<lambda>((used_bytes, used_files), max_bytes, max_files).
         if max_bytes < int used_bytes + extra_bytes then
           mthen (fx_emit ''quota_denied'' [(''path'', PStr path), (''limit_kind'', PStr ''bytes''), (''used'', PInt (int used_bytes)),
               (''adding'', PInt extra_bytes), (''limit'', PInt max_bytes)])
             (mraise (Exn QuotaExceeded (PFStr [PStr ''bytes: used '', PInt (int used_bytes), PStr '', adding '', PInt extra_bytes,
               PStr '', limit '', PInt max_bytes])))
         else if max_files < int used_files + new_files then
           mthen (fx_emit ''quota_denied'' [(''path'', PStr path), (''limit_kind'', PStr ''files''), (''used'', PInt (int used_files)),
               (''limit'', PInt max_files)])
             (mraise (Exn QuotaExceeded (PFStr [PStr ''files: used '', PInt (int used_files), PStr '', limit '', PInt max_files])))
         else mret ())"

text \<open>An operating system call on the tree.\<close>

definition fx_call :: "((nat \<times> exn) option \<Rightarrow> fs \<Rightarrow> fs \<times> (exn + 'a)) \<Rightarrow> (sandbox, 'a) act" where
  "fx_call f = (\<lambda>s. case f (fx_fault s) (fx_fs s) of (m, r) \<Rightarrow> (s\<lparr>fx_fs := m\<rparr>, r))"

definition stat_size :: "nat \<Rightarrow> node option \<Rightarrow> nat" where
  "stat_size dir_size nd = (case nd of Some (File bs) \<Rightarrow> length bs | Some _ \<Rightarrow> dir_size | None \<Rightarrow> 0)"

definition failed :: "string \<Rightarrow> string \<Rightarrow> exn \<Rightarrow> (sandbox, 'a) act" where
  "failed event rel_path e =
     mthen (fx_emit event [(''path'', PStr rel_path), (''error'', exn_str e)]) (mraise e)"

definition write_file :: "string \<Rightarrow> bytes \<Rightarrow> bool \<Rightarrow> (sandbox, nat) act" where
  "write_file rel_path data overwrite =
     mbind (resolve rel_path) (\<lambda>target.
       mbind (mget (\<lambda>s. (node_at (fx_fs s) target, fx_dir_size s))) (\<lambda>(nd, dir_size).
         if nd \<noteq> None \<and> \<not> overwrite then
           mthen (fx_emit ''file_write_failed'' [(''path'', PStr rel_path), (''error'', PStr ''already exists'')])
             (mraise (Exn FileExistsErr (PStr rel_path)))
         else
           mthen (mcatch (catches [OSErr])
               (let adding = int (length data) - int (stat_size dir_size nd) in
                mthen (check_quota (max adding 0) (if nd \<noteq> None then 0 else 1) rel_path)
                  (mthen (fx_call (\<lambda>_ m. make_dirs m [] (butlast target)))
                    (fx_call (\<lambda>fault m. os_write fault target data m))))
               (failed ''file_write_failed'' rel_path))
             (mthen (fx_emit ''file_write'' [(''path'', PStr rel_path), (''bytes'', PInt (int (length data)))])
               (mret (length data)))))"

definition read_file :: "string \<Rightarrow> (sandbox, bytes) act" where
  "read_file rel_path =
     mbind (mcatch (catches [OSErr])
         (mbind (resolve rel_path) (\<lambda>target. fx_call (\<lambda>fault m. (m, os_read fault target m))))
         (failed ''file_read_failed'' rel_path))
       (\<lambda>data. mthen (fx_emit ''file_read'' [(''path'', PStr rel_path), (''bytes'', PInt (int (length data)))]) (mret data))"

definition entries_below :: "path \<Rightarrow> path \<Rightarrow> fs \<Rightarrow> string list" where
  "entries_below base target m =
     sort (map (\<lambda>(q, _). join_with (CHR ''/'') (drop (length base) q)) (filter (\<lambda>(q, _). strict_prefix target q) m))"

definition list_dir :: "string \<Rightarrow> (sandbox, string list) act" where
  "list_dir rel_path =
     mbind (resolve rel_path) (\<lambda>target.
       mbind (mget (\<lambda>s. (fx_root s, node_at (fx_fs s) target))) (\<lambda>(base, nd).
         if nd \<noteq> Some Dir then
           mthen (fx_emit ''file_list_failed'' [(''path'', PStr rel_path), (''error'', PStr ''not a directory'')])
             (mraise (Exn NotADirectoryErr (PStr rel_path)))
         else
           mbind (mcatch (catches [OSErr])
               (fx_call (\<lambda>fault m. (m, case fault of Some (_, e) \<Rightarrow> Inl e | None \<Rightarrow> Inr (entries_below base target m))))
               (failed ''file_list_failed'' rel_path))
             (\<lambda>entries. mthen (fx_emit ''file_list'' [(''path'', PStr rel_path), (''count'', PInt (int (length entries)))])
               (mret entries))))"

definition delete_file :: "string \<Rightarrow> (sandbox, unit) act" where
  "delete_file rel_path =
     mbind (resolve rel_path) (\<lambda>target.
       mthen (mcatch (catches [OSErr]) (fx_call (\<lambda>fault m. os_unlink fault target m))
           (failed ''file_delete_failed'' rel_path))
         (fx_emit ''file_delete'' [(''path'', PStr rel_path)]))"

section \<open>Paths without links\<close>

definition no_link :: "fs \<Rightarrow> path \<Rightarrow> bool" where
  "no_link m p \<longleftrightarrow> (\<forall>t. lookup m p \<noteq> Some (Link t))"

definition clean :: "fs \<Rightarrow> path \<Rightarrow> bool" where
  "clean m p \<longleftrightarrow> ''..'' \<notin> set p \<and> (\<forall>k \<le> length p. no_link m (take k p))"

lemma lookup_Nil [simp]: "lookup m [] = Some Dir"
  by (simp add: lookup_def)

lemma no_link_Nil [simp]: "no_link m []"
  by (simp add: no_link_def)

lemma clean_Nil [simp]: "clean m []"
  by (simp add: clean_def)

lemma clean_snoc [simp]: "clean m (p @ [c]) \<longleftrightarrow> clean m p \<and> c \<noteq> ''..'' \<and> no_link m (p @ [c])"
proof -
  have "(\<forall>k \<le> length (p @ [c]). no_link m (take k (p @ [c]))) \<longleftrightarrow>
      (\<forall>k \<le> length p. no_link m (take k p)) \<and> no_link m (p @ [c])"
    by (auto simp: le_Suc_eq)
  then show ?thesis by (auto simp: clean_def)
qed

lemma clean_prefix: "clean m (p @ q) \<Longrightarrow> clean m p"
  by (induction q rule: rev_induct) (simp_all flip: append_assoc)

lemma clean_butlast: "clean m p \<Longrightarrow> clean m (butlast p)"
  by (metis append_butlast_last_id butlast.simps(1) clean_prefix)

lemma realpath_dots: "realpath m n cur (''..'' # rest) = realpath m n (butlast cur) rest"
  by simp

lemma realpath_link:
  "c \<noteq> ''..'' \<Longrightarrow> lookup m (cur @ [c]) = Some (Link t) \<Longrightarrow> realpath m 0 cur (c # rest) = None"
  "c \<noteq> ''..'' \<Longrightarrow> lookup m (cur @ [c]) = Some (Link t) \<Longrightarrow>
     realpath m (Suc k) cur (c # rest) = realpath m k (if absolute t then [] else cur) (parts t @ rest)"
  by simp_all

lemma realpath_plain:
  "c \<noteq> ''..'' \<Longrightarrow> no_link m (cur @ [c]) \<Longrightarrow> realpath m n cur (c # rest) = realpath m n (cur @ [c]) rest"
  by (auto simp: no_link_def split: option.splits node.splits)

declare realpath.simps(2) [simp del]

lemma realpath_ind [case_names finished dots loop link plain]:
  assumes "\<And>n cur. P n cur []"
    and "\<And>n cur rest. P n (butlast cur) rest \<Longrightarrow> P n cur (''..'' # rest)"
    and "\<And>cur c rest t. c \<noteq> ''..'' \<Longrightarrow> lookup m (cur @ [c]) = Some (Link t) \<Longrightarrow> P 0 cur (c # rest)"
    and "\<And>k cur c rest t. c \<noteq> ''..'' \<Longrightarrow> lookup m (cur @ [c]) = Some (Link t) \<Longrightarrow>
      P k (if absolute t then [] else cur) (parts t @ rest) \<Longrightarrow> P (Suc k) cur (c # rest)"
    and "\<And>n cur c rest. c \<noteq> ''..'' \<Longrightarrow> no_link m (cur @ [c]) \<Longrightarrow> P n (cur @ [c]) rest \<Longrightarrow> P n cur (c # rest)"
  shows "P n cur rest"
proof (induction n arbitrary: cur rest)
  case (0 cur rest)
  show ?case
  proof (induction rest arbitrary: cur)
    case (Cons c rest)
    then show ?case by (metis assms(2,3,5) no_link_def)
  qed (rule assms(1))
next
  case (Suc n cur rest)
  show ?case
  proof (induction rest arbitrary: cur)
    case (Cons c rest)
    then show ?case by (metis Suc.IH assms(2,4,5) no_link_def)
  qed (rule assms(1))
qed

lemma realpath_clean: "realpath m n cur rest = Some r \<Longrightarrow> clean m cur \<Longrightarrow> clean m r"
  by (induction n cur rest rule: realpath_ind [where m = m])
    (auto simp: realpath_dots realpath_link realpath_plain clean_butlast split: if_splits)

lemma realpath_fixed: "clean m (cur @ rest) \<Longrightarrow> realpath m n cur rest = Some (cur @ rest)"
proof (induction rest arbitrary: cur)
  case (Cons c rest)
  have "clean m (cur @ [c])" using Cons.prems clean_prefix [of m "cur @ [c]" rest] by simp
  then show ?case
    using Cons.IH [of "cur @ [c]"] Cons.prems by (simp add: realpath_plain)
qed simp

lemma node_at_clean: "clean m p \<Longrightarrow> node_at m p = lookup m p"
  using realpath_fixed [of m "[]" p] by (simp add: node_at_def)

lemma realpath_links:
  assumes "\<And>q t. lookup m q = Some (Link t) \<longleftrightarrow> lookup m' q = Some (Link t)"
  shows "realpath m n cur rest = realpath m' n cur rest"
proof -
  have "no_link m q = no_link m' q" for q using assms by (simp add: no_link_def)
  then show ?thesis
    using assms by (induction n cur rest rule: realpath_ind [where m = m])
      (simp_all add: realpath_dots realpath_link realpath_plain)
qed

lemma lookup_update: "q \<noteq> [] \<Longrightarrow> lookup (AList.update q v m) p = (if p = q then Some v else lookup m p)"
  by (simp add: lookup_def update_conv')

lemma lookup_delete: "q \<noteq> [] \<Longrightarrow> lookup (AList.delete q m) p = (if p = q then None else lookup m p)"
  by (simp add: lookup_def delete_conv')

text \<open>A tree in which only missing names became directories.\<close>

definition grown :: "path \<Rightarrow> path \<Rightarrow> fs \<Rightarrow> fs \<Rightarrow> bool" where
  "grown lo hi m m' \<longleftrightarrow> (\<forall>q. lookup m' q = lookup m q \<or>
     lookup m q = None \<and> lookup m' q = Some Dir \<and> strict_prefix lo q \<and> prefix q hi)"

lemma grown_no_link: "grown lo hi m m' \<Longrightarrow> no_link m' q = no_link m q"
  unfolding grown_def no_link_def by (metis node.distinct(5) option.distinct(1) option.inject)

lemma grown_clean: "grown lo hi m m' \<Longrightarrow> clean m' p = clean m p"
  by (simp add: clean_def grown_no_link)

lemma make_dirs_grown:
  "make_dirs m cur rest = (m', r) \<Longrightarrow> clean m (cur @ rest) \<Longrightarrow> grown cur (cur @ rest) m m'"
proof (induction rest arbitrary: m cur)
  case Nil
  then show ?case by (simp add: grown_def)
next
  case (Cons c rest)
  have cl: "clean m (cur @ [c])" using Cons.prems(2) clean_prefix [of m "cur @ [c]" rest] by simp
  then have na: "node_at m (cur @ [c]) = lookup m (cur @ [c])" by (rule node_at_clean)
  have weaker: "grown (cur @ [c]) (cur @ c # rest) x y \<Longrightarrow> grown cur (cur @ c # rest) x y" for x y
    unfolding grown_def by (metis prefix_order.less_trans strict_prefix_def prefix_def not_Cons_self2 append_self_conv strict_prefixI)
  show ?case
  proof (cases "lookup m (cur @ [c])")
    case None
    let ?m = "AList.update (cur @ [c]) Dir m"
    have g: "grown cur (cur @ c # rest) m ?m"
      using None by (auto simp: grown_def lookup_update prefix_def strict_prefix_def)
    have "grown (cur @ [c]) (cur @ c # rest) ?m m'"
      using Cons.IH [of ?m "cur @ [c]"] Cons.prems None na grown_clean [OF g, of "cur @ c # rest"] by simp
    with weaker have "grown cur (cur @ c # rest) ?m m'" by blast
    with g show ?thesis unfolding grown_def by (metis option.distinct(1) option.inject)
  next
    case (Some nd)
    show ?thesis
    proof (cases "nd = Dir")
      case True
      then show ?thesis using Cons.IH [of m "cur @ [c]"] Cons.prems Some na weaker by simp
    next
      case False
      then have "m' = m" using Cons.prems(1) Some na by (cases nd) auto
      then show ?thesis by (simp add: grown_def)
    qed
  qed
qed

section \<open>The operations in closed form\<close>

definition logged :: "string \<Rightarrow> fields \<Rightarrow> sandbox \<Rightarrow> sandbox" where
  "logged event data s = (if fx_hooked s then s\<lparr>fx_log := fx_log s @ [(event, data)]\<rparr> else s)"

lemma logged_fields [simp]:
  "fx_root (logged e d s) = fx_root s" "fx_fs (logged e d s) = fx_fs s" "fx_hooked (logged e d s) = fx_hooked s"
  "fx_fault (logged e d s) = fx_fault s" "fx_max_bytes (logged e d s) = fx_max_bytes s"
  "fx_max_files (logged e d s) = fx_max_files s" "fx_dir_size (logged e d s) = fx_dir_size s"
  "fx_log (logged e d s) = fx_log s @ (if fx_hooked s then [(e, d)] else [])"
  by (simp_all add: logged_def)

lemma fx_emit_apply [simp]: "fx_emit e d s = (logged e d s, Inr ())"
  by (simp add: fx_emit_def mmod_def logged_def)

lemma failed_apply [simp]: "failed ev p e s = (logged ev [(''path'', PStr p), (''error'', exn_str e)] s, Inl e)"
  by (simp add: failed_def act_apply)

text \<open>The path an operation works on; \<open>None\<close> when the name is refused.\<close>

definition target_of :: "sandbox \<Rightarrow> string \<Rightarrow> path option" where
  "target_of s rel_path =
     (if absolute rel_path then None
      else case realpath (fx_fs s) MAX_LINKS [] (fx_root s @ parts rel_path) of
        None \<Rightarrow> None
      | Some r \<Rightarrow> if prefix (fx_root s) r then Some r else None)"

definition loops :: "sandbox \<Rightarrow> string \<Rightarrow> bool" where
  "loops s rel_path \<longleftrightarrow>
     \<not> absolute rel_path \<and> realpath (fx_fs s) MAX_LINKS [] (fx_root s @ parts rel_path) = None"

lemma resolve_Some: "target_of s rel = Some p \<Longrightarrow> resolve rel s = (s, Inr p)"
  by (auto simp: target_of_def resolve_def act_apply split: if_splits option.splits)

lemma resolve_None:
  assumes "target_of s rel = None" "\<not> loops s rel"
  obtains d m where "resolve rel s = (logged ''sandbox_violation'' d s, Inl (Exn SandboxViolation m))"
  using assms by (auto simp: target_of_def loops_def resolve_def act_apply split: if_splits option.splits)

lemma resolve_loops: "loops s rel \<Longrightarrow> \<exists>m. resolve rel s = (s, Inl (Exn RuntimeErr m))"
  by (simp add: loops_def resolve_def act_apply)

lemma target_of_clean: "target_of s rel = Some p \<Longrightarrow> clean (fx_fs s) p"
  using realpath_clean by (fastforce simp: target_of_def split: if_splits option.splits)

lemma target_of_prefix: "target_of s rel = Some p \<Longrightarrow> prefix (fx_root s) p"
  by (auto simp: target_of_def split: if_splits option.splits)

definition fits :: "sandbox \<Rightarrow> int \<Rightarrow> int \<Rightarrow> bool" where
  "fits s extra new \<longleftrightarrow> int (fst (usage (fx_root s) (fx_fs s))) + extra \<le> fx_max_bytes s \<and>
     int (snd (usage (fx_root s) (fx_fs s))) + new \<le> fx_max_files s"

lemma check_quota_fits: "fits s x n \<Longrightarrow> check_quota x n p s = (s, Inr ())"
  by (cases "usage (fx_root s) (fx_fs s)") (simp add: fits_def check_quota_def act_apply)

lemma check_quota_denied:
  assumes "\<not> fits s x n"
  obtains d m where "check_quota x n p s = (logged ''quota_denied'' d s, Inl (Exn QuotaExceeded m))"
proof -
  obtain a b where u: "usage (fx_root s) (fx_fs s) = (a, b)" by (cases "usage (fx_root s) (fx_fs s)")
  show ?thesis
  proof (cases "fx_max_bytes s < int a + x")
    case True
    then show ?thesis using that by (simp add: check_quota_def act_apply u)
  next
    case False
    then have "fx_max_files s < int b + n" using assms by (simp add: fits_def u)
    with False show ?thesis using that by (simp add: check_quota_def act_apply u)
  qed
qed

text \<open>The outcome of a write once its name is resolved and the quota grants it.\<close>

definition put :: "sandbox \<Rightarrow> path \<Rightarrow> bytes \<Rightarrow> fs \<times> (exn + unit)" where
  "put s p data =
     (case make_dirs (fx_fs s) [] (butlast p) of
        (m, Inl e) \<Rightarrow> (m, Inl e)
      | (m, Inr _) \<Rightarrow> os_write (fx_fault s) p data m)"

definition write_extra :: "sandbox \<Rightarrow> path \<Rightarrow> bytes \<Rightarrow> int" where
  "write_extra s p data = max (int (length data) - int (stat_size (fx_dir_size s) (node_at (fx_fs s) p))) 0"

definition write_new :: "sandbox \<Rightarrow> path \<Rightarrow> int" where
  "write_new s p = (if node_at (fx_fs s) p \<noteq> None then 0 else 1)"

lemma write_file_exists:
  assumes "target_of s rel = Some p" "node_at (fx_fs s) p \<noteq> None" "\<not> ov"
  obtains d where "write_file rel data ov s = (logged ''file_write_failed'' d s, Inl (Exn FileExistsErr (PStr rel)))"
  using assms by (auto simp: write_file_def act_apply resolve_Some)

lemma write_file_quota:
  assumes "target_of s rel = Some p" "node_at (fx_fs s) p = None \<or> ov" "\<not> fits s (write_extra s p data) (write_new s p)"
  obtains d m where "write_file rel data ov s = (logged ''quota_denied'' d s, Inl (Exn QuotaExceeded m))"
proof -
  obtain d m where q: "check_quota (write_extra s p data) (write_new s p) rel s = (logged ''quota_denied'' d s, Inl (Exn QuotaExceeded m))"
    using assms(3) by (rule check_quota_denied)
  show ?thesis
    using assms(1,2) q that unfolding write_file_def write_extra_def write_new_def
    by (auto simp: act_apply resolve_Some catches_def exn_is_def Let_def)
qed

lemma write_file_put:
  assumes "target_of s rel = Some p" "node_at (fx_fs s) p = None \<or> ov" "fits s (write_extra s p data) (write_new s p)"
  obtains (ok) m d where "put s p data = (m, Inr ())"
      "write_file rel data ov s = (logged ''file_write'' d (s\<lparr>fx_fs := m\<rparr>), Inr (length data))"
    | (err) m d e where "put s p data = (m, Inl e)" "catches [OSErr] e"
      "write_file rel data ov s = (logged ''file_write_failed'' d (s\<lparr>fx_fs := m\<rparr>), Inl e)"
    | (other) m e where "put s p data = (m, Inl e)" "\<not> catches [OSErr] e"
      "write_file rel data ov s = (s\<lparr>fx_fs := m\<rparr>, Inl e)"
proof -
  let ?t = "mthen (check_quota (write_extra s p data) (write_new s p) rel)
     (mthen (fx_call (\<lambda>_ m. make_dirs m [] (butlast p))) (fx_call (\<lambda>fault m. os_write fault p data m)))"
  obtain m r where put: "put s p data = (m, r)" by (cases "put s p data")
  have t: "?t s = (s\<lparr>fx_fs := m\<rparr>, r)"
    using put check_quota_fits [OF assms(3)]
    by (auto simp: act_apply put_def fx_call_def split: prod.splits sum.splits)
  have w: "write_file rel data ov s =
      (case mcatch (catches [OSErr]) ?t (failed ''file_write_failed'' rel) s of
         (s', Inl e) \<Rightarrow> (s', Inl e)
       | (s', Inr _) \<Rightarrow> (logged ''file_write'' [(''path'', PStr rel), (''bytes'', PInt (int (length data)))] s', Inr (length data)))"
    using assms(1,2) unfolding write_file_def write_extra_def write_new_def
    by (auto simp: act_apply resolve_Some Let_def)
  show ?thesis
  proof (cases r)
    case (Inl e)
    show ?thesis
    proof (cases "catches [OSErr] e")
      case True
      show ?thesis by (rule err [OF put [unfolded Inl] True]) (simp add: w mcatch_def t Inl True)
    next
      case False
      show ?thesis by (rule other [OF put [unfolded Inl] False]) (simp add: w mcatch_def t Inl False)
    qed
  next
    case (Inr u)
    show ?thesis by (rule ok [OF put [unfolded Inr, simplified]]) (simp add: w mcatch_def t Inr)
  qed
qed

section \<open>Runs of the operations\<close>

datatype fop = Write string bytes bool | Read string | ListDir string | Delete string

fun fop_path :: "fop \<Rightarrow> string" where
  "fop_path (Write p _ _) = p"
| "fop_path (Read p) = p"
| "fop_path (ListDir p) = p"
| "fop_path (Delete p) = p"

definition forget :: "('s, 'a) act \<Rightarrow> ('s, unit) act" where
  "forget m = mbind m (\<lambda>_. mret ())"

fun run_fop :: "fop \<Rightarrow> (sandbox, unit) act" where
  "run_fop (Write p data ov) = forget (write_file p data ov)"
| "run_fop (Read p) = forget (read_file p)"
| "run_fop (ListDir p) = forget (list_dir p)"
| "run_fop (Delete p) = delete_file p"

fun run_fops :: "fop list \<Rightarrow> sandbox \<Rightarrow> sandbox" where
  "run_fops [] s = s"
| "run_fops (f # fs) s = run_fops fs (fst (run_fop f s))"

text \<open>The root exists, is resolved, and a fault of the medium is an \<open>OSError\<close>.\<close>

definition sandbox_ok :: "sandbox \<Rightarrow> bool" where
  "sandbox_ok s \<longleftrightarrow> (\<forall>k \<le> length (fx_root s). lookup (fx_fs s) (take k (fx_root s)) = Some Dir) \<and>
     (case fx_fault s of None \<Rightarrow> True | Some (_, e) \<Rightarrow> catches [OSErr] e)"

definition same_settings :: "sandbox \<Rightarrow> sandbox \<Rightarrow> bool" where
  "same_settings s s' \<longleftrightarrow> fx_root s' = fx_root s \<and> fx_max_bytes s' = fx_max_bytes s \<and> fx_max_files s' = fx_max_files s \<and>
     fx_hooked s' = fx_hooked s \<and> fx_fault s' = fx_fault s"

text \<open>Nothing that is not strictly below the root has changed.\<close>

definition confined :: "sandbox \<Rightarrow> sandbox \<Rightarrow> bool" where
  "confined s s' \<longleftrightarrow> same_settings s s' \<and>
     (\<forall>q. \<not> strict_prefix (fx_root s) q \<longrightarrow> lookup (fx_fs s') q = lookup (fx_fs s) q)"

lemma confined_refl [simp]: "confined s s"
  by (simp add: confined_def same_settings_def)

lemma confined_trans: "confined s t \<Longrightarrow> confined t u \<Longrightarrow> confined s u"
  by (simp add: confined_def same_settings_def)

lemma confined_logged [simp]: "confined s (logged e d t) = confined s t"
  by (simp add: confined_def same_settings_def)

lemma confined_ok: "confined s s' \<Longrightarrow> sandbox_ok s \<Longrightarrow> sandbox_ok s'"
proof -
  assume c: "confined s s'" and ok: "sandbox_ok s"
  have "\<not> strict_prefix (fx_root s) (take k (fx_root s))" for k
    by (metis take_is_prefix prefix_order.leD)
  then show ?thesis using c ok by (simp add: sandbox_ok_def confined_def same_settings_def)
qed

lemma os_error_caught [simp]: "catches [OSErr] (os_error OSErr p)" "catches [OSErr] (os_error FileNotFoundErr p)"
  "catches [OSErr] (os_error FileExistsErr p)" "catches [OSErr] (os_error NotADirectoryErr p)"
  by (simp_all add: os_error_def catches_def exn_is_def)

lemma make_dirs_error: "make_dirs m cur rest = (m', Inl e) \<Longrightarrow> catches [OSErr] e"
  by (induction m cur rest rule: make_dirs.induct) (auto split: option.splits node.splits if_splits)

lemma put_error: "put s p d = (m, Inl e) \<Longrightarrow> sandbox_ok s \<Longrightarrow> catches [OSErr] e"
  by (auto simp: put_def os_write_def sandbox_ok_def dest: make_dirs_error split: prod.splits sum.splits option.splits if_splits)

lemma put_effect:
  assumes "put s p d = (m, r)" "sandbox_ok s" "clean (fx_fs s) p" "prefix (fx_root s) p"
  obtains (same) w where "grown [] (butlast p) (fx_fs s) m" "make_dirs (fx_fs s) [] (butlast p) = (m, w)" "r \<noteq> Inr ()"
    | (written) m1 k where "grown [] (butlast p) (fx_fs s) m1" "make_dirs (fx_fs s) [] (butlast p) = (m1, Inr ())"
      "m = AList.update p (File (take k d)) m1" "strict_prefix (fx_root s) p" "lookup m1 p \<noteq> Some Dir"
      "r = Inr () \<longrightarrow> length d \<le> k"
proof -
  obtain m1 w where md: "make_dirs (fx_fs s) [] (butlast p) = (m1, w)" by (cases "make_dirs (fx_fs s) [] (butlast p)")
  have g: "grown [] (butlast p) (fx_fs s) m1"
    using make_dirs_grown [OF md] assms(3) by (simp add: clean_butlast)
  show ?thesis
  proof (cases w)
    case (Inl e)
    then have "m = m1" "r = Inl e" using assms(1) md by (simp_all add: put_def)
    then show ?thesis using same g md by simp
  next
    case (Inr u)
    have p: "realpath m1 MAX_LINKS [] p = Some p"
      using realpath_fixed [of m1 "[]" p] grown_clean [OF g] assms(3) by simp
    have ow: "os_write (fx_fault s) p d m1 = (m, r)" using assms(1) md Inr by (simp add: put_def)
    show ?thesis
    proof (cases "lookup m1 p = Some Dir \<or> lookup m1 (butlast p) \<noteq> Some Dir")
      case True
      then have "m = m1" "r \<noteq> Inr ()" using ow p by (auto simp: os_write_def split: if_splits)
      then show ?thesis using same g md by simp
    next
      case False
      have "lookup m1 (fx_root s) = Some Dir"
        using g assms(2) unfolding grown_def sandbox_ok_def by (metis le_refl option.distinct(1) take_all)
      with False have "strict_prefix (fx_root s) p" using assms(4) by (auto simp: strict_prefix_def)
      moreover obtain k where "m = AList.update p (File (take k d)) m1" "r = Inr () \<longrightarrow> length d \<le> k"
        using ow p False by (cases "fx_fault s") (auto simp: os_write_def)
      ultimately show ?thesis using written [OF g] md Inr False by simp
    qed
  qed
qed

lemma grown_confined:
  assumes "grown [] (butlast p) (fx_fs s) m" "sandbox_ok s" "prefix (fx_root s) p" "\<not> strict_prefix (fx_root s) q"
  shows "lookup m q = lookup (fx_fs s) q"
proof (rule ccontr)
  assume "lookup m q \<noteq> lookup (fx_fs s) q"
  then have none: "lookup (fx_fs s) q = None" and q: "prefix q (butlast p)" using assms(1) unfolding grown_def by auto
  have "prefix q p" using q prefixeq_butlast prefix_order.trans by blast
  then have "prefix q (fx_root s)"
    using assms(3,4) by (metis prefix_same_cases strict_prefix_def)
  then have "q = take (length q) (fx_root s)" "length q \<le> length (fx_root s)"
    by (metis append_eq_conv_conj prefix_def, rule prefix_length_le)
  then show False using assms(2) none unfolding sandbox_ok_def by (metis option.distinct(1))
qed

lemma put_confined:
  assumes "put s p d = (m, r)" "sandbox_ok s" "clean (fx_fs s) p" "prefix (fx_root s) p"
  shows "confined s (s\<lparr>fx_fs := m\<rparr>)"
proof (cases rule: put_effect [OF assms])
  case 1
  then show ?thesis using grown_confined [OF _ assms(2,4)] by (simp add: confined_def same_settings_def)
next
  case (2 m1 k)
  note written = 2
  have "p \<noteq> []" using written(4) by (auto simp: strict_prefix_def)
  then show ?thesis
    using written grown_confined [OF written(1) assms(2,4)]
    by (auto simp: confined_def same_settings_def lookup_update)
qed

lemma read_file_cases:
  assumes "sandbox_ok s" "\<not> loops s rel"
  obtains (ok) p bs d where "target_of s rel = Some p" "lookup (fx_fs s) p = Some (File bs)" "fx_fault s = None"
      "read_file rel s = (logged ''file_read'' d s, Inr bs)"
    | (err) k d e where "read_file rel s = (logged k d s, Inl e)" "k \<in> {''sandbox_violation'', ''file_read_failed''}"
proof (cases "target_of s rel")
  case None
  then obtain d m where "resolve rel s = (logged ''sandbox_violation'' d s, Inl (Exn SandboxViolation m))"
    using assms(2) by (rule resolve_None)
  then show ?thesis
    by (intro err [of "''sandbox_violation''" d]) (auto simp: read_file_def act_apply catches_def exn_is_def)
next
  case (Some p)
  have na: "node_at (fx_fs s) p = lookup (fx_fs s) p" by (rule node_at_clean [OF target_of_clean [OF Some]])
  have c: "fx_call (\<lambda>fault m. (m, os_read fault p m)) s = (s, os_read (fx_fault s) p (fx_fs s))"
    by (simp add: fx_call_def)
  show ?thesis
  proof (cases "os_read (fx_fault s) p (fx_fs s)")
    case (Inl e)
    then have "catches [OSErr] e"
      using assms(1) by (auto simp: os_read_def sandbox_ok_def split: option.splits node.splits)
    then show ?thesis
      using Inl c by (intro err [of "''file_read_failed''"]) (auto simp: read_file_def act_apply resolve_Some [OF Some])
  next
    case (Inr bs)
    then have "lookup (fx_fs s) p = Some (File bs)" "fx_fault s = None"
      by (auto simp: os_read_def na split: option.splits node.splits)
    then show ?thesis
      using Inr c Some by (intro ok [of p bs]) (auto simp: read_file_def act_apply resolve_Some [OF Some])
  qed
qed

lemma list_dir_cases:
  assumes "sandbox_ok s" "\<not> loops s rel"
  obtains (ok) d es where "list_dir rel s = (logged ''file_list'' d s, Inr es)"
    | (err) k d e where "list_dir rel s = (logged k d s, Inl e)" "k \<in> {''sandbox_violation'', ''file_list_failed''}"
proof (cases "target_of s rel")
  case None
  then obtain d m where "resolve rel s = (logged ''sandbox_violation'' d s, Inl (Exn SandboxViolation m))"
    using assms(2) by (rule resolve_None)
  then show ?thesis by (intro err [of "''sandbox_violation''" d]) (auto simp: list_dir_def act_apply)
next
  case (Some p)
  show ?thesis
  proof (cases "node_at (fx_fs s) p = Some Dir")
    case False
    then show ?thesis by (intro err [of "''file_list_failed''"]) (auto simp: list_dir_def act_apply resolve_Some [OF Some])
  next
    case True
    show ?thesis
    proof (cases "fx_fault s")
      case None
      then show ?thesis using True by (intro ok) (simp add: list_dir_def act_apply resolve_Some [OF Some] fx_call_def)
    next
      case (Some ne)
      then obtain n e where "fx_fault s = Some (n, e)" "catches [OSErr] e"
        using assms(1) by (cases ne) (simp add: sandbox_ok_def)
      then show ?thesis
        using True \<open>target_of s rel = Some p\<close> by (intro err [of "''file_list_failed''"]) (auto simp: list_dir_def act_apply resolve_Some fx_call_def)
    qed
  qed
qed

lemma delete_file_cases:
  assumes "sandbox_ok s" "\<not> loops s rel"
  obtains (ok) p d where "target_of s rel = Some p" "lookup (fx_fs s) p \<noteq> Some Dir" "lookup (fx_fs s) p \<noteq> None"
      "delete_file rel s = (logged ''file_delete'' d (s\<lparr>fx_fs := AList.delete p (fx_fs s)\<rparr>), Inr ())"
    | (err) k d e where "delete_file rel s = (logged k d s, Inl e)" "k \<in> {''sandbox_violation'', ''file_delete_failed''}"
proof (cases "target_of s rel")
  case None
  then obtain d m where "resolve rel s = (logged ''sandbox_violation'' d s, Inl (Exn SandboxViolation m))"
    using assms(2) by (rule resolve_None)
  then show ?thesis by (intro err [of "''sandbox_violation''" d]) (auto simp: delete_file_def act_apply)
next
  case (Some p)
  obtain m r where u: "os_unlink (fx_fault s) p (fx_fs s) = (m, r)" by (cases "os_unlink (fx_fault s) p (fx_fs s)")
  show ?thesis
  proof (cases r)
    case (Inl e)
    then have "m = fx_fs s" "catches [OSErr] e"
      using u assms(1) by (auto simp: os_unlink_def sandbox_ok_def split: option.splits node.splits)
    then show ?thesis
      using u Inl by (intro err [of "''file_delete_failed''"]) (auto simp: delete_file_def act_apply resolve_Some [OF Some] fx_call_def)
  next
    case (Inr v)
    then have "m = AList.delete p (fx_fs s)" "lookup (fx_fs s) p \<noteq> Some Dir" "lookup (fx_fs s) p \<noteq> None"
      using u by (auto simp: os_unlink_def split: option.splits node.splits)
    then show ?thesis
      using u Inr Some by (intro ok) (auto simp: delete_file_def act_apply resolve_Some [OF Some] fx_call_def)
  qed
qed

lemma write_file_cases:
  assumes "sandbox_ok s" "\<not> loops s rel"
  obtains (ok) p m d where "target_of s rel = Some p" "fits s (write_extra s p data) (write_new s p)" "put s p data = (m, Inr ())"
      "write_file rel data ov s = (logged ''file_write'' d (s\<lparr>fx_fs := m\<rparr>), Inr (length data))"
    | (put_err) p m d e where "target_of s rel = Some p" "fits s (write_extra s p data) (write_new s p)" "put s p data = (m, Inl e)"
      "write_file rel data ov s = (logged ''file_write_failed'' d (s\<lparr>fx_fs := m\<rparr>), Inl e)"
    | (err) k d e where "write_file rel data ov s = (logged k d s, Inl e)"
      "k \<in> {''sandbox_violation'', ''file_write_failed'', ''quota_denied''}"
proof (cases "target_of s rel")
  case None
  then obtain d m where "resolve rel s = (logged ''sandbox_violation'' d s, Inl (Exn SandboxViolation m))"
    using assms(2) by (rule resolve_None)
  then show ?thesis by (intro err [of "''sandbox_violation''" d]) (auto simp: write_file_def act_apply)
next
  case (Some p)
  show ?thesis
  proof (cases "node_at (fx_fs s) p = None \<or> ov")
    case False
    then obtain d where "write_file rel data ov s = (logged ''file_write_failed'' d s, Inl (Exn FileExistsErr (PStr rel)))"
      using write_file_exists [OF Some] by metis
    then show ?thesis by (rule err) simp
  next
    case free: True
    show ?thesis
    proof (cases "fits s (write_extra s p data) (write_new s p)")
      case False
      obtain d m where "write_file rel data ov s = (logged ''quota_denied'' d s, Inl (Exn QuotaExceeded m))"
        using write_file_quota [OF Some free False] .
      then show ?thesis by (rule err) simp
    next
      case fit: True
      show ?thesis
        using write_file_put [OF Some free fit] ok [OF Some fit] put_err [OF Some fit] put_error [OF _ assms(1)] by metis
    qed
  qed
qed

lemma run_fop_confined:
  assumes "sandbox_ok s"
  shows "confined s (fst (run_fop f s))"
proof (cases "loops s (fop_path f)")
  case True
  then obtain m where m: "resolve (fop_path f) s = (s, Inl (Exn RuntimeErr m))" using resolve_loops by blast
  have "\<not> catches [OSErr] (Exn RuntimeErr m)" by (simp add: catches_def exn_is_def)
  then show ?thesis
    using m by (cases f) (simp_all add: write_file_def read_file_def list_dir_def delete_file_def forget_def act_apply)
next
  case nl: False
  show ?thesis
  proof (cases f)
    case (Write rel data ov)
    then have "\<not> loops s rel" using nl by simp
    with assms have "confined s (fst (write_file rel data ov s))"
    proof (cases rule: write_file_cases [where data = data and ov = ov])
      case (ok p m d)
      then show ?thesis using put_confined assms target_of_clean target_of_prefix by simp
    next
      case (put_err p m d e)
      then show ?thesis using put_confined assms target_of_clean target_of_prefix by simp
    qed simp
    then show ?thesis by (cases "write_file rel data ov s") (auto simp: Write forget_def act_apply split: sum.splits)
  next
    case (Read rel)
    then have "\<not> loops s rel" using nl by simp
    with assms show ?thesis by (cases rule: read_file_cases) (simp_all add: Read forget_def act_apply)
  next
    case (ListDir rel)
    then have "\<not> loops s rel" using nl by simp
    with assms show ?thesis by (cases rule: list_dir_cases) (simp_all add: ListDir forget_def act_apply)
  next
    case (Delete rel)
    then have "\<not> loops s rel" using nl by simp
    with assms show ?thesis
    proof (cases rule: delete_file_cases)
      case (ok p d)
      have root: "lookup (fx_fs s) (fx_root s) = Some Dir"
        using assms unfolding sandbox_ok_def by (metis le_refl take_all)
      have "strict_prefix (fx_root s) p"
        using target_of_prefix [OF ok(1)] ok(2) root by (auto simp: strict_prefix_def)
      moreover have "p \<noteq> []" using ok(2) by auto
      ultimately show ?thesis using ok by (auto simp: Delete confined_def same_settings_def lookup_delete)
    qed (simp add: Delete)
  qed
qed

lemma run_fops_confined: "sandbox_ok s \<Longrightarrow> confined s (run_fops fs s)"
proof (induction fs arbitrary: s)
  case (Cons f fs)
  show ?case
    using confined_trans [OF run_fop_confined [OF Cons.prems, of f]]
      Cons.IH [OF confined_ok [OF run_fop_confined [OF Cons.prems, of f] Cons.prems]] by simp
qed simp

section \<open>Quota accounting\<close>

lemma sum_update:
  "distinct (map fst al) \<Longrightarrow>
     sum_list (map g (AList.update k v al)) + (case map_of al k of None \<Rightarrow> 0 | Some w \<Rightarrow> g (k, w)) =
     sum_list (map g al) + (g (k, v) :: nat)"
  by (induction al) (auto simp: map_of_eq_None_iff split: option.splits)

lemma sum_filter_le: "sum_list (map g (filter P xs)) \<le> (sum_list (map g xs) :: nat)"
  by (induction xs) auto

definition file_weight :: "(bytes \<Rightarrow> nat) \<Rightarrow> path \<Rightarrow> path \<times> node \<Rightarrow> nat" where
  "file_weight w base = (\<lambda>(q, nd). if strict_prefix base q then (case nd of File bs \<Rightarrow> w bs | _ \<Rightarrow> 0) else 0)"

definition total :: "(bytes \<Rightarrow> nat) \<Rightarrow> path \<Rightarrow> fs \<Rightarrow> nat" where
  "total w base m = sum_list (map (file_weight w base) m)"

text \<open>No links below the root, and the map is a tree of names.\<close>

definition plain_tree :: "path \<Rightarrow> fs \<Rightarrow> bool" where
  "plain_tree base m \<longleftrightarrow> distinct (map fst m) \<and> (\<forall>q \<in> fst ` set m. q \<noteq> [] \<and> ''..'' \<notin> set q) \<and>
     (\<forall>q \<in> fst ` set m. strict_prefix base q \<longrightarrow> no_link m q)"

lemma lookup_None_iff: "q \<noteq> [] \<Longrightarrow> lookup m q = None \<longleftrightarrow> q \<notin> fst ` set m"
  by (simp add: lookup_def map_of_eq_None_iff)

lemma plain_tree_clean:
  assumes "plain_tree base m" "\<forall>k \<le> length base. lookup m (take k base) = Some Dir" "q \<in> fst ` set m" "strict_prefix base q"
  shows "clean m q"
proof -
  have "no_link m (take k q)" if "k \<le> length q" for k
  proof (cases "strict_prefix base (take k q)")
    case True
    show ?thesis
    proof (cases "take k q \<in> fst ` set m")
      case True
      then show ?thesis using assms(1) \<open>strict_prefix base (take k q)\<close> unfolding plain_tree_def by blast
    next
      case False
      have "take k q \<noteq> []" using \<open>strict_prefix base (take k q)\<close> by (metis strict_prefix_simps(1))
      then show ?thesis using False lookup_None_iff [of "take k q" m] by (simp add: no_link_def)
    qed
  next
    case False
    then have "prefix (take k q) base"
      using assms(4) by (metis prefix_same_cases strict_prefix_def take_is_prefix)
    then have "take k q = take (length (take k q)) base" "length (take k q) \<le> length base"
      by (metis append_eq_conv_conj prefix_def, rule prefix_length_le)
    then show ?thesis using assms(2) unfolding no_link_def by (metis node.distinct(5) option.inject)
  qed
  moreover have "''..'' \<notin> set q" using assms(1,3) by (auto simp: plain_tree_def)
  ultimately show ?thesis by (simp add: clean_def)
qed

lemma usage_total:
  assumes "plain_tree base m" "\<forall>k \<le> length base. lookup m (take k base) = Some Dir"
  shows "usage base m = (total length base m, total (\<lambda>_. 1) base m)"
proof -
  let ?f = "\<lambda>(q, _ :: node). if strict_prefix base q then file_at m q else None"
  have one: "(case ?f e of None \<Rightarrow> 0 | Some bs \<Rightarrow> w bs) = file_weight w base e" if e: "e \<in> set m" for e and w :: "bytes \<Rightarrow> nat"
  proof -
    obtain q nd where qn: "e = (q, nd)" by (cases e)
    have "q \<noteq> []" "lookup m q = Some nd" using e assms(1) by (auto simp: qn lookup_def plain_tree_def)
    moreover have "strict_prefix base q \<Longrightarrow> node_at m q = lookup m q"
      using plain_tree_clean [OF assms, of q] e node_at_clean by (force simp: qn)
    ultimately show ?thesis by (auto simp: qn file_weight_def file_at_def split: node.splits)
  qed
  have mf: "sum_list (map w (List.map_filter f xs)) = sum_list (map (\<lambda>e. case f e of None \<Rightarrow> 0 | Some bs \<Rightarrow> w bs) xs)"
    for w :: "bytes \<Rightarrow> nat" and f :: "path \<times> node \<Rightarrow> bytes option" and xs
    by (induction xs) (auto simp: List.map_filter_simps split: option.splits)
  have len: "length xs = sum_list (map (\<lambda>_. 1) xs)" for xs :: "bytes list" by (induction xs) auto
  have "sum_list (map w (List.map_filter ?f m)) = total w base m" for w :: "bytes \<Rightarrow> nat"
    unfolding mf total_def by (rule arg_cong [where f = sum_list], rule map_cong [OF refl], rule one)
  then show ?thesis by (simp add: usage_def Let_def len [of "List.map_filter ?f m"])
qed

lemma plain_tree_update:
  "plain_tree base m \<Longrightarrow> q \<noteq> [] \<Longrightarrow> ''..'' \<notin> set q \<Longrightarrow> \<forall>t. v \<noteq> Link t \<Longrightarrow> plain_tree base (AList.update q v m)"
proof -
  assume m: "plain_tree base m" and q: "q \<noteq> []" "''..'' \<notin> set q" and v: "\<forall>t. v \<noteq> Link t"
  have "fst ` set (AList.update q v m) = insert q (fst ` set m)"
    using dom_update [of q v m] by (simp add: dom_map_of_conv_image_fst)
  then show ?thesis
    using m q v distinct_update [of m q v] by (auto simp: plain_tree_def no_link_def lookup_update)
qed

lemma plain_tree_delete: "plain_tree base m \<Longrightarrow> q \<noteq> [] \<Longrightarrow> plain_tree base (AList.delete q m)"
  by (auto simp: plain_tree_def no_link_def lookup_delete distinct_delete) (auto simp: AList.delete_eq)

lemma total_delete: "total w base (AList.delete q m) \<le> total w base m"
  by (simp add: total_def AList.delete_eq sum_filter_le)

lemma total_update:
  assumes "plain_tree base m" "q \<noteq> []"
  shows "total w base (AList.update q v m) + (case lookup m q of None \<Rightarrow> 0 | Some nd \<Rightarrow> file_weight w base (q, nd)) =
    total w base m + file_weight w base (q, v)"
  using sum_update [of m "file_weight w base" q v] assms by (simp add: total_def lookup_def plain_tree_def)

lemma make_dirs_total:
  "make_dirs m cur rest = (m', r) \<Longrightarrow> plain_tree base m \<Longrightarrow> ''..'' \<notin> set (cur @ rest) \<Longrightarrow>
     total w base m' = total w base m \<and> plain_tree base m'"
proof (induction rest arbitrary: m cur)
  case (Cons c rest)
  show ?case
  proof (cases "node_at m (cur @ [c]) = None \<and> lookup m (cur @ [c]) = None")
    case True
    let ?m = "AList.update (cur @ [c]) Dir m"
    have "plain_tree base ?m" using Cons.prems(2,3) by (intro plain_tree_update) auto
    moreover have "total w base ?m = total w base m"
      using total_update [OF Cons.prems(2), of "cur @ [c]" w Dir] True by (simp add: file_weight_def)
    ultimately show ?thesis using Cons.IH [of ?m "cur @ [c]"] Cons.prems True by simp
  next
    case False
    show ?thesis
    proof (cases "node_at m (cur @ [c]) = Some Dir")
      case True
      then show ?thesis using Cons.IH [of m "cur @ [c]"] Cons.prems by simp
    next
      case notdir: False
      then have "m' = m" using Cons.prems(1) False by (auto split: option.splits node.splits)
      then show ?thesis using Cons.prems by simp
    qed
  qed
qed simp

lemma put_total:
  assumes "put s p d = (m, r)" "sandbox_ok s" "target_of s rel = Some p" "plain_tree (fx_root s) (fx_fs s)"
  shows "plain_tree (fx_root s) m \<and>
    int (total length (fx_root s) m) \<le> int (total length (fx_root s) (fx_fs s)) + write_extra s p d \<and>
    int (total (\<lambda>_. 1) (fx_root s) m) \<le> int (total (\<lambda>_. 1) (fx_root s) (fx_fs s)) + write_new s p"
proof (cases rule: put_effect [OF assms(1,2) target_of_clean [OF assms(3)] target_of_prefix [OF assms(3)]])
  case (1 w)
  have "''..'' \<notin> set (butlast p)" using target_of_clean [OF assms(3)] by (auto simp: clean_def dest: in_set_butlastD)
  then show ?thesis
    using make_dirs_total [OF 1(2) assms(4)] by (simp add: write_extra_def write_new_def)
next
  case (2 m1 k)
  have cl: "clean (fx_fs s) p" by (rule target_of_clean [OF assms(3)])
  have p: "p \<noteq> []" "''..'' \<notin> set p" using 2(4) cl by (auto simp: clean_def)
  then have bl: "''..'' \<notin> set (butlast p)" by (auto dest: in_set_butlastD)
  have md: "total w (fx_root s) m1 = total w (fx_root s) (fx_fs s)" "plain_tree (fx_root s) m1" for w
    using make_dirs_total [OF 2(2) assms(4)] bl by simp_all
  have "\<not> prefix p (butlast p)" using p(1) prefix_length_le [of p "butlast p"] by (cases p) auto
  then have same: "lookup m1 p = lookup (fx_fs s) p" using 2(1) unfolding grown_def by blast
  have na: "node_at (fx_fs s) p = lookup (fx_fs s) p" by (rule node_at_clean [OF cl])
  have nl: "no_link (fx_fs s) p" using cl by (auto simp: clean_def dest: spec [of _ "length p"])
  note up = total_update [OF md(2) p(1), of _ "File (take k d)", folded 2(3), unfolded md(1)]
  have "plain_tree (fx_root s) m" unfolding 2(3) by (rule plain_tree_update [OF md(2) p]) simp
  then show ?thesis
    using up [of length] up [of "\<lambda>_. 1"] 2(4,5) nl na same
    by (cases "lookup (fx_fs s) p"; auto simp: file_weight_def write_extra_def write_new_def stat_size_def no_link_def split: node.splits)
qed

text \<open>The tree is plain and its usage within the limits.\<close>

definition quota_ok :: "sandbox \<Rightarrow> bool" where
  "quota_ok s \<longleftrightarrow> plain_tree (fx_root s) (fx_fs s) \<and>
     int (fst (usage (fx_root s) (fx_fs s))) \<le> fx_max_bytes s \<and> int (snd (usage (fx_root s) (fx_fs s))) \<le> fx_max_files s"

lemma quota_ok_total:
  "sandbox_ok s \<Longrightarrow> quota_ok s \<longleftrightarrow> plain_tree (fx_root s) (fx_fs s) \<and>
     int (total length (fx_root s) (fx_fs s)) \<le> fx_max_bytes s \<and> int (total (\<lambda>_. 1) (fx_root s) (fx_fs s)) \<le> fx_max_files s"
  by (auto simp: quota_ok_def sandbox_ok_def usage_total)

lemma fits_total:
  "sandbox_ok s \<Longrightarrow> plain_tree (fx_root s) (fx_fs s) \<Longrightarrow> fits s x n \<longleftrightarrow>
     int (total length (fx_root s) (fx_fs s)) + x \<le> fx_max_bytes s \<and> int (total (\<lambda>_. 1) (fx_root s) (fx_fs s)) + n \<le> fx_max_files s"
  by (simp add: fits_def sandbox_ok_def usage_total)

lemma quota_ok_cong:
  "fx_fs t = fx_fs s \<Longrightarrow> fx_root t = fx_root s \<Longrightarrow> fx_max_bytes t = fx_max_bytes s \<Longrightarrow> fx_max_files t = fx_max_files s \<Longrightarrow>
     quota_ok t = quota_ok s"
  by (simp add: quota_ok_def)

lemma run_fop_quota:
  assumes "sandbox_ok s" "quota_ok s"
  shows "quota_ok (fst (run_fop f s))"
proof (cases "loops s (fop_path f)")
  case True
  then obtain m where m: "resolve (fop_path f) s = (s, Inl (Exn RuntimeErr m))" using resolve_loops by blast
  have "\<not> catches [OSErr] (Exn RuntimeErr m)" by (simp add: catches_def exn_is_def)
  then show ?thesis
    using m assms(2) by (cases f) (simp_all add: write_file_def read_file_def list_dir_def delete_file_def forget_def act_apply)
next
  case nl: False
  have lg: "quota_ok (logged k d t) = quota_ok t" for k d t by (rule quota_ok_cong) simp_all
  show ?thesis
  proof (cases f)
    case (Write rel data ov)
    have put: "quota_ok (s\<lparr>fx_fs := m\<rparr>)"
      if t: "target_of s rel = Some p" and fit: "fits s (write_extra s p data) (write_new s p)" and put: "put s p data = (m, r)" for p m r
    proof -
      have ok': "sandbox_ok (s\<lparr>fx_fs := m\<rparr>)"
        using confined_ok [OF put_confined [OF put assms(1) target_of_clean [OF t] target_of_prefix [OF t]] assms(1)] .
      have "plain_tree (fx_root s) (fx_fs s)" using assms(2) by (simp add: quota_ok_def)
      then show ?thesis
        using put_total [OF put assms(1) t] fit fits_total [OF assms(1)] quota_ok_total [OF ok'] by simp
    qed
    have "\<not> loops s rel" using nl Write by simp
    with assms(1) have "quota_ok (fst (write_file rel data ov s))"
      by (cases rule: write_file_cases [where data = data and ov = ov]) (use put assms(2) in \<open>simp_all add: lg\<close>)
    then show ?thesis by (cases "write_file rel data ov s") (auto simp: Write forget_def act_apply split: sum.splits)
  next
    case (Read rel)
    then have "\<not> loops s rel" using nl by simp
    with assms(1) show ?thesis by (cases rule: read_file_cases) (use assms(2) in \<open>simp_all add: Read forget_def act_apply lg\<close>)
  next
    case (ListDir rel)
    then have "\<not> loops s rel" using nl by simp
    with assms(1) show ?thesis by (cases rule: list_dir_cases) (use assms(2) in \<open>simp_all add: ListDir forget_def act_apply lg\<close>)
  next
    case (Delete rel)
    then have "\<not> loops s rel" using nl by simp
    with assms(1) show ?thesis
    proof (cases rule: delete_file_cases)
      case (ok p d)
      let ?t = "s\<lparr>fx_fs := AList.delete p (fx_fs s)\<rparr>"
      have "p \<noteq> []" using ok(2) by auto
      moreover have pt: "plain_tree (fx_root s) (fx_fs s)" using assms(2) by (simp add: quota_ok_def)
      moreover have "sandbox_ok ?t"
        using confined_ok [OF run_fop_confined [OF assms(1), of f] assms(1)] ok by (simp add: Delete sandbox_ok_def)
      ultimately have "quota_ok ?t"
        using quota_ok_total [OF assms(1)] quota_ok_total [of ?t] assms(2) plain_tree_delete
          total_delete [of length "fx_root s" p "fx_fs s"] total_delete [of "\<lambda>_. 1" "fx_root s" p "fx_fs s"] by fastforce
      then show ?thesis using ok by (simp add: Delete lg)
    qed (use assms(2) in \<open>simp_all add: Delete lg\<close>)
  qed
qed

lemma put_roundtrip:
  assumes "put s p d = (m, Inr ())" "sandbox_ok s" "clean (fx_fs s) p" "prefix (fx_root s) p"
  shows "lookup m p = Some (File d)" and "\<And>q t. lookup m q = Some (Link t) \<longleftrightarrow> lookup (fx_fs s) q = Some (Link t)"
proof -
  have "lookup m p = Some (File d) \<and> (\<forall>q t. lookup m q = Some (Link t) \<longleftrightarrow> lookup (fx_fs s) q = Some (Link t))"
  proof (cases rule: put_effect [OF assms])
    case (2 m1 k)
    have "p \<noteq> []" using 2(4) by auto
    moreover have "lookup m1 q = Some (Link t) \<longleftrightarrow> lookup (fx_fs s) q = Some (Link t)" for q t
      using 2(1) unfolding grown_def by (metis node.distinct(5) option.distinct(1) option.inject)
    moreover have "lookup (fx_fs s) p \<noteq> Some (Link t)" for t
      using assms(3) by (auto simp: clean_def no_link_def dest: spec [of _ "length p"])
    ultimately show ?thesis using 2(3,6) by (auto simp: lookup_update)
  qed simp
  then show "lookup m p = Some (File d)" and "\<And>q t. lookup m q = Some (Link t) \<longleftrightarrow> lookup (fx_fs s) q = Some (Link t)" by auto
qed

definition demo_sandbox :: sandbox where
  "demo_sandbox = \<lparr>fx_root = [''r''], fx_max_bytes = 10, fx_max_files = 2, fx_hooked = True, fx_log = [],
     fx_fs = [([''r''], Dir), ([''x''], File [7]), ([''r'', ''a''], File [1])], fx_fault = None, fx_dir_size = 0\<rparr>"

lemma demo_sandbox_ok: "sandbox_ok demo_sandbox" "quota_ok demo_sandbox"
proof -
  show ok: "sandbox_ok demo_sandbox" by (auto simp: sandbox_ok_def demo_sandbox_def lookup_def le_Suc_eq)
  have "plain_tree [''r''] (fx_fs demo_sandbox)"
    by (simp add: plain_tree_def demo_sandbox_def no_link_def lookup_def)
  then show "quota_ok demo_sandbox"
    using quota_ok_total [OF ok] by (simp add: demo_sandbox_def total_def file_weight_def)
qed

section \<open>Properties\<close>

text \<open>
  C6. Confinement, over every sequence of operations and whatever links the tree contains:
  nothing that is not strictly below the root changes (the root directory itself stays), and
  bytes returned by a later read are those of a file at or below the root.
\<close>

theorem sandbox_confined:
  assumes "sandbox_ok s" and "t = run_fops fs s"
  shows "(\<forall>q. \<not> strict_prefix (fx_root s) q \<longrightarrow> lookup (fx_fs t) q = lookup (fx_fs s) q) \<and>
    (\<forall>rel t' bs. read_file rel t = (t', Inr bs) \<longrightarrow>
       (\<exists>p. prefix (fx_root s) p \<and> lookup (fx_fs t) p = Some (File bs)))"
proof (intro conjI allI impI)
  have c: "confined s t" unfolding assms(2) by (rule run_fops_confined [OF assms(1)])
  then show "lookup (fx_fs t) q = lookup (fx_fs s) q" if "\<not> strict_prefix (fx_root s) q" for q
    using that by (simp add: confined_def)
  fix rel t' bs
  assume r: "read_file rel t = (t', Inr bs)"
  have root: "fx_root t = fx_root s" using c by (simp add: confined_def same_settings_def)
  have "\<not> loops t rel"
    using r resolve_loops [of t rel] by (auto simp: read_file_def act_apply catches_def exn_is_def)
  with confined_ok [OF c assms(1)] show "\<exists>p. prefix (fx_root s) p \<and> lookup (fx_fs t) p = Some (File bs)"
    by (cases rule: read_file_cases) (use r root target_of_prefix [of t rel] in auto)
qed

theorem sandbox_confined_witness:
  "lookup (fx_fs (run_fops [Write ''../x'' [1] True, Delete ''.'', Write ''b/c'' [2] False] demo_sandbox)) [''x''] = Some (File [7])"
proof -
  have "lookup (fx_fs (run_fops [Write ''../x'' [1] True, Delete ''.'', Write ''b/c'' [2] False] demo_sandbox)) [''x''] =
      lookup (fx_fs demo_sandbox) [''x'']"
    using sandbox_confined [OF demo_sandbox_ok(1) refl, of "[Write ''../x'' [1] True, Delete ''.'', Write ''b/c'' [2] False]"]
    by (simp add: demo_sandbox_def del: run_fops.simps)
  then show ?thesis by (simp add: demo_sandbox_def lookup_def del: run_fops.simps)
qed





text \<open>
  A successful write is read back: \<open>read_file\<close> of the same name then returns the data
  written, through whatever links the name goes.
\<close>

theorem sandbox_write_read:
  assumes "sandbox_ok s" and "write_file rel data ov s = (t, Inr n)"
  shows "n = length data \<and> (\<exists>u. read_file rel t = (u, Inr data))"
proof -
  have nl: "\<not> loops s rel"
    using assms(2) resolve_loops [of s rel] by (auto simp: write_file_def act_apply)
  show ?thesis
    using assms(1) nl
  proof (cases rule: write_file_cases [where data = data and ov = ov])
    case (ok p m d)
    have t: "t = logged ''file_write'' d (s\<lparr>fx_fs := m\<rparr>)" "n = length data" using ok(4) assms(2) by auto
    note pr = put_roundtrip [OF ok(3) assms(1) target_of_clean [OF ok(1)] target_of_prefix [OF ok(1)]]
    have rp: "realpath m k c r = realpath (fx_fs s) k c r" for k c r by (rule realpath_links) (rule pr(2))
    have tgt: "target_of t rel = Some p" using ok(1) by (auto simp: target_of_def t rp split: option.splits if_splits)
    have f: "fx_fault s = None"
      using put_effect [OF ok(3) assms(1) target_of_clean [OF ok(1)] target_of_prefix [OF ok(1)]] ok(3)
      by (auto simp: put_def os_write_def split: prod.splits sum.splits option.splits if_splits)
    have "node_at (fx_fs t) p = Some (File data)"
      using pr(1) node_at_clean [OF target_of_clean [OF tgt]] by (simp add: t)
    then show ?thesis
      using tgt f by (auto simp: read_file_def act_apply resolve_Some fx_call_def os_read_def t)
  qed (use assms(2) in simp_all)
qed

theorem sandbox_write_read_witness:
  "\<exists>u. read_file ''b'' (fst (write_file ''b'' [1, 2] False demo_sandbox)) = (u, Inr [1, 2])"
proof -
  have "snd (write_file ''b'' [1, 2] False demo_sandbox) = Inr 2" by code_simp
  then have "write_file ''b'' [1, 2] False demo_sandbox = (fst (write_file ''b'' [1, 2] False demo_sandbox), Inr 2)"
    by (metis prod.collapse)
  then show ?thesis using sandbox_write_read [OF demo_sandbox_ok(1)] by blast
qed

end
