(* ===== verification/Journal.thy ===== *)
theory Journal
  imports PyText "HOL-Library.List_Lexorder" "HOL-Library.Char_ord"
begin

text \<open>
  \<open>src/io_core/journal.py\<close>: the JSONL journal with reserved keys, rotation by size, and its
  readers. A line of a file is what \<open>json.loads\<close> makes of it; the size of its text is a
  parameter. Every call runs under the side-car lock, so calls of several writers on one disk
  interleave as whole steps; failing to take the lock is part of the state of the disk.
\<close>

section \<open>Writers and files\<close>

datatype jline = Blank | BadJson string | NotObject | Obj fields

record jdisk =
  jd_live :: "jline list option"
  jd_parts :: "(nat \<times> jline list) list"
  jd_fault :: "exn option"

record journal =
  jr_path :: string
  jr_actor :: string
  jr_seq :: nat
  jr_max_bytes :: nat
  jr_max_files :: nat
  jr_closed :: bool

definition RESERVED_KEYS :: "string list" where
  "RESERVED_KEYS = [''ts'', ''seq'', ''actor'', ''kind'']"

text \<open>Opening a journal creates the live file.\<close>

definition journal_init :: "string \<Rightarrow> string \<Rightarrow> nat \<Rightarrow> nat \<Rightarrow> jdisk \<Rightarrow> jdisk \<times> (exn + journal)" where
  "journal_init path actor max_bytes max_files d =
     (case jd_fault d of
        Some e \<Rightarrow> (d, Inl e)
      | None \<Rightarrow> (d\<lparr>jd_live := Some (case jd_live d of None \<Rightarrow> [] | Some ls \<Rightarrow> ls)\<rparr>,
           Inr \<lparr>jr_path = path, jr_actor = actor, jr_seq = 0, jr_max_bytes = max_bytes, jr_max_files = max_files,
             jr_closed = False\<rparr>))"

fun shift_down :: "nat \<Rightarrow> (nat \<times> jline list) list \<Rightarrow> (nat \<times> jline list) list" where
  "shift_down 0 ps = ps"
| "shift_down (Suc i) ps =
     shift_down i (case map_of ps (Suc i) of
        None \<Rightarrow> ps
      | Some f \<Rightarrow> AList.delete (Suc i) (AList.update (Suc (Suc i)) f ps))"

definition rotate_if_full :: "(jline \<Rightarrow> nat) \<Rightarrow> journal \<Rightarrow> jdisk \<Rightarrow> jdisk" where
  "rotate_if_full sz j d =
     (case jd_live d of
        None \<Rightarrow> d
      | Some ls \<Rightarrow>
          if sum_list (map sz ls) < jr_max_bytes j then d
          else d\<lparr>jd_live := None,
                 jd_parts := AList.update 1 ls (shift_down (jr_max_files j - 1) (AList.delete (jr_max_files j) (jd_parts d)))\<rparr>)"

definition conflicts_of :: "fields \<Rightarrow> fields" where
  "conflicts_of data = filter (\<lambda>(k, _). k \<in> set RESERVED_KEYS) data"

definition event_record :: "journal \<Rightarrow> pfloat \<Rightarrow> nat \<Rightarrow> string \<Rightarrow> fields \<Rightarrow> fields" where
  "event_record j ts seq kind data =
     [(''ts'', PNum ts), (''seq'', PInt (int seq)), (''actor'', PStr (jr_actor j)), (''kind'', PStr kind)] @
     filter (\<lambda>(k, _). k \<notin> set RESERVED_KEYS) data"

definition conflict_record :: "journal \<Rightarrow> pfloat \<Rightarrow> nat \<Rightarrow> string \<Rightarrow> fields \<Rightarrow> fields" where
  "conflict_record j ts seq kind data =
     [(''ts'', PNum ts), (''seq'', PInt (int seq)), (''actor'', PStr (jr_actor j)), (''kind'', PStr ''journal_key_conflict''),
      (''requested_kind'', PStr kind), (''keys'', PList (map PStr (sort (map fst (conflicts_of data)))))]"

text \<open>The records of one call; \<open>ts\<close> and \<open>ts'\<close> are its two readings of the wall clock.\<close>

definition call_records :: "journal \<Rightarrow> string \<Rightarrow> fields \<Rightarrow> pfloat \<Rightarrow> pfloat \<Rightarrow> fields list" where
  "call_records j kind data ts ts' =
     event_record j ts (Suc (jr_seq j)) kind data #
     (if conflicts_of data \<noteq> [] then [conflict_record j ts' (Suc (Suc (jr_seq j))) kind data] else [])"

definition closed_error :: "journal \<Rightarrow> exn" where
  "closed_error j = Exn ValueErr (PFStr [PStr ''journal '', PStr (jr_path j), PStr '' is closed''])"

definition journal_call ::
  "(jline \<Rightarrow> nat) \<Rightarrow> string \<Rightarrow> fields \<Rightarrow> pfloat \<Rightarrow> pfloat \<Rightarrow> (journal \<times> jdisk, unit) act" where
  "journal_call sz kind data ts ts' =
     (\<lambda>(j, d).
        if jr_closed j then ((j, d), Inl (closed_error j))
        else let j1 = j\<lparr>jr_seq := Suc (jr_seq j)\<rparr> in
          case jd_fault d of
            Some e \<Rightarrow> ((j1, d), Inl e)
          | None \<Rightarrow>
              let d1 = rotate_if_full sz j1 d;
                  live = (case jd_live d1 of None \<Rightarrow> [] | Some ls \<Rightarrow> ls)
              in ((j1\<lparr>jr_seq := jr_seq j1 + (if conflicts_of data \<noteq> [] then 1 else 0)\<rparr>,
                   d1\<lparr>jd_live := Some (live @ map Obj (call_records j kind data ts ts'))\<rparr>), Inr ()))"

definition journal_close :: "journal \<Rightarrow> journal" where
  "journal_close j = j\<lparr>jr_closed := True\<rparr>"

section \<open>Readers\<close>

fun read_lines :: "string \<Rightarrow> nat \<Rightarrow> jline list \<Rightarrow> exn + fields list" where
  "read_lines path n [] = Inr []"
| "read_lines path n (Blank # ls) = read_lines path (Suc n) ls"
| "read_lines path n (BadJson e # ls) =
     Inl (Exn JournalCorrupt (PFStr [PStr path, PStr '':'', PInt (int n), PStr '': line is not valid JSON: '', PStr e]))"
| "read_lines path n (NotObject # ls) =
     Inl (Exn JournalCorrupt (PFStr [PStr path, PStr '':'', PInt (int n), PStr '': line is not a JSON object'']))"
| "read_lines path n (Obj rec # ls) =
     (case read_lines path (Suc n) ls of Inl e \<Rightarrow> Inl e | Inr recs \<Rightarrow> Inr (rec # recs))"

definition read_events :: "string \<Rightarrow> jdisk \<Rightarrow> exn + fields list" where
  "read_events path d =
     (case jd_live d of
        None \<Rightarrow> Inl (Exn FileNotFoundErr (PRepr (PStr path)))
      | Some ls \<Rightarrow> read_lines path 1 ls)"

definition part_name :: "string \<Rightarrow> nat \<Rightarrow> string" where
  "part_name path i = path @ CHR ''.'' # show_nat i"

text \<open>The archived parts from index \<open>i\<close> up to the first missing one, oldest first.\<close>

fun archived :: "nat \<Rightarrow> string \<Rightarrow> jdisk \<Rightarrow> nat \<Rightarrow> (string \<times> jline list) list" where
  "archived 0 path d i = []"
| "archived (Suc fuel) path d i =
     (case map_of (jd_parts d) i of
        None \<Rightarrow> []
      | Some ls \<Rightarrow> archived fuel path d (Suc i) @ [(part_name path i, ls)])"

definition chain_files :: "string \<Rightarrow> jdisk \<Rightarrow> (string \<times> jline list) list" where
  "chain_files path d =
     archived (length (jd_parts d)) path d 1 @ (case jd_live d of None \<Rightarrow> [] | Some ls \<Rightarrow> [(path, ls)])"

fun read_files :: "(string \<times> jline list) list \<Rightarrow> exn + fields list" where
  "read_files [] = Inr []"
| "read_files ((name, ls) # fs) =
     (case read_lines name 1 ls of
        Inl e \<Rightarrow> Inl e
      | Inr recs \<Rightarrow> (case read_files fs of Inl e \<Rightarrow> Inl e | Inr later \<Rightarrow> Inr (recs @ later)))"

definition read_events_chain :: "string \<Rightarrow> jdisk \<Rightarrow> exn + fields list" where
  "read_events_chain path d = read_files (chain_files path d)"

section \<open>The fuel of the chain\<close>

lemma archived_exact:
  assumes "\<forall>k. i \<le> k \<and> k < i + n \<longrightarrow> map_of (jd_parts d) k \<noteq> None" "map_of (jd_parts d) (i + n) = None" "n \<le> fuel"
  shows "archived fuel path d i = rev (map (\<lambda>k. (part_name path k, the (map_of (jd_parts d) k))) [i..<i + n])"
  using assms
proof (induction n arbitrary: i fuel)
  case 0
  then show ?case by (cases fuel) simp_all
next
  case (Suc n)
  obtain f where f: "fuel = Suc f" using Suc.prems(3) by (cases fuel) auto
  obtain ls where ls: "map_of (jd_parts d) i = Some ls" using Suc.prems(1) by fastforce
  have "archived f path d (Suc i) = rev (map (\<lambda>k. (part_name path k, the (map_of (jd_parts d) k))) [Suc i..<Suc i + n])"
    by (rule Suc.IH) (use Suc.prems f in auto)
  moreover have "[i..<i + Suc n] = i # [Suc i..<Suc i + n]" by (simp add: upt_conv_Cons)
  ultimately show ?case by (simp add: f ls del: upt_Suc)
qed

lemma consecutive_length:
  assumes "\<forall>k. i \<le> k \<and> k < i + n \<longrightarrow> map_of ps k \<noteq> None"
  shows "n \<le> length ps"
proof -
  have "{i..<i + n} \<subseteq> set (map fst ps)" using assms by (auto simp: map_of_eq_None_iff)
  then have "card {i..<i + n} \<le> card (set (map fst ps))" by (intro card_mono) auto
  also have "\<dots> \<le> length ps" using card_length [of "map fst ps"] by simp
  finally show ?thesis by simp
qed

section \<open>Rotation in closed form\<close>

lemma shift_down_eq:
  "map_of (shift_down k ps) i =
     (if i = 0 \<or> Suc k < i then map_of ps i
      else if i = Suc k then (if k = 0 then map_of ps 1 else case map_of ps k of None \<Rightarrow> map_of ps (Suc k) | Some f \<Rightarrow> Some f)
      else if i = 1 then None else map_of ps (i - 1))"
proof (induction k arbitrary: ps)
  case (Suc k)
  show ?case
    by (cases "map_of ps (Suc k)") (auto simp: Suc.IH update_conv' delete_conv' split: option.splits)
next
  case 0
  show ?case by (cases "i = 0"; cases "i = 1") auto
qed

lemma rotated_parts:
  assumes "jd_live d = Some ls" "\<not> sum_list (map sz ls) < jr_max_bytes j"
  shows "jd_live (rotate_if_full sz j d) = None"
    and "map_of (jd_parts (rotate_if_full sz j d)) i =
      (if i = 1 then Some ls else if i = 0 then (if jr_max_files j = 0 then None else map_of (jd_parts d) 0)
       else if i \<le> jr_max_files j then map_of (jd_parts d) (i - 1) else map_of (jd_parts d) i)"
  using assms by (auto simp: rotate_if_full_def update_conv' shift_down_eq delete_conv' split: option.splits)

text \<open>The parts on disk are \<open>.1\<close> up to some \<open>.n\<close>, at most \<open>max_files\<close> of them.\<close>

definition chain_ok :: "nat \<Rightarrow> jdisk \<Rightarrow> bool" where
  "chain_ok m d \<longleftrightarrow> (\<exists>n \<le> max 1 m. \<forall>k. map_of (jd_parts d) k \<noteq> None \<longleftrightarrow> 1 \<le> k \<and> k \<le> n)"

definition chain_lines :: "jdisk \<Rightarrow> jline list" where
  "chain_lines d = concat (map snd (chain_files [] d))"

definition chain_full :: "nat \<Rightarrow> jdisk \<Rightarrow> bool" where
  "chain_full m d \<longleftrightarrow> (\<forall>k. 1 \<le> k \<and> k \<le> max 1 m \<longrightarrow> map_of (jd_parts d) k \<noteq> None)"

lemma chain_files_exact:
  assumes "\<forall>k. map_of (jd_parts d) k \<noteq> None \<longleftrightarrow> 1 \<le> k \<and> k \<le> n"
  shows "chain_files path d = rev (map (\<lambda>k. (part_name path k, the (map_of (jd_parts d) k))) [1..<Suc n]) @
    (case jd_live d of None \<Rightarrow> [] | Some ls \<Rightarrow> [(path, ls)])"
proof -
  have a: "\<forall>k. 1 \<le> k \<and> k < 1 + n \<longrightarrow> map_of (jd_parts d) k \<noteq> None" "map_of (jd_parts d) (1 + n) = None"
    using assms by simp (use assms [rule_format, of "1 + n"] in simp)
  show ?thesis
    using archived_exact [OF a consecutive_length [OF a(1)], of path] by (simp add: chain_files_def del: upt_Suc)
qed

lemma chain_lines_exact:
  assumes "\<forall>k. map_of (jd_parts d) k \<noteq> None \<longleftrightarrow> 1 \<le> k \<and> k \<le> n"
  shows "chain_lines d = concat (rev (map (\<lambda>k. the (map_of (jd_parts d) k)) [1..<Suc n])) @
    (case jd_live d of None \<Rightarrow> [] | Some ls \<Rightarrow> ls)"
  by (simp add: chain_lines_def chain_files_exact [OF assms] rev_map o_def del: upt_Suc split: option.split)

lemma rotate_chain:
  assumes ok: "chain_ok (jr_max_files j) d"
  shows "chain_ok (jr_max_files j) (rotate_if_full sz j d)" (is ?ok)
    and "\<exists>lost. chain_lines d = lost @ chain_lines (rotate_if_full sz j d) \<and>
      (lost \<noteq> [] \<longrightarrow> chain_full (jr_max_files j) (rotate_if_full sz j d))" (is ?lost)
proof -
  have "?ok \<and> ?lost"
  proof (cases "\<exists>ls. jd_live d = Some ls \<and> \<not> sum_list (map sz ls) < jr_max_bytes j")
    case False
    then have "rotate_if_full sz j d = d" by (auto simp: rotate_if_full_def split: option.splits)
    then show ?thesis using ok by auto
  next
    case True
    then obtain ls where ls: "jd_live d = Some ls" "\<not> sum_list (map sz ls) < jr_max_bytes j" by blast
    note rot = rotated_parts [OF ls]
    let ?r = "rotate_if_full sz j d" and ?m = "max 1 (jr_max_files j)"
    obtain n where n: "n \<le> ?m" "\<forall>k. map_of (jd_parts d) k \<noteq> None \<longleftrightarrow> 1 \<le> k \<and> k \<le> n"
      using ok by (auto simp: chain_ok_def)
    define n' where "n' = min (Suc n) ?m"
    have dom: "\<forall>k. map_of (jd_parts ?r) k \<noteq> None \<longleftrightarrow> 1 \<le> k \<and> k \<le> n'"
    proof
      fix k :: nat
      consider "k = 0" | "k = 1" | "1 < k" by linarith
      then show "map_of (jd_parts ?r) k \<noteq> None \<longleftrightarrow> 1 \<le> k \<and> k \<le> n'"
      proof cases
        case 1
        have "map_of (jd_parts d) 0 = None" using n(2) [rule_format, of 0] by simp
        then show ?thesis using 1 by (simp add: rot(2))
      next
        case 2
        then show ?thesis by (simp add: rot(2) n'_def)
      next
        case 3
        have "map_of (jd_parts d) (k - 1) \<noteq> None \<longleftrightarrow> k \<le> Suc n" "map_of (jd_parts d) k \<noteq> None \<longleftrightarrow> k \<le> n"
          using n(2) 3 by auto
        then show ?thesis using 3 n(1) by (auto simp: rot(2) n'_def)
      qed
    qed
    have n1: "1 \<le> n'" "n' \<le> Suc n" by (auto simp: n'_def)
    have "the (map_of (jd_parts ?r) (Suc k)) = the (map_of (jd_parts d) k)" if "k \<in> set [1..<n']" for k
      using that n(1) by (auto simp: rot(2) n'_def max_def split: if_splits)
    then have "map (\<lambda>k. the (map_of (jd_parts ?r) k)) [Suc 1..<Suc n'] = map (\<lambda>k. the (map_of (jd_parts d) k)) [1..<n']"
      unfolding map_Suc_upt [symmetric] map_map by (intro map_cong refl) simp
    moreover have "[1..<Suc n'] = 1 # [Suc 1..<Suc n']" using n1 by (simp add: upt_conv_Cons del: upt_Suc)
    ultimately have new: "chain_lines ?r = concat (rev (map (\<lambda>k. the (map_of (jd_parts d) k)) [1..<n'])) @ ls"
      unfolding chain_lines_exact [OF dom] by (simp add: rot(1) rot(2) [of "Suc 0"] del: upt_Suc)
    have "[1..<Suc n] = [1..<n'] @ [n'..<Suc n]" using upt_add_eq_append [of 1 n' "Suc n - n'"] n1 by simp
    then have "chain_lines d = concat (rev (map (\<lambda>k. the (map_of (jd_parts d) k)) [n'..<Suc n])) @ chain_lines ?r"
      unfolding chain_lines_exact [OF n(2)] new by (simp add: ls(1) del: upt_Suc)
    moreover have "concat (rev (map (\<lambda>k. the (map_of (jd_parts d) k)) [n'..<Suc n])) \<noteq> [] \<Longrightarrow> chain_full (jr_max_files j) ?r"
    proof -
      assume "concat (rev (map (\<lambda>k. the (map_of (jd_parts d) k)) [n'..<Suc n])) \<noteq> []"
      then have "n' < Suc n" by (cases "n' < Suc n") auto
      then have "n' = ?m" by (simp add: n'_def)
      then show ?thesis using dom by (simp add: chain_full_def)
    qed
    moreover have ?ok unfolding chain_ok_def using dom n'_def by (intro exI [of _ n']) auto
    ultimately show ?thesis by blast
  qed
  then show ?ok ?lost by blast+
qed

lemma rotate_full: "chain_full (jr_max_files j) d \<Longrightarrow> chain_full (jr_max_files j) (rotate_if_full sz j d)"
proof (cases "\<exists>ls. jd_live d = Some ls \<and> \<not> sum_list (map sz ls) < jr_max_bytes j")
  case True
  then obtain ls where ls: "jd_live d = Some ls" "\<not> sum_list (map sz ls) < jr_max_bytes j" by blast
  assume full: "chain_full (jr_max_files j) d"
  show ?thesis
    unfolding chain_full_def
  proof (intro allI impI)
    fix k
    assume k: "1 \<le> k \<and> k \<le> max 1 (jr_max_files j)"
    have "k = 1 \<or> 1 \<le> k - 1 \<and> k - 1 \<le> max 1 (jr_max_files j)" using k by linarith
    then show "map_of (jd_parts (rotate_if_full sz j d)) k \<noteq> None"
      using full k unfolding rotated_parts(2) [OF ls] chain_full_def by auto
  qed
next
  case False
  moreover assume "chain_full (jr_max_files j) d"
  ultimately show ?thesis by (auto simp: rotate_if_full_def split: option.splits)
qed

section \<open>Logs that forget only their oldest entries\<close>

fun run_log :: "('e \<Rightarrow> 'j \<Rightarrow> 'j) \<Rightarrow> 'e list \<Rightarrow> 'j \<Rightarrow> 'j" where
  "run_log step [] j = j"
| "run_log step (e # es) j = run_log step es (step e j)"

fun log_history :: "('e \<Rightarrow> 'j \<Rightarrow> 'j) \<Rightarrow> ('e \<Rightarrow> 'j \<Rightarrow> 'r list) \<Rightarrow> 'e list \<Rightarrow> 'j \<Rightarrow> 'r list" where
  "log_history step records [] j = []"
| "log_history step records (e # es) j = records e j @ log_history step records es (step e j)"

locale retained_log =
  fixes ok :: "'j \<Rightarrow> bool"
    and step :: "'e \<Rightarrow> 'j \<Rightarrow> 'j"
    and records :: "'e \<Rightarrow> 'j \<Rightarrow> 'r list"
    and kept :: "'j \<Rightarrow> 'r list"
    and full :: "'j \<Rightarrow> bool"
  assumes step_ok: "ok j \<Longrightarrow> ok (step e j)"
    and step_kept: "ok j \<Longrightarrow> \<exists>lost. kept j @ records e j = lost @ kept (step e j) \<and> (lost \<noteq> [] \<longrightarrow> full (step e j))"
    and full_stays: "ok j \<Longrightarrow> full j \<Longrightarrow> full (step e j)"
begin

lemma run_ok: "ok j \<Longrightarrow> ok (run_log step es j)"
  by (induction es arbitrary: j) (simp_all add: step_ok)

lemma run_full: "ok j \<Longrightarrow> full j \<Longrightarrow> full (run_log step es j)"
  by (induction es arbitrary: j) (simp_all add: step_ok full_stays)

lemma run_kept:
  "ok j \<Longrightarrow> \<exists>lost. kept j @ log_history step records es j = lost @ kept (run_log step es j) \<and>
     (lost \<noteq> [] \<longrightarrow> full (run_log step es j))"
proof (induction es arbitrary: j)
  case (Cons e es)
  obtain l1 where l1: "kept j @ records e j = l1 @ kept (step e j)" "l1 \<noteq> [] \<longrightarrow> full (step e j)"
    using step_kept [OF Cons.prems] by blast
  obtain l2 where l2: "kept (step e j) @ log_history step records es (step e j) = l2 @ kept (run_log step es (step e j))"
    "l2 \<noteq> [] \<longrightarrow> full (run_log step es (step e j))"
    using Cons.IH [OF step_ok [OF Cons.prems]] by blast
  have "kept j @ log_history step records (e # es) j = (l1 @ l2) @ kept (run_log step (e # es) j)"
    using l1(1) l2(1) by (metis append.assoc log_history.simps(2) run_log.simps(2))
  moreover have "l1 @ l2 \<noteq> [] \<longrightarrow> full (run_log step (e # es) j)"
    using l1(2) l2(2) run_full [OF step_ok [OF Cons.prems]] by auto
  ultimately show ?case by blast
qed simp

end

section \<open>Several writers on one disk\<close>

record jcall =
  jc_writer :: nat
  jc_kind :: string
  jc_data :: fields
  jc_ts :: pfloat
  jc_ts' :: pfloat
  jc_fault :: "exn option"

type_synonym jworld = "journal list \<times> jdisk"

definition writer_call :: "(jline \<Rightarrow> nat) \<Rightarrow> jcall \<Rightarrow> jworld \<Rightarrow> jworld" where
  "writer_call sz c = (\<lambda>(js, d).
     if jc_writer c < length js then
       (case journal_call sz (jc_kind c) (jc_data c) (jc_ts c) (jc_ts' c) (js ! jc_writer c, d\<lparr>jd_fault := jc_fault c\<rparr>) of
          ((j, d'), _) \<Rightarrow> (js[jc_writer c := j], d'))
     else (js, d))"

definition writer_records :: "jcall \<Rightarrow> jworld \<Rightarrow> (nat \<times> fields) list" where
  "writer_records c = (\<lambda>(js, d).
     if jc_writer c < length js \<and> \<not> jr_closed (js ! jc_writer c) \<and> jc_fault c = None
     then map (Pair (jc_writer c)) (call_records (js ! jc_writer c) (jc_kind c) (jc_data c) (jc_ts c) (jc_ts' c)) else [])"

definition written_lines :: "jcall \<Rightarrow> jworld \<Rightarrow> jline list" where
  "written_lines c w = map (\<lambda>(_, rec). Obj rec) (writer_records c w)"

definition world_ok :: "nat \<Rightarrow> jworld \<Rightarrow> bool" where
  "world_ok m = (\<lambda>(js, d). chain_ok m d \<and> (\<forall>j \<in> set js. jr_max_files j = m))"

lemma rotate_cong:
  "rotate_if_full sz (j\<lparr>jr_seq := n\<rparr>) (d\<lparr>jd_fault := f\<rparr>) = (rotate_if_full sz j d)\<lparr>jd_fault := f\<rparr>"
  by (simp add: rotate_if_full_def split: option.split)

lemma chain_fault [simp]:
  "chain_ok m (d\<lparr>jd_fault := f\<rparr>) = chain_ok m d" "chain_lines (d\<lparr>jd_fault := f\<rparr>) = chain_lines d"
  "chain_full m (d\<lparr>jd_fault := f\<rparr>) = chain_full m d"
proof -
  have "archived fuel path (d\<lparr>jd_fault := f\<rparr>) i = archived fuel path d i" for fuel path i
    by (induction fuel arbitrary: i) (simp_all split: option.split)
  then show "chain_lines (d\<lparr>jd_fault := f\<rparr>) = chain_lines d" by (simp add: chain_lines_def chain_files_def)
qed (simp_all add: chain_ok_def chain_full_def)

lemma chain_append:
  "chain_lines (d\<lparr>jd_live := Some (case jd_live d of None \<Rightarrow> x | Some ls \<Rightarrow> ls @ x)\<rparr>) = chain_lines d @ x"
proof -
  have "archived fuel path (d\<lparr>jd_live := l\<rparr>) i = archived fuel path d i" for fuel path i l
    by (induction fuel arbitrary: i) (simp_all split: option.split)
  then show ?thesis by (simp add: chain_lines_def chain_files_def split: option.split)
qed

lemma writer_call_eq:
  assumes "jc_writer c < length js" "\<not> jr_closed (js ! jc_writer c)" "jc_fault c = None"
  obtains j' where "writer_call sz c (js, d) = (js[jc_writer c := j'],
      (rotate_if_full sz (js ! jc_writer c) d)\<lparr>jd_fault := None,
        jd_live := Some (case jd_live (rotate_if_full sz (js ! jc_writer c) d) of
           None \<Rightarrow> written_lines c (js, d) | Some ls \<Rightarrow> ls @ written_lines c (js, d))\<rparr>)"
    "jr_max_files j' = jr_max_files (js ! jc_writer c)"
proof -
  let ?j = "js ! jc_writer c"
  let ?n = "Suc (jr_seq ?j) + (if conflicts_of (jc_data c) \<noteq> [] then 1 else 0)"
  have lines: "map Obj (call_records ?j (jc_kind c) (jc_data c) (jc_ts c) (jc_ts' c)) = written_lines c (js, d)"
    using assms by (simp add: written_lines_def writer_records_def o_def)
  have call: "journal_call sz (jc_kind c) (jc_data c) (jc_ts c) (jc_ts' c) (?j, d\<lparr>jd_fault := None\<rparr>) =
     ((?j\<lparr>jr_seq := ?n\<rparr>, (rotate_if_full sz ?j d)\<lparr>jd_fault := None,
        jd_live := Some (case jd_live (rotate_if_full sz ?j d) of
           None \<Rightarrow> written_lines c (js, d) | Some ls \<Rightarrow> ls @ written_lines c (js, d))\<rparr>), Inr ())"
    using assms(2) by (cases "jd_live (rotate_if_full sz ?j d)") (simp_all add: journal_call_def Let_def rotate_cong lines)
  have "writer_call sz c (js, d) = (case journal_call sz (jc_kind c) (jc_data c) (jc_ts c) (jc_ts' c) (?j, d\<lparr>jd_fault := None\<rparr>) of
      ((j, d'), _) \<Rightarrow> (js[jc_writer c := j], d'))"
    by (simp add: writer_call_def assms(1,3))
  then have "writer_call sz c (js, d) = (js[jc_writer c := ?j\<lparr>jr_seq := ?n\<rparr>],
      (rotate_if_full sz ?j d)\<lparr>jd_fault := None, jd_live := Some (case jd_live (rotate_if_full sz ?j d) of
           None \<Rightarrow> written_lines c (js, d) | Some ls \<Rightarrow> ls @ written_lines c (js, d))\<rparr>)"
    unfolding call by (simp only: prod.case)
  then show ?thesis by (rule that) simp
qed

lemma writer_call_idle:
  assumes "\<not> (jc_writer c < length js \<and> \<not> jr_closed (js ! jc_writer c) \<and> jc_fault c = None)"
  obtains f js' where "writer_call sz c (js, d) = (js', d\<lparr>jd_fault := f\<rparr>)" "written_lines c (js, d) = []"
    "map jr_max_files js' = map jr_max_files js"
proof -
  have "\<exists>f js'. writer_call sz c (js, d) = (js', d\<lparr>jd_fault := f\<rparr>) \<and> map jr_max_files js' = map jr_max_files js"
  proof (cases "jc_writer c < length js")
    case False
    then have "writer_call sz c (js, d) = (js, d\<lparr>jd_fault := jd_fault d\<rparr>)" by (simp add: writer_call_def)
    then show ?thesis by blast
  next
    case True
    show ?thesis
    proof (cases "jr_closed (js ! jc_writer c)")
      case closed: True
      then show ?thesis using True by (auto simp: writer_call_def journal_call_def)
    next
      case False
      with assms True obtain e where "jc_fault c = Some e" by auto
      then show ?thesis
        using True False by (auto simp: writer_call_def journal_call_def map_update list_update_same_conv)
    qed
  qed
  moreover have "written_lines c (js, d) = []" using assms by (auto simp: written_lines_def writer_records_def)
  ultimately show ?thesis using that by blast
qed

interpretation writers: retained_log "world_ok m" "writer_call sz" written_lines "chain_lines \<circ> snd" "chain_full m \<circ> snd"
  for m sz
proof unfold_locales
  fix w :: jworld and c :: jcall
  obtain js d where w: "w = (js, d)" by (cases w)
  assume "world_ok m w"
  then have ok: "chain_ok m d" "\<forall>j \<in> set js. jr_max_files j = m" by (auto simp: w world_ok_def)
  let ?rot = "rotate_if_full sz (js ! jc_writer c) d"
  have all: "world_ok m (writer_call sz c w) \<and>
    (\<exists>lost. (chain_lines \<circ> snd) w @ written_lines c w = lost @ (chain_lines \<circ> snd) (writer_call sz c w) \<and>
       (lost \<noteq> [] \<longrightarrow> (chain_full m \<circ> snd) (writer_call sz c w))) \<and>
    ((chain_full m \<circ> snd) w \<longrightarrow> (chain_full m \<circ> snd) (writer_call sz c w))"
  proof (cases "jc_writer c < length js \<and> \<not> jr_closed (js ! jc_writer c) \<and> jc_fault c = None")
    case False
    then obtain f js' where f: "writer_call sz c (js, d) = (js', d\<lparr>jd_fault := f\<rparr>)" "written_lines c (js, d) = []"
      "map jr_max_files js' = map jr_max_files js"
      by (rule writer_call_idle)
    have "\<forall>j \<in> set js'. jr_max_files j = m" using ok(2) f(3) by (metis image_eqI image_iff set_map)
    then show ?thesis using f ok by (simp add: w world_ok_def)
  next
    case True
    then obtain j' where call: "writer_call sz c (js, d) = (js[jc_writer c := j'], ?rot\<lparr>jd_fault := None,
        jd_live := Some (case jd_live ?rot of None \<Rightarrow> written_lines c (js, d) | Some ls \<Rightarrow> ls @ written_lines c (js, d))\<rparr>)"
      and j': "jr_max_files j' = jr_max_files (js ! jc_writer c)"
      by (auto elim: writer_call_eq)
    have m: "jr_max_files (js ! jc_writer c) = m" using ok(2) True by simp
    note rot = rotate_chain [of "js ! jc_writer c" d sz, unfolded m, OF ok(1)]
    obtain lost where lost: "chain_lines d = lost @ chain_lines ?rot" "lost \<noteq> [] \<longrightarrow> chain_full m ?rot" using rot(2) by blast
    let ?d = "?rot\<lparr>jd_fault := None\<rparr>"
    have snd: "snd (writer_call sz c w) = ?d\<lparr>jd_live := Some (case jd_live ?d of None \<Rightarrow> written_lines c w | Some ls \<Rightarrow> ls @ written_lines c w)\<rparr>"
      unfolding w call by simp
    have full: "chain_full m (snd (writer_call sz c w)) = chain_full m ?rot" "chain_ok m (snd (writer_call sz c w)) = chain_ok m ?rot"
      unfolding snd by (simp_all add: chain_full_def chain_ok_def)
    have "chain_lines d @ written_lines c w = lost @ chain_lines (snd (writer_call sz c w))"
      unfolding snd chain_append using lost(1) by simp
    moreover have "world_ok m (writer_call sz c w)"
      using full(2) rot(1) ok(2) j' m by (auto simp: w call world_ok_def dest!: subsetD [OF set_update_subset_insert])
    moreover have "chain_full m d \<longrightarrow> chain_full m ?rot"
    proof
      assume "chain_full m d"
      then show "chain_full m ?rot" using rotate_full [of "js ! jc_writer c" d sz] m by simp
    qed
    ultimately show ?thesis using lost(2) full(1) by (auto simp: w)
  qed
  then show "world_ok m (writer_call sz c w)" by blast
  show "\<exists>lost. (chain_lines \<circ> snd) w @ written_lines c w = lost @ (chain_lines \<circ> snd) (writer_call sz c w) \<and>
       (lost \<noteq> [] \<longrightarrow> (chain_full m \<circ> snd) (writer_call sz c w))" using all by blast
  show "(chain_full m \<circ> snd) w \<Longrightarrow> (chain_full m \<circ> snd) (writer_call sz c w)" using all by blast
qed

section \<open>What the readers return\<close>

definition readable :: "jline \<Rightarrow> bool" where
  "readable l = (case l of BadJson _ \<Rightarrow> False | NotObject \<Rightarrow> False | _ \<Rightarrow> True)"

definition objects :: "jline list \<Rightarrow> fields list" where
  "objects ls = concat (map (\<lambda>l. case l of Obj rec \<Rightarrow> [rec] | _ \<Rightarrow> []) ls)"

lemma objects_append [simp]: "objects (xs @ ys) = objects xs @ objects ys"
  by (simp add: objects_def)

lemma read_lines_readable: "list_all readable ls \<Longrightarrow> read_lines path n ls = Inr (objects ls)"
  by (induction path n ls rule: read_lines.induct) (auto simp: readable_def objects_def)

lemma read_files_readable:
  "list_all readable (concat (map snd fs)) \<Longrightarrow> read_files fs = Inr (objects (concat (map snd fs)))"
  by (induction fs rule: read_files.induct) (auto simp: read_lines_readable objects_def)

lemma chain_lines_path: "concat (map snd (chain_files path d)) = chain_lines d"
proof -
  have "map snd (archived fuel path d i) = map snd (archived fuel [] d i)" for fuel i
    by (induction fuel arbitrary: i) (simp_all split: option.split)
  then show ?thesis by (simp add: chain_lines_def chain_files_def split: option.split)
qed

lemma read_chain_readable:
  "list_all readable (chain_lines d) \<Longrightarrow> read_events_chain path d = Inr (objects (chain_lines d))"
  using read_files_readable [of "chain_files path d"] by (simp add: read_events_chain_def chain_lines_path)

lemma written_readable: "list_all readable (log_history f written_lines es w)"
proof -
  have "list_all readable (written_lines c w)" for c w by (auto simp: written_lines_def readable_def list_all_iff)
  then show ?thesis by (induction es arbitrary: w) simp_all
qed

lemma objects_written: "objects (log_history f written_lines es w) = map snd (log_history f writer_records es w)"
proof -
  have "objects (written_lines c w) = map snd (writer_records c w)" for c w
    by (auto simp: objects_def written_lines_def o_def case_prod_unfold)
  then show ?thesis by (induction es arbitrary: w) (simp_all add: objects_def)
qed

section \<open>Sequence numbers\<close>

definition seq_of :: "fields \<Rightarrow> int" where
  "seq_of rec = (case map_of rec ''seq'' of Some (PInt n) \<Rightarrow> n | _ \<Rightarrow> 0)"

lemma call_records_seqs:
  "map seq_of (call_records j kind data ts ts') =
     (if conflicts_of data = [] then [int (Suc (jr_seq j))] else [int (Suc (jr_seq j)), int (Suc (Suc (jr_seq j)))])"
  by (simp add: call_records_def event_record_def conflict_record_def seq_of_def)

lemma journal_call_seq:
  "fst (fst (journal_call sz kind data ts ts' (j, d))) =
     (if jr_closed j then j else j\<lparr>jr_seq := jr_seq j + (if jd_fault d = None \<and> conflicts_of data \<noteq> [] then 2 else 1)\<rparr>)"
  by (auto simp: journal_call_def Let_def split: option.split)

lemma writer_call_writers:
  "fst (writer_call sz c (js, d)) =
     (if jc_writer c < length js \<and> \<not> jr_closed (js ! jc_writer c)
      then js[jc_writer c := (js ! jc_writer c)\<lparr>jr_seq := jr_seq (js ! jc_writer c) +
        (if jc_fault c = None \<and> conflicts_of (jc_data c) \<noteq> [] then 2 else 1)\<rparr>] else js)"
  using journal_call_seq [of sz "jc_kind c" "jc_data c" "jc_ts c" "jc_ts' c" "js ! jc_writer c" "d\<lparr>jd_fault := jc_fault c\<rparr>"]
  by (auto simp: writer_call_def split: prod.splits)

definition seqs_of_writer :: "nat \<Rightarrow> (nat \<times> fields) list \<Rightarrow> int list" where
  "seqs_of_writer i recs = map (seq_of \<circ> snd) (filter (\<lambda>(w, _). w = i) recs)"

lemma writer_records_seqs:
  "seqs_of_writer i (writer_records c (js, d)) =
     (if jc_writer c = i \<and> i < length js \<and> \<not> jr_closed (js ! i) \<and> jc_fault c = None
      then map seq_of (call_records (js ! i) (jc_kind c) (jc_data c) (jc_ts c) (jc_ts' c)) else [])"
  by (cases "jc_writer c = i") (auto simp: writer_records_def seqs_of_writer_def filter_map o_def)

lemma history_seqs:
  "i < length js \<Longrightarrow>
     sorted_wrt (<) (int (jr_seq (js ! i)) # seqs_of_writer i (log_history (writer_call sz) writer_records es (js, d)))"
proof (induction es arbitrary: js d)
  case (Cons c es)
  obtain js' d' where w: "writer_call sz c (js, d) = (js', d')" by (cases "writer_call sz c (js, d)")
  have js': "js' = fst (writer_call sz c (js, d))" by (simp add: w)
  have len: "i < length js'" using Cons.prems unfolding js' writer_call_writers by simp
  let ?rest = "seqs_of_writer i (log_history (writer_call sz) writer_records es (js', d'))"
  have IH: "sorted_wrt (<) (int (jr_seq (js' ! i)) # ?rest)" by (rule Cons.IH [OF len])
  have step: "sorted_wrt (<) (int (jr_seq (js ! i)) # seqs_of_writer i (writer_records c (js, d))) \<and>
      (\<forall>n \<in> set (int (jr_seq (js ! i)) # seqs_of_writer i (writer_records c (js, d))). n \<le> int (jr_seq (js' ! i)))"
    using Cons.prems unfolding js' writer_call_writers writer_records_seqs call_records_seqs
    by (auto simp: nth_list_update)
  have "seqs_of_writer i (log_history (writer_call sz) writer_records (c # es) (js, d)) =
      seqs_of_writer i (writer_records c (js, d)) @ ?rest"
    by (simp add: seqs_of_writer_def w)
  then show ?case using step IH by (fastforce simp: sorted_wrt_append)
qed (simp add: seqs_of_writer_def)

definition demo_writer :: "string \<Rightarrow> journal" where
  "demo_writer actor = \<lparr>jr_path = ''j'', jr_actor = actor, jr_seq = 0, jr_max_bytes = 1, jr_max_files = 1, jr_closed = False\<rparr>"

definition demo_disk :: jdisk where
  "demo_disk = \<lparr>jd_live = Some [], jd_parts = [], jd_fault = None\<rparr>"

definition demo_calls :: "jcall list" where
  "demo_calls = map (\<lambda>(w, k, f). \<lparr>jc_writer = w, jc_kind = k, jc_data = [(''seq'', PInt 7), (''x'', PInt 1)], jc_ts = Fin 0,
     jc_ts' = Fin 0, jc_fault = f\<rparr>) [(0, ''a'', None), (1, ''b'', None), (0, ''c'', Some (Exn OSErr (PStr ''lock''))), (0, ''d'', None)]"

section \<open>Properties\<close>

text \<open>
  C3. Nothing written is lost or reordered except by the documented rotation. From a disk whose
  parts are contiguous, after any interleaving of calls of writers with the same \<open>max_files\<close>,
  reading the chain succeeds and returns the old events followed by every record written, in
  order, less some oldest ones; and if any are missing then all the parts the limit allows exist.
\<close>

theorem journal_chain_history:
  assumes "world_ok m (js, d)" and "list_all readable (chain_lines d)"
  shows "\<exists>lost recs. read_events_chain path (snd (run_log (writer_call sz) es (js, d))) = Inr recs \<and>
    objects (chain_lines d) @ map snd (log_history (writer_call sz) writer_records es (js, d)) = lost @ recs \<and>
    (lost \<noteq> [] \<longrightarrow> (\<forall>k. 1 \<le> k \<and> k \<le> max 1 m \<longrightarrow> map_of (jd_parts (snd (run_log (writer_call sz) es (js, d)))) k \<noteq> None))"
proof -
  let ?w = "run_log (writer_call sz) es (js, d)"
  obtain lost where lost: "chain_lines d @ log_history (writer_call sz) written_lines es (js, d) = lost @ chain_lines (snd ?w)"
    "lost \<noteq> [] \<longrightarrow> chain_full m (snd ?w)"
    using writers.run_kept [OF assms(1), of sz es] by auto
  have "list_all readable (lost @ chain_lines (snd ?w))"
    unfolding lost(1) [symmetric] using assms(2) written_readable by simp
  then have "read_events_chain path (snd ?w) = Inr (objects (chain_lines (snd ?w)))"
    by (intro read_chain_readable) simp
  moreover have "objects (chain_lines d) @ map snd (log_history (writer_call sz) writer_records es (js, d)) =
      objects lost @ objects (chain_lines (snd ?w))"
    using arg_cong [OF lost(1), of objects] by (simp add: objects_written)
  moreover have "objects lost \<noteq> [] \<longrightarrow> chain_full m (snd ?w)" using lost(2) by (auto simp: objects_def)
  ultimately show ?thesis unfolding chain_full_def by blast
qed

theorem journal_chain_history_witness:
  "\<exists>lost recs. read_events_chain ''j'' (snd (run_log (writer_call (\<lambda>_. 1)) demo_calls ([demo_writer ''m'', demo_writer ''n''], demo_disk))) = Inr recs \<and>
     map snd (log_history (writer_call (\<lambda>_. 1)) writer_records demo_calls ([demo_writer ''m'', demo_writer ''n''], demo_disk)) = lost @ recs"
proof -
  have ok: "world_ok 1 ([demo_writer ''m'', demo_writer ''n''], demo_disk)"
    by (auto simp: world_ok_def demo_writer_def demo_disk_def chain_ok_def intro: exI [of _ 0])
  have lines: "chain_lines demo_disk = []" by (simp add: chain_lines_def chain_files_def demo_disk_def)
  then have "list_all readable (chain_lines demo_disk)" by simp
  then show ?thesis
    using journal_chain_history [OF ok, of "''j''" "\<lambda>_. 1" demo_calls] by (simp add: lines objects_def) blast
qed

text \<open>
  The records of one writer carry strictly increasing sequence numbers, above its number
  at the start, whatever other writers do and whichever of its calls fail.
\<close>

theorem journal_seq_increasing:
  assumes "i < length js"
  shows "sorted_wrt (<) (int (jr_seq (js ! i)) # seqs_of_writer i (log_history (writer_call sz) writer_records es (js, d)))"
  by (rule history_seqs [OF assms])

theorem journal_seq_increasing_witness:
  "sorted_wrt (<) (0 # seqs_of_writer 0 (log_history (writer_call (\<lambda>_. 1)) writer_records demo_calls ([demo_writer ''m'', demo_writer ''n''], demo_disk)))"
  using journal_seq_increasing [of 0 "[demo_writer ''m'', demo_writer ''n'']" "\<lambda>_. 1" demo_calls demo_disk]
  by (simp add: demo_writer_def)

text \<open>
  A payload cannot forge the service keys: an accepted call appends a record whose
  \<open>kind\<close>, \<open>seq\<close> and \<open>actor\<close> are the journal's own, with every other key of the payload
  intact, and a second record \<open>journal_key_conflict\<close> exactly when the payload had a reserved
  key; a closed journal refuses and leaves the disk as it is.
\<close>

theorem journal_call_records:
  "if jr_closed j then journal_call sz kind data ts ts' (j, d) = ((j, d), Inl (closed_error j))
   else jd_fault d = None \<longrightarrow>
     (\<exists>rec recs live. snd (journal_call sz kind data ts ts' (j, d)) = Inr () \<and>
        jd_live (snd (fst (journal_call sz kind data ts ts' (j, d)))) = Some (live @ map Obj (rec # recs)) \<and>
        map_of rec ''kind'' = Some (PStr kind) \<and> map_of rec ''seq'' = Some (PInt (int (jr_seq j) + 1)) \<and>
        map_of rec ''actor'' = Some (PStr (jr_actor j)) \<and>
        (\<forall>k. k \<notin> set RESERVED_KEYS \<longrightarrow> map_of rec k = map_of data k) \<and>
        (if \<exists>k \<in> fst ` set data. k \<in> set RESERVED_KEYS
         then map (\<lambda>r. map_of r ''kind'') recs = [Some (PStr ''journal_key_conflict'')] else recs = []))"
proof (cases "jr_closed j")
  case True
  then show ?thesis by (simp add: journal_call_def)
next
  case open': False
  have keys: "map_of (filter (\<lambda>(k, _). k \<notin> set RESERVED_KEYS) data) k = map_of data k" if "k \<notin> set RESERVED_KEYS" for k
    using that by (induction data) auto
  have conf: "conflicts_of data \<noteq> [] \<longleftrightarrow> (\<exists>k \<in> fst ` set data. k \<in> set RESERVED_KEYS)"
    by (force simp: conflicts_of_def filter_empty_conv)
  let ?rec = "event_record j ts (Suc (jr_seq j)) kind data"
  let ?recs = "if conflicts_of data \<noteq> [] then [conflict_record j ts' (Suc (Suc (jr_seq j))) kind data] else []"
  have rec: "map_of ?rec ''kind'' = Some (PStr kind)" "map_of ?rec ''seq'' = Some (PInt (int (jr_seq j) + 1))"
    "map_of ?rec ''actor'' = Some (PStr (jr_actor j))" by (simp_all add: event_record_def)
  have other: "map_of ?rec k = map_of data k" if "k \<notin> set RESERVED_KEYS" for k
    using that keys [OF that] by (auto simp: event_record_def RESERVED_KEYS_def)
  have call: "\<exists>live. snd (journal_call sz kind data ts ts' (j, d)) = Inr () \<and>
      jd_live (snd (fst (journal_call sz kind data ts ts' (j, d)))) = Some (live @ map Obj (?rec # ?recs))" if "jd_fault d = None"
    using open' that by (auto simp: journal_call_def Let_def call_records_def)
  have "map (\<lambda>r. map_of r ''kind'') [conflict_record j ts' n kind data] = [Some (PStr ''journal_key_conflict'')]" for n
    by (simp add: conflict_record_def)
  then show ?thesis using open' call rec other conf by (smt (verit, best))
qed

theorem journal_call_records_witness:
  "\<exists>rec recs live. jd_live (snd (fst (journal_call (\<lambda>_. 1) ''a'' [(''kind'', PInt 3), (''x'', PInt 1)] (Fin 0) (Fin 0) (demo_writer ''m'', demo_disk)))) =
       Some (live @ map Obj (rec # recs)) \<and> map_of rec ''kind'' = Some (PStr ''a'') \<and> map_of rec ''x'' = Some (PInt 1) \<and> length recs = 1"
proof -
  have o: "\<not> jr_closed (demo_writer ''m'')" "jd_fault demo_disk = None" by (simp_all add: demo_writer_def demo_disk_def)
  have k: "\<exists>k \<in> fst ` set [(''kind'', PInt 3), (''x'', PInt 1)]. k \<in> set RESERVED_KEYS" "''x'' \<notin> set RESERVED_KEYS"
    by (simp_all add: RESERVED_KEYS_def)
  obtain rec recs live where r:
    "jd_live (snd (fst (journal_call (\<lambda>_. 1) ''a'' [(''kind'', PInt 3), (''x'', PInt 1)] (Fin 0) (Fin 0) (demo_writer ''m'', demo_disk)))) =
       Some (live @ map Obj (rec # recs))" "map_of rec ''kind'' = Some (PStr ''a'')"
    "map_of rec ''x'' = map_of [(''kind'', PInt 3), (''x'', PInt 1)] ''x''"
    "map (\<lambda>r. map_of r ''kind'') recs = [Some (PStr ''journal_key_conflict'')]"
    using mp [OF journal_call_records [of "demo_writer ''m''" "\<lambda>_. 1" "''a''" "[(''kind'', PInt 3), (''x'', PInt 1)]" "Fin 0" "Fin 0" demo_disk,
        unfolded if_not_P [OF o(1)] if_P [OF k(1)]] o(2)] k(2)
    by (elim exE conjE) (rule that, assumption+, metis, assumption)
  have "length recs = 1" using arg_cong [OF r(4), of length] by simp
  with r show ?thesis by auto
qed

text \<open>
  One rotation, exactly: once the live file has reached the limit it becomes part 1, part
  \<open>i\<close> becomes part \<open>i + 1\<close> up to \<open>max_files\<close>, the part numbered \<open>max_files\<close> is the only one
  dropped, and parts beyond it (left by a journal opened with a larger limit) stay.
\<close>

theorem journal_rotation_exact:
  assumes "jd_live d = Some ls" and "jr_max_bytes j \<le> sum_list (map sz ls)" and "0 < i"
  shows "jd_live (rotate_if_full sz j d) = None \<and>
    map_of (jd_parts (rotate_if_full sz j d)) i =
      (if i = 1 then Some ls else if i \<le> jr_max_files j then map_of (jd_parts d) (i - 1) else map_of (jd_parts d) i)"
  using rotated_parts [of d ls sz j] assms by simp

theorem journal_rotation_exact_witness:
  "map_of (jd_parts (rotate_if_full (\<lambda>_. 1) (demo_writer ''m'')
     \<lparr>jd_live = Some [Blank], jd_parts = [(1, []), (3, [NotObject])], jd_fault = None\<rparr>)) 3 = Some [NotObject]"
  using journal_rotation_exact [of "\<lparr>jd_live = Some [Blank], jd_parts = [(1, []), (3, [NotObject])], jd_fault = None\<rparr>"
      "[Blank]" "demo_writer ''m''" "\<lambda>_. 1" 3] by (simp add: demo_writer_def)

end
