(* ===== verification/Queue.thy ===== *)
theory Queue
  imports Main
begin

text \<open>
  Bounded queues that drop their oldest elements: the contract between the buffers of the program
  (the serial reader's bytes, the MQTT inbox) and their consumers. Elements are put in batches
  with a stamp, and taken from the front.
\<close>

datatype ('x, 'a) rop = Put 'x "'a list" | Take nat

text \<open>A run, with the elements every step hands out.\<close>

fun run_rops ::
  "('x \<Rightarrow> 'a list \<Rightarrow> 'r \<Rightarrow> 'r) \<Rightarrow> (nat \<Rightarrow> 'r \<Rightarrow> 'r) \<Rightarrow> ('r \<Rightarrow> 'a list) \<Rightarrow> ('x, 'a) rop list \<Rightarrow> 'r \<Rightarrow> 'r \<times> 'a list list" where
  "run_rops put get content [] r = (r, [])"
| "run_rops put get content (Put x d # ops) r =
     (case run_rops put get content ops (put x d r) of (r', outs) \<Rightarrow> (r', [] # outs))"
| "run_rops put get content (Take n # ops) r =
     (case run_rops put get content ops (get n r) of (r', outs) \<Rightarrow> (r', take n (content r) # outs))"

definition put_elems :: "('x, 'a) rop list \<Rightarrow> 'a list" where
  "put_elems ops = concat (map (\<lambda>x. case x of Put _ d \<Rightarrow> d | Take _ \<Rightarrow> []) ops)"

text \<open>Two equally long lists of pieces, alternating.\<close>

definition weave :: "'a list list \<Rightarrow> 'a list list \<Rightarrow> 'a list" where
  "weave gaps outs = concat (map2 (@) gaps outs)"

lemma weave_simps [simp]: "weave [] [] = []" "weave (g # gs) (x # xs) = g @ x @ weave gs xs"
  by (simp_all add: weave_def)

lemma length_weave:
  "length gaps = length outs \<Longrightarrow> length (weave gaps outs) = length (concat gaps) + length (concat outs)"
  by (induction gaps outs rule: list_induct2) simp_all

locale bounded_queue =
  fixes ok :: "'r \<Rightarrow> bool"
    and content :: "'r \<Rightarrow> 'a list"
    and put :: "'x \<Rightarrow> 'a list \<Rightarrow> 'r \<Rightarrow> 'r"
    and get :: "nat \<Rightarrow> 'r \<Rightarrow> 'r"
    and capacity :: "'r \<Rightarrow> nat"
  assumes put_ok: "ok r \<Longrightarrow> ok (put x d r)"
    and put_content: "ok r \<Longrightarrow> \<exists>gap. content r @ d = gap @ content (put x d r)"
    and get_ok: "ok r \<Longrightarrow> ok (get n r)"
    and get_content: "ok r \<Longrightarrow> content (get n r) = drop n (content r)"
    and bounded: "ok r \<Longrightarrow> length (content r) \<le> capacity r"
    and put_capacity: "capacity (put x d r) = capacity r"
    and get_capacity: "capacity (get n r) = capacity r"
begin

lemma accounting:
  "ok r \<Longrightarrow> run_rops put get content ops r = (r', outs) \<Longrightarrow>
     ok r' \<and> length (content r') \<le> capacity r \<and>
     (\<exists>gaps. length gaps = length outs \<and> content r @ put_elems ops = weave gaps outs @ content r')"
proof (induction ops arbitrary: r outs)
  case Nil
  then show ?case by (auto simp: put_elems_def bounded)
next
  case (Cons x ops)
  show ?case
  proof (cases x)
    case (Put now d)
    obtain os where os: "run_rops put get content ops (put now d r) = (r', os)" "outs = [] # os"
      using Cons.prems(2) by (auto simp: Put split: prod.splits)
    obtain gap where gap: "content r @ d = gap @ content (put now d r)" using put_content [OF Cons.prems(1)] by blast
    obtain gaps where gaps: "ok r'" "length (content r') \<le> capacity r" "length gaps = length os"
      "content (put now d r) @ put_elems ops = weave gaps os @ content r'"
      using Cons.IH [OF put_ok [OF Cons.prems(1)] os(1)] put_capacity by metis
    have "content r @ put_elems (x # ops) = (content r @ d) @ put_elems ops" by (simp add: Put put_elems_def)
    also have "\<dots> = weave (gap # gaps) outs @ content r'" using gaps(4) by (simp add: gap os(2))
    finally show ?thesis using gaps os(2) by (intro conjI exI [of _ "gap # gaps"]) auto
  next
    case (Take n)
    obtain os where os: "run_rops put get content ops (get n r) = (r', os)" "outs = take n (content r) # os"
      using Cons.prems(2) by (auto simp: Take split: prod.splits)
    obtain gaps where gaps: "ok r'" "length (content r') \<le> capacity r" "length gaps = length os"
      "content (get n r) @ put_elems ops = weave gaps os @ content r'"
      using Cons.IH [OF get_ok [OF Cons.prems(1)] os(1)] get_capacity by metis
    have "content r @ put_elems (x # ops) = take n (content r) @ (content (get n r) @ put_elems ops)"
      by (simp add: Take put_elems_def get_content [OF Cons.prems(1)] flip: append_assoc)
    also have "\<dots> = weave ([] # gaps) outs @ content r'" unfolding gaps(4) by (simp add: os(2))
    finally show ?thesis using gaps os(2) by (intro conjI exI [of _ "[] # gaps"]) auto
  qed
qed

end

text \<open>A queue that counts what it drops.\<close>

locale counted_queue = bounded_queue ok content put get capacity
  for ok :: "'r \<Rightarrow> bool"
    and content :: "'r \<Rightarrow> 'a list"
    and put :: "'x \<Rightarrow> 'a list \<Rightarrow> 'r \<Rightarrow> 'r"
    and get :: "nat \<Rightarrow> 'r \<Rightarrow> 'r"
    and capacity :: "'r \<Rightarrow> nat" +
  fixes lost :: "'r \<Rightarrow> int"
  assumes put_lost: "ok r \<Longrightarrow>
      lost (put x d r) - lost r = int (length (content r)) + int (length d) - int (length (content (put x d r)))"
    and get_lost: "ok r \<Longrightarrow> lost (get n r) = lost r"
begin

lemma lost_total:
  "ok r \<Longrightarrow> run_rops put get content ops r = (r', outs) \<Longrightarrow>
     lost r' - lost r = int (length (content r)) + int (length (put_elems ops)) - int (length (concat outs)) - int (length (content r'))"
proof (induction ops arbitrary: r outs)
  case (Cons x ops)
  show ?case
  proof (cases x)
    case (Put now d)
    then show ?thesis
      using Cons.prems Cons.IH [OF put_ok [OF Cons.prems(1)], of now d] put_lost [OF Cons.prems(1), of now d]
      by (auto simp: put_elems_def split: prod.splits)
  next
    case (Take n)
    have "min n (length (content r)) + (length (content r) - n) = length (content r)" by linarith
    then show ?thesis
      using Take Cons.prems Cons.IH [OF get_ok [OF Cons.prems(1)], of n] get_lost [OF Cons.prems(1), of n]
        get_content [OF Cons.prems(1), of n]
      by (auto simp: put_elems_def split: prod.splits)
  qed
qed (simp add: put_elems_def)

lemma counted_accounting:
  assumes "ok r" "run_rops put get content ops r = (r', outs)"
  shows "\<exists>gaps. length gaps = length outs \<and> content r @ put_elems ops = weave gaps outs @ content r' \<and>
    int (length (concat gaps)) = lost r' - lost r"
proof -
  obtain gaps where gaps: "length gaps = length outs" "content r @ put_elems ops = weave gaps outs @ content r'"
    using accounting [OF assms] by blast
  have "length (content r) + length (put_elems ops) = length (concat gaps) + length (concat outs) + length (content r')"
    using arg_cong [OF gaps(2), of length] length_weave [OF gaps(1)] by simp
  then show ?thesis using gaps lost_total [OF assms] by (intro exI [of _ gaps]) auto
qed

end

end
