(* ===== verification/Reader.thy ===== *)
theory Reader
  imports PyText Queue
begin

text \<open>
  \<open>src/io_core/serial_reader.py\<close>: the background serial reader. The buffer is the code's: a
  queue of stamped chunks, a byte count, the number of evicted bytes and the offset of
  \<open>read_until\<close> into the first chunk. A turn of the background thread is a step on this state;
  what the thread did between two looks of a waiting consumer is a list of such steps.
\<close>

record reader =
  rd_max_bytes :: nat
  rd_chunk :: nat
  rd_chunks :: "(rat \<times> bytes) list"
  rd_bytes :: int
  rd_dropped :: int
  rd_consumed :: nat
  rd_stop :: bool
  rd_thread :: "bool option"
  rd_error :: "exn option"

text \<open>\<open>rd_thread\<close>: no thread, or a thread with its \<open>is_alive()\<close>.\<close>

definition reader_init :: "int \<Rightarrow> int \<Rightarrow> exn + reader" where
  "reader_init max_bytes chunk =
     (if max_bytes \<le> 0 then Inl (Exn ValueErr (PFStr [PStr ''max_bytes must be > 0, got '', PInt max_bytes]))
      else if chunk \<le> 0 then Inl (Exn ValueErr (PFStr [PStr ''chunk must be > 0, got '', PInt chunk]))
      else if max_bytes < chunk then
        Inl (Exn ValueErr (PFStr [PStr ''max_bytes ('', PInt max_bytes, PStr '') must be >= chunk ('', PInt chunk, PStr '')'']))
      else Inr \<lparr>rd_max_bytes = nat max_bytes, rd_chunk = nat chunk, rd_chunks = [], rd_bytes = 0, rd_dropped = 0,
        rd_consumed = 0, rd_stop = False, rd_thread = None, rd_error = None\<rparr>)"

section \<open>Life cycle\<close>

definition reader_start :: "reader \<Rightarrow> reader" where
  "reader_start r = (if rd_thread r \<noteq> None then r else r\<lparr>rd_stop := False, rd_thread := Some True\<rparr>)"

text \<open>
  \<open>stop\<close> calls \<open>cancel_read\<close> exactly when a thread exists and the transport cannot be polled:
  \<open>in_waiting\<close> is \<open>None\<close> or raises one of the expected errors.
\<close>

definition stop_cancels :: "exn + nat option \<Rightarrow> reader \<Rightarrow> bool" where
  "stop_cancels in_waiting r =
     (rd_thread r \<noteq> None \<and>
      (case in_waiting of Inr w \<Rightarrow> w = None | Inl e \<Rightarrow> catches [AttributeErr, OSErr, ValueErr, TransportClosedError] e))"

text \<open>\<open>still_alive\<close>: the thread outlived \<open>join(timeout)\<close>. The flag is the returned value.\<close>

definition reader_stop :: "bool \<Rightarrow> reader \<Rightarrow> reader \<times> bool" where
  "reader_stop still_alive r =
     (let r1 = r\<lparr>rd_stop := True\<rparr> in
      if rd_thread r1 = None then (r1, True)
      else if still_alive then (r1, False)
      else (r1\<lparr>rd_thread := None\<rparr>, True))"

definition running :: "reader \<Rightarrow> bool" where
  "running r = (rd_thread r = Some True)"

section \<open>The buffer\<close>

fun evict_chunks :: "nat \<Rightarrow> (rat \<times> bytes) list \<Rightarrow> int \<Rightarrow> int \<Rightarrow> nat \<Rightarrow> (rat \<times> bytes) list \<times> int \<times> int \<times> nat" where
  "evict_chunks m [] b d c = ([], b, d, c)"
| "evict_chunks m ((t, oldest) # cs) b d c =
     (if int m < b
      then evict_chunks m cs (b - int (length oldest)) (d + max 0 (int (length oldest) - int c)) 0
      else ((t, oldest) # cs, b, d, c))"

definition evict_locked :: "reader \<Rightarrow> reader" where
  "evict_locked r =
     (case evict_chunks (rd_max_bytes r) (rd_chunks r) (rd_bytes r) (rd_dropped r) (rd_consumed r) of
        (cs, b, d, c) \<Rightarrow> r\<lparr>rd_chunks := cs, rd_bytes := b, rd_dropped := d, rd_consumed := c\<rparr>)"

text \<open>The last lines of \<open>_run\<close>: a drained chunk enters the buffer.\<close>

definition ingest :: "rat \<Rightarrow> bytes \<Rightarrow> reader \<Rightarrow> reader" where
  "ingest now data r =
     (if data = [] then r
      else evict_locked (r\<lparr>rd_chunks := rd_chunks r @ [(now, data)], rd_bytes := rd_bytes r + int (length data)\<rparr>))"

definition snapshot :: "reader \<Rightarrow> bytes" where
  "snapshot r = (case rd_chunks r of [] \<Rightarrow> [] | (_, first) # cs \<Rightarrow> drop (rd_consumed r) first @ concat (map snd cs))"

fun consume_chunks :: "nat \<Rightarrow> (rat \<times> bytes) list \<Rightarrow> int \<Rightarrow> nat \<Rightarrow> (rat \<times> bytes) list \<times> int \<times> nat" where
  "consume_chunks n [] b c = ([], b, c)"
| "consume_chunks n ((t, first) # cs) b c =
     (if n = 0 then ((t, first) # cs, b, c)
      else let avail = length first - c in
        if n < avail then ((t, first) # cs, b, c + n)
        else consume_chunks (n - avail) cs (b - int (length first)) 0)"

definition consume_locked :: "nat \<Rightarrow> reader \<Rightarrow> reader" where
  "consume_locked n r =
     (case consume_chunks n (rd_chunks r) (rd_bytes r) (rd_consumed r) of
        (cs, b, c) \<Rightarrow> r\<lparr>rd_chunks := cs, rd_bytes := b, rd_consumed := c\<rparr>)"

text \<open>\<open>buf[-size:]\<close>; a size of 0 is the whole buffer.\<close>

definition last_bytes :: "int \<Rightarrow> bytes \<Rightarrow> bytes" where
  "last_bytes n buf = (if 0 < n then drop (length buf - nat n) buf else drop (nat (- n)) buf)"

record tail_view =
  tv_data :: bytes
  tv_dropped :: int
  tv_alive :: bool
  tv_error :: "pyval option"

definition tail_of :: "int \<Rightarrow> reader \<Rightarrow> tail_view" where
  "tail_of n r =
     \<lparr>tv_data = last_bytes n (snapshot r),
      tv_dropped = (if rd_chunks r \<noteq> [] then rd_dropped r + int (rd_consumed r) else rd_dropped r),
      tv_alive = running r, tv_error = map_option exn_str (rd_error r)\<rparr>"

definition stats :: "reader \<Rightarrow> int \<times> int \<times> nat" where
  "stats r = (rd_bytes r - (if rd_chunks r \<noteq> [] then int (rd_consumed r) else 0), rd_dropped r, length (rd_chunks r))"

section \<open>The background thread\<close>

text \<open>
  One turn of \<open>_run\<close>. \<open>in_waiting\<close> is what the property gave (\<open>None\<close> also when it raised an
  expected error), \<open>stop_late\<close> that the stop flag was set while the turn waited for the I/O
  lock. The flag says whether the thread goes on.
\<close>

definition pump_read :: "bool \<Rightarrow> (nat \<Rightarrow> exn + bytes) \<Rightarrow> nat \<Rightarrow> rat \<Rightarrow> reader \<Rightarrow> reader \<times> bool" where
  "pump_read stop_late dev_read n now r =
     (if stop_late then (r\<lparr>rd_stop := True\<rparr>, False)
      else case dev_read n of
        Inl e \<Rightarrow> (if catches [OSErr, ValueErr, AssertionErr, TransportClosedError] e then r\<lparr>rd_error := Some e\<rparr> else r, False)
      | Inr data \<Rightarrow> (ingest now data r, True))"

definition pump_turn :: "nat option \<Rightarrow> bool \<Rightarrow> (nat \<Rightarrow> exn + bytes) \<Rightarrow> rat \<Rightarrow> reader \<Rightarrow> reader \<times> bool" where
  "pump_turn in_waiting stop_late dev_read now r =
     (if rd_stop r then (r, False)
      else case in_waiting of
        Some n \<Rightarrow> (if n = 0 then (r, True) else pump_read stop_late dev_read (min n (rd_chunk r)) now r)
      | None \<Rightarrow> pump_read stop_late dev_read (rd_chunk r) now r)"

text \<open>What other threads can do to a reader between two looks of \<open>read_until\<close>.\<close>

datatype bg = Pump "nat option" bool "exn + bytes" rat | StopSet | ThreadExit

definition apply_bg :: "bg \<Rightarrow> reader \<Rightarrow> reader" where
  "apply_bg e r =
     (case e of
        Pump w late got now \<Rightarrow> fst (pump_turn w late (\<lambda>n. map_sum id (take n) got) now r)
      | StopSet \<Rightarrow> r\<lparr>rd_stop := True\<rparr>
      | ThreadExit \<Rightarrow> r\<lparr>rd_thread := map_option (\<lambda>_. False) (rd_thread r)\<rparr>)"

record until_view =
  uv_found :: bool
  uv_data :: bytes
  uv_alive :: bool
  uv_error :: "pyval option"

text \<open>
  A turn of the waiting loop: the background steps before the look, and the clock reading after
  it. \<open>None\<close> says that the call is still waiting when the observed turns are used up.
\<close>

fun until_loop :: "bytes \<Rightarrow> rat \<Rightarrow> (bg list \<times> rat) list \<Rightarrow> reader \<Rightarrow> (reader \<times> until_view) option" where
  "until_loop needle deadline [] r = None"
| "until_loop needle deadline ((steps, now) # turns) r =
     (let r1 = fold apply_bg steps r; buf = snapshot r1 in
      case find_at needle buf of
        Some pos \<Rightarrow>
          let end' = pos + length needle in
          Some (consume_locked end' r1,
                \<lparr>uv_found = True, uv_data = take end' buf, uv_alive = running r1, uv_error = None\<rparr>)
      | None \<Rightarrow>
          if rd_error r1 \<noteq> None \<or> deadline \<le> now \<or> rd_stop r1
          then Some (r1, \<lparr>uv_found = False, uv_data = buf, uv_alive = running r1, uv_error = map_option exn_str (rd_error r1)\<rparr>)
          else until_loop needle deadline turns r1)"

definition read_until :: "string \<Rightarrow> rat \<Rightarrow> rat \<Rightarrow> (bg list \<times> rat) list \<Rightarrow> reader \<Rightarrow> (reader \<times> (exn + until_view)) option" where
  "read_until pattern timeout start turns r =
     (if pattern = [] then Some (r, Inl (Exn ValueErr (PStr ''pattern must not be empty'')))
      else map_option (\<lambda>(r', v). (r', Inr v)) (until_loop (encode_str pattern) (start + timeout) turns r))"

section \<open>The invariant\<close>

definition chunks_ok :: "(rat \<times> bytes) list \<Rightarrow> int \<Rightarrow> nat \<Rightarrow> bool" where
  "chunks_ok cs b c \<longleftrightarrow> b = (\<Sum>x \<leftarrow> cs. int (length (snd x))) \<and>
     (case cs of [] \<Rightarrow> c = 0 | (_, first) # _ \<Rightarrow> c < length first) \<and> (\<forall>x \<in> set cs. snd x \<noteq> [])"

definition reader_ok :: "reader \<Rightarrow> bool" where
  "reader_ok r \<longleftrightarrow> chunks_ok (rd_chunks r) (rd_bytes r) (rd_consumed r) \<and> rd_bytes r \<le> int (rd_max_bytes r) \<and> 0 \<le> rd_dropped r"

definition view :: "(rat \<times> bytes) list \<Rightarrow> nat \<Rightarrow> bytes" where
  "view cs c = (case cs of [] \<Rightarrow> [] | (_, first) # cs \<Rightarrow> drop c first @ concat (map snd cs))"

lemma snapshot_view: "snapshot r = view (rd_chunks r) (rd_consumed r)"
  by (simp add: snapshot_def view_def)

lemma chunks_ok_tl: "chunks_ok ((t, x) # cs) b c \<Longrightarrow> chunks_ok cs (b - int (length x)) 0"
  by (auto simp: chunks_ok_def split: list.splits)

lemma view_0 [simp]: "view cs 0 = concat (map snd cs)"
  by (simp add: view_def split: list.split)

lemma view_Cons: "view ((t, x) # cs) c = drop c x @ concat (map snd cs)"
  by (simp add: view_def)

lemma evict_chunks_ok:
  "evict_chunks m cs b d c = (cs', b', d', c') \<Longrightarrow> chunks_ok cs b c \<Longrightarrow>
     chunks_ok cs' b' c' \<and> b' \<le> int m \<and>
     (\<exists>gap. view cs c = gap @ view cs' c' \<and> int (length gap) = d' - d)"
proof (induction m cs b d c rule: evict_chunks.induct)
  case (1 m b d c)
  then show ?case by (auto simp: chunks_ok_def)
next
  case (2 m t x cs b d c)
  show ?case
  proof (cases "int m < b")
    case True
    have c: "c < length x" using 2(3) by (simp add: chunks_ok_def)
    obtain gap where gap: "view cs 0 = gap @ view cs' c'" "int (length gap) = d' - (d + (int (length x) - int c))"
      and ok: "chunks_ok cs' b' c'" "b' \<le> int m"
      using 2(1) [OF True _ chunks_ok_tl [OF 2(3)]] 2(2) True c by auto
    have "view ((t, x) # cs) c = (drop c x @ gap) @ view cs' c'" using gap(1) by (simp add: view_Cons)
    moreover have "int (length (drop c x @ gap)) = d' - d" using gap(2) c by simp
    ultimately show ?thesis using ok by blast
  next
    case False
    then show ?thesis using 2 by auto
  qed
qed

lemma ingest_ok:
  assumes "reader_ok r"
  shows "reader_ok (ingest now data r)"
    and "\<exists>gap. snapshot r @ data = gap @ snapshot (ingest now data r) \<and>
      int (length gap) = rd_dropped (ingest now data r) - rd_dropped r"
proof -
  let ?cs = "rd_chunks r @ [(now, data)]" and ?b = "rd_bytes r + int (length data)"
  have "reader_ok (ingest now data r) \<and> (\<exists>gap. snapshot r @ data = gap @ snapshot (ingest now data r) \<and>
      int (length gap) = rd_dropped (ingest now data r) - rd_dropped r)"
  proof (cases "data = []")
    case True
    then show ?thesis using assms by (simp add: ingest_def)
  next
    case False
    then have ok: "chunks_ok ?cs ?b (rd_consumed r)"
      using assms by (cases "rd_chunks r") (auto simp: reader_ok_def chunks_ok_def)
    have v: "view ?cs (rd_consumed r) = snapshot r @ data"
      using assms by (cases "rd_chunks r") (auto simp: snapshot_def view_def reader_ok_def chunks_ok_def)
    obtain cs' b' d' c' where e: "evict_chunks (rd_max_bytes r) ?cs ?b (rd_dropped r) (rd_consumed r) = (cs', b', d', c')"
      by (metis prod.collapse)
    from evict_chunks_ok [OF e ok] obtain gap where g: "chunks_ok cs' b' c'" "b' \<le> int (rd_max_bytes r)"
      "snapshot r @ data = gap @ view cs' c'" "int (length gap) = d' - rd_dropped r" unfolding v by blast
    have "ingest now data r = r\<lparr>rd_chunks := cs', rd_bytes := b', rd_dropped := d', rd_consumed := c'\<rparr>"
      using False e by (simp add: ingest_def evict_locked_def)
    then show ?thesis using g assms by (auto simp: reader_ok_def snapshot_view)
  qed
  then show "reader_ok (ingest now data r)" "\<exists>gap. snapshot r @ data = gap @ snapshot (ingest now data r) \<and>
      int (length gap) = rd_dropped (ingest now data r) - rd_dropped r" by blast+
qed

lemma consume_chunks_ok:
  "consume_chunks n cs b c = (cs', b', c') \<Longrightarrow> chunks_ok cs b c \<Longrightarrow>
     chunks_ok cs' b' c' \<and> b' \<le> b \<and> view cs' c' = drop n (view cs c)"
proof (induction n cs b c rule: consume_chunks.induct)
  case (2 n t x cs b c)
  have c: "c < length x" using 2(3) by (simp add: chunks_ok_def)
  show ?case
  proof (cases "n = 0 \<or> n < length x - c")
    case True
    then have "cs' = (t, x) # cs" "b' = b" "c' = c + n" using 2(2) by (auto simp: Let_def split: if_splits)
    then show ?thesis using True 2(3) c by (auto simp: chunks_ok_def view_Cons add.commute)
  next
    case False
    then have "chunks_ok cs' b' c' \<and> b' \<le> b - int (length x) \<and> view cs' c' = drop (n - (length x - c)) (view cs 0)"
      using 2(1) [OF _ refl _ _ chunks_ok_tl [OF 2(3)]] 2(2) by (auto simp: Let_def)
    then show ?thesis using False c by (auto simp: view_Cons)
  qed
qed (auto simp: view_def)

lemma consume_ok:
  assumes "reader_ok r"
  shows "reader_ok (consume_locked n r)" and "snapshot (consume_locked n r) = drop n (snapshot r)"
    and "rd_dropped (consume_locked n r) = rd_dropped r"
proof -
  obtain cs' b' c' where e: "consume_chunks n (rd_chunks r) (rd_bytes r) (rd_consumed r) = (cs', b', c')" by (metis prod.collapse)
  have "chunks_ok (rd_chunks r) (rd_bytes r) (rd_consumed r)" using assms by (simp add: reader_ok_def)
  note k = consume_chunks_ok [OF e this]
  show "reader_ok (consume_locked n r)" "snapshot (consume_locked n r) = drop n (snapshot r)"
    "rd_dropped (consume_locked n r) = rd_dropped r"
    using k assms by (auto simp: consume_locked_def e reader_ok_def snapshot_view)
qed

lemma snapshot_bound: "reader_ok r \<Longrightarrow> int (length (snapshot r)) \<le> int (rd_max_bytes r)"
proof -
  assume ok: "reader_ok r"
  have "int (length (concat (map snd cs))) = (\<Sum>x \<leftarrow> cs. int (length (snd x)))" for cs :: "(rat \<times> bytes) list"
    by (induction cs) auto
  then have "int (length (snapshot r)) \<le> rd_bytes r"
    using ok by (cases "rd_chunks r") (auto simp: snapshot_def reader_ok_def chunks_ok_def)
  then show ?thesis using ok by (simp add: reader_ok_def)
qed

lemma settings_ingest [simp]: "rd_max_bytes (ingest now d r) = rd_max_bytes r"
  by (simp add: ingest_def evict_locked_def split: prod.split)

lemma settings_consume [simp]: "rd_max_bytes (consume_locked n r) = rd_max_bytes r"
  by (simp add: consume_locked_def split: prod.split)

text \<open>The reader's buffer is a counted queue of bytes.\<close>

interpretation buffer: counted_queue reader_ok snapshot ingest consume_locked rd_max_bytes rd_dropped
proof unfold_locales
  fix r :: reader and now d n
  assume ok: "reader_ok r"
  show "reader_ok (ingest now d r)" "reader_ok (consume_locked n r)" by (simp_all add: ok ingest_ok consume_ok)
  obtain gap where gap: "snapshot r @ d = gap @ snapshot (ingest now d r)"
    "int (length gap) = rd_dropped (ingest now d r) - rd_dropped r" using ingest_ok(2) [OF ok] by blast
  then show "\<exists>gap. snapshot r @ d = gap @ snapshot (ingest now d r)" by blast
  show "rd_dropped (ingest now d r) - rd_dropped r =
      int (length (snapshot r)) + int (length d) - int (length (snapshot (ingest now d r)))"
    using arg_cong [OF gap(1), of length] gap(2) by simp
  show "snapshot (consume_locked n r) = drop n (snapshot r)" "rd_dropped (consume_locked n r) = rd_dropped r"
    by (simp_all add: ok consume_ok)
  show "length (snapshot r) \<le> rd_max_bytes r" using snapshot_bound [OF ok] by simp
qed simp_all

section \<open>The waiting loop\<close>

lemma apply_bg_ok: "reader_ok r \<Longrightarrow> reader_ok (apply_bg e r)"
proof -
  assume ok: "reader_ok r"
  have upd: "reader_ok (r\<lparr>rd_stop := x\<rparr>)" "reader_ok (r\<lparr>rd_error := y\<rparr>)" "reader_ok (r\<lparr>rd_thread := z\<rparr>)" for x y z
    using ok by (simp_all add: reader_ok_def)
  have "reader_ok (fst (pump_read late got n now r))" for late got n now
    using upd ok ingest_ok(1) by (auto simp: pump_read_def split: sum.split)
  then show "reader_ok (apply_bg e r)"
    using upd ok by (cases e) (auto simp: apply_bg_def pump_turn_def split: option.split)
qed

lemma fold_bg_ok: "reader_ok r \<Longrightarrow> reader_ok (fold apply_bg es r)"
  by (induction es arbitrary: r) (simp_all add: apply_bg_ok)

lemma until_loop_Some:
  "until_loop needle deadline turns r = Some (r', v) \<Longrightarrow>
     \<exists>k < length turns. let r1 = fold apply_bg (concat (map fst (take (Suc k) turns))) r; buf = snapshot r1 in
       if uv_found v
       then \<exists>pos. find_at needle buf = Some pos \<and> uv_data v = take (pos + length needle) buf \<and>
              r' = consume_locked (pos + length needle) r1
       else find_at needle buf = None \<and> uv_data v = buf \<and> r' = r1 \<and>
              (rd_error r1 \<noteq> None \<or> deadline \<le> snd (turns ! k) \<or> rd_stop r1)"
proof (induction turns arbitrary: r)
  case (Cons t0 turns)
  obtain steps now where t0: "t0 = (steps, now)" by (cases t0)
  let ?r1 = "fold apply_bg steps r"
  show ?case
  proof (cases "find_at needle (snapshot ?r1) = None \<and> \<not> (rd_error ?r1 \<noteq> None \<or> deadline \<le> now \<or> rd_stop ?r1)")
    case True
    then have "until_loop needle deadline turns ?r1 = Some (r', v)" using Cons.prems by (simp add: t0 Let_def)
    from Cons.IH [OF this] obtain k where k: "k < length turns"
      "let r1 = fold apply_bg (concat (map fst (take (Suc k) turns))) ?r1; buf = snapshot r1 in
       if uv_found v
       then \<exists>pos. find_at needle buf = Some pos \<and> uv_data v = take (pos + length needle) buf \<and>
              r' = consume_locked (pos + length needle) r1
       else find_at needle buf = None \<and> uv_data v = buf \<and> r' = r1 \<and>
              (rd_error r1 \<noteq> None \<or> deadline \<le> snd (turns ! k) \<or> rd_stop r1)" by blast
    then show ?thesis by (intro exI [of _ "Suc k"], cases "uv_found v") (simp_all add: t0 Let_def)
  next
    case False
    then show ?thesis
      using Cons.prems by (intro exI [of _ 0]) (auto simp: t0 Let_def split: option.splits if_splits)
  qed
qed simp

lemma until_loop_returns:
  "\<exists>x \<in> set turns. deadline \<le> snd x \<Longrightarrow> until_loop needle deadline turns r \<noteq> None"
proof (induction turns arbitrary: r)
  case (Cons t0 turns)
  obtain steps now where t0: "t0 = (steps, now)" by (cases t0)
  show ?case
  proof (cases "deadline \<le> now")
    case True
    then show ?thesis by (simp add: t0 Let_def split: option.split)
  next
    case False
    then show ?thesis using Cons by (simp add: t0 Let_def split: option.split)
  qed
qed simp

section \<open>Properties\<close>

text \<open>
  C5. Byte accounting. For every sequence of drained chunks and consumer takes, the bytes that
  were buffered or came in are, in order, handed out exactly once, still buffered, or evicted,
  and \<open>dropped\<close> counts exactly the evicted ones; the buffer never exceeds its limit.
\<close>

theorem reader_accounting:
  assumes "reader_ok r" and "run_rops ingest consume_locked snapshot ops r = (r', outs)"
  shows "length (snapshot r') \<le> rd_max_bytes r \<and>
    (\<exists>gaps. length gaps = length outs \<and> snapshot r @ put_elems ops = weave gaps outs @ snapshot r' \<and>
       int (length (concat gaps)) = rd_dropped r' - rd_dropped r)"
  using buffer.accounting [OF assms] buffer.counted_accounting [OF assms] by blast

definition demo_reader :: reader where
  "demo_reader = \<lparr>rd_max_bytes = 4, rd_chunk = 2, rd_chunks = [], rd_bytes = 0, rd_dropped = 0, rd_consumed = 0,
     rd_stop = False, rd_thread = Some True, rd_error = None\<rparr>"

lemma demo_reader_ok: "reader_ok demo_reader"
  by (simp add: reader_ok_def chunks_ok_def demo_reader_def)

theorem reader_accounting_witness:
  "\<exists>gaps. weave gaps [[], [1], [], [], [3, 4]] @ [5, 6] = ([1, 2, 3, 4, 5, 6] :: bytes) \<and> length (concat gaps) = 1"
proof -
  let ?ops = "[Put 0 [1, 2], Take 1, Put 1 [3, 4], Put 2 [5, 6], Take 2]"
  have run: "run_rops ingest consume_locked snapshot ?ops demo_reader =
      (fst (run_rops ingest consume_locked snapshot ?ops demo_reader), [[], [1], [], [], [3, 4]])"
    and end': "snapshot (fst (run_rops ingest consume_locked snapshot ?ops demo_reader)) = [5, 6]"
    "rd_dropped (fst (run_rops ingest consume_locked snapshot ?ops demo_reader)) = 1"
    by (simp_all add: demo_reader_def ingest_def evict_locked_def consume_locked_def snapshot_def Let_def)
  have start: "snapshot demo_reader = []" "rd_dropped demo_reader = 0" by (simp_all add: demo_reader_def snapshot_def)
  show ?thesis
    using reader_accounting [OF demo_reader_ok run] unfolding end' start by (auto simp: put_elems_def)
qed

text \<open>
  What \<open>read_until\<close> returns: at some observed turn, a match gives everything up to the end
  of the first occurrence of the pattern and removes exactly that; otherwise the pattern does not
  occur in the buffer, nothing is removed, all unconsumed bytes are reported, and the reader has
  failed or was stopped or the deadline has passed.
\<close>

theorem read_until_result:
  assumes "reader_ok r" and "read_until pattern timeout start turns r = Some (r', Inr v)"
  shows "\<exists>k < length turns. \<exists>r1. r1 = fold apply_bg (concat (map fst (take (Suc k) turns))) r \<and>
    (if uv_found v
     then (\<exists>pre. uv_data v = pre @ encode_str pattern \<and> snapshot r1 = uv_data v @ snapshot r' \<and>
            (\<forall>j < length pre. \<not> prefix (encode_str pattern) (drop j (snapshot r1))))
     else (\<not> occurs (encode_str pattern) (snapshot r1) \<and> uv_data v = snapshot r1 \<and> r' = r1 \<and>
            (rd_error r1 \<noteq> None \<or> start + timeout \<le> snd (turns ! k) \<or> rd_stop r1)))"
proof -
  let ?needle = "encode_str pattern"
  have "until_loop ?needle (start + timeout) turns r = Some (r', v)"
    using assms(2) by (auto simp: read_until_def split: if_splits)
  then obtain k where k: "k < length turns" and
    res: "let r1 = fold apply_bg (concat (map fst (take (Suc k) turns))) r; buf = snapshot r1 in
       if uv_found v
       then \<exists>pos. find_at ?needle buf = Some pos \<and> uv_data v = take (pos + length ?needle) buf \<and>
              r' = consume_locked (pos + length ?needle) r1
       else find_at ?needle buf = None \<and> uv_data v = buf \<and> r' = r1 \<and>
              (rd_error r1 \<noteq> None \<or> start + timeout \<le> snd (turns ! k) \<or> rd_stop r1)"
    using until_loop_Some by blast
  define r1 where "r1 = fold apply_bg (concat (map fst (take (Suc k) turns))) r"
  have ok: "reader_ok r1" unfolding r1_def by (rule fold_bg_ok [OF assms(1)])
  show ?thesis
  proof (cases "uv_found v")
    case True
    then obtain pos where pos: "find_at ?needle (snapshot r1) = Some pos" "uv_data v = take (pos + length ?needle) (snapshot r1)"
      "r' = consume_locked (pos + length ?needle) r1" using res unfolding Let_def r1_def [symmetric] by auto
    note first = find_at_SomeD [OF pos(1)]
    have "uv_data v = take pos (snapshot r1) @ ?needle"
      using first unfolding pos(2) take_add by (auto simp: prefix_def simp del: length_encode_str)
    moreover have "snapshot r1 = uv_data v @ snapshot r'" by (simp add: pos(2,3) consume_ok(2) [OF ok])
    moreover have "length (take pos (snapshot r1)) = pos" using first by simp
    ultimately have "\<exists>pre. uv_data v = pre @ ?needle \<and> snapshot r1 = uv_data v @ snapshot r' \<and>
        (\<forall>j < length pre. \<not> prefix ?needle (drop j (snapshot r1)))"
      using first by (metis (no_types, lifting))
    then show ?thesis
      using True k by (intro exI [of _ k] conjI exI [of _ r1] r1_def) simp_all
  next
    case False
    then show ?thesis
      using k res unfolding Let_def r1_def [symmetric] by (intro exI [of _ k] conjI exI [of _ r1] r1_def) (auto simp: occurs_def)
  qed
qed

theorem read_until_result_witness:
  "\<exists>pre r'. fst (the (read_until ''b'' 9 0 [([Pump (Some 1) False (Inr [97, 98, 99]) 0], 1), ([Pump (Some 1) False (Inr [98]) 0], 2)] demo_reader)) = r' \<and>
     [97, 98] = pre @ encode_str ''b''"
proof -
  let ?t = "[([Pump (Some 1) False (Inr [97, 98, 99]) 0], 1), ([Pump (Some 1) False (Inr [98]) 0], 2)]"
  have "map_option snd (read_until ''b'' 9 0 ?t demo_reader) =
      Some (Inr \<lparr>uv_found = True, uv_data = [97, 98], uv_alive = True, uv_error = None\<rparr>)"
    by code_simp
  then obtain r' where r': "read_until ''b'' 9 0 ?t demo_reader = Some (r', Inr \<lparr>uv_found = True, uv_data = [97, 98], uv_alive = True, uv_error = None\<rparr>)"
    by (cases "read_until ''b'' 9 0 ?t demo_reader") auto
  show ?thesis using read_until_result [OF demo_reader_ok r'] by auto
qed

text \<open>
  \<open>read_until\<close> returns: once an observed clock reading has reached the deadline the call is
  over, whatever the background thread does.
\<close>

theorem read_until_returns:
  assumes "\<exists>x \<in> set turns. start + timeout \<le> snd x"
  shows "read_until pattern timeout start turns r \<noteq> None"
  using until_loop_returns [OF assms] by (simp add: read_until_def)

theorem read_until_returns_witness:
  "read_until ''b'' 1 0 [([StopSet], 0), ([], 3)] demo_reader \<noteq> None"
  by (rule read_until_returns) simp

text \<open>
  The number \<open>tail\<close> reports as \<open>dropped\<close> is not the number of bytes missing from the
  stream: after a \<open>read_until\<close> that consumed a whole chunk it is 0 although the bytes are gone.
\<close>

theorem tail_dropped_undercounts:
  "tv_dropped (tail_of 9 (consume_locked 2 (ingest 0 [1, 2] demo_reader))) = 0 \<and>
   tv_data (tail_of 9 (consume_locked 2 (ingest 0 [1, 2] demo_reader))) = [] \<and>
   tv_dropped (tail_of 9 (consume_locked 1 (ingest 0 [1, 2] demo_reader))) = 1"
  by (simp add: demo_reader_def ingest_def evict_locked_def consume_locked_def snapshot_def tail_of_def Let_def last_bytes_def)

end
