(* ===== verification/Replay.thy ===== *)
theory Replay
  imports PyText
begin

text \<open>
  \<open>src/io_core/replay.py\<close>: replay of a recorded journal, one transport per connection. An event
  is a JSON object as the journal's readers return it. \<open>str_of\<close> is \<open>str()\<close> on JSON values
  that are not strings. Sizes are natural numbers.
\<close>

definition LEGACY_CONN :: string where "LEGACY_CONN = []"

definition py_str :: "(pyval \<Rightarrow> string) \<Rightarrow> pyval \<Rightarrow> string" where
  "py_str str_of v = (case v of PStr s \<Rightarrow> s | _ \<Rightarrow> str_of v)"

definition event_conn :: "(pyval \<Rightarrow> string) \<Rightarrow> fields \<Rightarrow> string" where
  "event_conn str_of e = (case map_of e ''conn'' of None \<Rightarrow> LEGACY_CONN | Some v \<Rightarrow> py_str str_of v)"

definition unreadable :: "string \<Rightarrow> string \<Rightarrow> pyval \<Rightarrow> exn" where
  "unreadable key location why =
     Exn JournalCorrupt (PFStr [PStr location, PStr '': event has an unreadable '', PStr key, PStr '': '', why])"

definition event_bytes :: "fields \<Rightarrow> string \<Rightarrow> string \<Rightarrow> exn + bytes" where
  "event_bytes e key location =
     (case map_of e key of
        None \<Rightarrow> Inl (unreadable key location (PRepr (PStr key)))
      | Some (PStr s) \<Rightarrow>
          (case from_hex s of
             None \<Rightarrow> Inl (unreadable key location (PStr ''non-hexadecimal number found in fromhex() arg''))
           | Some bs \<Rightarrow> Inr bs)
      | Some _ \<Rightarrow> Inl (unreadable key location (PStr ''fromhex() argument must be str'')))"

record replay =
  rp_strict :: bool
  rp_conn :: string
  rp_read_stream :: bytes
  rp_write_stream :: bytes
  rp_rpos :: nat
  rp_wpos :: nat
  rp_closed :: bool

fun load_events :: "(pyval \<Rightarrow> string) \<Rightarrow> fields list \<Rightarrow> replay \<Rightarrow> exn + replay" where
  "load_events str_of [] t = Inr t"
| "load_events str_of (e # es) t =
     (if event_conn str_of e \<noteq> rp_conn t then load_events str_of es t
      else if map_of e ''kind'' \<in> {Some (PStr ''read''), Some (PStr ''read_line'')} then
        (case event_bytes e ''data_hex'' ''event read'' of
           Inl x \<Rightarrow> Inl x
         | Inr bs \<Rightarrow> load_events str_of es (t\<lparr>rp_read_stream := rp_read_stream t @ bs\<rparr>))
      else if map_of e ''kind'' = Some (PStr ''write'') then
        (case event_bytes e ''data_hex'' ''event write'' of
           Inl x \<Rightarrow> Inl x
         | Inr bs \<Rightarrow> load_events str_of es (t\<lparr>rp_write_stream := rp_write_stream t @ bs\<rparr>))
      else load_events str_of es t)"

definition replay_init :: "(pyval \<Rightarrow> string) \<Rightarrow> fields list \<Rightarrow> bool \<Rightarrow> string \<Rightarrow> exn + replay" where
  "replay_init str_of events strict conn =
     load_events str_of events
       \<lparr>rp_strict = strict, rp_conn = conn, rp_read_stream = [], rp_write_stream = [], rp_rpos = 0, rp_wpos = 0,
        rp_closed = False\<rparr>"

definition hex_or_empty :: "bytes \<Rightarrow> string" where
  "hex_or_empty bs = (if bs = [] then ''<empty>'' else to_hex bs)"

definition replay_read :: "nat \<Rightarrow> (replay, bytes) act" where
  "replay_read n t =
     (let chunk = take n (drop (rp_rpos t) (rp_read_stream t))
      in (t\<lparr>rp_rpos := rp_rpos t + length chunk\<rparr>, Inr chunk))"

definition replay_read_line :: "nat \<Rightarrow> (replay, bytes) act" where
  "replay_read_line max_len t =
     (let window = take max_len (drop (rp_rpos t) (rp_read_stream t));
          chunk = (case find_at [10] window of None \<Rightarrow> window | Some i \<Rightarrow> take (Suc i) window)
      in (t\<lparr>rp_rpos := rp_rpos t + length chunk\<rparr>, Inr chunk))"

definition replay_write :: "bytes \<Rightarrow> (replay, nat) act" where
  "replay_write data t =
     (let recorded = take (length data) (drop (rp_wpos t) (rp_write_stream t)) in
      if rp_strict t \<and> data \<noteq> recorded then
        (t, Inl (Exn ReplayMismatch (PFStr [PStr ''position '', PInt (int (rp_wpos t)), PStr '': recorded '', PStr (hex_or_empty recorded),
            PStr '', replayed '', PStr (to_hex data)])))
      else (t\<lparr>rp_wpos := rp_wpos t + length data\<rparr>, Inr (length data)))"

definition replay_close :: "(replay, unit) act" where
  "replay_close t =
     (if rp_closed t then (t, Inr ())
      else let t1 = t\<lparr>rp_closed := True\<rparr> in
        if rp_strict t1 \<and> rp_wpos t1 < length (rp_write_stream t1) then
          let recorded = drop (rp_wpos t1) (rp_write_stream t1) in
          (t1, Inl (Exn ReplayMismatch (PFStr [PInt (int (length recorded)), PStr '' byte(s) of recorded writes were never replayed: '',
             PStr (hex_or_empty recorded)])))
        else (t1, Inr ()))"

section \<open>The session\<close>

text \<open>The groups in the order of first appearance; a dict keeps it.\<close>

fun group_events :: "(pyval \<Rightarrow> string) \<Rightarrow> fields list \<Rightarrow> (string \<times> fields list) list \<Rightarrow> (string \<times> fields list) list" where
  "group_events str_of [] groups = groups"
| "group_events str_of (e # es) groups =
     (let conn = event_conn str_of e in
      group_events str_of es (AList.update conn ((case map_of groups conn of None \<Rightarrow> [] | Some g \<Rightarrow> g) @ [e]) groups))"

fun build_conns :: "(pyval \<Rightarrow> string) \<Rightarrow> bool \<Rightarrow> (string \<times> fields list) list \<Rightarrow> exn + (string \<times> replay) list" where
  "build_conns str_of strict [] = Inr []"
| "build_conns str_of strict ((conn, evs) # gs) =
     (case replay_init str_of evs strict conn of
        Inl e \<Rightarrow> Inl e
      | Inr t \<Rightarrow> (case build_conns str_of strict gs of Inl e \<Rightarrow> Inl e | Inr ts \<Rightarrow> Inr ((conn, t) # ts)))"

definition session_init :: "(pyval \<Rightarrow> string) \<Rightarrow> fields list \<Rightarrow> bool \<Rightarrow> exn + (string \<times> replay) list" where
  "session_init str_of events strict = build_conns str_of strict (group_events str_of events [])"

section \<open>Grouping and filtering\<close>

lemma load_events_filter:
  "load_events str_of es t = load_events str_of (filter (\<lambda>e. event_conn str_of e = rp_conn t) es) t"
  by (induction str_of es t rule: load_events.induct) (auto split: sum.split)

lemma group_events_lookup:
  "map_of (group_events str_of es groups) c =
     (case map_of groups c of
        None \<Rightarrow> (let g = filter (\<lambda>e. event_conn str_of e = c) es in if g = [] then None else Some g)
      | Some g \<Rightarrow> Some (g @ filter (\<lambda>e. event_conn str_of e = c) es))"
  by (induction str_of es groups rule: group_events.induct)
    (auto simp: Let_def update_conv' split: option.splits if_splits)

lemma group_events_distinct: "distinct (map fst groups) \<Longrightarrow> distinct (map fst (group_events str_of es groups))"
  by (induction str_of es groups rule: group_events.induct) (auto simp: Let_def distinct_update)

lemma build_conns_lookup:
  "build_conns str_of strict gs = Inr ts \<Longrightarrow>
     (case map_of gs c of
        None \<Rightarrow> map_of ts c = None
      | Some g \<Rightarrow> (\<exists>t. map_of ts c = Some t \<and> replay_init str_of g strict c = Inr t))"
  by (induction str_of strict gs arbitrary: ts rule: build_conns.induct)
    (fastforce split: sum.splits option.splits)+

lemma build_conns_total:
  "(\<forall>(c, g) \<in> set gs. \<exists>t. replay_init str_of g strict c = Inr t) \<Longrightarrow> \<exists>ts. build_conns str_of strict gs = Inr ts"
  by (induction str_of strict gs rule: build_conns.induct) (auto split: sum.splits)

section \<open>Runs\<close>

datatype rread = Chunk nat | Line nat

fun run_reads :: "rread list \<Rightarrow> replay \<Rightarrow> replay \<times> bytes list" where
  "run_reads [] t = (t, [])"
| "run_reads (r # rs) t =
     (case (case r of Chunk n \<Rightarrow> replay_read n | Line n \<Rightarrow> replay_read_line n) t of
        (t', Inl e) \<Rightarrow> (t', [])
      | (t', Inr x) \<Rightarrow> (case run_reads rs t' of (t'', xs) \<Rightarrow> (t'', x # xs)))"

fun run_writes :: "bytes list \<Rightarrow> (replay, unit) act" where
  "run_writes [] = mret ()"
| "run_writes (d # ds) = mbind (replay_write d) (\<lambda>_. run_writes ds)"

text \<open>The bytes not read yet.\<close>

definition pending :: "replay \<Rightarrow> bytes" where
  "pending t = drop (rp_rpos t) (rp_read_stream t)"

lemma advance_pending: "pending (t\<lparr>rp_rpos := rp_rpos t + n\<rparr>) = drop n (pending t)"
  by (simp add: pending_def add.commute)

lemma read_pending: "replay_read n t = (t', Inr x) \<Longrightarrow> x = take n (pending t) \<and> pending t' = drop n (pending t)"
  by (auto simp: replay_read_def Let_def advance_pending pending_def min_def add.commute)

lemma read_line_pending:
  "replay_read_line n t = (t', Inr x) \<Longrightarrow> pending t = x @ pending t' \<and> length x \<le> n"
proof -
  assume a: "replay_read_line n t = (t', Inr x)"
  let ?w = "take n (drop (rp_rpos t) (rp_read_stream t))"
  define c where "c = (case find_at [10] ?w of None \<Rightarrow> ?w | Some i \<Rightarrow> take (Suc i) ?w)"
  have "t' = t\<lparr>rp_rpos := rp_rpos t + length c\<rparr>" "x = c" using a by (auto simp: replay_read_line_def Let_def c_def)
  moreover have "prefix c ?w" unfolding c_def by (cases "find_at [10] ?w") (simp_all add: take_is_prefix del: take_take)
  then have "prefix c (pending t)" "length c \<le> n"
    unfolding pending_def by (metis prefix_order.trans take_is_prefix, metis length_take min.bounded_iff prefix_length_le)
  ultimately show ?thesis by (auto simp: advance_pending prefix_def)
qed

lemma run_reads_pending:
  "run_reads rs t = (t', xs) \<Longrightarrow> length xs = length rs \<and> pending t = concat xs @ pending t'"
proof (induction rs arbitrary: t xs)
  case (Cons r rs)
  have noerr: "\<exists>x. snd (replay_read n t) = Inr x" "\<exists>x. snd (replay_read_line n t) = Inr x" for n
    by (simp_all add: replay_read_def replay_read_line_def Let_def)
  obtain t1 x where one: "(case r of Chunk n \<Rightarrow> replay_read n | Line n \<Rightarrow> replay_read_line n) t = (t1, Inr x)"
    using noerr by (cases r) (metis prod.collapse rread.simps)+
  obtain ys where ys: "run_reads rs t1 = (t', ys)" "xs = x # ys" using Cons.prems one by (auto split: prod.splits)
  have "pending t = x @ pending t1"
    using one read_pending [of _ t t1 x] read_line_pending [of _ t t1 x] by (cases r) force+
  then show ?case using Cons.IH [OF ys(1)] ys(2) by simp
qed simp

lemma run_writes_strict:
  "rp_strict t \<Longrightarrow> rp_wpos t \<le> length (rp_write_stream t) \<Longrightarrow>
     (if prefix (concat ds) (drop (rp_wpos t) (rp_write_stream t))
      then run_writes ds t = (t\<lparr>rp_wpos := rp_wpos t + length (concat ds)\<rparr>, Inr ())
      else \<exists>t' m. run_writes ds t = (t', Inl (Exn ReplayMismatch m)))"
proof (induction ds arbitrary: t)
  case Nil
  then show ?case by (simp add: act_apply)
next
  case (Cons d ds)
  let ?rest = "drop (rp_wpos t) (rp_write_stream t)"
  show ?case
  proof (cases "d = take (length d) ?rest")
    case True
    then have len: "rp_wpos t + length d \<le> length (rp_write_stream t)"
      using Cons.prems(2) by (metis add.commute le_diff_conv2 length_drop length_take min.cobounded1)
    let ?t = "t\<lparr>rp_wpos := rp_wpos t + length d\<rparr>"
    have w: "run_writes (d # ds) t = run_writes ds ?t"
      using True Cons.prems(1) by (simp add: act_apply replay_write_def Let_def)
    have "drop (rp_wpos ?t) (rp_write_stream ?t) = drop (length d) ?rest" by (simp add: add.commute)
    moreover have "prefix (concat (d # ds)) ?rest \<longleftrightarrow> prefix (concat ds) (drop (length d) ?rest)"
      using True by (metis append_take_drop_id concat.simps(2) same_prefix_prefix)
    ultimately show ?thesis using Cons.IH [of ?t] Cons.prems(1) len unfolding w by (simp add: add.assoc)
  next
    case False
    then have "\<not> prefix (concat (d # ds)) ?rest" by (auto simp: prefix_def)
    moreover have "\<exists>m. run_writes (d # ds) t = (t, Inl (Exn ReplayMismatch m))"
      using False Cons.prems(1) by (simp add: act_apply replay_write_def Let_def)
    ultimately show ?thesis by auto
  qed
qed

section \<open>Properties\<close>

text \<open>
  C28. Connections do not mix: when a recorded session can be replayed, each of its connections
  is exactly the transport built from the whole journal for that name, and the names are those
  that occur in the journal.
\<close>

theorem replay_session_isolation:
  assumes "session_init str_of events strict = Inr conns"
  shows "map_of conns c =
    (if c \<in> event_conn str_of ` set events
     then (case replay_init str_of events strict c of Inr t \<Rightarrow> Some t | Inl _ \<Rightarrow> None) else None)"
proof -
  let ?g = "filter (\<lambda>e. event_conn str_of e = c) events"
  have grp: "map_of (group_events str_of events []) c = (if ?g = [] then None else Some ?g)"
    by (simp add: group_events_lookup Let_def)
  have "replay_init str_of ?g strict c = replay_init str_of events strict c"
    unfolding replay_init_def by (subst (2) load_events_filter) simp
  moreover have "c \<in> event_conn str_of ` set events \<longleftrightarrow> ?g \<noteq> []" by (auto simp: filter_empty_conv)
  ultimately show ?thesis
    using build_conns_lookup [OF assms [unfolded session_init_def], of c] unfolding grp by (auto split: if_splits)
qed

definition demo_events :: "fields list" where
  "demo_events = [[(''kind'', PStr ''read''), (''data_hex'', PStr ''0a''), (''conn'', PStr ''a'')],
     [(''kind'', PStr ''write''), (''data_hex'', PStr ''0b0c''), (''conn'', PStr ''b'')],
     [(''kind'', PStr ''read''), (''data_hex'', PStr ''0d''), (''conn'', PStr ''b'')]]"

definition demo_replay :: replay where
  "demo_replay = \<lparr>rp_strict = True, rp_conn = ''b'', rp_read_stream = [0x0d], rp_write_stream = [0x0b, 0x0c],
     rp_rpos = 0, rp_wpos = 0, rp_closed = False\<rparr>"

theorem replay_session_isolation_witness:
  "\<exists>conns. session_init (\<lambda>_. []) demo_events True = Inr conns \<and> map_of conns ''b'' = Some demo_replay"
proof -
  let ?a = "\<lparr>rp_strict = True, rp_conn = ''a'', rp_read_stream = [0x0a], rp_write_stream = [], rp_rpos = 0, rp_wpos = 0, rp_closed = False\<rparr>"
  have c: "session_init (\<lambda>_. []) demo_events True = Inr [(''a'', ?a), (''b'', demo_replay)]" by code_simp
  have b: "''b'' \<in> event_conn (\<lambda>_. []) ` set demo_events" by code_simp
  have t: "replay_init (\<lambda>_. []) demo_events True ''b'' = Inr demo_replay" by code_simp
  show ?thesis using replay_session_isolation [OF c, of "''b''"] b t c by simp
qed

text \<open>
  Re-chunking: whatever sizes and line limits a replay reads with, the chunks it gets are
  the recorded stream cut differently, nothing skipped and nothing twice.
\<close>

theorem replay_rechunking:
  assumes "run_reads rs t = (t', xs)"
  shows "pending t = concat xs @ pending t' \<and>
    (\<forall>n. replay_read n t' = (t'\<lparr>rp_rpos := rp_rpos t' + length (take n (pending t'))\<rparr>, Inr (take n (pending t'))))"
  using run_reads_pending [OF assms] by (simp_all add: replay_read_def Let_def pending_def)

theorem replay_rechunking_witness:
  "pending \<lparr>rp_strict = True, rp_conn = [], rp_read_stream = [1, 10, 2, 3], rp_write_stream = [], rp_rpos = 0, rp_wpos = 0, rp_closed = False\<rparr> =
     concat [[1, 10], [2]] @ [3]"
proof -
  let ?t = "\<lparr>rp_strict = True, rp_conn = [], rp_read_stream = [1, 10, 2, 3], rp_write_stream = [], rp_rpos = 0, rp_wpos = 0, rp_closed = False\<rparr>"
  have "run_reads [Line 9, Chunk 1] ?t = (?t\<lparr>rp_rpos := 3\<rparr>, [[1, 10], [2]])" by code_simp
  from replay_rechunking [OF this] show ?thesis by (simp add: pending_def)
qed

text \<open>
  Strict replay: a sequence of writes followed by \<open>close\<close> succeeds exactly when it
  reproduces the recorded writes of the connection, byte for byte and to the end; anything else
  raises \<open>ReplayMismatch\<close>.
\<close>

theorem replay_strict_exact:
  assumes "replay_init str_of events True conn = Inr t"
  shows "if concat ds = rp_write_stream t then snd (mthen (run_writes ds) replay_close t) = Inr ()
    else \<exists>m. snd (mthen (run_writes ds) replay_close t) = Inl (Exn ReplayMismatch m)"
proof -
  have keep: "load_events str_of es u = Inr v \<Longrightarrow> rp_strict v = rp_strict u \<and> rp_wpos v = rp_wpos u \<and> rp_closed v = rp_closed u"
    for es u v by (induction str_of es u rule: load_events.induct) (auto split: if_splits sum.splits)
  have t: "rp_strict t" "rp_wpos t = 0" "\<not> rp_closed t"
    using keep assms unfolding replay_init_def by fastforce+
  have w: "if prefix (concat ds) (rp_write_stream t)
      then run_writes ds t = (t\<lparr>rp_wpos := length (concat ds)\<rparr>, Inr ())
      else \<exists>t' m. run_writes ds t = (t', Inl (Exn ReplayMismatch m))"
    using run_writes_strict [of t ds] t by simp
  show ?thesis
  proof (cases "prefix (concat ds) (rp_write_stream t)")
    case True
    then have "concat ds = rp_write_stream t \<longleftrightarrow> length (rp_write_stream t) \<le> length (concat ds)"
      by (metis append_Nil2 le_refl length_append le_antisym not_add_less1 nat_less_le prefix_def prefix_length_le
          not_equal_is_parallel parallel_def prefix_order.eq_iff take_all take_is_prefix)
    then show ?thesis using w True t by (auto simp: act_apply replay_close_def Let_def)
  next
    case False
    then show ?thesis using w by (auto simp: act_apply)
  qed
qed

theorem replay_strict_exact_witness:
  "snd (mthen (run_writes [[0x0b], [0x0c]]) replay_close demo_replay) = Inr ()"
proof -
  have t: "replay_init (\<lambda>_. []) demo_events True ''b'' = Inr demo_replay" by code_simp
  show ?thesis using replay_strict_exact [OF t, of "[[0x0b], [0x0c]]"] by (simp add: demo_replay_def)
qed

end
