(* ===== verification/Serial.thy ===== *)
theory Serial
  imports PyText
begin

text \<open>
  \<open>src/io_core/serial_transport.py\<close>: the serial transport. The pyserial port is a parameter: a
  record of its operations on a device state, any of which may raise. The regular expressions
  of the port filter are predicates on text, with the white space and digits of PyText.
\<close>

section \<open>The port filter\<close>

definition backslash :: char where "backslash = CHR 0x5C"

definition no_space :: "string \<Rightarrow> bool" where
  "no_space s = list_all (\<lambda>c. \<not> py_space c) s"

definition digits1 :: "string \<Rightarrow> bool" where
  "digits1 s = (s \<noteq> [] \<and> list_all is_digit s)"

text \<open>\<open>starts p q s\<close>: \<open>s\<close> is \<open>p\<close> (in any case) followed by text that satisfies \<open>q\<close>.\<close>

definition starts :: "string \<Rightarrow> (string \<Rightarrow> bool) \<Rightarrow> string \<Rightarrow> bool" where
  "starts p q s = (casefold (take (length p) s) = p \<and> q (drop (length p) s))"

definition starts_exact :: "string \<Rightarrow> (string \<Rightarrow> bool) \<Rightarrow> string \<Rightarrow> bool" where
  "starts_exact p q s = (take (length p) s = p \<and> q (drop (length p) s))"

definition port_allowed :: "bool \<Rightarrow> string \<Rightarrow> bool" where
  "port_allowed win32 port =
     (if backslash \<in> set port \<or> occurs ''..'' port then False
      else if starts ''com'' digits1 port then win32
      else if starts_exact ''/dev/tty'' no_space port \<or> starts_exact ''/dev/pts/'' digits1 port then \<not> win32
      else starts ''loop://'' no_space port \<or> starts ''pty://'' no_space port)"

section \<open>The transport\<close>

record 'd port =
  pt_open :: "string \<Rightarrow> nat \<Rightarrow> ('d, unit) act"
  pt_set_dtr :: "bool \<Rightarrow> ('d, unit) act"
  pt_set_rts :: "bool \<Rightarrow> ('d, unit) act"
  pt_close :: "('d, unit) act"
  pt_write :: "bytes \<Rightarrow> ('d, nat) act"
  pt_read :: "nat \<Rightarrow> ('d, bytes) act"
  pt_read_until :: "bytes \<Rightarrow> nat \<Rightarrow> ('d, bytes) act"
  pt_in_waiting :: "('d, nat) act"
  pt_cancel_read :: "('d, unit) act"

record 'd serial =
  st_port :: string
  st_baudrate :: nat
  st_win32 :: bool
  st_hooked :: bool
  st_opened :: bool
  st_dev :: 'd
  st_log :: "event list"

definition st_emit :: "string \<Rightarrow> fields \<Rightarrow> ('d serial, unit) act" where
  "st_emit event data = mmod (\<lambda>s. if st_hooked s then s\<lparr>st_log := st_log s @ [(event, data)]\<rparr> else s)"

definition on_port :: "('d, 'a) act \<Rightarrow> ('d serial, 'a) act" where
  "on_port m = (\<lambda>s. case m (st_dev s) of (d, r) \<Rightarrow> (s\<lparr>st_dev := d\<rparr>, r))"

definition not_open :: exn where
  "not_open = Exn TransportClosedError (PStr ''port is not open'')"

definition not_allowed :: "string \<Rightarrow> pyval" where
  "not_allowed port = PFStr [PStr ''serial port '', PRepr (PStr port), PStr '' is not allowed: only local ports (COM*, /dev/*, loop://, pty://) can be opened - socket-based URLs are outside the sandbox policy'']"

definition serial_open :: "'d port \<Rightarrow> ('d serial, unit) act" where
  "serial_open P =
     mbind (mget (\<lambda>s. (st_port s, st_baudrate s, st_win32 s))) (\<lambda>(port, baudrate, win32).
       if \<not> port_allowed win32 port then
         mthen (st_emit ''serial_open_failed'' [(''port'', PStr port), (''error'', not_allowed port)])
           (mraise (Exn ValueErr (not_allowed port)))
       else
         mthen (mcatch (catches [OSErr, ValueErr])
             (mthen (on_port (pt_open P port baudrate))
               (mthen (mmod (\<lambda>s. s\<lparr>st_opened := True\<rparr>))
                 (mcatch (catches [OSErr])
                   (mthen (on_port (pt_set_dtr P False)) (on_port (pt_set_rts P False))) (\<lambda>_. mret ()))))
             (\<lambda>e. mthen (st_emit ''open_failed'' [(''port'', PStr port), (''error'', exn_str e)]) (mraise e)))
           (st_emit ''open'' [(''port'', PStr port), (''baudrate'', PInt (int baudrate))]))"

definition serial_close :: "'d port \<Rightarrow> ('d serial, unit) act" where
  "serial_close P =
     mbind (mget st_opened) (\<lambda>opened.
       if \<not> opened then mret ()
       else mthen (mcatch (catches [OSErr]) (on_port (pt_close P))
                    (\<lambda>e. mthen (st_emit ''close_failed'' [(''error'', exn_str e)]) (mraise e)))
              (mthen (mmod (\<lambda>s. s\<lparr>st_opened := False\<rparr>)) (st_emit ''close'' [])))"

definition require_open :: "('d serial, unit) act" where
  "require_open = mbind (mget st_opened) (\<lambda>opened. if opened then mret () else mraise not_open)"

text \<open>
  The common shape of an operation: the port is called; an \<open>OSError\<close> is journaled and passed
  on, the queue exception \<open>q\<close> of the loop backends is journaled and wrapped.
\<close>

definition guarded ::
  "('d, 'a) act \<Rightarrow> exn_class \<Rightarrow> string \<Rightarrow> string \<Rightarrow> string \<Rightarrow> fields \<Rightarrow> ('d serial, 'a) act" where
  "guarded op q q_name q_text failed_kind info =
     mcatch (catches [OSErr, q]) (on_port op)
       (\<lambda>e. if catches [OSErr] e
            then mthen (st_emit failed_kind (info @ [(''error'', exn_str e)])) (mraise e)
            else mthen (st_emit failed_kind (info @ [(''error'', PFStr [PStr q_name, exn_str e])]))
                   (mraise (Exn TransportIoError (PFStr [PStr q_text, exn_str e]))))"

definition serial_write :: "'d port \<Rightarrow> bytes \<Rightarrow> ('d serial, nat) act" where
  "serial_write P data =
     mthen require_open
       (mbind (guarded (pt_write P data) QueueFull ''queue.Full: '' ''port buffer overflow on write: '' ''write_failed''
                 [(''data_hex'', PStr (to_hex data))])
         (\<lambda>n. mthen (st_emit ''write'' [(''data_hex'', PStr (to_hex data)), (''bytes'', PInt (int n))]) (mret n)))"

definition serial_read :: "'d port \<Rightarrow> nat \<Rightarrow> ('d serial, bytes) act" where
  "serial_read P n =
     mthen require_open
       (mbind (guarded (pt_read P n) QueueEmpty ''queue.Empty: '' ''port buffer underflow on read: '' ''read_failed''
                 [(''size'', PInt (int n))])
         (\<lambda>data. mthen (st_emit ''read'' [(''data_hex'', PStr (to_hex data)), (''bytes'', PInt (int (length data)))]) (mret data)))"

definition serial_read_line :: "'d port \<Rightarrow> nat \<Rightarrow> ('d serial, bytes) act" where
  "serial_read_line P max_len =
     mthen require_open
       (mbind (guarded (pt_read_until P [10] max_len) QueueEmpty ''queue.Empty: '' ''port buffer underflow on read_line: ''
                 ''read_line_failed'' [(''max_len'', PInt (int max_len))])
         (\<lambda>data. mthen (st_emit ''read_line'' [(''data_hex'', PStr (to_hex data)), (''bytes'', PInt (int (length data)))]) (mret data)))"

definition serial_in_waiting :: "'d port \<Rightarrow> ('d serial, nat) act" where
  "serial_in_waiting P =
     mthen require_open
       (mcatch (catches [OSErr]) (on_port (pt_in_waiting P))
         (\<lambda>e. mthen (st_emit ''read_failed'' [(''error'', PFStr [PStr ''in_waiting: '', exn_str e])]) (mraise e)))"

definition serial_cancel_read :: "'d port \<Rightarrow> ('d serial, unit) act" where
  "serial_cancel_read P =
     mbind (mget st_opened) (\<lambda>opened.
       if \<not> opened then mret ()
       else mcatch (catches [OSErr]) (on_port (pt_cancel_read P))
              (\<lambda>e. mthen (st_emit ''read_failed'' [(''error'', PFStr [PStr ''cancel_read: '', exn_str e])]) (mraise e)))"

section \<open>Reset\<close>

definition duration_error :: "string \<Rightarrow> pyval \<Rightarrow> rat \<Rightarrow> pyval option" where
  "duration_error name v cap =
     (let bad = (\<lambda>text. Some (PFStr [PStr name, PStr text, PRepr v])) in
      case (case v of PInt n \<Rightarrow> Some (Fin (of_int n)) | PNum x \<Rightarrow> Some x | _ \<Rightarrow> None) of
        None \<Rightarrow> bad '' must be a number, got ''
      | Some x \<Rightarrow>
          if \<not> pf_finite x then bad '' must be finite, got ''
          else if pf_less x (Fin 0) then bad '' must be >= 0, got ''
          else if pf_less (Fin cap) x then Some (PFStr [PStr name, PStr '' must be <= '', PNum (Fin cap), PStr '' s, got '', PRepr v])
          else None)"

definition validate_reset_durations :: "pyval \<Rightarrow> pyval \<Rightarrow> pyval option" where
  "validate_reset_durations pulse settle =
     (case duration_error ''pulse_sec'' pulse 5 of
        Some e \<Rightarrow> Some e
      | None \<Rightarrow> duration_error ''settle_sec'' settle 60)"

definition release_rts :: "'d port \<Rightarrow> ('d serial, unit) act" where
  "release_rts P =
     mcatch (catches [OSErr]) (on_port (pt_set_rts P False))
       (\<lambda>e. st_emit ''reset_failed'' [(''error'', PFStr [PStr ''rts release: '', exn_str e])])"

text \<open>\<open>try: m finally: c\<close> where the clean-up is an action; its own exception would win.\<close>

definition ensure :: "('s, unit) act \<Rightarrow> ('s, unit) act \<Rightarrow> ('s, unit) act" where
  "ensure m c = (\<lambda>s. case m s of (s1, r) \<Rightarrow> (case c s1 of (s2, Inl e) \<Rightarrow> (s2, Inl e) | (s2, Inr _) \<Rightarrow> (s2, r)))"

definition serial_reset :: "'d port \<Rightarrow> pyval \<Rightarrow> pyval \<Rightarrow> ('d serial, unit) act" where
  "serial_reset P pulse settle =
     mthen require_open
       (case validate_reset_durations pulse settle of
          Some error \<Rightarrow> mthen (st_emit ''reset_failed'' [(''error'', error)]) (mraise (Exn ValueErr error))
        | None \<Rightarrow>
            mthen (ensure
                (mcatch (catches [OSErr])
                  (mthen (on_port (pt_set_dtr P False)) (on_port (pt_set_rts P True)))
                  (\<lambda>e. mthen (st_emit ''reset_failed'' [(''error'', exn_str e)]) (mraise e)))
                (release_rts P))
              (st_emit ''reset'' [(''pulse_sec'', pulse), (''settle_sec'', settle)]))"

section \<open>Runs\<close>

datatype sop = SWrite bytes | SRead nat | SReadLine nat

text \<open>The port call of an operation, and the operation; a read gives its bytes, a write the bytes written.\<close>

fun port_call :: "'d port \<Rightarrow> sop \<Rightarrow> ('d, bytes) act" where
  "port_call P (SWrite d) = mbind (pt_write P d) (\<lambda>_. mret d)"
| "port_call P (SRead n) = pt_read P n"
| "port_call P (SReadLine n) = pt_read_until P [10] n"

fun serial_op :: "'d port \<Rightarrow> sop \<Rightarrow> ('d serial, bytes) act" where
  "serial_op P (SWrite d) = mbind (serial_write P d) (\<lambda>_. mret d)"
| "serial_op P (SRead n) = serial_read P n"
| "serial_op P (SReadLine n) = serial_read_line P n"

fun sop_kind :: "sop \<Rightarrow> string" where
  "sop_kind (SWrite _) = ''write''"
| "sop_kind (SRead _) = ''read''"
| "sop_kind (SReadLine _) = ''read_line''"

text \<open>The exceptions pyserial documents for reading and writing.\<close>

definition port_ok :: "'d port \<Rightarrow> bool" where
  "port_ok P \<longleftrightarrow> (\<forall>op d e. snd (port_call P op d) = Inl e \<longrightarrow>
     catches [OSErr, (case op of SWrite _ \<Rightarrow> QueueFull | _ \<Rightarrow> QueueEmpty)] e)"

definition st_logged :: "string \<Rightarrow> fields \<Rightarrow> 'd serial \<Rightarrow> 'd serial" where
  "st_logged e d s = (if st_hooked s then s\<lparr>st_log := st_log s @ [(e, d)]\<rparr> else s)"

lemma st_emit_apply [simp]: "st_emit e d s = (st_logged e d s, Inr ())"
  by (simp add: st_emit_def st_logged_def mmod_def)

lemma st_logged_fields [simp]:
  "st_dev (st_logged e d s) = st_dev s" "st_opened (st_logged e d s) = st_opened s" "st_hooked (st_logged e d s) = st_hooked s"
  "st_log (st_logged e d s) = st_log s @ (if st_hooked s then [(e, d)] else [])"
  by (simp_all add: st_logged_def)

lemma on_port_apply: "on_port m s = (s\<lparr>st_dev := fst (m (st_dev s))\<rparr>, snd (m (st_dev s)))"
  by (simp add: on_port_def split: prod.split)

lemma guarded_apply:
  "guarded op q qn qt k info s =
    (let s1 = s\<lparr>st_dev := fst (op (st_dev s))\<rparr> in
     case snd (op (st_dev s)) of
       Inr x \<Rightarrow> (s1, Inr x)
     | Inl e \<Rightarrow>
         if catches [OSErr] e then (st_logged k (info @ [(''error'', exn_str e)]) s1, Inl e)
         else if catches [q] e then
           (st_logged k (info @ [(''error'', PFStr [PStr qn, exn_str e])]) s1, Inl (Exn TransportIoError (PFStr [PStr qt, exn_str e])))
         else (s1, Inl e))"
  by (auto simp: guarded_def mcatch_def on_port_apply Let_def catches_def act_apply split: sum.split)

lemma guarded_ok: "op (st_dev s) = (d, Inr x) \<Longrightarrow> guarded op q qn qt k info s = (s\<lparr>st_dev := d\<rparr>, Inr x)"
  by (simp add: guarded_apply)

lemma guarded_err:
  assumes "op (st_dev s) = (d, Inl e)" "catches [OSErr] e \<or> catches [q] e"
  shows "\<exists>info' e'. guarded op q qn qt k info s = (st_logged k info' (s\<lparr>st_dev := d\<rparr>), Inl e') \<and>
    catches [OSErr] e' \<and> (e' = e \<or> eclass e' = TransportIoError)"
proof -
  have "catches [OSErr] (Exn TransportIoError m)" for m by (simp add: catches_def exn_is_def)
  then show ?thesis using assms by (cases "catches [OSErr] e") (auto simp: guarded_apply Let_def)
qed

lemma serial_op_closed: "\<not> st_opened s \<Longrightarrow> serial_op P op s = (s, Inl not_open)"
  by (cases op) (simp_all add: serial_write_def serial_read_def serial_read_line_def require_open_def act_apply)

lemma serial_op_cases:
  assumes "st_opened s" "port_ok P"
  obtains (ok) d x n where "port_call P op (st_dev s) = (d, Inr x)"
      "serial_op P op s = (st_logged (sop_kind op) [(''data_hex'', PStr (to_hex x)), (''bytes'', PInt n)] (s\<lparr>st_dev := d\<rparr>), Inr x)"
    | (err) d e e' info where "port_call P op (st_dev s) = (d, Inl e)" "catches [OSErr] e'"
      "e' = e \<or> eclass e' = TransportIoError"
      "serial_op P op s = (st_logged (sop_kind op @ ''_failed'') info (s\<lparr>st_dev := d\<rparr>), Inl e')"
proof -
  have either: "catches [OSErr] e \<or> catches [case op of SWrite _ \<Rightarrow> QueueFull | _ \<Rightarrow> QueueEmpty] e"
    if "snd (port_call P op (st_dev s)) = Inl e" for e
    using assms(2) that unfolding port_ok_def by (fastforce simp: catches_def)
  show ?thesis
  proof (cases op)
    case (SWrite x)
    obtain d r where c: "pt_write P x (st_dev s) = (d, r)" by (cases "pt_write P x (st_dev s)")
    show ?thesis
    proof (cases r)
      case (Inl e)
      then have "catches [OSErr] e \<or> catches [QueueFull] e" using either [of e] c by (simp add: SWrite act_apply)
      then obtain info' e' where g: "guarded (pt_write P x) QueueFull ''queue.Full: '' ''port buffer overflow on write: '' ''write_failed'' [(''data_hex'', PStr (to_hex x))] s =
          (st_logged ''write_failed'' info' (s\<lparr>st_dev := d\<rparr>), Inl e')"
        "catches [OSErr] e'" "e' = e \<or> eclass e' = TransportIoError"
        using guarded_err [of "pt_write P x" s d e QueueFull "''queue.Full: ''" "''port buffer overflow on write: ''" "''write_failed''" "[(''data_hex'', PStr (to_hex x))]"] c Inl by auto
      have "serial_op P op s = (st_logged (sop_kind op @ ''_failed'') info' (s\<lparr>st_dev := d\<rparr>), Inl e')"
        using assms(1) by (simp add: SWrite act_apply serial_write_def require_open_def g(1))
      then show ?thesis using err [of d e e' info'] c Inl g by (simp add: SWrite act_apply)
    next
      case (Inr n)
      then show ?thesis using c assms(1)
        by (intro ok [of d x "int n"]) (auto simp: SWrite act_apply serial_write_def require_open_def guarded_apply Let_def)
    qed
  next
    case (SRead m)
    obtain d r where c: "pt_read P m (st_dev s) = (d, r)" by (cases "pt_read P m (st_dev s)")
    show ?thesis
    proof (cases r)
      case (Inl e)
      then have "catches [OSErr] e \<or> catches [QueueEmpty] e" using either [of e] c by (simp add: SRead)
      then obtain info' e' where g: "guarded (pt_read P m) QueueEmpty ''queue.Empty: '' ''port buffer underflow on read: '' ''read_failed'' [(''size'', PInt (int m))] s =
          (st_logged ''read_failed'' info' (s\<lparr>st_dev := d\<rparr>), Inl e')"
        "catches [OSErr] e'" "e' = e \<or> eclass e' = TransportIoError"
        using guarded_err [of "pt_read P m" s d e QueueEmpty "''queue.Empty: ''" "''port buffer underflow on read: ''" "''read_failed''" "[(''size'', PInt (int m))]"] c Inl by auto
      have "serial_op P op s = (st_logged (sop_kind op @ ''_failed'') info' (s\<lparr>st_dev := d\<rparr>), Inl e')"
        using assms(1) by (simp add: SRead act_apply serial_read_def require_open_def g(1))
      then show ?thesis using err [of d e e' info'] c Inl g by (simp add: SRead act_apply)
    next
      case (Inr x)
      then show ?thesis using c assms(1)
        by (intro ok [of d x "int (length x)"]) (auto simp: SRead act_apply serial_read_def require_open_def guarded_apply Let_def)
    qed
  next
    case (SReadLine m)
    obtain d r where c: "pt_read_until P [10] m (st_dev s) = (d, r)" by (cases "pt_read_until P [10] m (st_dev s)")
    show ?thesis
    proof (cases r)
      case (Inl e)
      then have "catches [OSErr] e \<or> catches [QueueEmpty] e" using either [of e] c by (simp add: SReadLine)
      then obtain info' e' where g: "guarded (pt_read_until P [10] m) QueueEmpty ''queue.Empty: '' ''port buffer underflow on read_line: '' ''read_line_failed'' [(''max_len'', PInt (int m))] s =
          (st_logged ''read_line_failed'' info' (s\<lparr>st_dev := d\<rparr>), Inl e')"
        "catches [OSErr] e'" "e' = e \<or> eclass e' = TransportIoError"
        using guarded_err [of "pt_read_until P [10] m" s d e QueueEmpty "''queue.Empty: ''" "''port buffer underflow on read_line: ''" "''read_line_failed''" "[(''max_len'', PInt (int m))]"] c Inl by auto
      have "serial_op P op s = (st_logged (sop_kind op @ ''_failed'') info' (s\<lparr>st_dev := d\<rparr>), Inl e')"
        using assms(1) by (simp add: SReadLine act_apply serial_read_line_def require_open_def g(1))
      then show ?thesis using err [of d e e' info'] c Inl g by (simp add: SReadLine act_apply)
    next
      case (Inr x)
      then show ?thesis using c assms(1)
        by (intro ok [of d x "int (length x)"]) (auto simp: SReadLine act_apply serial_read_line_def require_open_def guarded_apply Let_def)
    qed
  qed
qed

text \<open>A run goes on after a failed operation; what each operation gave is kept.\<close>

fun serial_run :: "'d port \<Rightarrow> sop list \<Rightarrow> 'd serial \<Rightarrow> 'd serial \<times> (sop \<times> (exn + bytes)) list" where
  "serial_run P [] s = (s, [])"
| "serial_run P (op # ops) s =
     (case serial_op P op s of (s1, r) \<Rightarrow> (case serial_run P ops s1 of (s2, rs) \<Rightarrow> (s2, (op, r) # rs)))"

definition obtained :: "(sop \<Rightarrow> bool) \<Rightarrow> (sop \<times> (exn + bytes)) list \<Rightarrow> bytes" where
  "obtained p rs = concat (map (\<lambda>(op, r). case r of Inr x \<Rightarrow> if p op then x else [] | Inl _ \<Rightarrow> []) rs)"

definition is_write :: "sop \<Rightarrow> bool" where
  "is_write op = (case op of SWrite _ \<Rightarrow> True | _ \<Rightarrow> False)"

definition is_read :: "sop \<Rightarrow> bool" where
  "is_read op = (\<not> is_write op)"

text \<open>The bytes that events of the given kinds record.\<close>

definition event_data :: "fields \<Rightarrow> bytes" where
  "event_data d = (case map_of d ''data_hex'' of Some (PStr h) \<Rightarrow> (case from_hex h of Some x \<Rightarrow> x | None \<Rightarrow> []) | _ \<Rightarrow> [])"

definition recorded :: "string list \<Rightarrow> event list \<Rightarrow> bytes" where
  "recorded kinds evs = concat (map (\<lambda>(k, d). if k \<in> set kinds then event_data d else []) evs)"

lemma sop_kind_read: "sop_kind op \<in> set [''read'', ''read_line''] \<longleftrightarrow> is_read op"
  by (cases op) (simp_all add: is_read_def is_write_def)

lemma sop_kind_write: "sop_kind op \<in> set [''write''] \<longleftrightarrow> is_write op"
  by (cases op) (simp_all add: is_write_def)

lemma sop_failed: "sop_kind op @ ''_failed'' \<notin> set [''read'', ''read_line'', ''write'']"
  by (cases op) simp_all

lemma event_data_hex [simp]: "event_data ((''data_hex'', PStr (to_hex x)) # rest) = x"
  by (simp add: event_data_def)

lemma lower_char_sep: "lower_char c = CHR '':'' \<longleftrightarrow> c = CHR '':''" "lower_char c = CHR ''/'' \<longleftrightarrow> c = CHR ''/''"
proof -
  have n: "(of_char (lower_char c) :: nat) = (if 65 \<le> (of_char c :: nat) \<and> (of_char c :: nat) \<le> 90 then of_char c + 32 else of_char c)"
    by (simp add: lower_char_def Let_def)
  have eq: "x = y \<longleftrightarrow> (of_char x :: nat) = of_char y" for x y :: char by (metis of_char_eq_iff)
  then show "lower_char c = CHR '':'' \<longleftrightarrow> c = CHR '':''" "lower_char c = CHR ''/'' \<longleftrightarrow> c = CHR ''/''"
    unfolding eq [of "lower_char c"] eq [of c] n by auto
qed

lemma find_at_colon: "find_at ''://'' port = Some i \<Longrightarrow> CHR '':'' \<in> set port"
  using find_at_split [of "''://''" port i] by (metis Un_iff list.set_intros(1) set_append append_Cons)

lemma digits_no_colon: "digits1 x \<Longrightarrow> CHR '':'' \<notin> set x"
  by (auto simp: digits1_def list_all_iff is_digit_def Let_def)

lemma dev_pts: "casefold ''/dev/pts/'' = ''/dev/pts/''"
  by code_simp

lemma no_colon:
  assumes "casefold (take (length w) port) = w" "digits1 (drop (length w) port)" "CHR '':'' \<notin> set w"
  shows "CHR '':'' \<notin> set port"
proof
  assume "CHR '':'' \<in> set port"
  then have "CHR '':'' \<in> set (take (length w) port)"
    using digits_no_colon [OF assms(2)] by (metis Un_iff append_take_drop_id set_append)
  then have "lower_char (CHR '':'') \<in> set (casefold (take (length w) port))" unfolding casefold_def by simp
  then show False using assms(1,3) lower_char_sep(1) by metis
qed

text \<open>The scheme of a URL whose first separator is at \<open>i\<close>.\<close>

lemma url_scheme:
  assumes i: "find_at ''://'' port = Some i" and w: "casefold (take (length w + 3) port) = w @ ''://''" "CHR '':'' \<notin> set w"
  shows "casefold (take i port) = w"
proof -
  have split: "casefold (take (length w) port) @ casefold (take 3 (drop (length w) port)) = w @ ''://''"
    using w(1) by (simp add: take_add)
  have len: "length w + 3 \<le> length port" using arg_cong [OF w(1), of length] by (simp add: casefold_def)
  then have parts: "casefold (take (length w) port) = w" "casefold (take 3 (drop (length w) port)) = ''://''"
    using split by (simp_all add: casefold_def)
  have "take 3 (drop (length w) port) = ''://''"
    using parts(2) unfolding casefold_def by (auto simp: map_eq_Cons_conv lower_char_sep)
  then have pre: "prefix ''://'' (drop (length w) port)" by (metis take_is_prefix)
  note first = find_at_SomeD [OF i]
  have "i \<le> length w" using first pre by (meson not_le)
  moreover have "\<not> i < length w"
  proof
    assume lt: "i < length w"
    have "port ! i = CHR '':''"
      using first lt len hd_drop_conv_nth [of i port] by (auto simp: prefix_def)
    then have "casefold (take (length w) port) ! i = CHR '':''" using lt len by (simp add: casefold_def lower_char_sep)
    then show False using parts(1) lt w(2) by (metis nth_mem)
  qed
  ultimately show ?thesis using parts(1) by simp
qed

section \<open>Properties\<close>


text \<open>A loop-back port: what was written comes back; its buffer holds four bytes.\<close>

definition loop_port :: "bytes port" where
  "loop_port = \<lparr>pt_open = \<lambda>_ _. mret (), pt_set_dtr = \<lambda>_. mret (), pt_set_rts = \<lambda>_. mret (), pt_close = mret (),
     pt_write = \<lambda>d b. if 4 < length b + length d then (b, Inl (Exn QueueFull (PStr []))) else (b @ d, Inr (length d)),
     pt_read = \<lambda>n b. (drop n b, Inr (take n b)), pt_read_until = \<lambda>_ n b. (drop n b, Inr (take n b)),
     pt_in_waiting = mget length, pt_cancel_read = mret ()\<rparr>"

lemma loop_port_ok: "port_ok loop_port"
  unfolding port_ok_def
proof (intro allI impI)
  fix op d e
  assume "snd (port_call loop_port op d) = Inl e"
  then show "catches [OSErr, (case op of SWrite _ \<Rightarrow> QueueFull | _ \<Rightarrow> QueueEmpty)] e"
    by (cases op) (auto simp: loop_port_def act_apply catches_def exn_is_def split: if_splits)
qed

definition demo_serial :: "bytes serial" where
  "demo_serial = \<lparr>st_port = ''loop://'', st_baudrate = 9600, st_win32 = False, st_hooked = True, st_opened = True,
     st_dev = [], st_log = []\<rparr>"


text \<open>
  The journal of a run is a faithful recording: the bytes its read events carry are, in
  order, those the callers got, and the bytes its write events carry are those of the successful
  writes.
\<close>

theorem serial_run_recorded:
  assumes "st_opened s" and "st_hooked s" and "port_ok P" and "serial_run P ops s = (s', rs)"
  shows "\<exists>evs. st_log s' = st_log s @ evs \<and> recorded [''read'', ''read_line''] evs = obtained is_read rs \<and>
    recorded [''write''] evs = obtained is_write rs \<and> length evs = length ops"
  using assms(1,2,4)
proof (induction ops arbitrary: s rs)
  case Nil
  then show ?case by (simp add: recorded_def obtained_def)
next
  case (Cons op ops)
  obtain s1 r where one: "serial_op P op s = (s1, r)" by (cases "serial_op P op s")
  obtain rs' where rest: "serial_run P ops s1 = (s', rs')" "rs = (op, r) # rs'"
    using Cons.prems(3) one by (auto split: prod.splits)
  have "\<exists>ev. st_log s1 = st_log s @ [ev] \<and> st_opened s1 \<and> st_hooked s1 \<and>
      recorded [''read'', ''read_line''] [ev] = obtained is_read [(op, r)] \<and>
      recorded [''write''] [ev] = obtained is_write [(op, r)]"
    using Cons.prems(1) assms(3)
  proof (cases rule: serial_op_cases [where op = op])
    case (ok d x n)
    then show ?thesis
      using one Cons.prems(1,2) sop_kind_read [of op] sop_kind_write [of op]
      by (intro exI [of _ "(sop_kind op, [(''data_hex'', PStr (to_hex x)), (''bytes'', PInt n)])"])
        (auto simp: recorded_def obtained_def)
  next
    case (err d e e' info)
    then show ?thesis
      using one Cons.prems(1,2) sop_failed [of op]
      by (intro exI [of _ "(sop_kind op @ ''_failed'', info)"]) (auto simp: recorded_def obtained_def)
  qed
  then obtain ev where ev: "st_log s1 = st_log s @ [ev]" "st_opened s1" "st_hooked s1"
    "recorded [''read'', ''read_line''] [ev] = obtained is_read [(op, r)]"
    "recorded [''write''] [ev] = obtained is_write [(op, r)]" by blast
  obtain evs where evs: "st_log s' = st_log s1 @ evs" "recorded [''read'', ''read_line''] evs = obtained is_read rs'"
    "recorded [''write''] evs = obtained is_write rs'" "length evs = length ops"
    using Cons.IH [OF ev(2,3) rest(1)] by blast
  have rec: "recorded ks (ev # evs) = recorded ks [ev] @ recorded ks evs" for ks by (simp add: recorded_def)
  have obt: "obtained q rs = obtained q [(op, r)] @ obtained q rs'" for q by (simp add: obtained_def rest(2))
  show ?case using ev evs by (intro exI [of _ "ev # evs"]) (simp add: rec obt [of is_read] obt [of is_write])
qed

theorem serial_run_recorded_witness:
  "\<exists>evs. st_log (fst (serial_run loop_port [SWrite [1, 2], SRead 1, SWrite [3, 4, 5, 6], SReadLine 9] demo_serial)) = evs \<and>
     recorded [''read'', ''read_line''] evs = [1, 2] \<and> recorded [''write''] evs = [1, 2]"
proof -
  let ?ops = "[SWrite [1, 2], SRead 1, SWrite [3, 4, 5, 6], SReadLine 9]"
  obtain s' rs where run: "serial_run loop_port ?ops demo_serial = (s', rs)" by (cases "serial_run loop_port ?ops demo_serial")
  have "rs = snd (serial_run loop_port ?ops demo_serial)" unfolding run by simp
  then have "obtained is_read rs = [1, 2]" "obtained is_write rs = [1, 2]"
    by (simp_all add: demo_serial_def loop_port_def act_apply serial_write_def serial_read_def serial_read_line_def require_open_def
        guarded_apply st_logged_def obtained_def is_read_def is_write_def catches_def exn_is_def)
  moreover have "st_opened demo_serial" "st_hooked demo_serial" "st_log demo_serial = []" by (simp_all add: demo_serial_def)
  ultimately show ?thesis
    using serial_run_recorded [OF _ _ loop_port_ok run] unfolding run fst_conv by auto
qed

text \<open>
  A reset never leaves the board held: refused durations do not touch the lines at all,
  journal one \<open>reset_failed\<close> and raise \<open>ValueError\<close>; otherwise, whatever fails, the last thing
  done to the port is the release of RTS.
\<close>

theorem serial_reset_releases:
  assumes "st_opened s" and "st_hooked s"
  shows "case validate_reset_durations pulse settle of
      Some error \<Rightarrow> serial_reset P pulse settle s =
        (s\<lparr>st_log := st_log s @ [(''reset_failed'', [(''error'', error)])]\<rparr>, Inl (Exn ValueErr error))
    | None \<Rightarrow> \<exists>d. st_dev (fst (serial_reset P pulse settle s)) = fst (pt_set_rts P False d)"
proof (cases "validate_reset_durations pulse settle")
  case (Some error)
  then show ?thesis using assms by (simp add: serial_reset_def require_open_def act_apply st_logged_def)
next
  case None
  have rel: "st_dev (fst (release_rts P u)) = fst (pt_set_rts P False (st_dev u))" for u
    by (auto simp: release_rts_def mcatch_def on_port_apply split: sum.split)
  have ens: "\<exists>u. st_dev (fst (ensure m (release_rts P) t)) = fst (pt_set_rts P False u)" for m t
    using rel by (auto simp: ensure_def split: prod.splits sum.splits) (metis fst_conv)+
  let ?m = "mcatch (catches [OSErr]) (mthen (on_port (pt_set_dtr P False)) (on_port (pt_set_rts P True)))
      (\<lambda>e. mthen (st_emit ''reset_failed'' [(''error'', exn_str e)]) (mraise e))"
  obtain t r where body: "ensure ?m (release_rts P) s = (t, r)" by (rule prod.exhaust)
  have "\<exists>u. st_dev t = fst (pt_set_rts P False u)" using ens [of ?m s] unfolding body fst_conv .
  moreover have "require_open s = (s, Inr ())" using assms(1) by (simp add: require_open_def act_apply)
  then have "st_dev (fst (serial_reset P pulse settle s)) = st_dev t"
    unfolding serial_reset_def None option.case mthen_def [of require_open] mthen_def [of "ensure ?m (release_rts P)"] mbind_def
    by (simp add: body split: sum.split)
  ultimately show ?thesis by (simp add: None)
qed

theorem serial_reset_releases_witness:
  "snd (serial_reset loop_port (PNum NaN) (PInt 1) demo_serial) =
     Inl (Exn ValueErr (PFStr [PStr ''pulse_sec'', PStr '' must be finite, got '', PRepr (PNum NaN)]))"
proof -
  have v: "validate_reset_durations (PNum NaN) (PInt 1) = Some (PFStr [PStr ''pulse_sec'', PStr '' must be finite, got '', PRepr (PNum NaN)])"
    by (simp add: validate_reset_durations_def duration_error_def pf_finite_def)
  show ?thesis
    using serial_reset_releases [where s = demo_serial and pulse = "PNum NaN" and settle = "PInt 1" and P = loop_port] by (simp add: v demo_serial_def)
qed

text \<open>
  Only local ports are opened: a port name that passes the filter has no \<open>..\<close> and no
  backslash, and if it has the form of a URL then pyserial resolves its scheme to \<open>loop\<close> or
  \<open>pty\<close>, or the name is a path under \<open>/dev/tty\<close>.
\<close>

theorem serial_port_local:
  assumes "port_allowed win32 port"
  shows "\<not> occurs ''..'' port \<and> backslash \<notin> set port \<and>
    (\<forall>i. find_at ''://'' port = Some i \<longrightarrow>
       casefold (take i port) \<in> {''loop'', ''pty''} \<or> prefix ''/dev/tty'' port)"
proof -
  have base: "\<not> occurs ''..'' port" "backslash \<notin> set port" using assms by (auto simp: port_allowed_def split: if_splits)
  moreover have "casefold (take i port) \<in> {''loop'', ''pty''} \<or> prefix ''/dev/tty'' port"
    if i: "find_at ''://'' port = Some i" for i
  proof -
    have colon: "CHR '':'' \<in> set port" by (rule find_at_colon [OF i])
    consider "starts ''com'' digits1 port" | "starts_exact ''/dev/tty'' no_space port" | "starts_exact ''/dev/pts/'' digits1 port"
      | "starts ''loop://'' no_space port" | "starts ''pty://'' no_space port"
      using assms by (auto simp: port_allowed_def split: if_splits)
    then show ?thesis
    proof cases
      case 1
      then show ?thesis using colon no_colon [of "''com''" port] by (simp add: starts_def)
    next
      case 2
      then show ?thesis by (metis starts_exact_def take_is_prefix)
    next
      case 3
      then have "casefold (take (length ''/dev/pts/'') port) = ''/dev/pts/''" "digits1 (drop (length ''/dev/pts/'') port)"
        using dev_pts unfolding starts_exact_def by metis+
      from no_colon [OF this] show ?thesis using colon by simp
    next
      case 4
      then have "casefold (take i port) = ''loop''"
        by (intro url_scheme [OF i]) (simp_all add: starts_def eval_nat_numeral)
      then show ?thesis by simp
    next
      case 5
      then have "casefold (take i port) = ''pty''"
        by (intro url_scheme [OF i]) (simp_all add: starts_def eval_nat_numeral)
      then show ?thesis by simp
    qed
  qed
  ultimately show ?thesis by blast
qed

theorem serial_port_local_witness:
  "casefold (take 4 ''LOOP://x'') \<in> {''loop'', ''pty''} \<or> prefix ''/dev/tty'' ''LOOP://x''"
proof -
  have "\<not> occurs ''..'' ''LOOP://x''" by (simp add: occurs_def)
  moreover have "backslash \<notin> set ''LOOP://x''" by (simp add: backslash_def)
  moreover have "\<not> starts ''com'' digits1 ''LOOP://x''" by code_simp
  moreover have "\<not> starts_exact ''/dev/tty'' no_space ''LOOP://x''" "\<not> starts_exact ''/dev/pts/'' digits1 ''LOOP://x''"
    by (simp_all add: starts_exact_def)
  moreover have "starts ''loop://'' no_space ''LOOP://x''" by code_simp
  ultimately have ok: "port_allowed False ''LOOP://x''" by (simp add: port_allowed_def)
  have i: "find_at ''://'' ''LOOP://x'' = Some 4" by simp
  show ?thesis using serial_port_local [OF ok] i by blast
qed

end
