(* ===== verification/ModbusTransport.thy ===== *)
theory ModbusTransport
  imports Policy
begin

text \<open>
  \<open>src/io_core/modbus_transport.py\<close>: the Modbus TCP transport. The pymodbus client is a
  parameter: actions on a device state that may raise, whose answers are registers or an error
  response with its text.
\<close>

datatype mb_answer = Registers "int list" | ErrorAnswer pyval

record 'm mb_client =
  mc_create :: "string \<Rightarrow> nat \<Rightarrow> ('m, unit) act"
  mc_connect :: "('m, bool) act"
  mc_close :: "'m \<Rightarrow> 'm"
  mc_read :: "int \<Rightarrow> int \<Rightarrow> int \<Rightarrow> ('m, mb_answer) act"
  mc_write_one :: "int \<Rightarrow> int \<Rightarrow> int \<Rightarrow> ('m, mb_answer) act"
  mc_write_many :: "int \<Rightarrow> int list \<Rightarrow> int \<Rightarrow> ('m, mb_answer) act"

record 'm modbus =
  mt_host :: string
  mt_port :: nat
  mt_device_id :: int
  mt_hooked :: bool
  mt_client :: bool
  mt_dev :: 'm
  mt_log :: "event list"

text \<open>\<open>mt_client\<close>: \<open>self._client\<close> is not \<open>None\<close>.\<close>

definition mt_emit :: "string \<Rightarrow> fields \<Rightarrow> ('m modbus, unit) act" where
  "mt_emit event data = mmod (\<lambda>s. if mt_hooked s then s\<lparr>mt_log := mt_log s @ [(event, data)]\<rparr> else s)"

definition on_client :: "('m, 'a) act \<Rightarrow> ('m modbus, 'a) act" where
  "on_client m = (\<lambda>s. case m (mt_dev s) of (d, r) \<Rightarrow> (s\<lparr>mt_dev := d\<rparr>, r))"

definition modbus_open :: "environ \<Rightarrow> 'm mb_client \<Rightarrow> ('m modbus, unit) act" where
  "modbus_open env C =
     mbind (mget (\<lambda>s. (mt_host s, mt_port s))) (\<lambda>(host, port).
       mthen (gate_host env mt_emit host port)
         (mthen (mcatch (catches [OSErr, ModbusException, ValueErr])
             (mthen (on_client (mc_create C host port))
               (mthen (mmod (\<lambda>s. s\<lparr>mt_client := True\<rparr>))
                 (mbind (on_client (mc_connect C)) (\<lambda>ok.
                   if ok then mret ()
                   else mraise (Exn ConnectionErr (PFStr [PStr ''failed to connect to '', PStr host, PStr '':'', PInt (int port)]))))))
             (\<lambda>e. mthen (mt_emit ''modbus_open_failed'' [(''host'', PStr host), (''port'', PInt (int port)), (''error'', exn_str e)])
                (mraise e)))
           (mt_emit ''modbus_open'' [(''host'', PStr host), (''port'', PInt (int port))])))"

definition modbus_close :: "'m mb_client \<Rightarrow> ('m modbus, unit) act" where
  "modbus_close C =
     mbind (mget mt_client) (\<lambda>client.
       if client then mthen (mmod (\<lambda>s. s\<lparr>mt_dev := mc_close C (mt_dev s), mt_client := False\<rparr>)) (mt_emit ''modbus_close'' [])
       else mret ())"

definition require_client :: "('m modbus, unit) act" where
  "require_client = mbind (mget mt_client) (\<lambda>client.
     if client then mret () else mraise (Exn TransportClosedError (PStr ''connection is not open'')))"

definition check_answer :: "mb_answer \<Rightarrow> string \<Rightarrow> ('m modbus, int list) act" where
  "check_answer answer op =
     (case answer of
        Registers rs \<Rightarrow> mret rs
      | ErrorAnswer text \<Rightarrow> mraise (Exn OSErr (PFStr [PStr ''modbus '', PStr op, PStr '': '', text])))"

text \<open>The common shape of the operations: call, check the answer, journal either way.\<close>

definition attempt :: "('m, mb_answer) act \<Rightarrow> string \<Rightarrow> string \<Rightarrow> fields \<Rightarrow> ('m modbus, int list) act" where
  "attempt call op failed_kind info =
     mcatch (catches [OSErr, ModbusException, StructErr, ValueErr, TransportClosedError])
       (mthen require_client (mbind (on_client call) (\<lambda>answer. check_answer answer op)))
       (\<lambda>e. mthen (mt_emit failed_kind (info @ [(''error'', exn_str e)])) (mraise e))"

definition read_holding :: "'m mb_client \<Rightarrow> int \<Rightarrow> int \<Rightarrow> ('m modbus, int list) act" where
  "read_holding C address count =
     mbind (mget mt_device_id) (\<lambda>dev.
       mbind (attempt (mc_read C address count dev) ''read_holding'' ''modbus_read_failed''
                [(''address'', PInt address), (''count'', PInt count)]) (\<lambda>values.
         mthen (mt_emit ''modbus_read'' [(''address'', PInt address), (''count'', PInt count), (''values'', PList (map PInt values))])
           (mret values)))"

definition write_register :: "'m mb_client \<Rightarrow> int \<Rightarrow> int \<Rightarrow> ('m modbus, unit) act" where
  "write_register C address value =
     mbind (mget mt_device_id) (\<lambda>dev.
       mbind (attempt (mc_write_one C address value dev) ''write_register'' ''modbus_write_failed''
                [(''address'', PInt address), (''values'', PList [PInt value])]) (\<lambda>_.
         mt_emit ''modbus_write'' [(''address'', PInt address), (''values'', PList [PInt value])]))"

definition write_registers :: "'m mb_client \<Rightarrow> int \<Rightarrow> int list \<Rightarrow> ('m modbus, unit) act" where
  "write_registers C address values =
     mbind (mget mt_device_id) (\<lambda>dev.
       mbind (attempt (mc_write_many C address values dev) ''write_registers'' ''modbus_write_failed''
                [(''address'', PInt address), (''values'', PList (map PInt values))]) (\<lambda>_.
         mt_emit ''modbus_write'' [(''address'', PInt address), (''values'', PList (map PInt values))]))"

section \<open>Facts\<close>

definition mt_logged :: "string \<Rightarrow> fields \<Rightarrow> 'm modbus \<Rightarrow> 'm modbus" where
  "mt_logged e d s = (if mt_hooked s then s\<lparr>mt_log := mt_log s @ [(e, d)]\<rparr> else s)"

lemma mt_emit_apply [simp]: "mt_emit e d s = (mt_logged e d s, Inr ())"
  by (simp add: mt_emit_def mt_logged_def mmod_def)

lemma mt_logged_fields [simp]:
  "mt_client (mt_logged e d s) = mt_client s" "mt_hooked (mt_logged e d s) = mt_hooked s" "mt_dev (mt_logged e d s) = mt_dev s"
  "mt_log (mt_logged e d s) = mt_log s @ (if mt_hooked s then [(e, d)] else [])"
  by (simp_all add: mt_logged_def)

text \<open>What pymodbus documents: every failure of a request is one of these.\<close>

definition request_ok :: "('m, mb_answer) act \<Rightarrow> bool" where
  "request_ok call \<longleftrightarrow> (\<forall>d e. snd (call d) = Inl e \<longrightarrow> catches [OSErr, ModbusException, StructErr, ValueErr] e)"

text \<open>The answer a request gives in a state, errors and the missing client included.\<close>

definition outcome :: "('m, mb_answer) act \<Rightarrow> 'm modbus \<Rightarrow> 'm \<times> (exn + int list) option" where
  "outcome call s =
     (if \<not> mt_client s then (mt_dev s, None)
      else case call (mt_dev s) of
        (d, Inr (Registers rs)) \<Rightarrow> (d, Some (Inr rs))
      | (d, Inr (ErrorAnswer text)) \<Rightarrow> (d, Some (Inl (Exn OSErr text)))
      | (d, Inl e) \<Rightarrow> (d, Some (Inl e)))"

lemma attempt_cases:
  assumes "request_ok call"
  obtains (ok) d rs where "outcome call s = (d, Some (Inr rs))" "attempt call op k info s = (s\<lparr>mt_dev := d\<rparr>, Inr rs)"
    | (err) d e info' where "fst (outcome call s) = d" "\<nexists>rs. snd (outcome call s) = Some (Inr rs)"
      "attempt call op k info s = (mt_logged k info' (s\<lparr>mt_dev := d\<rparr>), Inl e)"
proof -
  have c: "catches [OSErr, ModbusException, StructErr, ValueErr, TransportClosedError] (Exn TransportClosedError m)"
    "catches [OSErr, ModbusException, StructErr, ValueErr, TransportClosedError] (Exn OSErr m)" for m
    by (simp_all add: catches_def exn_is_def)
  have sub: "catches [OSErr, ModbusException, StructErr, ValueErr] e \<Longrightarrow>
      catches [OSErr, ModbusException, StructErr, ValueErr, TransportClosedError] e" for e by (auto simp: catches_def)
  have id: "s\<lparr>mt_dev := mt_dev s\<rparr> = s" by simp
  show ?thesis
  proof (cases "mt_client s")
    case False
    then show ?thesis
      by (intro err [of "mt_dev s"]) (auto simp: outcome_def attempt_def require_client_def act_apply c)
  next
    case True
    obtain d r where r: "call (mt_dev s) = (d, r)" by (cases "call (mt_dev s)")
    show ?thesis
    proof (cases r)
      case (Inl e)
      then have "catches [OSErr, ModbusException, StructErr, ValueErr] e" using assms r unfolding request_ok_def by (metis snd_conv)
      then show ?thesis using True r Inl sub
        by (intro err [of d]) (auto simp: outcome_def attempt_def require_client_def act_apply on_client_def)
    next
      case (Inr a)
      show ?thesis
      proof (cases a)
        case (Registers rs)
        then show ?thesis using True r Inr
          by (intro ok [of d rs]) (auto simp: outcome_def attempt_def require_client_def act_apply on_client_def check_answer_def)
      next
        case (ErrorAnswer m)
        then show ?thesis using True r Inr c
          by (intro err [of d]) (auto simp: outcome_def attempt_def require_client_def act_apply on_client_def check_answer_def)
      qed
    qed
  qed
qed

section \<open>Properties\<close>

text \<open>
  A register read leaves exactly one event, also without a connection, on an error answer
  and on an exception: \<open>modbus_read\<close> with the registers that are returned, or
  \<open>modbus_read_failed\<close> and an exception; the client is called exactly when there is one.
\<close>

theorem modbus_read_journaled:
  assumes "mt_hooked s" and "request_ok (mc_read C address count (mt_device_id s))"
  shows "\<exists>kind data. mt_log (fst (read_holding C address count s)) = mt_log s @ [(kind, data)] \<and>
    mt_dev (fst (read_holding C address count s)) = fst (outcome (mc_read C address count (mt_device_id s)) s) \<and>
    (case snd (outcome (mc_read C address count (mt_device_id s)) s) of
       Some (Inr rs) \<Rightarrow> snd (read_holding C address count s) = Inr rs \<and> kind = ''modbus_read'' \<and>
         map_of data ''values'' = Some (PList (map PInt rs))
     | _ \<Rightarrow> (\<exists>e. snd (read_holding C address count s) = Inl e) \<and> kind = ''modbus_read_failed'')"
  using assms(2)
proof (cases rule: attempt_cases [where s = s and op = "''read_holding''" and k = "''modbus_read_failed''"
      and info = "[(''address'', PInt address), (''count'', PInt count)]"])
  case (ok d rs)
  then show ?thesis using assms(1) by (auto simp: read_holding_def act_apply)
next
  case (err d e info')
  then have "read_holding C address count s = (mt_logged ''modbus_read_failed'' info' (s\<lparr>mt_dev := d\<rparr>), Inl e)"
    by (simp add: read_holding_def act_apply)
  then show ?thesis using err assms(1) by (auto split: option.split sum.split)
qed

definition demo_client :: "unit mb_client" where
  "demo_client = \<lparr>mc_create = \<lambda>_ _. mret (), mc_connect = mret True, mc_close = id,
     mc_read = \<lambda>a n _. mret (if a < 0 then ErrorAnswer (PStr ''illegal address'') else Registers (replicate (nat n) 7)),
     mc_write_one = \<lambda>_ _ _. mret (Registers []), mc_write_many = \<lambda>_ _ _. mret (Registers [])\<rparr>"

definition demo_modbus :: "unit modbus" where
  "demo_modbus = \<lparr>mt_host = ''plc'', mt_port = 502, mt_device_id = 1, mt_hooked = True, mt_client = True, mt_dev = (), mt_log = []\<rparr>"

theorem modbus_read_journaled_witness:
  "\<exists>data. mt_log (fst (read_holding demo_client (-1) 2 demo_modbus)) = [(''modbus_read_failed'', data)]"
proof -
  have ok: "request_ok (mc_read demo_client (-1) 2 (mt_device_id demo_modbus))"
    by (simp add: request_ok_def demo_client_def act_apply)
  have "snd (outcome (mc_read demo_client (-1) 2 (mt_device_id demo_modbus)) demo_modbus) = Some (Inl (Exn OSErr (PStr ''illegal address'')))"
    by (simp add: outcome_def demo_client_def demo_modbus_def act_apply)
  moreover have "mt_hooked demo_modbus" "mt_log demo_modbus = []" by (simp_all add: demo_modbus_def)
  ultimately show ?thesis using modbus_read_journaled [OF _ ok] by auto
qed

text \<open>
  The allowlist is asked before anything else: when it refuses, opening touches neither the
  client nor the network and ends in the \<open>PolicyViolation\<close> of the gate; otherwise opening
  leaves exactly one event of its own and succeeds exactly when the client was created and
  connected.
\<close>

theorem modbus_open_gated:
  assumes "mt_hooked s" and "policy_from_env env = Inr ap"
    and "\<And>d e. snd (mc_create C (mt_host s) (mt_port s) d) = Inl e \<Longrightarrow> catches [OSErr, ModbusException, ValueErr] e"
    and "\<And>d e. snd (mc_connect C d) = Inl e \<Longrightarrow> catches [OSErr, ModbusException, ValueErr] e"
  shows "if host_restricted (ap_hosts ap) \<and> \<not> host_allows (ap_hosts ap) (mt_host s) (mt_port s)
    then mt_dev (fst (modbus_open env C s)) = mt_dev s \<and> (\<exists>m. snd (modbus_open env C s) = Inl (Exn PolicyViolation m)) \<and>
      (\<exists>data. mt_log (fst (modbus_open env C s)) = mt_log s @ [(''policy_violation'', data)])
    else \<exists>kind data. mt_log (fst (modbus_open env C s)) = mt_log s @ [(kind, data)] \<and>
      (if snd (mc_create C (mt_host s) (mt_port s) (mt_dev s)) = Inr () \<and>
          snd (mc_connect C (fst (mc_create C (mt_host s) (mt_port s) (mt_dev s)))) = Inr True
       then kind = ''modbus_open'' \<and> snd (modbus_open env C s) = Inr ()
       else kind = ''modbus_open_failed'' \<and> (\<exists>e. snd (modbus_open env C s) = Inl e))"
proof (cases "host_restricted (ap_hosts ap) \<and> \<not> host_allows (ap_hosts ap) (mt_host s) (mt_port s)")
  case True
  then show ?thesis
    using assms(1,2) by (simp add: modbus_open_def gate_host_def check_host_def policy_deny_def act_apply)
next
  case False
  have gate: "gate_host env mt_emit (mt_host s) (mt_port s) s = (s, Inr ())"
    using False assms(2) by (auto simp: gate_host_def check_host_def act_apply)
  have c: "catches [OSErr, ModbusException, ValueErr] (Exn ConnectionErr m)" for m by (simp add: catches_def exn_is_def)
  obtain d1 r1 where r1: "mc_create C (mt_host s) (mt_port s) (mt_dev s) = (d1, r1)" by (rule prod.exhaust)
  obtain d2 r2 where r2: "mc_connect C d1 = (d2, r2)" by (rule prod.exhaust)
  have "\<And>e. r1 = Inl e \<Longrightarrow> catches [OSErr, ModbusException, ValueErr] e" "\<And>e. r2 = Inl e \<Longrightarrow> catches [OSErr, ModbusException, ValueErr] e"
    using assms(3,4) r1 r2 by (metis snd_conv)+
  then show ?thesis
    using False assms(1) r1 r2 gate c
    by (cases r1; cases r2) (auto simp: modbus_open_def act_apply on_client_def)
qed

theorem modbus_open_gated_witness:
  "\<exists>m. snd (modbus_open ((\<lambda>_. None)(ALLOWED_HOSTS_ENV \<mapsto> ''other'')) demo_client demo_modbus) = Inl (Exn PolicyViolation m)"
proof -
  let ?env = "(\<lambda>_. None)(ALLOWED_HOSTS_ENV \<mapsto> ''other'')"
  have ap: "policy_from_env ?env = Inr \<lparr>ap_hosts = [(''other'', None)], ap_kinds = ALL_KINDS\<rparr>" by code_simp
  have r: "host_restricted (ap_hosts \<lparr>ap_hosts = [(''other'', None)], ap_kinds = ALL_KINDS\<rparr>) \<and>
      \<not> host_allows (ap_hosts \<lparr>ap_hosts = [(''other'', None)], ap_kinds = ALL_KINDS\<rparr>) (mt_host demo_modbus) (mt_port demo_modbus)"
    by code_simp
  have h: "mt_hooked demo_modbus" by (simp add: demo_modbus_def)
  show ?thesis using modbus_open_gated [OF h ap, of demo_client] unfolding if_P [OF r] by (simp add: demo_client_def act_apply)
qed

end
