(* ===== verification/MqttTransport.thy ===== *)
theory MqttTransport
  imports Policy Queue
begin

text \<open>
  \<open>src/io_core/mqtt_transport.py\<close>: the MQTT transport. The paho client is a parameter: actions
  on a device state that may raise. Its network thread calls the four callbacks; a blocking call
  takes the callbacks that run while it waits, in their order, as an argument, and a waiting
  loop takes its turns: the clock reading and the callbacks until it looks again. A loop whose
  turns are used up is still waiting, which is the result \<open>None\<close>.
\<close>

definition DEFAULT_QUEUE_SIZE :: nat where
  "DEFAULT_QUEUE_SIZE = 256"

text \<open>A reason code: its \<open>is_failure\<close> (absent is \<open>False\<close>) and its text.\<close>

type_synonym reason = "bool \<times> string"
type_synonym message = "string \<times> bytes"

datatype net = Connack reason | Disconnected reason | Suback int "reason list" | Incoming message

record 'm paho =
  pc_create :: "('m, unit) act"
  pc_connect :: "string \<Rightarrow> nat \<Rightarrow> int \<Rightarrow> ('m, unit) act"
  pc_loop_start :: "('m, unit) act"
  pc_disconnect :: "'m \<Rightarrow> 'm"
  pc_loop_stop :: "'m \<Rightarrow> 'm"
  pc_publish :: "string \<Rightarrow> bytes \<Rightarrow> int \<Rightarrow> bool \<Rightarrow> ('m, int \<times> int) act"
  pc_wait_published :: "int \<Rightarrow> rat \<Rightarrow> ('m, unit) act"
  pc_published :: "int \<Rightarrow> ('m, bool) act"
  pc_subscribe :: "string \<Rightarrow> int \<Rightarrow> ('m, int \<times> int) act"

record 'm mqtt =
  mq_host :: string
  mq_port :: nat
  mq_timeout :: rat
  mq_keepalive :: int
  mq_hooked :: bool
  mq_client :: bool
  mq_connected :: bool
  mq_closing :: bool
  mq_maxlen :: nat
  mq_inbox :: "message list"
  mq_subacks :: "int \<rightharpoonup> reason list"
  mq_dev :: 'm
  mq_log :: "event list"

definition mq_emit :: "string \<Rightarrow> fields \<Rightarrow> ('m mqtt, unit) act" where
  "mq_emit event data = mmod (\<lambda>s. if mq_hooked s then s\<lparr>mq_log := mq_log s @ [(event, data)]\<rparr> else s)"

definition mq_logged :: "string \<Rightarrow> fields \<Rightarrow> 'm mqtt \<Rightarrow> 'm mqtt" where
  "mq_logged event data s = fst (mq_emit event data s)"

definition on_paho :: "('m, 'a) act \<Rightarrow> ('m mqtt, 'a) act" where
  "on_paho m = (\<lambda>s. case m (mq_dev s) of (d, r) \<Rightarrow> (s\<lparr>mq_dev := d\<rparr>, r))"

section \<open>The callbacks\<close>

definition on_connect :: "reason \<Rightarrow> 'm mqtt \<Rightarrow> 'm mqtt" where
  "on_connect rc s = (if fst rc then s else s\<lparr>mq_connected := True\<rparr>)"

definition on_disconnect :: "reason \<Rightarrow> 'm mqtt \<Rightarrow> 'm mqtt" where
  "on_disconnect rc s =
     (let s' = s\<lparr>mq_connected := False\<rparr> in
      if mq_closing s' then s' else mq_logged ''mqtt_disconnect'' [(''reason'', PStr (snd rc))] s')"

definition on_subscribe :: "int \<Rightarrow> reason list \<Rightarrow> 'm mqtt \<Rightarrow> 'm mqtt" where
  "on_subscribe mid codes s = s\<lparr>mq_subacks := (mq_subacks s)(mid \<mapsto> codes)\<rparr>"

text \<open>\<open>deque(maxlen=n).append\<close>.\<close>

definition deque_append :: "nat \<Rightarrow> 'a list \<Rightarrow> 'a \<Rightarrow> 'a list" where
  "deque_append n q x = drop (Suc (length q) - n) (q @ [x])"

definition item_fields :: "message \<Rightarrow> fields" where
  "item_fields msg = [(''topic'', PStr (fst msg)), (''payload'', PUtf8 (snd msg))]"

definition on_message :: "message \<Rightarrow> 'm mqtt \<Rightarrow> 'm mqtt" where
  "on_message msg s =
     mq_logged ''mqtt_message'' (item_fields msg) (s\<lparr>mq_inbox := deque_append (mq_maxlen s) (mq_inbox s) msg\<rparr>)"

fun callback :: "net \<Rightarrow> 'm mqtt \<Rightarrow> 'm mqtt" where
  "callback (Connack rc) s = on_connect rc s"
| "callback (Disconnected rc) s = on_disconnect rc s"
| "callback (Suback mid codes) s = on_subscribe mid codes s"
| "callback (Incoming msg) s = on_message msg s"

definition callbacks :: "net list \<Rightarrow> 'm mqtt \<Rightarrow> 'm mqtt" where
  "callbacks ns s = fold callback ns s"

section \<open>Life cycle\<close>

text \<open>The callbacks \<open>ns\<close> run between \<open>disconnect\<close> and the end of \<open>loop_stop\<close>.\<close>

definition teardown :: "'m paho \<Rightarrow> net list \<Rightarrow> 'm mqtt \<Rightarrow> 'm mqtt" where
  "teardown C ns s =
     (if \<not> mq_client s then s
      else
        let s1 = s\<lparr>mq_closing := True\<rparr>;
            s2 = s1\<lparr>mq_dev := pc_disconnect C (mq_dev s1)\<rparr>;
            s3 = callbacks ns s2;
            s4 = s3\<lparr>mq_dev := pc_loop_stop C (mq_dev s3)\<rparr>
        in s4\<lparr>mq_client := False, mq_closing := False\<rparr>)"

text \<open>\<open>_connected.wait\<close>: the callbacks run until it returns; it returns whether the event was set.\<close>

definition accepted :: "net \<Rightarrow> bool" where
  "accepted n = (case n of Connack rc \<Rightarrow> \<not> fst rc | _ \<Rightarrow> False)"

definition wait_connected :: "net list \<Rightarrow> ('m mqtt, bool) act" where
  "wait_connected ns s = (callbacks ns s, Inr (mq_connected s \<or> list_ex accepted ns))"

definition open_body :: "'m paho \<Rightarrow> net list \<Rightarrow> string \<Rightarrow> nat \<Rightarrow> int \<Rightarrow> ('m mqtt, unit) act" where
  "open_body C ns host port keepalive =
     mthen (on_paho (pc_create C))
       (mthen (mmod (\<lambda>s. s\<lparr>mq_client := True\<rparr>))
         (mthen (on_paho (pc_connect C host port keepalive))
           (mthen (on_paho (pc_loop_start C))
             (mbind (wait_connected ns) (\<lambda>ok.
               if ok then mret ()
               else mraise (Exn ConnectionErr
                 (PFStr [PStr ''failed to connect to mqtt broker '', PStr host, PStr '':'', PInt (int port)])))))))"

definition mqtt_open :: "environ \<Rightarrow> 'm paho \<Rightarrow> net list \<Rightarrow> net list \<Rightarrow> ('m mqtt, unit) act" where
  "mqtt_open env C ns ns' =
     mbind (mget (\<lambda>s. (mq_host s, mq_port s, mq_keepalive s))) (\<lambda>(host, port, keepalive).
       mthen (gate_host env mq_emit host port)
         (mthen (mcatch (catches [OSErr, ValueErr]) (open_body C ns host port keepalive)
             (\<lambda>e. mthen (mmod (teardown C ns'))
                (mthen (mq_emit ''mqtt_open_failed'' [(''host'', PStr host), (''port'', PInt (int port)), (''error'', exn_str e)])
                  (mraise e))))
           (mq_emit ''mqtt_open'' [(''host'', PStr host), (''port'', PInt (int port))])))"

definition mqtt_close :: "'m paho \<Rightarrow> net list \<Rightarrow> ('m mqtt, unit) act" where
  "mqtt_close C ns =
     mbind (mget mq_client) (\<lambda>client.
       if client then mthen (mmod (teardown C ns)) (mq_emit ''mqtt_close'' []) else mret ())"

definition mq_require_client :: "('m mqtt, unit) act" where
  "mq_require_client = mbind (mget mq_client) (\<lambda>client.
     if client then mret () else mraise (Exn TransportClosedError (PStr ''connection is not open'')))"

section \<open>Operations\<close>

text \<open>The callbacks \<open>ns\<close> run while \<open>wait_for_publish\<close> blocks.\<close>

definition mqtt_publish :: "'m paho \<Rightarrow> string \<Rightarrow> string \<Rightarrow> int \<Rightarrow> bool \<Rightarrow> net list \<Rightarrow> ('m mqtt, unit) act" where
  "mqtt_publish C topic payload qos retain ns =
     mthen (mcatch (catches [OSErr, ValueErr, TransportClosedError])
         (mthen mq_require_client
           (mbind (on_paho (pc_publish C topic (encode_str payload) qos retain)) (\<lambda>(rc, mid).
             if rc \<noteq> 0 then mraise (Exn OSErr (PFStr [PStr ''mqtt publish '', PRepr (PStr topic), PStr '': rc='', PInt rc]))
             else mbind (mget mq_timeout) (\<lambda>timeout.
               mthen (mthen (mmod (callbacks ns)) (on_paho (pc_wait_published C mid timeout)))
                 (mbind (on_paho (pc_published C mid)) (\<lambda>ok.
                   if ok then mret ()
                   else mraise (Exn OSErr (PFStr [PStr ''mqtt publish '', PRepr (PStr topic),
                     PStr '': not acknowledged within '', PNum (Fin timeout), PStr ''s'']))))))))
         (\<lambda>e. mthen (mq_emit ''mqtt_publish_failed'' [(''topic'', PStr topic), (''payload'', PStr payload), (''error'', exn_str e)])
            (mraise e)))
       (mq_emit ''mqtt_publish''
         [(''topic'', PStr topic), (''payload'', PStr payload), (''qos'', PInt qos), (''retain'', PBool retain)])"

type_synonym turn = "rat \<times> net list"

fun suback_wait :: "string \<Rightarrow> int \<Rightarrow> rat \<Rightarrow> turn list \<Rightarrow> 'm mqtt \<Rightarrow> ('m mqtt \<times> (exn + reason list)) option" where
  "suback_wait topic mid end_at ts s =
     (case mq_subacks s mid of
        Some codes \<Rightarrow> Some (s\<lparr>mq_subacks := (mq_subacks s)(mid := None)\<rparr>, Inr codes)
      | None \<Rightarrow>
          (case ts of
             [] \<Rightarrow> None
           | (now, ns) # ts' \<Rightarrow>
               if end_at - now \<le> 0
               then Some (s, Inl (Exn OSErr (PFStr [PStr ''mqtt subscribe '', PRepr (PStr topic), PStr '': no SUBACK within '',
                      PNum (Fin (mq_timeout s)), PStr ''s''])))
               else suback_wait topic mid end_at ts' (callbacks ns s)))"

declare suback_wait.simps [simp del]

text \<open>\<open>start\<close> is the clock reading before the wait.\<close>

definition subscribe_body :: "'m paho \<Rightarrow> string \<Rightarrow> int \<Rightarrow> rat \<Rightarrow> turn list \<Rightarrow> 'm mqtt \<Rightarrow> ('m mqtt \<times> (exn + unit)) option" where
  "subscribe_body C topic qos start ts s =
     (case mthen mq_require_client (on_paho (pc_subscribe C topic qos)) s of
        (s1, Inl e) \<Rightarrow> Some (s1, Inl e)
      | (s1, Inr (rc, mid)) \<Rightarrow>
          if rc \<noteq> 0
          then Some (s1, Inl (Exn OSErr (PFStr [PStr ''mqtt subscribe '', PRepr (PStr topic), PStr '': rc='', PInt rc])))
          else
            (case suback_wait topic mid (start + mq_timeout s1) ts s1 of
               None \<Rightarrow> None
             | Some (s2, Inl e) \<Rightarrow> Some (s2, Inl e)
             | Some (s2, Inr codes) \<Rightarrow>
                 if list_ex fst codes
                 then Some (s2, Inl (Exn OSErr (PFStr [PStr ''mqtt subscribe '', PRepr (PStr topic), PStr '': broker refused ('',
                        PList (map (PStr \<circ> snd) codes), PStr '')''])))
                 else Some (s2, Inr ())))"

definition mqtt_subscribe :: "'m paho \<Rightarrow> string \<Rightarrow> int \<Rightarrow> rat \<Rightarrow> turn list \<Rightarrow> 'm mqtt \<Rightarrow> ('m mqtt \<times> (exn + unit)) option" where
  "mqtt_subscribe C topic qos start ts s =
     map_option
       (\<lambda>(s', r).
          case r of
            Inl e \<Rightarrow>
              if catches [OSErr, ValueErr, TransportClosedError] e
              then (mq_logged ''mqtt_subscribe_failed'' [(''topic'', PStr topic), (''error'', exn_str e)] s', Inl e)
              else (s', Inl e)
          | Inr _ \<Rightarrow> (mq_logged ''mqtt_subscribe'' [(''topic'', PStr topic), (''qos'', PInt qos)] s', Inr ()))
       (subscribe_body C topic qos start ts s)"

fun read_wait :: "rat \<Rightarrow> rat \<Rightarrow> turn list \<Rightarrow> 'm mqtt \<Rightarrow> ('m mqtt \<times> message option) option" where
  "read_wait timeout end_at ts s =
     (case mq_inbox s of
        msg # rest \<Rightarrow> Some (s\<lparr>mq_inbox := rest\<rparr>, Some msg)
      | [] \<Rightarrow>
          (case ts of
             [] \<Rightarrow> None
           | (now, ns) # ts' \<Rightarrow>
               if end_at - now \<le> 0
               then Some (mq_logged ''mqtt_read_timeout'' [(''timeout'', PNum (Fin timeout))] s, None)
               else read_wait timeout end_at ts' (callbacks ns s)))"

declare read_wait.simps [simp del]

definition read_message :: "rat \<Rightarrow> rat \<Rightarrow> turn list \<Rightarrow> 'm mqtt \<Rightarrow> ('m mqtt \<times> message option) option" where
  "read_message timeout start ts s = read_wait timeout (start + timeout) ts s"

section \<open>Facts\<close>

text \<open>The deque is a bounded queue that drops its oldest elements.\<close>

definition deque_put :: "unit \<Rightarrow> 'a list \<Rightarrow> nat \<times> 'a list \<Rightarrow> nat \<times> 'a list" where
  "deque_put _ xs r = (fst r, foldl (deque_append (fst r)) (snd r) xs)"

definition deque_popleft :: "nat \<Rightarrow> nat \<times> 'a list \<Rightarrow> nat \<times> 'a list" where
  "deque_popleft n r = (fst r, drop n (snd r))"

lemma deque_append_split: "\<exists>gap. q @ [x] = gap @ deque_append n q x"
  by (rule exI [of _ "take (Suc (length q) - n) (q @ [x])"]) (simp only: deque_append_def append_take_drop_id)

lemma foldl_deque_split: "\<exists>gap. q @ xs = gap @ foldl (deque_append n) q xs"
proof (induction xs arbitrary: q)
  case (Cons x xs)
  obtain g where g: "q @ [x] = g @ deque_append n q x" using deque_append_split [of q x n] by (rule exE)
  obtain h where h: "deque_append n q x @ xs = h @ foldl (deque_append n) (deque_append n q x) xs" using Cons by blast
  have "q @ x # xs = g @ h @ foldl (deque_append n) (deque_append n q x) xs"
    using arg_cong [OF g, of "\<lambda>l. l @ xs"] by (simp only: append_assoc append_Cons append_Nil h)
  then have "q @ x # xs = (g @ h) @ foldl (deque_append n) q (x # xs)" by (simp only: append_assoc foldl_Cons)
  then show ?case by (rule exI)
qed simp

lemma foldl_deque_bound: "length q \<le> n \<Longrightarrow> length (foldl (deque_append n) q xs) \<le> n"
proof (induction xs arbitrary: q)
  case (Cons x xs)
  have "length (deque_append n q x) \<le> n" using Cons.prems by (auto simp: deque_append_def)
  from Cons.IH [OF this] show ?case by simp
qed simp

interpretation inbox: bounded_queue "\<lambda>r. length (snd r) \<le> fst r" snd deque_put deque_popleft fst
proof
  show "\<exists>gap. snd r @ d = gap @ snd (deque_put x d r)" for r :: "nat \<times> 'a list" and d x
    by (simp add: deque_put_def foldl_deque_split)
qed (auto simp: deque_put_def deque_popleft_def intro: foldl_deque_bound)

text \<open>The messages the journal shows.\<close>

definition message_of :: "event \<Rightarrow> message list" where
  "message_of ev =
     (if fst ev \<noteq> ''mqtt_message'' then []
      else case (map_of (snd ev) ''topic'', map_of (snd ev) ''payload'') of
        (Some (PStr t), Some (PUtf8 p)) \<Rightarrow> [(t, p)] | _ \<Rightarrow> [])"

definition messages_of :: "event list \<Rightarrow> message list" where
  "messages_of evs = concat (map message_of evs)"

lemma messages_of_simps [simp]:
  "messages_of [] = []" "messages_of (a @ b) = messages_of a @ messages_of b" "messages_of (x # b) = message_of x @ messages_of b"
  "message_of (''mqtt_message'', item_fields m) = [m]" "k \<noteq> ''mqtt_message'' \<Longrightarrow> message_of (k, d) = []"
  by (simp_all add: messages_of_def message_of_def item_fields_def)

lemma mq_emit_apply [simp]: "mq_emit e d s = (mq_logged e d s, Inr ())"
  by (simp add: mq_emit_def mq_logged_def mmod_def)

lemma mq_logged_fields [simp]:
  "mq_log (mq_logged e d s) = mq_log s @ (if mq_hooked s then [(e, d)] else [])"
  "mq_hooked (mq_logged e d s) = mq_hooked s" "mq_client (mq_logged e d s) = mq_client s" "mq_maxlen (mq_logged e d s) = mq_maxlen s"
  "mq_inbox (mq_logged e d s) = mq_inbox s" "mq_dev (mq_logged e d s) = mq_dev s" "mq_closing (mq_logged e d s) = mq_closing s"
  "mq_timeout (mq_logged e d s) = mq_timeout s" "mq_subacks (mq_logged e d s) = mq_subacks s" "mq_connected (mq_logged e d s) = mq_connected s"
  by (simp_all add: mq_logged_def mq_emit_def mmod_def)

lemmas callback_defs = on_connect_def on_disconnect_def on_subscribe_def on_message_def Let_def

lemma callback_fields [simp]:
  "mq_hooked (callback n s) = mq_hooked s" "mq_client (callback n s) = mq_client s" "mq_maxlen (callback n s) = mq_maxlen s"
  "mq_dev (callback n s) = mq_dev s" "mq_closing (callback n s) = mq_closing s" "mq_timeout (callback n s) = mq_timeout s"
  by (cases n; simp add: callback_defs)+

lemma callbacks_simps [simp]: "callbacks [] s = s" "callbacks (n # ns) s = callbacks ns (callback n s)"
  by (simp_all add: callbacks_def)

lemma callbacks_fields [simp]:
  "mq_hooked (callbacks ns s) = mq_hooked s" "mq_client (callbacks ns s) = mq_client s" "mq_maxlen (callbacks ns s) = mq_maxlen s"
  "mq_dev (callbacks ns s) = mq_dev s" "mq_closing (callbacks ns s) = mq_closing s" "mq_timeout (callbacks ns s) = mq_timeout s"
  by (induction ns arbitrary: s; simp)+

text \<open>The events of the network thread.\<close>

definition net_log :: "event list \<Rightarrow> bool" where
  "net_log evs \<longleftrightarrow> list_all (\<lambda>ev. fst ev \<in> {''mqtt_message'', ''mqtt_disconnect''}) evs"

lemma net_log_simps [simp]: "net_log []" "net_log (a @ b) \<longleftrightarrow> net_log a \<and> net_log b"
  by (simp_all add: net_log_def)

lemma callback_log: "\<exists>evs. mq_log (callback n s) = mq_log s @ evs \<and> net_log evs"
  by (cases n) (auto simp: callback_defs net_log_def)

lemma callbacks_log: "\<exists>evs. mq_log (callbacks ns s) = mq_log s @ evs \<and> net_log evs"
proof (induction ns arbitrary: s)
  case (Cons n ns)
  obtain a where a: "mq_log (callback n s) = mq_log s @ a" "net_log a" using callback_log by blast
  obtain b where b: "mq_log (callbacks ns (callback n s)) = mq_log (callback n s) @ b" "net_log b" using Cons by blast
  show ?case using a b by (intro exI [of _ "a @ b"]) simp
qed simp

section \<open>The flow of messages\<close>

definition flow :: "'m mqtt \<Rightarrow> 'm mqtt \<Rightarrow> bool" where
  "flow s t \<longleftrightarrow> mq_maxlen t = mq_maxlen s \<and> mq_hooked t = mq_hooked s \<and>
     (\<exists>ms. mq_inbox t = foldl (deque_append (mq_maxlen s)) (mq_inbox s) ms \<and>
        (mq_hooked s \<longrightarrow> messages_of (mq_log t) = messages_of (mq_log s) @ ms))"

lemma flow_same: "mq_maxlen t = mq_maxlen s \<Longrightarrow> mq_hooked t = mq_hooked s \<Longrightarrow> mq_inbox t = mq_inbox s \<Longrightarrow>
    messages_of (mq_log t) = messages_of (mq_log s) \<Longrightarrow> flow s t"
  unfolding flow_def by (intro conjI exI [of _ "[]"]) auto

interpretation mqtt_flow: evolution flow
proof
  show "flow s s" for s :: "'m mqtt" by (simp add: flow_same)
  show "flow s u" if st: "flow s t" and tu: "flow t u" for s t u :: "'m mqtt"
  proof -
    obtain a where a: "mq_maxlen t = mq_maxlen s" "mq_hooked t = mq_hooked s"
      "mq_inbox t = foldl (deque_append (mq_maxlen s)) (mq_inbox s) a" "mq_hooked s \<longrightarrow> messages_of (mq_log t) = messages_of (mq_log s) @ a"
      using st unfolding flow_def by auto
    obtain b where b: "mq_maxlen u = mq_maxlen t" "mq_hooked u = mq_hooked t"
      "mq_inbox u = foldl (deque_append (mq_maxlen t)) (mq_inbox t) b" "mq_hooked t \<longrightarrow> messages_of (mq_log u) = messages_of (mq_log t) @ b"
      using tu unfolding flow_def by auto
    show ?thesis unfolding flow_def using a b by (intro conjI exI [of _ "a @ b"]) auto
  qed
qed

lemma flow_logged: "k \<noteq> ''mqtt_message'' \<Longrightarrow> flow s (mq_logged k d s)"
  by (rule flow_same) auto

lemma flow_callback: "flow s (callback n s)"
proof (cases n)
  case (Incoming m)
  then show ?thesis unfolding flow_def by (intro conjI exI [of _ "[m]"]) (auto simp: callback_defs)
qed (auto simp: callback_defs intro: flow_same)

lemma flow_callbacks: "flow s (callbacks ns s)"
proof (induction ns arbitrary: s)
  case (Cons n ns)
  from mqtt_flow.trans [OF flow_callback Cons] show ?case by simp
qed (simp add: flow_same)

lemma flow_teardown: "flow s (teardown C ns s)"
proof -
  have a: "flow s (s\<lparr>mq_closing := True, mq_dev := pc_disconnect C (mq_dev s)\<rparr>)" by (rule flow_same) auto
  have b: "flow t (t\<lparr>mq_dev := d, mq_client := False, mq_closing := False\<rparr>)" for t :: "'a mqtt" and d by (rule flow_same) auto
  from mqtt_flow.trans [OF mqtt_flow.trans [OF a flow_callbacks] b] show ?thesis
    by (simp add: teardown_def Let_def mqtt_flow.refl)
qed

lemma flow_on_paho: "moves flow (on_paho m)"
  by (rule movesI) (auto simp: on_paho_def intro: flow_same split: prod.splits)

lemma flow_emit: "k \<noteq> ''mqtt_message'' \<Longrightarrow> moves flow (mq_emit k d)"
  by (rule movesI) (auto intro: flow_logged)

lemma flow_gate: "moves flow (gate_host env mq_emit host port)"
  unfolding gate_host_def check_host_def policy_deny_def
  by (intro keeps_intros mqtt_flow.lifted mqtt_flow.seq mqtt_flow.ret mqtt_flow.raising mqtt_flow.bind moves_if flow_emit) auto

lemmas flow_intros = mqtt_flow.ret mqtt_flow.raising mqtt_flow.get mqtt_flow.lifted mqtt_flow.bind mqtt_flow.seq mqtt_flow.catching moves_if
  mqtt_flow.modify flow_on_paho flow_emit flow_gate

lemma flow_wait_connected: "moves flow (wait_connected ns)"
  by (rule movesI) (auto simp: wait_connected_def flow_callbacks)

lemma flow_client: "moves flow (mmod (\<lambda>s. s\<lparr>mq_client := b\<rparr>))"
  by (rule mqtt_flow.modify, rule flow_same) auto

lemma neq_message: "k \<in> {''mqtt_open_failed'', ''mqtt_open'', ''mqtt_close'', ''mqtt_publish'', ''mqtt_publish_failed''} \<Longrightarrow> k \<noteq> ''mqtt_message''"
  by auto

lemmas op_flows = mqtt_flow.ret mqtt_flow.raising mqtt_flow.get mqtt_flow.bind mqtt_flow.seq mqtt_flow.catching moves_if moves_prod
  flow_on_paho flow_gate flow_wait_connected flow_client mqtt_flow.modify [OF flow_teardown] mqtt_flow.modify [OF flow_callbacks]
  flow_emit [OF neq_message]

lemma flow_open: "moves flow (mqtt_open env C ns ns')"
  unfolding mqtt_open_def open_body_def by (intro op_flows) simp_all

lemma flow_close: "moves flow (mqtt_close C ns)"
  unfolding mqtt_close_def by (intro op_flows) simp_all

lemma flow_publish: "moves flow (mqtt_publish C topic payload qos retain ns)"
  unfolding mqtt_publish_def mq_require_client_def by (intro op_flows) simp_all

text \<open>What a finished wait did: the callbacks of some first turns, then the answer or the time-out.\<close>

lemma callbacks_append [simp]: "callbacks (a @ b) s = callbacks b (callbacks a s)"
  by (simp add: callbacks_def)

lemma suback_wait_simps:
  "mq_subacks s mid = Some codes \<Longrightarrow>
     suback_wait topic mid t ts s = Some (s\<lparr>mq_subacks := (mq_subacks s)(mid := None)\<rparr>, Inr codes)"
  "mq_subacks s mid = None \<Longrightarrow> suback_wait topic mid t [] s = None"
  "mq_subacks s mid = None \<Longrightarrow> t \<le> now \<Longrightarrow> suback_wait topic mid t ((now, ns) # ts) s =
     Some (s, Inl (Exn OSErr (PFStr [PStr ''mqtt subscribe '', PRepr (PStr topic), PStr '': no SUBACK within '',
       PNum (Fin (mq_timeout s)), PStr ''s''])))"
  "mq_subacks s mid = None \<Longrightarrow> now < t \<Longrightarrow>
     suback_wait topic mid t ((now, ns) # ts) s = suback_wait topic mid t ts (callbacks ns s)"
  by (subst suback_wait.simps; simp)+

lemma suback_wait_trace:
  "suback_wait topic mid t ts s = Some (s', r) \<Longrightarrow> \<exists>n. let s1 = callbacks (concat (map snd (take n ts))) s in
     (case r of
        Inr codes \<Rightarrow> mq_subacks s1 mid = Some codes \<and> s' = s1\<lparr>mq_subacks := (mq_subacks s1)(mid := None)\<rparr>
      | Inl e \<Rightarrow> s' = s1 \<and> eclass e = OSErr)"
proof (induction ts arbitrary: s)
  case Nil
  then show ?case by (cases "mq_subacks s mid") (auto simp: suback_wait_simps)
next
  case (Cons p ts)
  obtain now ns where p: "p = (now, ns)" by (cases p)
  show ?case
  proof (cases "mq_subacks s mid = None \<and> now < t")
    case True
    then have "suback_wait topic mid t ts (callbacks ns s) = Some (s', r)" using Cons.prems p by (simp add: suback_wait_simps)
    from Cons.IH [OF this] obtain n where n: "let s1 = callbacks (concat (map snd (take n ts))) (callbacks ns s) in
     (case r of
        Inr codes \<Rightarrow> mq_subacks s1 mid = Some codes \<and> s' = s1\<lparr>mq_subacks := (mq_subacks s1)(mid := None)\<rparr>
      | Inl e \<Rightarrow> s' = s1 \<and> eclass e = OSErr)" by blast
    show ?thesis by (rule exI [of _ "Suc n"]) (use n p in simp)
  next
    case False
    then show ?thesis using Cons.prems p
      by (intro exI [of _ 0]) (cases "mq_subacks s mid"; auto simp: suback_wait_simps not_less)
  qed
qed

lemma read_wait_simps:
  "mq_inbox s = m # rest \<Longrightarrow> read_wait timeout t ts s = Some (s\<lparr>mq_inbox := rest\<rparr>, Some m)"
  "mq_inbox s = [] \<Longrightarrow> read_wait timeout t [] s = None"
  "mq_inbox s = [] \<Longrightarrow> t \<le> now \<Longrightarrow> read_wait timeout t ((now, ns) # ts) s =
     Some (mq_logged ''mqtt_read_timeout'' [(''timeout'', PNum (Fin timeout))] s, None)"
  "mq_inbox s = [] \<Longrightarrow> now < t \<Longrightarrow> read_wait timeout t ((now, ns) # ts) s = read_wait timeout t ts (callbacks ns s)"
  by (subst read_wait.simps; simp)+

lemma read_wait_trace:
  "read_wait timeout t ts s = Some (s', r) \<Longrightarrow> \<exists>n. let s1 = callbacks (concat (map snd (take n ts))) s in
     (case r of
        Some m \<Rightarrow> \<exists>rest. mq_inbox s1 = m # rest \<and> s' = s1\<lparr>mq_inbox := rest\<rparr>
      | None \<Rightarrow> mq_inbox s1 = [] \<and> s' = mq_logged ''mqtt_read_timeout'' [(''timeout'', PNum (Fin timeout))] s1)"
proof (induction ts arbitrary: s)
  case Nil
  then show ?case by (cases "mq_inbox s") (auto simp: read_wait_simps)
next
  case (Cons p ts)
  obtain now ns where p: "p = (now, ns)" by (cases p)
  show ?case
  proof (cases "mq_inbox s = [] \<and> now < t")
    case True
    then have "read_wait timeout t ts (callbacks ns s) = Some (s', r)" using Cons.prems p by (simp add: read_wait_simps)
    from Cons.IH [OF this] obtain n where n: "let s1 = callbacks (concat (map snd (take n ts))) (callbacks ns s) in
     (case r of
        Some m \<Rightarrow> \<exists>rest. mq_inbox s1 = m # rest \<and> s' = s1\<lparr>mq_inbox := rest\<rparr>
      | None \<Rightarrow> mq_inbox s1 = [] \<and> s' = mq_logged ''mqtt_read_timeout'' [(''timeout'', PNum (Fin timeout))] s1)" by blast
    show ?thesis by (rule exI [of _ "Suc n"]) (use n p in simp)
  next
    case False
    then show ?thesis using Cons.prems p
      by (intro exI [of _ 0]) (cases "mq_inbox s"; auto simp: read_wait_simps not_less)
  qed
qed

lemma waits_end:
  assumes "\<exists>p \<in> set ts. t \<le> fst p"
  shows "suback_wait topic mid t ts s \<noteq> None" and "read_wait timeout t ts s \<noteq> None"
proof -
  show "suback_wait topic mid t ts s \<noteq> None" using assms
  proof (induction ts arbitrary: s)
    case (Cons p ts)
    then show ?case by (cases p; cases "mq_subacks s mid"; cases "fst p < t") (auto simp: suback_wait_simps not_less)
  qed simp
  show "read_wait timeout t ts s \<noteq> None" using assms
  proof (induction ts arbitrary: s)
    case (Cons p ts)
    then show ?case by (cases p; cases "mq_inbox s"; cases "fst p < t") (auto simp: read_wait_simps not_less)
  qed simp
qed

lemma subscribe_cases:
  assumes "mqtt_subscribe C topic qos start ts s = Some (s', r)"
  obtains (refused) s1 e where "mthen mq_require_client (on_paho (pc_subscribe C topic qos)) s = (s1, Inl e)" "r = Inl e"
      "s' = (if catches [OSErr, ValueErr, TransportClosedError] e
        then mq_logged ''mqtt_subscribe_failed'' [(''topic'', PStr topic), (''error'', exn_str e)] s1 else s1)"
    | (sent) s1 rc mid n e s2 where "mthen mq_require_client (on_paho (pc_subscribe C topic qos)) s = (s1, Inr (rc, mid))"
      "s2 = callbacks (concat (map snd (take n ts))) s1" "r = Inl e" "eclass e = OSErr"
      "\<exists>su. s' = mq_logged ''mqtt_subscribe_failed'' [(''topic'', PStr topic), (''error'', exn_str e)] (s2\<lparr>mq_subacks := su\<rparr>)"
    | (granted) s1 mid n codes s2 where "mthen mq_require_client (on_paho (pc_subscribe C topic qos)) s = (s1, Inr (0, mid))"
      "s2 = callbacks (concat (map snd (take n ts))) s1" "r = Inr ()" "mq_subacks s2 mid = Some codes" "\<not> list_ex fst codes"
      "s' = mq_logged ''mqtt_subscribe'' [(''topic'', PStr topic), (''qos'', PInt qos)] (s2\<lparr>mq_subacks := (mq_subacks s2)(mid := None)\<rparr>)"
proof -
  have c: "catches [OSErr, ValueErr, TransportClosedError] e" if "eclass e = OSErr" for e
    using that by (simp add: catches_def exn_is_def)
  obtain s1 q where q: "mthen mq_require_client (on_paho (pc_subscribe C topic qos)) s = (s1, q)" by (rule prod.exhaust)
  show ?thesis
  proof (cases q)
    case (Inl e)
    then show ?thesis using assms q refused [of s1 e] by (auto simp: mqtt_subscribe_def subscribe_body_def split: if_splits)
  next
    case (Inr p)
    obtain rc mid where p: "p = (rc, mid)" by (cases p)
    show ?thesis
    proof (cases "rc = 0")
      case False
      let ?e = "Exn OSErr (PFStr [PStr ''mqtt subscribe '', PRepr (PStr topic), PStr '': rc='', PInt rc])"
      have m: "mqtt_subscribe C topic qos start ts s =
          Some (mq_logged ''mqtt_subscribe_failed'' [(''topic'', PStr topic), (''error'', exn_str ?e)] s1, Inl ?e)"
        using False q Inr p c by (simp add: mqtt_subscribe_def subscribe_body_def)
      show ?thesis
        by (rule sent [of s1 rc mid s1 0 ?e]) (use m assms q Inr p in \<open>auto intro!: exI [of _ "mq_subacks s1"]\<close>)
    next
      case True
      from assms obtain s2 w where w: "suback_wait topic mid (start + mq_timeout s1) ts s1 = Some (s2, w)"
        using q Inr p True by (auto simp: mqtt_subscribe_def subscribe_body_def split: option.splits)
      from suback_wait_trace [OF w] obtain n where n: "let s1 = callbacks (concat (map snd (take n ts))) s1 in
         (case w of Inr codes \<Rightarrow> mq_subacks s1 mid = Some codes \<and> s2 = s1\<lparr>mq_subacks := (mq_subacks s1)(mid := None)\<rparr>
          | Inl e \<Rightarrow> s2 = s1 \<and> eclass e = OSErr)" by blast
      let ?s = "callbacks (concat (map snd (take n ts))) s1"
      show ?thesis
      proof (cases w)
        case (Inl e)
        show ?thesis
          by (rule sent [of s1 rc mid ?s n e])
             (use assms q Inr p True w n Inl c in \<open>auto simp: mqtt_subscribe_def subscribe_body_def Let_def intro!: exI [of _ "mq_subacks ?s"]\<close>)
      next
        case (Inr codes)
        let ?e = "Exn OSErr (PFStr [PStr ''mqtt subscribe '', PRepr (PStr topic), PStr '': broker refused ('',
                        PList (map (PStr \<circ> snd) codes), PStr '')''])"
        show ?thesis
        proof (cases "list_ex fst codes")
          case True
          have m: "mqtt_subscribe C topic qos start ts s = Some (mq_logged ''mqtt_subscribe_failed''
              [(''topic'', PStr topic), (''error'', exn_str ?e)] s2, Inl ?e)"
            using q \<open>q = Inr p\<close> p \<open>rc = 0\<close> w Inr True c by (simp add: mqtt_subscribe_def subscribe_body_def)
          show ?thesis
            by (rule sent [of s1 rc mid ?s n ?e]) (use m assms q \<open>q = Inr p\<close> p n Inr in \<open>auto simp: Let_def\<close>)
        next
          case False
          have m: "mqtt_subscribe C topic qos start ts s = Some (mq_logged ''mqtt_subscribe'' [(''topic'', PStr topic), (''qos'', PInt qos)] s2, Inr ())"
            using q \<open>q = Inr p\<close> p \<open>rc = 0\<close> w Inr False by (simp add: mqtt_subscribe_def subscribe_body_def)
          show ?thesis
            by (rule granted [of s1 mid ?s n codes]) (use m assms q \<open>q = Inr p\<close> p \<open>rc = 0\<close> n Inr False in \<open>auto simp: Let_def\<close>)
        qed
      qed
    qed
  qed
qed

lemma flow_sent: "moves flow (mthen mq_require_client (on_paho m))"
  unfolding mq_require_client_def by (intro op_flows)

lemma flow_then_subacks:
  assumes "flow s t" and "k \<noteq> ''mqtt_message''" shows "flow s (mq_logged k d (t\<lparr>mq_subacks := su\<rparr>))"
proof -
  have "flow t (mq_logged k d (t\<lparr>mq_subacks := su\<rparr>))" using assms(2) by (intro flow_same) auto
  then show ?thesis using assms(1) mqtt_flow.trans by blast
qed

lemma flow_subscribe: "mqtt_subscribe C topic qos start ts s = Some (s', r) \<Longrightarrow> flow s s'"
proof (erule subscribe_cases)
  fix s1 :: "'a mqtt" and e
  assume a: "mthen mq_require_client (on_paho (pc_subscribe C topic qos)) s = (s1, Inl e)"
    "s' = (if catches [OSErr, ValueErr, TransportClosedError] e
       then mq_logged ''mqtt_subscribe_failed'' [(''topic'', PStr topic), (''error'', exn_str e)] s1 else s1)"
  have m: "flow s s1" by (rule movesD [OF flow_sent a(1)])
  have "flow s1 (mq_logged ''mqtt_subscribe_failed'' d s1)" for d by (rule flow_logged) simp
  from mqtt_flow.trans [OF m this] show "flow s s'" unfolding a(2) using m by simp
next
  fix s1 s2 :: "'a mqtt" and q n e
  assume a: "mthen mq_require_client (on_paho (pc_subscribe C topic qos)) s = (s1, q)" "s2 = callbacks (concat (map snd (take n ts))) s1"
    "\<exists>su. s' = mq_logged ''mqtt_subscribe_failed'' [(''topic'', PStr topic), (''error'', exn_str e)] (s2\<lparr>mq_subacks := su\<rparr>)"
  have "flow s s2" unfolding a(2) by (rule mqtt_flow.trans [OF movesD [OF flow_sent a(1)] flow_callbacks])
  then show "flow s s'" using a(3) flow_then_subacks by fastforce
next
  fix s1 s2 :: "'a mqtt" and q mid n
  assume a: "mthen mq_require_client (on_paho (pc_subscribe C topic qos)) s = (s1, q)" "s2 = callbacks (concat (map snd (take n ts))) s1"
    "s' = mq_logged ''mqtt_subscribe'' [(''topic'', PStr topic), (''qos'', PInt qos)] (s2\<lparr>mq_subacks := (mq_subacks s2)(mid := None)\<rparr>)"
  have "flow s s2" unfolding a(2) by (rule mqtt_flow.trans [OF movesD [OF flow_sent a(1)] flow_callbacks])
  then show "flow s s'" unfolding a(3) by (rule flow_then_subacks) simp
qed

section \<open>A client's whole life\<close>

datatype mq_op =
    Run "net list"
  | OpenMqtt environ "net list" "net list"
  | CloseMqtt "net list"
  | Publish string string int bool "net list"
  | Subscribe string int rat "turn list"
  | ReadMessage rat rat "turn list"

text \<open>One operation, with the message it hands to the caller; \<open>None\<close> while it still waits.\<close>

fun mqtt_op :: "'m paho \<Rightarrow> mq_op \<Rightarrow> 'm mqtt \<Rightarrow> ('m mqtt \<times> message option) option" where
  "mqtt_op C (Run ns) s = Some (callbacks ns s, None)"
| "mqtt_op C (OpenMqtt env ns ns') s = Some (fst (mqtt_open env C ns ns' s), None)"
| "mqtt_op C (CloseMqtt ns) s = Some (fst (mqtt_close C ns s), None)"
| "mqtt_op C (Publish topic payload qos retain ns) s = Some (fst (mqtt_publish C topic payload qos retain ns s), None)"
| "mqtt_op C (Subscribe topic qos start ts) s = map_option (\<lambda>p. (fst p, None)) (mqtt_subscribe C topic qos start ts s)"
| "mqtt_op C (ReadMessage timeout start ts) s = read_message timeout start ts s"

fun mqtt_run :: "'m paho \<Rightarrow> mq_op list \<Rightarrow> 'm mqtt \<Rightarrow> ('m mqtt \<times> message list) option" where
  "mqtt_run C [] s = Some (s, [])"
| "mqtt_run C (op # ops) s =
     (case mqtt_op C op s of None \<Rightarrow> None
      | Some (s1, out) \<Rightarrow> map_option (\<lambda>(s2, outs). (s2, (case out of None \<Rightarrow> [] | Some m \<Rightarrow> [m]) @ outs)) (mqtt_run C ops s1))"

text \<open>Every operation is some deliveries to the deque and at most one removal.\<close>

definition queue_step :: "'m mqtt \<Rightarrow> message option \<Rightarrow> 'm mqtt \<Rightarrow> bool" where
  "queue_step s out s' \<longleftrightarrow> mq_maxlen s' = mq_maxlen s \<and> mq_hooked s' = mq_hooked s \<and>
     (\<exists>ms k. mq_inbox s' = drop k (foldl (deque_append (mq_maxlen s)) (mq_inbox s) ms) \<and>
        (case out of None \<Rightarrow> [] | Some m \<Rightarrow> [m]) = take k (foldl (deque_append (mq_maxlen s)) (mq_inbox s) ms) \<and>
        (mq_hooked s \<longrightarrow> messages_of (mq_log s') = messages_of (mq_log s) @ ms))"

lemma flow_queue_step: "flow s s' \<Longrightarrow> queue_step s None s'"
  unfolding flow_def queue_step_def by (elim conjE exE, intro conjI exI [where x = 0] exI) auto

lemma read_queue_step:
  assumes "read_message timeout start ts s = Some (s', out)" shows "queue_step s out s'"
proof -
  from read_wait_trace [OF assms [unfolded read_message_def]] obtain n where
    n: "let s1 = callbacks (concat (map snd (take n ts))) s in
     (case out of
        Some m \<Rightarrow> \<exists>rest. mq_inbox s1 = m # rest \<and> s' = s1\<lparr>mq_inbox := rest\<rparr>
      | None \<Rightarrow> mq_inbox s1 = [] \<and> s' = mq_logged ''mqtt_read_timeout'' [(''timeout'', PNum (Fin timeout))] s1)" by blast
  let ?s = "callbacks (concat (map snd (take n ts))) s"
  have f: "flow s ?s" by (rule flow_callbacks)
  show ?thesis
  proof (cases out)
    case None
    have "flow ?s s'" using n None flow_logged [of "''mqtt_read_timeout''" ?s] by (simp add: Let_def)
    from mqtt_flow.trans [OF f this] show ?thesis unfolding None by (rule flow_queue_step)
  next
    case (Some m)
    obtain rest where r: "mq_inbox ?s = m # rest" "s' = ?s\<lparr>mq_inbox := rest\<rparr>" using n Some by (auto simp: Let_def)
    obtain ms where ms: "foldl (deque_append (mq_maxlen s)) (mq_inbox s) ms = m # rest"
      "mq_hooked s \<longrightarrow> messages_of (mq_log ?s) = messages_of (mq_log s) @ ms"
      using f r(1) unfolding flow_def by auto
    show ?thesis unfolding queue_step_def
      by (intro conjI exI [of _ ms] exI [of _ "1 :: nat"]) (use r ms Some in auto)
  qed
qed

lemma op_queue: "mqtt_op C op s = Some (s', out) \<Longrightarrow> queue_step s out s'"
proof (cases op)
  case (Subscribe topic qos start ts)
  assume "mqtt_op C op s = Some (s', out)"
  then show ?thesis using Subscribe by (auto intro: flow_queue_step flow_subscribe)
next
  case (ReadMessage timeout start ts)
  assume "mqtt_op C op s = Some (s', out)"
  then show ?thesis using ReadMessage by (simp add: read_queue_step)
qed (auto intro!: flow_queue_step flow_callbacks flow_open [unfolded moves_def, rule_format] flow_close [unfolded moves_def, rule_format]
       flow_publish [unfolded moves_def, rule_format])

lemma run_queue:
  "mqtt_run C ops s = Some (s', outs) \<Longrightarrow>
     \<exists>rops os. run_rops deque_put deque_popleft snd rops (mq_maxlen s, mq_inbox s) = ((mq_maxlen s, mq_inbox s'), os) \<and>
       concat os = outs \<and> mq_maxlen s' = mq_maxlen s \<and> mq_hooked s' = mq_hooked s \<and>
       (mq_hooked s \<longrightarrow> messages_of (mq_log s') = messages_of (mq_log s) @ put_elems rops)"
proof (induction ops arbitrary: s outs)
  case Nil
  then show ?case by (auto simp: put_elems_def intro!: exI [of _ "[]"])
next
  case (Cons op ops)
  obtain s1 out outs1 where op: "mqtt_op C op s = Some (s1, out)" and run: "mqtt_run C ops s1 = Some (s', outs1)"
    and outs: "outs = (case out of None \<Rightarrow> [] | Some m \<Rightarrow> [m]) @ outs1"
    using Cons.prems by (auto split: option.splits)
  obtain ms k where q: "mq_maxlen s1 = mq_maxlen s" "mq_hooked s1 = mq_hooked s"
    "mq_inbox s1 = drop k (foldl (deque_append (mq_maxlen s)) (mq_inbox s) ms)"
    "(case out of None \<Rightarrow> [] | Some m \<Rightarrow> [m]) = take k (foldl (deque_append (mq_maxlen s)) (mq_inbox s) ms)"
    "mq_hooked s \<longrightarrow> messages_of (mq_log s1) = messages_of (mq_log s) @ ms"
    using op_queue [OF op] unfolding queue_step_def by auto
  obtain rops os where r: "run_rops deque_put deque_popleft snd rops (mq_maxlen s1, mq_inbox s1) = ((mq_maxlen s1, mq_inbox s'), os)"
    "concat os = outs1" "mq_maxlen s' = mq_maxlen s1" "mq_hooked s' = mq_hooked s1"
    "mq_hooked s1 \<longrightarrow> messages_of (mq_log s') = messages_of (mq_log s1) @ put_elems rops"
    using Cons.IH [OF run] by blast
  have d: "deque_popleft k (deque_put () ms (mq_maxlen s, mq_inbox s)) = (mq_maxlen s1, mq_inbox s1)"
    "snd (deque_put () ms (mq_maxlen s, mq_inbox s)) = foldl (deque_append (mq_maxlen s)) (mq_inbox s) ms"
    using q by (simp_all add: deque_put_def deque_popleft_def)
  show ?case
    by (intro exI [of _ "Put () ms # Take k # rops"] exI [of _ "[] # take k (foldl (deque_append (mq_maxlen s)) (mq_inbox s) ms) # os"])
       (use q r outs d in \<open>simp add: put_elems_def\<close>)
qed

section \<open>Properties\<close>

text \<open>
  No message is invented, duplicated or reordered: over any sequence of operations and
  callbacks, what the inbox held and what the journal shows as arrived is, in this order, handed
  out exactly once, still in the inbox, or pushed out by newer messages; the inbox never holds
  more than its \<open>queue_size\<close>.
\<close>

theorem mqtt_inbox_accounting:
  assumes "mq_hooked s" and "length (mq_inbox s) \<le> mq_maxlen s" and "mqtt_run C ops s = Some (s', outs)"
  shows "length (mq_inbox s') \<le> mq_maxlen s \<and>
    (\<exists>arrived gaps os. messages_of (mq_log s') = messages_of (mq_log s) @ arrived \<and> length gaps = length os \<and>
       concat os = outs \<and> mq_inbox s @ arrived = weave gaps os @ mq_inbox s')"
proof -
  obtain rops os where r: "run_rops deque_put deque_popleft snd rops (mq_maxlen s, mq_inbox s) = ((mq_maxlen s, mq_inbox s'), os)"
    "concat os = outs" "messages_of (mq_log s') = messages_of (mq_log s) @ put_elems rops"
    using run_queue [OF assms(3)] assms(1) by blast
  from inbox.accounting [OF _ r(1)] assms(2) r(2,3) show ?thesis by auto
qed

definition demo_paho :: "unit paho" where
  "demo_paho = \<lparr>pc_create = mret (), pc_connect = \<lambda>_ _ _. mret (), pc_loop_start = mret (), pc_disconnect = id, pc_loop_stop = id,
     pc_publish = \<lambda>t _ _ _. if t = [] then mraise (Exn ValueErr (PStr ''Invalid topic.'')) else mret (0, 1),
     pc_wait_published = \<lambda>_ _. mret (), pc_published = \<lambda>_. mret True, pc_subscribe = \<lambda>_ _. mret (0, 7)\<rparr>"

definition demo_mqtt :: "nat \<Rightarrow> unit mqtt" where
  "demo_mqtt n = \<lparr>mq_host = ''h'', mq_port = 1883, mq_timeout = 3, mq_keepalive = 60, mq_hooked = True, mq_client = True, mq_connected = True,
     mq_closing = False, mq_maxlen = n, mq_inbox = [], mq_subacks = (\<lambda>_. None), mq_dev = (), mq_log = []\<rparr>"

theorem mqtt_inbox_accounting_witness:
  "\<exists>s' arrived gaps os. mqtt_run demo_paho [Run [Incoming (''a'', [1]), Incoming (''a'', [2])], ReadMessage 1 0 []] (demo_mqtt 1) =
      Some (s', [(''a'', [2])]) \<and> length gaps = length os \<and> concat os = [(''a'', [2])] \<and>
      messages_of (mq_log s') = arrived \<and> arrived = weave gaps os @ mq_inbox s'"
proof -
  let ?s' = "(demo_mqtt 1)\<lparr>mq_log := [(''mqtt_message'', item_fields (''a'', [1])), (''mqtt_message'', item_fields (''a'', [2]))]\<rparr>"
  have run: "mqtt_run demo_paho [Run [Incoming (''a'', [1]), Incoming (''a'', [2])], ReadMessage 1 0 []] (demo_mqtt 1) =
      Some (?s', [(''a'', [2])])"
    by (simp add: demo_mqtt_def on_message_def deque_append_def mq_logged_def mq_emit_def mmod_def read_message_def read_wait.simps)
  have h: "mq_hooked (demo_mqtt 1)" "length (mq_inbox (demo_mqtt 1)) \<le> mq_maxlen (demo_mqtt 1)" "mq_inbox (demo_mqtt 1) = []" "mq_log (demo_mqtt 1) = []"
    by (simp_all add: demo_mqtt_def)
  from mqtt_inbox_accounting [OF h(1,2) run] run h(3,4) show ?thesis by auto
qed

text \<open>
  \<open>subscribe\<close> never reports a success the broker did not give: whatever runs on the
  network thread, a finished call leaves, after the events of that thread, exactly one event of
  its own; it succeeds only if a SUBACK for the message id of this very request arrived and
  none of its codes is a failure, and every \<open>OSError\<close>, \<open>ValueError\<close> or missing connection
  is journaled as \<open>mqtt_subscribe_failed\<close>.
\<close>

theorem mqtt_subscribe_confirmed:
  assumes "mq_hooked s" and "mqtt_subscribe C topic qos start ts s = Some (s', r)"
    and "\<forall>d e. snd (pc_subscribe C topic qos d) = Inl e \<longrightarrow> catches [OSErr, ValueErr, TransportClosedError] e"
  shows "\<exists>evs kind data. mq_log s' = mq_log s @ evs @ [(kind, data)] \<and> net_log evs \<and>
    (if r = Inr () then kind = ''mqtt_subscribe'' \<and> mq_client s \<and>
       (\<exists>mid n codes. snd (pc_subscribe C topic qos (mq_dev s)) = Inr (0, mid) \<and> \<not> list_ex fst codes \<and>
          mq_subacks (callbacks (concat (map snd (take n ts))) s) mid = Some codes)
     else kind = ''mqtt_subscribe_failed'')"
  using assms(2)
proof (cases rule: subscribe_cases)
  case (refused s1 e)
  have "catches [OSErr, ValueErr, TransportClosedError] (Exn TransportClosedError m)" for m by (simp add: catches_def exn_is_def)
  then have "catches [OSErr, ValueErr, TransportClosedError] e" "mq_log s1 = mq_log s" "mq_hooked s1"
    using refused(1) assms(1,3) by (auto simp: mq_require_client_def on_paho_def act_apply split: prod.splits if_splits)
       (metis snd_conv)+
  then show ?thesis using refused by (intro exI [of _ "[] :: event list"]) auto
next
  case (sent s1 rc mid n e s2)
  have s1: "mq_log s1 = mq_log s" "mq_hooked s1"
    using sent(1) assms(1) by (auto simp: mq_require_client_def on_paho_def act_apply split: prod.splits if_splits)
  obtain evs where "mq_log s2 = mq_log s1 @ evs" "net_log evs" using callbacks_log [of "concat (map snd (take n ts))" s1] sent(2) by blast
  then show ?thesis using sent s1 by (intro exI [of _ evs]) auto
next
  case (granted s1 mid n codes s2)
  have s1: "s1 = s\<lparr>mq_dev := mq_dev s1\<rparr>" "mq_log s1 = mq_log s" "mq_hooked s1" "mq_client s" "snd (pc_subscribe C topic qos (mq_dev s)) = Inr (0, mid)"
    using granted(1) assms(1) by (auto simp: mq_require_client_def on_paho_def act_apply split: prod.splits if_splits)
  obtain evs where evs: "mq_log s2 = mq_log s1 @ evs" "net_log evs" using callbacks_log [of "concat (map snd (take n ts))" s1] granted(2) by blast
  have "mq_subacks (callbacks ns (t\<lparr>mq_dev := d\<rparr>)) = mq_subacks (callbacks ns t)" for ns and t :: "'a mqtt" and d
  proof -
    have c: "callback x (t\<lparr>mq_dev := d\<rparr>) = (callback x t)\<lparr>mq_dev := d\<rparr>" for x and t :: "'a mqtt"
      by (cases x) (auto simp: callback_defs mq_logged_def mq_emit_def mmod_def)
    have "callbacks ns (t\<lparr>mq_dev := d\<rparr>) = (callbacks ns t)\<lparr>mq_dev := d\<rparr>" by (induction ns arbitrary: t) (simp_all add: c)
    then show ?thesis by simp
  qed
  then have "mq_subacks (callbacks (concat (map snd (take n ts))) s) mid = Some codes" using granted(2,4) s1(1) by metis
  then show ?thesis using granted s1 evs by (intro exI [of _ evs]) auto
qed

theorem mqtt_subscribe_confirmed_witness:
  "\<exists>s' e data evs. mqtt_subscribe demo_paho ''t'' 0 0 [(1, [Suback 7 [(True, ''Not authorized'')]])] (demo_mqtt 1) = Some (s', Inl e) \<and>
     mq_log s' = evs @ [(''mqtt_subscribe_failed'', data)]"
proof -
  let ?e = "Exn OSErr (PFStr [PStr ''mqtt subscribe '', PRepr (PStr ''t''), PStr '': broker refused ('', PList [PStr ''Not authorized''], PStr '')''])"
  have run: "mqtt_subscribe demo_paho ''t'' 0 0 [(1, [Suback 7 [(True, ''Not authorized'')]])] (demo_mqtt 1) =
      Some (mq_logged ''mqtt_subscribe_failed'' [(''topic'', PStr ''t''), (''error'', exn_str ?e)] (demo_mqtt 1), Inl ?e)"
    by (simp add: mqtt_subscribe_def subscribe_body_def mq_require_client_def on_paho_def act_apply demo_mqtt_def demo_paho_def
        suback_wait.simps on_subscribe_def catches_def exn_is_def fun_upd_idem)
  have h: "mq_hooked (demo_mqtt 1)" "mq_log (demo_mqtt 1) = []" by (simp_all add: demo_mqtt_def)
  have c: "\<forall>d e. snd (pc_subscribe demo_paho ''t'' 0 d) = Inl e \<longrightarrow> catches [OSErr, ValueErr, TransportClosedError] e"
    by (simp add: demo_paho_def act_apply)
  from mqtt_subscribe_confirmed [OF h(1) run c] run h show ?thesis by auto
qed

text \<open>
  Neither wait of the client lasts beyond its time-out: as soon as one turn reads a clock
  that has reached the deadline, \<open>subscribe\<close> and \<open>read_message\<close> have returned,
  whatever the network thread delivers.
\<close>

theorem mqtt_waits_return:
  assumes "\<exists>p \<in> set ts. start + mq_timeout s \<le> fst p" and "\<exists>p \<in> set ts. start + timeout \<le> fst p"
  shows "mqtt_subscribe C topic qos start ts s \<noteq> None \<and> read_message timeout start ts s \<noteq> None"
proof -
  have "subscribe_body C topic qos start ts s \<noteq> None"
  proof -
    obtain s1 q where q: "mthen mq_require_client (on_paho (pc_subscribe C topic qos)) s = (s1, q)" by (rule prod.exhaust)
    have t: "mq_timeout s1 = mq_timeout s" if "q = Inr p" for p
      using q that by (auto simp: mq_require_client_def on_paho_def act_apply split: prod.splits if_splits)
    have w: "suback_wait topic mid (start + mq_timeout s) ts s1 \<noteq> None" for mid by (rule waits_end(1) [OF assms(1)])
    show ?thesis
    proof (cases q)
      case (Inr p)
      have "suback_wait topic (snd p) (start + mq_timeout s1) ts s1 \<noteq> None" using w t [OF Inr] by simp
      then show ?thesis using q Inr by (cases p) (auto simp: subscribe_body_def split: option.split sum.split)
    qed (use q in \<open>simp add: subscribe_body_def\<close>)
  qed
  then show ?thesis using waits_end(2) [OF assms(2)] by (simp add: mqtt_subscribe_def read_message_def)
qed

theorem mqtt_waits_return_witness:
  "mqtt_subscribe demo_paho ''t'' 0 0 [(1, []), (5, [])] (demo_mqtt 1) \<noteq> None \<and> read_message 2 0 [(1, []), (5, [])] (demo_mqtt 1) \<noteq> None"
  by (rule mqtt_waits_return) (simp_all add: demo_mqtt_def)

lemma open_body_result:
  assumes "open_body C ns host port keepalive s = (s1, r)"
  shows "mq_hooked s1 = mq_hooked s" and "mq_closing s1 = mq_closing s"
    and "\<exists>evs. mq_log s1 = mq_log s @ evs \<and> net_log evs \<and> (evs = [] \<or> r = Inr () \<or> (\<exists>m. r = Inl (Exn ConnectionErr m)))"
    and "r = Inr () \<Longrightarrow> mq_client s1 \<and> (mq_connected s \<or> list_ex accepted ns)"
  using assms callbacks_log [of ns "s\<lparr>mq_client := True, mq_dev := mq_dev s1\<rparr>"]
  by (auto simp: open_body_def act_apply on_paho_def wait_connected_def split: prod.splits sum.splits if_splits)

text \<open>
  Opening is gated and leaves no half-open client: a host the allowlist refuses is never
  dialled; an opening that fails with an \<open>OSError\<close> or \<open>ValueError\<close> (no CONNACK in time
  included) ends with \<open>mqtt_open_failed\<close> and no client; success means that the broker
  accepted, or the event was already set, and ends with \<open>mqtt_open\<close>; any other exception, such
  as the \<open>ImportError\<close> of a missing paho, escapes without an event.
\<close>

theorem mqtt_open_outcome:
  assumes "mq_hooked s" and "policy_from_env env = Inr ap" and "open_body C ns (mq_host s) (mq_port s) (mq_keepalive s) s = (s1, r)"
  shows "case mqtt_open env C ns ns' s of (s', r') \<Rightarrow>
    if host_restricted (ap_hosts ap) \<and> \<not> host_allows (ap_hosts ap) (mq_host s) (mq_port s)
    then mq_dev s' = mq_dev s \<and> (\<exists>m. r' = Inl (Exn PolicyViolation m)) \<and> (\<exists>data. mq_log s' = mq_log s @ [(''policy_violation'', data)])
    else r' = r \<and>
      (case r of
         Inr _ \<Rightarrow> (mq_connected s \<or> list_ex accepted ns) \<and> mq_client s' \<and>
           (\<exists>evs data. mq_log s' = mq_log s @ evs @ [(''mqtt_open'', data)] \<and> net_log evs)
       | Inl e \<Rightarrow>
           (if catches [OSErr, ValueErr] e
            then \<not> mq_client s' \<and> (\<exists>evs data. mq_log s' = mq_log s @ evs @ [(''mqtt_open_failed'', data)] \<and> net_log evs)
            else mq_log s' = mq_log s))"
proof (cases "host_restricted (ap_hosts ap) \<and> \<not> host_allows (ap_hosts ap) (mq_host s) (mq_port s)")
  case True
  then show ?thesis
    using assms(1,2) by (simp add: mqtt_open_def gate_host_def check_host_def policy_deny_def act_apply)
next
  case False
  have gate: "gate_host env mq_emit (mq_host s) (mq_port s) s = (s, Inr ())"
    using False assms(2) by (auto simp: gate_host_def check_host_def act_apply)
  note b = open_body_result [OF assms(3)]
  have c: "catches [OSErr, ValueErr] (Exn ConnectionErr m)" for m by (simp add: catches_def exn_is_def)
  obtain evs where evs: "mq_log s1 = mq_log s @ evs" "net_log evs" "evs = [] \<or> r = Inr () \<or> (\<exists>m. r = Inl (Exn ConnectionErr m))"
    using b(3) by blast
  have td: "\<not> mq_client (teardown C ns' s1)" "mq_hooked (teardown C ns' s1) = mq_hooked s1"
    by (simp_all add: teardown_def Let_def)
  obtain evs' where evs': "mq_log (teardown C ns' s1) = mq_log s1 @ evs'" "net_log evs'"
    using callbacks_log [of ns' "s1\<lparr>mq_closing := True, mq_dev := pc_disconnect C (mq_dev s1)\<rparr>"]
    by (cases "mq_client s1") (auto simp: teardown_def Let_def)
  show ?thesis
  proof (cases r)
    case (Inr u)
    then show ?thesis using False gate assms(1,3) b evs by (auto simp: mqtt_open_def act_apply)
  next
    case (Inl e)
    show ?thesis
    proof (cases "catches [OSErr, ValueErr] e")
      case True
      then show ?thesis using False gate assms(1,3) b evs evs' td Inl
        by (auto simp: mqtt_open_def act_apply intro!: exI [of _ "evs @ evs'"])
    next
      case nc: False
      then have "evs = []" using evs(3) Inl c by auto
      then show ?thesis using False gate assms(1,3) b evs Inl nc by (auto simp: mqtt_open_def act_apply)
    qed
  qed
qed

theorem mqtt_open_outcome_witness:
  "snd (mqtt_open (\<lambda>_. None) demo_paho [Connack (True, ''Bad credentials'')] [] ((demo_mqtt 1)\<lparr>mq_connected := False\<rparr>)) \<noteq> Inr ()"
proof -
  have ap: "policy_from_env (\<lambda>_. None) = Inr \<lparr>ap_hosts = [], ap_kinds = ALL_KINDS\<rparr>" by code_simp
  let ?s = "(demo_mqtt 1)\<lparr>mq_connected := False\<rparr>"
  obtain s1 r where b: "open_body demo_paho [Connack (True, ''Bad credentials'')] (mq_host ?s) (mq_port ?s) (mq_keepalive ?s) ?s = (s1, r)"
    by (rule prod.exhaust)
  have r: "r \<noteq> Inr ()" using open_body_result(4) [OF b] by (auto simp: accepted_def)
  show ?thesis using mqtt_open_outcome [OF _ ap b, of "[]"] r
    by (simp add: host_restricted_def demo_mqtt_def split: prod.splits)
qed

text \<open>
  \<open>publish\<close> reports success only for a publication the client accepted with code 0 and
  then holds as acknowledged; otherwise it raises, and for the exceptions paho documents every
  call leaves exactly one event of its own, \<open>mqtt_publish\<close> or \<open>mqtt_publish_failed\<close>, after
  those of the network thread.
\<close>

theorem mqtt_publish_confirmed:
  assumes "mq_hooked s" and "mqtt_publish C topic payload qos retain ns s = (s', r)"
    and "\<forall>d e. snd (pc_publish C topic (encode_str payload) qos retain d) = Inl e \<longrightarrow> catches [OSErr, ValueErr] e"
    and "\<forall>mid t d e. snd (pc_wait_published C mid t d) = Inl e \<or> snd (pc_published C mid d) = Inl e \<longrightarrow> catches [OSErr, ValueErr] e"
  shows "\<exists>evs kind data. mq_log s' = mq_log s @ evs @ [(kind, data)] \<and> net_log evs \<and>
    (if r = Inr () then kind = ''mqtt_publish'' \<and> mq_client s \<and>
       (\<exists>mid d. snd (pc_publish C topic (encode_str payload) qos retain (mq_dev s)) = Inr (0, mid) \<and> snd (pc_published C mid d) = Inr True)
     else kind = ''mqtt_publish_failed'')"
proof -
  have up: "catches [OSErr, ValueErr] e \<Longrightarrow> catches [OSErr, ValueErr, TransportClosedError] e" for e by (auto simp: catches_def)
  have c: "catches [OSErr, ValueErr, TransportClosedError] (Exn OSErr m)" "catches [OSErr, ValueErr, TransportClosedError] (Exn TransportClosedError m)" for m
    by (simp_all add: catches_def exn_is_def)
  obtain d1 q1 where q1: "pc_publish C topic (encode_str payload) qos retain (mq_dev s) = (d1, q1)" by (rule prod.exhaust)
  let ?s1 = "s\<lparr>mq_dev := d1\<rparr>"
  obtain evs where evs: "mq_log (callbacks ns ?s1) = mq_log s @ evs" "net_log evs" using callbacks_log [of ns ?s1] by auto
  show ?thesis
  proof (cases "mq_client s")
    case False
    then show ?thesis using assms(1,2) c by (auto simp: mqtt_publish_def mq_require_client_def act_apply intro!: exI [of _ "[] :: event list"])
  next
    case True
    note client = this
    show ?thesis
    proof (cases q1)
      case (Inl e)
      then have "catches [OSErr, ValueErr, TransportClosedError] e" using assms(3) q1 up by (metis snd_conv)
      then show ?thesis using assms(1,2) client q1 Inl
        by (auto simp: mqtt_publish_def mq_require_client_def act_apply on_paho_def intro!: exI [of _ "[] :: event list"])
    next
      case (Inr p)
      obtain rc mid where p: "p = (rc, mid)" by (cases p)
      obtain d2 q2 where q2: "pc_wait_published C mid (mq_timeout s) d1 = (d2, q2)" by (rule prod.exhaust)
      obtain d3 q3 where q3: "pc_published C mid d2 = (d3, q3)" by (rule prod.exhaust)
      have k: "catches [OSErr, ValueErr, TransportClosedError] e" if "q2 = Inl e \<or> q3 = Inl e" for e
        using that assms(4) q2 q3 up by (metis snd_conv)
      show ?thesis
      proof (cases "rc = 0")
        case False
        then show ?thesis using assms(1,2) client q1 Inr p c
          by (auto simp: mqtt_publish_def mq_require_client_def act_apply on_paho_def intro!: exI [of _ "[] :: event list"])
      next
        case True
        show ?thesis
          using assms(1,2) client q1 Inr p c True q2 q3 k evs
          by (cases q2; cases q3) (auto simp: mqtt_publish_def mq_require_client_def act_apply on_paho_def split: if_splits intro!: exI [of _ evs] exI [of _ d2])
      qed
    qed
  qed
qed

theorem mqtt_publish_confirmed_witness:
  "\<exists>evs data. mq_log (fst (mqtt_publish demo_paho [] ''x'' 0 False [] (demo_mqtt 1))) = evs @ [(''mqtt_publish_failed'', data)]"
proof -
  have h: "mq_hooked (demo_mqtt 1)" "mq_log (demo_mqtt 1) = []" by (simp_all add: demo_mqtt_def)
  have e: "\<forall>d e. snd (pc_publish demo_paho [] (encode_str ''x'') 0 False d) = Inl e \<longrightarrow> catches [OSErr, ValueErr] e"
    "\<forall>mid t d e. snd (pc_wait_published demo_paho mid t d) = Inl e \<or> snd (pc_published demo_paho mid d) = Inl e \<longrightarrow> catches [OSErr, ValueErr] e"
    by (simp_all add: demo_paho_def act_apply catches_def exn_is_def)
  have n: "\<nexists>mid d. snd (pc_publish demo_paho [] (encode_str ''x'') 0 False d) = Inr (0, mid)"
    by (simp add: demo_paho_def act_apply)
  from mqtt_publish_confirmed [OF h(1) prod.collapse [symmetric] e, of "[]"] n h(2) show ?thesis by (auto split: if_splits)
qed

end
