(* ===== verification/EspFlash.thy ===== *)
theory EspFlash
  imports PyText Policy Serial
begin

text \<open>
  \<open>src/io_core/esp_flash.py\<close>: inspecting and flashing ESP32 images. The esptool package is a
  parameter: whether it is installed, its image parser and tables, and its actions on the board.
  A path is its \<open>str\<close>; which paths are files, and their sizes, is a parameter as well, and \<open>ef_win32\<close> says
  whether \<open>sys.platform\<close> is Windows.
\<close>

definition DEFAULT_BOOTLOADER_OFFSET :: int where
  "DEFAULT_BOOTLOADER_OFFSET = 0x1000"

definition ALLOW_REAL_FLASH_ENV :: string where
  "ALLOW_REAL_FLASH_ENV = ''IRONHARNESS_ALLOW_REAL_FLASH''"

section \<open>Text\<close>

text \<open>Python's \<open>f"{n:x}"\<close>, \<open>hex\<close> and \<open>str\<close> of an integer, and \<open>Path.name\<close>.\<close>

fun hex_nat :: "nat \<Rightarrow> string" where
  "hex_nat n = (if n < 16 then [hex_digit n] else hex_nat (n div 16) @ [hex_digit (n mod 16)])"

declare hex_nat.simps [simp del]

definition py_x :: "int \<Rightarrow> string" where
  "py_x n = (if n < 0 then ''-'' @ hex_nat (nat (- n)) else hex_nat (nat n))"

definition py_hex :: "int \<Rightarrow> string" where
  "py_hex n = (if n < 0 then ''-0x'' @ hex_nat (nat (- n)) else ''0x'' @ hex_nat (nat n))"

definition py_int_str :: "int \<Rightarrow> string" where
  "py_int_str n = (if n < 0 then ''-'' @ show_nat (nat (- n)) else show_nat (nat n))"

definition path_name :: "string \<Rightarrow> string" where
  "path_name path = last (split_on (CHR ''/'') path)"

section \<open>The package and the board\<close>

record image =
  im_segments :: "(int \<times> bytes) list"
  im_entrypoint :: int
  im_flash_mode :: int
  im_flash_size_freq :: int

record chip_tables =
  ct_sizes :: "(string \<times> int) list"
  ct_frequencies :: "(string \<times> int) list"

record 'm esptool =
  et_available :: bool
  et_load :: "string \<Rightarrow> string \<Rightarrow> exn + image"
  et_chips :: "string \<Rightarrow> chip_tables option"
  et_modes :: "(string \<times> int) list"
  et_connect :: "string \<Rightarrow> string \<Rightarrow> ('m, unit) act"
  et_run_stub :: "('m, unit) act"
  et_change_baud :: "int \<Rightarrow> ('m, unit) act"
  et_attach_flash :: "('m, unit) act"
  et_write_flash :: "int \<Rightarrow> string \<Rightarrow> ('m, unit) act"
  et_erase_flash :: "('m, unit) act"
  et_exit :: "'m \<Rightarrow> 'm"

text \<open>The files of the host: \<open>None\<close> is not a file, otherwise what \<open>stat\<close> answers.\<close>

type_synonym host_files = "string \<Rightarrow> (exn + int) option"

record 'm flasher =
  ef_win32 :: bool
  ef_chip :: string
  ef_hooked :: bool
  ef_dev :: 'm
  ef_log :: "event list"

definition ef_emit :: "string \<Rightarrow> fields \<Rightarrow> ('m flasher, unit) act" where
  "ef_emit event data = mmod (\<lambda>s. if ef_hooked s then s\<lparr>ef_log := ef_log s @ [(event, data)]\<rparr> else s)"

definition on_board :: "('m, 'a) act \<Rightarrow> ('m flasher, 'a) act" where
  "on_board m = (\<lambda>s. case m (ef_dev s) of (d, r) \<Rightarrow> (s\<lparr>ef_dev := d\<rparr>, r))"

definition require_esptool :: "'m esptool \<Rightarrow> ('s, unit) act" where
  "require_esptool C =
     (if et_available C then mret ()
      else mraise (Exn ImportErr (PStr ''esptool is not installed: flashing tools need the [flash] extra: pip install ironharness[flash]'')))"

definition reverse_lookup :: "(string \<times> int) list \<Rightarrow> int \<Rightarrow> string \<Rightarrow> string" where
  "reverse_lookup table value fallback =
     (case find (\<lambda>(name, v). v = value) table of Some (name, _) \<Rightarrow> name | None \<Rightarrow> fallback)"

section \<open>The gates\<close>

definition require_real_flash_allowed :: "environ \<Rightarrow> string \<Rightarrow> string \<Rightarrow> ('m flasher, unit) act" where
  "require_real_flash_allowed env op port =
     (if env ALLOW_REAL_FLASH_ENV \<noteq> Some ''1'' then
        let error = PFStr [PStr ALLOW_REAL_FLASH_ENV, PStr ''=1 is required for live flash/erase: these operations modify real hardware''] in
        mthen (ef_emit ''esp_denied'' [(''op'', PStr op), (''port'', PStr port), (''error'', error)]) (mraise (Exn PermissionErr error))
      else mret ())"

definition require_local_port :: "string \<Rightarrow> string \<Rightarrow> ('m flasher, unit) act" where
  "require_local_port op port = mbind (mget ef_win32) (\<lambda>win32.
     if \<not> port_allowed win32 port then
       let error = PFStr [PStr ''only local ports (COM*, /dev/*, loop://, pty://) can be flashed: '', PRepr (PStr port), PStr '' is a non-local serial URL''] in
       mthen (ef_emit ''esp_denied'' [(''op'', PStr op), (''port'', PStr port), (''error'', error)]) (mraise (Exn ValueErr error))
     else mret ())"

section \<open>Operations\<close>

definition describe :: "'m esptool \<Rightarrow> host_files \<Rightarrow> string \<Rightarrow> string \<Rightarrow> exn + fields" where
  "describe C files chip path =
     (case et_load C chip path of
        Inl e \<Rightarrow> Inl e
      | Inr img \<Rightarrow>
          let size_nibble = drop_bit 4 (im_flash_size_freq img) AND 0xF;
              freq_nibble = im_flash_size_freq img AND 0xF
          in (case et_chips C chip of
                None \<Rightarrow> Inl (Exn KeyErr (PStr chip))
              | Some target \<Rightarrow>
                  (case files path of
                     None \<Rightarrow> Inl (Exn FileNotFoundErr (PStr path))
                   | Some (Inl e) \<Rightarrow> Inl e
                   | Some (Inr size') \<Rightarrow> Inr
                       [(''chip'', PStr chip), (''path'', PStr path), (''size'', PInt size'), (''entrypoint'', PStr (py_hex (im_entrypoint img))),
                        (''segments'', PList (map (\<lambda>(addr, data). PDict [(''addr'', PStr (py_hex addr)), (''size'', PInt (int (length data)))]) (im_segments img))),
                        (''flash_mode'', PStr (reverse_lookup (et_modes C) (im_flash_mode img) (py_int_str (im_flash_mode img)))),
                        (''flash_size'', PStr (reverse_lookup (map (\<lambda>(name, v). (name, drop_bit 4 v AND 0xF)) (ct_sizes target)) size_nibble (py_hex size_nibble))),
                        (''flash_freq'', PStr (reverse_lookup (ct_frequencies target) freq_nibble (py_hex freq_nibble)))])))"

definition image_info :: "'m esptool \<Rightarrow> host_files \<Rightarrow> string \<Rightarrow> ('m flasher, fields) act" where
  "image_info C files path =
     (if files path = None then
        let error = PFStr [PStr ''image not found: '', PStr path] in
        mthen (ef_emit ''esp_image_info_failed'' [(''path'', PStr path), (''error'', error)]) (mraise (Exn FileNotFoundErr error))
      else
        mbind (mcatch (\<lambda>_. True) (mthen (require_esptool C) (mbind (mget ef_chip) (\<lambda>chip. mlift (describe C files chip path))))
            (\<lambda>e. mthen (ef_emit ''esp_image_info_failed'' [(''path'', PStr path), (''error'', exn_str e)]) (mraise e)))
          (\<lambda>info. mthen (ef_emit ''esp_image_info'' info) (mret info)))"

text \<open>\<open>with connect_esp(...) as esp:\<close> and the steps before the operation proper.\<close>

definition with_esp :: "'m esptool \<Rightarrow> string \<Rightarrow> string \<Rightarrow> int \<Rightarrow> ('m, unit) act \<Rightarrow> ('m, unit) act" where
  "with_esp C port chip baud operation =
     mthen (et_connect C port chip)
       (mfinally (mthen (et_run_stub C) (mthen (et_change_baud C baud) (mthen (et_attach_flash C) operation))) (et_exit C))"

text \<open>The body of the \<open>try\<close> of both live operations.\<close>

definition try_body :: "'m esptool \<Rightarrow> string \<Rightarrow> int \<Rightarrow> ('m, unit) act \<Rightarrow> ('m flasher, unit) act" where
  "try_body C port baud operation =
     mthen (require_esptool C) (mbind (mget ef_chip) (\<lambda>chip. on_board (with_esp C port chip baud operation)))"

definition flash :: "environ \<Rightarrow> 'm esptool \<Rightarrow> host_files \<Rightarrow> string \<Rightarrow> string \<Rightarrow> int \<Rightarrow> int \<Rightarrow> ('m flasher, string) act" where
  "flash env C files port path addr baud =
     mthen (require_real_flash_allowed env ''flash'' port)
       (mthen (require_local_port ''flash'' port)
         (let info = [(''port'', PStr port), (''addr'', PInt addr), (''baud'', PInt baud), (''path'', PStr path)] in
          if files path = None then
            let error = PFStr [PStr ''image not found: '', PStr path] in
            mthen (ef_emit ''esp_flash_failed'' (info @ [(''error'', error)])) (mraise (Exn FileNotFoundErr error))
          else
            mthen (mcatch (\<lambda>_. True)
                (try_body C port baud (et_write_flash C addr path))
                (\<lambda>e. if exn_is (eclass e) ImportErr
                   then mthen (ef_emit ''esp_flash_failed'' (info @ [(''error'', PStr ''esptool is not installed ([flash] extra)'')])) (mraise e)
                   else mthen (ef_emit ''esp_flash_failed'' (info @ [(''error'', exn_str e)]))
                     (mraise (Exn ConnectionErr (PFStr [PStr ''esp '', PStr port, PStr '': failed to flash ('', exn_str e, PStr '')''])))))
              (mthen (ef_emit ''esp_flash'' info)
                (mret (''ok: '' @ path_name path @ '' flashed at 0x'' @ py_x addr @ '' ('' @ port @ '')'')))))"

definition erase :: "environ \<Rightarrow> 'm esptool \<Rightarrow> string \<Rightarrow> int \<Rightarrow> ('m flasher, string) act" where
  "erase env C port baud =
     mthen (require_real_flash_allowed env ''erase'' port)
       (mthen (require_local_port ''erase'' port)
         (let info = [(''port'', PStr port), (''baud'', PInt baud)] in
          mthen (mcatch (\<lambda>_. True)
              (try_body C port baud (et_erase_flash C))
              (\<lambda>e. if exn_is (eclass e) ImportErr
                 then mthen (ef_emit ''esp_erase_failed'' (info @ [(''error'', PStr ''esptool is not installed ([flash] extra)'')])) (mraise e)
                 else mthen (ef_emit ''esp_erase_failed'' (info @ [(''error'', exn_str e)]))
                   (mraise (Exn ConnectionErr (PFStr [PStr ''esp '', PStr port, PStr '': failed to erase ('', exn_str e, PStr '')''])))))
            (mthen (ef_emit ''esp_erase'' info) (mret (''ok: flash erased ('' @ port @ '')'')))))"

section \<open>Facts\<close>

definition ef_logged :: "string \<Rightarrow> fields \<Rightarrow> 'm flasher \<Rightarrow> 'm flasher" where
  "ef_logged e d s = (if ef_hooked s then s\<lparr>ef_log := ef_log s @ [(e, d)]\<rparr> else s)"

lemma ef_emit_apply [simp]: "ef_emit e d s = (ef_logged e d s, Inr ())"
  by (simp add: ef_emit_def ef_logged_def mmod_def)

lemma ef_logged_fields [simp]:
  "ef_dev (ef_logged e d s) = ef_dev s" "ef_log (ef_logged e d s) = ef_log s @ (if ef_hooked s then [(e, d)] else [])"
  by (simp_all add: ef_logged_def)

text \<open>What the hardware part of a live operation does and answers, esptool missing included.\<close>

definition live :: "'m esptool \<Rightarrow> string \<Rightarrow> string \<Rightarrow> int \<Rightarrow> ('m, unit) act \<Rightarrow> 'm \<Rightarrow> 'm \<times> (exn + unit)" where
  "live C port chip baud operation d =
     (if et_available C then with_esp C port chip baud operation d else (d, snd (require_esptool C d)))"

lemma live_apply: "try_body C port baud operation s =
    (case live C port (ef_chip s) baud operation (ef_dev s) of (d, r) \<Rightarrow> (s\<lparr>ef_dev := d\<rparr>, r))"
  by (auto simp: try_body_def live_def require_esptool_def on_board_def act_apply split: prod.splits)

section \<open>Properties\<close>

text \<open>
  C16. The safety gates of the live operations come first and hold whatever else is wrong: without
  the opt-in variable set to exactly \<open>1\<close>, and then for a port that is not local, neither
  \<open>flash\<close> nor \<open>erase\<close> touches the board or the package; the refusal is exactly one
  \<open>esp_denied\<close> event and a \<open>PermissionError\<close>, respectively a \<open>ValueError\<close>.
\<close>

theorem esp_gates_first:
  assumes "ef_hooked s"
    and "(run, op) = (fst (flash env C files port path addr baud s), ''flash'') \<or> (run, op) = (fst (erase env C port baud s), ''erase'')"
    and "env ALLOW_REAL_FLASH_ENV \<noteq> Some ''1'' \<or> \<not> port_allowed (ef_win32 s) port"
  shows "\<exists>error. run = s\<lparr>ef_log := ef_log s @ [(''esp_denied'', [(''op'', PStr op), (''port'', PStr port), (''error'', error)])]\<rparr> \<and>
    snd (flash env C files port path addr baud s) = Inl (Exn (if env ALLOW_REAL_FLASH_ENV \<noteq> Some ''1'' then PermissionErr else ValueErr) error) \<and>
    snd (erase env C port baud s) = Inl (Exn (if env ALLOW_REAL_FLASH_ENV \<noteq> Some ''1'' then PermissionErr else ValueErr) error)"
  using assms
  by (auto simp: flash_def erase_def require_real_flash_allowed_def require_local_port_def act_apply Let_def ef_logged_def)

definition demo_board :: "string list esptool" where
  "demo_board = \<lparr>et_available = True,
     et_load = \<lambda>_ _. Inr \<lparr>im_segments = [(0x3f400020, [1, 2, 3])], im_entrypoint = 0x40081000, im_flash_mode = 2, im_flash_size_freq = 0x2f\<rparr>,
     et_chips = \<lambda>c. if c = ''esp32'' then Some \<lparr>ct_sizes = [(''1MB'', 0x00), (''4MB'', 0x20)], ct_frequencies = [(''40m'', 0), (''80m'', 0xf)]\<rparr> else None,
     et_modes = [(''qio'', 0), (''dio'', 2)],
     et_connect = \<lambda>_ _. mmod (\<lambda>d. d @ [''connect'']), et_run_stub = mret (), et_change_baud = \<lambda>_. mret (), et_attach_flash = mret (),
     et_write_flash = \<lambda>_ _. mraise (Exn OtherErr (PStr ''verify failed'')), et_erase_flash = mmod (\<lambda>d. d @ [''erase'']), et_exit = \<lambda>d. d @ [''exit'']\<rparr>"

definition demo_flasher :: "string list flasher" where
  "demo_flasher = \<lparr>ef_win32 = False, ef_chip = ''esp32'', ef_hooked = True, ef_dev = [], ef_log = []\<rparr>"

theorem esp_gates_first_witness:
  "\<exists>error. snd (flash (\<lambda>_. None) demo_board (\<lambda>_. None) ''socket://x'' ''fw.bin'' 0 9600 demo_flasher) = Inl (Exn PermissionErr error) \<and>
     ef_dev (fst (flash (\<lambda>_. None) demo_board (\<lambda>_. None) ''socket://x'' ''fw.bin'' 0 9600 demo_flasher)) = []"
proof -
  have "ef_hooked demo_flasher" "ef_dev demo_flasher = []" by (simp_all add: demo_flasher_def)
  with esp_gates_first [of demo_flasher "fst (flash (\<lambda>_. None) demo_board (\<lambda>_. None) ''socket://x'' ''fw.bin'' 0 9600 demo_flasher)" "''flash''"
      "\<lambda>_. None" demo_board "\<lambda>_. None" "''socket://x''" "''fw.bin''" 0 9600]
  show ?thesis by (auto simp: flasher.surjective)
qed

text \<open>
  Past the gates, flashing leaves exactly one event and reports success exactly when the
  image exists, esptool is there and every step on the board succeeded; the board state is the one
  those steps leave, and once the connection was made the port is released last, also when a step
  failed. Every failure is an \<open>esp_flash_failed\<close> event and a \<open>FileNotFoundError\<close>, an
  \<open>ImportError\<close>, or a \<open>ConnectionError\<close>.
\<close>

theorem esp_flash_outcome:
  assumes "ef_hooked s" and "env ALLOW_REAL_FLASH_ENV = Some ''1''" and "port_allowed (ef_win32 s) port"
    and "live C port (ef_chip s) baud (et_write_flash C addr path) (ef_dev s) = (d, q)"
  shows "case flash env C files port path addr baud s of (s', r) \<Rightarrow>
    \<exists>kind data. ef_log s' = ef_log s @ [(kind, data)] \<and>
      (if files path = None then ef_dev s' = ef_dev s \<and> kind = ''esp_flash_failed'' \<and> (\<exists>m. r = Inl (Exn FileNotFoundErr m))
       else ef_dev s' = d \<and>
         (if q = Inr () then kind = ''esp_flash'' \<and> (\<exists>m. r = Inr m)
          else kind = ''esp_flash_failed'' \<and> (\<exists>e. r = Inl e \<and> eclass e \<in> {ImportErr, ConnectionErr})) \<and>
         (et_available C \<and> snd (et_connect C port (ef_chip s) (ef_dev s)) = Inr () \<longrightarrow> (\<exists>d'. d = et_exit C d')))"
proof -
  have imp: "exn_is c ImportErr \<Longrightarrow> c = ImportErr" for c by (cases c) (simp_all add: exn_is_def)
  have rel: "et_available C \<Longrightarrow> snd (et_connect C port (ef_chip s) (ef_dev s)) = Inr () \<Longrightarrow> \<exists>d'. d = et_exit C d'"
    using assms(4) by (auto simp: live_def with_esp_def act_apply split: prod.splits sum.splits)
  show ?thesis
  proof (cases "files path = None")
    case True
    then show ?thesis using assms(1-3)
      by (simp add: flash_def require_real_flash_allowed_def require_local_port_def act_apply Let_def)
  next
    case False
    then show ?thesis using assms rel imp
      by (cases q) (auto simp: flash_def require_real_flash_allowed_def require_local_port_def act_apply Let_def live_apply)
  qed
qed

theorem esp_flash_outcome_witness:
  "\<exists>e data. snd (flash [ALLOW_REAL_FLASH_ENV \<mapsto> ''1''] demo_board (\<lambda>_. Some (Inr 3)) ''/dev/ttyUSB0'' ''fw.bin'' 0 9600 demo_flasher) = Inl e \<and>
     ef_log (fst (flash [ALLOW_REAL_FLASH_ENV \<mapsto> ''1''] demo_board (\<lambda>_. Some (Inr 3)) ''/dev/ttyUSB0'' ''fw.bin'' 0 9600 demo_flasher)) = [(''esp_flash_failed'', data)] \<and>
     ef_dev (fst (flash [ALLOW_REAL_FLASH_ENV \<mapsto> ''1''] demo_board (\<lambda>_. Some (Inr 3)) ''/dev/ttyUSB0'' ''fw.bin'' 0 9600 demo_flasher)) = [''connect'', ''exit'']"
proof -
  have p: "port_allowed (ef_win32 demo_flasher) ''/dev/ttyUSB0''" by code_simp
  have l: "live demo_board ''/dev/ttyUSB0'' (ef_chip demo_flasher) 9600 (et_write_flash demo_board 0 ''fw.bin'') (ef_dev demo_flasher) =
      ([''connect'', ''exit''], Inl (Exn OtherErr (PStr ''verify failed'')))"
    by (simp add: live_def with_esp_def demo_board_def demo_flasher_def act_apply)
  have h: "ef_hooked demo_flasher" "ef_log demo_flasher = []" by (simp_all add: demo_flasher_def)
  have e: "[ALLOW_REAL_FLASH_ENV \<mapsto> ''1''] ALLOW_REAL_FLASH_ENV = Some ''1''" by simp
  from esp_flash_outcome [of demo_flasher "[ALLOW_REAL_FLASH_ENV \<mapsto> ''1'']" "''/dev/ttyUSB0''" demo_board 9600 0 "''fw.bin''", OF h(1) e p l,
      of "\<lambda>_. Some (Inr 3)"] h(2) show ?thesis by (auto split: prod.splits)
qed

end
