(* ===== verification/MpRepl.thy ===== *)
theory MpRepl
  imports PyText
begin

text \<open>
  \<open>src/io_core/mprepl.py\<close>: file transfer over the raw REPL of MicroPython. The transport, the
  board behind it and the clock are a parameter: actions on a device state. The loops of the
  driver have no bound of their own, so a program returns an option, and \<open>None\<close> is a loop that
  never ends. Text is UTF-8 bytes; white space is ASCII; \<open>repr\<close> leaves non-ASCII characters.
\<close>

section \<open>Programs that may not return\<close>

type_synonym ('s, 'a) prog = "'s \<Rightarrow> ('s \<times> (exn + 'a)) option"

definition pret :: "'a \<Rightarrow> ('s, 'a) prog" where
  "pret x s = Some (s, Inr x)"

definition praise :: "exn \<Rightarrow> ('s, 'a) prog" where
  "praise e s = Some (s, Inl e)"

definition pact :: "('s, 'a) act \<Rightarrow> ('s, 'a) prog" where
  "pact m s = Some (m s)"

definition pbind :: "('s, 'a) prog \<Rightarrow> ('a \<Rightarrow> ('s, 'b) prog) \<Rightarrow> ('s, 'b) prog" where
  "pbind m f s = Option.bind (m s) (\<lambda>(s', r). case r of Inl e \<Rightarrow> Some (s', Inl e) | Inr x \<Rightarrow> f x s')"

text \<open>\<open>try: m except p: h\<close>; a clean-up is a handler that raises again.\<close>

definition pcatch :: "(exn \<Rightarrow> bool) \<Rightarrow> ('s, 'a) prog \<Rightarrow> (exn \<Rightarrow> ('s, 'a) prog) \<Rightarrow> ('s, 'a) prog" where
  "pcatch p m h s = Option.bind (m s) (\<lambda>(s', r). case r of Inl e \<Rightarrow> if p e then h e s' else Some (s', Inl e) | Inr x \<Rightarrow> Some (s', Inr x))"

abbreviation pthen :: "('s, unit) prog \<Rightarrow> ('s, 'a) prog \<Rightarrow> ('s, 'a) prog" where
  "pthen m k \<equiv> pbind m (\<lambda>_. k)"

text \<open>\<open>except BaseException: c; raise\<close>.\<close>

definition on_failure :: "('s, unit) prog \<Rightarrow> ('s, 'a) prog \<Rightarrow> ('s, 'a) prog" where
  "on_failure c m = pcatch (\<lambda>_. True) m (\<lambda>e. pthen c (praise e))"

text \<open>\<open>with contextlib.suppress(Exception)\<close>.\<close>

definition suppress :: "('s, 'a) prog \<Rightarrow> ('s, unit) prog" where
  "suppress m = pcatch (\<lambda>_. True) (pbind m (\<lambda>_. pret ())) (\<lambda>_. pret ())"

section \<open>Constants and text\<close>

definition CTRL_A :: bytes where "CTRL_A = [1]"
definition CTRL_B :: bytes where "CTRL_B = [2]"
definition CTRL_C :: bytes where "CTRL_C = [3]"
definition CTRL_D :: bytes where "CTRL_D = [4]"
definition PROMPT :: bytes where "PROMPT = encode_str ''>''"

definition MAX_STREAM_BUF :: nat where "MAX_STREAM_BUF = 256 * 1024"
definition DEFAULT_CHUNK :: int where "DEFAULT_CHUNK = 256"
definition EXEC_TIMEOUT_SEC :: rat where "EXEC_TIMEOUT_SEC = 10"
definition ENTER_TIMEOUT_SEC :: rat where "ENTER_TIMEOUT_SEC = 20"
definition ENTER_ATTEMPT_SEC :: rat where "ENTER_ATTEMPT_SEC = 5"

text \<open>\<open>repr\<close> of a string.\<close>

definition quote_char :: char where "quote_char = CHR 0x27"

definition repr_char :: "char \<Rightarrow> char \<Rightarrow> string" where
  "repr_char q c =
     (let n = of_char c :: nat in
      if c = q \<or> n = 0x5C then [CHR 0x5C, c]
      else if n = 10 then [CHR 0x5C, CHR ''n'']
      else if n = 13 then [CHR 0x5C, CHR ''r'']
      else if n = 9 then [CHR 0x5C, CHR ''t'']
      else if n < 32 \<or> n = 127 then [CHR 0x5C, CHR ''x'', hex_digit (n div 16), hex_digit (n mod 16)]
      else [c])"

definition py_repr :: "string \<Rightarrow> string" where
  "py_repr s =
     (let q = (if quote_char \<in> set s \<and> CHR 0x22 \<notin> set s then CHR 0x22 else quote_char)
      in [q] @ concat (map (repr_char q) s) @ [q])"

section \<open>The board and the stream\<close>

record 'd board =
  bd_read :: "nat \<Rightarrow> ('d, bytes) act"
  bd_write :: "bytes \<Rightarrow> ('d, unit) act"
  bd_clock :: "'d \<Rightarrow> 'd \<times> rat"
  bd_sleep :: "rat \<Rightarrow> 'd \<Rightarrow> 'd"

text \<open>The state of \<open>_Stream\<close>: its buffer, and the device.\<close>

record 'd mp =
  mp_buf :: bytes
  mp_dev :: 'd

definition on_dev :: "('d, 'a) act \<Rightarrow> ('d mp, 'a) prog" where
  "on_dev m s = (case m (mp_dev s) of (d, r) \<Rightarrow> Some (s\<lparr>mp_dev := d\<rparr>, r))"

definition monotonic :: "'d board \<Rightarrow> ('d mp, rat) prog" where
  "monotonic B s = (case bd_clock B (mp_dev s) of (d, now) \<Rightarrow> Some (s\<lparr>mp_dev := d\<rparr>, Inr now))"

definition sleep :: "'d board \<Rightarrow> rat \<Rightarrow> ('d mp, unit) prog" where
  "sleep B t s = Some (s\<lparr>mp_dev := bd_sleep B t (mp_dev s)\<rparr>, Inr ())"

definition no_answer :: exn where
  "no_answer = Exn TimeoutErr (PFStr [PStr ''board did not answer within '', PNum (Fin EXEC_TIMEOUT_SEC), PStr ''s (raw REPL)''])"

definition too_long :: exn where
  "too_long = Exn TransportIoError (PFStr [PStr ''raw REPL response exceeded '', PInt (int MAX_STREAM_BUF), PStr '' bytes without the expected terminator''])"

text \<open>The body of the loop of \<open>until\<close> and \<open>_fill\<close>: deadline, read, \<open>_check_buf\<close>.\<close>

definition check_buf :: "('d mp, unit) prog" where
  "check_buf s = (if length (mp_buf s) > MAX_STREAM_BUF then Some (s, Inl too_long) else Some (s, Inr ()))"

definition read_more :: "'d board \<Rightarrow> rat \<Rightarrow> ('d mp, unit) prog" where
  "read_more B deadline =
     pbind (monotonic B) (\<lambda>now.
       if deadline \<le> now then praise no_answer
       else pbind (on_dev (bd_read B 256)) (\<lambda>chunk.
         pthen (\<lambda>s. Some (s\<lparr>mp_buf := mp_buf s @ chunk\<rparr>, Inr ())) check_buf))"

partial_function (option) fill :: "'d board \<Rightarrow> rat \<Rightarrow> 'd mp \<Rightarrow> ('d mp \<times> (exn + unit)) option" where
  "fill B deadline s =
     (if mp_buf s \<noteq> [] then Some (s, Inr ())
      else Option.bind (read_more B deadline s) (\<lambda>(s', r). case r of Inl e \<Rightarrow> Some (s', Inl e) | Inr _ \<Rightarrow> fill B deadline s'))"

partial_function (option) until :: "'d board \<Rightarrow> bytes \<Rightarrow> rat \<Rightarrow> 'd mp \<Rightarrow> ('d mp \<times> (exn + bytes)) option" where
  "until B terminator deadline s =
     (case find_at terminator (mp_buf s) of
        Some idx \<Rightarrow> Some (s\<lparr>mp_buf := drop (idx + length terminator) (mp_buf s)\<rparr>, Inr (take idx (mp_buf s)))
      | None \<Rightarrow> Option.bind (read_more B deadline s)
          (\<lambda>(s', r). case r of Inl e \<Rightarrow> Some (s', Inl e) | Inr _ \<Rightarrow> until B terminator deadline s'))"

section \<open>The driver\<close>

text \<open>One attempt of \<open>enter\<close>, and the loop around it.\<close>

definition dance :: "'d board \<Rightarrow> ('d mp, unit) prog" where
  "dance B =
     pbind (monotonic B) (\<lambda>now.
       pthen (on_dev (bd_write B CTRL_B))
         (pthen (sleep B (1 / 10))
           (pthen (on_dev (bd_write B (CTRL_C @ CTRL_C)))
             (pthen (sleep B (3 / 10))
               (pthen (on_dev (bd_write B CTRL_A))
                 (pbind (until B (encode_str ''raw REPL'') (now + ENTER_ATTEMPT_SEC)) (\<lambda>_.
                   pbind (until B PROMPT (now + ENTER_ATTEMPT_SEC)) (\<lambda>_. pret ()))))))))"

partial_function (option) enter_loop :: "'d board \<Rightarrow> rat \<Rightarrow> 'd mp \<Rightarrow> ('d mp \<times> (exn + unit)) option" where
  "enter_loop B deadline s =
     Option.bind (dance B s) (\<lambda>(s1, r).
       case r of
         Inr _ \<Rightarrow> Some (s1, Inr ())
       | Inl e \<Rightarrow>
           if \<not> exn_is (eclass e) TimeoutErr then Some (s1, Inl e)
           else Option.bind (monotonic B s1) (\<lambda>(s2, n).
             case n of
               Inl e' \<Rightarrow> Some (s2, Inl e')
             | Inr now \<Rightarrow>
                 if deadline \<le> now then Some (s2, Inl e)
                 else Option.bind (sleep B 1 s2) (\<lambda>(s3, _). enter_loop B deadline s3)))"

definition enter :: "'d board \<Rightarrow> ('d mp, unit) prog" where
  "enter B = pbind (monotonic B) (\<lambda>now. enter_loop B (now + ENTER_TIMEOUT_SEC))"

definition exit_repl :: "'d board \<Rightarrow> ('d mp, unit) prog" where
  "exit_repl B = suppress (on_dev (bd_write B CTRL_B))"

definition exec_cmd :: "'d board \<Rightarrow> string \<Rightarrow> ('d mp, bytes) prog" where
  "exec_cmd B command =
     pbind (monotonic B) (\<lambda>now. let deadline = now + EXEC_TIMEOUT_SEC in
       pthen (on_dev (bd_write B (encode_str command @ CTRL_D)))
         (pbind (until B CTRL_D deadline) (\<lambda>out.
           pbind (until B CTRL_D deadline) (\<lambda>err.
             pbind (until B PROMPT deadline) (\<lambda>_.
               let out' = (if prefix (encode_str ''OK'') out then drop 2 out else out);
                   error = strip (decode_str err)
               in if error \<noteq> [] then praise (Exn MpReplError (PUtf8 (encode_str error))) else pret out')))))"

definition best_effort_close :: "'d board \<Rightarrow> ('d mp, unit) prog" where
  "best_effort_close B = suppress (exec_cmd B ''f.close()'')"

text \<open>\<open>data[i : i + chunk] for i in range(0, len(data), chunk)\<close>.\<close>

fun slices :: "nat \<Rightarrow> nat \<Rightarrow> bytes \<Rightarrow> bytes list" where
  "slices 0 n data = []"
| "slices (Suc k) n data = (if data = [] then [] else take n data # slices k n (drop n data))"

definition chunked :: "int \<Rightarrow> bytes \<Rightarrow> exn + bytes list" where
  "chunked chunk data =
     (if chunk = 0 then Inl (Exn ValueErr (PStr ''range() arg 3 must not be zero''))
      else if chunk < 0 then Inr []
      else Inr (slices (length data) (nat chunk) data))"

definition write_command :: "bytes \<Rightarrow> string" where
  "write_command piece = ''f.write(binascii.unhexlify('' @ [quote_char] @ to_hex piece @ [quote_char] @ ''))''"

fun exec_all :: "'d board \<Rightarrow> string list \<Rightarrow> ('d mp, unit) prog" where
  "exec_all B [] = pret ()"
| "exec_all B (c # cs) = pbind (exec_cmd B c) (\<lambda>_. exec_all B cs)"

definition put_file :: "'d board \<Rightarrow> int \<Rightarrow> bytes \<Rightarrow> string \<Rightarrow> ('d mp, nat) prog" where
  "put_file B chunk data target_path =
     pthen (enter B)
       (pthen (on_failure (exit_repl B)
           (pbind (exec_cmd B ''import binascii'') (\<lambda>_.
             pbind (exec_cmd B (''f = open('' @ py_repr target_path @ '', '' @ [quote_char] @ ''wb'' @ [quote_char] @ '')'')) (\<lambda>_.
               on_failure (best_effort_close B)
                 (pbind (pact (mlift (chunked chunk data))) (\<lambda>pieces.
                   pthen (exec_all B (map write_command pieces))
                     (pbind (exec_cmd B ''f.close()'') (\<lambda>_. pret ()))))))))
         (pthen (exit_repl B) (pret (length data))))"

text \<open>The reading loop; \<open>parts\<close> is its list.\<close>

definition read_command :: "int \<Rightarrow> string" where
  "read_command chunk = ''print(binascii.hexlify(f.read('' @ (if chunk < 0 then ''-'' @ show_nat (nat (- chunk)) else show_nat (nat chunk)) @ '')))''"

definition parse_part :: "string \<Rightarrow> exn + bytes option" where
  "parse_part out =
     (if out = [] \<or> out = ''b'' @ [quote_char, quote_char] then Inr None
      else if \<not> (prefix (''b'' @ [quote_char]) out \<and> last out = quote_char)
      then Inl (Exn MpReplError (PFStr [PStr ''unexpected board answer: '', PRepr (PStr out)]))
      else case from_hex (butlast (drop 2 out)) of
        None \<Rightarrow> Inl (Exn ValueErr (PStr ''non-hexadecimal number found in fromhex() arg''))
      | Some bs \<Rightarrow> Inr (Some bs))"

partial_function (option) get_loop :: "'d board \<Rightarrow> int \<Rightarrow> bytes list \<Rightarrow> 'd mp \<Rightarrow> ('d mp \<times> (exn + bytes list)) option" where
  "get_loop B chunk parts s =
     Option.bind (exec_cmd B (read_command chunk) s) (\<lambda>(s', r).
       case r of
         Inl e \<Rightarrow> Some (s', Inl e)
       | Inr out \<Rightarrow>
           (case parse_part (strip (decode_str out)) of
              Inl e \<Rightarrow> Some (s', Inl e)
            | Inr None \<Rightarrow> Some (s', Inr parts)
            | Inr (Some bs) \<Rightarrow> get_loop B chunk (parts @ [bs]) s'))"

definition get_file :: "'d board \<Rightarrow> int \<Rightarrow> string \<Rightarrow> ('d mp, bytes) prog" where
  "get_file B chunk target_path =
     pthen (enter B)
       (pbind (on_failure (exit_repl B)
           (pbind (exec_cmd B ''import binascii'') (\<lambda>_.
             pbind (exec_cmd B (''f = open('' @ py_repr target_path @ '', '' @ [quote_char] @ ''rb'' @ [quote_char] @ '')'')) (\<lambda>_.
               on_failure (best_effort_close B)
                 (pbind (get_loop B chunk []) (\<lambda>parts.
                   pbind (exec_cmd B ''f.close()'') (\<lambda>_. pret parts)))))))
         (\<lambda>parts. pthen (exit_repl B) (pret (concat parts))))"

section \<open>Termination\<close>

text \<open>
  What a device promises about time, \<open>t\<close> being the time of the world in a state: nothing turns
  the clock back, a reading lies within the call that makes it, a sleep lasts, and a read that
  brings nothing has waited \<open>\<delta>\<close> (the port's time-out). The device may send whatever it likes.
\<close>

definition progressing :: "rat \<Rightarrow> ('d \<Rightarrow> rat) \<Rightarrow> 'd board \<Rightarrow> bool" where
  "progressing \<delta> t B \<longleftrightarrow> 0 < \<delta> \<and>
     (\<forall>d d' now. bd_clock B d = (d', now) \<longrightarrow> t d \<le> now \<and> now \<le> t d') \<and>
     (\<forall>d n d' r. bd_read B n d = (d', r) \<longrightarrow> t d \<le> t d' \<and> (r = Inr [] \<longrightarrow> t d + \<delta> \<le> t d')) \<and>
     (\<forall>d b d' r. bd_write B b d = (d', r) \<longrightarrow> t d \<le> t d') \<and>
     (\<forall>d x. 0 \<le> x \<longrightarrow> t d + x \<le> t (bd_sleep B x d))"

text \<open>A program that returns from every state, and does not turn the clock back.\<close>

definition returns :: "('d \<Rightarrow> rat) \<Rightarrow> ('d mp, 'a) prog \<Rightarrow> bool" where
  "returns t m \<longleftrightarrow> (\<forall>s. \<exists>s' r. m s = Some (s', r) \<and> t (mp_dev s) \<le> t (mp_dev s'))"

lemma returnsI: "(\<And>s. \<exists>s' r. m s = Some (s', r) \<and> t (mp_dev s) \<le> t (mp_dev s')) \<Longrightarrow> returns t m"
  by (simp add: returns_def)

lemma returnsE: "returns t m \<Longrightarrow> (\<And>s' r. m s = Some (s', r) \<Longrightarrow> t (mp_dev s) \<le> t (mp_dev s') \<Longrightarrow> thesis) \<Longrightarrow> thesis"
  unfolding returns_def by blast

named_theorems returning \<open>rules for programs that return\<close>

lemma returns_ret [returning]: "returns t (pret x)" "returns t (praise e)" "returns t (pact (mlift q))"
  by (simp_all add: returns_def pret_def praise_def pact_def mlift_def)

lemma returns_bind [returning]:
  assumes "returns t m" and "\<And>x. returns t (f x)" shows "returns t (pbind m f)"
proof (rule returnsI)
  fix s
  obtain s1 r where m: "m s = Some (s1, r)" "t (mp_dev s) \<le> t (mp_dev s1)" by (rule returnsE [OF assms(1)])
  show "\<exists>s' r. pbind m f s = Some (s', r) \<and> t (mp_dev s) \<le> t (mp_dev s')"
  proof (cases r)
    case (Inl e)
    then show ?thesis using m by (simp add: pbind_def)
  next
    case (Inr x)
    obtain s2 r2 where "f x s1 = Some (s2, r2)" "t (mp_dev s1) \<le> t (mp_dev s2)" by (rule returnsE [OF assms(2)])
    then show ?thesis using m Inr by (simp add: pbind_def)
  qed
qed

lemma returns_catch [returning]:
  assumes "returns t m" and "\<And>e. returns t (h e)" shows "returns t (pcatch p m h)"
proof (rule returnsI)
  fix s
  obtain s1 r where m: "m s = Some (s1, r)" "t (mp_dev s) \<le> t (mp_dev s1)" by (rule returnsE [OF assms(1)])
  show "\<exists>s' r. pcatch p m h s = Some (s', r) \<and> t (mp_dev s) \<le> t (mp_dev s')"
  proof (cases r)
    case (Inl e)
    obtain s2 r2 where "h e s1 = Some (s2, r2)" "t (mp_dev s1) \<le> t (mp_dev s2)" by (rule returnsE [OF assms(2)])
    then show ?thesis using m Inl by (simp add: pcatch_def)
  next
    case (Inr x)
    then show ?thesis using m by (simp add: pcatch_def)
  qed
qed

lemma returns_derived [returning]:
  "returns t c \<Longrightarrow> returns t m \<Longrightarrow> returns t (on_failure c m)" "returns t m \<Longrightarrow> returns t (suppress m)"
  unfolding on_failure_def suppress_def by (intro returning; assumption)+

lemma returns_if [returning]: "returns t m \<Longrightarrow> returns t k \<Longrightarrow> returns t (if b then m else k)"
  by simp

lemma returns_device [returning]:
  assumes "progressing \<delta> t B"
  shows "returns t (on_dev (bd_read B n))" and "returns t (on_dev (bd_write B b))" and "returns t (monotonic B)"
    and "0 \<le> x \<Longrightarrow> returns t (sleep B x)"
proof -
  show "returns t (on_dev (bd_read B n))" "returns t (on_dev (bd_write B b))"
    using assms unfolding returns_def on_dev_def progressing_def by (auto split: prod.splits)
  show "returns t (monotonic B)"
    using assms unfolding returns_def monotonic_def progressing_def by (auto split: prod.splits) (metis order_trans)
  show "returns t (sleep B x)" if "0 \<le> x"
  proof (rule returnsI)
    fix s :: "'a mp"
    have "t (mp_dev s) + x \<le> t (bd_sleep B x (mp_dev s))" using assms that unfolding progressing_def by blast
    then show "\<exists>s' r. sleep B x s = Some (s', r) \<and> t (mp_dev s) \<le> t (mp_dev s')" using that by (simp add: sleep_def)
  qed
qed

text \<open>One turn of a reading loop: an error, or the buffer has grown, or time has passed.\<close>

lemma read_more_turn:
  assumes p: "progressing \<delta> t B"
  obtains (fail) s' e where "read_more B deadline s = Some (s', Inl e)" "t (mp_dev s) \<le> t (mp_dev s')"
    | (turn) s' chunk where "read_more B deadline s = Some (s', Inr ())" "mp_buf s' = mp_buf s @ chunk" "length (mp_buf s') \<le> MAX_STREAM_BUF"
      "t (mp_dev s) < deadline" "t (mp_dev s) \<le> t (mp_dev s')" "chunk = [] \<Longrightarrow> t (mp_dev s) + \<delta> \<le> t (mp_dev s')"
proof -
  obtain d1 now where c: "bd_clock B (mp_dev s) = (d1, now)" by (rule prod.exhaust)
  have t1: "t (mp_dev s) \<le> now" "now \<le> t d1" using p c unfolding progressing_def by blast+
  obtain d2 r where r: "bd_read B 256 d1 = (d2, r)" by (rule prod.exhaust)
  have t2: "t d1 \<le> t d2" "r = Inr [] \<Longrightarrow> t d1 + \<delta> \<le> t d2" using p r unfolding progressing_def by blast+
  note defs = read_more_def pbind_def monotonic_def on_dev_def check_buf_def praise_def
  show thesis
  proof (cases "deadline \<le> now")
    case True
    then show thesis using c t1 fail [of "s\<lparr>mp_dev := d1\<rparr>"] by (simp add: defs)
  next
    case False
    show thesis
    proof (cases r)
      case (Inl e)
      then show thesis using False c r t1 t2 fail [of "s\<lparr>mp_dev := d2\<rparr>"] by (simp add: defs)
    next
      case (Inr chunk)
      have "chunk = [] \<Longrightarrow> t (mp_dev s) + \<delta> \<le> t d2" using t1 t2(2) Inr by fastforce
      then show thesis
        using Inr False c r t1 t2 fail [of "s\<lparr>mp_dev := d2, mp_buf := mp_buf s @ chunk\<rparr>" too_long]
          turn [of "s\<lparr>mp_dev := d2, mp_buf := mp_buf s @ chunk\<rparr>" chunk]
        by (cases "length (mp_buf s @ chunk) > MAX_STREAM_BUF") (simp_all add: defs)
    qed
  qed
qed

text \<open>The measure of a reading loop: the turns that time leaves, and the room in the buffer.\<close>

definition room :: "rat \<Rightarrow> ('d \<Rightarrow> rat) \<Rightarrow> rat \<Rightarrow> 'd mp \<Rightarrow> nat" where
  "room \<delta> t deadline s = nat \<lceil>(deadline - t (mp_dev s)) / \<delta>\<rceil> + (Suc MAX_STREAM_BUF - length (mp_buf s))"

lemma room_decreases:
  assumes "0 < \<delta>" and "mp_buf s' = mp_buf s @ chunk" and "length (mp_buf s') \<le> MAX_STREAM_BUF" and "t (mp_dev s) < deadline"
    and "t (mp_dev s) \<le> t (mp_dev s')" and "chunk = [] \<Longrightarrow> t (mp_dev s) + \<delta> \<le> t (mp_dev s')"
  shows "room \<delta> t deadline s' < room \<delta> t deadline s"
proof -
  let ?a = "(deadline - t (mp_dev s)) / \<delta>" and ?b = "(deadline - t (mp_dev s')) / \<delta>"
  have a: "0 < ?a" using assms(1,4) by simp
  have "?b \<le> ?a" using assms(1,5) by (simp add: divide_right_mono)
  then have ceil: "nat \<lceil>?b\<rceil> \<le> nat \<lceil>?a\<rceil>" by (intro nat_mono ceiling_mono)
  show ?thesis
  proof (cases "chunk = []")
    case True
    have "deadline - t (mp_dev s') \<le> (deadline - t (mp_dev s)) - \<delta>" using assms(6) [OF True] by simp
    then have "?b \<le> ((deadline - t (mp_dev s)) - \<delta>) / \<delta>" using assms(1) by (intro divide_right_mono) simp_all
    also have "\<dots> = ?a - 1" using assms(1) by (simp add: diff_divide_distrib)
    finally have "\<lceil>?b\<rceil> \<le> \<lceil>?a\<rceil> - 1" by linarith
    moreover have "1 \<le> \<lceil>?a\<rceil>" using a by (simp add: one_le_ceiling)
    ultimately have "nat \<lceil>?b\<rceil> < nat \<lceil>?a\<rceil>" by linarith
    then show ?thesis using True assms(2) by (simp add: room_def)
  next
    case False
    then have "length (mp_buf s) < length (mp_buf s')" using assms(2) by simp
    then show ?thesis using ceil assms(3) by (simp add: room_def)
  qed
qed

lemma returns_until [returning]:
  assumes p: "progressing \<delta> t B" shows "returns t (until B terminator deadline)"
proof (rule returnsI)
  fix s
  show "\<exists>s' r. until B terminator deadline s = Some (s', r) \<and> t (mp_dev s) \<le> t (mp_dev s')"
  proof (induction "room \<delta> t deadline s" arbitrary: s rule: less_induct)
    case less
    show ?case
    proof (cases "find_at terminator (mp_buf s)")
      case (Some idx)
      then show ?thesis by (subst until.simps) simp
    next
      case None
      show ?thesis
      proof (cases rule: read_more_turn [OF p, of deadline s])
        case (1 s' e)
        then show ?thesis using None by (subst until.simps) simp
      next
        case turn: (2 s' chunk)
        have "0 < \<delta>" using p by (simp add: progressing_def)
        from less [OF room_decreases [OF this turn(2-6)]]
        obtain s2 r where "until B terminator deadline s' = Some (s2, r)" "t (mp_dev s') \<le> t (mp_dev s2)" by blast
        then show ?thesis using None turn by (subst until.simps) simp
      qed
    qed
  qed
qed

lemma returns_dance [returning]: "progressing \<delta> t B \<Longrightarrow> returns t (dance B)"
  unfolding dance_def by (intro returning) auto

lemma returns_enter_loop:
  assumes p: "progressing \<delta> t B" shows "returns t (enter_loop B deadline)"
proof (rule returnsI)
  fix s
  show "\<exists>s' r. enter_loop B deadline s = Some (s', r) \<and> t (mp_dev s) \<le> t (mp_dev s')"
  proof (induction "nat \<lceil>deadline - t (mp_dev s)\<rceil>" arbitrary: s rule: less_induct)
    case less
    obtain s1 r where d: "dance B s = Some (s1, r)" "t (mp_dev s) \<le> t (mp_dev s1)" by (rule returnsE [OF returns_dance [OF p]])
    obtain d2 now where c: "bd_clock B (mp_dev s1) = (d2, now)" by (rule prod.exhaust)
    have t2: "t (mp_dev s1) \<le> now" "now \<le> t d2" using p c unfolding progressing_def by blast+
    show ?case
    proof (cases "(\<exists>u. r = Inr u) \<or> (\<exists>e. r = Inl e \<and> \<not> exn_is (eclass e) TimeoutErr) \<or> deadline \<le> now")
      case True
      then show ?thesis using d c t2 by (subst enter_loop.simps) (auto simp: monotonic_def split: sum.split)
    next
      case False
      then obtain e where e: "r = Inl e" "exn_is (eclass e) TimeoutErr" "now < deadline" by (cases r) auto
      let ?s3 = "s1\<lparr>mp_dev := bd_sleep B 1 d2\<rparr>"
      have t3: "t d2 + 1 \<le> t (mp_dev ?s3)" using p unfolding progressing_def by simp
      have "nat \<lceil>deadline - t (mp_dev ?s3)\<rceil> < nat \<lceil>deadline - t (mp_dev s)\<rceil>"
      proof -
        have "deadline - t (mp_dev ?s3) \<le> deadline - t (mp_dev s) - 1" using t3 t2 d(2) by linarith
        moreover have "0 < deadline - t (mp_dev s)" using e(3) t2 d(2) by linarith
        ultimately show ?thesis by linarith
      qed
      from less [OF this] obtain s4 q where q: "enter_loop B deadline ?s3 = Some (s4, q)" "t (mp_dev ?s3) \<le> t (mp_dev s4)" by blast
      have "enter_loop B deadline s = Some (s4, q)"
        using d(1) e c q(1) by (subst enter_loop.simps) (simp add: monotonic_def sleep_def)
      then show ?thesis using q(2) t3 t2 d(2) by auto
    qed
  qed
qed

lemma returns_enter [returning]: "progressing \<delta> t B \<Longrightarrow> returns t (enter B)"
  unfolding enter_def by (intro returns_bind returns_device returns_enter_loop)

lemma returns_exec [returning]: "progressing \<delta> t B \<Longrightarrow> returns t (exec_cmd B c)"
  unfolding exec_cmd_def Let_def by (intro returning)

lemma returns_exec_all [returning]: "progressing \<delta> t B \<Longrightarrow> returns t (exec_all B cs)"
  by (induction cs) (auto intro: returning)

lemma returns_ends [returning]: "progressing \<delta> t B \<Longrightarrow> returns t (exit_repl B)" "progressing \<delta> t B \<Longrightarrow> returns t (best_effort_close B)"
  unfolding exit_repl_def best_effort_close_def by (intro returning; assumption)+

lemma returns_put [returning]: "progressing \<delta> t B \<Longrightarrow> returns t (put_file B chunk data path)"
  unfolding put_file_def by (assumption | rule returning)+

section \<open>What goes over the wire\<close>

text \<open>A device that records its traffic beside itself.\<close>

datatype io = Sent bytes | Got bytes

definition traced :: "'d board \<Rightarrow> ('d \<times> io list) board" where
  "traced B = \<lparr>
     bd_read = (\<lambda>n (d, tr). case bd_read B n d of
        (d', Inl e) \<Rightarrow> ((d', tr), Inl e) | (d', Inr b) \<Rightarrow> ((d', tr @ [Got b]), Inr b)),
     bd_write = (\<lambda>b (d, tr). case bd_write B b d of (d', r) \<Rightarrow> ((d', tr @ [Sent b]), r)),
     bd_clock = (\<lambda>(d, tr). case bd_clock B d of (d', now) \<Rightarrow> ((d', tr), now)),
     bd_sleep = (\<lambda>x (d, tr). (bd_sleep B x d, tr))\<rparr>"

abbreviation trace :: "('d \<times> io list) mp \<Rightarrow> io list" where
  "trace s \<equiv> snd (mp_dev s)"

definition sends :: "io list \<Rightarrow> bytes list" where
  "sends tr = concat (map (\<lambda>x. case x of Sent b \<Rightarrow> [b] | Got _ \<Rightarrow> []) tr)"

lemma sends_simps [simp]: "sends [] = []" "sends (tr @ tr') = sends tr @ sends tr'" "sends (Sent b # tr) = b # sends tr" "sends (map Got gs) = []"
  by (simp_all add: sends_def o_def)

lemma traced_simps:
  "on_dev (bd_write (traced B) b) s = Some (case bd_write B b (fst (mp_dev s)) of (d, r) \<Rightarrow> (s\<lparr>mp_dev := (d, trace s @ [Sent b])\<rparr>, r))"
  "on_dev (bd_read (traced B) n) s = Some (case bd_read B n (fst (mp_dev s)) of
     (d, Inl e) \<Rightarrow> (s\<lparr>mp_dev := (d, trace s)\<rparr>, Inl e) | (d, Inr b) \<Rightarrow> (s\<lparr>mp_dev := (d, trace s @ [Got b])\<rparr>, Inr b))"
  "monotonic (traced B) s = Some (case bd_clock B (fst (mp_dev s)) of (d, now) \<Rightarrow> (s\<lparr>mp_dev := (d, trace s)\<rparr>, Inr now))"
  by (cases "mp_dev s"; simp add: on_dev_def monotonic_def traced_def split: prod.split sum.split)+

lemma read_more_trace:
  "read_more (traced B) deadline s = Some (s', r) \<Longrightarrow>
     (\<exists>g. trace s' = trace s @ [Got g] \<and> mp_buf s' = mp_buf s @ g) \<or> (trace s' = trace s \<and> (\<exists>e. r = Inl e))"
  by (auto simp: read_more_def pbind_def traced_simps praise_def check_buf_def split: prod.splits sum.splits if_splits bind_splits)

text \<open>The section \<open>until\<close> cuts off is what came in up to the first terminator, however it was chunked.\<close>

definition first_cut :: "bytes \<Rightarrow> bytes \<Rightarrow> bool" where
  "first_cut terminator piece \<longleftrightarrow> (\<forall>j < length piece. \<not> prefix terminator (drop j (piece @ terminator)))"

lemma cut_first:
  assumes "find_at terminator buf = Some idx"
  shows "buf = take idx buf @ terminator @ drop (idx + length terminator) buf" and "first_cut terminator (take idx buf)"
proof -
  show buf: "buf = take idx buf @ terminator @ drop (idx + length terminator) buf" by (rule find_at_split [OF assms])
  note d = find_at_SomeD [OF assms]
  show "first_cut terminator (take idx buf)" unfolding first_cut_def
  proof (intro allI impI notI)
    fix j assume j: "j < length (take idx buf)" and pre: "prefix terminator (drop j (take idx buf @ terminator))"
    have ij: "j - length (take idx buf @ terminator) = 0" using j unfolding length_append by linarith
    have "drop j buf = drop j (take idx buf @ terminator) @ drop (idx + length terminator) buf"
      using arg_cong [OF buf, of "drop j"] j by (subst (asm) append_assoc [symmetric], subst (asm) drop_append, subst (asm) ij) simp
    then have "prefix terminator (drop j buf)" using pre by (metis prefix_prefix)
    then show False using d j by simp
  qed
qed

definition cut_out :: "bytes \<Rightarrow> ('d \<times> io list) mp \<Rightarrow> ('d \<times> io list) mp \<times> (exn + bytes) \<Rightarrow> bool" where
  "cut_out terminator s y \<longleftrightarrow> (\<exists>gs. trace (fst y) = trace s @ map Got gs \<and>
     (\<forall>piece. snd y = Inr piece \<longrightarrow> mp_buf s @ concat gs = piece @ terminator @ mp_buf (fst y) \<and> first_cut terminator piece))"

lemma until_trace: "until (traced B) terminator deadline s = Some y \<Longrightarrow> cut_out terminator s y"
proof -
  have "B' = traced B \<longrightarrow> cut_out terminator s y" if "until B' terminator deadline s = Some y" for B'
  proof (rule until.raw_induct [OF _ that, where P = "\<lambda>B' terminator deadline s y. B' = traced B \<longrightarrow> cut_out terminator s y"], rule impI)
    fix rec :: "(_ \<times> io list) board \<Rightarrow> bytes \<Rightarrow> rat \<Rightarrow> _ mp \<Rightarrow> (_ mp \<times> (exn + bytes)) option" and B' terminator deadline s y
    assume IH: "\<And>B' terminator deadline s y. rec B' terminator deadline s = Some y \<Longrightarrow> B' = traced B \<longrightarrow> cut_out terminator s y"
      and body: "(case find_at terminator (mp_buf s) of
        Some idx \<Rightarrow> Some (s\<lparr>mp_buf := drop (idx + length terminator) (mp_buf s)\<rparr>, Inr (take idx (mp_buf s)))
      | None \<Rightarrow> Option.bind (read_more B' deadline s)
          (\<lambda>(s', r). case r of Inl e \<Rightarrow> Some (s', Inl e) | Inr _ \<Rightarrow> rec B' terminator deadline s')) = Some y"
      and B': "B' = traced B"
    show "cut_out terminator s y"
    proof (cases "find_at terminator (mp_buf s)")
      case (Some idx)
      then show ?thesis using body cut_first [OF Some] unfolding cut_out_def by (intro exI [of _ "[]"]) auto
    next
      case None
      then obtain s1 q where q: "read_more (traced B) deadline s = Some (s1, q)"
        and k: "(case q of Inl e \<Rightarrow> Some (s1, Inl e) | Inr _ \<Rightarrow> rec B' terminator deadline s1) = Some y"
        using body B' by (auto split: bind_splits)
      show ?thesis
      proof (cases q)
        case (Inl e)
        have "\<exists>gs. trace s1 = trace s @ map Got gs" using read_more_trace [OF q]
        proof
          assume "\<exists>g. trace s1 = trace s @ [Got g] \<and> mp_buf s1 = mp_buf s @ g"
          then obtain g where "trace s1 = trace s @ map Got [g]" by auto
          then show ?thesis ..
        next
          assume "trace s1 = trace s \<and> (\<exists>e. q = Inl e)"
          then have "trace s1 = trace s @ map Got []" by simp
          then show ?thesis ..
        qed
        then show ?thesis using k Inl unfolding cut_out_def by auto
      next
        case (Inr u)
        then have "cut_out terminator s1 y" using k IH B' by simp
        moreover obtain g where "trace s1 = trace s @ [Got g]" "mp_buf s1 = mp_buf s @ g" using read_more_trace [OF q] Inr by auto
        ultimately show ?thesis unfolding cut_out_def by (elim exE conjE, intro exI [of _ "g # gs" for gs]) auto
      qed
    qed
  qed
  then show "until (traced B) terminator deadline s = Some y \<Longrightarrow> cut_out terminator s y" by blast
qed

definition wire :: "string \<Rightarrow> bytes" where
  "wire c = encode_str c @ CTRL_D"

lemma pbind_cases:
  assumes "pbind m f s = Some (s', r)"
  obtains (fail) e where "m s = Some (s', Inl e)" "r = Inl e" | (ok) s1 x where "m s = Some (s1, Inr x)" "f x s1 = Some (s', r)"
  using assms unfolding pbind_def by (cases "m s") (auto split: sum.splits)

lemma pbind_Inr: "m s = Some (s1, Inr x) \<Longrightarrow> pbind m f s = f x s1"
  by (simp add: pbind_def)

lemma pbind_pact: "pbind (pact (mlift (Inr x))) f = f x"
  by (rule ext) (simp add: pbind_def pact_def mlift_def)

lemma pcatch_cases:
  assumes "pcatch p m h s = Some (s', r)"
  obtains (fail) s1 e where "m s = Some (s1, Inl e)" "p e" "h e s1 = Some (s', r)"
    | (pass) e where "m s = Some (s', Inl e)" "\<not> p e" "r = Inl e" | (ok) x where "m s = Some (s', Inr x)" "r = Inr x"
  using assms unfolding pcatch_def by (cases "m s") (auto split: sum.splits if_splits)

lemma write_traced:
  assumes "on_dev (bd_write (traced B) b) s = Some (s', r)"
  shows "trace s' = trace s @ [Sent b]" and "mp_buf s' = mp_buf s"
  using assms by (auto simp: traced_simps split: prod.splits)

lemma clock_bind:
  "pbind (monotonic (traced B)) f s = Some (s', r) \<Longrightarrow> \<exists>s1 now. trace s1 = trace s \<and> mp_buf s1 = mp_buf s \<and> f now s1 = Some (s', r)"
  by (auto simp: pbind_def traced_simps intro!: exI [of _ "s\<lparr>mp_dev := (d, trace s)\<rparr>" for d] split: prod.splits)

text \<open>What one \<open>exec\<close> sends, and what it makes of the answer.\<close>

lemma exec_trace:
  assumes "exec_cmd (traced B) c s = Some (s', r)"
  shows "\<exists>gs. trace s' = trace s @ Sent (wire c) # map Got gs \<and>
    (\<forall>out. r = Inr out \<longrightarrow> (\<exists>raw err junk. mp_buf s @ concat gs = raw @ CTRL_D @ err @ CTRL_D @ junk @ PROMPT @ mp_buf s' \<and>
       first_cut CTRL_D raw \<and> first_cut CTRL_D err \<and> first_cut PROMPT junk \<and> strip (decode_str err) = [] \<and>
       out = (if prefix (encode_str ''OK'') raw then drop 2 raw else raw)))"
proof -
  obtain s1 now where c: "trace s1 = trace s" "mp_buf s1 = mp_buf s"
    and k1: "pthen (on_dev (bd_write (traced B) (wire c)))
         (pbind (until (traced B) CTRL_D (now + EXEC_TIMEOUT_SEC)) (\<lambda>out.
           pbind (until (traced B) CTRL_D (now + EXEC_TIMEOUT_SEC)) (\<lambda>err.
             pbind (until (traced B) PROMPT (now + EXEC_TIMEOUT_SEC)) (\<lambda>_.
               if strip (decode_str err) \<noteq> [] then praise (Exn MpReplError (PUtf8 (encode_str (strip (decode_str err)))))
               else pret (if prefix (encode_str ''OK'') out then drop 2 out else out))))) s1 = Some (s', r)"
    using clock_bind [OF assms [unfolded exec_cmd_def Let_def]] unfolding wire_def by blast
  from k1 show ?thesis
  proof (cases rule: pbind_cases)
    case (fail e)
    then show ?thesis using write_traced(1) [OF fail(1)] c by (intro exI [of _ "[]"]) auto
  next
    case (ok s2 u)
    note w = write_traced [OF ok(1)]
    from ok(2) show ?thesis
    proof (cases rule: pbind_cases)
      case (fail e)
      then obtain gs where "trace s' = trace s2 @ map Got gs" using until_trace [OF fail(1)] by (auto simp: cut_out_def)
      then show ?thesis using w c fail by (intro exI [of _ gs]) auto
    next
      case (ok s3 raw)
      obtain g1 where g1: "trace s3 = trace s2 @ map Got g1" "mp_buf s2 @ concat g1 = raw @ CTRL_D @ mp_buf s3" "first_cut CTRL_D raw"
        using until_trace [OF ok(1)] by (auto simp: cut_out_def)
      from ok(2) show ?thesis
      proof (cases rule: pbind_cases)
        case (fail e)
        then obtain gs where "trace s' = trace s3 @ map Got gs" using until_trace [OF fail(1)] by (auto simp: cut_out_def)
        then show ?thesis using w c g1 fail by (intro exI [of _ "g1 @ gs"]) auto
      next
        case (ok s4 err)
        obtain g2 where g2: "trace s4 = trace s3 @ map Got g2" "mp_buf s3 @ concat g2 = err @ CTRL_D @ mp_buf s4" "first_cut CTRL_D err"
          using until_trace [OF ok(1)] by (auto simp: cut_out_def)
        from ok(2) show ?thesis
        proof (cases rule: pbind_cases)
          case (fail e)
          then obtain gs where "trace s' = trace s4 @ map Got gs" using until_trace [OF fail(1)] by (auto simp: cut_out_def)
          then show ?thesis using w c g1 g2 fail by (intro exI [of _ "g1 @ g2 @ gs"]) auto
        next
          case (ok s5 junk)
          obtain g3 where g3: "trace s5 = trace s4 @ map Got g3" "mp_buf s4 @ concat g3 = junk @ PROMPT @ mp_buf s5" "first_cut PROMPT junk"
            using until_trace [OF ok(1)] by (auto simp: cut_out_def)
          have s5: "s' = s5" "\<And>out. r = Inr out \<Longrightarrow> strip (decode_str err) = [] \<and>
              out = (if prefix (encode_str ''OK'') raw then drop 2 raw else raw)"
            using ok(2) by (auto simp: Let_def praise_def pret_def split: if_splits)
          have "mp_buf s @ concat (g1 @ g2 @ g3) = (mp_buf s2 @ concat g1) @ concat g2 @ concat g3" using w c by simp
          also have "\<dots> = raw @ CTRL_D @ (mp_buf s3 @ concat g2) @ concat g3" unfolding g1(2) by simp
          also have "\<dots> = raw @ CTRL_D @ err @ CTRL_D @ (mp_buf s4 @ concat g3)" unfolding g2(2) by simp
          finally have all: "mp_buf s @ concat (g1 @ g2 @ g3) = raw @ CTRL_D @ err @ CTRL_D @ junk @ PROMPT @ mp_buf s'"
            unfolding g3(2) s5(1) .
          have tr: "trace s' = trace s @ Sent (wire c) # map Got (g1 @ g2 @ g3)" using w(1) c(1) g1(1) g2(1) g3(1) s5(1) by simp
          show ?thesis
            by (rule exI [of _ "g1 @ g2 @ g3"]) (use all tr s5(2) g1(3) g2(3) g3(3) in blast)
        qed
      qed
    qed
  qed
qed

lemma exec_sends: "exec_cmd (traced B) c s = Some (s', r) \<Longrightarrow> sends (trace s') = sends (trace s) @ [wire c]"
  by (drule exec_trace) auto

lemma exec_all_sends:
  "exec_all (traced B) cs s = Some (s', r) \<Longrightarrow>
     \<exists>k \<le> length cs. sends (trace s') = sends (trace s) @ map wire (take k cs) \<and> (r = Inr () \<longrightarrow> k = length cs)"
proof (induction cs arbitrary: s)
  case Nil
  then show ?case by (simp add: pret_def)
next
  case (Cons c cs)
  from Cons.prems [unfolded exec_all.simps] show ?case
  proof (cases rule: pbind_cases)
    case (fail e)
    then show ?thesis using exec_sends [OF fail(1)] by (intro exI [of _ 1]) auto
  next
    case (ok s1 x)
    obtain k where "k \<le> length cs" "sends (trace s') = sends (trace s1) @ map wire (take k cs)" "r = Inr () \<longrightarrow> k = length cs"
      using Cons.IH [OF ok(2)] by blast
    then show ?thesis using exec_sends [OF ok(1)] by (intro exI [of _ "Suc k"]) auto
  qed
qed

lemma suppress_run:
  assumes "suppress m s = Some (s', r)" shows "r = Inr () \<and> (\<exists>q. m s = Some (s', q))"
  using assms unfolding suppress_def pcatch_def pbind_def pret_def by (cases "m s") (auto split: sum.splits)

lemma exit_sends: "exit_repl (traced B) s = Some (s', r) \<Longrightarrow> sends (trace s') = sends (trace s) @ [CTRL_B] \<and> r = Inr ()"
  unfolding exit_repl_def by (drule suppress_run) (auto dest: write_traced(1))

lemma close_sends: "best_effort_close (traced B) s = Some (s', r) \<Longrightarrow> sends (trace s') = sends (trace s) @ [wire ''f.close()''] \<and> r = Inr ()"
  unfolding best_effort_close_def by (drule suppress_run) (auto dest: exec_sends)

text \<open>A clean-up runs exactly on failure, and the failure goes on.\<close>

lemma on_failure_run:
  assumes "on_failure c m s = Some (s', r)" and "\<And>s1 s2 q. c s1 = Some (s2, q) \<Longrightarrow> q = Inr ()"
  shows "(\<exists>x. m s = Some (s', Inr x) \<and> r = Inr x) \<or> (\<exists>s1 e. m s = Some (s1, Inl e) \<and> c s1 = Some (s', Inr ()) \<and> r = Inl e)"
proof -
  obtain s1 q where m: "m s = Some (s1, q)" using assms(1) unfolding on_failure_def pcatch_def by (cases "m s") auto
  show ?thesis
  proof (cases q)
    case (Inl e)
    obtain s2 u where c: "c s1 = Some (s2, u)" using assms(1) m Inl unfolding on_failure_def pcatch_def pbind_def by (cases "c s1") auto
    then have "u = Inr ()" by (rule assms(2))
    then show ?thesis using assms(1) m Inl c unfolding on_failure_def pcatch_def pbind_def praise_def by auto
  next
    case (Inr x)
    then show ?thesis using assms(1) m unfolding on_failure_def pcatch_def by auto
  qed
qed

lemma slices_props: "0 < n \<Longrightarrow> length data \<le> k \<Longrightarrow> concat (slices k n data) = data \<and> (\<forall>p \<in> set (slices k n data). p \<noteq> [] \<and> length p \<le> n)"
proof (induction k arbitrary: data)
  case (Suc k)
  show ?case
  proof (cases "data = []")
    case False
    have "length (drop n data) \<le> k" using Suc.prems False by (cases data) auto
    from Suc.IH [OF Suc.prems(1) this] show ?thesis using False Suc.prems(1) by simp
  qed simp
qed simp

text \<open>The part of \<open>put_file\<close> after the opening, and the whole guarded part.\<close>

definition put_writes :: "'d board \<Rightarrow> int \<Rightarrow> bytes \<Rightarrow> ('d mp, unit) prog" where
  "put_writes B chunk data = pbind (pact (mlift (chunked chunk data))) (\<lambda>pieces.
     pthen (exec_all B (map write_command pieces)) (pbind (exec_cmd B ''f.close()'') (\<lambda>_. pret ())))"

lemma put_writes_sends:
  assumes "put_writes (traced B) chunk data s = Some (s', r)" and "chunked chunk data = Inr pieces"
  shows "\<exists>cs. sends (trace s') = sends (trace s) @ map wire cs \<and> (r = Inr () \<longrightarrow> cs = map write_command pieces @ [''f.close()''])"
proof -
  have "pthen (exec_all (traced B) (map write_command pieces)) (pbind (exec_cmd (traced B) ''f.close()'') (\<lambda>_. pret ())) s = Some (s', r)"
    using assms unfolding put_writes_def by (simp only: pbind_pact)
  then show ?thesis
  proof (cases rule: pbind_cases)
    case (fail e)
    then show ?thesis using exec_all_sends [OF fail(1)] by auto
  next
    case (ok s1 x)
    have all: "sends (trace s1) = sends (trace s) @ map wire (map write_command pieces)" using exec_all_sends [OF ok(1)] by auto
    from ok(2) have "sends (trace s') = sends (trace s1) @ [wire ''f.close()'']"
      by (cases rule: pbind_cases) (auto simp: pret_def dest: exec_sends)
    then show ?thesis using all by (intro exI [of _ "map write_command pieces @ [''f.close()'']"]) simp
  qed
qed

definition open_command :: "string \<Rightarrow> string \<Rightarrow> string" where
  "open_command target_path mode = ''f = open('' @ py_repr target_path @ '', '' @ [quote_char] @ mode @ [quote_char] @ '')''"

definition put_body :: "'d board \<Rightarrow> int \<Rightarrow> bytes \<Rightarrow> string \<Rightarrow> ('d mp, unit) prog" where
  "put_body B chunk data path = pbind (exec_cmd B ''import binascii'') (\<lambda>_.
     pbind (exec_cmd B (open_command path ''wb'')) (\<lambda>_. on_failure (best_effort_close B) (put_writes B chunk data)))"

lemma put_body_sends:
  assumes "put_body (traced B) chunk data path s = Some (s', r)" and "chunked chunk data = Inr pieces"
  shows "\<exists>cs. sends (trace s') = sends (trace s) @ map wire cs \<and>
    (if r = Inr () then cs = [''import binascii'', open_command path ''wb''] @ map write_command pieces @ [''f.close()'']
     else cs = [''import binascii''] \<or> cs = [''import binascii'', open_command path ''wb''] \<or>
       (\<exists>ws. cs = [''import binascii'', open_command path ''wb''] @ ws @ [''f.close()'']))"
  using assms(1) [unfolded put_body_def]
proof (cases rule: pbind_cases)
  case (fail e)
  then show ?thesis using exec_sends [OF fail(1)] by (intro exI [of _ "[''import binascii'']"]) auto
next
  case (ok s1 x)
  note import = exec_sends [OF ok(1)]
  from ok(2) show ?thesis
  proof (cases rule: pbind_cases)
    case (fail e)
    then show ?thesis using import exec_sends [OF fail(1)] by (intro exI [of _ "[''import binascii'', open_command path ''wb'']"]) auto
  next
    case (ok s2 y)
    note opened = exec_sends [OF ok(1)]
    have "(\<exists>x. put_writes (traced B) chunk data s2 = Some (s', Inr x) \<and> r = Inr x) \<or>
        (\<exists>s3 e. put_writes (traced B) chunk data s2 = Some (s3, Inl e) \<and> best_effort_close (traced B) s3 = Some (s', Inr ()) \<and> r = Inl e)"
      by (rule on_failure_run [OF ok(2)]) (use close_sends in blast)
    then show ?thesis
    proof (elim disjE exE conjE)
      fix x assume w: "put_writes (traced B) chunk data s2 = Some (s', Inr x)" and r: "r = Inr x"
      show ?thesis using put_writes_sends [OF w assms(2)] import opened r by auto
    next
      fix s3 e assume w: "put_writes (traced B) chunk data s2 = Some (s3, Inl e)" and c: "best_effort_close (traced B) s3 = Some (s', Inr ())"
        and r: "r = Inl e"
      obtain ws where "sends (trace s3) = sends (trace s2) @ map wire ws" using put_writes_sends [OF w assms(2)] by blast
      then show ?thesis using close_sends [OF c] import opened r
        by (intro exI [of _ "[''import binascii'', open_command path ''wb''] @ ws @ [''f.close()'']"]) auto
    qed
  qed
qed

section \<open>Properties\<close>

text \<open>
  A transfer to the board speaks the protocol to the end. After raw REPL was entered, a
  successful \<open>put_file\<close> has sent exactly: the import, the opening, one write per piece, the
  close, and the byte that leaves raw REPL, where the pieces are non-empty, within the chunk size
  and together the data. A failed one has sent that byte last as well, and if it got past the
  opening, the last command before it is a close.
\<close>

theorem mp_put_protocol:
  assumes "0 < chunk" and "put_file (traced B) chunk data path s = Some (s', r)" and "enter (traced B) s = Some (s1, Inr ())"
  shows "\<exists>cs. sends (trace s') = sends (trace s1) @ map wire cs @ [CTRL_B] \<and>
    (case r of
       Inr n \<Rightarrow> n = length data \<and> (\<exists>pieces. concat pieces = data \<and> (\<forall>p \<in> set pieces. p \<noteq> [] \<and> length p \<le> nat chunk) \<and>
         cs = [''import binascii'', open_command path ''wb''] @ map write_command pieces @ [''f.close()''])
     | Inl e \<Rightarrow> cs = [''import binascii''] \<or> cs = [''import binascii'', open_command path ''wb''] \<or>
         (2 < length cs \<and> take 2 cs = [''import binascii'', open_command path ''wb''] \<and> last cs = ''f.close()''))"
proof -
  define pieces where "pieces = slices (length data) (nat chunk) data"
  have pieces: "chunked chunk data = Inr pieces" "concat pieces = data" "\<forall>p \<in> set pieces. p \<noteq> [] \<and> length p \<le> nat chunk"
    using assms(1) slices_props [of "nat chunk" data "length data"] by (simp_all add: chunked_def pieces_def)
  have "put_file (traced B) chunk data path = pthen (enter (traced B))
      (pthen (on_failure (exit_repl (traced B)) (put_body (traced B) chunk data path)) (pthen (exit_repl (traced B)) (pret (length data))))"
    by (simp add: put_file_def put_body_def put_writes_def open_command_def)
  moreover have "pthen (enter (traced B)) k s = k s1" for k :: "((_ \<times> io list) mp, nat) prog"
    by (rule pbind_Inr) (rule assms(3))
  ultimately have "pthen (on_failure (exit_repl (traced B)) (put_body (traced B) chunk data path))
      (pthen (exit_repl (traced B)) (pret (length data))) s1 = Some (s', r)"
    using assms(2) by simp
  then show ?thesis
  proof (cases rule: pbind_cases)
    case (fail e)
    have "(\<exists>x. put_body (traced B) chunk data path s1 = Some (s', Inr x) \<and> (Inl e :: exn + unit) = Inr x) \<or>
        (\<exists>s2 e'. put_body (traced B) chunk data path s1 = Some (s2, Inl e') \<and> exit_repl (traced B) s2 = Some (s', Inr ()) \<and> (Inl e :: exn + unit) = Inl e')"
      by (rule on_failure_run [OF fail(1)]) (use exit_sends in blast)
    then obtain s2 e' where b: "put_body (traced B) chunk data path s1 = Some (s2, Inl e')" and x: "exit_repl (traced B) s2 = Some (s', Inr ())"
      by auto
    from put_body_sends [OF b pieces(1)] obtain cs where cs: "sends (trace s2) = sends (trace s1) @ map wire cs"
      "cs = [''import binascii''] \<or> cs = [''import binascii'', open_command path ''wb''] \<or>
       (\<exists>ws. cs = [''import binascii'', open_command path ''wb''] @ ws @ [''f.close()''])" by auto
    show ?thesis using cs exit_sends [OF x] fail(2) by (intro exI [of _ cs]) auto
  next
    case (ok s2 u)
    have "(\<exists>x. put_body (traced B) chunk data path s1 = Some (s2, Inr x) \<and> (Inr u :: exn + unit) = Inr x) \<or>
        (\<exists>s3 e'. put_body (traced B) chunk data path s1 = Some (s3, Inl e') \<and> exit_repl (traced B) s3 = Some (s2, Inr ()) \<and> (Inr u :: exn + unit) = Inl e')"
      by (rule on_failure_run [OF ok(1)]) (use exit_sends in blast)
    then have b: "put_body (traced B) chunk data path s1 = Some (s2, Inr ())" by auto
    from put_body_sends [OF b pieces(1)] have sent: "sends (trace s2) = sends (trace s1) @
        map wire ([''import binascii'', open_command path ''wb''] @ map write_command pieces @ [''f.close()''])" by auto
    from ok(2) have "sends (trace s') = sends (trace s2) @ [CTRL_B] \<and> r = Inr (length data)"
      by (cases rule: pbind_cases) (auto simp: pret_def dest: exit_sends)
    then show ?thesis using sent pieces
      by (intro exI [of _ "[''import binascii'', open_command path ''wb''] @ map write_command pieces @ [''f.close()'']"]) auto
  qed
qed

text \<open>A board that answers every read with the same lump, in which every section is empty.\<close>

definition lump :: bytes where
  "lump = encode_str ''raw REPL>'' @ CTRL_D @ CTRL_D @ PROMPT"

definition demo_board :: "rat board" where
  "demo_board = \<lparr>bd_read = \<lambda>_. mret lump, bd_write = \<lambda>_. mret (), bd_clock = \<lambda>d. (d, d), bd_sleep = (+)\<rparr>"

definition demo_start :: "(rat \<times> io list) mp" where
  "demo_start = \<lparr>mp_buf = [], mp_dev = (0, [])\<rparr>"

lemma demo_progressing: "progressing 1 id demo_board"
  by (auto simp: progressing_def demo_board_def mret_def lump_def CTRL_D_def)

lemma traced_progressing: "progressing \<delta> t B \<Longrightarrow> progressing \<delta> (t \<circ> fst) (traced B)"
  unfolding progressing_def traced_def
  by (auto split: prod.splits sum.splits)

lemma demo_enter: "\<exists>s1. enter (traced demo_board) demo_start = Some (s1, Inr ())"
proof -
  have f: "find_at (encode_str ''raw REPL'') ([] :: bytes) = None" "find_at (encode_str ''raw REPL'') lump = Some 0"
    "drop (length (encode_str ''raw REPL'')) lump = PROMPT @ CTRL_D @ CTRL_D @ PROMPT" "find_at PROMPT (PROMPT @ CTRL_D @ CTRL_D @ PROMPT) = Some 0"
    "length lump = 12" by code_simp+
  have rm: "read_more (traced demo_board) 5 s = Some (s\<lparr>mp_buf := lump, mp_dev := (fst (mp_dev s), trace s @ [Got lump])\<rparr>, Inr ())"
    if "mp_buf s = []" "fst (mp_dev s) < 5" for s
    using that f(5) by (simp add: read_more_def pbind_def traced_simps demo_board_def act_apply check_buf_def MAX_STREAM_BUF_def)
  have u: "\<exists>s1 s2. until (traced demo_board) (encode_str ''raw REPL'') 5 s = Some (s1, Inr []) \<and> until (traced demo_board) PROMPT 5 s1 = Some (s2, Inr [])"
    if "mp_buf s = []" "fst (mp_dev s) < 5" for s
  proof -
    have a: "until (traced demo_board) (encode_str ''raw REPL'') 5 s =
        Some (s\<lparr>mp_buf := PROMPT @ CTRL_D @ CTRL_D @ PROMPT, mp_dev := (fst (mp_dev s), trace s @ [Got lump])\<rparr>, Inr [])"
      using that f by (subst until.simps, simp add: rm, subst until.simps, simp)
    show ?thesis unfolding a by (subst until.simps) (simp add: f)
  qed
  let ?d = "(2 / 5, [Sent CTRL_B, Sent (CTRL_C @ CTRL_C), Sent CTRL_A]) :: rat \<times> io list"
  obtain s1 s2 where us: "until (traced demo_board) (encode_str ''raw REPL'') 5 (demo_start\<lparr>mp_dev := ?d\<rparr>) = Some (s1, Inr [])"
    "until (traced demo_board) PROMPT 5 s1 = Some (s2, Inr [])"
    using u [of "demo_start\<lparr>mp_dev := ?d\<rparr>"] by (auto simp: demo_start_def)
  have "dance (traced demo_board) demo_start = Some (s2, Inr ())"
    using us by (simp add: dance_def pbind_def traced_simps demo_start_def demo_board_def act_apply sleep_def pret_def ENTER_ATTEMPT_SEC_def)
      (simp add: traced_def)
  then show ?thesis by (simp add: enter_def pbind_def traced_simps demo_start_def demo_board_def, subst enter_loop.simps) simp
qed

theorem mp_put_protocol_witness:
  "\<exists>s' r. put_file (traced demo_board) 2 [1, 2, 3] ''main.py'' demo_start = Some (s', r) \<and> last (sends (trace s')) = CTRL_B"
proof -
  obtain s1 where s1: "enter (traced demo_board) demo_start = Some (s1, Inr ())" using demo_enter by blast
  have "returns (id \<circ> fst) (put_file (traced demo_board) 2 [1, 2, 3] ''main.py'')"
    by (rule returns_put [OF traced_progressing [OF demo_progressing]])
  then obtain s' r where run: "put_file (traced demo_board) 2 [1, 2, 3] ''main.py'' demo_start = Some (s', r)"
    by (rule returnsE)
  from mp_put_protocol [OF _ run s1] show ?thesis using run by auto
qed

text \<open>
  \<open>put_file\<close> always comes back: with any board, however it answers, floods, stays silent
  or fails, as long as time passes while nothing comes in, the transfer returns or raises; no
  answer, retry or clean-up can keep it waiting.
\<close>

theorem mp_put_returns:
  assumes "progressing \<delta> t B"
  shows "\<exists>s' r. put_file B chunk data path s = Some (s', r)"
  using returns_put [OF assms] by (rule returnsE) blast

theorem mp_put_returns_witness:
  "\<exists>s' r. put_file demo_board 256 [1, 2, 3] ''main.py'' \<lparr>mp_buf = [], mp_dev = 0\<rparr> = Some (s', r)"
  by (rule mp_put_returns [OF demo_progressing])

text \<open>
  What \<open>exec\<close> makes of the board's answer does not depend on how it was chunked: the bytes
  received after the command, with what was left in the buffer, are exactly an output section, an
  error section and a section up to the prompt, each cut at its first terminator, and the rest
  stays in the buffer; \<open>exec\<close> succeeds only if the error section is blank, with the output less
  its acceptance mark.
\<close>

theorem mp_exec_sections:
  assumes "exec_cmd (traced B) c s = Some (s', Inr out)"
  shows "\<exists>gs raw err junk. trace s' = trace s @ Sent (wire c) # map Got gs \<and>
    mp_buf s @ concat gs = raw @ CTRL_D @ err @ CTRL_D @ junk @ PROMPT @ mp_buf s' \<and>
    first_cut CTRL_D raw \<and> first_cut CTRL_D err \<and> first_cut PROMPT junk \<and> strip (decode_str err) = [] \<and>
    out = (if prefix (encode_str ''OK'') raw then drop 2 raw else raw)"
  using exec_trace [OF assms] by blast

theorem mp_exec_sections_witness:
  "\<exists>s' out gs raw err junk. exec_cmd (traced demo_board) ''x'' demo_start = Some (s', Inr out) \<and>
     concat gs = raw @ CTRL_D @ err @ CTRL_D @ junk @ PROMPT @ mp_buf s'"
proof -
  have f: "find_at CTRL_D ([] :: bytes) = None" "find_at CTRL_D lump = Some 9" "drop (9 + length CTRL_D) lump = CTRL_D @ PROMPT"
    "find_at CTRL_D (CTRL_D @ PROMPT) = Some 0" "find_at PROMPT PROMPT = Some 0" "drop (length CTRL_D) (CTRL_D @ PROMPT) = PROMPT"
    "length lump = 12" "strip (decode_str []) = []" by code_simp+
  let ?s = "demo_start\<lparr>mp_dev := (0, [Sent (wire ''x'')])\<rparr>"
  have a: "until (traced demo_board) CTRL_D 10 ?s =
      Some (?s\<lparr>mp_buf := CTRL_D @ PROMPT, mp_dev := (0, [Sent (wire ''x''), Got lump])\<rparr>, Inr (take 9 lump))"
    using f by (subst until.simps, simp add: demo_start_def read_more_def pbind_def traced_simps demo_board_def act_apply check_buf_def MAX_STREAM_BUF_def,
      subst until.simps, simp)
  have b: "until (traced demo_board) CTRL_D 10 (?s\<lparr>mp_buf := CTRL_D @ PROMPT, mp_dev := d\<rparr>) = Some (?s\<lparr>mp_buf := PROMPT, mp_dev := d\<rparr>, Inr [])" for d
    using f by (subst until.simps) simp
  have c: "until (traced demo_board) PROMPT 10 (?s\<lparr>mp_buf := PROMPT, mp_dev := d\<rparr>) = Some (?s\<lparr>mp_buf := [], mp_dev := d\<rparr>, Inr [])" for d
    using f by (subst until.simps) simp
  have "\<exists>s' out. exec_cmd (traced demo_board) ''x'' demo_start = Some (s', Inr out)"
    using a b c f(8)
    by (simp add: exec_cmd_def pbind_def traced_simps demo_start_def demo_board_def act_apply EXEC_TIMEOUT_SEC_def wire_def pret_def Let_def)
  then obtain s' out where run: "exec_cmd (traced demo_board) ''x'' demo_start = Some (s', Inr out)" by blast
  have "mp_buf demo_start = []" by (simp add: demo_start_def)
  then show ?thesis using mp_exec_sections [OF run] run by fastforce
qed

end
