(* ===== verification/Session.thy ===== *)
theory Session
  imports OpLimits Reader Serial ModbusTransport MqttTransport EspFlash MpRepl Sandbox
begin

text \<open>
  \<open>src/io_core/session.py\<close>: the state of a session, the gates every operation passes, and the
  calls of transports through their limits. Transport objects live in a store and are named by
  their index, because the registries, the readers and a running exchange share them: closing a
  connection removes its name, not the object another thread still holds.

  The world outside is a parameter of each operation: the environment, the devices and
  libraries, what other threads do while a call blocks, and a clock that answers the \<open>n\<close>-th
  reading. The journal is its list of events; how they become records is in theory Journal. A
  hook that raises because the journal is closed makes the operation end in that error.
\<close>

section \<open>Transports and the world\<close>

datatype ('d, 'm, 'q) raw = RSerial "'d serial" | RModbus "'m modbus" | RMqtt "'q mqtt"

text \<open>A transport object of the registry: the wrappers around a raw transport, and the name it was opened under.\<close>

record ('d, 'm, 'q) conn =
  cn_name :: string
  cn_raw :: "('d, 'm, 'q) raw"
  cn_deadline :: "deadline option"
  cn_rate :: "rate_limiter option"

record port_info =
  pi_device :: string
  pi_vid :: "nat option"
  pi_pid :: "nat option"
  pi_serial :: "string option"
  pi_location :: "string option"
  pi_description :: string

record ('d, 'm, 'q, 'e) world =
  wd_env :: environ
  wd_clock :: "nat \<Rightarrow> rat"
  wd_win32 :: bool
  wd_port :: "'d port"
  wd_modbus :: "'m mb_client"
  wd_mqtt :: "'q paho"
  wd_esp :: "'e esptool"
  wd_fresh :: "'d \<times> 'm \<times> 'q"
  wd_net :: "net list"
  wd_net' :: "net list"
  wd_alive :: bool

text \<open>
  \<open>wd_fresh\<close>: the device states of a newly created transport; \<open>wd_net\<close>, \<open>wd_net'\<close>: MQTT
  callbacks that run while a call blocks; \<open>wd_alive\<close>: a reader thread outlives the join.
\<close>

record ('d, 'm, 'q, 'e) session =
  ss_journal :: "event list"
  ss_jclosed :: bool
  ss_sandbox :: sandbox
  ss_heap :: "('d, 'm, 'q) conn list"
  ss_transports :: "(string \<times> nat) list"
  ss_kinds :: "(string \<times> string) list"
  ss_serial_base :: "(string \<times> nat) list"
  ss_readers :: "(string \<times> nat \<times> reader) list"
  ss_transfers :: "string list"
  ss_monitors :: "string list"
  ss_closed :: bool
  ss_tick :: nat
  ss_board :: 'e

definition session_start :: "sandbox \<Rightarrow> 'e \<Rightarrow> ('d, 'm, 'q, 'e) session" where
  "session_start fx board =
     \<lparr>ss_journal = [], ss_jclosed = False, ss_sandbox = fx\<lparr>fx_hooked := True, fx_log := []\<rparr>, ss_heap = [], ss_transports = [],
      ss_kinds = [], ss_serial_base = [], ss_readers = [], ss_transfers = [], ss_monitors = [], ss_closed = False,
      ss_tick = 0, ss_board = board\<rparr>"

section \<open>The journal and the clock\<close>

definition journal_closed :: exn where
  "journal_closed = Exn ValueErr (PStr ''journal is closed'')"

text \<open>Several events of one call; the first one raises when the journal is closed.\<close>

definition journal_events :: "event list \<Rightarrow> (exn + 'a) \<Rightarrow> (('d, 'm, 'q, 'e) session, 'a) act" where
  "journal_events evs r s =
     (if evs = [] then (s, r)
      else if ss_jclosed s then (s, Inl journal_closed)
      else (s\<lparr>ss_journal := ss_journal s @ evs\<rparr>, r))"

definition ss_emit :: "string \<Rightarrow> fields \<Rightarrow> (('d, 'm, 'q, 'e) session, unit) act" where
  "ss_emit kind data = journal_events [(kind, data)] (Inr ())"

text \<open>Journal, then raise: the shape of every refusal.\<close>

definition refuse :: "string \<Rightarrow> fields \<Rightarrow> exn \<Rightarrow> (('d, 'm, 'q, 'e) session, 'a) act" where
  "refuse kind data e = mthen (ss_emit kind data) (mraise e)"

definition read_clock :: "('d, 'm, 'q, 'e) world \<Rightarrow> (('d, 'm, 'q, 'e) session, rat) act" where
  "read_clock W s = (s\<lparr>ss_tick := Suc (ss_tick s)\<rparr>, Inr (wd_clock W (ss_tick s)))"

text \<open>The hook of a connection stamps its name on every event, last.\<close>

definition stamp :: "string \<Rightarrow> event \<Rightarrow> event" where
  "stamp name ev = (fst ev, AList.update ''conn'' (PStr name) (snd ev))"

section \<open>Calls of transports\<close>

type_synonym ('d, 'm, 'q, 'a) raw_op = "(('d, 'm, 'q) raw \<times> event list, 'a) act"

definition no_attribute :: "string \<Rightarrow> exn" where
  "no_attribute method = Exn AttributeErr (PStr method)"

definition serial_raw :: "string \<Rightarrow> ('d serial, 'a) act \<Rightarrow> ('d, 'm, 'q, 'a) raw_op" where
  "serial_raw method m = (\<lambda>(r, evs).
     case r of
       RSerial t \<Rightarrow> (case m (t\<lparr>st_log := []\<rparr>) of (t', x) \<Rightarrow> ((RSerial (t'\<lparr>st_log := []\<rparr>), evs @ st_log t'), x))
     | _ \<Rightarrow> ((r, evs), Inl (no_attribute method)))"

definition modbus_raw :: "string \<Rightarrow> ('m modbus, 'a) act \<Rightarrow> ('d, 'm, 'q, 'a) raw_op" where
  "modbus_raw method m = (\<lambda>(r, evs).
     case r of
       RModbus t \<Rightarrow> (case m (t\<lparr>mt_log := []\<rparr>) of (t', x) \<Rightarrow> ((RModbus (t'\<lparr>mt_log := []\<rparr>), evs @ mt_log t'), x))
     | _ \<Rightarrow> ((r, evs), Inl (no_attribute method)))"

definition mqtt_raw :: "string \<Rightarrow> ('q mqtt, 'a) act \<Rightarrow> ('d, 'm, 'q, 'a) raw_op" where
  "mqtt_raw method m = (\<lambda>(r, evs).
     case r of
       RMqtt t \<Rightarrow> (case m (t\<lparr>mq_log := []\<rparr>) of (t', x) \<Rightarrow> ((RMqtt (t'\<lparr>mq_log := []\<rparr>), evs @ mq_log t'), x))
     | _ \<Rightarrow> ((r, evs), Inl (no_attribute method)))"

definition pair_hook :: "string \<Rightarrow> fields \<Rightarrow> ('r \<times> event list, unit) act" where
  "pair_hook kind data = mmod (\<lambda>(r, evs). (r, evs @ [(kind, data)]))"

text \<open>
  A call through the wrappers: the rate limiter is outermost, then the deadline. The wrappers
  own three readings of the clock, of which a refused call uses fewer.
\<close>

definition through_deadline :: "rat \<Rightarrow> rat \<Rightarrow> ('r \<times> event list, 'a) act \<Rightarrow> (deadline option \<times> 'r \<times> event list, 'a) act" where
  "through_deadline before after m = (\<lambda>(dl, s).
     case dl of
       None \<Rightarrow> (case m s of (s', r) \<Rightarrow> ((None, s'), r))
     | Some d \<Rightarrow> (case deadline_call (Some pair_hook) before after m (d, s) of ((d', s'), r) \<Rightarrow> ((Some d', s'), r)))"

definition limit_hook :: "string \<Rightarrow> fields \<Rightarrow> (deadline option \<times> 'r \<times> event list, unit) act" where
  "limit_hook kind data = mmod (\<lambda>(dl, r, evs). (dl, r, evs @ [(kind, data)]))"

definition through_limits ::
  "rat \<Rightarrow> rat \<Rightarrow> rat \<Rightarrow> ('d, 'm, 'q, 'a) raw_op \<Rightarrow> ('d, 'm, 'q) conn \<Rightarrow> ('d, 'm, 'q) conn \<times> event list \<times> (exn + 'a)" where
  "through_limits at_rate before after m c =
     (case cn_rate c of
        None \<Rightarrow>
          (case through_deadline before after m (cn_deadline c, cn_raw c, []) of
             ((dl, raw', evs), r) \<Rightarrow> (c\<lparr>cn_deadline := dl, cn_raw := raw'\<rparr>, evs, r))
      | Some l \<Rightarrow>
          (case rate_call (Some limit_hook) at_rate (through_deadline before after m) (l, cn_deadline c, cn_raw c, []) of
             ((l', dl, raw', evs), r) \<Rightarrow> (c\<lparr>cn_rate := Some l', cn_deadline := dl, cn_raw := raw'\<rparr>, evs, r)))"

text \<open>\<open>open\<close> and \<open>close\<close> pass the limiter; only the deadline notes a successful \<open>open\<close>.\<close>

definition conn_open :: "rat \<Rightarrow> ('d, 'm, 'q, unit) raw_op \<Rightarrow> ('d, 'm, 'q) conn \<Rightarrow> ('d, 'm, 'q) conn \<times> event list \<times> (exn + unit)" where
  "conn_open now m c =
     (case cn_deadline c of
        None \<Rightarrow> (case m (cn_raw c, []) of ((raw', evs), r) \<Rightarrow> (c\<lparr>cn_raw := raw'\<rparr>, evs, r))
      | Some d \<Rightarrow>
          (case deadline_open now m (d, cn_raw c, []) of
             ((d', raw', evs), r) \<Rightarrow> (c\<lparr>cn_deadline := Some d', cn_raw := raw'\<rparr>, evs, r)))"

definition conn_raw :: "('d, 'm, 'q, 'a) raw_op \<Rightarrow> ('d, 'm, 'q) conn \<Rightarrow> ('d, 'm, 'q) conn \<times> event list \<times> (exn + 'a)" where
  "conn_raw m c = (case m (cn_raw c, []) of ((raw', evs), r) \<Rightarrow> (c\<lparr>cn_raw := raw'\<rparr>, evs, r))"

text \<open>The three ways on an object of the session.\<close>

definition on_conn ::
  "nat \<Rightarrow> (('d, 'm, 'q) conn \<Rightarrow> ('d, 'm, 'q) conn \<times> event list \<times> (exn + 'a)) \<Rightarrow> (('d, 'm, 'q, 'e) session, 'a) act" where
  "on_conn i f s =
     (case f (ss_heap s ! i) of
        (c, evs, r) \<Rightarrow> journal_events (map (stamp (cn_name c)) evs) r (s\<lparr>ss_heap := (ss_heap s)[i := c]\<rparr>))"

definition call :: "('d, 'm, 'q, 'e) world \<Rightarrow> nat \<Rightarrow> ('d, 'm, 'q, 'a) raw_op \<Rightarrow> (('d, 'm, 'q, 'e) session, 'a) act" where
  "call W i m =
     mbind (read_clock W) (\<lambda>t1. mbind (read_clock W) (\<lambda>t2. mbind (read_clock W) (\<lambda>t3. on_conn i (through_limits t1 t2 t3 m))))"

definition call_raw :: "nat \<Rightarrow> ('d, 'm, 'q, 'a) raw_op \<Rightarrow> (('d, 'm, 'q, 'e) session, 'a) act" where
  "call_raw i m = on_conn i (conn_raw m)"

section \<open>The gates\<close>

definition check_open :: "(('d, 'm, 'q, 'e) session, unit) act" where
  "check_open = mbind (mget ss_closed) (\<lambda>closed.
     if closed then mraise (Exn TransportClosedError (PStr ''session is closed - create a new Session'')) else mret ())"

definition check_free :: "string \<Rightarrow> (('d, 'm, 'q, 'e) session, unit) act" where
  "check_free name = mbind (mget ss_transports) (\<lambda>ts.
     if map_of ts name \<noteq> None then
       let text = PFStr [PStr ''transport '', PRepr (PStr name), PStr '' is already open''] in
       refuse ''open_refused'' [(''conn'', PStr name), (''reason'', text)] (Exn KeyErr text)
     else mret ())"

definition check_connection_limit :: "environ \<Rightarrow> (('d, 'm, 'q, 'e) session, unit) act" where
  "check_connection_limit env =
     mbind (mlift (parse_max_connections (env MAX_CONNECTIONS_ENV))) (\<lambda>limit. mbind (mget ss_transports) (\<lambda>ts.
       case limit of
         None \<Rightarrow> mret ()
       | Some n \<Rightarrow>
           if n \<le> int (length ts) then
             refuse ''policy_violation'' [(''rule'', PStr ''max_connections''), (''limit'', PInt n), (''open'', PInt (int (length ts)))]
               (Exn PolicyViolation (PFStr [PStr ''connection limit reached ('', PInt (int (length ts)), PStr ''/'', PInt n,
                  PStr '' via '', PStr MAX_CONNECTIONS_ENV, PStr '')'']))
           else mret ()))"

definition ss_check_kind :: "environ \<Rightarrow> string \<Rightarrow> (('d, 'm, 'q, 'e) session, unit) act" where
  "ss_check_kind env kind = gate_kind env ss_emit kind"

definition not_open_error :: "string \<Rightarrow> exn" where
  "not_open_error name = Exn KeyErr (PFStr [PStr ''transport '', PRepr (PStr name), PStr '' is not open''])"

definition ss_get :: "string \<Rightarrow> (('d, 'm, 'q, 'e) session, nat) act" where
  "ss_get name = mbind (mget ss_transports) (\<lambda>ts.
     case map_of ts name of Some i \<Rightarrow> mret i | None \<Rightarrow> mraise (not_open_error name))"

text \<open>The object for a name, provided it is registered under the kind.\<close>

definition get_kind :: "string \<Rightarrow> string \<Rightarrow> string \<Rightarrow> (('d, 'm, 'q, 'e) session, nat) act" where
  "get_kind name kind article =
     mbind (ss_get name) (\<lambda>i. mbind (mget ss_kinds) (\<lambda>ks.
       if map_of ks name \<noteq> Some kind
       then mraise (Exn KeyErr (PFStr [PStr ''transport '', PRepr (PStr name), PStr '' is not '', PStr article, PStr '' transport'']))
       else mret i))"

text \<open>\<open>except KeyError as e: journal(...); raise\<close>.\<close>

definition journaled_key_error :: "string \<Rightarrow> string \<Rightarrow> (('d, 'm, 'q, 'e) session, 'a) act \<Rightarrow> (('d, 'm, 'q, 'e) session, 'a) act" where
  "journaled_key_error failed_kind name m =
     mcatch (catches [KeyErr]) m (\<lambda>e. refuse failed_kind [(''conn'', PStr name), (''error'', exn_str e)] e)"

text \<open>\<open>name in self._readers\<close> and its siblings: a refusal with the reason and the error.\<close>

definition refuse_busy :: "bool \<Rightarrow> string \<Rightarrow> string \<Rightarrow> string \<Rightarrow> exn \<Rightarrow> (('d, 'm, 'q, 'e) session, unit) act" where
  "refuse_busy busy kind name reason e =
     (if busy then refuse kind [(''conn'', PStr name), (''reason'', PStr reason)] e else mret ())"

definition refuse_range :: "bool \<Rightarrow> string \<Rightarrow> fields \<Rightarrow> pyval \<Rightarrow> pyval \<Rightarrow> (('d, 'm, 'q, 'e) session, unit) act" where
  "refuse_range ok kind info reason text =
     (if ok then mret () else refuse kind (info @ [(''reason'', reason)]) (Exn ValueErr text))"

definition has_reader :: "string \<Rightarrow> ('d, 'm, 'q, 'e) session \<Rightarrow> bool" where
  "has_reader name s = (map_of (ss_readers s) name \<noteq> None)"

definition in_transfer :: "string \<Rightarrow> ('d, 'm, 'q, 'e) session \<Rightarrow> bool" where
  "in_transfer name s = (name \<in> set (ss_transfers s))"

definition in_monitor :: "string \<Rightarrow> ('d, 'm, 'q, 'e) session \<Rightarrow> bool" where
  "in_monitor name s = (name \<in> set (ss_monitors s))"

section \<open>Opening\<close>

text \<open>\<open>_apply_limits\<close> on a raw transport that is not open yet.\<close>

definition apply_limits :: "environ \<Rightarrow> string \<Rightarrow> ('d, 'm, 'q) raw \<Rightarrow> exn + ('d, 'm, 'q) conn" where
  "apply_limits env name r =
     (case parse_transport_deadline (env TRANSPORT_DEADLINE_ENV) of
        Inl e \<Rightarrow> Inl e
      | Inr dl \<Rightarrow>
          (case parse_transport_rate (env TRANSPORT_RATE_ENV) of
             Inl e \<Rightarrow> Inl e
           | Inr rate \<Rightarrow> Inr
               \<lparr>cn_name = name, cn_raw = r, cn_deadline = map_option (\<lambda>sec. deadline_init sec (Some name)) dl,
                cn_rate = map_option (\<lambda>(n, per). rate_limiter_init n per) rate\<rparr>))"

text \<open>
  The locked part of the three \<open>*_open\<close>: free name, ceiling, limits, \<open>open\<close>, registration. The
  object stays in the store also when \<open>open\<close> raises, but no name leads to it.
\<close>

definition open_locked ::
  "('d, 'm, 'q, 'e) world \<Rightarrow> string \<Rightarrow> string \<Rightarrow> ('d, 'm, 'q) raw \<Rightarrow> ('d, 'm, 'q, unit) raw_op \<Rightarrow> (('d, 'm, 'q, 'e) session, unit) act" where
  "open_locked W kind name r m =
     mthen (check_free name)
       (mthen (check_connection_limit (wd_env W))
         (mbind (mlift (apply_limits (wd_env W) name r)) (\<lambda>c.
           mbind (mget (\<lambda>s. length (ss_heap s))) (\<lambda>i.
             mthen (mmod (\<lambda>s. s\<lparr>ss_heap := ss_heap s @ [c]\<rparr>))
               (mbind (read_clock W) (\<lambda>now.
                 mthen (on_conn i (conn_open now m))
                   (mmod (\<lambda>s. s\<lparr>ss_transports := AList.update name i (ss_transports s), ss_kinds := AList.update name kind (ss_kinds s),
                      ss_serial_base := (if kind = ''serial'' then AList.update name i (ss_serial_base s) else ss_serial_base s)\<rparr>))))))))"

text \<open>The result of an action as a value, for \<open>except\<close> clauses that go on.\<close>

definition reified :: "('s, 'a) act \<Rightarrow> ('s, exn + 'a) act" where
  "reified m = (\<lambda>s. case m s of (s', r) \<Rightarrow> (s', Inr r))"

text \<open>The sandbox journals through the session; its events follow each other in one call.\<close>

definition on_sandbox :: "(sandbox, 'a) act \<Rightarrow> (('d, 'm, 'q, 'e) session, 'a) act" where
  "on_sandbox m s =
     (case m ((ss_sandbox s)\<lparr>fx_log := []\<rparr>) of
        (fx, r) \<Rightarrow> journal_events (fx_log fx) r (s\<lparr>ss_sandbox := fx\<lparr>fx_log := []\<rparr>\<rparr>))"

end
