(* ===== verification/SessionSerial.thy ===== *)
theory SessionSerial
  imports Session
begin

text \<open>
  \<open>src/io_core/session.py\<close>, the serial operations. An operation that works outside the session
  lock is written as its parts: the gates before the lock, the locked gate, the exchange, and the
  locked end; theory SessionSteps lets other threads run between the parts.
\<close>

section \<open>Enumeration\<close>

text \<open>\<open>f"{n:04x}"\<close> and \<open>s or None\<close>.\<close>

definition hex04 :: "nat \<Rightarrow> string" where
  "hex04 n = replicate (4 - length (hex_nat n)) (CHR ''0'') @ hex_nat n"

definition or_none :: "string option \<Rightarrow> pyval" where
  "or_none x = (case x of Some t \<Rightarrow> if t = [] then PNone else PStr t | None \<Rightarrow> PNone)"

definition hex_or_none :: "nat option \<Rightarrow> pyval" where
  "hex_or_none x = (case x of Some n \<Rightarrow> PStr (hex04 n) | None \<Rightarrow> PNone)"

definition port_fields :: "port_info \<Rightarrow> pyval" where
  "port_fields p = PDict
     [(''device'', PStr (pi_device p)), (''vid'', hex_or_none (pi_vid p)), (''pid'', hex_or_none (pi_pid p)),
      (''serial_number'', or_none (pi_serial p)), (''location'', or_none (pi_location p)), (''description'', PStr (pi_description p))]"

definition s_serial_list :: "('d, 'm, 'q, 'e) world \<Rightarrow> port_info list \<Rightarrow> (('d, 'm, 'q, 'e) session, pyval) act" where
  "s_serial_list W comports =
     mthen check_open
       (mthen (ss_check_kind (wd_env W) ''serial'')
         (let ports = PList (map port_fields comports) in
          mthen (ss_emit ''serial_listed'' [(''count'', PInt (int (length comports))), (''ports'', ports)]) (mret ports)))"

definition resolve_by_serial :: "port_info list \<Rightarrow> string \<Rightarrow> exn + string" where
  "resolve_by_serial comports wanted =
     (case find (\<lambda>p. case pi_serial p of Some sn \<Rightarrow> sn \<noteq> [] \<and> occurs (casefold wanted) (casefold sn) | None \<Rightarrow> False) comports of
        Some p \<Rightarrow> Inr (pi_device p)
      | None \<Rightarrow> Inl (Exn ValueErr (PFStr [PStr ''no serial port with serial_number matching '', PRepr (PStr wanted),
          PStr '': call serial_list to enumerate''])))"

text \<open>\<open>0 < timeout <= cap\<close> on a Python number; a comparison with NaN is false.\<close>

definition in_range01 :: "pfloat \<Rightarrow> rat \<Rightarrow> bool" where
  "in_range01 x cap = (pf_less (Fin 0) x \<and> pf_le x (Fin cap))"

definition float_rat :: "pfloat \<Rightarrow> rat" where
  "float_rat x = (case x of Fin q \<Rightarrow> q | _ \<Rightarrow> 0)"

definition hex_or_empty4 :: "nat option \<Rightarrow> string" where
  "hex_or_empty4 x = (case x of Some n \<Rightarrow> hex04 n | None \<Rightarrow> [])"

definition wait_match :: "string \<Rightarrow> string \<Rightarrow> port_info list \<Rightarrow> port_info option" where
  "wait_match vid pid ports = find (\<lambda>p. hex_or_empty4 (pi_vid p) = casefold vid \<and> hex_or_empty4 (pi_pid p) = casefold pid) ports"

text \<open>
  The polling loop: a turn is a clock reading and the device table that the poll finds; \<open>None\<close>
  while it waits. \<open>text_of\<close> renders the bound for the message.
\<close>

fun wait_loop ::
  "string \<Rightarrow> string \<Rightarrow> pfloat \<Rightarrow> rat \<Rightarrow> (rat \<times> port_info list) list \<Rightarrow> ('d, 'm, 'q, 'e) session \<Rightarrow>
     (('d, 'm, 'q, 'e) session \<times> (exn + fields)) option" where
  "wait_loop vid pid timeout end_at [] s = None"
| "wait_loop vid pid timeout end_at ((now, ports) # ts) s =
     (if \<not> now < end_at then
        Some (refuse ''serial_wait_timeout'' [(''vid'', PStr vid), (''pid'', PStr pid), (''timeout'', PNum timeout)]
          (Exn TimeoutErr (PFStr [PStr ''no serial port with VID='', PStr vid, PStr '' PID='', PStr pid, PStr '' appeared within '', PNum timeout, PStr ''s''])) s)
      else case wait_match vid pid ports of
        Some p \<Rightarrow>
          Some (mthen (ss_emit ''serial_wait_matched'' [(''vid'', PStr vid), (''pid'', PStr pid), (''device'', PStr (pi_device p))])
            (mret [(''device'', PStr (pi_device p)), (''serial_number'', PStr (case pi_serial p of Some sn \<Rightarrow> sn | None \<Rightarrow> []))]) s)
      | None \<Rightarrow> wait_loop vid pid timeout end_at ts s)"

definition s_serial_wait ::
  "('d, 'm, 'q, 'e) world \<Rightarrow> string \<Rightarrow> string \<Rightarrow> pfloat \<Rightarrow> rat \<Rightarrow> (rat \<times> port_info list) list \<Rightarrow> ('d, 'm, 'q, 'e) session \<Rightarrow>
     (('d, 'm, 'q, 'e) session \<times> (exn + fields)) option" where
  "s_serial_wait W vid pid timeout start ts s =
     (case mthen check_open (mthen (ss_check_kind (wd_env W) ''serial'')
        (refuse_range (in_range01 timeout 3600) ''wait_refused'' [(''vid'', PStr vid), (''pid'', PStr pid)]
          (PFStr [PStr ''timeout '', PNum timeout, PStr '' out of (0, 3600]''])
          (PFStr [PStr ''serial_wait timeout must be in (0, 3600] seconds, got '', PNum timeout]))) s of
        (s1, Inl e) \<Rightarrow> Some (s1, Inl e)
      | (s1, Inr _) \<Rightarrow> wait_loop vid pid timeout (start + float_rat timeout) ts s1)"

section \<open>Opening\<close>

text \<open>Everything before the lock; the result is the resolved port.\<close>

definition by_serial_prefix :: string where
  "by_serial_prefix = ''by-serial:''"

definition serial_open_gate ::
  "('d, 'm, 'q, 'e) world \<Rightarrow> port_info list \<Rightarrow> string \<Rightarrow> string \<Rightarrow> pfloat \<Rightarrow> (('d, 'm, 'q, 'e) session, string) act" where
  "serial_open_gate W comports name port timeout =
     mthen check_open
       (mthen (ss_check_kind (wd_env W) ''serial'')
         (mthen (refuse_range (in_range01 timeout 600) ''serial_open_refused'' [(''conn'', PStr name), (''port'', PStr port)]
             (PFStr [PStr ''timeout '', PNum timeout, PStr '' out of (0, 600]''])
             (PFStr [PStr ''serial_open timeout must be in (0, 600] seconds, got '', PNum timeout]))
           (if prefix by_serial_prefix port then
              let wanted = strip (drop (length by_serial_prefix) port) in
              (case resolve_by_serial comports wanted of
                 Inr device \<Rightarrow> mret device
               | Inl e \<Rightarrow> refuse ''serial_open_refused'' [(''conn'', PStr name), (''port'', PStr port),
                   (''reason'', PFStr [PStr ''no serial_number matching '', PRepr (PStr wanted)])] e)
            else mret port)))"

definition new_serial :: "('d, 'm, 'q, 'e) world \<Rightarrow> string \<Rightarrow> nat \<Rightarrow> 'd serial" where
  "new_serial W port baudrate =
     \<lparr>st_port = port, st_baudrate = baudrate, st_win32 = wd_win32 W, st_hooked = True, st_opened = False,
      st_dev = fst (wd_fresh W), st_log = []\<rparr>"

definition serial_open_locked :: "('d, 'm, 'q, 'e) world \<Rightarrow> string \<Rightarrow> string \<Rightarrow> nat \<Rightarrow> (('d, 'm, 'q, 'e) session, unit) act" where
  "serial_open_locked W name port baudrate =
     open_locked W ''serial'' name (RSerial (new_serial W port baudrate)) (serial_raw ''open'' (serial_open (wd_port W)))"

definition s_serial_open ::
  "('d, 'm, 'q, 'e) world \<Rightarrow> port_info list \<Rightarrow> string \<Rightarrow> string \<Rightarrow> nat \<Rightarrow> pfloat \<Rightarrow> (('d, 'm, 'q, 'e) session, unit) act" where
  "s_serial_open W comports name port baudrate timeout =
     mbind (serial_open_gate W comports name port timeout) (\<lambda>port'. serial_open_locked W name port' baudrate)"

section \<open>Writing and reading\<close>

definition busy_text :: "string \<Rightarrow> string \<Rightarrow> string \<Rightarrow> pyval" where
  "busy_text before name after = PFStr [PStr before, PRepr (PStr name), PStr after]"

definition hex_error :: exn where
  "hex_error = Exn ValueErr (PStr ''data_hex is not valid hex: non-hexadecimal number found in fromhex() arg'')"

definition write_gate :: "string \<Rightarrow> string \<Rightarrow> (('d, 'm, 'q, 'e) session, nat \<times> bytes) act" where
  "write_gate name data_hex =
     (case from_hex data_hex of
        None \<Rightarrow> refuse ''write_failed'' [(''conn'', PStr name), (''error'', emsg hex_error)] hex_error
      | Some data \<Rightarrow>
          mbind (mcatch (\<lambda>_. True) (get_kind name ''serial'' ''a serial'')
              (\<lambda>e. refuse ''write_failed'' [(''conn'', PStr name), (''error'', exn_str e)] e)) (\<lambda>i.
            mbind (mget (in_transfer name)) (\<lambda>busy.
              mthen (refuse_busy busy ''write_refused'' name ''serial transfer in progress''
                  (Exn RuntimeErr (busy_text ''a serial transfer is in progress on '' name '' - serial_write would corrupt the staged exchange'')))
                (mbind (mget (in_monitor name)) (\<lambda>busy'.
                  mthen (refuse_busy busy' ''write_refused'' name ''serial monitor in progress''
                      (Exn RuntimeErr (busy_text ''a serial monitor is in progress on '' name '' - serial_write would interleave with the captured stream'')))
                    (mret (i, data)))))))"

definition write_io :: "('d, 'm, 'q, 'e) world \<Rightarrow> string \<Rightarrow> nat \<times> bytes \<Rightarrow> (('d, 'm, 'q, 'e) session, nat) act" where
  "write_io W name p =
     mcatch (catches [TransportClosedError]) (call W (fst p) (serial_raw ''write'' (serial_write (wd_port W) (snd p))))
       (\<lambda>e. refuse ''write_failed'' [(''conn'', PStr name), (''error'', exn_str e)] e)"

definition s_serial_write :: "('d, 'm, 'q, 'e) world \<Rightarrow> string \<Rightarrow> string \<Rightarrow> (('d, 'm, 'q, 'e) session, nat) act" where
  "s_serial_write W name data_hex = mbind (write_gate name data_hex) (write_io W name)"

text \<open>The gates that \<open>serial_read\<close> and \<open>serial_read_line\<close> share: \<open>op\<close> is the prefix of their events.\<close>

definition MAX_READ :: int where "MAX_READ = 1048576"

definition read_gate :: "string \<Rightarrow> string \<Rightarrow> string \<Rightarrow> int \<Rightarrow> (('d, 'm, 'q, 'e) session, nat) act" where
  "read_gate op arg name size' =
     mthen (refuse_range (1 \<le> size' \<and> size' \<le> MAX_READ) (op @ ''_refused'') [(''conn'', PStr name)]
         (PFStr [PStr arg, PStr '' '', PInt size', PStr '' out of [1, 1048576]''])
         (PFStr [PStr ''serial_'', PStr op, PStr '' '', PStr arg, PStr '' must be in [1, 1048576] bytes, got '', PInt size']))
       (mbind (mget (\<lambda>s. (has_reader name s, in_transfer name s, in_monitor name s))) (\<lambda>(reader, transfer, monitor).
         mthen (refuse_busy reader (op @ ''_refused'') name ''background reader attached''
             (Exn RuntimeErr (busy_text ''transport '' name '' has a background reader - use serial_tail/serial_read_until (a direct read would race the reader for bytes)'')))
           (mthen (refuse_busy transfer (op @ ''_refused'') name ''serial transfer in progress''
               (Exn RuntimeErr (busy_text ''a serial transfer is in progress on '' name ('' - serial_'' @ op @ '' would steal the exchange'' @ [quote_char] @ ''s answer bytes''))))
             (mthen (refuse_busy monitor (op @ ''_refused'') name ''serial monitor in progress''
                 (Exn RuntimeErr (busy_text ''a serial monitor is in progress on '' name ('' - serial_'' @ op @ '' would steal the captured bytes''))))
               (journaled_key_error (op @ ''_failed'') name (get_kind name ''serial'' ''a serial''))))))"

definition s_serial_read :: "('d, 'm, 'q, 'e) world \<Rightarrow> string \<Rightarrow> int \<Rightarrow> (('d, 'm, 'q, 'e) session, string) act" where
  "s_serial_read W name size' =
     mbind (read_gate ''read'' ''size'' name size') (\<lambda>i.
       mbind (call W i (serial_raw ''read'' (serial_read (wd_port W) (nat size')))) (\<lambda>data. mret (to_hex data)))"

definition s_serial_read_line :: "('d, 'm, 'q, 'e) world \<Rightarrow> string \<Rightarrow> int \<Rightarrow> (('d, 'm, 'q, 'e) session, string) act" where
  "s_serial_read_line W name max_len =
     mbind (read_gate ''read_line'' ''max_len'' name max_len) (\<lambda>i.
       mbind (call W i (serial_raw ''read_line'' (serial_read_line (wd_port W) (nat max_len)))) (\<lambda>data. mret (to_hex data)))"

definition s_serial_reset :: "('d, 'm, 'q, 'e) world \<Rightarrow> string \<Rightarrow> pyval \<Rightarrow> pyval \<Rightarrow> (('d, 'm, 'q, 'e) session, unit) act" where
  "s_serial_reset W name pulse settle =
     mbind (journaled_key_error ''reset_failed'' name (get_kind name ''serial'' ''a serial'')) (\<lambda>i.
       call W i (serial_raw ''reset'' (serial_reset (wd_port W) pulse settle)))"

section \<open>Transfers\<close>

text \<open>The board as \<open>mprepl\<close> sees it through the wrapped transport: the device is the session itself.\<close>

definition conn_board :: "('d, 'm, 'q, 'e) world \<Rightarrow> nat \<Rightarrow> ('d, 'm, 'q, 'e) session board" where
  "conn_board W i = \<lparr>
     bd_read = (\<lambda>n. call W i (serial_raw ''read'' (serial_read (wd_port W) n))),
     bd_write = (\<lambda>b. mbind (call W i (serial_raw ''write'' (serial_write (wd_port W) b))) (\<lambda>_. mret ())),
     bd_clock = (\<lambda>s. (s\<lparr>ss_tick := Suc (ss_tick s)\<rparr>, wd_clock W (ss_tick s))),
     bd_sleep = (\<lambda>_ s. s)\<rparr>"

definition transfer_fields :: "string \<Rightarrow> string \<Rightarrow> string \<Rightarrow> fields" where
  "transfer_fields name source target = [(''conn'', PStr name), (''source'', PStr source), (''target'', PStr target)]"

text \<open>The locked gate of \<open>serial_put\<close> (\<open>op = ''put''\<close>) and \<open>serial_get\<close>; it ends by registering the transfer.\<close>

definition transfer_gate :: "string \<Rightarrow> string \<Rightarrow> (('d, 'm, 'q, 'e) session, nat) act" where
  "transfer_gate op name =
     mbind (mget (has_reader name)) (\<lambda>reader.
       mthen (refuse_busy reader (op @ ''_refused'') name ''background reader attached''
           (Exn RuntimeErr (busy_text ''transport '' name ('' has a background reader - stop it before serial_'' @ op @ '' (the transfer reads the board'' @ [quote_char] @ ''s answers)''))))
         (mbind (journaled_key_error (op @ ''_failed'') name (ss_get name)) (\<lambda>i.
           mbind (mget (\<lambda>s. (in_transfer name s, in_monitor name s))) (\<lambda>(transfer, monitor).
             mthen (refuse_busy transfer ''transfer_refused'' name ''transfer in progress''
                 (Exn RuntimeErr (busy_text ''a serial transfer is already in progress on '' name [])))
               (mthen (refuse_busy monitor (op @ ''_refused'') name ''serial monitor in progress''
                   (Exn RuntimeErr (busy_text ''a serial monitor is in progress on '' name ('' - serial_'' @ op @ '' would race it for the board'' @ [quote_char] @ ''s answers''))))
                 (mthen (mmod (\<lambda>s. s\<lparr>ss_transfers := List.insert name (ss_transfers s)\<rparr>)) (mret i)))))))"

definition end_transfer :: "string \<Rightarrow> ('d, 'm, 'q, 'e) session \<Rightarrow> ('d, 'm, 'q, 'e) session" where
  "end_transfer name s = s\<lparr>ss_transfers := removeAll name (ss_transfers s)\<rparr>"

definition put_before :: "('d, 'm, 'q, 'e) world \<Rightarrow> string \<Rightarrow> string \<Rightarrow> string \<Rightarrow> (('d, 'm, 'q, 'e) session, bytes) act" where
  "put_before W name source target =
     mthen check_open
       (mthen (ss_check_kind (wd_env W) ''serial'')
         (mcatch (\<lambda>_. True) (on_sandbox (read_file source))
           (\<lambda>e. refuse ''serial_put_failed'' (transfer_fields name source target @ [(''error'', exn_str e)]) e)))"

definition put_exchange :: "('d, 'm, 'q, 'e) world \<Rightarrow> nat \<Rightarrow> bytes \<Rightarrow> string \<Rightarrow> (('d, 'm, 'q, 'e) session, nat) prog" where
  "put_exchange W i data target s =
     map_option (\<lambda>(m, r). (mp_dev m, r)) (put_file (conn_board W i) DEFAULT_CHUNK data target \<lparr>mp_buf = [], mp_dev = s\<rparr>)"

text \<open>The handler, the \<open>finally\<close> and the event of success.\<close>

definition put_end :: "string \<Rightarrow> string \<Rightarrow> string \<Rightarrow> bytes \<Rightarrow> exn + nat \<Rightarrow> (('d, 'm, 'q, 'e) session, nat) act" where
  "put_end name source target data r =
     mthen (mfinally
         (case r of
            Inl e \<Rightarrow> refuse ''serial_put_failed'' (transfer_fields name source target @ [(''error'', exn_str e)]) e
          | Inr _ \<Rightarrow> mret ())
         (end_transfer name))
       (mthen (ss_emit ''serial_put'' (transfer_fields name source target @ [(''bytes'', PInt (int (length data)))]))
         (mret (length data)))"

definition s_serial_put :: "('d, 'm, 'q, 'e) world \<Rightarrow> string \<Rightarrow> string \<Rightarrow> string \<Rightarrow> (('d, 'm, 'q, 'e) session, nat) prog" where
  "s_serial_put W name source target =
     pbind (pact (put_before W name source target)) (\<lambda>data.
       pbind (pact (transfer_gate ''put'' name)) (\<lambda>i s.
         Option.bind (put_exchange W i data target s) (\<lambda>(s', r). pact (put_end name source target data r) s')))"

definition get_before :: "('d, 'm, 'q, 'e) world \<Rightarrow> (('d, 'm, 'q, 'e) session, unit) act" where
  "get_before W = mthen check_open (ss_check_kind (wd_env W) ''serial'')"

definition get_exchange :: "('d, 'm, 'q, 'e) world \<Rightarrow> nat \<Rightarrow> string \<Rightarrow> (('d, 'm, 'q, 'e) session, bytes) prog" where
  "get_exchange W i target s =
     map_option (\<lambda>(m, r). (mp_dev m, r)) (get_file (conn_board W i) DEFAULT_CHUNK target \<lparr>mp_buf = [], mp_dev = s\<rparr>)"

definition get_end :: "string \<Rightarrow> string \<Rightarrow> string \<Rightarrow> exn + bytes \<Rightarrow> (('d, 'm, 'q, 'e) session, nat) act" where
  "get_end name target dest r =
     mbind (mfinally
         (case r of
            Inl e \<Rightarrow> refuse ''serial_get_failed'' (transfer_fields name target dest @ [(''error'', exn_str e)]) e
          | Inr data \<Rightarrow>
              mcatch (\<lambda>_. True) (on_sandbox (write_file dest data True))
                (\<lambda>e. refuse ''serial_get_failed'' (transfer_fields name target dest @ [(''error'', exn_str e)]) e))
         (end_transfer name))
       (\<lambda>written.
         mthen (ss_emit ''serial_get'' (transfer_fields name target dest @ [(''bytes'', PInt (int written))])) (mret written))"

definition s_serial_get :: "('d, 'm, 'q, 'e) world \<Rightarrow> string \<Rightarrow> string \<Rightarrow> string \<Rightarrow> (('d, 'm, 'q, 'e) session, nat) prog" where
  "s_serial_get W name target dest =
     pbind (pact (get_before W)) (\<lambda>_.
       pbind (pact (transfer_gate ''get'' name)) (\<lambda>i s.
         Option.bind (get_exchange W i target s) (\<lambda>(s', r). pact (get_end name target dest r) s')))"

end
