(* ===== verification/SessionReaders.thy ===== *)
theory SessionReaders
  imports SessionSerial
begin

text \<open>
  \<open>src/io_core/session.py\<close>, the capture window of \<open>serial_monitor\<close> and the background
  readers of the session.
\<close>

section \<open>The monitor\<close>

text \<open>The arguments: \<open>None\<close> is an option that is off.\<close>

record monitor_args =
  ma_max_bytes :: int
  ma_max_seconds :: pfloat
  ma_quiet :: "pfloat option"
  ma_pattern :: "string option"
  ma_dump :: "string option"

definition MAX_BYTES_CAP :: int where "MAX_BYTES_CAP = 1048576"

definition monitor_refused :: "string \<Rightarrow> pyval \<Rightarrow> pyval \<Rightarrow> bool \<Rightarrow> (('d, 'm, 'q, 'e) session, unit) act" where
  "monitor_refused name reason text ok = refuse_range ok ''monitor_refused'' [(''conn'', PStr name)] reason text"

definition opt_num :: "pfloat option \<Rightarrow> pyval" where
  "opt_num x = (case x of None \<Rightarrow> PNone | Some f \<Rightarrow> PNum f)"

definition monitor_before :: "('d, 'm, 'q, 'e) world \<Rightarrow> string \<Rightarrow> monitor_args \<Rightarrow> (('d, 'm, 'q, 'e) session, unit) act" where
  "monitor_before W name a =
     mthen (monitor_refused name (PFStr [PStr ''max_bytes '', PInt (ma_max_bytes a), PStr '' out of bounds''])
         (PFStr [PStr ''serial_monitor max_bytes must be in ([1, 1048576], got '', PInt (ma_max_bytes a)])
         (1 \<le> ma_max_bytes a \<and> ma_max_bytes a \<le> MAX_BYTES_CAP))
       (mthen (monitor_refused name (PFStr [PStr ''max_seconds '', PNum (ma_max_seconds a), PStr '' out of bounds''])
           (PFStr [PStr ''serial_monitor max_seconds must be in ((0, 3600], got '', PNum (ma_max_seconds a)])
           (in_range01 (ma_max_seconds a) 3600))
         (mthen (monitor_refused name (PFStr [PStr ''quiet_seconds '', opt_num (ma_quiet a), PStr '' out of bounds''])
             (PFStr [PStr ''serial_monitor quiet_seconds must be in ((0, 3600], got '', opt_num (ma_quiet a)])
             (case ma_quiet a of None \<Rightarrow> True | Some q \<Rightarrow> in_range01 q 3600))
           (mthen (monitor_refused name (PStr ''stop_pattern is empty'') (PStr ''serial_monitor stop_pattern must not be empty'')
               (ma_pattern a \<noteq> Some []))
             (mthen (monitor_refused name (PStr ''dump_path is empty'') (PStr ''serial_monitor dump_path must not be empty'')
                 (ma_dump a \<noteq> Some []))
               (mthen check_open (ss_check_kind (wd_env W) ''serial''))))))"

definition monitor_gate :: "string \<Rightarrow> (('d, 'm, 'q, 'e) session, nat) act" where
  "monitor_gate name =
     mbind (mget (\<lambda>s. (has_reader name s, in_transfer name s, in_monitor name s))) (\<lambda>(reader, transfer, monitor).
       mthen (refuse_busy reader ''monitor_refused'' name ''background reader attached''
           (Exn RuntimeErr (busy_text ''transport '' name '' has a background reader - stop it before serial_monitor (the two would race for the same bytes)'')))
         (mthen (refuse_busy transfer ''monitor_refused'' name ''serial transfer in progress''
             (Exn RuntimeErr (busy_text ''a serial transfer is in progress on '' name ('' - serial_monitor would steal the exchange'' @ [quote_char] @ ''s answer bytes''))))
           (mthen (refuse_busy monitor ''monitor_refused'' name ''serial monitor already in progress''
               (Exn RuntimeErr (busy_text ''a serial monitor is already in progress on '' name [])))
             (mbind (journaled_key_error ''monitor_failed'' name (ss_get name)) (\<lambda>i.
               mthen (mmod (\<lambda>s. s\<lparr>ss_monitors := List.insert name (ss_monitors s)\<rparr>)) (mret i))))))"

definition end_monitor :: "string \<Rightarrow> ('d, 'm, 'q, 'e) session \<Rightarrow> ('d, 'm, 'q, 'e) session" where
  "end_monitor name s = s\<lparr>ss_monitors := removeAll name (ss_monitors s)\<rparr>"

text \<open>\<open>getattr(t, "in_waiting", None)\<close>: a property, so no wrapper limits it.\<close>

definition poll_waiting :: "('d, 'm, 'q, 'e) world \<Rightarrow> nat \<Rightarrow> (('d, 'm, 'q, 'e) session, nat option) act" where
  "poll_waiting W i =
     mcatch (catches [AttributeErr, OSErr, ValueErr, TransportClosedError])
       (mbind (call_raw i (serial_raw ''in_waiting'' (serial_in_waiting (wd_port W)))) (\<lambda>n. mret (Some n)))
       (\<lambda>_. mret None)"

text \<open>\<open>buf.find(needle, max(0, prev_len - len(needle) + 1)) >= 0\<close>.\<close>

definition pattern_seen :: "bytes \<Rightarrow> nat \<Rightarrow> bytes \<Rightarrow> bool" where
  "pattern_seen needle prev_len buf = occurs needle (drop (Suc prev_len - length needle) buf)"

text \<open>
  The reading loop; it ends with the capture and the reason. A pause is no step of its own: time
  is what the clock answers next. \<open>None\<close> is a window that never ends.
\<close>

partial_function (option) monitor_loop ::
  "('d, 'm, 'q, 'e) world \<Rightarrow> nat \<Rightarrow> int \<Rightarrow> rat \<Rightarrow> rat option \<Rightarrow> bytes option \<Rightarrow> bytes \<Rightarrow> rat \<Rightarrow> ('d, 'm, 'q, 'e) session \<Rightarrow>
     (('d, 'm, 'q, 'e) session \<times> (exn + (bytes \<times> string))) option" where
  "monitor_loop W i max_bytes deadline quiet needle buf last_data s =
     (let now = wd_clock W (ss_tick s); s0 = s\<lparr>ss_tick := Suc (ss_tick s)\<rparr>; remaining = max_bytes - int (length buf) in
      if remaining \<le> 0 then Some (s0, Inr (buf, ''max_bytes''))
      else if deadline \<le> now then Some (s0, Inr (buf, ''max_seconds''))
      else if quiet \<noteq> None \<and> the quiet \<le> now - last_data then Some (s0, Inr (buf, ''quiet''))
      else case poll_waiting W i s0 of
        (s1, Inl e) \<Rightarrow> Some (s1, Inl e)
      | (s1, Inr w) \<Rightarrow>
          (if w = Some 0 then monitor_loop W i max_bytes deadline quiet needle buf last_data s1
           else case call W i (serial_raw ''read'' (serial_read (wd_port W)
                  (nat (min (case w of Some n \<Rightarrow> min (int n) 4096 | None \<Rightarrow> 4096) remaining)))) s1 of
             (s2, Inl e) \<Rightarrow> Some (s2, Inl e)
           | (s2, Inr chunk) \<Rightarrow>
               (if chunk = [] then monitor_loop W i max_bytes deadline quiet needle buf last_data s2
                else
                  let buf' = buf @ chunk; last' = wd_clock W (ss_tick s2); s3 = s2\<lparr>ss_tick := Suc (ss_tick s2)\<rparr> in
                  if needle \<noteq> None \<and> pattern_seen (the needle) (length buf) buf' then Some (s3, Inr (buf', ''pattern''))
                  else monitor_loop W i max_bytes deadline quiet needle buf' last' s3)))"

record monitor_view =
  mv_data :: bytes
  mv_stop_reason :: string
  mv_duration :: rat
  mv_dump :: "string option"
  mv_dump_error :: "pyval option"

definition monitor_window ::
  "('d, 'm, 'q, 'e) world \<Rightarrow> string \<Rightarrow> nat \<Rightarrow> monitor_args \<Rightarrow> (('d, 'm, 'q, 'e) session, monitor_view) prog" where
  "monitor_window W name i a =
     pbind (pact (read_clock W)) (\<lambda>start.
       pbind (pcatch (\<lambda>_. True)
           (monitor_loop W i (ma_max_bytes a) (start + float_rat (ma_max_seconds a)) (map_option float_rat (ma_quiet a))
             (map_option encode_str (ma_pattern a)) [] start)
           (\<lambda>e. pact (refuse ''monitor_failed'' [(''conn'', PStr name), (''error'', exn_str e)] e)))
         (\<lambda>(buf, reason). pbind (pact (read_clock W)) (\<lambda>now.
           pret \<lparr>mv_data = buf, mv_stop_reason = reason, mv_duration = now - start, mv_dump = None, mv_dump_error = None\<rparr>)))"

definition monitor_event :: "string \<Rightarrow> monitor_args \<Rightarrow> monitor_view \<Rightarrow> fields" where
  "monitor_event name a v =
     [(''conn'', PStr name), (''bytes'', PInt (int (length (mv_data v)))), (''stop_reason'', PStr (mv_stop_reason v)),
      (''duration_sec'', PNum (Fin (mv_duration v))), (''max_bytes'', PInt (ma_max_bytes a)), (''max_seconds'', PNum (ma_max_seconds a)),
      (''quiet_seconds'', opt_num (ma_quiet a)), (''pattern'', PBool (ma_pattern a \<noteq> None)),
      (''dump'', case mv_dump v of None \<Rightarrow> PNone | Some p \<Rightarrow> PStr p)]"

text \<open>After the window: the dump into the sandbox, and the summary.\<close>

definition monitor_end :: "string \<Rightarrow> monitor_args \<Rightarrow> monitor_view \<Rightarrow> (('d, 'm, 'q, 'e) session, monitor_view) act" where
  "monitor_end name a v =
     mbind (case ma_dump a of
          None \<Rightarrow> mret v
        | Some path \<Rightarrow>
            mcatch (catches [OSErr, QuotaExceeded, SandboxViolation])
              (mbind (on_sandbox (write_file path (mv_data v) True)) (\<lambda>_. mret (v\<lparr>mv_dump := Some path\<rparr>)))
              (\<lambda>e. mthen (ss_emit ''monitor_dump_failed'' [(''conn'', PStr name), (''path'', PStr path), (''error'', exn_str e)])
                 (mret (v\<lparr>mv_dump_error := Some (exn_str e)\<rparr>))))
       (\<lambda>v'. mthen (ss_emit ''serial_monitor'' (monitor_event name a v')) (mret v'))"

definition s_serial_monitor :: "('d, 'm, 'q, 'e) world \<Rightarrow> string \<Rightarrow> monitor_args \<Rightarrow> (('d, 'm, 'q, 'e) session, monitor_view) prog" where
  "s_serial_monitor W name a =
     pbind (pact (monitor_before W name a)) (\<lambda>_.
       pbind (pact (monitor_gate name)) (\<lambda>i.
         pbind (\<lambda>s. map_option (\<lambda>(s', r). (end_monitor name s', r)) (monitor_window W name i a s))
           (\<lambda>v. pact (monitor_end name a v))))"

section \<open>Background readers\<close>

definition stats_fields :: "reader \<Rightarrow> fields" where
  "stats_fields r = (case stats r of (buffered, dropped, chunks) \<Rightarrow>
     [(''buffered'', PInt buffered), (''dropped'', PInt dropped), (''chunks'', PInt (int chunks))])"

definition set_reader :: "string \<Rightarrow> nat \<times> reader \<Rightarrow> ('d, 'm, 'q, 'e) session \<Rightarrow> ('d, 'm, 'q, 'e) session" where
  "set_reader name x s = s\<lparr>ss_readers := AList.update name x (ss_readers s)\<rparr>"

definition drop_reader :: "string \<Rightarrow> ('d, 'm, 'q, 'e) session \<Rightarrow> ('d, 'm, 'q, 'e) session" where
  "drop_reader name s = s\<lparr>ss_readers := AList.delete name (ss_readers s)\<rparr>"

definition no_serial_text :: "string \<Rightarrow> pyval" where
  "no_serial_text name = PFStr [PStr ''serial transport '', PRepr (PStr name), PStr '' is not open'']"

text \<open>The gates of \<open>serial_reader_start\<close> give the raw transport and a new reader; then registration, event, start.\<close>

definition reader_gate :: "string \<Rightarrow> int \<Rightarrow> (('d, 'm, 'q, 'e) session, nat \<times> reader) act" where
  "reader_gate name max_bytes =
     mthen (refuse_range (512 \<le> max_bytes \<and> max_bytes \<le> 16777216) ''reader_start_refused'' [(''conn'', PStr name)]
         (PFStr [PStr ''max_bytes '', PInt max_bytes, PStr '' out of [512, 16777216]''])
         (PFStr [PStr ''serial_reader_start max_bytes must be in [512, 16777216] bytes, got '', PInt max_bytes]))
       (mbind (mget (\<lambda>s. (map_of (ss_serial_base s) name, has_reader name s, in_transfer name s, in_monitor name s)))
         (\<lambda>(base, reader, transfer, monitor).
           case base of
             None \<Rightarrow> refuse ''reader_start_failed'' [(''conn'', PStr name), (''error'', no_serial_text name)] (Exn KeyErr (no_serial_text name))
           | Some i \<Rightarrow>
               mthen (refuse_busy reader ''reader_start_refused'' name ''background reader already attached''
                   (Exn KeyErr (busy_text ''transport '' name '' already has a background reader'')))
                 (mthen (refuse_busy transfer ''reader_start_refused'' name ''serial transfer in progress''
                     (Exn RuntimeErr (busy_text ''a serial transfer is in progress on '' name ('' - serial_reader_start would race it for the board'' @ [quote_char] @ ''s answers''))))
                   (mthen (refuse_busy monitor ''reader_start_refused'' name ''serial monitor in progress''
                       (Exn RuntimeErr (busy_text ''a serial monitor is in progress on '' name '' - serial_reader_start would race it for the captured bytes'')))
                     (mbind (mlift (reader_init max_bytes 512)) (\<lambda>r. mret (i, r)))))))"

definition reader_attach :: "string \<Rightarrow> int \<Rightarrow> nat \<times> reader \<Rightarrow> (('d, 'm, 'q, 'e) session, fields) act" where
  "reader_attach name max_bytes = (\<lambda>(i, r).
     mthen (mmod (set_reader name (i, r)))
       (mthen (ss_emit ''reader_start'' [(''conn'', PStr name), (''max_bytes'', PInt max_bytes)])
         (mthen (mmod (set_reader name (i, reader_start r))) (mret (stats_fields (reader_start r))))))"

definition s_serial_reader_start :: "string \<Rightarrow> int \<Rightarrow> (('d, 'm, 'q, 'e) session, fields) act" where
  "s_serial_reader_start name max_bytes = mbind (reader_gate name max_bytes) (reader_attach name max_bytes)"

text \<open>
  \<open>SerialReader.stop\<close> on the raw transport: a read in flight is cancelled only when the port
  cannot be polled; \<open>wd_alive\<close> says whether the thread outlives the join.
\<close>

definition stop_reader_object :: "('d, 'm, 'q, 'e) world \<Rightarrow> nat \<Rightarrow> reader \<Rightarrow> (('d, 'm, 'q, 'e) session, reader \<times> bool) act" where
  "stop_reader_object W i r =
     (if rd_thread r = None then mret (reader_stop (wd_alive W) r)
      else mbind (reified (call_raw i (serial_raw ''in_waiting'' (serial_in_waiting (wd_port W))))) (\<lambda>w.
        let polled = map_sum id Some w in
        mthen (if stop_cancels polled r then
                 mcatch (catches [AttributeErr, OSErr, ValueErr, TransportClosedError])
                   (call_raw i (serial_raw ''cancel_read'' (serial_cancel_read (wd_port W)))) (\<lambda>_. mret ())
               else (case w of Inl e \<Rightarrow> mraise e | Inr _ \<Rightarrow> mret ()))
          (mret (reader_stop (wd_alive W) r))))"

definition no_reader_text :: "string \<Rightarrow> pyval" where
  "no_reader_text name = PFStr [PStr ''transport '', PRepr (PStr name), PStr '' has no background reader'']"

definition s_serial_reader_stop :: "('d, 'm, 'q, 'e) world \<Rightarrow> string \<Rightarrow> (('d, 'm, 'q, 'e) session, fields) act" where
  "s_serial_reader_stop W name =
     mbind (mget (\<lambda>s. map_of (ss_readers s) name)) (\<lambda>entry.
       case entry of
         None \<Rightarrow> refuse ''reader_stop_failed'' [(''conn'', PStr name), (''error'', no_reader_text name)] (Exn KeyErr (no_reader_text name))
       | Some (i, r) \<Rightarrow>
           mbind (mthen (mmod (set_reader name (i, r\<lparr>rd_stop := True\<rparr>))) (stop_reader_object W i r)) (\<lambda>(r', stopped).
             mthen (mmod (if stopped then drop_reader name else set_reader name (i, r')))
               (mthen (ss_emit (if stopped then ''reader_stop'' else ''reader_stop_failed'') ((''conn'', PStr name) # stats_fields r'))
                 (mret (stats_fields r' @ [(''stopped'', PBool stopped)])))))"

definition ss_reader :: "string \<Rightarrow> string \<Rightarrow> (('d, 'm, 'q, 'e) session, nat \<times> reader) act" where
  "ss_reader name op =
     mbind (mget (\<lambda>s. map_of (ss_readers s) name)) (\<lambda>entry.
       case entry of
         Some x \<Rightarrow> mret x
       | None \<Rightarrow> refuse (op @ ''_failed'') [(''conn'', PStr name), (''error'', no_reader_text name)] (Exn KeyErr (no_reader_text name)))"

definition s_serial_tail :: "string \<Rightarrow> int \<Rightarrow> (('d, 'm, 'q, 'e) session, tail_view) act" where
  "s_serial_tail name size' =
     mthen (refuse_range (1 \<le> size' \<and> size' \<le> MAX_READ) ''tail_refused'' [(''conn'', PStr name)]
         (PFStr [PStr ''size '', PInt size', PStr '' out of [1, 1048576]''])
         (PFStr [PStr ''serial_tail size must be in [1, 1048576] bytes, got '', PInt size']))
       (mbind (ss_reader name ''tail'') (\<lambda>(i, r). mret (tail_of size' r)))"

text \<open>\<open>turns\<close>: what the background thread and others do to this reader while the call waits.\<close>

definition s_serial_read_until ::
  "string \<Rightarrow> string \<Rightarrow> pfloat \<Rightarrow> rat \<Rightarrow> (bg list \<times> rat) list \<Rightarrow> (('d, 'm, 'q, 'e) session, until_view) prog" where
  "s_serial_read_until name pattern timeout start turns =
     pbind (pact (mthen (refuse_range (in_range01 timeout 3600) ''read_until_refused'' [(''conn'', PStr name)]
         (PFStr [PStr ''timeout '', PNum timeout, PStr '' out of (0, 3600]''])
         (PFStr [PStr ''serial_read_until timeout must be in (0, 3600] seconds, got '', PNum timeout]))
       (ss_reader name ''read_until''))) (\<lambda>(i, r) s.
         map_option (\<lambda>(r', v). (set_reader name (i, r') s, v)) (read_until pattern (float_rat timeout) start turns r))"

text \<open>\<open>_stop_reader\<close>: the reference is dropped before the stop, and also when the stop fails.\<close>

definition stop_reader :: "('d, 'm, 'q, 'e) world \<Rightarrow> string \<Rightarrow> bool \<Rightarrow> (('d, 'm, 'q, 'e) session, unit) act" where
  "stop_reader W name implicit =
     mbind (mget (\<lambda>s. map_of (ss_readers s) name)) (\<lambda>entry.
       case entry of
         None \<Rightarrow> mret ()
       | Some (i, r) \<Rightarrow>
           mthen (mmod (drop_reader name))
             (mbind (stop_reader_object W i r) (\<lambda>(r', stopped).
               if implicit
               then ss_emit (if stopped then ''reader_stop'' else ''reader_stop_failed'')
                 ([(''conn'', PStr name), (''implicit'', PBool True)] @ stats_fields r')
               else mret ())))"

text \<open>
  One turn of the background thread of a registered reader, on the raw transport and so past the
  limits; \<open>late\<close> says that the stop flag was set while the turn waited for the I/O lock.
\<close>

definition reader_pump :: "('d, 'm, 'q, 'e) world \<Rightarrow> bool \<Rightarrow> string \<Rightarrow> (('d, 'm, 'q, 'e) session, unit) act" where
  "reader_pump W late name =
     mbind (mget (\<lambda>s. map_of (ss_readers s) name)) (\<lambda>entry.
       case entry of
         None \<Rightarrow> mret ()
       | Some (i, r) \<Rightarrow>
           if \<not> running r \<or> rd_stop r then mmod (set_reader name (i, r\<lparr>rd_thread := map_option (\<lambda>_. False) (rd_thread r)\<rparr>))
           else mbind (poll_waiting W i) (\<lambda>w.
             let n = (case w of Some k \<Rightarrow> min k (rd_chunk r) | None \<Rightarrow> rd_chunk r) in
             mbind (if w = Some 0 \<or> late then mret (Inr [])
                    else reified (call_raw i (serial_raw ''read'' (serial_read (wd_port W) n)))) (\<lambda>got.
               mbind (read_clock W) (\<lambda>now.
                 case pump_turn w late (\<lambda>_. got) now r of
                   (r', go_on) \<Rightarrow> mmod (set_reader name (i, if go_on then r' else r'\<lparr>rd_thread := Some False\<rparr>))))))"

end
