(* ===== verification/SessionOps.thy ===== *)
theory SessionOps
  imports SessionReaders
begin

text \<open>
  \<open>src/io_core/session.py\<close>, the other operations: Modbus, MQTT, flashing, files, the
  introspection and the life cycle of connections and of the session.
\<close>

section \<open>Modbus\<close>

definition open_gate :: "string \<Rightarrow> string \<Rightarrow> string \<Rightarrow> pfloat \<Rightarrow> (('d, 'm, 'q, 'e) session, unit) act" where
  "open_gate kind name host timeout =
     mthen check_open
       (refuse_range (in_range01 timeout 600) (kind @ ''_open_refused'') [(''conn'', PStr name), (''host'', PStr host)]
         (PFStr [PStr ''timeout '', PNum timeout, PStr '' out of (0, 600]''])
         (PFStr [PStr kind, PStr ''_open timeout must be in (0, 600] seconds, got '', PNum timeout]))"

definition new_modbus :: "('d, 'm, 'q, 'e) world \<Rightarrow> string \<Rightarrow> nat \<Rightarrow> int \<Rightarrow> 'm modbus" where
  "new_modbus W host port device_id =
     \<lparr>mt_host = host, mt_port = port, mt_device_id = device_id, mt_hooked = True, mt_client = False,
      mt_dev = fst (snd (wd_fresh W)), mt_log = []\<rparr>"

definition modbus_open_locked :: "('d, 'm, 'q, 'e) world \<Rightarrow> string \<Rightarrow> string \<Rightarrow> nat \<Rightarrow> int \<Rightarrow> (('d, 'm, 'q, 'e) session, unit) act" where
  "modbus_open_locked W name host port device_id =
     mthen (ss_check_kind (wd_env W) ''modbus'')
       (open_locked W ''modbus'' name (RModbus (new_modbus W host port device_id))
         (modbus_raw ''open'' (modbus_open (wd_env W) (wd_modbus W))))"

definition s_modbus_open :: "('d, 'm, 'q, 'e) world \<Rightarrow> string \<Rightarrow> string \<Rightarrow> nat \<Rightarrow> int \<Rightarrow> pfloat \<Rightarrow> (('d, 'm, 'q, 'e) session, unit) act" where
  "s_modbus_open W name host port device_id timeout =
     mthen (open_gate ''modbus'' name host timeout) (modbus_open_locked W name host port device_id)"

definition s_modbus_read :: "('d, 'm, 'q, 'e) world \<Rightarrow> string \<Rightarrow> int \<Rightarrow> int \<Rightarrow> (('d, 'm, 'q, 'e) session, int list) act" where
  "s_modbus_read W name address count =
     mbind (journaled_key_error ''modbus_read_failed'' name (get_kind name ''modbus'' ''a modbus'')) (\<lambda>i.
       call W i (modbus_raw ''read_holding'' (read_holding (wd_modbus W) address count)))"

definition s_modbus_write :: "('d, 'm, 'q, 'e) world \<Rightarrow> string \<Rightarrow> int \<Rightarrow> int list \<Rightarrow> (('d, 'm, 'q, 'e) session, unit) act" where
  "s_modbus_write W name address values =
     mbind (journaled_key_error ''modbus_write_failed'' name (get_kind name ''modbus'' ''a modbus'')) (\<lambda>i.
       if length values = 1 then call W i (modbus_raw ''write_register'' (write_register (wd_modbus W) address (hd values)))
       else call W i (modbus_raw ''write_registers'' (write_registers (wd_modbus W) address values)))"

section \<open>MQTT\<close>

definition new_mqtt :: "('d, 'm, 'q, 'e) world \<Rightarrow> string \<Rightarrow> nat \<Rightarrow> rat \<Rightarrow> 'q mqtt" where
  "new_mqtt W host port timeout =
     \<lparr>mq_host = host, mq_port = port, mq_timeout = timeout, mq_keepalive = 60, mq_hooked = True, mq_client = False,
      mq_connected = False, mq_closing = False, mq_maxlen = DEFAULT_QUEUE_SIZE, mq_inbox = [], mq_subacks = (\<lambda>_. None),
      mq_dev = snd (snd (wd_fresh W)), mq_log = []\<rparr>"

definition mqtt_open_locked :: "('d, 'm, 'q, 'e) world \<Rightarrow> string \<Rightarrow> string \<Rightarrow> nat \<Rightarrow> rat \<Rightarrow> (('d, 'm, 'q, 'e) session, unit) act" where
  "mqtt_open_locked W name host port timeout =
     mthen (ss_check_kind (wd_env W) ''mqtt'')
       (open_locked W ''mqtt'' name (RMqtt (new_mqtt W host port timeout))
         (mqtt_raw ''open'' (mqtt_open (wd_env W) (wd_mqtt W) (wd_net W) (wd_net' W))))"

definition s_mqtt_open :: "('d, 'm, 'q, 'e) world \<Rightarrow> string \<Rightarrow> string \<Rightarrow> nat \<Rightarrow> pfloat \<Rightarrow> (('d, 'm, 'q, 'e) session, unit) act" where
  "s_mqtt_open W name host port timeout =
     mthen (open_gate ''mqtt'' name host timeout) (mqtt_open_locked W name host port (float_rat timeout))"

definition s_mqtt_publish ::
  "('d, 'm, 'q, 'e) world \<Rightarrow> string \<Rightarrow> string \<Rightarrow> string \<Rightarrow> int \<Rightarrow> bool \<Rightarrow> (('d, 'm, 'q, 'e) session, unit) act" where
  "s_mqtt_publish W name topic payload qos retain =
     mbind (journaled_key_error ''mqtt_publish_failed'' name (get_kind name ''mqtt'' ''an mqtt'')) (\<lambda>i.
       call W i (mqtt_raw ''publish'' (mqtt_publish (wd_mqtt W) topic payload qos retain (wd_net W))))"

text \<open>
  A blocking call of the transport inside the session. It is still running, and so is the session
  operation, exactly when the limits let it through and the transport still waits.
\<close>

definition limits_pass :: "('d, 'm, 'q, 'e) world \<Rightarrow> nat \<Rightarrow> ('d, 'm, 'q, 'e) session \<Rightarrow> bool" where
  "limits_pass W i s = (snd (call W i (mret ()) s) = Inr ())"

definition finished :: "('q mqtt \<times> (exn + 'a)) option \<Rightarrow> ('q mqtt \<times> (exn + 'a))" where
  "finished r = the r"

definition blocking ::
  "('d, 'm, 'q, 'e) world \<Rightarrow> nat \<Rightarrow> string \<Rightarrow> ('q mqtt \<Rightarrow> ('q mqtt \<times> (exn + 'a)) option) \<Rightarrow> (('d, 'm, 'q, 'e) session, 'a) prog" where
  "blocking W i method f s =
     (let waiting = (case cn_raw (ss_heap s ! i) of RMqtt t \<Rightarrow> f (t\<lparr>mq_log := []\<rparr>) = None | _ \<Rightarrow> False) in
      if waiting \<and> limits_pass W i s then None
      else Some (call W i (mqtt_raw method (\<lambda>t. finished (f t))) s))"

definition s_mqtt_subscribe ::
  "('d, 'm, 'q, 'e) world \<Rightarrow> string \<Rightarrow> string \<Rightarrow> int \<Rightarrow> rat \<Rightarrow> turn list \<Rightarrow> (('d, 'm, 'q, 'e) session, unit) prog" where
  "s_mqtt_subscribe W name topic qos start ts =
     pbind (pact (journaled_key_error ''mqtt_subscribe_failed'' name (get_kind name ''mqtt'' ''an mqtt''))) (\<lambda>i.
       blocking W i ''subscribe'' (mqtt_subscribe (wd_mqtt W) topic qos start ts))"

definition s_mqtt_read ::
  "('d, 'm, 'q, 'e) world \<Rightarrow> string \<Rightarrow> pfloat \<Rightarrow> rat \<Rightarrow> turn list \<Rightarrow> (('d, 'm, 'q, 'e) session, message option) prog" where
  "s_mqtt_read W name timeout start ts =
     pbind (pact (mthen (refuse_range (in_range01 timeout 3600) ''mqtt_read_refused'' [(''conn'', PStr name)]
         (PFStr [PStr ''timeout '', PNum timeout, PStr '' out of (0, 3600]''])
         (PFStr [PStr ''mqtt_read timeout must be in (0, 3600] seconds, got '', PNum timeout]))
       (journaled_key_error ''mqtt_read_failed'' name (get_kind name ''mqtt'' ''an mqtt'')))) (\<lambda>i.
         blocking W i ''read_message'' (\<lambda>t. map_option (\<lambda>(t', m). (t', Inr m)) (read_message (float_rat timeout) start ts t)))"

text \<open>Callbacks on the network thread of a client, registered or not.\<close>

definition net_arrives :: "nat \<Rightarrow> net list \<Rightarrow> (('d, 'm, 'q, 'e) session, unit) act" where
  "net_arrives i ns = call_raw i (mqtt_raw ''callback'' (\<lambda>t. (callbacks ns t, Inr ())))"

section \<open>Flashing\<close>

text \<open>The comparison is on text, with the separator: the root \<open>/\<close> contains only itself.\<close>

definition inside_root :: "path \<Rightarrow> path \<Rightarrow> bool" where
  "inside_root base p = (path_str p = path_str base \<or> prefix (path_str base @ ''/'') (path_str p))"

definition esp_sandbox_path :: "environ \<Rightarrow> string \<Rightarrow> string \<Rightarrow> (('d, 'm, 'q, 'e) session, path) act" where
  "esp_sandbox_path env op firmware_path =
     mbind (mget (\<lambda>s. (fx_root (ss_sandbox s), fx_fs (ss_sandbox s)))) (\<lambda>(base, m).
       case realpath m MAX_LINKS [] (if absolute firmware_path then parts firmware_path else base @ parts firmware_path) of
         None \<Rightarrow> mraise (Exn RuntimeErr (PFStr [PStr ''Symlink loop from '', PRepr (PStr firmware_path)]))
       | Some p \<Rightarrow>
           if \<not> inside_root base p \<and> env ALLOW_REAL_FLASH_ENV \<noteq> Some ''1'' then
             refuse ''esp_denied'' [(''op'', PStr op), (''path'', PStr (path_str p)),
                 (''error'', PStr ''path is outside the sandbox (set IRONHARNESS_ALLOW_REAL_FLASH=1 to lift)'')]
               (Exn PolicyViolation (PFStr [PStr ''esp_'', PStr op, PStr '' touches only files inside the sandbox: '', PRepr (PStr (path_str p)),
                  PStr '' is outside (set IRONHARNESS_ALLOW_REAL_FLASH=1 to lift)'']))
           else mret p)"

text \<open>A flasher made for one call, which journals through the session.\<close>

definition host_files_of :: "fs \<Rightarrow> host_files" where
  "host_files_of m p = map_option (\<lambda>bs. Inr (int (length bs))) (file_at m (parts p))"

definition on_flasher :: "('d, 'm, 'q, 'e) world \<Rightarrow> string \<Rightarrow> ('e flasher, 'a) act \<Rightarrow> (('d, 'm, 'q, 'e) session, 'a) act" where
  "on_flasher W chip m s =
     (case m \<lparr>ef_win32 = wd_win32 W, ef_chip = chip, ef_hooked = True, ef_dev = ss_board s, ef_log = []\<rparr> of
        (f, r) \<Rightarrow> journal_events (ef_log f) r (s\<lparr>ss_board := ef_dev f\<rparr>))"

definition s_esp_image_info :: "('d, 'm, 'q, 'e) world \<Rightarrow> string \<Rightarrow> string \<Rightarrow> (('d, 'm, 'q, 'e) session, fields) act" where
  "s_esp_image_info W firmware_path chip =
     mthen check_open (mthen (ss_check_kind (wd_env W) ''esp'')
       (mbind (esp_sandbox_path (wd_env W) ''image_info'' firmware_path) (\<lambda>p.
         mbind (mget (\<lambda>s. fx_fs (ss_sandbox s))) (\<lambda>m.
           on_flasher W chip (image_info (wd_esp W) (host_files_of m) (path_str p))))))"

definition s_esp_flash :: "('d, 'm, 'q, 'e) world \<Rightarrow> string \<Rightarrow> string \<Rightarrow> int \<Rightarrow> int \<Rightarrow> (('d, 'm, 'q, 'e) session, string) act" where
  "s_esp_flash W port firmware_path addr baud =
     mthen check_open (mthen (ss_check_kind (wd_env W) ''esp'')
       (mbind (esp_sandbox_path (wd_env W) ''flash'' firmware_path) (\<lambda>p.
         mbind (mget (\<lambda>s. fx_fs (ss_sandbox s))) (\<lambda>m.
           on_flasher W ''esp32'' (flash (wd_env W) (wd_esp W) (host_files_of m) port (path_str p) addr baud)))))"

definition s_esp_erase :: "('d, 'm, 'q, 'e) world \<Rightarrow> string \<Rightarrow> int \<Rightarrow> (('d, 'm, 'q, 'e) session, string) act" where
  "s_esp_erase W port baud =
     mthen check_open (mthen (ss_check_kind (wd_env W) ''esp'')
       (on_flasher W ''esp32'' (erase (wd_env W) (wd_esp W) port baud)))"

section \<open>Files\<close>

definition file_gate :: "('d, 'm, 'q, 'e) world \<Rightarrow> (sandbox, 'a) act \<Rightarrow> (('d, 'm, 'q, 'e) session, 'a) act" where
  "file_gate W m = mthen check_open (mthen (ss_check_kind (wd_env W) ''file'') (on_sandbox m))"

definition s_file_write :: "('d, 'm, 'q, 'e) world \<Rightarrow> string \<Rightarrow> string \<Rightarrow> (('d, 'm, 'q, 'e) session, nat) act" where
  "s_file_write W path content = file_gate W (write_file path (encode_str content) True)"

definition s_file_read :: "('d, 'm, 'q, 'e) world \<Rightarrow> string \<Rightarrow> (('d, 'm, 'q, 'e) session, pyval) act" where
  "s_file_read W path = mbind (file_gate W (read_file path)) (\<lambda>data. mret (PUtf8 data))"

definition s_file_list :: "('d, 'm, 'q, 'e) world \<Rightarrow> string \<Rightarrow> (('d, 'm, 'q, 'e) session, string list) act" where
  "s_file_list W path = file_gate W (list_dir path)"

definition s_file_delete :: "('d, 'm, 'q, 'e) world \<Rightarrow> string \<Rightarrow> (('d, 'm, 'q, 'e) session, unit) act" where
  "s_file_delete W path = file_gate W (delete_file path)"

section \<open>Closing a connection\<close>

text \<open>\<open>close\<close> of a transport passes the wrappers: which one it is depends on the object.\<close>

definition raw_close :: "('d, 'm, 'q, 'e) world \<Rightarrow> ('d, 'm, 'q, unit) raw_op" where
  "raw_close W = (\<lambda>(r, evs).
     case r of
       RSerial _ \<Rightarrow> serial_raw ''close'' (serial_close (wd_port W)) (r, evs)
     | RModbus _ \<Rightarrow> modbus_raw ''close'' (modbus_close (wd_modbus W)) (r, evs)
     | RMqtt _ \<Rightarrow> mqtt_raw ''close'' (mqtt_close (wd_mqtt W) (wd_net W)) (r, evs))"

definition forget_name :: "string \<Rightarrow> ('d, 'm, 'q, 'e) session \<Rightarrow> ('d, 'm, 'q, 'e) session" where
  "forget_name name s =
     s\<lparr>ss_transports := AList.delete name (ss_transports s), ss_kinds := AList.delete name (ss_kinds s),
       ss_serial_base := AList.delete name (ss_serial_base s)\<rparr>"

text \<open>The name is freed before the transport is closed; an \<open>OSError\<close> of the close is journaled.\<close>

definition close_object :: "('d, 'm, 'q, 'e) world \<Rightarrow> string \<Rightarrow> nat \<Rightarrow> (('d, 'm, 'q, 'e) session, unit) act" where
  "close_object W name i =
     mcatch (catches [OSErr]) (call_raw i (raw_close W))
       (\<lambda>e. refuse ''close_failed'' [(''conn'', PStr name), (''error'', exn_str e)] e)"

definition close_typed :: "('d, 'm, 'q, 'e) world \<Rightarrow> string \<Rightarrow> string \<Rightarrow> (('d, 'm, 'q, 'e) session, unit) act" where
  "close_typed W name kind =
     mbind (journaled_key_error ''close_failed'' name (ss_get name)) (\<lambda>i. mbind (mget ss_kinds) (\<lambda>ks.
       if map_of ks name \<noteq> Some kind then
         let err = PFStr [PStr ''transport '', PRepr (PStr name), PStr '' is not a '', PStr kind, PStr '' transport''] in
         refuse ''close_failed'' [(''conn'', PStr name), (''error'', err)] (Exn KeyErr err)
       else mthen (stop_reader W name True) (mthen (mmod (forget_name name)) (close_object W name i))))"

definition s_serial_close :: "('d, 'm, 'q, 'e) world \<Rightarrow> string \<Rightarrow> (('d, 'm, 'q, 'e) session, unit) act" where
  "s_serial_close W name = close_typed W name ''serial''"

definition s_modbus_close :: "('d, 'm, 'q, 'e) world \<Rightarrow> string \<Rightarrow> (('d, 'm, 'q, 'e) session, unit) act" where
  "s_modbus_close W name = close_typed W name ''modbus''"

definition s_mqtt_close :: "('d, 'm, 'q, 'e) world \<Rightarrow> string \<Rightarrow> (('d, 'm, 'q, 'e) session, unit) act" where
  "s_mqtt_close W name = close_typed W name ''mqtt''"

definition close_transport :: "('d, 'm, 'q, 'e) world \<Rightarrow> string \<Rightarrow> (('d, 'm, 'q, 'e) session, unit) act" where
  "close_transport W name =
     mbind (journaled_key_error ''close_failed'' name (ss_get name)) (\<lambda>i.
       mthen (stop_reader W name True) (mthen (mmod (forget_name name)) (close_object W name i)))"

section \<open>Closing the session\<close>

text \<open>The flag and, under the lock, the registries; what they held is closed afterwards.\<close>

definition close_begin :: "(('d, 'm, 'q, 'e) session, (string \<times> nat) list \<times> (string \<times> nat \<times> reader) list) act" where
  "close_begin = mthen (mmod (\<lambda>s. s\<lparr>ss_closed := True\<rparr>))
     (mbind (mget (\<lambda>s. (ss_transports s, ss_readers s))) (\<lambda>held.
       mthen (mmod (\<lambda>s. s\<lparr>ss_transports := [], ss_kinds := [], ss_serial_base := [], ss_readers := []\<rparr>)) (mret held)))"

definition first_of :: "exn option \<Rightarrow> exn + 'a \<Rightarrow> exn option" where
  "first_of first r = (case first of Some e \<Rightarrow> Some e | None \<Rightarrow> (case r of Inl e \<Rightarrow> Some e | Inr _ \<Rightarrow> None))"

definition close_reader :: "('d, 'm, 'q, 'e) world \<Rightarrow> string \<times> nat \<times> reader \<Rightarrow> (('d, 'm, 'q, 'e) session, unit) act" where
  "close_reader W = (\<lambda>(name, i, r).
     mbind (stop_reader_object W i r) (\<lambda>(r', stopped).
       ss_emit (if stopped then ''reader_stop'' else ''reader_stop_failed'')
         ([(''conn'', PStr name), (''implicit'', PBool True)] @ stats_fields r')))"

fun close_readers :: "('d, 'm, 'q, 'e) world \<Rightarrow> (string \<times> nat \<times> reader) list \<Rightarrow> exn option \<Rightarrow> (('d, 'm, 'q, 'e) session, exn option) act" where
  "close_readers W [] first = mret first"
| "close_readers W (x # xs) first = mbind (reified (close_reader W x)) (\<lambda>r. close_readers W xs (first_of first r))"

text \<open>A failing close is journaled; when the journal raises as well, its error ends the method.\<close>

fun close_transports :: "('d, 'm, 'q, 'e) world \<Rightarrow> (string \<times> nat) list \<Rightarrow> exn option \<Rightarrow> (('d, 'm, 'q, 'e) session, exn option) act" where
  "close_transports W [] first = mret first"
| "close_transports W ((name, i) # xs) first =
     mbind (reified (call_raw i (raw_close W))) (\<lambda>r.
       mthen (case r of Inl e \<Rightarrow> ss_emit ''close_failed'' [(''conn'', PStr name), (''error'', exn_str e)] | Inr _ \<Rightarrow> mret ())
         (close_transports W xs (first_of first r)))"

definition close_end ::
  "('d, 'm, 'q, 'e) world \<Rightarrow> (string \<times> nat) list \<times> (string \<times> nat \<times> reader) list \<Rightarrow> (('d, 'm, 'q, 'e) session, unit) act" where
  "close_end W held =
     mbind (close_readers W (snd held) None) (\<lambda>first.
       mbind (close_transports W (fst held) first) (\<lambda>first'.
         mthen (mmod (\<lambda>s. s\<lparr>ss_jclosed := True\<rparr>))
           (case first' of None \<Rightarrow> mret () | Some e \<Rightarrow> mraise e)))"

definition s_close :: "('d, 'm, 'q, 'e) world \<Rightarrow> (('d, 'm, 'q, 'e) session, unit) act" where
  "s_close W = mbind close_begin (close_end W)"

section \<open>Introspection\<close>

definition conn_port :: "('d, 'm, 'q) conn \<Rightarrow> fields" where
  "conn_port c = (case cn_raw c of RSerial t \<Rightarrow> [(''port'', PStr (st_port t))] | _ \<Rightarrow> [])"

definition s_status :: "('d, 'm, 'q, 'e) session \<Rightarrow> fields" where
  "s_status s =
     [(''transports'', PDict (map (\<lambda>(name, kind). (name, PDict ((''kind'', PStr kind) #
         (if kind = ''serial'' then case map_of (ss_serial_base s) name of Some i \<Rightarrow> conn_port (ss_heap s ! i) | None \<Rightarrow> [] else [])))) (ss_kinds s))),
      (''readers'', PDict (map (\<lambda>(name, i, r). (name, PDict [(''buffered'', PInt (fst (stats r))), (''alive'', PBool (running r))])) (ss_readers s))),
      (''transfers'', PList (map PStr (sort (ss_transfers s)))), (''monitors'', PList (map PStr (sort (ss_monitors s)))),
      (''sandbox'', PStr (path_str (fx_root (ss_sandbox s))))]"

end
