(* ===== verification/SessionSteps.thy ===== *)
theory SessionSteps
  imports SessionOps
begin

text \<open>
  Several threads on one session. A tool call is a \<open>request\<close>; what it still has to do
  after its first part is a \<open>pending\<close> token, and between the parts any other request may run.
  A part is one step when the code runs it under the session lock, or when it is one call of a
  transport. The exchange of a transfer and the window of a monitor are as many steps as they
  have calls of the transport. Waiting calls (\<open>serial_wait\<close>, \<open>serial_read_until\<close>,
  \<open>mqtt_subscribe\<close>, \<open>mqtt_read\<close>) are one step from their gate or their start to their return.
\<close>

section \<open>Requests and what is left of them\<close>

datatype request =
    QSerialList "port_info list"
  | QSerialWait string string pfloat rat "(rat \<times> port_info list) list"
  | QSerialOpen "port_info list" string string nat pfloat
  | QSerialWrite string string
  | QSerialRead string int
  | QSerialReadLine string int
  | QSerialReset string pyval pyval
  | QSerialPut string string string
  | QSerialGet string string string
  | QSerialMonitor string monitor_args
  | QReaderStart string int
  | QReaderStop string
  | QTail string int
  | QReadUntil string string pfloat rat "(bg list \<times> rat) list"
  | QModbusOpen string string nat int pfloat
  | QModbusRead string int int
  | QModbusWrite string int "int list"
  | QMqttOpen string string nat pfloat
  | QMqttPublish string string string int bool
  | QMqttSubscribe string string int rat "turn list"
  | QMqttRead string pfloat rat "turn list"
  | QEspImageInfo string string
  | QEspFlash string string int int
  | QEspErase string int
  | QFileWrite string string
  | QFileRead string
  | QFileList string
  | QFileDelete string
  | QSerialClose string
  | QModbusClose string
  | QMqttClose string
  | QCloseTransport string
  | QClose

datatype pending =
    PSerialOpen string string nat
  | PModbusOpen string string nat int
  | PMqttOpen string string nat rat
  | PWrite string nat bytes
  | PRead nat nat
  | PReadLine nat nat
  | PReset nat pyval pyval
  | PModbusRead nat int int
  | PModbusWrite nat int "int list"
  | PPublish nat string string int bool
  | PSubscribe nat string int rat "turn list"
  | PMqttRead nat pfloat rat "turn list"
  | PPutGate string string string bytes
  | PPut string nat string string bytes
  | PGetGate string string string
  | PGet string nat string string
  | PMonitorGate string monitor_args
  | PMonitor string nat monitor_args
  | PSummary string monitor_args monitor_view
  | PClose "(string \<times> nat) list" "(string \<times> nat \<times> reader) list"

text \<open>A part that is the last one, one that leaves a token when it returns, and one that may wait.\<close>

definition whole :: "('s, 'a) act \<Rightarrow> 's \<Rightarrow> ('s \<times> pending list) option" where
  "whole m s = Some (fst (m s), [])"

definition leaves :: "('s, 'a) act \<Rightarrow> ('a \<Rightarrow> pending) \<Rightarrow> 's \<Rightarrow> ('s \<times> pending list) option" where
  "leaves m k s = (case m s of (s', Inl _) \<Rightarrow> Some (s', []) | (s', Inr x) \<Rightarrow> Some (s', [k x]))"

definition waits :: "('s, 'a) prog \<Rightarrow> 's \<Rightarrow> ('s \<times> pending list) option" where
  "waits m s = map_option (\<lambda>(s', _). (s', [])) (m s)"

definition modbus_gate :: "string \<Rightarrow> string \<Rightarrow> (('d, 'm, 'q, 'e) session, nat) act" where
  "modbus_gate k name = journaled_key_error k name (get_kind name ''modbus'' ''a modbus'')"

definition mqtt_gate :: "string \<Rightarrow> string \<Rightarrow> (('d, 'm, 'q, 'e) session, nat) act" where
  "mqtt_gate k name = journaled_key_error k name (get_kind name ''mqtt'' ''an mqtt'')"

definition mqtt_read_gate :: "string \<Rightarrow> pfloat \<Rightarrow> (('d, 'm, 'q, 'e) session, nat) act" where
  "mqtt_read_gate name timeout =
     mthen (refuse_range (in_range01 timeout 3600) ''mqtt_read_refused'' [(''conn'', PStr name)]
         (PFStr [PStr ''timeout '', PNum timeout, PStr '' out of (0, 3600]''])
         (PFStr [PStr ''mqtt_read timeout must be in (0, 3600] seconds, got '', PNum timeout]))
       (mqtt_gate ''mqtt_read_failed'' name)"

fun begins :: "('d, 'm, 'q, 'e) world \<Rightarrow> request \<Rightarrow> ('d, 'm, 'q, 'e) session \<Rightarrow> (('d, 'm, 'q, 'e) session \<times> pending list) option" where
  "begins W (QSerialList comports) = whole (s_serial_list W comports)"
| "begins W (QSerialWait vid pid timeout start ts) = waits (s_serial_wait W vid pid timeout start ts)"
| "begins W (QSerialOpen comports name port baudrate timeout) =
     leaves (serial_open_gate W comports name port timeout) (\<lambda>port'. PSerialOpen name port' baudrate)"
| "begins W (QSerialWrite name data_hex) = leaves (write_gate name data_hex) (\<lambda>(i, data). PWrite name i data)"
| "begins W (QSerialRead name n) = leaves (read_gate ''read'' ''size'' name n) (\<lambda>i. PRead i (nat n))"
| "begins W (QSerialReadLine name n) = leaves (read_gate ''read_line'' ''max_len'' name n) (\<lambda>i. PReadLine i (nat n))"
| "begins W (QSerialReset name pulse settle) =
     leaves (journaled_key_error ''reset_failed'' name (get_kind name ''serial'' ''a serial'')) (\<lambda>i. PReset i pulse settle)"
| "begins W (QSerialPut name source target) = leaves (put_before W name source target) (PPutGate name source target)"
| "begins W (QSerialGet name target dest) = leaves (get_before W) (\<lambda>_. PGetGate name target dest)"
| "begins W (QSerialMonitor name a) = leaves (monitor_before W name a) (\<lambda>_. PMonitorGate name a)"
| "begins W (QReaderStart name n) = whole (s_serial_reader_start name n)"
| "begins W (QReaderStop name) = whole (s_serial_reader_stop W name)"
| "begins W (QTail name n) = whole (s_serial_tail name n)"
| "begins W (QReadUntil name pattern timeout start ts) = waits (s_serial_read_until name pattern timeout start ts)"
| "begins W (QModbusOpen name host port device_id timeout) =
     leaves (open_gate ''modbus'' name host timeout) (\<lambda>_. PModbusOpen name host port device_id)"
| "begins W (QModbusRead name address count) = leaves (modbus_gate ''modbus_read_failed'' name) (\<lambda>i. PModbusRead i address count)"
| "begins W (QModbusWrite name address values) = leaves (modbus_gate ''modbus_write_failed'' name) (\<lambda>i. PModbusWrite i address values)"
| "begins W (QMqttOpen name host port timeout) =
     leaves (open_gate ''mqtt'' name host timeout) (\<lambda>_. PMqttOpen name host port (float_rat timeout))"
| "begins W (QMqttPublish name topic payload qos retain) =
     leaves (mqtt_gate ''mqtt_publish_failed'' name) (\<lambda>i. PPublish i topic payload qos retain)"
| "begins W (QMqttSubscribe name topic qos start ts) =
     leaves (mqtt_gate ''mqtt_subscribe_failed'' name) (\<lambda>i. PSubscribe i topic qos start ts)"
| "begins W (QMqttRead name timeout start ts) = leaves (mqtt_read_gate name timeout) (\<lambda>i. PMqttRead i timeout start ts)"
| "begins W (QEspImageInfo firmware chip) = whole (s_esp_image_info W firmware chip)"
| "begins W (QEspFlash port firmware addr baud) = whole (s_esp_flash W port firmware addr baud)"
| "begins W (QEspErase port baud) = whole (s_esp_erase W port baud)"
| "begins W (QFileWrite path content) = whole (s_file_write W path content)"
| "begins W (QFileRead path) = whole (s_file_read W path)"
| "begins W (QFileList path) = whole (s_file_list W path)"
| "begins W (QFileDelete path) = whole (s_file_delete W path)"
| "begins W (QSerialClose name) = whole (s_serial_close W name)"
| "begins W (QModbusClose name) = whole (s_modbus_close W name)"
| "begins W (QMqttClose name) = whole (s_mqtt_close W name)"
| "begins W (QCloseTransport name) = whole (close_transport W name)"
| "begins W QClose = leaves close_begin (\<lambda>(transports, readers). PClose transports readers)"

text \<open>
  The next part of a request that waits for its turn. A transfer and a monitor go on by their
  calls and end with a result of the exchange: those are steps of their own.
\<close>

fun resumes :: "('d, 'm, 'q, 'e) world \<Rightarrow> pending \<Rightarrow> ('d, 'm, 'q, 'e) session \<Rightarrow> (('d, 'm, 'q, 'e) session \<times> pending list) option" where
  "resumes W (PSerialOpen name port baudrate) = whole (serial_open_locked W name port baudrate)"
| "resumes W (PModbusOpen name host port device_id) = whole (modbus_open_locked W name host port device_id)"
| "resumes W (PMqttOpen name host port timeout) = whole (mqtt_open_locked W name host port timeout)"
| "resumes W (PWrite name i data) = whole (write_io W name (i, data))"
| "resumes W (PRead i n) = whole (call W i (serial_raw ''read'' (serial_read (wd_port W) n)))"
| "resumes W (PReadLine i n) = whole (call W i (serial_raw ''read_line'' (serial_read_line (wd_port W) n)))"
| "resumes W (PReset i pulse settle) = whole (call W i (serial_raw ''reset'' (serial_reset (wd_port W) pulse settle)))"
| "resumes W (PModbusRead i address count) = whole (call W i (modbus_raw ''read_holding'' (read_holding (wd_modbus W) address count)))"
| "resumes W (PModbusWrite i address values) =
     (if length values = 1 then whole (call W i (modbus_raw ''write_register'' (write_register (wd_modbus W) address (hd values))))
      else whole (call W i (modbus_raw ''write_registers'' (write_registers (wd_modbus W) address values))))"
| "resumes W (PPublish i topic payload qos retain) =
     whole (call W i (mqtt_raw ''publish'' (mqtt_publish (wd_mqtt W) topic payload qos retain (wd_net W))))"
| "resumes W (PSubscribe i topic qos start ts) = waits (blocking W i ''subscribe'' (mqtt_subscribe (wd_mqtt W) topic qos start ts))"
| "resumes W (PMqttRead i timeout start ts) =
     waits (blocking W i ''read_message'' (\<lambda>t. map_option (\<lambda>(t', m). (t', Inr m)) (read_message (float_rat timeout) start ts t)))"
| "resumes W (PPutGate name source target data) = leaves (transfer_gate ''put'' name) (\<lambda>i. PPut name i source target data)"
| "resumes W (PGetGate name target dest) = leaves (transfer_gate ''get'' name) (\<lambda>i. PGet name i target dest)"
| "resumes W (PMonitorGate name a) = leaves (monitor_gate name) (\<lambda>i. PMonitor name i a)"
| "resumes W (PSummary name a v) = whole (monitor_end name a v)"
| "resumes W (PClose transports readers) = whole (close_end W (transports, readers))"
| "resumes W _ = (\<lambda>_. None)"

text \<open>What a running exchange does to the session: the calls of the board, or those of a window.\<close>

inductive touches :: "('d, 'm, 'q, 'e) world \<Rightarrow> pending \<Rightarrow> ('d, 'm, 'q, 'e) session \<Rightarrow> ('d, 'm, 'q, 'e) session \<Rightarrow> bool" for W where
  put_reads: "touches W (PPut name i source target data) s (fst (bd_read (conn_board W i) n s))"
| put_writes: "touches W (PPut name i source target data) s (fst (bd_write (conn_board W i) b s))"
| put_clock: "touches W (PPut name i source target data) s (fst (bd_clock (conn_board W i) s))"
| get_reads: "touches W (PGet name i target dest) s (fst (bd_read (conn_board W i) n s))"
| get_writes: "touches W (PGet name i target dest) s (fst (bd_write (conn_board W i) b s))"
| get_clock: "touches W (PGet name i target dest) s (fst (bd_clock (conn_board W i) s))"
| monitor_clock: "touches W (PMonitor name i a) s (fst (read_clock W s))"
| monitor_polls: "touches W (PMonitor name i a) s (fst (poll_waiting W i s))"
| monitor_reads: "touches W (PMonitor name i a) s (fst (call W i (serial_raw ''read'' (serial_read (wd_port W) n)) s))"
| monitor_fails: "touches W (PMonitor name i a) s (fst (ss_emit ''monitor_failed'' [(''conn'', PStr name), (''error'', exn_str e)] s))"

inductive ends :: "pending \<Rightarrow> ('d, 'm, 'q, 'e) session \<Rightarrow> ('d, 'm, 'q, 'e) session \<Rightarrow> pending list \<Rightarrow> bool" where
  put_ends: "ends (PPut name i source target data) s (fst (put_end name source target data r s)) []"
| get_ends: "ends (PGet name i target dest) s (fst (get_end name target dest r s)) []"
| window_fails: "ends (PMonitor name i a) s (end_monitor name s) []"
| window_ends: "ends (PMonitor name i a) s (end_monitor name s) [PSummary name a v]"

text \<open>A step of the session and its threads, background readers and MQTT network threads included.\<close>

inductive s_step ::
  "('d, 'm, 'q, 'e) world \<Rightarrow> ('d, 'm, 'q, 'e) session \<times> pending list \<Rightarrow> ('d, 'm, 'q, 'e) session \<times> pending list \<Rightarrow> bool" for W where
  request: "begins W q s = Some (s', new) \<Longrightarrow> s_step W (s, P) (s', P @ new)"
| resume: "resumes W p s = Some (s', new) \<Longrightarrow> s_step W (s, P @ p # P') (s', P @ new @ P')"
| exchange: "touches W p s s' \<Longrightarrow> s_step W (s, P @ p # P') (s', P @ p # P')"
| finish: "ends p s s' new \<Longrightarrow> s_step W (s, P @ p # P') (s', P @ new @ P')"
| background: "s_step W (s, P) (fst (reader_pump W late name s), P)"
| network: "s_step W (s, P) (fst (net_arrives i ns s), P)"

text \<open>The states of a session on worlds that satisfy \<open>Q\<close>: devices, clock and environment may differ at every step.\<close>

inductive s_reach ::
  "(('d, 'm, 'q, 'e) world \<Rightarrow> bool) \<Rightarrow> ('d, 'm, 'q, 'e) session \<times> pending list \<Rightarrow> ('d, 'm, 'q, 'e) session \<times> pending list \<Rightarrow> bool"
  for Q c where
  start: "s_reach Q c c"
| step: "s_reach Q c c' \<Longrightarrow> Q W \<Longrightarrow> s_step W c' c'' \<Longrightarrow> s_reach Q c c''"

inductive_cases touchesE: "touches W p s s'"
inductive_cases endsE: "ends p s s' new"
inductive_cases s_stepE: "s_step W c c'"

end
