(* ===== verification/SessionRegistry.thy ===== *)
theory SessionRegistry
  imports SessionSteps
begin

text \<open>
  What the registries of a session promise, apart from journals, devices and buffers: an abstract
  registry with its own step relation, its invariant, and the part of the operations of the
  session that moves it.
\<close>

section \<open>The abstract registry\<close>

record registry =
  rg_transports :: "(string \<times> nat) list"
  rg_kinds :: "(string \<times> string) list"
  rg_base :: "(string \<times> nat) list"
  rg_readers :: "(string \<times> nat) list"
  rg_transfers :: "string list"
  rg_monitors :: "string list"
  rg_closed :: bool
  rg_objects :: "string list"

text \<open>The steps that leave the running exchanges alone; \<open>L\<close> is the ceiling of open connections.\<close>

inductive r_quiet :: "int option \<Rightarrow> registry \<Rightarrow> registry \<Rightarrow> bool" for L where
  r_create: "r_quiet L g (g\<lparr>rg_objects := rg_objects g @ [name]\<rparr>)"
| r_open: "map_of (rg_transports g) name = None \<Longrightarrow> (\<forall>n. L = Some n \<longrightarrow> int (length (rg_transports g)) < n) \<Longrightarrow>
    i < length (rg_objects g) \<Longrightarrow> rg_objects g ! i = name \<Longrightarrow>
    r_quiet L g (g\<lparr>rg_transports := AList.update name i (rg_transports g), rg_kinds := AList.update name kind (rg_kinds g),
      rg_base := (if kind = ''serial'' then AList.update name i (rg_base g) else rg_base g)\<rparr>)"
| r_attach: "map_of (rg_base g) name = Some i \<Longrightarrow> map_of (rg_readers g) name = None \<Longrightarrow>
    name \<notin> set (rg_transfers g) \<Longrightarrow> name \<notin> set (rg_monitors g) \<Longrightarrow>
    r_quiet L g (g\<lparr>rg_readers := AList.update name i (rg_readers g)\<rparr>)"
| r_detach: "r_quiet L g (g\<lparr>rg_readers := AList.delete name (rg_readers g)\<rparr>)"
| r_forget: "map_of (rg_readers g) name = None \<Longrightarrow>
    r_quiet L g (g\<lparr>rg_transports := AList.delete name (rg_transports g), rg_kinds := AList.delete name (rg_kinds g),
      rg_base := AList.delete name (rg_base g)\<rparr>)"
| r_close: "r_quiet L g (g\<lparr>rg_transports := [], rg_kinds := [], rg_base := [], rg_readers := [], rg_closed := True\<rparr>)"

definition r_idle :: "string \<Rightarrow> registry \<Rightarrow> bool" where
  "r_idle name g \<longleftrightarrow> map_of (rg_readers g) name = None \<and> name \<notin> set (rg_transfers g) \<and> name \<notin> set (rg_monitors g)"

inductive r_step :: "int option \<Rightarrow> registry \<Rightarrow> registry \<Rightarrow> bool" for L where
  r_quietly: "r_quiet L g g' \<Longrightarrow> r_step L g g'"
| r_transfer: "map_of (rg_transports g) name = Some i \<Longrightarrow> r_idle name g \<Longrightarrow>
    r_step L g (g\<lparr>rg_transfers := List.insert name (rg_transfers g)\<rparr>)"
| r_monitor: "map_of (rg_transports g) name = Some i \<Longrightarrow> r_idle name g \<Longrightarrow>
    r_step L g (g\<lparr>rg_monitors := List.insert name (rg_monitors g)\<rparr>)"
| r_end_transfer: "r_step L g (g\<lparr>rg_transfers := removeAll name (rg_transfers g)\<rparr>)"
| r_end_monitor: "r_step L g (g\<lparr>rg_monitors := removeAll name (rg_monitors g)\<rparr>)"

text \<open>
  The invariant: the registries name the same connections, a name leads to the object that was
  made for it, exactly the serial ones have a base, a reader belongs to an open serial connection
  and reads its object, and a name is used by at most one reader, transfer or monitor.
\<close>

definition lockstep :: "registry \<Rightarrow> bool" where
  "lockstep g \<longleftrightarrow>
     map fst (rg_kinds g) = map fst (rg_transports g) \<and> distinct (map fst (rg_transports g)) \<and>
     (\<forall>name i. map_of (rg_transports g) name = Some i \<longrightarrow> i < length (rg_objects g) \<and> rg_objects g ! i = name) \<and>
     (\<forall>name. map_of (rg_base g) name = (if map_of (rg_kinds g) name = Some ''serial'' then map_of (rg_transports g) name else None))"

definition owned :: "registry \<Rightarrow> bool" where
  "owned g \<longleftrightarrow> (\<forall>name i. map_of (rg_readers g) name = Some i \<longrightarrow> map_of (rg_base g) name = Some i)"

definition exclusive :: "registry \<Rightarrow> bool" where
  "exclusive g \<longleftrightarrow> distinct (map fst (rg_readers g) @ rg_transfers g @ rg_monitors g)"

definition r_ok :: "registry \<Rightarrow> bool" where
  "r_ok g \<longleftrightarrow> lockstep g \<and> owned g \<and> exclusive g"

lemmas map_entries = map_of_eq_Some_iff Some_eq_map_of_iff

lemma fst_update: "map fst (AList.update k v xs) = (if k \<in> fst ` set xs then map fst xs else map fst xs @ [k])"
  by (induction xs) auto

lemma map_of_None_fst: "map_of xs k = None \<longleftrightarrow> k \<notin> fst ` set xs"
  by (rule map_of_eq_None_iff)

lemma same_keys: "map fst xs = map fst ys \<Longrightarrow> (map_of xs k = None) = (map_of ys k = None)"
  by (metis list.set_map map_of_eq_None_iff)

lemmas registry_algebra = fst_update update_conv' delete_keys delete_conv' distinct_removeAll map_of_None_fst

lemma same_lockstep:
  "lockstep (g\<lparr>rg_readers := rs\<rparr>) = lockstep g" "lockstep (g\<lparr>rg_transfers := ts\<rparr>) = lockstep g"
  "lockstep (g\<lparr>rg_monitors := ms\<rparr>) = lockstep g"
  by (simp_all add: lockstep_def)

lemma lockstep_create: "lockstep g \<Longrightarrow> lockstep (g\<lparr>rg_objects := rg_objects g @ [name]\<rparr>)"
  unfolding lockstep_def by (auto simp: nth_append less_Suc_eq simp del: map_entries)

lemma lockstep_free:
  assumes "lockstep g" and "map_of (rg_transports g) name = None"
  shows "map_of (rg_kinds g) name = None" and "map_of (rg_base g) name = None"
proof -
  have keys: "map fst (rg_kinds g) = map fst (rg_transports g)" using assms by (simp add: lockstep_def)
  with assms same_keys [OF keys, of name] show "map_of (rg_kinds g) name = None" by simp
  with assms show "map_of (rg_base g) name = None" by (simp add: lockstep_def)
qed

lemma lockstep_open:
  assumes ok: "lockstep g" and free: "map_of (rg_transports g) name = None" and i: "i < length (rg_objects g)" "rg_objects g ! i = name"
  shows "lockstep (g\<lparr>rg_transports := AList.update name i (rg_transports g), rg_kinds := AList.update name kind (rg_kinds g),
    rg_base := (if kind = ''serial'' then AList.update name i (rg_base g) else rg_base g)\<rparr>)"
proof -
  note none = lockstep_free [OF ok free]
  show ?thesis using ok free none i unfolding lockstep_def
    by (auto simp: registry_algebra image_iff simp del: map_entries)
qed

lemma lockstep_forget:
  "lockstep g \<Longrightarrow> lockstep (g\<lparr>rg_transports := AList.delete name (rg_transports g), rg_kinds := AList.delete name (rg_kinds g),
    rg_base := AList.delete name (rg_base g)\<rparr>)"
  unfolding lockstep_def by (auto simp: delete_keys delete_conv' distinct_removeAll simp del: map_entries)

lemma r_ok_quiet: "r_quiet L g g' \<Longrightarrow> r_ok g \<Longrightarrow> r_ok g'"
proof (induction rule: r_quiet.induct)
  case (r_create g name)
  then show ?case by (simp add: r_ok_def lockstep_create owned_def exclusive_def)
next
  case (r_open g name i kind)
  from r_open have "map_of (rg_base g) name = None" by (simp add: r_ok_def lockstep_free)
  with r_open show ?case by (auto simp: r_ok_def lockstep_open owned_def exclusive_def update_conv' simp del: map_entries)
next
  case (r_attach g name i)
  then show ?case by (auto simp: r_ok_def same_lockstep owned_def exclusive_def registry_algebra simp del: map_entries)
next
  case (r_detach g name)
  then show ?case by (auto simp: r_ok_def same_lockstep owned_def exclusive_def registry_algebra simp del: map_entries)
next
  case (r_forget g name)
  then show ?case by (auto simp: r_ok_def lockstep_forget owned_def exclusive_def delete_conv' simp del: map_entries)
next
  case (r_close g)
  then show ?case by (simp add: r_ok_def lockstep_def owned_def exclusive_def)
qed

lemma r_ok_step: "r_step L g g' \<Longrightarrow> r_ok g \<Longrightarrow> r_ok g'"
proof (induction rule: r_step.induct)
  case (r_quietly g g')
  then show ?case by (rule r_ok_quiet)
qed (auto simp: r_ok_def same_lockstep owned_def exclusive_def r_idle_def map_of_None_fst distinct_removeAll simp del: map_entries)

lemma r_ok_steps: "(r_step L)\<^sup>*\<^sup>* g g' \<Longrightarrow> r_ok g \<Longrightarrow> r_ok g'"
  by (induction rule: rtranclp_induct) (auto intro: r_ok_step)

text \<open>The ceiling.\<close>

lemma r_limit: "r_step (Some n) g g' \<Longrightarrow> int (length (rg_transports g)) \<le> n \<Longrightarrow> int (length (rg_transports g')) \<le> n"
proof (induction rule: r_step.induct)
  case (r_quietly g g')
  then show ?case
  proof (induction rule: r_quiet.induct)
    case (r_open g name i kind)
    have "length (AList.update name i (rg_transports g)) \<le> Suc (length (rg_transports g))"
      using length_map [of fst "AList.update name i (rg_transports g)"] by (simp add: fst_update split: if_splits)
    then show ?case using r_open by auto
  next
    case (r_forget g name)
    then show ?case using length_delete_le [of name "rg_transports g"] by simp
  qed auto
qed auto

lemma quiet_exchanges: "(r_quiet L)\<^sup>*\<^sup>* g g' \<Longrightarrow> rg_transfers g' = rg_transfers g \<and> rg_monitors g' = rg_monitors g"
proof (induction rule: rtranclp_induct)
  case (step g' g'')
  from step.hyps(2) step.IH show ?case by (cases rule: r_quiet.cases) auto
qed simp

lemma quiet_steps: "(r_quiet L)\<^sup>*\<^sup>* g g' \<Longrightarrow> (r_step L)\<^sup>*\<^sup>* g g'"
  by (induction rule: rtranclp_induct) (auto intro: rtranclp.rtrancl_into_rtrancl r_quietly)

section \<open>The registry of a session\<close>

definition registry_of :: "('d, 'm, 'q, 'e) session \<Rightarrow> registry" where
  "registry_of s =
     \<lparr>rg_transports = ss_transports s, rg_kinds = ss_kinds s, rg_base = ss_serial_base s,
      rg_readers = map (\<lambda>(name, i, r). (name, i)) (ss_readers s), rg_transfers = ss_transfers s, rg_monitors = ss_monitors s,
      rg_closed = ss_closed s, rg_objects = map cn_name (ss_heap s)\<rparr>"

definition same_reg :: "('d, 'm, 'q, 'e) session \<Rightarrow> ('d, 'm, 'q, 'e) session \<Rightarrow> bool" where
  "same_reg s t \<longleftrightarrow> registry_of t = registry_of s"

interpretation frame: evolution same_reg
  by unfold_locales (simp_all add: same_reg_def)

lemma moves_sum: "(\<And>x. moves R (f x)) \<Longrightarrow> (\<And>y. moves R (g y)) \<Longrightarrow> moves R (case r of Inl x \<Rightarrow> f x | Inr y \<Rightarrow> g y)"
  by (simp split: sum.split)

lemmas frame_rules = frame.ret frame.raising frame.get frame.lifted frame.bind frame.seq frame.catching moves_if moves_prod moves_option moves_sum

lemma fst_journal_events:
  "fst (journal_events evs r s) = (if ss_jclosed s then s else s\<lparr>ss_journal := ss_journal s @ evs\<rparr>)"
  by (simp add: journal_events_def)

lemma same_reg_events: "same_reg s (fst (journal_events evs r s))"
  by (simp add: fst_journal_events same_reg_def registry_of_def)

lemma frame_emit: "moves same_reg (ss_emit k d)"
  by (simp add: moves_def ss_emit_def same_reg_events)

lemma frame_refuse: "moves same_reg (refuse k d e)"
  unfolding refuse_def by (intro frame_rules frame_emit)

lemma frame_clock: "moves same_reg (read_clock W)"
  by (simp add: moves_def read_clock_def same_reg_def registry_of_def)

lemma limits_name: "through_limits a b c m x = (x', evs, r) \<Longrightarrow> cn_name x' = cn_name x"
  by (auto simp: through_limits_def split: option.splits prod.splits)

lemma open_name: "conn_open now m x = (x', evs, r) \<Longrightarrow> cn_name x' = cn_name x"
  by (auto simp: conn_open_def split: option.splits prod.splits)

lemma raw_name: "conn_raw m x = (x', evs, r) \<Longrightarrow> cn_name x' = cn_name x"
  by (auto simp: conn_raw_def split: prod.splits)

lemma frame_on_conn:
  fixes f :: "('d, 'm, 'q) conn \<Rightarrow> ('d, 'm, 'q) conn \<times> event list \<times> (exn + 'a)"
  assumes "\<And>x x' evs r. f x = (x', evs, r) \<Longrightarrow> cn_name x' = cn_name x"
  shows "moves same_reg (on_conn i f :: (('d, 'm, 'q, 'e) session, 'a) act)"
proof -
  have "same_reg s (fst (on_conn i f s))" for s :: "('d, 'm, 'q, 'e) session"
  proof -
    obtain c evs r where f: "f (ss_heap s ! i) = (c, evs, r)" by (rule prod_cases3)
    have "map cn_name ((ss_heap s)[i := c]) = map cn_name (ss_heap s)"
      using assms [OF f] by (metis list_update_id map_update)
    then have "same_reg s (s\<lparr>ss_heap := (ss_heap s)[i := c]\<rparr>)" by (simp add: same_reg_def registry_of_def)
    from frame.trans [OF this same_reg_events] show ?thesis by (simp add: on_conn_def f)
  qed
  then show ?thesis by (simp add: moves_def)
qed

lemma frame_call: "moves same_reg (call W i m)"
  unfolding call_def by (intro frame_rules frame_clock frame_on_conn) (rule limits_name)

lemma frame_call_raw: "moves same_reg (call_raw i m)"
  unfolding call_raw_def by (intro frame_on_conn) (rule raw_name)

lemma same_reg_then: "same_reg s t \<Longrightarrow> same_reg s (fst (journal_events evs r t))"
  by (rule frame.trans [OF _ same_reg_events])

lemma frame_sandbox: "moves same_reg (on_sandbox m)"
  unfolding moves_def on_sandbox_def by (auto split: prod.split intro!: same_reg_then) (simp add: same_reg_def registry_of_def)

lemma frame_flasher: "moves same_reg (on_flasher W chip m)"
  unfolding moves_def on_flasher_def by (auto split: prod.split intro!: same_reg_then) (simp add: same_reg_def registry_of_def)

lemma frame_reified: "moves same_reg m \<Longrightarrow> moves same_reg (reified m)"
  unfolding moves_def reified_def by (auto split: prod.split) (metis fst_conv)

lemma frame_kind: "moves same_reg (ss_check_kind env kind)"
  unfolding ss_check_kind_def gate_kind_def check_kind_def policy_deny_def by (intro frame_rules frame_emit)

lemma frame_gates:
  "moves same_reg check_open" "moves same_reg (check_free name)" "moves same_reg (check_connection_limit env)"
  "moves same_reg (ss_get name)" "moves same_reg (get_kind name kind a)" "moves same_reg (refuse_busy b k name reason e)"
  "moves same_reg (refuse_range b k info why text)"
  unfolding check_open_def check_free_def check_connection_limit_def ss_get_def get_kind_def refuse_busy_def refuse_range_def Let_def
  by (intro frame_rules frame_refuse)+

lemma frame_key_error: "moves same_reg m \<Longrightarrow> moves same_reg (journaled_key_error k name m)"
  unfolding journaled_key_error_def by (intro frame_rules frame_refuse)

lemmas framed = frame_rules frame_emit frame_refuse frame_clock frame_call frame_call_raw frame_sandbox frame_flasher frame_reified
  frame_kind frame_gates frame_key_error

section \<open>The operations that only frame\<close>

lemma frame_ret: "same_reg s s" by (rule frame.refl)

lemma frame_poll: "moves same_reg (poll_waiting W i)"
  unfolding poll_waiting_def by (intro framed)

lemma frame_get_calls:
  "moves same_reg (read_gate op a name n)" "moves same_reg (write_gate name h)" "moves same_reg (write_io W name q)"
  "moves same_reg (modbus_gate k name)" "moves same_reg (mqtt_gate k name)" "moves same_reg (mqtt_read_gate name t)"
  unfolding read_gate_def write_gate_def write_io_def modbus_gate_def mqtt_gate_def mqtt_read_gate_def
  by (intro framed)+

lemma frame_serial:
  "moves same_reg (s_serial_list W comports)" "moves same_reg (serial_open_gate W comports name port t)"
  "moves same_reg (put_before W name source target)" "moves same_reg (get_before W)" "moves same_reg (monitor_before W name a)"
  "moves same_reg (s_serial_tail name n)" "moves same_reg (ss_reader name op)" "moves same_reg (open_gate kind name host t)"
  "moves same_reg (monitor_end name a v)"
  unfolding s_serial_list_def serial_open_gate_def put_before_def get_before_def monitor_before_def monitor_refused_def
    s_serial_tail_def ss_reader_def open_gate_def monitor_end_def Let_def
  by (intro framed)+

lemma frame_esp_path: "moves same_reg (esp_sandbox_path env op path)"
  unfolding esp_sandbox_path_def by (intro framed)

lemma frame_files:
  "moves same_reg (s_esp_image_info W firmware chip)" "moves same_reg (s_esp_flash W port firmware addr baud)"
  "moves same_reg (s_esp_erase W port baud)" "moves same_reg (s_file_write W path content)" "moves same_reg (s_file_read W path)"
  "moves same_reg (s_file_list W path)" "moves same_reg (s_file_delete W path)"
  unfolding s_esp_image_info_def s_esp_flash_def s_esp_erase_def s_file_write_def s_file_read_def s_file_list_def s_file_delete_def file_gate_def
  by (intro framed frame_esp_path)+

lemma frame_close_object: "moves same_reg (close_object W name i)"
  unfolding close_object_def by (intro framed)

lemma frame_stop_object: "moves same_reg (stop_reader_object W i r)"
  unfolding stop_reader_object_def Let_def by (intro framed)

lemma same_reg_jclosed: "same_reg s (s\<lparr>ss_jclosed := b\<rparr>)"
  by (simp add: same_reg_def registry_of_def)

lemma frame_close_readers: "moves same_reg (close_readers W xs first)"
  by (induction xs arbitrary: first) (simp_all, (intro framed frame_stop_object | simp add: close_reader_def | assumption)+)

lemma frame_close_transports: "moves same_reg (close_transports W xs first)"
  by (induction xs arbitrary: first rule: list.induct) (auto intro!: framed)

lemma frame_close_end: "moves same_reg (close_end W held)"
  unfolding close_end_def
  by (intro framed frame_close_readers frame_close_transports frame.modify same_reg_jclosed)

section \<open>The operations that move the registry\<close>

definition limit_of :: "('d, 'm, 'q, 'e) world \<Rightarrow> int option" where
  "limit_of W = (case parse_max_connections (wd_env W MAX_CONNECTIONS_ENV) of Inr (Some n) \<Rightarrow> Some n | _ \<Rightarrow> None)"

definition calm :: "int option \<Rightarrow> ('d, 'm, 'q, 'e) session \<Rightarrow> ('d, 'm, 'q, 'e) session \<Rightarrow> bool" where
  "calm L s t \<longleftrightarrow> (r_quiet L)\<^sup>*\<^sup>* (registry_of s) (registry_of t)"

interpretation calm: evolution "calm L" for L
  by unfold_locales (auto simp: calm_def)

lemma frame_calm: "same_reg s t \<Longrightarrow> calm L s t"
  by (simp add: same_reg_def calm_def)

lemma moves_calm: "moves same_reg m \<Longrightarrow> moves (calm L) m"
  by (simp add: moves_def frame_calm)

lemma calm_step: "r_quiet L (registry_of s) (registry_of t) \<Longrightarrow> calm L s t"
  by (simp add: calm_def r_into_rtranclp)

lemma same_reg_run: "moves same_reg m \<Longrightarrow> m s = (s', r) \<Longrightarrow> registry_of s' = registry_of s"
  using movesD by (force simp: same_reg_def)

text \<open>A gate that lets a call pass has changed nothing.\<close>

lemma gate_passed:
  "check_free name s = (s', Inr u) \<Longrightarrow> s' = s \<and> map_of (ss_transports s) name = None"
  "check_connection_limit (wd_env W) s = (s', Inr u) \<Longrightarrow> s' = s \<and> (\<forall>n. limit_of W = Some n \<longrightarrow> int (length (ss_transports s)) < n)"
  "refuse_busy b k name reason e s = (s', Inr u) \<Longrightarrow> s' = s \<and> \<not> b"
  "refuse_range ok k info why t s = (s', Inr u) \<Longrightarrow> s' = s \<and> ok"
  "ss_get name s = (s', Inr i) \<Longrightarrow> s' = s \<and> map_of (ss_transports s) name = Some i"
  by (auto simp: check_free_def check_connection_limit_def refuse_busy_def refuse_range_def ss_get_def refuse_def limit_of_def act_apply Let_def
      split: if_splits option.splits prod.splits sum.splits)

lemma key_error_passed: "journaled_key_error k name m s = (s', Inr x) \<Longrightarrow> m s = (s', Inr x)"
  by (auto simp: journaled_key_error_def refuse_def act_apply split: prod.splits sum.splits if_splits)

lemma bind_run:
  assumes "mbind m f s = (s', r)"
  obtains e where "m s = (s', Inl e)" "r = Inl e" | s1 x where "m s = (s1, Inr x)" "f x s1 = (s', r)"
  using assms by (auto simp: act_apply split: prod.splits sum.splits)

lemma then_run:
  assumes "mthen m k s = (s', r)"
  obtains e where "m s = (s', Inl e)" "r = Inl e" | s1 where "m s = (s1, Inr ())" "k s1 = (s', r)"
  using assms by (auto simp: act_apply split: prod.splits sum.splits)

lemma register_name:
  assumes "map_of (ss_transports s) name = None" and "\<forall>n. L = Some n \<longrightarrow> int (length (ss_transports s)) < n"
    and "i < length (ss_heap s)" and "cn_name (ss_heap s ! i) = name"
  shows "calm L s (s\<lparr>ss_transports := AList.update name i (ss_transports s), ss_kinds := AList.update name kind (ss_kinds s),
    ss_serial_base := (if kind = ''serial'' then AList.update name i (ss_serial_base s) else ss_serial_base s)\<rparr>)"
proof -
  let ?g = "registry_of s"
  have "registry_of (s\<lparr>ss_transports := AList.update name i (ss_transports s), ss_kinds := AList.update name kind (ss_kinds s),
      ss_serial_base := (if kind = ''serial'' then AList.update name i (ss_serial_base s) else ss_serial_base s)\<rparr>)
    = ?g\<lparr>rg_transports := AList.update name i (rg_transports ?g), rg_kinds := AList.update name kind (rg_kinds ?g),
      rg_base := (if kind = ''serial'' then AList.update name i (rg_base ?g) else rg_base ?g)\<rparr>"
    by (simp add: registry_of_def)
  moreover have "r_quiet L ?g \<dots>"
    by (rule r_open) (use assms in \<open>simp_all add: registry_of_def\<close>)
  ultimately show ?thesis by (intro calm_step) simp
qed

lemma add_object: "calm L s (s\<lparr>ss_heap := ss_heap s @ [c]\<rparr>)"
  using r_create [of L "registry_of s" "cn_name c"] by (intro calm_step) (simp add: registry_of_def)

lemma apply_limits_name: "apply_limits env name r = Inr c \<Longrightarrow> cn_name c = name"
  by (auto simp: apply_limits_def split: sum.splits)

lemma frame_conn_open: "moves same_reg (mbind (read_clock W) (\<lambda>now. on_conn i (conn_open now m)))"
  by (intro framed frame_on_conn) (rule open_name)

lemma calm_open_locked: "moves (calm (limit_of W)) (open_locked W kind name r m)"
proof (rule movesI)
  fix s s' :: "('a, 'b, 'c, 'd) session" and q
  assume "open_locked W kind name r m s = (s', q)"
  then show "calm (limit_of W) s s'" unfolding open_locked_def
  proof (cases rule: then_run)
    case 1
    then show ?thesis by (intro frame_calm movesD [OF frame_gates(2)])
  next
    case (2 s1)
    note free = gate_passed(1) [OF 2(1)]
    from 2(2) show ?thesis
    proof (cases rule: then_run)
      case 1
      then show ?thesis using free by (intro frame_calm movesD [OF frame_gates(3)]) simp
    next
      case (2 s2)
      note room = gate_passed(2) [OF 2(1)]
      show ?thesis
      proof (cases "apply_limits (wd_env W) name r")
        case (Inl e)
        then show ?thesis using 2 free room by (simp add: act_apply calm.refl)
      next
        case (Inr c)
        define s3 where "s3 = s\<lparr>ss_heap := ss_heap s @ [c]\<rparr>"
        obtain s4 q4 where open_it: "mbind (read_clock W) (\<lambda>now. on_conn (length (ss_heap s)) (conn_open now m)) s3 = (s4, q4)" by fastforce
        have g4: "registry_of s4 = registry_of s3"
          by (rule frame_conn_open [THEN same_reg_run, OF open_it])
        have "calm (limit_of W) s s4"
          using add_object [of "limit_of W" s c] g4 by (simp add: calm_def s3_def)
        moreover have "s' = (case q4 of Inl _ \<Rightarrow> s4
            | Inr _ \<Rightarrow> s4\<lparr>ss_transports := AList.update name (length (ss_heap s)) (ss_transports s4), ss_kinds := AList.update name kind (ss_kinds s4),
                ss_serial_base := (if kind = ''serial'' then AList.update name (length (ss_heap s)) (ss_serial_base s4) else ss_serial_base s4)\<rparr>)"
          using 2(2) open_it Inr free room by (auto simp: act_apply s3_def split: prod.splits sum.splits)
        moreover have "calm (limit_of W) s4 (s4\<lparr>ss_transports := AList.update name (length (ss_heap s)) (ss_transports s4),
            ss_kinds := AList.update name kind (ss_kinds s4),
            ss_serial_base := (if kind = ''serial'' then AList.update name (length (ss_heap s)) (ss_serial_base s4) else ss_serial_base s4)\<rparr>)"
        proof (rule register_name)
          have t: "ss_transports s4 = ss_transports s" and h: "map cn_name (ss_heap s4) = map cn_name (ss_heap s @ [c])"
            using g4 by (simp_all add: registry_of_def s3_def)
          show "map_of (ss_transports s4) name = None" "\<forall>n. limit_of W = Some n \<longrightarrow> int (length (ss_transports s4)) < n"
            using t free room by auto
          show len: "length (ss_heap s) < length (ss_heap s4)" using arg_cong [OF h, of length] by simp
          show "cn_name (ss_heap s4 ! length (ss_heap s)) = name"
            using arg_cong [OF h, of "\<lambda>xs. xs ! length (ss_heap s)"] len apply_limits_name [OF Inr] by (simp add: nth_append)
        qed
        ultimately show ?thesis by (auto intro: calm.trans split: sum.split)
      qed
    qed
  qed
qed

lemma calm_opens:
  "moves (calm (limit_of W)) (serial_open_locked W name port baudrate)"
  "moves (calm (limit_of W)) (modbus_open_locked W name host port' device_id)"
  "moves (calm (limit_of W)) (mqtt_open_locked W name host port' timeout)"
  unfolding serial_open_locked_def modbus_open_locked_def mqtt_open_locked_def
  by (intro calm.seq calm_open_locked moves_calm frame_kind)+

end
