(* ===== verification/SessionThreads.thy ===== *)
theory SessionThreads
  imports SessionRegistry
begin

text \<open>
  Every step of the session, as the steps its registry makes: background readers, closing,
  waiting calls, the gates and the ends of exchanges.
\<close>

section \<open>Background readers\<close>

text \<open>While a reader is attached, storing its new state changes nothing of the registry.\<close>

definition attached :: "string \<Rightarrow> nat \<Rightarrow> ('d, 'm, 'q, 'e) session \<Rightarrow> bool" where
  "attached name i s = (map_of (rg_readers (registry_of s)) name = Some i)"

lemma map_of_readers: "map_of (map (\<lambda>(name, i, r). (name, i)) xs) n = map_option fst (map_of xs n)"
  by (induction xs) auto

lemma attachedI: "map_of (ss_readers s) name = Some (i, r) \<Longrightarrow> attached name i s"
  by (simp add: attached_def registry_of_def map_of_readers)

lemma update_present: "map_of xs k = Some v \<Longrightarrow> AList.update k v xs = xs"
  by (induction xs) auto

lemma update_readers: "map (\<lambda>(n, i, r). (n, i)) (AList.update name (i, r) xs) = AList.update name i (map (\<lambda>(n, i, r). (n, i)) xs)"
  by (induction xs) auto

lemma delete_readers: "map (\<lambda>(n, i, r). (n, i)) (AList.delete name xs) = AList.delete name (map (\<lambda>(n, i, r). (n, i)) xs)"
  by (induction xs) auto

lemma same_set_reader: "attached name i s \<Longrightarrow> same_reg s (set_reader name (i, r) s)"
  by (simp add: attached_def same_reg_def registry_of_def set_reader_def update_readers update_present)

definition same_while :: "string \<Rightarrow> nat \<Rightarrow> ('d, 'm, 'q, 'e) session \<Rightarrow> ('d, 'm, 'q, 'e) session \<Rightarrow> bool" where
  "same_while name i s t \<longleftrightarrow> (attached name i s \<longrightarrow> same_reg s t)"

interpretation held: evolution "same_while name i" for name i
  by unfold_locales (auto simp: same_while_def same_reg_def attached_def)

lemma moves_held: "moves same_reg m \<Longrightarrow> moves (same_while name i) m"
  by (simp add: moves_def same_while_def)

lemma held_set: "moves (same_while name i) (mmod (set_reader name (i, r)))"
  by (rule held.modify) (simp add: same_while_def same_set_reader)

lemma heldD: "moves (same_while name i) m \<Longrightarrow> attached name i s \<Longrightarrow> same_reg s (fst (m s))"
  by (simp add: moves_def same_while_def)

lemma same_reg_attached: "same_reg s t \<Longrightarrow> attached name i t = attached name i s"
  by (simp add: attached_def same_reg_def)

lemma calm_drop: "calm L s (drop_reader name s)"
proof -
  have "registry_of (drop_reader name s) = (registry_of s)\<lparr>rg_readers := AList.delete name (rg_readers (registry_of s))\<rparr>"
    by (simp add: registry_of_def drop_reader_def delete_readers)
  then show ?thesis using r_detach [of L "registry_of s" name] by (intro calm_step) simp
qed

lemma calm_stop_reader: "moves (calm L) (stop_reader W name implicit)"
  unfolding stop_reader_def
  by (intro calm.bind calm.get moves_option moves_prod calm.seq calm.ret calm.modify calm_drop moves_if moves_calm frame_stop_object frame_emit)

lemma frame_pump: "same_reg s (fst (reader_pump W late name s))"
proof (cases "map_of (ss_readers s) name")
  case None
  then show ?thesis by (simp add: reader_pump_def act_apply frame.refl)
next
  case (Some x)
  obtain i r where x: "x = (i, r)" by fastforce
  define k :: "nat \<Rightarrow> reader \<Rightarrow> (('a, 'b, 'c, 'd) session, unit) act" where
    "k i r = (if \<not> running r \<or> rd_stop r then mmod (set_reader name (i, r\<lparr>rd_thread := map_option (\<lambda>_. False) (rd_thread r)\<rparr>))
      else mbind (poll_waiting W i) (\<lambda>w.
             let n = (case w of Some k \<Rightarrow> min k (rd_chunk r) | None \<Rightarrow> rd_chunk r) in
             mbind (if w = Some 0 \<or> late then mret (Inr [])
                    else reified (call_raw i (serial_raw ''read'' (serial_read (wd_port W) n)))) (\<lambda>got.
               mbind (read_clock W) (\<lambda>now.
                 case pump_turn w late (\<lambda>_. got) now r of
                   (r', go_on) \<Rightarrow> mmod (set_reader name (i, if go_on then r' else r'\<lparr>rd_thread := Some False\<rparr>))))))" for i r
  have "reader_pump W late name s = k i r s"
    using Some x by (simp add: reader_pump_def act_apply k_def)
  moreover have "moves (same_while name i) (k i r)"
    unfolding k_def Let_def
    by (intro moves_if held.bind held_set moves_prod held.ret moves_held frame_poll frame_reified frame_call_raw frame_clock)
  ultimately show ?thesis using heldD attachedI Some x by metis
qed

lemma attach_reader:
  assumes "map_of (ss_serial_base s) name = Some i" and "\<not> has_reader name s" and "\<not> in_transfer name s" and "\<not> in_monitor name s"
  shows "calm L s (set_reader name (i, r) s)"
proof -
  let ?g = "registry_of s"
  have "registry_of (set_reader name (i, r) s) = ?g\<lparr>rg_readers := AList.update name i (rg_readers ?g)\<rparr>"
    by (simp add: registry_of_def set_reader_def update_readers)
  moreover from assms(2) have "map_of (ss_readers s) name = None" by (simp only: has_reader_def not_not)
  then have "r_quiet L ?g (?g\<lparr>rg_readers := AList.update name i (rg_readers ?g)\<rparr>)"
    by (intro r_attach) (use assms in \<open>simp_all add: registry_of_def in_transfer_def in_monitor_def map_of_readers\<close>)
  ultimately show ?thesis by (intro calm_step) simp
qed

lemma frame_reader_gate: "moves same_reg (reader_gate name n)"
  unfolding reader_gate_def by (intro framed)

lemma reader_gate_passed:
  "reader_gate name n s = (s', Inr (i, r)) \<Longrightarrow>
    s' = s \<and> map_of (ss_serial_base s) name = Some i \<and> \<not> has_reader name s \<and> \<not> in_transfer name s \<and> \<not> in_monitor name s"
  by (auto simp: reader_gate_def refuse_range_def refuse_busy_def refuse_def act_apply
      split: if_splits option.splits prod.splits sum.splits)

lemma calm_reader_start: "moves (calm L) (s_serial_reader_start name n)"
proof (rule movesI)
  fix s s' :: "('a, 'b, 'c, 'd) session" and q
  assume "s_serial_reader_start name n s = (s', q)"
  then show "calm L s s'" unfolding s_serial_reader_start_def
  proof (cases rule: bind_run)
    case 1
    then show ?thesis by (intro frame_calm movesD [OF frame_reader_gate])
  next
    case (2 s0 x)
    obtain i r where x: "x = (i, r)" by fastforce
    note free = reader_gate_passed [OF 2(1) [unfolded x]]
    define s1 where "s1 = set_reader name (i, r) s"
    define rest :: "(('a, 'b, 'c, 'd) session, fields) act" where "rest = mthen (ss_emit ''reader_start'' [(''conn'', PStr name), (''max_bytes'', PInt n)])
          (mthen (mmod (set_reader name (i, reader_start r))) (mret (stats_fields (reader_start r))))"
    have "moves (same_while name i) rest"
      unfolding rest_def by (intro held.seq held.ret held_set moves_held frame_emit)
    moreover have "attached name i s1" by (rule attachedI [of _ _ _ r]) (simp add: s1_def set_reader_def update_conv')
    moreover have "mthen (mmod (set_reader name (i, r))) rest s = (s', q)"
      using 2(2) free by (simp add: reader_attach_def x rest_def)
    then have "rest s1 = (s', q)" by (simp add: act_apply s1_def)
    ultimately have "same_reg s1 s'" using heldD by (metis fst_conv)
    moreover have "calm L s s1" unfolding s1_def using free by (intro attach_reader) simp_all
    ultimately show ?thesis using calm.trans frame_calm by metis
  qed
qed

lemma emit_then: "moves same_reg (mthen (ss_emit k d) (mret x))"
  by (intro framed)

lemma calm_reader_stop: "calm L s (fst (s_serial_reader_stop W name s))"
proof (cases "map_of (ss_readers s) name")
  case None
  then have "s_serial_reader_stop W name s = refuse ''reader_stop_failed'' [(''conn'', PStr name), (''error'', no_reader_text name)] (Exn KeyErr (no_reader_text name)) s"
    by (simp add: s_serial_reader_stop_def act_apply)
  then show ?thesis using frame_calm moves_def frame_refuse by metis
next
  case (Some x)
  obtain i r where x: "x = (i, r)" by fastforce
  define first where "first = mthen (mmod (set_reader name (i, r\<lparr>rd_stop := True\<rparr>))) (stop_reader_object W i r)"
  obtain s1 q where one: "first s = (s1, q)" by fastforce
  have "attached name i s" using Some x by (simp add: attachedI)
  moreover have "moves (same_while name i) first"
    unfolding first_def by (intro held.seq held_set moves_held frame_stop_object)
  ultimately have g1: "same_reg s s1" using heldD one by (metis fst_conv)
  then have at: "attached name i s1" using \<open>attached name i s\<close> same_reg_attached by blast
  show ?thesis
  proof (cases q)
    case (Inl e)
    then show ?thesis using Some x one g1 by (simp add: s_serial_reader_stop_def act_apply first_def [unfolded act_apply] frame_calm)
  next
    case (Inr y)
    obtain r' stopped where y: "y = (r', stopped)" by fastforce
    define s2 where "s2 = (if stopped then drop_reader name else set_reader name (i, r')) s1"
    have "calm L s1 s2" unfolding s2_def using at by (simp add: calm_drop frame_calm same_set_reader)
    moreover have "s_serial_reader_stop W name s =
        mthen (ss_emit (if stopped then ''reader_stop'' else ''reader_stop_failed'') ((''conn'', PStr name) # stats_fields r'))
          (mret (stats_fields r' @ [(''stopped'', PBool stopped)])) s2"
      using Some x one Inr y by (simp add: s_serial_reader_stop_def mbind_def mget_def mthen_def mmod_def first_def s2_def)
    moreover have "calm L s2 (fst (mthen (ss_emit (if stopped then ''reader_stop'' else ''reader_stop_failed'') ((''conn'', PStr name) # stats_fields r'))
          (mret (stats_fields r' @ [(''stopped'', PBool stopped)])) s2))"
      by (rule frame_calm) (rule emit_then [unfolded moves_def, rule_format])
    ultimately show ?thesis using g1 calm.trans frame_calm by metis
  qed
qed

section \<open>Closing\<close>

lemma bind_fst: "fst (mbind m f s) = (case m s of (s', Inl _) \<Rightarrow> s' | (s', Inr x) \<Rightarrow> fst (f x s'))"
  by (simp add: act_apply split: prod.split sum.split)

lemma bind_get: "mbind (mget f) k s = k (f s) s"
  by (simp add: act_apply)

lemma then_mod: "mthen (mmod f) k s = k (f s)"
  by (simp add: act_apply)

lemma stop_reader_gone:
  assumes "stop_reader W name b s = (s', Inr u)" shows "map_of (rg_readers (registry_of s')) name = None"
proof (cases "map_of (ss_readers s) name")
  case None
  then have "s' = s" using assms by (simp add: stop_reader_def act_apply)
  with None show ?thesis by (simp add: registry_of_def map_of_readers)
next
  case (Some x)
  obtain i r where x: "x = (i, r)" by fastforce
  define m where "m = mbind (stop_reader_object W i r) (\<lambda>(r', stopped).
               if b
               then ss_emit (if stopped then ''reader_stop'' else ''reader_stop_failed'')
                 ([(''conn'', PStr name), (''implicit'', PBool True)] @ stats_fields r')
               else mret ())"
  have "m (drop_reader name s) = (s', Inr u)"
    using assms Some x by (simp add: stop_reader_def bind_get then_mod m_def)
  moreover have "moves same_reg m" unfolding m_def by (intro framed frame_stop_object)
  ultimately have "registry_of s' = registry_of (drop_reader name s)" using same_reg_run by blast
  then show ?thesis by (simp add: registry_of_def drop_reader_def delete_readers delete_conv')
qed

lemma forget_idle:
  assumes "map_of (rg_readers (registry_of s)) name = None" shows "calm L s (forget_name name s)"
proof -
  let ?g = "registry_of s"
  have "registry_of (forget_name name s) = ?g\<lparr>rg_transports := AList.delete name (rg_transports ?g),
      rg_kinds := AList.delete name (rg_kinds ?g), rg_base := AList.delete name (rg_base ?g)\<rparr>"
    by (simp add: registry_of_def forget_name_def)
  then show ?thesis using r_forget [OF assms, of L] by (intro calm_step) simp
qed

lemma calm_stop_and_close: "moves (calm L) (mthen (stop_reader W name True) (mthen (mmod (forget_name name)) (close_object W name i)))"
proof (rule movesI)
  fix s s' :: "('a, 'b, 'c, 'd) session" and q
  assume "mthen (stop_reader W name True) (mthen (mmod (forget_name name)) (close_object W name i)) s = (s', q)"
  then show "calm L s s'"
  proof (cases rule: then_run)
    case 1
    from 1(1) show ?thesis by (rule movesD [OF calm_stop_reader])
  next
    case (2 s1)
    have "close_object W name i (forget_name name s1) = (s', q)" using 2(2) by (simp add: act_apply)
    then have "calm L (forget_name name s1) s'" by (intro frame_calm movesD [OF frame_close_object])
    moreover have "calm L s s1" using 2(1) by (rule movesD [OF calm_stop_reader])
    ultimately show ?thesis using forget_idle [OF stop_reader_gone [OF 2(1)], of L] calm.trans by blast
  qed
qed

lemma calm_closes: "moves (calm L) (close_typed W name kind)" "moves (calm L) (close_transport W name)"
  unfolding close_typed_def close_transport_def Let_def
  by (intro calm.bind moves_if calm_stop_and_close calm.get moves_calm framed)+

lemma calm_close_begin: "moves (calm L) close_begin"
proof (rule movesI)
  fix s s' :: "('a, 'b, 'c, 'd) session" and q
  assume "close_begin s = (s', q)"
  then have "registry_of s' = (registry_of s)\<lparr>rg_transports := [], rg_kinds := [], rg_base := [], rg_readers := [], rg_closed := True\<rparr>"
    by (auto simp: close_begin_def act_apply registry_of_def)
  then show "calm L s s'" using r_close [of L "registry_of s"] by (intro calm_step) simp
qed

section \<open>Waiting calls\<close>

lemma same_wait_loop: "wait_loop vid pid t e ts s = Some (s', r) \<Longrightarrow> same_reg s s'"
proof (induction vid pid t e ts s rule: wait_loop.induct)
  case (2 vid pid t e now ports ts s)
  show ?case
  proof (cases "now < e \<and> wait_match vid pid ports = None")
    case True
    then show ?thesis using 2 by simp
  next
    case False
    with 2(2) show ?thesis
      by (auto split: if_splits option.splits dest: movesD [OF frame_refuse] movesD [OF emit_then])
  qed
qed simp

lemma frame_wait_gate: "moves same_reg (mthen check_open (mthen (ss_check_kind env kind) (refuse_range ok k info why t)))"
  by (intro framed)

lemma same_serial_wait: "s_serial_wait W vid pid t start ts s = Some (s', r) \<Longrightarrow> same_reg s s'"
  unfolding s_serial_wait_def
  by (auto split: prod.splits sum.splits dest!: same_wait_loop movesD [OF frame_wait_gate] intro: frame.trans)

lemma same_read_until:
  assumes "s_serial_read_until name pattern t start ts s = Some (s', r)" shows "same_reg s s'"
proof -
  have gate: "moves same_reg (mthen (refuse_range ok k info why x) (ss_reader name ''read_until''))" for ok k info why x
    by (intro framed frame_serial)
  have passed: "s1 = s \<and> map_of (ss_readers s) name = Some y"
    if "mthen (refuse_range ok k info why x) (ss_reader name ''read_until'') s = (s1, Inr y)" for ok k info why x s1 y
    using that by (auto simp: refuse_range_def refuse_def ss_reader_def act_apply split: if_splits option.splits prod.splits sum.splits)
  show ?thesis using assms unfolding s_serial_read_until_def pbind_def pact_def
    by (auto split: prod.splits sum.splits dest: movesD [OF gate])
      (metis attachedI passed same_set_reader)
qed

lemma same_blocking: "blocking W i k f s = Some (s', r) \<Longrightarrow> same_reg s s'"
  unfolding blocking_def Let_def by (auto split: if_splits dest: movesD [OF frame_call])

section \<open>Gates and ends of exchanges\<close>

lemma gate_failed:
  "refuse_busy b k name reason e s = (s', Inl x) \<Longrightarrow> same_reg s s'"
  "journaled_key_error k name (ss_get n) s = (s', Inl x) \<Longrightarrow> same_reg s s'"
  by (auto dest: movesD [OF frame_gates(6)] movesD [OF frame_key_error [OF frame_gates(4)]])

lemma idleI:
  assumes "\<not> has_reader name s" and "\<not> in_transfer name s" and "\<not> in_monitor name s" shows "r_idle name (registry_of s)"
proof -
  from assms(1) have "map_of (ss_readers s) name = None" by (simp only: has_reader_def not_not)
  then show ?thesis using assms(2,3) by (simp add: r_idle_def registry_of_def map_of_readers in_transfer_def in_monitor_def)
qed

lemma transfer_gate_cases:
  assumes "transfer_gate op name s = (s', r)"
  obtains e where "r = Inl e" "same_reg s s'"
  | i where "r = Inr i" "s' = s\<lparr>ss_transfers := List.insert name (ss_transfers s)\<rparr>" "map_of (ss_transports s) name = Some i"
      "r_idle name (registry_of s)"
proof (cases r)
  case (Inl e)
  with assms have "same_reg s s'"
    by (auto simp: transfer_gate_def act_apply split: prod.splits sum.splits dest!: gate_failed gate_passed key_error_passed)
  with Inl show thesis using that by blast
next
  case (Inr i)
  with assms have "s' = s\<lparr>ss_transfers := List.insert name (ss_transfers s)\<rparr> \<and> map_of (ss_transports s) name = Some i \<and>
      \<not> has_reader name s \<and> \<not> in_transfer name s \<and> \<not> in_monitor name s"
    by (auto simp: transfer_gate_def act_apply split: prod.splits sum.splits dest!: gate_passed key_error_passed)
  then have s': "s' = s\<lparr>ss_transfers := List.insert name (ss_transfers s)\<rparr>" and i: "map_of (ss_transports s) name = Some i"
    and free: "\<not> has_reader name s" "\<not> in_transfer name s" "\<not> in_monitor name s" by blast+
  from Inr s' i idleI [OF free] show thesis using that by blast
qed

lemma monitor_gate_cases:
  assumes "monitor_gate name s = (s', r)"
  obtains e where "r = Inl e" "same_reg s s'"
  | i where "r = Inr i" "s' = s\<lparr>ss_monitors := List.insert name (ss_monitors s)\<rparr>" "map_of (ss_transports s) name = Some i"
      "r_idle name (registry_of s)"
proof (cases r)
  case (Inl e)
  with assms have "same_reg s s'"
    by (auto simp: monitor_gate_def act_apply split: prod.splits sum.splits dest!: gate_failed gate_passed key_error_passed)
  with Inl show thesis using that by blast
next
  case (Inr i)
  with assms have "s' = s\<lparr>ss_monitors := List.insert name (ss_monitors s)\<rparr> \<and> map_of (ss_transports s) name = Some i \<and>
      \<not> has_reader name s \<and> \<not> in_transfer name s \<and> \<not> in_monitor name s"
    by (auto simp: monitor_gate_def act_apply split: prod.splits sum.splits dest!: gate_passed key_error_passed)
  then have s': "s' = s\<lparr>ss_monitors := List.insert name (ss_monitors s)\<rparr>" and i: "map_of (ss_transports s) name = Some i"
    and free: "\<not> has_reader name s" "\<not> in_transfer name s" "\<not> in_monitor name s" by blast+
  from Inr s' i idleI [OF free] show thesis using that by blast
qed

lemma finally_reg:
  assumes m: "moves same_reg m" and k: "\<And>x. moves same_reg (k x)"
    and c: "\<And>s t. same_reg s t \<Longrightarrow> registry_of (c t) = f (registry_of s)"
  shows "registry_of (fst (mbind (mfinally m c) k s)) = f (registry_of s)"
proof -
  obtain s1 r where run: "m s = (s1, r)" by fastforce
  from movesD [OF m run] have c1: "registry_of (c s1) = f (registry_of s)" by (rule c)
  show ?thesis
  proof (cases r)
    case (Inl e)
    with run c1 show ?thesis by (simp add: act_apply)
  next
    case (Inr x)
    have "same_reg (c s1) (fst (k x (c s1)))" using k [of x] by (simp add: moves_def)
    with run c1 Inr show ?thesis by (simp add: act_apply same_reg_def)
  qed
qed

lemma registry_put_end: "registry_of (fst (put_end name source target data r s)) =
    (registry_of s)\<lparr>rg_transfers := removeAll name (rg_transfers (registry_of s))\<rparr>"
  unfolding put_end_def mthen_def [of "mfinally _ _"]
  by (rule finally_reg) (intro framed, intro framed, simp add: same_reg_def registry_of_def end_transfer_def)

lemma registry_get_end: "registry_of (fst (get_end name target dest r s)) =
    (registry_of s)\<lparr>rg_transfers := removeAll name (rg_transfers (registry_of s))\<rparr>"
  unfolding get_end_def
  by (rule finally_reg) (intro framed, intro framed, simp add: same_reg_def registry_of_def end_transfer_def)

lemma registry_end_monitor: "registry_of (end_monitor name s) = (registry_of s)\<lparr>rg_monitors := removeAll name (rg_monitors (registry_of s))\<rparr>"
  by (simp add: registry_of_def end_monitor_def)

lemma touches_same: "touches W p s s' \<Longrightarrow> same_reg s s'"
proof -
  have call: "same_reg s (fst (m s))" if "moves same_reg m" for m :: "(('a, 'b, 'c, 'd) session, 'x) act" and s
    using that by (simp add: moves_def)
  have "same_reg s (fst (bd_read (conn_board W i) n s))" "same_reg s (fst (bd_write (conn_board W i) b s))"
    "same_reg s (fst (bd_clock (conn_board W i) s))" for i n b and s :: "('a, 'b, 'c, 'd) session"
    by (simp_all add: conn_board_def call framed) (simp add: same_reg_def registry_of_def)
  note board = this
  show "touches W p s s' \<Longrightarrow> same_reg s s'"
    by (induction rule: touches.induct) (simp_all add: board call framed frame_poll)
qed

end
