(* ===== verification/SessionSafety.thy ===== *)
theory SessionSafety
  imports SessionThreads "HOL-Library.Multiset"
begin

text \<open>
  What holds in every reachable state of a session, whatever its threads, devices and
  environments do: refinement of the abstract registry, exclusive use of a connection, registries
  in lockstep, the ceiling of open connections.
\<close>

section \<open>Exchanges in flight\<close>

fun transfer_of :: "pending \<Rightarrow> string list" where
  "transfer_of (PPut name i source target data) = [name]"
| "transfer_of (PGet name i target dest) = [name]"
| "transfer_of _ = []"

fun window_of :: "pending \<Rightarrow> string list" where
  "window_of (PMonitor name i a) = [name]"
| "window_of _ = []"

definition in_flight :: "pending list \<Rightarrow> string multiset" where
  "in_flight P = mset (concat (map transfer_of P))"

definition windows :: "pending list \<Rightarrow> string multiset" where
  "windows P = mset (concat (map window_of P))"

lemma in_flight_simps [simp]:
  "in_flight [] = {#}" "in_flight (p # P) = mset (transfer_of p) + in_flight P" "in_flight (P @ P') = in_flight P + in_flight P'"
  "windows [] = {#}" "windows (p # P) = mset (window_of p) + windows P" "windows (P @ P') = windows P + windows P'"
  by (simp_all add: in_flight_def windows_def)

text \<open>A part that starts no exchange.\<close>

definition plain :: "int option \<Rightarrow> ('d, 'm, 'q, 'e) session \<Rightarrow> (('d, 'm, 'q, 'e) session \<times> pending list) option \<Rightarrow> bool" where
  "plain L s out \<longleftrightarrow> (case out of None \<Rightarrow> True | Some (s', new) \<Rightarrow> calm L s s' \<and> in_flight new = {#} \<and> windows new = {#})"

lemma plain_whole: "moves (calm L) m \<Longrightarrow> plain L s (whole m s)"
  by (simp add: plain_def whole_def moves_def)

lemma plain_leaves:
  assumes "moves (calm L) m" and "\<And>x. transfer_of (k x) = [] \<and> window_of (k x) = []"
  shows "plain L s (leaves m k s)"
  using assms by (auto simp: plain_def leaves_def moves_def split: prod.split sum.split) (metis fst_conv)+

lemma plain_waits: "(\<And>s' r. m s = Some (s', r) \<Longrightarrow> same_reg s s') \<Longrightarrow> plain L s (waits m s)"
  by (cases "m s") (auto simp: plain_def waits_def intro: frame_calm)

lemma calm_stop: "moves (calm L) (s_serial_reader_stop W name)"
  by (simp add: moves_def calm_reader_stop)

lemmas framing = frame_serial frame_get_calls frame_files frame_call frame_gates frame_key_error frame_close_end

lemma begins_plain: "plain L s (begins W q s)"
proof (cases q)
  case (QReaderStop name)
  then show ?thesis by (simp add: plain_whole calm_stop)
next
  case (QSerialClose name)
  then show ?thesis by (simp add: plain_whole calm_closes s_serial_close_def)
next
  case (QModbusClose name)
  then show ?thesis by (simp add: plain_whole calm_closes s_modbus_close_def)
next
  case (QMqttClose name)
  then show ?thesis by (simp add: plain_whole calm_closes s_mqtt_close_def)
qed (auto intro!: plain_whole plain_leaves plain_waits moves_calm framing calm_closes calm_reader_start calm_close_begin
      elim: same_serial_wait same_read_until split: prod.split)

lemma resumes_plain:
  assumes "transfer_of p = []" and "window_of p = []" and "\<And>n a. p \<noteq> PMonitorGate n a" and "\<And>n t d. p \<noteq> PGetGate n t d"
    and "\<And>n t d b. p \<noteq> PPutGate n t d b"
  shows "plain (limit_of W) s (resumes W p s)"
  using assms by (cases p) (auto intro!: plain_whole plain_waits moves_calm framing calm_opens elim: same_blocking)

section \<open>Refinement of the registry\<close>

definition tracked :: "('d, 'm, 'q, 'e) session \<times> pending list \<Rightarrow> bool" where
  "tracked c \<longleftrightarrow> mset (ss_transfers (fst c)) = in_flight (snd c) \<and> mset (ss_monitors (fst c)) = windows (snd c)"

lemma calm_regs: "calm L s s' \<Longrightarrow> (r_step L)\<^sup>*\<^sup>* (registry_of s) (registry_of s')"
  by (simp add: calm_def quiet_steps)

lemma calm_tracked: "calm L s s' \<Longrightarrow> ss_transfers s' = ss_transfers s \<and> ss_monitors s' = ss_monitors s"
  using quiet_exchanges [of L "registry_of s" "registry_of s'"] by (simp add: calm_def registry_of_def)

text \<open>One step, at a state in which the registry is well formed and the tokens agree with it.\<close>

definition good_step :: "('d, 'm, 'q, 'e) world \<Rightarrow> ('d, 'm, 'q, 'e) session \<times> pending list \<Rightarrow> ('d, 'm, 'q, 'e) session \<times> pending list \<Rightarrow> bool" where
  "good_step W c c' \<longleftrightarrow> (r_step (limit_of W))\<^sup>*\<^sup>* (registry_of (fst c)) (registry_of (fst c')) \<and>
     (r_ok (registry_of (fst c)) \<and> tracked c \<longrightarrow> tracked c')"

lemma good_plain:
  assumes "calm (limit_of W) s s'" and "in_flight P' = in_flight P" and "windows P' = windows P"
  shows "good_step W (s, P) (s', P')"
  using assms calm_tracked [OF assms(1)] by (simp add: good_step_def calm_regs tracked_def)

lemma mset_end: "distinct xs \<Longrightarrow> mset (removeAll x xs) = mset xs - {#x#}"
  by (simp add: distinct_remove1_removeAll [symmetric])

lemma good_end_transfer:
  assumes "registry_of s' = (registry_of s)\<lparr>rg_transfers := removeAll name (rg_transfers (registry_of s))\<rparr>"
    and "transfer_of p = [name]" and "window_of p = []"
  shows "good_step W (s, P @ p # P') (s', P @ P')"
proof -
  have t: "ss_transfers s' = removeAll name (ss_transfers s)" "ss_monitors s' = ss_monitors s"
    using assms(1) by (simp_all add: registry_of_def)
  have "distinct (ss_transfers s)" if "r_ok (registry_of s)"
    using that by (simp add: r_ok_def exclusive_def registry_of_def)
  with t show ?thesis
    using assms r_end_transfer [of "limit_of W" "registry_of s" name] by (auto simp: good_step_def tracked_def mset_end)
qed

lemma end_monitor_sets: "ss_transfers (end_monitor name s) = ss_transfers s" "ss_monitors (end_monitor name s) = removeAll name (ss_monitors s)"
  by (simp_all add: end_monitor_def)

lemma good_end_monitor:
  assumes "window_of p = [name]" and "transfer_of p = []" and "in_flight new = {#}" and "windows new = {#}"
  shows "good_step W (s, P @ p # P') (end_monitor name s, P @ new @ P')"
proof -
  have "distinct (ss_monitors s)" if "r_ok (registry_of s)"
    using that by (simp add: r_ok_def exclusive_def registry_of_def)
  then show ?thesis
    using assms r_end_monitor [of "limit_of W" "registry_of s" name]
    by (auto simp: good_step_def tracked_def registry_end_monitor mset_end end_monitor_sets)
qed

lemma good_transfer_gate:
  assumes "leaves (transfer_gate op name) k s = Some (s', new)" and "\<And>i. transfer_of (k i) = [name] \<and> window_of (k i) = []"
    and "transfer_of p = []" and "window_of p = []"
  shows "good_step W (s, P @ p # P') (s', P @ new @ P')"
proof -
  obtain s1 r where run: "transfer_gate op name s = (s1, r)" by fastforce
  then show ?thesis
  proof (cases rule: transfer_gate_cases)
    case 1
    then have "s' = s1" "new = []" using assms(1) run by (simp_all add: leaves_def)
    then show ?thesis using 1 assms by (intro good_plain frame_calm) simp_all
  next
    case (2 i)
    then have s': "s' = s\<lparr>ss_transfers := List.insert name (ss_transfers s)\<rparr>" and new: "new = [k i]"
      using assms(1) run by (auto simp: leaves_def)
    have reg: "registry_of s' = (registry_of s)\<lparr>rg_transfers := List.insert name (rg_transfers (registry_of s))\<rparr>"
      by (simp add: s' registry_of_def)
    have "map_of (rg_transports (registry_of s)) name = Some i" using 2 by (simp add: registry_of_def)
    from r_transfer [OF this 2(4), of "limit_of W"] have "r_step (limit_of W) (registry_of s) (registry_of s')" by (simp add: reg)
    moreover have "name \<notin> set (ss_transfers s)" using 2(4) by (simp add: r_idle_def registry_of_def)
    ultimately show ?thesis using assms(2) [of i] assms(3,4)
      by (auto simp: good_step_def tracked_def s' new)
  qed
qed

lemma good_monitor_gate:
  assumes "leaves (monitor_gate name) k s = Some (s', new)" and "\<And>i. window_of (k i) = [name] \<and> transfer_of (k i) = []"
    and "transfer_of p = []" and "window_of p = []"
  shows "good_step W (s, P @ p # P') (s', P @ new @ P')"
proof -
  obtain s1 r where run: "monitor_gate name s = (s1, r)" by fastforce
  then show ?thesis
  proof (cases rule: monitor_gate_cases)
    case 1
    then have "s' = s1" "new = []" using assms(1) run by (simp_all add: leaves_def)
    then show ?thesis using 1 assms by (intro good_plain frame_calm) simp_all
  next
    case (2 i)
    then have s': "s' = s\<lparr>ss_monitors := List.insert name (ss_monitors s)\<rparr>" and new: "new = [k i]"
      using assms(1) run by (auto simp: leaves_def)
    have reg: "registry_of s' = (registry_of s)\<lparr>rg_monitors := List.insert name (rg_monitors (registry_of s))\<rparr>"
      by (simp add: s' registry_of_def)
    have "map_of (rg_transports (registry_of s)) name = Some i" using 2 by (simp add: registry_of_def)
    from r_monitor [OF this 2(4), of "limit_of W"] have "r_step (limit_of W) (registry_of s) (registry_of s')" by (simp add: reg)
    moreover have "name \<notin> set (ss_monitors s)" using 2(4) by (simp add: r_idle_def registry_of_def)
    ultimately show ?thesis using assms(2) [of i] assms(3,4)
      by (auto simp: good_step_def tracked_def s' new)
  qed
qed

lemma good_resume:
  assumes "resumes W p s = Some (s', new)" shows "good_step W (s, P @ p # P') (s', P @ new @ P')"
proof (cases "\<exists>n t d b. p = PPutGate n t d b \<or> p = PGetGate n t d \<or> (\<exists>a. p = PMonitorGate n a)")
  case True
  then show ?thesis using assms by (auto intro: good_transfer_gate good_monitor_gate)
next
  case False
  have idle: "transfer_of p = []" "window_of p = []" using assms by (cases p; simp)+
  with False resumes_plain [of p W s] have "plain (limit_of W) s (resumes W p s)" by auto
  with assms idle show ?thesis by (intro good_plain) (simp_all add: plain_def)
qed

lemma good_background: "good_step W (s, P) (fst (reader_pump W late name s), P)"
  by (rule good_plain) (simp_all add: frame_calm frame_pump)

lemma good_network: "good_step W (s, P) (fst (net_arrives i ns s), P)"
  by (rule good_plain) (simp_all add: frame_calm net_arrives_def frame_call_raw [unfolded moves_def])

lemma step_good: "s_step W c c' \<Longrightarrow> good_step W c c'"
proof (induction rule: s_step.induct)
  case (request q s s' new P)
  with begins_plain [of "limit_of W" s W q] show ?case by (intro good_plain) (simp_all add: plain_def)
next
  case (exchange p s s' P P')
  then show ?case by (intro good_plain frame_calm touches_same) simp_all
next
  case (finish p s s' new P P')
  then show ?case
  proof (cases rule: ends.cases)
    case (window_ends name i a v)
    have "good_step W (s, P @ p # P') (end_monitor name s, P @ [PSummary name a v] @ P')"
      by (rule good_end_monitor) (simp_all add: window_ends)
    then show ?thesis by (simp add: window_ends)
  qed (auto intro: good_end_transfer simp: registry_put_end registry_get_end good_end_monitor [where new = "[]", simplified])
qed (simp_all add: good_resume good_background good_network)

lemma start_good: "r_ok (registry_of (session_start fx board)) \<and> tracked (session_start fx board, [])"
  by (simp add: session_start_def registry_of_def r_ok_def lockstep_def owned_def exclusive_def tracked_def)

lemma reach_good: "s_reach Q c c' \<Longrightarrow> r_ok (registry_of (fst c)) \<and> tracked c \<Longrightarrow> r_ok (registry_of (fst c')) \<and> tracked c'"
proof (induction rule: s_reach.induct)
  case (step c' W c'')
  from step_good [OF step.hyps(3)] step.IH [OF step.prems] show ?case
    by (auto simp: good_step_def intro: r_ok_steps)
qed simp

lemma reachable_good: "s_reach Q (session_start fx board, []) (s, P) \<Longrightarrow> r_ok (registry_of s) \<and> tracked (s, P)"
  using reach_good start_good by force

section \<open>A small run\<close>

definition demo_env :: environ where
  "demo_env k = (if k = MAX_CONNECTIONS_ENV then Some ''1'' else None)"

definition demo_world :: "(bytes, unit, unit, string list) world" where
  "demo_world = \<lparr>wd_env = demo_env, wd_clock = of_nat, wd_win32 = False, wd_port = loop_port, wd_modbus = demo_client, wd_mqtt = demo_paho,
     wd_esp = EspFlash.demo_board, wd_fresh = ([], (), ()), wd_net = [], wd_net' = [], wd_alive = False\<rparr>"

definition demo_session :: "(bytes, unit, unit, string list) session" where
  "demo_session = session_start demo_sandbox []"

lemma demo_kind [simp]: "ss_check_kind demo_env ''serial'' s = (s, Inr ())"
proof -
  have "policy_from_env demo_env = Inr \<lparr>ap_hosts = [], ap_kinds = ALL_KINDS\<rparr>" by code_simp
  then show ?thesis by (simp add: ss_check_kind_def gate_kind_def check_kind_def act_apply ALL_KINDS_def)
qed

lemma demo_parsers [simp]:
  "parse_max_connections (demo_env MAX_CONNECTIONS_ENV) = Inr (Some 1)" "apply_limits demo_env name r =
    Inr \<lparr>cn_name = name, cn_raw = r, cn_deadline = Some (deadline_init 600 (Some name)), cn_rate = None\<rparr>"
proof -
  have "parse_transport_deadline (demo_env TRANSPORT_DEADLINE_ENV) = Inr (Some 600)" "parse_transport_rate (demo_env TRANSPORT_RATE_ENV) = Inr None"
    by (simp_all add: demo_env_def MAX_CONNECTIONS_ENV_def TRANSPORT_DEADLINE_ENV_def TRANSPORT_RATE_ENV_def parse_transport_deadline_def parse_transport_rate_def
        DEFAULT_TRANSPORT_DEADLINE_SEC_def)
  then show "apply_limits demo_env name r =
    Inr \<lparr>cn_name = name, cn_raw = r, cn_deadline = Some (deadline_init 600 (Some name)), cn_rate = None\<rparr>"
    by (simp add: apply_limits_def)
qed code_simp

lemma demo_world_sel [simp]: "wd_env demo_world = demo_env" "wd_port demo_world = loop_port" "wd_clock demo_world = of_nat"
  by (simp_all add: demo_world_def)

lemma demo_gate: "begins demo_world (QSerialOpen [] name ''loop://'' 9600 (Fin 1)) s =
   Some (if ss_closed s then (s, []) else (s, [PSerialOpen name ''loop://'' 9600]))"
  by (simp add: leaves_def serial_open_gate_def act_apply check_open_def refuse_range_def in_range01_def pf_le_def by_serial_prefix_def)

definition port_opened :: "('d, 'm, 'q) conn \<Rightarrow> bool" where
  "port_opened c = (case cn_raw c of RSerial t \<Rightarrow> st_opened t | _ \<Rightarrow> False)"

lemma demo_conn_open: "\<exists>c ev. conn_open t (serial_raw ''open'' (serial_open loop_port))
    \<lparr>cn_name = n, cn_raw = RSerial (new_serial demo_world ''loop://'' 9600), cn_deadline = Some (deadline_init 600 (Some n)), cn_rate = None\<rparr> =
    (c, [ev], Inr ()) \<and> cn_name c = n \<and> port_opened c"
proof -
  have "port_allowed False ''loop://''" by code_simp
  then show ?thesis
    by (simp add: conn_open_def deadline_open_def serial_raw_def new_serial_def demo_world_def serial_open_def act_apply on_port_def loop_port_def
      st_emit_def port_opened_def)
qed

text \<open>A session in which the name is free and there is room gets the connection.\<close>

lemma demo_open:
  assumes "ss_transports s = []" and "ss_kinds s = []" and "ss_serial_base s = []" and "\<not> ss_jclosed s"
  shows "\<exists>s'. resumes demo_world (PSerialOpen n ''loop://'' 9600) s = Some (s', []) \<and>
    registry_of s' = (registry_of s)\<lparr>rg_transports := [(n, length (ss_heap s))], rg_kinds := [(n, ''serial'')],
      rg_base := [(n, length (ss_heap s))], rg_objects := map cn_name (ss_heap s) @ [n]\<rparr> \<and> \<not> ss_jclosed s' \<and> ss_readers s' = ss_readers s \<and>
    port_opened (ss_heap s' ! length (ss_heap s))"
proof -
  obtain c :: "(bytes, unit, unit) conn" and ev where "conn_open (of_nat (ss_tick s)) (serial_raw ''open'' (serial_open loop_port))
    \<lparr>cn_name = n, cn_raw = RSerial (new_serial demo_world ''loop://'' 9600), cn_deadline = Some (deadline_init 600 (Some n)), cn_rate = None\<rparr> =
    (c, [ev], Inr ())" "cn_name c = n" "port_opened c"
    using demo_conn_open by blast
  then show ?thesis using assms
    by (simp add: whole_def serial_open_locked_def open_locked_def act_apply check_free_def check_connection_limit_def read_clock_def
      on_conn_def journal_events_def registry_of_def)
qed

text \<open>A connection is opened and a transfer starts on it.\<close>

lemma demo_transfer_gate:
  assumes "ss_transports s = [(n, i)]" and "ss_readers s = []" and "ss_transfers s = []" and "ss_monitors s = []"
  shows "transfer_gate op n s = (s\<lparr>ss_transfers := [n]\<rparr>, Inr i)"
  using assms by (simp add: transfer_gate_def act_apply has_reader_def in_transfer_def in_monitor_def refuse_busy_def journaled_key_error_def ss_get_def)

lemma demo_step:
  "s_reach (\<lambda>W. W = demo_world) c c' \<Longrightarrow> s_step demo_world c' c'' \<Longrightarrow> s_reach (\<lambda>W. W = demo_world) c c''"
  by (rule s_reach.step) auto

lemma demo_run:
  "\<exists>s. s_reach (\<lambda>W. W = demo_world) (demo_session, []) (s, [PGet ''u'' 0 ''main.py'' ''b'']) \<and> ss_transfers s = [''u''] \<and>
     ss_transports s = [(''u'', 0)] \<and> \<not> ss_jclosed s"
proof -
  let ?reach = "s_reach (\<lambda>W. W = demo_world) (demo_session, [])"
  have start: "ss_transports demo_session = []" "ss_kinds demo_session = []" "ss_serial_base demo_session = []" "\<not> ss_jclosed demo_session"
    "\<not> ss_closed demo_session" "ss_readers demo_session = []" "ss_transfers demo_session = []" "ss_monitors demo_session = []" "ss_heap demo_session = []"
    by (simp_all add: demo_session_def session_start_def)
  have 1: "?reach (demo_session, [PSerialOpen ''u'' ''loop://'' 9600])"
  proof -
    have "begins demo_world (QSerialOpen [] ''u'' ''loop://'' 9600 (Fin 1)) demo_session = Some (demo_session, [PSerialOpen ''u'' ''loop://'' 9600])"
      using start by (simp only: demo_gate if_False)
    from s_step.request [OF this, of "[]"] show ?thesis by (auto intro: s_reach.intros)
  qed
  obtain s2 where open2: "resumes demo_world (PSerialOpen ''u'' ''loop://'' 9600) demo_session = Some (s2, [])"
    and reg2: "registry_of s2 = (registry_of demo_session)\<lparr>rg_transports := [(''u'', 0)], rg_kinds := [(''u'', ''serial'')],
      rg_base := [(''u'', 0)], rg_objects := [''u'']\<rparr>" "ss_readers s2 = []" "\<not> ss_jclosed s2"
    using demo_open [OF start(1-4), of "''u''"] start by auto
  have s2: "ss_transports s2 = [(''u'', 0)]" "ss_kinds s2 = [(''u'', ''serial'')]" "ss_transfers s2 = []" "ss_monitors s2 = []" "\<not> ss_closed s2"
    using reg2 start by (simp_all add: registry_of_def)
  have 2: "?reach (s2, [])" using demo_step [OF 1 s_step.resume [OF open2, of "[]" "[]", simplified]] by simp
  have "begins demo_world (QSerialGet ''u'' ''main.py'' ''b'') s2 = Some (s2, [PGetGate ''u'' ''main.py'' ''b''])"
    using s2 by (simp add: leaves_def get_before_def check_open_def act_apply)
  from demo_step [OF 2 s_step.request [OF this]] have 3: "?reach (s2, [PGetGate ''u'' ''main.py'' ''b''])" by simp
  have "resumes demo_world (PGetGate ''u'' ''main.py'' ''b'') s2 = Some (s2\<lparr>ss_transfers := [''u'']\<rparr>, [PGet ''u'' 0 ''main.py'' ''b''])"
    using demo_transfer_gate [OF s2(1) reg2(2) s2(3,4)] by (simp add: leaves_def)
  from demo_step [OF 3 s_step.resume [OF this, of "[]" "[]", simplified]]
  have "?reach (s2\<lparr>ss_transfers := [''u'']\<rparr>, [PGet ''u'' 0 ''main.py'' ''b''])" by simp
  then show ?thesis using s2 reg2(3) by (intro exI [of _ "s2\<lparr>ss_transfers := [''u'']\<rparr>"]) simp
qed

section \<open>Properties\<close>

text \<open>
  C2. Whatever step any thread of a session makes, its registries move by steps of the abstract
  registry: a name is registered only when it is free and below the ceiling, a reader attaches
  only to an open serial connection that nothing uses, an exchange starts only on an open
  connection that nothing uses, and a connection loses its name only without a reader.
\<close>

theorem session_refines_registry:
  assumes "s_step W (s, P) (s', P')"
  shows "(r_step (limit_of W))\<^sup>*\<^sup>* (registry_of s) (registry_of s')"
  using step_good [OF assms] by (simp add: good_step_def)

theorem session_refines_registry_witness:
  "\<exists>s' :: (bytes, unit, unit, string list) session. (r_step (Some 1))\<^sup>*\<^sup>* (registry_of demo_session) (registry_of s') \<and> ss_transports s' = [(''u'', 0)]"
proof -
  have start: "ss_transports demo_session = []" "ss_kinds demo_session = []" "ss_serial_base demo_session = []" "\<not> ss_jclosed demo_session"
    by (simp_all add: demo_session_def session_start_def)
  obtain s2 where open2: "resumes demo_world (PSerialOpen ''u'' ''loop://'' 9600) demo_session = Some (s2, [])" "ss_transports s2 = [(''u'', 0)]"
    using demo_open [OF start, of "''u''"] by (auto simp: registry_of_def demo_session_def session_start_def)
  have "s_step demo_world (demo_session, [PSerialOpen ''u'' ''loop://'' 9600]) (s2, [])"
    using s_step.resume [OF open2(1), of "[]" "[]"] by simp
  from session_refines_registry [OF this] have "(r_step (Some 1))\<^sup>*\<^sup>* (registry_of demo_session) (registry_of s2)"
    by (simp add: limit_of_def)
  with open2(2) show ?thesis by blast
qed

text \<open>
  C1. Exclusive use: in every reachable state, with any interleaving of requests, a name is used
  by at most one of a background reader, a transfer in flight and a capture window in flight, and
  the sets the session keeps are exactly the exchanges in flight (none is forgotten, none is left
  behind).
\<close>

theorem session_exclusive:
  assumes "s_reach Q (session_start fx board, []) (s, P)"
  shows "count (in_flight P) name + count (windows P) name + of_bool (has_reader name s) \<le> 1 \<and>
    mset (ss_transfers s) = in_flight P \<and> mset (ss_monitors s) = windows P"
proof -
  have ok: "exclusive (registry_of s)" and t: "mset (ss_transfers s) = in_flight P" "mset (ss_monitors s) = windows P"
    using reachable_good [OF assms] by (simp_all add: r_ok_def tracked_def)
  have d: "distinct (map fst (ss_readers s) @ ss_transfers s @ ss_monitors s)"
    using ok by (simp add: exclusive_def registry_of_def o_def case_prod_beta)
  have "count (mset (map fst (ss_readers s))) name = (if name \<in> set (map fst (ss_readers s)) then 1 else 0)"
    using d distinct_append distinct_count_atmost_1 by metis
  then have "of_bool (has_reader name s) = count (mset (map fst (ss_readers s))) name"
    by (simp add: has_reader_def map_of_eq_None_iff)
  then have "count (in_flight P) name + count (windows P) name + of_bool (has_reader name s) =
      count (mset (map fst (ss_readers s) @ ss_transfers s @ ss_monitors s)) name"
    by (simp add: t)
  also have "\<dots> \<le> 1" using d distinct_count_atmost_1 [of "map fst (ss_readers s) @ ss_transfers s @ ss_monitors s"]
    by (simp del: mset_append mset_map)
  finally show ?thesis using t by simp
qed

theorem session_exclusive_witness:
  "\<exists>s. s_reach (\<lambda>W. W = demo_world) (demo_session, []) (s, [PGet ''u'' 0 ''main.py'' ''b'']) \<and> ss_transports s = [(''u'', 0)] \<and> \<not> has_reader ''u'' s"
proof -
  obtain s where r: "s_reach (\<lambda>W. W = demo_world) (demo_session, []) (s, [PGet ''u'' 0 ''main.py'' ''b''])" "ss_transports s = [(''u'', 0)]"
    using demo_run by blast
  from session_exclusive [OF r(1) [unfolded demo_session_def], of "''u''"] have "\<not> has_reader ''u'' s" by simp
  with r show ?thesis by blast
qed

text \<open>
  C4. The registries agree in every reachable state: kinds and connections have the same names,
  each once; a name leads to the object that was made for it; exactly the serial connections have
  a raw transport a reader may use; and a reader reads the object its name leads to.
\<close>

theorem session_lockstep:
  assumes "s_reach Q (session_start fx board, []) (s, P)"
  shows "map fst (ss_kinds s) = map fst (ss_transports s) \<and> distinct (map fst (ss_transports s)) \<and>
    (\<forall>name i. map_of (ss_transports s) name = Some i \<longrightarrow> i < length (ss_heap s) \<and> cn_name (ss_heap s ! i) = name) \<and>
    (\<forall>name. map_of (ss_serial_base s) name = (if map_of (ss_kinds s) name = Some ''serial'' then map_of (ss_transports s) name else None)) \<and>
    (\<forall>name i r. map_of (ss_readers s) name = Some (i, r) \<longrightarrow> map_of (ss_transports s) name = Some i \<and> map_of (ss_kinds s) name = Some ''serial'')"
proof -
  have l: "lockstep (registry_of s)" and o: "owned (registry_of s)"
    using reachable_good [OF assms] by (simp_all add: r_ok_def)
  have base: "map_of (ss_serial_base s) name = (if map_of (ss_kinds s) name = Some ''serial'' then map_of (ss_transports s) name else None)" for name
    using l by (simp add: lockstep_def registry_of_def del: map_entries)
  have "map_of (ss_serial_base s) name = Some i" if "map_of (ss_readers s) name = Some (i, r)" for name i r
    using o that by (simp add: owned_def registry_of_def map_of_readers)
  then have "map_of (ss_transports s) name = Some i \<and> map_of (ss_kinds s) name = Some ''serial''"
    if "map_of (ss_readers s) name = Some (i, r)" for name i r
    using that base [of name] by (metis option.distinct(1))
  moreover have "map fst (ss_kinds s) = map fst (ss_transports s)" "distinct (map fst (ss_transports s))"
    using l by (simp_all add: lockstep_def registry_of_def)
  moreover have "i < length (ss_heap s) \<and> cn_name (ss_heap s ! i) = name" if "map_of (ss_transports s) name = Some i" for name i
  proof -
    have "map_of (rg_transports (registry_of s)) name = Some i" using that by (simp add: registry_of_def)
    with l have "i < length (rg_objects (registry_of s)) \<and> rg_objects (registry_of s) ! i = name" unfolding lockstep_def by blast
    then show ?thesis by (auto simp: registry_of_def)
  qed
  ultimately show ?thesis using base by blast
qed

theorem session_lockstep_witness:
  "\<exists>s P. s_reach (\<lambda>W. W = demo_world) (demo_session, []) (s, P) \<and> ss_transports s = [(''u'', 0)] \<and> cn_name (ss_heap s ! 0) = ''u''"
proof -
  obtain s where r: "s_reach (\<lambda>W. W = demo_world) (demo_session, []) (s, [PGet ''u'' 0 ''main.py'' ''b''])" "ss_transports s = [(''u'', 0)]"
    using demo_run by blast
  then have "map_of (ss_transports s) ''u'' = Some 0" by simp
  with session_lockstep [OF r(1) [unfolded demo_session_def]] have "cn_name (ss_heap s ! 0) = ''u''" by blast
  with r show ?thesis by blast
qed

text \<open>
  C7. The ceiling of \<open>IRONHARNESS_MAX_CONNECTIONS\<close>: while the variable says \<open>n\<close>, no interleaving
  of requests registers more than \<open>n\<close> connections.
\<close>

theorem session_limit:
  assumes "parse_max_connections raw = Inr (Some n)"
    and "s_reach (\<lambda>W. wd_env W MAX_CONNECTIONS_ENV = raw) (session_start fx board, []) (s, P)"
  shows "int (length (ss_transports s)) \<le> n"
proof -
  have pos: "0 \<le> n"
    using assms(1) by (auto simp: parse_max_connections_def split: option.splits if_splits)
  have "int (length (ss_transports (fst c))) \<le> n" if "s_reach (\<lambda>W. wd_env W MAX_CONNECTIONS_ENV = raw) (session_start fx board, []) c" for c
    using that
  proof (induction rule: s_reach.induct)
    case start
    then show ?case using pos by (simp add: session_start_def)
  next
    case (step c W c')
    have "limit_of W = Some n" using step.hyps(2) assms(1) by (simp add: limit_of_def)
    with step_good [OF step.hyps(3)] have "(r_step (Some n))\<^sup>*\<^sup>* (registry_of (fst c)) (registry_of (fst c'))"
      by (simp add: good_step_def)
    then have "int (length (rg_transports (registry_of (fst c')))) \<le> n"
      by (induction rule: rtranclp_induct) (use step.IH in \<open>auto simp: registry_of_def intro: r_limit\<close>)
    then show ?case by (simp add: registry_of_def)
  qed
  with assms(2) show ?thesis by fastforce
qed

theorem session_limit_witness:
  "\<exists>s. s_reach (\<lambda>W. wd_env W MAX_CONNECTIONS_ENV = Some ''1'') (demo_session, []) (s, [PGet ''u'' 0 ''main.py'' ''b'']) \<and> length (ss_transports s) \<le> 1"
proof -
  obtain s where r: "s_reach (\<lambda>W. W = demo_world) (demo_session, []) (s, [PGet ''u'' 0 ''main.py'' ''b''])"
    using demo_run by blast
  have weaken: "s_reach Q' a c" if "s_reach Q a c" "\<And>W. Q W \<Longrightarrow> Q' W"
    for Q Q' :: "(bytes, unit, unit, string list) world \<Rightarrow> bool" and a c
    using that by (induction rule: s_reach.induct) (auto intro: s_reach.intros)
  have "s_reach (\<lambda>W. wd_env W MAX_CONNECTIONS_ENV = Some ''1'') (demo_session, []) (s, [PGet ''u'' 0 ''main.py'' ''b''])"
    by (rule weaken [OF r]) (simp add: demo_env_def)
  moreover have "parse_max_connections (Some ''1'') = Inr (Some 1)" using demo_parsers(1) by (simp add: demo_env_def)
  ultimately show ?thesis using session_limit [OF _ , of "Some ''1''" 1 demo_sandbox "[]"] by (force simp: demo_session_def)
qed

text \<open>A request part that is refused: one event about the connection, and nothing else.\<close>

definition shut_out :: "string \<Rightarrow> ('d, 'm, 'q, 'e) session \<Rightarrow> (('d, 'm, 'q, 'e) session \<times> pending list) option \<Rightarrow> bool" where
  "shut_out name s out \<longleftrightarrow> (\<exists>kind data. out = Some (s\<lparr>ss_journal := ss_journal s @ [(kind, (''conn'', PStr name) # data)]\<rparr>, []))"

definition refused :: "string \<Rightarrow> ('d, 'm, 'q, 'e) session \<Rightarrow> ('d, 'm, 'q, 'e) session \<times> (exn + 'a) \<Rightarrow> bool" where
  "refused name s out \<longleftrightarrow> (\<exists>kind data e. out = (s\<lparr>ss_journal := ss_journal s @ [(kind, (''conn'', PStr name) # data)]\<rparr>, Inl e))"

lemma refusedI: "\<not> ss_jclosed s \<Longrightarrow> refused name s (refuse kind ((''conn'', PStr name) # data) e s)"
  by (auto simp: refused_def refuse_def ss_emit_def journal_events_def act_apply)

lemma shut_outI: "refused name s (m s) \<Longrightarrow> shut_out name s (leaves m k s)"
  unfolding refused_def shut_out_def by (elim exE, intro exI) (simp only: leaves_def split: prod.split sum.split, simp)

lemma shut_out_whole: "refused name s (m s) \<Longrightarrow> shut_out name s (whole m s)"
  unfolding refused_def shut_out_def by (elim exE, intro exI) (simp only: whole_def fst_conv)

lemma refused_first_bind: "refused name s (m s) \<Longrightarrow> refused name s (mbind m k s)"
  unfolding refused_def by (elim exE, intro exI) (simp only: act_apply prod.case sum.case)

lemma refused_first: "refused name s (m s) \<Longrightarrow> refused name s (mthen m k s)"
  by (simp add: mthen_def refused_first_bind)

text \<open>A gate either refuses or lets the rest run on the same state.\<close>

lemma refused_then:
  assumes "\<not> ss_jclosed s"
  shows "(\<not> b \<Longrightarrow> refused name s (m s)) \<Longrightarrow> refused name s (mthen (refuse_busy b k name reason e) m s)"
    and "(ok \<Longrightarrow> refused name s (m s)) \<Longrightarrow> refused name s (mthen (refuse_range ok k [(''conn'', PStr name)] why x) m s)"
proof -
  have step: "refused name s (mthen (refuse kind ((''conn'', PStr name) # data) e) m s)" for kind data e
    using refusedI [OF assms, of name kind data e] by (rule refused_first)
  show "(\<not> b \<Longrightarrow> refused name s (m s)) \<Longrightarrow> refused name s (mthen (refuse_busy b k name reason e) m s)"
    using step by (cases b) (simp_all add: refuse_busy_def act_apply)
  show "(ok \<Longrightarrow> refused name s (m s)) \<Longrightarrow> refused name s (mthen (refuse_range ok k [(''conn'', PStr name)] why x) m s)"
    using step by (cases ok) (simp_all add: refuse_range_def act_apply)
qed

lemma refused_get: "refused name s (f (g s) s) \<Longrightarrow> refused name s (mbind (mget g) f s)"
  by (simp add: bind_get)

lemma refused_key_error:
  assumes "\<not> ss_jclosed s" and "\<And>i. refused name s (f i s)"
  shows "refused name s (mbind (journaled_key_error k name (ss_get name)) f s)"
proof (cases "map_of (ss_transports s) name")
  case None
  have r: "refused name s (refuse k [(''conn'', PStr name), (''error'', exn_str (not_open_error name))] (not_open_error name) s)"
    using assms(1) by (rule refusedI)
  have "journaled_key_error k name (ss_get name) s = refuse k [(''conn'', PStr name), (''error'', exn_str (not_open_error name))] (not_open_error name) s"
    using None by (simp add: journaled_key_error_def ss_get_def act_apply catches_def exn_is_def not_open_error_def)
  with r have "refused name s (journaled_key_error k name (ss_get name) s)" by simp
  then show ?thesis by (rule refused_first_bind)
next
  case (Some i)
  then have "journaled_key_error k name (ss_get name) s = (s, Inr i)"
    by (simp add: journaled_key_error_def ss_get_def act_apply)
  with assms(2) [of i] show ?thesis by (simp add: act_apply)
qed

lemmas refusals = refused_then refused_get refused_key_error refusedI

text \<open>What the gates ask about a name that an exchange uses.\<close>

definition busy :: "string \<Rightarrow> ('d, 'm, 'q, 'e) session \<Rightarrow> bool" where
  "busy name s \<longleftrightarrow> in_transfer name s \<or> in_monitor name s"

lemma refused_reads:
  assumes "\<not> ss_jclosed s" and "busy name s" shows "refused name s (read_gate op a name n s)"
  unfolding read_gate_def using assms
  by (intro refused_then refused_get) (auto simp: busy_def intro!: refused_then)

lemma refused_transfer:
  assumes "\<not> ss_jclosed s" and "busy name s" shows "refused name s (transfer_gate op name s)"
  unfolding transfer_gate_def using assms
  by (intro refused_get refused_then refused_key_error) (auto simp: busy_def intro!: refused_then refused_get)

lemma refused_monitor:
  assumes "\<not> ss_jclosed s" and "busy name s" shows "refused name s (monitor_gate name s)"
  unfolding monitor_gate_def using assms
  by (intro refused_get) (auto simp: busy_def intro!: refused_then)

lemma refused_reader:
  assumes "\<not> ss_jclosed s" and "busy name s" shows "refused name s (reader_gate name n s)"
  unfolding reader_gate_def using assms
  by (intro refused_then refused_get) (auto simp: busy_def split: option.split intro!: refused_then refusedI)

lemma bind_Inr: "m s = (s1, Inr x) \<Longrightarrow> mbind m f s = f x s1"
  by (simp add: act_apply)

lemma get_kind_pure: obtains r where "get_kind name kind a s = (s, r)"
proof (cases "map_of (ss_transports s) name")
  case None
  then show thesis using that by (simp add: get_kind_def ss_get_def act_apply)
next
  case (Some i)
  then have "get_kind name kind a s = (if map_of (ss_kinds s) name \<noteq> Some kind
      then (s, Inl (Exn KeyErr (PFStr [PStr ''transport '', PRepr (PStr name), PStr '' is not '', PStr a, PStr '' transport'']))) else (s, Inr i))"
    by (simp add: get_kind_def ss_get_def act_apply)
  then show thesis using that by (cases "map_of (ss_kinds s) name \<noteq> Some kind") simp_all
qed

lemma refused_write:
  assumes open_journal: "\<not> ss_jclosed s" and used: "busy name s" shows "refused name s (write_gate name h s)"
proof (cases "from_hex h")
  case None
  then show ?thesis using refusedI [OF open_journal] by (simp add: write_gate_def)
next
  case (Some data)
  obtain r where r: "get_kind name ''serial'' ''a serial'' s = (s, r)" by (rule get_kind_pure)
  let ?m = "mcatch (\<lambda>_. True) (get_kind name ''serial'' ''a serial'') (\<lambda>e. refuse ''write_failed'' [(''conn'', PStr name), (''error'', exn_str e)] e)"
  show ?thesis
  proof (cases r)
    case (Inl e)
    have "?m s = refuse ''write_failed'' [(''conn'', PStr name), (''error'', exn_str e)] e s" using r Inl by (simp add: act_apply)
    then have "refused name s (?m s)" using refusedI [OF open_journal] by simp
    then show ?thesis unfolding write_gate_def Some option.case by (rule refused_first_bind)
  next
    case (Inr i)
    have "?m s = (s, Inr i)" using r Inr by (simp add: act_apply)
    have "refused name s
      (mbind (mget (in_transfer name)) (\<lambda>busy.
              mthen (refuse_busy busy ''write_refused'' name ''serial transfer in progress''
                  (Exn RuntimeErr (busy_text ''a serial transfer is in progress on '' name '' - serial_write would corrupt the staged exchange'')))
                (mbind (mget (in_monitor name)) (\<lambda>busy'.
                  mthen (refuse_busy busy' ''write_refused'' name ''serial monitor in progress''
                      (Exn RuntimeErr (busy_text ''a serial monitor is in progress on '' name '' - serial_write would interleave with the captured stream'')))
                    (mret (i, data))))) s)"
      using used open_journal by (intro refused_get refused_then) (auto simp: busy_def intro!: refused_then refused_get)
    moreover have "mbind ?m f s = f i s" for f :: "nat \<Rightarrow> (('a, 'b, 'c, 'd) session, nat \<times> bytes) act"
      using \<open>?m s = (s, Inr i)\<close> by (rule bind_Inr)
    ultimately show ?thesis unfolding write_gate_def Some option.case by simp
  qed
qed



text \<open>
  The lifecycle gate of an opening runs before the lock and is not repeated under it. A
  \<open>close()\<close> between the two finds the registry without the new connection; the opening then
  registers it. So a run ends with the session and its journal closed, nothing pending, and a
  registered connection whose port is open.
\<close>

theorem session_close_race_leaks:
  "\<exists>s. s_reach (\<lambda>W. W = demo_world) (demo_session, []) (s, []) \<and> ss_closed s \<and> ss_jclosed s \<and>
     ss_transports s = [(''u'', 0)] \<and> port_opened (ss_heap s ! 0)"
proof -
  let ?reach = "s_reach (\<lambda>W. W = demo_world) (demo_session, [])"
  let ?p = "PSerialOpen ''u'' ''loop://'' 9600"
  define s1 where "s1 = demo_session\<lparr>ss_closed := True\<rparr>"
  have start: "ss_transports s1 = []" "ss_kinds s1 = []" "ss_serial_base s1 = []" "\<not> ss_jclosed s1" "ss_readers s1 = []" "ss_heap s1 = []" "ss_closed s1"
    by (simp_all add: s1_def demo_session_def session_start_def)
  have "\<not> ss_closed demo_session" by (simp add: demo_session_def session_start_def)
  then have "begins demo_world (QSerialOpen [] ''u'' ''loop://'' 9600 (Fin 1)) demo_session = Some (demo_session, [?p])"
    by (simp only: demo_gate if_False)
  from demo_step [OF s_reach.start s_step.request [OF this, of "[]"]] have 1: "?reach (demo_session, [?p])" by simp
  have "begins demo_world QClose demo_session = Some (s1, [PClose [] []])"
    by (simp add: leaves_def close_begin_def act_apply demo_session_def session_start_def s1_def)
  from demo_step [OF 1 s_step.request [OF this]] have 2: "?reach (s1, [?p, PClose [] []])" by simp
  obtain s2 where open2: "resumes demo_world ?p s1 = Some (s2, [])" and
    reg: "registry_of s2 = (registry_of s1)\<lparr>rg_transports := [(''u'', 0)], rg_kinds := [(''u'', ''serial'')], rg_base := [(''u'', 0)], rg_objects := [''u'']\<rparr>"
    "port_opened (ss_heap s2 ! 0)"
    using demo_open [OF start(1-4), of "''u''"] start(6) by auto
  from demo_step [OF 2 s_step.resume [OF open2, of "[]" "[PClose [] []]", simplified]] have 3: "?reach (s2, [PClose [] []])" by simp
  have "resumes demo_world (PClose [] []) s2 = Some (s2\<lparr>ss_jclosed := True\<rparr>, [])"
    by (simp add: whole_def close_end_def act_apply)
  from demo_step [OF 3 s_step.resume [OF this, of "[]" "[]", simplified]] have "?reach (s2\<lparr>ss_jclosed := True\<rparr>, [])" by simp
  then show ?thesis using reg start by (intro exI [of _ "s2\<lparr>ss_jclosed := True\<rparr>"]) (simp add: registry_of_def)
qed

text \<open>A request that runs without interruption.\<close>

definition alone :: "('d, 'm, 'q, 'e) world \<Rightarrow> request \<Rightarrow> ('d, 'm, 'q, 'e) session \<Rightarrow> ('d, 'm, 'q, 'e) session option" where
  "alone W q s = (case begins W q s of
      None \<Rightarrow> None
    | Some (s', []) \<Rightarrow> Some s'
    | Some (s', p # _) \<Rightarrow> map_option fst (resumes W p s'))"

lemma alone_parts:
  assumes "\<And>x s. resumes W (k x) s = whole (f x) s" and "begins W q s = leaves m k s"
  shows "alone W q s = Some (fst (mbind m f s))"
  using assms by (simp add: alone_def leaves_def whole_def act_apply split: prod.split sum.split)

lemma pure_end:
  fixes m :: "('s, 'i) act" and f :: "'i \<Rightarrow> ('s, 'x) act"
  shows "fst (mbind m (\<lambda>i. mbind (f i) (\<lambda>x. mret (g x))) s) = fst (mbind m f s)"
proof -
  have "fst (mbind k (\<lambda>x. mret (g x)) t) = fst (k t)" for k :: "('s, 'x) act" and t
    by (simp add: act_apply split: prod.split sum.split)
  then show ?thesis by (simp add: act_apply split: prod.split sum.split)
qed

text \<open>
  The parts the interleaving steps are made of are the operations: run without interruption,
  first part and rest have the effect of the whole method.
\<close>

theorem session_parts_compose:
  "alone W (QSerialOpen comports name port baudrate timeout) s = Some (fst (s_serial_open W comports name port baudrate timeout s)) \<and>
   alone W (QModbusOpen name host port' device_id timeout) s = Some (fst (s_modbus_open W name host port' device_id timeout s)) \<and>
   alone W (QMqttOpen name host port' timeout) s = Some (fst (s_mqtt_open W name host port' timeout s)) \<and>
   alone W (QSerialWrite name h) s = Some (fst (s_serial_write W name h s)) \<and>
   alone W (QSerialRead name n) s = Some (fst (s_serial_read W name n s)) \<and>
   alone W (QSerialReadLine name n) s = Some (fst (s_serial_read_line W name n s)) \<and>
   alone W (QSerialReset name pulse settle) s = Some (fst (s_serial_reset W name pulse settle s)) \<and>
   alone W (QModbusRead name address quantity) s = Some (fst (s_modbus_read W name address quantity s)) \<and>
   alone W (QMqttPublish name topic payload qos retain) s = Some (fst (s_mqtt_publish W name topic payload qos retain s)) \<and>
   alone W QClose s = Some (fst (s_close W s))"
proof -
  have "alone W (QSerialRead name n) s = Some (fst (s_serial_read W name n s))"
    by (subst alone_parts [where f = "\<lambda>i. call W i (serial_raw ''read'' (serial_read (wd_port W) (nat n)))"])
      (simp_all add: s_serial_read_def pure_end)
  moreover have "alone W (QSerialReadLine name n) s = Some (fst (s_serial_read_line W name n s))"
    by (subst alone_parts [where f = "\<lambda>i. call W i (serial_raw ''read_line'' (serial_read_line (wd_port W) (nat n)))"])
      (simp_all add: s_serial_read_line_def pure_end)
  moreover have "alone W (QSerialWrite name h) s = Some (fst (s_serial_write W name h s))"
    by (subst alone_parts [where f = "write_io W name"]) (simp_all add: s_serial_write_def split: prod.split)
  moreover have "alone W (QSerialOpen comports name port baudrate timeout) s = Some (fst (s_serial_open W comports name port baudrate timeout s))"
    by (subst alone_parts [where f = "\<lambda>port'. serial_open_locked W name port' baudrate"]) (simp_all add: s_serial_open_def)
  moreover have "alone W (QModbusOpen name host port' device_id timeout) s = Some (fst (s_modbus_open W name host port' device_id timeout s))"
    by (subst alone_parts [where f = "\<lambda>_. modbus_open_locked W name host port' device_id"]) (simp_all add: s_modbus_open_def mthen_def)
  moreover have "alone W (QMqttOpen name host port' timeout) s = Some (fst (s_mqtt_open W name host port' timeout s))"
    by (subst alone_parts [where f = "\<lambda>_. mqtt_open_locked W name host port' (float_rat timeout)"]) (simp_all add: s_mqtt_open_def mthen_def)
  moreover have "alone W (QSerialReset name pulse settle) s = Some (fst (s_serial_reset W name pulse settle s))"
    by (subst alone_parts [where f = "\<lambda>i. call W i (serial_raw ''reset'' (serial_reset (wd_port W) pulse settle))"]) (simp_all add: s_serial_reset_def)
  moreover have "alone W (QModbusRead name address quantity) s = Some (fst (s_modbus_read W name address quantity s))"
    by (subst alone_parts [where f = "\<lambda>i. call W i (modbus_raw ''read_holding'' (read_holding (wd_modbus W) address quantity))"])
      (simp_all add: s_modbus_read_def modbus_gate_def)
  moreover have "alone W (QMqttPublish name topic payload qos retain) s = Some (fst (s_mqtt_publish W name topic payload qos retain s))"
    by (subst alone_parts [where f = "\<lambda>i. call W i (mqtt_raw ''publish'' (mqtt_publish (wd_mqtt W) topic payload qos retain (wd_net W)))"])
      (simp_all add: s_mqtt_publish_def mqtt_gate_def)
  moreover have "alone W QClose s = Some (fst (s_close W s))"
    by (subst alone_parts [where f = "close_end W"]) (simp_all add: s_close_def split: prod.split)
  ultimately show ?thesis by blast
qed

text \<open>
  After \<open>close()\<close> nothing of a session with an empty registry can be used, but the errors
  differ: the operations with a lifecycle gate raise the typed error and do nothing, the others
  try to journal their refusal and end in the journal's \<open>ValueError\<close>.
\<close>

theorem session_closed_errors:
  assumes "ss_closed s" and "ss_jclosed s" and "ss_transports s = []"
  shows "s_serial_open W comports name port baudrate timeout s = (s, Inl (Exn TransportClosedError (PStr ''session is closed - create a new Session''))) \<and>
    s_file_write W path content s = (s, Inl (Exn TransportClosedError (PStr ''session is closed - create a new Session''))) \<and>
    s_esp_erase W port baud s = (s, Inl (Exn TransportClosedError (PStr ''session is closed - create a new Session''))) \<and>
    s_serial_write W name h s = (s, Inl journal_closed) \<and>
    s_modbus_read W name address quantity s = (s, Inl journal_closed) \<and>
    s_mqtt_publish W name topic payload qos retain s = (s, Inl journal_closed) \<and>
    close_transport W name s = (s, Inl journal_closed)"
  using assms
  by (auto simp: s_serial_open_def serial_open_gate_def s_file_write_def file_gate_def s_esp_erase_def s_serial_write_def write_gate_def
    s_modbus_read_def s_mqtt_publish_def close_transport_def journaled_key_error_def get_kind_def ss_get_def not_open_error_def catches_def exn_is_def
    refuse_def ss_emit_def journal_events_def check_open_def act_apply split: option.split)

theorem session_closed_errors_witness:
  "s_serial_write demo_world ''u'' ''00'' (fst (s_close demo_world demo_session)) = (fst (s_close demo_world demo_session), Inl journal_closed)"
proof -
  have "fst (s_close demo_world demo_session) = demo_session\<lparr>ss_closed := True, ss_jclosed := True\<rparr>"
    by (simp add: s_close_def close_begin_def close_end_def act_apply demo_session_def session_start_def)
  moreover have "s_serial_write demo_world ''u'' ''00'' (demo_session\<lparr>ss_closed := True, ss_jclosed := True\<rparr>) =
      (demo_session\<lparr>ss_closed := True, ss_jclosed := True\<rparr>, Inl journal_closed)"
    using session_closed_errors [of "demo_session\<lparr>ss_closed := True, ss_jclosed := True\<rparr>" demo_world "[]" "''u''" "[]" 0 NaN "[]" "[]" 0 "''00''"]
    by (simp add: demo_session_def session_start_def)
  ultimately show ?thesis by simp
qed

end
