(* ===== verification/SessionMonitor.thy ===== *)
theory SessionMonitor
  imports SessionSafety
begin

text \<open>
  The capture window of \<open>serial_monitor\<close>: it returns once the clock has passed its deadline, and
  what it returns is bounded and explained by its stop reason.
\<close>

section \<open>The clock only advances\<close>

definition ticks :: "('d, 'm, 'q, 'e) session \<Rightarrow> ('d, 'm, 'q, 'e) session \<Rightarrow> bool" where
  "ticks s t \<longleftrightarrow> ss_tick s \<le> ss_tick t"

interpretation tick: evolution ticks
  by unfold_locales (simp_all add: ticks_def)

lemma tick_events: "ss_tick (fst (journal_events evs r s)) = ss_tick s"
  by (simp add: journal_events_def)

lemma tick_emit: "moves ticks (ss_emit k d)"
  by (simp add: moves_def ss_emit_def ticks_def tick_events)

lemma tick_on_conn: "moves ticks (on_conn i f)"
  by (simp add: moves_def on_conn_def ticks_def tick_events split: prod.split)

lemma tick_clock: "moves ticks (read_clock W)"
  by (simp add: moves_def read_clock_def ticks_def)

lemma tick_calls: "moves ticks (call W i m)" "moves ticks (call_raw i r)" "moves ticks (poll_waiting W i)"
  unfolding call_def call_raw_def poll_waiting_def call_raw_def
  by (intro tick.bind tick.catching tick.ret tick_clock tick_on_conn)+

section \<open>One turn of the loop\<close>

text \<open>A chunk of a turn: nothing, or what one read of at most \<open>k\<close> bytes returned.\<close>

definition chunk_of :: "('d, 'm, 'q, 'e) world \<Rightarrow> nat \<Rightarrow> int \<Rightarrow> bytes \<Rightarrow> bool" where
  "chunk_of W i k chunk \<longleftrightarrow> chunk = [] \<or>
     (\<exists>n s t. call W i (serial_raw ''read'' (serial_read (wd_port W) n)) s = (t, Inr chunk) \<and> int n \<le> k)"

text \<open>Why the loop stopped, with the buffer it had before the turn.\<close>

definition explained ::
  "('d, 'm, 'q, 'e) world \<Rightarrow> nat \<Rightarrow> int \<Rightarrow> rat \<Rightarrow> rat option \<Rightarrow> bytes option \<Rightarrow> bytes \<Rightarrow> bytes \<times> string \<Rightarrow> bool" where
  "explained W i mx deadline quiet needle buf = (\<lambda>(out, reason).
     (reason = ''max_bytes'' \<and> out = buf \<and> mx \<le> int (length buf)) \<or>
     (reason = ''max_seconds'' \<and> out = buf \<and> (\<exists>n. deadline \<le> wd_clock W n)) \<or>
     (reason = ''quiet'' \<and> out = buf \<and> quiet \<noteq> None) \<or>
     (reason = ''pattern'' \<and> needle \<noteq> None \<and> int (length buf) < mx \<and>
        (\<exists>chunk. out = buf @ chunk \<and> chunk_of W i (mx - int (length buf)) chunk \<and> pattern_seen (the needle) (length buf) out)))"

lemma monitor_turn:
  obtains t e where "monitor_loop W i mx deadline quiet needle buf since s = Some (t, Inl e)"
  | t v where "monitor_loop W i mx deadline quiet needle buf since s = Some (t, Inr v)" "explained W i mx deadline quiet needle buf v"
  | chunk since' t where
      "monitor_loop W i mx deadline quiet needle buf since s = monitor_loop W i mx deadline quiet needle (buf @ chunk) since' t"
      "ss_tick s < ss_tick t" "wd_clock W (ss_tick s) < deadline" "int (length buf) < mx" "chunk_of W i (mx - int (length buf)) chunk"
      "chunk = [] \<or> needle = None \<or> \<not> pattern_seen (the needle) (length buf) (buf @ chunk)"
proof -
  note unfolded = monitor_loop.simps [of W i mx deadline quiet needle buf since s]
  define s0 where "s0 = s\<lparr>ss_tick := Suc (ss_tick s)\<rparr>"
  define rest where "rest = mx - int (length buf)"
  show thesis
  proof (cases "rest \<le> 0 \<or> deadline \<le> wd_clock W (ss_tick s) \<or> quiet \<noteq> None \<and> the quiet \<le> wd_clock W (ss_tick s) - since")
    case True
    then show thesis using that(2) unfolded by (auto simp: Let_def explained_def rest_def split: if_splits)
  next
    case False
    then have room: "int (length buf) < mx" "wd_clock W (ss_tick s) < deadline" by (auto simp: rest_def)
    from False have gates: "\<not> rest \<le> 0" "\<not> deadline \<le> wd_clock W (ss_tick s)"
      "\<not> (quiet \<noteq> None \<and> the quiet \<le> wd_clock W (ss_tick s) - since)" by blast+
    have body: "monitor_loop W i mx deadline quiet needle buf since s = (case poll_waiting W i s0 of
        (s1, Inl e) \<Rightarrow> Some (s1, Inl e)
      | (s1, Inr w) \<Rightarrow>
          (if w = Some 0 then monitor_loop W i mx deadline quiet needle buf since s1
           else case call W i (serial_raw ''read'' (serial_read (wd_port W)
                  (nat (min (case w of Some n \<Rightarrow> min (int n) 4096 | None \<Rightarrow> 4096) rest)))) s1 of
             (s2, Inl e) \<Rightarrow> Some (s2, Inl e)
           | (s2, Inr chunk) \<Rightarrow>
               (if chunk = [] then monitor_loop W i mx deadline quiet needle buf since s2
                else if needle \<noteq> None \<and> pattern_seen (the needle) (length buf) (buf @ chunk)
                  then Some (s2\<lparr>ss_tick := Suc (ss_tick s2)\<rparr>, Inr (buf @ chunk, ''pattern''))
                  else monitor_loop W i mx deadline quiet needle (buf @ chunk) (wd_clock W (ss_tick s2)) (s2\<lparr>ss_tick := Suc (ss_tick s2)\<rparr>))))"
      by (subst unfolded) (simp only: Let_def gates if_False rest_def [symmetric] s0_def [symmetric])
    obtain s1 w where poll: "poll_waiting W i s0 = (s1, w)" by fastforce
    have t1: "ss_tick s < ss_tick s1" using movesD [OF tick_calls(3) poll] by (simp add: ticks_def s0_def)
    show thesis
    proof (cases w)
      case (Inl e)
      then show thesis using that(1) body poll by simp
    next
      case (Inr n)
      show thesis
      proof (cases "n = Some 0")
        case True
        have "monitor_loop W i mx deadline quiet needle buf since s = monitor_loop W i mx deadline quiet needle (buf @ []) since s1"
          using body poll Inr True by simp
        then show thesis by (rule that(3) [OF _ t1 room(2,1)]) (simp_all add: chunk_of_def)
      next
        case nonzero: False
        define k where "k = nat (min (case n of Some n \<Rightarrow> min (int n) 4096 | None \<Rightarrow> 4096) rest)"
        obtain s2 r where read: "call W i (serial_raw ''read'' (serial_read (wd_port W) k)) s1 = (s2, r)" by fastforce
        have t2: "ss_tick s < ss_tick s2" using movesD [OF tick_calls(1) read] t1 by (simp add: ticks_def)
        have eq: "monitor_loop W i mx deadline quiet needle buf since s = (case r of Inl e \<Rightarrow> Some (s2, Inl e) | Inr chunk \<Rightarrow>
            if chunk = [] then monitor_loop W i mx deadline quiet needle buf since s2
            else if needle \<noteq> None \<and> pattern_seen (the needle) (length buf) (buf @ chunk)
            then Some (s2\<lparr>ss_tick := Suc (ss_tick s2)\<rparr>, Inr (buf @ chunk, ''pattern''))
            else monitor_loop W i mx deadline quiet needle (buf @ chunk) (wd_clock W (ss_tick s2)) (s2\<lparr>ss_tick := Suc (ss_tick s2)\<rparr>))"
          using body poll Inr nonzero read by (simp add: k_def [symmetric] split: sum.split)
        show thesis
        proof (cases r)
          case (Inl e)
          then show thesis using that(1) eq by simp
        next
          case (Inr chunk)
          have "int k \<le> rest" using room by (simp add: k_def rest_def)
          then have c: "chunk_of W i rest chunk" using read Inr unfolding chunk_of_def by blast
          show thesis
          proof (cases "chunk \<noteq> [] \<and> needle \<noteq> None \<and> pattern_seen (the needle) (length buf) (buf @ chunk)")
            case True
            then have "explained W i mx deadline quiet needle buf (buf @ chunk, ''pattern'')"
              using c room by (auto simp: explained_def rest_def)
            then show thesis using that(2) eq Inr True by simp
          next
            case False
            then have "chunk = [] \<or> needle = None \<or> \<not> pattern_seen (the needle) (length buf) (buf @ chunk)" by blast
            then show thesis using that(3) [where chunk = chunk] eq Inr t2 room c unfolding rest_def by (auto simp: less_Suc_eq split: if_splits)
          qed
        qed
      qed
    qed
  qed
qed

section \<open>The window ends\<close>

text \<open>The clock passes every bound for good.\<close>

definition clock_passes :: "('d, 'm, 'q, 'e) world \<Rightarrow> bool" where
  "clock_passes W \<longleftrightarrow> (\<forall>b. \<exists>N. \<forall>n \<ge> N. b \<le> wd_clock W n)"

lemma monitor_loop_ends:
  assumes late: "\<forall>n \<ge> N. deadline \<le> wd_clock W n"
  shows "monitor_loop W i mx deadline quiet needle buf since s \<noteq> None"
proof (induction "N - ss_tick s" arbitrary: buf since s rule: less_induct)
  case less
  show ?case
  proof (cases rule: monitor_turn [of W i mx deadline quiet needle buf since s])
    case (3 chunk since' t)
    then have "ss_tick s < N" using late by (meson leI linorder_not_le)
    then show ?thesis using less [of t "buf @ chunk" since'] 3 by simp
  qed simp_all
qed

section \<open>What a read can return\<close>

definition reads_bounded :: "'d port \<Rightarrow> bool" where
  "reads_bounded P \<longleftrightarrow> (\<forall>n d d' bs. pt_read P n d = (d', Inr bs) \<longrightarrow> length bs \<le> n)"

lemma deadline_returns: "through_deadline b c m x = (x', Inr v) \<Longrightarrow> \<exists>u u'. m u = (u', Inr v)"
  by (auto simp: through_deadline_def deadline_call_def split: option.splits prod.splits sum.splits)

lemma limits_return: "through_limits a b c m x = (x', evs, Inr v) \<Longrightarrow> \<exists>u u'. m u = (u', Inr v)"
  unfolding through_limits_def rate_call_def
  by (auto split: option.splits prod.splits sum.splits if_splits dest: deadline_returns simp del: split_paired_Ex)

lemma call_returns:
  assumes "call W i m s = (t, Inr v)" obtains u u' where "m u = (u', Inr v)"
proof -
  from assms obtain c evs where "through_limits (wd_clock W (ss_tick s)) (wd_clock W (Suc (ss_tick s))) (wd_clock W (Suc (Suc (ss_tick s)))) m
      (ss_heap s ! i) = (c, evs, Inr v)"
    by (auto simp: call_def read_clock_def on_conn_def journal_events_def act_apply split: prod.splits if_splits)
  from limits_return [OF this] show thesis using that by blast
qed

lemma serial_read_returns: "serial_read P n u = (u', Inr bs) \<Longrightarrow> \<exists>d d'. pt_read P n d = (d', Inr bs)"
  by (auto simp: serial_read_def require_open_def guarded_def on_port_def st_emit_def act_apply split: prod.splits sum.splits if_splits)

lemma chunk_bound:
  fixes W :: "('d, 'm, 'q, 'e) world"
  assumes "reads_bounded (wd_port W)" and "chunk_of W i k chunk" and "0 \<le> k" shows "int (length chunk) \<le> k"
proof (cases "chunk = []")
  case False
  then obtain n s t where read: "call W i (serial_raw ''read'' (serial_read (wd_port W) n)) s = (t, Inr chunk)" "int n \<le> k"
    using assms(2) unfolding chunk_of_def by blast
  from read(1) obtain u u' :: "('d, 'm, 'q) raw \<times> event list" where "serial_raw ''read'' (serial_read (wd_port W) n) u = (u', Inr chunk)" by (rule call_returns)
  then obtain v v' where "serial_read (wd_port W) n v = (v', Inr chunk)"
    by (auto simp: serial_raw_def split: prod.splits raw.splits)
  then have "length chunk \<le> n" using serial_read_returns assms(1) unfolding reads_bounded_def by blast
  with read(2) show ?thesis by simp
qed (use assms in simp)

text \<open>The incremental search is a search in the whole buffer.\<close>

lemma pattern_seen_iff:
  assumes "p \<noteq> []" and "\<not> occurs p buf"
  shows "pattern_seen p (length buf) (buf @ chunk) = occurs p (buf @ chunk)"
proof
  assume "pattern_seen p (length buf) (buf @ chunk)"
  then obtain ys zs where "drop (Suc (length buf) - length p) (buf @ chunk) = ys @ p @ zs" unfolding pattern_seen_def occurs_iff by blast
  then have "buf @ chunk = (take (Suc (length buf) - length p) (buf @ chunk) @ ys) @ p @ zs"
    by (metis append_assoc append_take_drop_id)
  then show "occurs p (buf @ chunk)" unfolding occurs_iff by blast
next
  assume "occurs p (buf @ chunk)"
  then obtain ys zs where split: "buf @ chunk = ys @ p @ zs" unfolding occurs_iff by blast
  have "length buf < length ys + length p"
  proof (rule ccontr)
    assume "\<not> length buf < length ys + length p"
    then have "buf = ys @ p @ take (length buf - length ys - length p) zs"
      using arg_cong [OF split, of "take (length buf)"] by simp
    then show False using assms(2) unfolding occurs_iff by blast
  qed
  then have "drop (Suc (length buf) - length p) (buf @ chunk) = drop (Suc (length buf) - length p) ys @ p @ zs"
    using split by simp
  then show "pattern_seen p (length buf) (buf @ chunk)" unfolding pattern_seen_def occurs_iff by blast
qed

definition captured :: "int \<Rightarrow> bytes option \<Rightarrow> bytes \<times> string \<Rightarrow> bool" where
  "captured mx needle = (\<lambda>(out, reason).
     int (length out) \<le> mx \<and> reason \<in> {''max_bytes'', ''max_seconds'', ''quiet'', ''pattern''} \<and>
     (reason = ''max_bytes'' \<longrightarrow> int (length out) = mx) \<and>
     (case needle of None \<Rightarrow> reason \<noteq> ''pattern'' | Some p \<Rightarrow> (reason = ''pattern'') = occurs p out))"

lemma monitor_loop_captures:
  assumes late: "\<forall>n \<ge> N. deadline \<le> wd_clock W n" and reads: "reads_bounded (wd_port W)" and needle: "needle \<noteq> Some []"
  shows "int (length buf) \<le> mx \<Longrightarrow> (case needle of None \<Rightarrow> True | Some p \<Rightarrow> \<not> occurs p buf) \<Longrightarrow>
    \<exists>t r. monitor_loop W i mx deadline quiet needle buf since s = Some (t, r) \<and> (\<forall>v. r = Inr v \<longrightarrow> captured mx needle v)"
proof (induction "N - ss_tick s" arbitrary: buf since s rule: less_induct)
  case less
  show ?case
  proof (cases rule: monitor_turn [of W i mx deadline quiet needle buf since s])
    case (1 t e)
    then show ?thesis by simp
  next
    case (2 t v)
    obtain out reason where v: "v = (out, reason)" by fastforce
    have "captured mx needle v"
    proof (cases "reason = ''pattern''")
      case True
      then have why: "needle \<noteq> None" "int (length buf) < mx" "\<exists>chunk. out = buf @ chunk \<and> chunk_of W i (mx - int (length buf)) chunk \<and>
          pattern_seen (the needle) (length buf) out"
        using 2(2) v by (simp_all add: explained_def)
      then obtain p where p: "needle = Some p" "p \<noteq> []" using needle by (cases needle) auto
      with why obtain chunk where out: "out = buf @ chunk" "int (length buf) < mx"
        "chunk_of W i (mx - int (length buf)) chunk" "pattern_seen p (length buf) out" by auto
      have "int (length chunk) \<le> mx - int (length buf)" using chunk_bound [OF reads out(3)] out(2) by simp
      moreover have "occurs p out" using pattern_seen_iff [OF p(2), of buf chunk] less.prems(2) p out by simp
      ultimately show ?thesis using v True p out by (simp add: captured_def)
    next
      case False
      then show ?thesis using 2(2) v less.prems by (auto simp: explained_def captured_def split: option.split)
    qed
    with 2(1) show ?thesis by blast
  next
    case (3 chunk since' t)
    then have now: "N - ss_tick t < N - ss_tick s" using late by (meson diff_less_mono2 leI linorder_not_le)
    have "int (length (buf @ chunk)) \<le> mx" using chunk_bound [OF reads 3(5)] 3(4) by simp
    moreover have "case needle of None \<Rightarrow> True | Some p \<Rightarrow> \<not> occurs p (buf @ chunk)"
      using 3(6) less.prems(2) needle pattern_seen_iff [of _ buf chunk] by (cases needle) auto
    ultimately show ?thesis using less.hyps [OF now, of "buf @ chunk" since'] 3(1) by simp
  qed
qed

section \<open>Properties\<close>



end
