(* ===== verification/TextLines.thy ===== *)
theory TextLines
  imports PyText
begin

text \<open>
  Python's \<open>str.splitlines\<close> and \<open>str.replace\<close> on text held as UTF-8 bytes: every line boundary
  Python knows, with its length in bytes; and the rounding of numbers.
\<close>

section \<open>Line boundaries\<close>

definition ch :: "nat \<Rightarrow> char" where "ch n = char_of n"

text \<open>The length of the boundary a text starts with, 0 when it starts with none.\<close>

fun boundary :: "string \<Rightarrow> nat" where
  "boundary [] = 0"
| "boundary (c # cs) =
     (let n = of_char c :: nat in
      if n = 13 then (if cs \<noteq> [] \<and> hd cs = ch 10 then 2 else 1)
      else if n \<in> {10, 11, 12, 28, 29, 30} then 1
      else if n = 194 \<and> cs \<noteq> [] \<and> hd cs = ch 133 then 2
      else if n = 226 \<and> 2 \<le> length cs \<and> cs ! 0 = ch 128 \<and> cs ! 1 \<in> {ch 168, ch 169} then 3
      else 0)"

function split_from :: "string \<Rightarrow> string \<Rightarrow> string list" where
  "split_from cur [] = (if cur = [] then [] else [cur])"
| "split_from cur (c # cs) =
     (let b = boundary (c # cs) in
      if b = 0 then split_from (cur @ [c]) cs
      else cur # split_from [] (drop b (c # cs)))"
  by pat_completeness auto
termination
  by (relation "measure (\<lambda>(_, s). length s)") auto

definition splitlines :: "string \<Rightarrow> string list" where
  "splitlines s = split_from [] s"

text \<open>\<open>s.replace(old, new)\<close> for a non-empty \<open>old\<close>: left to right, without rescanning.\<close>

function replace_all :: "string \<Rightarrow> string \<Rightarrow> string \<Rightarrow> string" where
  "replace_all old new [] = []"
| "replace_all old new (c # cs) =
     (if old \<noteq> [] \<and> prefix old (c # cs) then new @ replace_all old new (drop (length old) (c # cs))
      else c # replace_all old new cs)"
  by pat_completeness auto
termination
  by (relation "measure (\<lambda>(_, _, s). length s)") (auto simp: prefix_length_le)

section \<open>Facts\<close>

definition plain_char :: "char \<Rightarrow> bool" where
  "plain_char c = ((of_char c :: nat) \<notin> {10, 11, 12, 13, 28, 29, 30, 194, 226})"

text \<open>Text without the first byte of any boundary is one line.\<close>

definition one_line :: "string \<Rightarrow> bool" where
  "one_line s = list_all plain_char s"

lemma boundary_plain: "plain_char c \<Longrightarrow> boundary (c # cs) = 0"
  by (simp add: plain_char_def Let_def)

lemma split_from_one_line:
  "one_line s \<Longrightarrow> split_from cur s = (if cur @ s = [] then [] else [cur @ s])"
  by (induction s arbitrary: cur) (auto simp: one_line_def boundary_plain Let_def simp del: boundary.simps)

lemma split_from_break:
  "one_line s \<Longrightarrow> split_from cur (s @ ch 10 # t) = (cur @ s) # split_from [] t"
proof (induction s arbitrary: cur)
  case Nil
  have "of_char (ch 10) = (10 :: nat)" by (simp add: ch_def)
  then show ?case by (simp add: Let_def)
next
  case (Cons c s)
  then have "boundary (c # s @ ch 10 # t) = 0" by (intro boundary_plain) (simp add: one_line_def)
  with Cons show ?case by (simp add: one_line_def Let_def del: boundary.simps)
qed

lemma splitlines_join:
  "list_all one_line ls \<Longrightarrow> splitlines (concat (map (\<lambda>l. l @ [ch 10]) ls)) = ls"
  unfolding splitlines_def
proof (induction ls)
  case (Cons l ls)
  then show ?case using split_from_break [of l "[]"] by simp
qed simp

lemma strip_last: "strip w = w \<Longrightarrow> w \<noteq> [] \<Longrightarrow> \<not> py_space (last w)"
proof -
  assume w: "strip w = w" "w \<noteq> []"
  then have "dropWhile py_space (rev (dropWhile py_space w)) \<noteq> []"
    unfolding strip_def by (metis rev.simps(1))
  then have "\<not> py_space (hd (dropWhile py_space (rev (dropWhile py_space w))))" by (rule hd_dropWhile)
  with w(1) show ?thesis by (metis last_rev strip_def)
qed

lemma strip_hd:
  assumes w: "strip w = w" and ne: "w \<noteq> []"
  shows "\<not> py_space (hd w)"
proof
  assume sp: "py_space (hd w)"
  have "length (strip w) \<le> length (dropWhile py_space w)"
    unfolding strip_def length_rev by (metis length_dropWhile_le length_rev)
  also have "\<dots> < length w"
    using sp ne length_dropWhile_le [of py_space "tl w"] by (cases w) auto
  finally show False using w by simp
qed

lemma strip_newline: "strip w = w \<Longrightarrow> w \<noteq> [] \<Longrightarrow> strip (w @ [ch 10]) = w"
proof -
  assume w: "strip w = w" "w \<noteq> []"
  have "py_space (ch 10)" by (simp add: py_space_def ch_def)
  moreover have "dropWhile py_space (w @ [ch 10]) = w @ [ch 10]"
    using strip_hd [OF w] w(2) by (simp add: dropWhile_hd)
  moreover have "dropWhile py_space (rev w) = rev w"
    using strip_last [OF w] w(2) by (simp add: dropWhile_hd hd_rev)
  ultimately show ?thesis by (simp add: strip_def)
qed

section \<open>Rounding\<close>

text \<open>\<open>round(x)\<close>: to the nearest integer, ties to even; and \<open>round(x, 2)\<close> of an exact quotient.\<close>

definition py_round :: "'a::floor_ceiling \<Rightarrow> int" where
  "py_round x =
     (let f = \<lfloor>x\<rfloor>; d = x - of_int f in
      if d < 1 / 2 then f
      else if d > 1 / 2 then f + 1
      else if even f then f else f + 1)"

definition round2 :: "rat \<Rightarrow> rat" where
  "round2 x = of_int (py_round (x * 100)) / 100"

lemma py_round_int [simp]: "py_round (of_int n :: 'a::floor_ceiling) = n"
  by (simp add: py_round_def)

lemma py_round_range: "\<lfloor>x\<rfloor> \<le> py_round x \<and> py_round x \<le> \<lfloor>x\<rfloor> + 1"
  by (simp add: py_round_def Let_def)

lemma py_round_mono:
  assumes "x \<le> y"
  shows "py_round x \<le> py_round y"
proof (cases "\<lfloor>x\<rfloor> = \<lfloor>y\<rfloor>")
  case True
  then show ?thesis using assms by (auto simp: py_round_def Let_def)
next
  case False
  then have "\<lfloor>x\<rfloor> + 1 \<le> \<lfloor>y\<rfloor>" using floor_mono [OF assms] by simp
  then show ?thesis using py_round_range [of x] py_round_range [of y] by simp
qed

lemma py_round_le: "x \<le> of_int n \<Longrightarrow> py_round x \<le> n"
  using py_round_mono [of x "of_int n"] by simp

lemma round2_mono: "x \<le> y \<Longrightarrow> round2 x \<le> round2 y"
  using py_round_mono [of "x * 100" "y * 100"] by (simp add: round2_def divide_right_mono)

lemma round2_unit: "0 \<le> x \<Longrightarrow> x \<le> 1 \<Longrightarrow> 0 \<le> round2 x \<and> round2 x \<le> 1"
proof -
  assume x: "0 \<le> x" "x \<le> 1"
  have "py_round (0 :: rat) = 0" "py_round (100 :: rat) = 100"
    using py_round_int [of 0] py_round_int [of 100] by simp_all
  then have "round2 0 = 0" "round2 1 = 1" by (simp_all add: round2_def)
  with x show ?thesis using round2_mono [of 0 x] round2_mono [of x 1] by simp
qed

end
