(* ===== verification/Plant.thy ===== *)
theory Plant
  imports TextLines
begin

text \<open>
  The plant target of the benchmark (\<open>src/ironbench/plant.py\<close>): a first-order plant in a
  closed loop with a foreign controller, the step-response metrics and the run log. A float of
  the physics is the real number it denotes (\<open>math.exp\<close>, \<open>math.log\<close> and the circular functions
  are those of the reals, rounding is not modelled). SHA-256 is a parameter. The controller is a
  step function over a state of its own, so that any sequence of answers is covered.
\<close>

section \<open>Deterministic noise\<close>

record noise =
  nz_seed :: int
  nz_k :: nat
  nz_carry :: "real option"

definition noise_init :: "int \<Rightarrow> noise" where
  "noise_init seed = \<lparr>nz_seed = seed, nz_k = 0, nz_carry = None\<rparr>"

definition show_int :: "int \<Rightarrow> string" where
  "show_int i = (if i < 0 then CHR ''-'' # show_nat (nat (- i)) else show_nat (nat i))"

definition big_endian :: "bytes \<Rightarrow> nat" where
  "big_endian bs = foldl (\<lambda>n b. 256 * n + unat b) 0 bs"

definition uniform :: "(string \<Rightarrow> bytes) \<Rightarrow> noise \<Rightarrow> real \<times> noise" where
  "uniform sha256 nz =
     (let digest = sha256 (show_int (nz_seed nz) @ '':'' @ show_nat (nz_k nz)) in
      (real (big_endian (take 8 digest)) / 2 ^ 64, nz\<lparr>nz_k := nz_k nz + 1\<rparr>))"

definition gauss :: "(string \<Rightarrow> bytes) \<Rightarrow> real \<Rightarrow> noise \<Rightarrow> real \<times> noise" where
  "gauss sha256 std nz =
     (if std \<le> 0 then (0, nz)
      else case nz_carry nz of
        Some v \<Rightarrow> (std * v, nz\<lparr>nz_carry := None\<rparr>)
      | None \<Rightarrow>
          (case uniform sha256 nz of (w, nz1) \<Rightarrow>
           case uniform sha256 nz1 of (u2, nz2) \<Rightarrow>
             let u1 = max w (1 / 10 ^ 18);
                 r = sqrt (- 2 * ln u1) in
             (std * r * cos (2 * pi * u2), nz2\<lparr>nz_carry := Some (r * sin (2 * pi * u2))\<rparr>)))"

section \<open>Plant parameters\<close>

definition PLANT_MODELS :: "string list" where
  "PLANT_MODELS = [''heater'', ''rc'', ''motor'']"

definition MAX_LOG_ROWS :: nat where "MAX_LOG_ROWS = 150"
definition MAX_STDOUT_LINES :: nat where "MAX_STDOUT_LINES = 30"
definition DEFAULT_SETTLE_SPAN_FRACTION :: real where "DEFAULT_SETTLE_SPAN_FRACTION = 2 / 100"

type_synonym requirements = "string \<rightharpoonup> real"

record plant_spec =
  ps_model :: string
  ps_K :: real
  ps_T :: real
  ps_ambient :: real
  ps_y0 :: real
  ps_dt :: real
  ps_duration :: real
  ps_u_min :: real
  ps_u_max :: real
  ps_noise_std :: real
  ps_seed :: int
  ps_setpoint :: real
  ps_requirements :: requirements
  ps_disturbances :: "(real \<times> real) list"

definition plant_step :: "plant_spec \<Rightarrow> real \<Rightarrow> real \<Rightarrow> real \<Rightarrow> real \<Rightarrow> real" where
  "plant_step sp y u ambient dt =
     (let target = ambient + ps_K sp * u in
      target + (y - target) * exp (- dt / ps_T sp))"

section \<open>The controller and the loop\<close>

text \<open>What one call of the controller does: a Python value comes back, an exception leaves it, or
  the adapter raises \<open>ControlAbort\<close>.\<close>

datatype raw_value = RFloat real | RInt int | RNonFinite pfloat | RBool bool | ROther pyval

datatype answer = Returns raw_value | Crashes pyval | Aborts pyval string

type_synonym 'c controller = "'c \<Rightarrow> real \<Rightarrow> real \<Rightarrow> real \<Rightarrow> 'c \<times> answer"

datatype raw_check = IsNumber real | NotNumber | TooLarge

text \<open>\<open>isinstance(raw, bool) or not isinstance(raw, (int, float)) or not math.isfinite(raw)\<close>;
  \<open>math.isfinite\<close> raises \<open>OverflowError\<close> on an integer beyond the range of a double.\<close>

fun check_raw :: "raw_value \<Rightarrow> raw_check" where
  "check_raw (RFloat x) = IsNumber x"
| "check_raw (RInt i) =
     (if \<bar>i\<bar> \<ge> 2 ^ 1024 - 2 ^ 970 then TooLarge else IsNumber (of_int i))"
| "check_raw (RNonFinite _) = NotNumber"
| "check_raw (RBool _) = NotNumber"
| "check_raw (ROther _) = NotNumber"

datatype loop_error = ControllerCrashed real pyval | ControllerNonNumber raw_value real

datatype loop_end = Finished | Failed loop_error | Aborted pyval string | Escaped exn

type_synonym row = "real \<times> real \<times> real \<times> real"

definition row_t :: "row \<Rightarrow> real" where "row_t r = fst r"
definition row_y :: "row \<Rightarrow> real" where "row_y r = fst (snd (snd r))"
definition row_u :: "row \<Rightarrow> real" where "row_u r = snd (snd (snd r))"

definition loop_count :: "plant_spec \<Rightarrow> nat" where
  "loop_count sp = nat (max 1 (py_round (ps_duration sp / ps_dt sp)))"

text \<open>\<open>sorted\<close> on pairs: by the first component, ties by the second.\<close>

definition sorted_events :: "(real \<times> real) list \<Rightarrow> (real \<times> real) list" where
  "sorted_events es = sort_key fst (sort_key snd es)"

fun due_events :: "real \<Rightarrow> real \<Rightarrow> (real \<times> real) list \<Rightarrow> real \<times> (real \<times> real) list" where
  "due_events t ambient [] = (ambient, [])"
| "due_events t ambient ((ev, amb) # es) =
     (if t \<ge> ev - 1 / 10 ^ 9 then due_events t amb es else (ambient, (ev, amb) # es))"

definition clamp :: "plant_spec \<Rightarrow> real \<Rightarrow> real" where
  "clamp sp v = min (max v (ps_u_min sp)) (ps_u_max sp)"

record 'c loop_state =
  ls_y :: real
  ls_noise :: noise
  ls_ambient :: real
  ls_events :: "(real \<times> real) list"
  ls_ctl :: 'c

text \<open>One pass of the \<open>for k in range(n)\<close> body: the row it appends, or how it leaves the loop.\<close>

definition loop_body ::
  "(string \<Rightarrow> bytes) \<Rightarrow> 'c controller \<Rightarrow> plant_spec \<Rightarrow> nat \<Rightarrow> 'c loop_state
   \<Rightarrow> 'c loop_state \<times> (loop_end + row)" where
  "loop_body sha256 control sp k s =
     (let t = real k * ps_dt sp in
      case due_events t (ls_ambient s) (ls_events s) of (ambient, events) \<Rightarrow>
      case gauss sha256 (ps_noise_std sp) (ls_noise s) of (g, nz) \<Rightarrow>
      case control (ls_ctl s) t (ls_y s + g) (ps_setpoint sp) of (c, a) \<Rightarrow>
        let s' = s\<lparr>ls_noise := nz, ls_ambient := ambient, ls_events := events, ls_ctl := c\<rparr> in
        (case a of
          Aborts m kind \<Rightarrow> (s', Inl (Aborted m kind))
        | Crashes tb \<Rightarrow> (s', Inl (Failed (ControllerCrashed t tb)))
        | Returns raw \<Rightarrow>
            (case check_raw raw of
              NotNumber \<Rightarrow> (s', Inl (Failed (ControllerNonNumber raw t)))
            | TooLarge \<Rightarrow> (s', Inl (Escaped (Exn OtherErr (PStr ''OverflowError''))))
            | IsNumber v \<Rightarrow>
                let u = clamp sp v in
                (s'\<lparr>ls_y := plant_step sp (ls_y s) u ambient (ps_dt sp)\<rparr>,
                 Inr (t, ps_setpoint sp, ls_y s, u)))))"

fun loop_from ::
  "(string \<Rightarrow> bytes) \<Rightarrow> 'c controller \<Rightarrow> plant_spec \<Rightarrow> nat \<Rightarrow> nat \<Rightarrow> 'c loop_state \<Rightarrow> row list
   \<Rightarrow> 'c loop_state \<times> row list \<times> loop_end" where
  "loop_from sha256 control sp 0 k s rows = (s, rows, Finished)"
| "loop_from sha256 control sp (Suc n) k s rows =
     (case loop_body sha256 control sp k s of
       (s', Inl e) \<Rightarrow> (s', rows, e)
     | (s', Inr r) \<Rightarrow> loop_from sha256 control sp n (Suc k) s' (rows @ [r]))"

definition loop_start :: "plant_spec \<Rightarrow> 'c \<Rightarrow> 'c loop_state" where
  "loop_start sp c =
     \<lparr>ls_y = ps_y0 sp, ls_noise = noise_init (ps_seed sp), ls_ambient = ps_ambient sp,
      ls_events = sorted_events (ps_disturbances sp), ls_ctl = c\<rparr>"

definition run_loop ::
  "(string \<Rightarrow> bytes) \<Rightarrow> 'c controller \<Rightarrow> plant_spec \<Rightarrow> 'c \<Rightarrow> 'c loop_state \<times> row list \<times> loop_end" where
  "run_loop sha256 control sp c = loop_from sha256 control sp (loop_count sp) 0 (loop_start sp c) []"

text \<open>What the caller sees: rows with an optional error, or an exception, which loses the rows.\<close>

datatype loop_result = LoopRows "row list" "loop_error option" | LoopAbort pyval string | LoopRaise exn

definition run_closed_loop ::
  "(string \<Rightarrow> bytes) \<Rightarrow> 'c controller \<Rightarrow> plant_spec \<Rightarrow> 'c \<Rightarrow> 'c \<times> loop_result" where
  "run_closed_loop sha256 control sp c =
     (case run_loop sha256 control sp c of (s, rows, e) \<Rightarrow>
       (ls_ctl s,
        case e of
          Finished \<Rightarrow> LoopRows rows None
        | Failed err \<Rightarrow> LoopRows rows (Some err)
        | Aborted m kind \<Rightarrow> LoopAbort m kind
        | Escaped x \<Rightarrow> LoopRaise x))"

section \<open>Metrics and requirements\<close>

record metrics =
  m_overshoot_pct :: real
  m_steady_error :: real
  m_settle_time :: "real option"
  m_final_y :: real

text \<open>The \<open>while j >= 0\<close> loop walks back from the end over samples inside the band; the
  argument is \<open>j + 1\<close>. A settling time of \<open>None\<close> is the float \<open>inf\<close>.\<close>

fun settle_index :: "(real \<Rightarrow> bool) \<Rightarrow> real list \<Rightarrow> nat \<Rightarrow> nat" where
  "settle_index in_band ys 0 = 0"
| "settle_index in_band ys (Suc j) =
     (if in_band (ys ! j) then settle_index in_band ys j else Suc j)"

definition settle_band :: "plant_spec \<Rightarrow> real" where
  "settle_band sp =
     (case ps_requirements sp ''steady_error'' of
       Some b \<Rightarrow> b
     | None \<Rightarrow> DEFAULT_SETTLE_SPAN_FRACTION * \<bar>ps_setpoint sp - ps_y0 sp\<bar>)"

definition compute_metrics :: "row list \<Rightarrow> plant_spec \<Rightarrow> metrics option" where
  "compute_metrics rows sp =
     (if rows = [] then None
      else
        let ys = map row_y rows;
            span = \<bar>ps_setpoint sp - ps_y0 sp\<bar>;
            overshoot =
              (if span > 1 / 10 ^ 12 then
                 let dev = (if ps_setpoint sp \<ge> ps_y0 sp then Max (set ys) - ps_setpoint sp
                            else ps_setpoint sp - Min (set ys)) in
                 max 0 (dev / span * 100)
               else 0);
            tail = drop (length ys - max 1 (length ys div 10)) ys;
            steady = \<bar>sum_list tail / real (length tail) - ps_setpoint sp\<bar>;
            j1 = settle_index (\<lambda>y. \<bar>y - ps_setpoint sp\<bar> \<le> settle_band sp) ys (length ys);
            settle = (if j1 < length ys then Some (row_t (rows ! j1)) else None) in
        Some \<lparr>m_overshoot_pct = overshoot, m_steady_error = steady, m_settle_time = settle,
              m_final_y = last ys\<rparr>)"

datatype missed =
    MissedOvershoot real real
  | MissedSteady real real
  | MissedNever "real option"
  | MissedSettle real real

definition check_requirements :: "metrics \<Rightarrow> requirements \<Rightarrow> missed list" where
  "check_requirements m req =
     (case req ''overshoot'' of
        Some a \<Rightarrow> if m_overshoot_pct m > a + 1 / 10 ^ 9 then [MissedOvershoot (m_overshoot_pct m) a] else []
      | None \<Rightarrow> []) @
     (case req ''steady_error'' of
        Some a \<Rightarrow> if m_steady_error m > a + 1 / 10 ^ 9 then [MissedSteady (m_steady_error m) a] else []
      | None \<Rightarrow> []) @
     (case req ''settle_time'' of
        Some a \<Rightarrow>
          (case m_settle_time m of
            None \<Rightarrow> [MissedNever (req ''steady_error'')]
          | Some st \<Rightarrow> if st > a + 1 / 10 ^ 9 then [MissedSettle st a] else [])
      | None \<Rightarrow> [])"

section \<open>The run log\<close>

text \<open>A line of the log is kept as its kind and the values it prints.\<close>

datatype log_line =
    LPlant string real real real real real real
  | LStdoutHead | LStdout string
  | LRowsHead | LRow row
  | LSummary
  | LMetrics real real "real option" real
  | LNotMet missed
  | LError pyval

definition every_nth :: "nat \<Rightarrow> 'a list \<Rightarrow> 'a list" where
  "every_nth stride xs = map (\<lambda>i. xs ! (i * stride)) [0 ..< (length xs + stride - 1) div stride]"

definition log_rows :: "row list \<Rightarrow> row list" where
  "log_rows rows = every_nth (max 1 (length rows div MAX_LOG_ROWS)) rows"

definition last_n :: "nat \<Rightarrow> 'a list \<Rightarrow> 'a list" where
  "last_n n xs = drop (length xs - n) xs"

definition render_log ::
  "plant_spec \<Rightarrow> row list \<Rightarrow> metrics option \<Rightarrow> missed list \<Rightarrow> pyval option \<Rightarrow> string \<Rightarrow> log_line list" where
  "render_log sp rows m missed error controller_stdout =
     [LPlant (ps_model sp) (ps_setpoint sp) (ps_u_min sp) (ps_u_max sp) (ps_dt sp)
        (ps_duration sp) (ps_noise_std sp)] @
     (let tail = last_n MAX_STDOUT_LINES (splitlines (strip controller_stdout)) in
      if tail = [] then [] else LStdoutHead # map LStdout tail) @
     (if rows = [] then [] else LRowsHead # map LRow (log_rows rows)) @
     [LSummary] @
     (case m of
        Some x \<Rightarrow> [LMetrics (m_overshoot_pct x) (m_steady_error x) (m_settle_time x) (m_final_y x)]
      | None \<Rightarrow> []) @
     map LNotMet missed @
     (case error of Some e \<Rightarrow> [LError e] | None \<Rightarrow> [])"

section \<open>The loop\<close>

lemma loop_body_cases:
  assumes "loop_body sha256 control sp k s = (s', Inr r)"
  obtains v where
    "r = (real k * ps_dt sp, ps_setpoint sp, ls_y s, clamp sp v)"
    "ls_y s' = plant_step sp (ls_y s) (clamp sp v)
       (fst (due_events (real k * ps_dt sp) (ls_ambient s) (ls_events s))) (ps_dt sp)"
    "(ls_ambient s', ls_events s') = due_events (real k * ps_dt sp) (ls_ambient s) (ls_events s)"
  using assms
  by (auto simp: loop_body_def Let_def split: prod.splits answer.splits raw_check.splits)

text \<open>Rule for a property of the loop: an invariant of the state and the rows so far.\<close>

lemma loop_from_rule:
  assumes "loop_from sha256 control sp n k s rows = (s', rows', e)"
    and "P k s rows"
    and "\<And>k s rows s' r. P k s rows \<Longrightarrow> loop_body sha256 control sp k s = (s', Inr r)
           \<Longrightarrow> P (Suc k) s' (rows @ [r])"
  shows "\<exists>k' s''. P k' s'' rows' \<and> k' \<le> k + n \<and> (e = Finished \<longrightarrow> k' = k + n)"
  using assms(1,2)
proof (induction n arbitrary: k s rows)
  case 0
  then show ?case by (auto intro!: exI [of _ k])
next
  case (Suc n)
  obtain s1 q where body: "loop_body sha256 control sp k s = (s1, q)" by (cases "loop_body sha256 control sp k s")
  show ?case
  proof (cases q)
    case (Inl x)
    moreover have "x \<noteq> Finished"
      using body Inl by (auto simp: loop_body_def Let_def split: prod.splits answer.splits raw_check.splits)
    ultimately show ?thesis using Suc.prems body by (intro exI [of _ k] exI [of _ s]) auto
  next
    case (Inr r)
    have "P (Suc k) s1 (rows @ [r])" by (rule assms(3) [OF Suc.prems(2)]) (simp add: body Inr)
    then show ?thesis using Suc.IH [of "Suc k" s1 "rows @ [r]"] Suc.prems(1) body Inr by simp
  qed
qed

lemma due_events_step:
  "t \<le> t' \<Longrightarrow> due_events t a es = (a', es') \<Longrightarrow> due_events t' a' es' = due_events t' a es"
  by (induction t a es rule: due_events.induct) (auto split: if_splits)

definition ambient_at :: "plant_spec \<Rightarrow> real \<Rightarrow> real" where
  "ambient_at sp t = fst (due_events t (ps_ambient sp) (sorted_events (ps_disturbances sp)))"

lemma due_events_value:
  "sorted (map fst es) \<Longrightarrow>
   fst (due_events t a es) =
     (let due = filter (\<lambda>e. fst e - 1 / 10 ^ 9 \<le> t) es in if due = [] then a else snd (last due))"
proof (induction t a es rule: due_events.induct)
  case (2 t a ev amb es)
  show ?case
  proof (cases "t \<ge> ev - 1 / 10 ^ 9")
    case True
    with 2 show ?thesis by (simp add: Let_def)
  next
    case False
    with 2(2) have "filter (\<lambda>e. fst e - 1 / 10 ^ 9 \<le> t) es = []"
      by (force simp: filter_empty_conv)
    with False show ?thesis by simp
  qed
qed simp

lemma sorted_events_sorted: "sorted (map fst (sorted_events es))"
  by (simp add: sorted_events_def)

lemma clamp_bounds: "ps_u_min sp \<le> ps_u_max sp \<Longrightarrow> ps_u_min sp \<le> clamp sp v \<and> clamp sp v \<le> ps_u_max sp"
  by (simp add: clamp_def)

text \<open>A finished prefix of the run: its times and inputs, and each sample the plant's response to
  the row before it.\<close>

definition traced :: "plant_spec \<Rightarrow> nat \<Rightarrow> 'c loop_state \<Rightarrow> row list \<Rightarrow> bool" where
  "traced sp k s rows =
     (length rows = k \<and>
      (\<forall>t \<ge> real k * ps_dt sp - ps_dt sp.
         due_events t (ls_ambient s) (ls_events s)
           = due_events t (ps_ambient sp) (sorted_events (ps_disturbances sp))) \<and>
      (\<forall>i < k. \<exists>v. rows ! i = (real i * ps_dt sp, ps_setpoint sp, row_y (rows ! i), clamp sp v)) \<and>
      (let y = (\<lambda>i. if i < k then row_y (rows ! i) else ls_y s) in
         y 0 = ps_y0 sp \<and>
         (\<forall>i < k. y (Suc i) = plant_step sp (y i) (row_u (rows ! i))
                               (ambient_at sp (real i * ps_dt sp)) (ps_dt sp))))"

lemma traced_start: "traced sp 0 (loop_start sp c) []"
  by (simp add: traced_def loop_start_def)

lemma traced_step:
  assumes tr: "traced sp k s rows" and dt: "0 \<le> ps_dt sp"
    and body: "loop_body sha256 control sp k s = (s', Inr r)"
  shows "traced sp (Suc k) s' (rows @ [r])"
proof -
  let ?t = "real k * ps_dt sp"
  obtain v where r: "r = (?t, ps_setpoint sp, ls_y s, clamp sp v)"
    and y: "ls_y s' = plant_step sp (ls_y s) (clamp sp v)
              (fst (due_events ?t (ls_ambient s) (ls_events s))) (ps_dt sp)"
    and ev: "(ls_ambient s', ls_events s') = due_events ?t (ls_ambient s) (ls_events s)"
    using body by (rule loop_body_cases)
  have same: "due_events ?t (ls_ambient s) (ls_events s)
      = due_events ?t (ps_ambient sp) (sorted_events (ps_disturbances sp))"
    using tr dt by (simp add: traced_def)
  have later: "due_events t (ls_ambient s') (ls_events s')
      = due_events t (ps_ambient sp) (sorted_events (ps_disturbances sp))" if "?t \<le> t" for t
    using due_events_step [OF that ev [symmetric]] tr dt that by (auto simp: traced_def)
  have len: "length rows = k" using tr by (simp add: traced_def)
  have old: "(rows @ [r]) ! i = rows ! i" if "i < k" for i using that len by (simp add: nth_append)
  have new: "(rows @ [r]) ! k = r" using len by (simp add: nth_append)
  define y0 where "y0 = (\<lambda>i. if i < k then row_y (rows ! i) else ls_y s)"
  define y1 where "y1 = (\<lambda>i. if i < Suc k then row_y ((rows @ [r]) ! i) else ls_y s')"
  have agree: "y1 i = y0 i" if "i \<le> k" for i
    using that old new r by (cases "i = k") (simp_all add: row_y_def y0_def y1_def)
  have phys: "y0 0 = ps_y0 sp" "\<forall>i < k. y0 (Suc i) = plant_step sp (y0 i) (row_u (rows ! i))
      (ambient_at sp (real i * ps_dt sp)) (ps_dt sp)"
    using tr unfolding traced_def Let_def y0_def by blast+
  have "y1 (Suc i) = plant_step sp (y1 i) (row_u ((rows @ [r]) ! i))
      (ambient_at sp (real i * ps_dt sp)) (ps_dt sp)" if "i < Suc k" for i
  proof (cases "i = k")
    case True
    then show ?thesis using agree [of k] y r new same
      by (simp add: ambient_at_def row_u_def) (simp add: y0_def y1_def)
  next
    case False
    with that have i: "i < k" "Suc i \<le> k" "i \<le> k" by simp_all
    then show ?thesis using phys(2) agree [OF i(2)] agree [OF i(3)] old [OF i(1)] by simp
  qed
  moreover have "y1 0 = ps_y0 sp" using agree [of 0] phys(1) by simp
  moreover have "\<exists>v. (rows @ [r]) ! i =
      (real i * ps_dt sp, ps_setpoint sp, row_y ((rows @ [r]) ! i), clamp sp v)" if "i < Suc k" for i
  proof (cases "i = k")
    case True
    then show ?thesis using r new by (auto simp: row_y_def)
  next
    case False
    with that have i: "i < k" by simp
    with tr show ?thesis unfolding traced_def old [OF i] by blast
  qed
  moreover have "real (Suc k) * ps_dt sp - ps_dt sp = ?t" by (simp add: algebra_simps)
  ultimately show ?thesis
    unfolding traced_def Let_def y1_def using len later by simp
qed

lemma run_traced:
  fixes c :: 'c
  assumes "run_closed_loop sha256 control sp c = (c', LoopRows rows err)" and "0 \<le> ps_dt sp"
  shows "\<exists>s :: 'c loop_state. traced sp (length rows) s rows \<and> length rows \<le> loop_count sp \<and>
             (err = None \<longrightarrow> length rows = loop_count sp)"
proof -
  obtain s' e where run: "loop_from sha256 control sp (loop_count sp) 0 (loop_start sp c) [] = (s', rows, e)"
    and e: "err = None \<longrightarrow> e = Finished"
    using assms(1)
    by (auto simp: run_closed_loop_def run_loop_def split: prod.splits loop_end.splits)
  have "\<exists>k (s :: 'c loop_state). traced sp k s rows \<and> k \<le> 0 + loop_count sp \<and> (e = Finished \<longrightarrow> k = 0 + loop_count sp)"
    by (rule loop_from_rule [OF run, of "traced sp"]) (rule traced_start, rule traced_step, auto simp: assms(2))
  then obtain k and s :: "'c loop_state" where
    "traced sp k s rows" "k \<le> loop_count sp" "e = Finished \<longrightarrow> k = loop_count sp"
    by auto
  moreover from this have "k = length rows" by (simp add: traced_def)
  ultimately show ?thesis using e by (intro exI [of _ s]) simp
qed

text \<open>
  C17. The rows of a run follow the plant: there is one row per step, \<open>loop_count\<close> of them when
  no error ends the run; row \<open>i\<close> carries the time \<open>i * dt\<close>, the setpoint and an input inside the
  actuator range; the first sample is \<open>y0\<close> and each further one is the exact response of the plant to the
  input and the ambient temperature of the row before it.
\<close>

theorem plant_trajectory:
  fixes c :: 'c
  assumes "run_closed_loop sha256 control sp c = (c', LoopRows rows err)"
    and "0 \<le> ps_dt sp" and "ps_u_min sp \<le> ps_u_max sp"
  shows "length rows \<le> loop_count sp \<and> (err = None \<longrightarrow> length rows = loop_count sp) \<and>
    (\<forall>i < length rows.
       (\<exists>u. rows ! i = (real i * ps_dt sp, ps_setpoint sp, row_y (rows ! i), u) \<and>
            ps_u_min sp \<le> u \<and> u \<le> ps_u_max sp) \<and>
       row_y (rows ! i) =
         (if i = 0 then ps_y0 sp
          else plant_step sp (row_y (rows ! (i - 1))) (row_u (rows ! (i - 1)))
                 (ambient_at sp (real (i - 1) * ps_dt sp)) (ps_dt sp)))"
proof -
  obtain s :: "'c loop_state" where tr: "traced sp (length rows) s rows"
    and len: "length rows \<le> loop_count sp" "err = None \<longrightarrow> length rows = loop_count sp"
    using run_traced [OF assms(1,2)] by blast
  have "row_y (rows ! i) =
         (if i = 0 then ps_y0 sp
          else plant_step sp (row_y (rows ! (i - 1))) (row_u (rows ! (i - 1)))
                 (ambient_at sp (real (i - 1) * ps_dt sp)) (ps_dt sp))" if "i < length rows" for i
  proof (cases i)
    case (Suc j)
    have "\<forall>i < length rows. (if Suc i < length rows then row_y (rows ! Suc i) else ls_y s) =
        plant_step sp (row_y (rows ! i)) (row_u (rows ! i)) (ambient_at sp (real i * ps_dt sp)) (ps_dt sp)"
      using tr by (simp add: traced_def Let_def)
    with that Suc show ?thesis by (metis Suc_lessD diff_Suc_1 nat.distinct(1))
  next
    case 0
    with tr that show ?thesis by (auto simp: traced_def Let_def)
  qed
  moreover have "\<exists>u. rows ! i = (real i * ps_dt sp, ps_setpoint sp, row_y (rows ! i), u) \<and>
      ps_u_min sp \<le> u \<and> u \<le> ps_u_max sp" if "i < length rows" for i
    using tr that clamp_bounds [OF assms(3)] unfolding traced_def by metis
  ultimately show ?thesis using len by blast
qed

text \<open>A plant with a reachable setpoint, driven by a constant input.\<close>

definition demo_plant :: plant_spec where
  "demo_plant =
     \<lparr>ps_model = ''heater'', ps_K = 10, ps_T = 4, ps_ambient = 0, ps_y0 = 0, ps_dt = 1, ps_duration = 2,
      ps_u_min = 0, ps_u_max = 1, ps_noise_std = 0, ps_seed = 7, ps_setpoint = 5,
      ps_requirements = [''steady_error'' \<mapsto> 1], ps_disturbances = [(1, 2)]\<rparr>"

definition constant_input :: "real \<Rightarrow> unit controller" where
  "constant_input u = (\<lambda>c t y r. (c, Returns (RFloat u)))"

lemma demo_plant_sel:
  "ps_K demo_plant = 10" "ps_T demo_plant = 4" "ps_dt demo_plant = 1" "ps_u_min demo_plant = 0"
  "ps_u_max demo_plant = 1" "ps_y0 demo_plant = 0" "ps_ambient demo_plant = 0"
  "ps_disturbances demo_plant = [(1, 2)]" "ps_setpoint demo_plant = 5"
  "ps_requirements demo_plant = [''steady_error'' \<mapsto> 1]"
  by (simp_all add: demo_plant_def)

lemma demo_plant_run:
  "run_closed_loop (\<lambda>_. []) (constant_input 3) demo_plant () =
     ((), LoopRows [(0, 5, 0, 1), (1, 5, plant_step demo_plant 0 1 0 1, 1)] None)"
  by (simp add: run_closed_loop_def run_loop_def loop_count_def demo_plant_def py_round_def Let_def
      loop_start_def sorted_events_def noise_init_def loop_body_def constant_input_def gauss_def
      clamp_def plant_step_def numeral_2_eq_2)

lemma plant_trajectory_witness:
  "row_y ([(0, 5, 0, 1), (1, 5, plant_step demo_plant 0 1 0 1, 1)] ! 1) =
     plant_step demo_plant 0 1 (ambient_at demo_plant 0) 1 \<and> ambient_at demo_plant 1 = 2"
proof -
  have "ambient_at demo_plant 1 = 2"
    by (simp add: ambient_at_def demo_plant_def sorted_events_def)
  moreover have "0 \<le> ps_dt demo_plant" "ps_u_min demo_plant \<le> ps_u_max demo_plant"
    by (simp_all add: demo_plant_def)
  note plant_trajectory [OF demo_plant_run this]
  ultimately show ?thesis
    by (auto simp: row_y_def row_u_def demo_plant_def dest!: spec [of _ 1])
qed

section \<open>Physics\<close>

lemma plant_step_between:
  assumes "0 < ps_T sp" and "0 \<le> dt"
  shows "min y (a + ps_K sp * u) \<le> plant_step sp y u a dt"
    and "plant_step sp y u a dt \<le> max y (a + ps_K sp * u)"
proof -
  let ?g = "a + ps_K sp * u" and ?e = "exp (- dt / ps_T sp)"
  have e: "0 < ?e" "?e \<le> 1" using assms by (simp_all add: field_simps)
  have eq: "plant_step sp y u a dt = (1 - ?e) * ?g + ?e * y"
    by (simp add: plant_step_def Let_def algebra_simps)
  have "(1 - ?e) * min y ?g + ?e * min y ?g \<le> (1 - ?e) * ?g + ?e * y"
    by (intro add_mono mult_left_mono) (use e in auto)
  then show "min y ?g \<le> plant_step sp y u a dt" by (simp add: eq algebra_simps)
  have "(1 - ?e) * ?g + ?e * y \<le> (1 - ?e) * max y ?g + ?e * max y ?g"
    by (intro add_mono mult_left_mono) (use e in auto)
  then show "plant_step sp y u a dt \<le> max y ?g" by (simp add: eq algebra_simps)
qed

text \<open>
  The discretisation is exact: as a function of the step size one step solves the plant's
  differential equation \<open>dy/dt = (K*u - (y - ambient)) / T\<close> from the state \<open>y\<close>, so two
  steps with the same input are one step of their total length.
\<close>

theorem plant_step_exact:
  assumes "ps_T sp \<noteq> 0"
  shows "plant_step sp y u a 0 = y \<and>
    ((\<lambda>x. plant_step sp y u a x) has_real_derivative
       (ps_K sp * u - (plant_step sp y u a dt - a)) / ps_T sp) (at dt) \<and>
    plant_step sp (plant_step sp y u a d1) u a d2 = plant_step sp y u a (d1 + d2)"
proof (intro conjI)
  show "plant_step sp y u a 0 = y" by (simp add: plant_step_def)
  show "((\<lambda>x. plant_step sp y u a x) has_real_derivative
       (ps_K sp * u - (plant_step sp y u a dt - a)) / ps_T sp) (at dt)"
    unfolding plant_step_def Let_def
    by (rule derivative_eq_intros refl | use assms in \<open>simp add: field_simps\<close>)+
  have "- (d1 + d2) / ps_T sp = - d1 / ps_T sp + - d2 / ps_T sp"
    by (simp add: diff_divide_distrib)
  then have "exp (- (d1 + d2) / ps_T sp) = exp (- d1 / ps_T sp) * exp (- d2 / ps_T sp)"
    by (simp only: exp_add)
  then show "plant_step sp (plant_step sp y u a d1) u a d2 = plant_step sp y u a (d1 + d2)"
    by (simp add: plant_step_def Let_def)
qed

lemma plant_step_exact_witness:
  "plant_step demo_plant (plant_step demo_plant 0 1 0 1) 1 0 2 = plant_step demo_plant 0 1 0 3"
  using plant_step_exact [of demo_plant 0 1 0 0 1 2] by (simp add: demo_plant_def)

lemma due_events_in: "fst (due_events t a es) \<in> insert a (snd ` set es)"
  by (induction t a es rule: due_events.induct) auto

lemma ambient_at_in: "ambient_at sp t \<in> insert (ps_ambient sp) (snd ` set (ps_disturbances sp))"
  using due_events_in [of t "ps_ambient sp" "sorted_events (ps_disturbances sp)"]
  by (simp add: ambient_at_def sorted_events_def)

text \<open>
  The plant never leaves its reachable range: whatever the controller answers, if the
  initial value and every equilibrium of an allowed input under an ambient value of the task lie in an interval,
  every sample of the run lies in it.
\<close>

theorem plant_range:
  assumes run: "run_closed_loop sha256 control sp c = (c', LoopRows rows err)"
    and dt: "0 \<le> ps_dt sp" and T: "0 < ps_T sp" and range: "ps_u_min sp \<le> ps_u_max sp"
    and y0: "lo \<le> ps_y0 sp" "ps_y0 sp \<le> hi"
    and eq: "\<forall>u a. ps_u_min sp \<le> u \<and> u \<le> ps_u_max sp \<and>
               a \<in> insert (ps_ambient sp) (snd ` set (ps_disturbances sp))
               \<longrightarrow> lo \<le> a + ps_K sp * u \<and> a + ps_K sp * u \<le> hi"
  shows "\<forall>r \<in> set rows. lo \<le> row_y r \<and> row_y r \<le> hi"
proof -
  obtain s :: "'a loop_state" where tr: "traced sp (length rows) s rows"
    using run_traced [OF run dt] by blast
  define y where "y = (\<lambda>i. if i < length rows then row_y (rows ! i) else ls_y s)"
  have "lo \<le> y i \<and> y i \<le> hi" if "i \<le> length rows" for i
    using that
  proof (induction i)
    case 0
    with tr y0 show ?case by (auto simp: traced_def Let_def y_def)
  next
    case (Suc i)
    then have i: "i < length rows" by simp
    let ?u = "row_u (rows ! i)" and ?a = "ambient_at sp (real i * ps_dt sp)"
    obtain v where v: "?u = clamp sp v"
      using tr i by (auto simp: traced_def row_u_def) (metis snd_conv)
    have "lo \<le> ?a + ps_K sp * ?u \<and> ?a + ps_K sp * ?u \<le> hi"
      using eq ambient_at_in [of sp "real i * ps_dt sp"] clamp_bounds [OF range, of v] by (simp add: v)
    moreover have "y (Suc i) = plant_step sp (y i) ?u ?a (ps_dt sp)"
      using tr i by (simp add: traced_def Let_def y_def)
    ultimately show ?case
      using plant_step_between [OF T dt, where y = "y i" and a = ?a and u = ?u] Suc
      by (simp add: min_le_iff_disj le_max_iff_disj) linarith
  qed
  then have "\<forall>i < length rows. lo \<le> row_y (rows ! i) \<and> row_y (rows ! i) \<le> hi"
    by (auto simp: y_def) (metis less_or_eq_imp_le)+
  then show ?thesis by (metis in_set_conv_nth)
qed

lemma plant_range_witness:
  "\<forall>r \<in> set [(0, 5, 0, 1), (1, 5, plant_step demo_plant 0 1 0 1, 1)]. 0 \<le> row_y r \<and> row_y r \<le> 12"
proof (rule plant_range [OF demo_plant_run])
  show "\<forall>u a. ps_u_min demo_plant \<le> u \<and> u \<le> ps_u_max demo_plant \<and>
      a \<in> insert (ps_ambient demo_plant) (snd ` set (ps_disturbances demo_plant))
      \<longrightarrow> 0 \<le> a + ps_K demo_plant * u \<and> a + ps_K demo_plant * u \<le> 12"
    by (auto simp: demo_plant_sel)
qed (simp_all add: demo_plant_sel)

section \<open>Scoring\<close>

lemma settle_index_spec:
  "settle_index P ys n \<le> n \<and>
   (\<forall>i. settle_index P ys n \<le> i \<and> i < n \<longrightarrow> P (ys ! i)) \<and>
   (settle_index P ys n = 0 \<or> \<not> P (ys ! (settle_index P ys n - 1)))"
proof (induction n)
  case (Suc n)
  then show ?case by (auto simp: less_Suc_eq)
qed simp

definition in_band :: "plant_spec \<Rightarrow> row \<Rightarrow> bool" where
  "in_band sp r = (\<bar>row_y r - ps_setpoint sp\<bar> \<le> settle_band sp)"

text \<open>
  The settling time is exact: it is the time of a row from which on every row stays in the band
  and before which there is none or one outside, and it is infinite exactly when the last row is outside.
\<close>

theorem settle_time_exact:
  assumes m: "compute_metrics rows sp = Some m"
  shows "(\<exists>k < length rows.
            m_settle_time m = Some (row_t (rows ! k)) \<and>
            (\<forall>i. k \<le> i \<and> i < length rows \<longrightarrow> in_band sp (rows ! i)) \<and>
            (k = 0 \<or> \<not> in_band sp (rows ! (k - 1))))
         \<or> m_settle_time m = None \<and> \<not> in_band sp (last rows)"
proof -
  let ?P = "\<lambda>y. \<bar>y - ps_setpoint sp\<bar> \<le> settle_band sp"
  define k where "k = settle_index ?P (map row_y rows) (length rows)"
  have ne: "rows \<noteq> []" and st: "m_settle_time m = (if k < length rows then Some (row_t (rows ! k)) else None)"
    using m by (auto simp: compute_metrics_def Let_def k_def split: if_splits)
  have spec: "k \<le> length rows" "\<forall>i. k \<le> i \<and> i < length rows \<longrightarrow> ?P (map row_y rows ! i)"
    "k = 0 \<or> \<not> ?P (map row_y rows ! (k - 1))"
    using settle_index_spec [of ?P "map row_y rows" "length rows"] by (simp_all add: k_def)
  have tail: "\<forall>i. k \<le> i \<and> i < length rows \<longrightarrow> in_band sp (rows ! i)"
    using spec(2) by (simp add: in_band_def)
  have before: "k = 0 \<or> \<not> in_band sp (rows ! (k - 1))"
    using spec(1,3) by (cases k) (simp_all add: in_band_def)
  show ?thesis
  proof (cases "k < length rows")
    case True
    with st tail before show ?thesis by auto
  next
    case False
    with spec(1) ne have "k = length rows" "k \<noteq> 0" by simp_all
    with before ne show ?thesis by (simp add: st last_conv_nth)
  qed
qed

definition demo_rows :: "row list" where
  "demo_rows = [(0, 5, 0, 1), (1, 5, 9 / 2, 1), (2, 5, 11 / 2, 0)]"

definition demo_metrics :: metrics where
  "demo_metrics =
     \<lparr>m_overshoot_pct = 10, m_steady_error = 1 / 2, m_settle_time = Some 1, m_final_y = 11 / 2\<rparr>"

lemma demo_compute_metrics: "compute_metrics demo_rows demo_plant = Some demo_metrics"
proof -
  have ys: "map row_y demo_rows = [0, 9 / 2, 11 / 2]" by (simp add: demo_rows_def row_y_def)
  have band: "settle_band demo_plant = 1" by (simp add: settle_band_def demo_plant_sel)
  have "Max {0, 9 / 2, 11 / 2 :: real} = 11 / 2" by simp
  then show ?thesis
    by (simp add: compute_metrics_def ys band demo_plant_sel Let_def)
      (simp add: demo_metrics_def demo_rows_def row_t_def)
qed

lemma settle_time_exact_witness:
  "m_settle_time demo_metrics = Some (row_t (demo_rows ! 1)) \<and> in_band demo_plant (last demo_rows)"
  using settle_time_exact [OF demo_compute_metrics]
  by (auto simp: demo_metrics_def demo_rows_def row_t_def in_band_def row_y_def settle_band_def
      demo_plant_sel)

text \<open>
  A run meets its requirements exactly when each stated tolerance is respected: nothing is
  reported missed iff overshoot, steady error and settling time, where required, are within
  their tolerance, a settling time that was never reached not being within any.
\<close>

theorem requirements_met_iff:
  "check_requirements m req = [] \<longleftrightarrow>
     (case req ''overshoot'' of None \<Rightarrow> True | Some a \<Rightarrow> m_overshoot_pct m \<le> a + 1 / 10 ^ 9) \<and>
     (case req ''steady_error'' of None \<Rightarrow> True | Some a \<Rightarrow> m_steady_error m \<le> a + 1 / 10 ^ 9) \<and>
     (case req ''settle_time'' of None \<Rightarrow> True
      | Some a \<Rightarrow> (case m_settle_time m of None \<Rightarrow> False | Some st \<Rightarrow> st \<le> a + 1 / 10 ^ 9))"
  by (auto simp: check_requirements_def not_le split: option.splits)

section \<open>Noise\<close>

lemma big_endian_bound: "big_endian bs < 256 ^ length bs"
proof (induction bs rule: rev_induct)
  case (snoc b bs)
  have "256 * big_endian bs + unat b < 256 * (big_endian bs + 1)" using unat_byte_less [of b] by simp
  also have "\<dots> \<le> 256 * 256 ^ length bs" using snoc by simp
  finally show ?case by (simp add: big_endian_def)
qed (simp add: big_endian_def)

lemma uniform_range:
  assumes "uniform sha256 nz = (x, nz')"
  shows "0 \<le> x \<and> x < 1"
proof -
  let ?n = "big_endian (take 8 (sha256 (show_int (nz_seed nz) @ '':'' @ show_nat (nz_k nz))))"
  have "?n < 256 ^ 8"
    by (rule less_le_trans [OF big_endian_bound]) (rule power_increasing, auto)
  also have "(256 :: nat) ^ 8 = 2 ^ 64" by simp
  finally have "real ?n < 2 ^ 64" by (metis of_nat_less_iff of_nat_numeral of_nat_power)
  then show ?thesis using assms by (auto simp: uniform_def Let_def)
qed

text \<open>The radius of the largest sample, given by the floor of the logarithm's argument.\<close>

definition noise_bound :: real where "noise_bound = sqrt (36 * ln 10)"

definition noise_ok :: "noise \<Rightarrow> bool" where
  "noise_ok nz = (case nz_carry nz of None \<Rightarrow> True | Some v \<Rightarrow> \<bar>v\<bar> \<le> noise_bound)"

lemma radius_bound:
  assumes "uniform sha256 nz = (x, nz')"
  shows "0 \<le> sqrt (- 2 * ln (max x (1 / 10 ^ 18)))"
    and "sqrt (- 2 * ln (max x (1 / 10 ^ 18))) \<le> noise_bound"
proof -
  let ?u = "max x (1 / 10 ^ 18 :: real)"
  have u: "0 < ?u" "?u \<le> 1" using uniform_range [OF assms] by auto
  then have "ln ?u \<le> 0" by simp
  then show "0 \<le> sqrt (- 2 * ln ?u)" by simp
  have "ln (1 / 10 ^ 18 :: real) \<le> ln ?u" by (subst ln_le_cancel_iff) (use u in auto)
  moreover have "ln (1 / 10 ^ 18 :: real) = - 18 * ln 10"
    using ln_realpow [of "10 :: real" 18] by (simp add: ln_div)
  ultimately have "- 2 * ln ?u \<le> 36 * ln 10" by linarith
  then show "sqrt (- 2 * ln ?u) \<le> noise_bound"
    unfolding noise_bound_def by (rule real_sqrt_le_mono)
qed

lemma scaled_unit: "0 \<le> r \<Longrightarrow> r \<le> b \<Longrightarrow> \<bar>c\<bar> \<le> 1 \<Longrightarrow> \<bar>r * c\<bar> \<le> (b :: real)"
  by (metis abs_ge_zero abs_mult abs_of_nonneg dual_order.trans mult_left_le)

text \<open>
  Measurement noise is bounded: a sample deviates from zero by at most the standard
  deviation times \<open>sqrt(36 ln 10)\<close>, about 9.1, whatever the hash function, and the carried second value
  of a pair keeps the bound.
\<close>

theorem gauss_bounded:
  assumes "gauss sha256 std nz = (g, nz')" and "noise_ok nz" and "0 \<le> std"
  shows "\<bar>g\<bar> \<le> std * noise_bound \<and> noise_ok nz' \<and> noise_ok (noise_init seed)"
proof -
  have start: "noise_ok (noise_init seed)" by (simp add: noise_ok_def noise_init_def)
  have nb: "0 \<le> noise_bound" by (simp add: noise_bound_def)
  have scale: "\<bar>v\<bar> \<le> noise_bound \<Longrightarrow> \<bar>std * v\<bar> \<le> std * noise_bound" for v
    using assms(3) by (simp add: abs_mult mult_left_mono)
  consider (off) "std \<le> 0" | (carry) v where "0 < std" "nz_carry nz = Some v" | (fresh) "0 < std" "nz_carry nz = None"
    by fastforce
  then show ?thesis
  proof cases
    case off
    with assms start nb show ?thesis by (auto simp: gauss_def)
  next
    case carry
    with assms start show ?thesis by (auto simp: gauss_def noise_ok_def scale)
  next
    case fresh
    obtain x nz1 where u1: "uniform sha256 nz = (x, nz1)" by (cases "uniform sha256 nz")
    obtain u2 nz2 where u2: "uniform sha256 nz1 = (u2, nz2)" by (cases "uniform sha256 nz1")
    define r where "r = sqrt (- 2 * ln (max x (1 / 10 ^ 18)))"
    have r: "0 \<le> r" "r \<le> noise_bound" using radius_bound [OF u1] by (simp_all add: r_def)
    have g: "g = std * (r * cos (2 * pi * u2))" and n: "nz_carry nz' = Some (r * sin (2 * pi * u2))"
      using assms(1) fresh u1 u2 by (auto simp: gauss_def Let_def r_def)
    have "\<bar>r * cos (2 * pi * u2)\<bar> \<le> noise_bound" "\<bar>r * sin (2 * pi * u2)\<bar> \<le> noise_bound"
      using r by (simp_all add: scaled_unit)
    with start n show ?thesis by (simp add: g scale noise_ok_def)
  qed
qed

lemma gauss_bounded_witness:
  "\<bar>fst (gauss (\<lambda>_. []) 2 (noise_init 7))\<bar> \<le> 2 * noise_bound"
  using gauss_bounded [of "\<lambda>_. []" 2 "noise_init 7" "fst (gauss (\<lambda>_. []) 2 (noise_init 7))"
      "snd (gauss (\<lambda>_. []) 2 (noise_init 7))" 7]
  by (simp add: noise_ok_def noise_init_def)

section \<open>The log\<close>

lemma every_nth_length: "length (every_nth k xs) = (length xs + k - 1) div k"
  by (simp add: every_nth_def)

text \<open>
  The run log is bounded: fewer than twice \<open>MAX_LOG_ROWS\<close> rows are printed whatever the length
  of the run; but the constant is not the maximum, runs of 151 to 299 rows are printed in full.
\<close>

theorem log_rows_bound:
  "length (log_rows rows) < 2 * MAX_LOG_ROWS \<and>
   (length rows < 2 * MAX_LOG_ROWS \<longrightarrow> length (log_rows rows) = length rows)"
proof -
  let ?n = "length rows" and ?k = "length rows div 150"
  have len: "length (log_rows rows) = (?n + max 1 ?k - 1) div max 1 ?k"
    by (simp add: log_rows_def every_nth_length MAX_LOG_ROWS_def)
  show ?thesis
  proof (cases "?n < 300")
    case True
    then have "max 1 ?k = 1" by (simp add: max_def) linarith
    with True show ?thesis by (simp add: len MAX_LOG_ROWS_def)
  next
    case False
    then have k: "2 \<le> ?k" by simp
    then have one: "max 1 ?k = ?k" by simp
    have "?n < 150 * ?k + 150" using mult_div_mod_eq [of 150 ?n] mod_less_divisor [of 150 ?n] by linarith
    then have "?n + ?k - 1 < 300 * ?k" using k by linarith
    then have "(?n + ?k - 1) div ?k < 300" by (rule less_mult_imp_div_less)
    with False show ?thesis by (simp only: len one MAX_LOG_ROWS_def) simp
  qed
qed

lemma log_rows_bound_witness: "\<exists>rows. length rows = 299 \<and> length (log_rows rows) = 299"
proof -
  obtain rows :: "row list" where rows: "length rows = 299" using Ex_list_of_length by blast
  then have "length rows < 2 * MAX_LOG_ROWS" by (simp add: MAX_LOG_ROWS_def)
  with rows log_rows_bound [of rows] show ?thesis by auto
qed

end
