(* ===== verification/StdinPump.thy ===== *)
theory StdinPump
  imports Prelude "HOL-Library.Sublist"
begin

text \<open>
  The asynchronous stdin pump of the task runners (\<open>_StdinWriter\<close> in
  \<open>src/ironbench/runner_common.py\<close>): a writer thread that enqueues under a lock and sets an
  event, and a pump thread that delivers. The threads are a step relation whose steps are the lock
  regions, the event operations and the blocking write, interleaved in any order.
\<close>

section \<open>State\<close>

definition MAX_PENDING_BYTES :: nat where "MAX_PENDING_BYTES = 1048576"

text \<open>Where the pump thread stands: before \<open>wake.wait()\<close>, before the pop, in the blocking write,
  before the closing lock region, or returned.\<close>

datatype pump_pc = AtWait | AtPop | AtWrite bytes | AtCheck | Ended

text \<open>\<open>sp_delivered\<close>, the data the child received, and \<open>sp_accepted\<close>, the data enqueued, are
  ghost state. \<open>sp_setters\<close> counts client calls that left the lock and are about to set the event.\<close>

record stdin_pump =
  sp_queue :: "bytes list"
  sp_pending :: nat
  sp_overflow :: bool
  sp_broken :: bool
  sp_closing :: bool
  sp_wake :: bool
  sp_setters :: nat
  sp_pc :: pump_pc
  sp_delivered :: "bytes list"
  sp_accepted :: "bytes list"

definition pump_init :: stdin_pump where
  "pump_init =
     \<lparr>sp_queue = [], sp_pending = 0, sp_overflow = False, sp_broken = False, sp_closing = False,
      sp_wake = False, sp_setters = 0, sp_pc = AtWait, sp_delivered = [], sp_accepted = []\<rparr>"

section \<open>Operations\<close>

text \<open>The lock region of \<open>write\<close>, which goes on to set the event unless it returned early.\<close>

definition sw_write :: "bytes \<Rightarrow> stdin_pump \<Rightarrow> stdin_pump" where
  "sw_write data s =
     (if sp_broken s \<or> sp_overflow s then s
      else if sp_pending s + length data > MAX_PENDING_BYTES then s\<lparr>sp_overflow := True\<rparr>
      else s\<lparr>sp_queue := sp_queue s @ [data], sp_pending := sp_pending s + length data,
             sp_accepted := sp_accepted s @ [data], sp_setters := Suc (sp_setters s)\<rparr>)"

definition sw_close :: "stdin_pump \<Rightarrow> stdin_pump" where
  "sw_close s = s\<lparr>sp_closing := True, sp_setters := Suc (sp_setters s)\<rparr>"

definition sw_set_wake :: "stdin_pump \<Rightarrow> stdin_pump" where
  "sw_set_wake s = s\<lparr>sp_wake := True, sp_setters := sp_setters s - 1\<rparr>"

definition pump_pop :: "stdin_pump \<Rightarrow> stdin_pump" where
  "pump_pop s =
     (case sp_queue s of
        [] \<Rightarrow> s\<lparr>sp_pc := AtCheck\<rparr>
      | d # q \<Rightarrow> s\<lparr>sp_queue := q, sp_pending := sp_pending s - length d, sp_pc := AtWrite d\<rparr>)"

definition pump_delivered :: "bytes \<Rightarrow> stdin_pump \<Rightarrow> stdin_pump" where
  "pump_delivered d s = s\<lparr>sp_delivered := sp_delivered s @ [d], sp_pc := AtPop\<rparr>"

definition pump_failed :: "stdin_pump \<Rightarrow> stdin_pump" where
  "pump_failed s = s\<lparr>sp_broken := True, sp_queue := [], sp_pending := 0, sp_pc := Ended\<rparr>"

definition pump_check :: "stdin_pump \<Rightarrow> stdin_pump" where
  "pump_check s =
     (if sp_queue s \<noteq> [] then s\<lparr>sp_pc := AtWait\<rparr>
      else if sp_closing s then s\<lparr>sp_pc := Ended\<rparr>
      else s\<lparr>sp_wake := False, sp_pc := AtWait\<rparr>)"

section \<open>Steps\<close>

inductive pump_step :: "stdin_pump \<Rightarrow> stdin_pump \<Rightarrow> bool" where
  wake: "sp_pc s = AtWait \<Longrightarrow> sp_wake s \<Longrightarrow> pump_step s (s\<lparr>sp_pc := AtPop\<rparr>)"
| pop: "sp_pc s = AtPop \<Longrightarrow> pump_step s (pump_pop s)"
| deliver: "sp_pc s = AtWrite d \<Longrightarrow> pump_step s (pump_delivered d s)"
| fail: "sp_pc s = AtWrite d \<Longrightarrow> pump_step s (pump_failed s)"
| check: "sp_pc s = AtCheck \<Longrightarrow> pump_step s (pump_check s)"

inductive client_step :: "stdin_pump \<Rightarrow> stdin_pump \<Rightarrow> bool" where
  enqueue: "client_step s (sw_write data s)"
| closing: "client_step s (sw_close s)"
| set_event: "sp_setters s > 0 \<Longrightarrow> client_step s (sw_set_wake s)"

inductive pump_reach :: "stdin_pump \<Rightarrow> bool" where
  init: "pump_reach pump_init"
| pump: "pump_reach s \<Longrightarrow> pump_step s t \<Longrightarrow> pump_reach t"
| client: "pump_reach s \<Longrightarrow> client_step s t \<Longrightarrow> pump_reach t"

inductive_cases pump_stepE: "pump_step s t"
inductive_cases client_stepE: "client_step s t"

section \<open>Invariant\<close>

fun in_flight :: "pump_pc \<Rightarrow> bytes list" where
  "in_flight (AtWrite d) = [d]"
| "in_flight _ = []"

definition pump_ok :: "stdin_pump \<Rightarrow> bool" where
  "pump_ok s =
     (sp_pending s = sum_list (map length (sp_queue s)) \<and>
      sp_pending s \<le> MAX_PENDING_BYTES \<and>
      (if sp_broken s then prefix (sp_delivered s) (sp_accepted s)
       else sp_accepted s = sp_delivered s @ in_flight (sp_pc s) @ sp_queue s) \<and>
      (sp_broken s \<longrightarrow> sp_pc s = Ended \<and> sp_queue s = []) \<and>
      (sp_pc s = Ended \<longrightarrow> sp_broken s \<or> sp_closing s) \<and>
      (sp_pc s = AtWait \<and> \<not> sp_wake s \<and> sp_setters s = 0 \<longrightarrow> sp_queue s = [] \<and> \<not> sp_closing s) \<and>
      (sp_pc s \<noteq> AtWait \<and> sp_pc s \<noteq> Ended \<longrightarrow> sp_wake s))"

lemmas pump_op_defs = sw_write_def sw_close_def sw_set_wake_def pump_pop_def pump_delivered_def
  pump_failed_def pump_check_def

lemma pump_ok_step: "pump_ok s \<Longrightarrow> pump_step s t \<Longrightarrow> pump_ok t"
  by (erule pump_stepE) (auto simp: pump_ok_def pump_op_defs split: list.splits if_splits)

lemma pump_ok_client: "pump_ok s \<Longrightarrow> client_step s t \<Longrightarrow> pump_ok t"
  by (erule client_stepE) (auto simp: pump_ok_def pump_op_defs split: if_splits)

lemma pump_reach_ok: "pump_reach s \<Longrightarrow> pump_ok s"
proof (induction rule: pump_reach.induct)
  case init
  show ?case by (simp add: pump_ok_def pump_init_def)
qed (auto intro: pump_ok_step pump_ok_client)

text \<open>
  However the client and the pump thread interleave, the backlog never exceeds 1 MiB, and
  the child gets exactly what was accepted, in order and without loss or duplication: what was delivered, the item
  in the blocking write and the backlog make up the accepted data, until the pipe breaks, and even then what was
  delivered is an initial part of it.
\<close>

theorem stdin_pump_fifo:
  assumes "pump_reach s"
  shows "sum_list (map length (sp_queue s)) \<le> MAX_PENDING_BYTES \<and>
    prefix (sp_delivered s) (sp_accepted s) \<and>
    (\<not> sp_broken s \<longrightarrow> sp_accepted s = sp_delivered s @ in_flight (sp_pc s) @ sp_queue s)"
  using pump_reach_ok [OF assms] by (auto simp: pump_ok_def split: if_splits)

definition demo_pump :: stdin_pump where
  "demo_pump = sw_set_wake (sw_write [1, 2] pump_init)"

lemma demo_pump_value:
  "demo_pump = pump_init\<lparr>sp_queue := [[1, 2]], sp_pending := 2, sp_accepted := [[1, 2]], sp_wake := True\<rparr>"
  by (simp add: demo_pump_def sw_set_wake_def sw_write_def pump_init_def MAX_PENDING_BYTES_def)

lemma demo_pump_reach: "pump_reach demo_pump"
proof -
  have "pump_reach (sw_write [1, 2] pump_init)" by (rule pump_reach.client [OF pump_reach.init]) (rule enqueue)
  moreover have "sp_setters (sw_write [1, 2] pump_init) > 0"
    by (simp add: sw_write_def pump_init_def MAX_PENDING_BYTES_def)
  ultimately show ?thesis unfolding demo_pump_def by (blast intro: pump_reach.client set_event)
qed

lemma stdin_pump_fifo_witness: "sp_accepted demo_pump = sp_delivered demo_pump @ [[1, 2]]"
  using stdin_pump_fifo [OF demo_pump_reach] by (simp add: demo_pump_value pump_init_def)

text \<open>
  C22. No wake-up is lost: in every reachable state in which the pump thread waits on its event
  although there is data to deliver or a close request, the event is set or a client call is about to
  set it.
\<close>

theorem stdin_pump_no_lost_wakeup:
  assumes "pump_reach s" and "sp_pc s = AtWait" and "sp_queue s \<noteq> [] \<or> sp_closing s"
  shows "sp_wake s \<or> sp_setters s > 0"
  using pump_reach_ok [OF assms(1)] assms(2,3) by (auto simp: pump_ok_def)

lemma stdin_pump_no_lost_wakeup_witness: "sp_wake demo_pump"
  using stdin_pump_no_lost_wakeup [OF demo_pump_reach] by (simp add: demo_pump_value pump_init_def)

section \<open>The pump alone\<close>

text \<open>The next step of the pump thread while every write succeeds; it stays where it would block.\<close>

definition pump_next :: "stdin_pump \<Rightarrow> stdin_pump" where
  "pump_next s =
     (case sp_pc s of
        AtWait \<Rightarrow> if sp_wake s then s\<lparr>sp_pc := AtPop\<rparr> else s
      | AtPop \<Rightarrow> pump_pop s
      | AtWrite d \<Rightarrow> pump_delivered d s
      | AtCheck \<Rightarrow> pump_check s
      | Ended \<Rightarrow> s)"

fun pump_measure :: "stdin_pump \<Rightarrow> nat" where
  "pump_measure s =
     (let q = length (sp_queue s) in
      case sp_pc s of
        AtWait \<Rightarrow> if sp_wake s then 2 * q + 3 else 0
      | AtPop \<Rightarrow> 2 * q + 2
      | AtWrite _ \<Rightarrow> 2 * q + 3
      | AtCheck \<Rightarrow> if q = 0 then 1 else 2 * q + 4
      | Ended \<Rightarrow> 0)"

declare pump_measure.simps [simp del]

lemma pump_next_step: "pump_next s = s \<or> pump_step s (pump_next s)"
  by (cases "sp_pc s") (auto simp: pump_next_def intro: pump_step.intros)

lemma pump_next_frame:
  "sp_accepted (pump_next s) = sp_accepted s \<and> sp_closing (pump_next s) = sp_closing s \<and>
   sp_setters (pump_next s) = sp_setters s \<and> sp_broken (pump_next s) = sp_broken s"
  by (auto simp: pump_next_def pump_op_defs split: pump_pc.split list.split)

lemma pump_next_measure:
  assumes "pump_ok s" and "pump_measure s > 0"
  shows "pump_measure (pump_next s) < pump_measure s"
  using assms
  by (auto simp: pump_measure.simps pump_next_def pump_op_defs pump_ok_def Let_def
      split: pump_pc.splits list.splits if_splits)

text \<open>A state from which the pump drains: nothing about to be signalled, and no data left behind.\<close>

definition draining :: "stdin_pump \<Rightarrow> bool" where
  "draining s = (pump_ok s \<and> \<not> sp_broken s \<and> sp_setters s = 0 \<and> (sp_pc s = Ended \<longrightarrow> sp_queue s = []))"

lemma draining_next: "draining s \<Longrightarrow> draining (pump_next s)"
  using pump_next_step [of s] pump_next_frame [of s] pump_ok_step [of s "pump_next s"]
  by (auto simp: draining_def) (auto simp: pump_next_def pump_op_defs split: pump_pc.splits list.splits if_splits)

lemma draining_rest:
  assumes "draining s" and "pump_measure s = 0"
  shows "sp_delivered s = sp_accepted s \<and> sp_queue s = [] \<and> (sp_closing s \<longrightarrow> sp_pc s = Ended)"
  using assms
  by (auto simp: draining_def pump_ok_def pump_measure.simps Let_def split: pump_pc.splits if_splits)

lemma draining_run:
  "draining s \<Longrightarrow> pump_measure s \<le> n \<Longrightarrow>
   draining ((pump_next ^^ n) s) \<and> pump_measure ((pump_next ^^ n) s) = 0 \<and>
   sp_accepted ((pump_next ^^ n) s) = sp_accepted s \<and> sp_closing ((pump_next ^^ n) s) = sp_closing s"
proof (induction n arbitrary: s)
  case (Suc n)
  have "pump_measure (pump_next s) \<le> n"
  proof (cases "pump_measure s = 0")
    case True
    then have "pump_next s = s"
      by (auto simp: pump_measure.simps pump_next_def Let_def split: pump_pc.splits if_splits)
    with True show ?thesis by simp
  next
    case False
    then show ?thesis using pump_next_measure [of s] Suc.prems by (simp add: draining_def)
  qed
  then show ?case
    using Suc.IH [of "pump_next s"] draining_next [OF Suc.prems(1)] pump_next_frame [of s]
    by (simp add: funpow_swap1)
qed simp

lemma pump_measure_bound: "pump_measure s \<le> 2 * length (sp_queue s) + 4"
  by (simp add: pump_measure.simps Let_def split: pump_pc.split)



end
