(* ===== verification/RunnerCommon.thy ===== *)
theory RunnerCommon
  imports TextLines "HOL-Library.Multiset"
begin

text \<open>
  The shared part of the task runners (\<open>src/ironbench/runner_common.py\<close> and the
  classification of \<open>runner.py\<close>): the result record, \<open>.env\<close> parsing, pattern scoring, ingestion
  stamps, delays and the run directories. \<open>re.search\<close> on the patterns of a task is a parameter;
  the fixed regular expressions of \<open>load_env_file\<close> and \<open>_plain_text\<close> are translated.
\<close>

section \<open>Results\<close>

definition ERROR_NONE :: string where "ERROR_NONE = ''none''"
definition ERROR_INFRA :: string where "ERROR_INFRA = ''infra''"
definition ERROR_TIMEOUT :: string where "ERROR_TIMEOUT = ''timeout''"
definition ERROR_RUN :: string where "ERROR_RUN = ''run''"

record task_result =
  tr_task :: string
  tr_passed :: bool
  tr_exit_code :: "int option"
  tr_duration :: rat
  tr_serial_log :: "string option"
  tr_missed :: "pyval list"
  tr_hit_fail :: "string list"
  tr_error :: "pyval option"
  tr_error_kind :: string

definition opt_val :: "('a \<Rightarrow> pyval) \<Rightarrow> 'a option \<Rightarrow> pyval" where
  "opt_val f x = (case x of None \<Rightarrow> PNone | Some v \<Rightarrow> f v)"

definition journal_result :: "task_result \<Rightarrow> event" where
  "journal_result r =
     (''task_result'',
      [(''task'', PStr (tr_task r)), (''passed'', PBool (tr_passed r)),
       (''exit_code'', opt_val PInt (tr_exit_code r)), (''duration_sec'', PNum (Fin (tr_duration r))),
       (''missed'', PList (tr_missed r)), (''hit_fail'', PList (map PStr (tr_hit_fail r))),
       (''error'', opt_val id (tr_error r)), (''error_kind'', PStr (tr_error_kind r))])"

definition INFRA_MARKS :: "string list" where
  "INFRA_MARKS =
     [''not implemented'', ''not supported'', ''not found'', ''failed to prepare task'',
      ''failed to connect'', ''not responding'', ''paste mode'', ''IRONBENCH_REAL_PORT is not set'']"

definition is_infra_result :: "task_result \<Rightarrow> bool" where
  "is_infra_result r = (tr_error_kind r = ERROR_INFRA)"

definition is_infra_text :: "string option \<Rightarrow> bool" where
  "is_infra_text err =
     (case err of None \<Rightarrow> False
      | Some e \<Rightarrow> if e = [] then False else list_ex (\<lambda>m. occurs m e) INFRA_MARKS)"

section \<open>Environment files\<close>

definition id_start :: "char \<Rightarrow> bool" where
  "id_start c = (let n = of_char c :: nat in 65 \<le> n \<and> n \<le> 90 \<or> 97 \<le> n \<and> n \<le> 122 \<or> n = 95)"

definition id_char :: "char \<Rightarrow> bool" where
  "id_char c = (id_start c \<or> is_digit c)"

definition is_ident :: "string \<Rightarrow> bool" where
  "is_ident k = (k \<noteq> [] \<and> id_start (hd k) \<and> list_all id_char k)"

text \<open>\<open>([A-Za-z_][A-Za-z0-9_]*)\s*=\s*(.*)$\<close>, with the value stripped.\<close>

definition match_assign :: "string \<Rightarrow> (string \<times> string) option" where
  "match_assign s =
     (if s \<noteq> [] \<and> id_start (hd s) then
        (case dropWhile py_space (dropWhile id_char s) of
           c # v \<Rightarrow> if c = CHR ''='' then Some (takeWhile id_char s, strip v) else None
         | [] \<Rightarrow> None)
      else None)"

definition match_ps :: "string \<Rightarrow> (string \<times> string) option" where
  "match_ps line = (if prefix ''$env:'' line then match_assign (drop 5 line) else None)"

definition match_export :: "string \<Rightarrow> (string \<times> string) option" where
  "match_export line =
     (if prefix ''export'' line \<and> drop 6 line \<noteq> [] \<and> py_space (hd (drop 6 line))
      then match_assign (dropWhile py_space (drop 6 line)) else None)"

definition unquote :: "string \<Rightarrow> string" where
  "unquote v =
     (if 2 \<le> length v \<and> hd v = last v \<and> hd v \<in> {ch 39, ch 34}
      then butlast (tl v) else v)"

definition env_line :: "string \<Rightarrow> (string \<times> string) option" where
  "env_line raw =
     (let line = strip raw in
      if line = [] \<or> hd line = CHR ''#'' then None
      else map_option (\<lambda>(k, v). (k, unquote v))
             (case match_ps line of Some m \<Rightarrow> Some m
              | None \<Rightarrow> (case match_export line of Some m \<Rightarrow> Some m | None \<Rightarrow> match_assign line)))"

text \<open>The text of the file, \<open>None\<close> when the path is no file. Later lines override earlier ones.\<close>

definition load_env_file :: "string option \<Rightarrow> (string \<rightharpoonup> string)" where
  "load_env_file file =
     (case file of None \<Rightarrow> Map.empty
      | Some txt \<Rightarrow> fold (\<lambda>l env. case env_line l of None \<Rightarrow> env | Some (k, v) \<Rightarrow> env(k \<mapsto> v))
                     (splitlines txt) Map.empty)"

definition resolve_token ::
  "string option \<Rightarrow> (string \<rightharpoonup> string) \<Rightarrow> string option \<Rightarrow> string option" where
  "resolve_token explicit environ env_file =
     (let given = (\<lambda>x. x \<noteq> None \<and> x \<noteq> Some []) in
      if given explicit then explicit
      else if given (environ ''WOKWI_CLI_TOKEN'') then environ ''WOKWI_CLI_TOKEN''
      else case env_file of
        Some txt \<Rightarrow> load_env_file (Some txt) ''WOKWI_CLI_TOKEN''
      | None \<Rightarrow> None)"

section \<open>Patterns and stamps\<close>

definition plain_text :: "string \<Rightarrow> string option" where
  "plain_text pattern =
     (if list_ex (\<lambda>c. c \<in> set ([ch 92] @ ''^$.|?*+()[]{}'')) pattern then None else Some pattern)"

definition check_patterns ::
  "(string \<Rightarrow> string \<Rightarrow> bool) \<Rightarrow> string \<Rightarrow> string list \<Rightarrow> string list \<Rightarrow> string list \<times> string list" where
  "check_patterns search serial_text expect fail =
     (filter (\<lambda>p. \<not> search p serial_text) expect, filter (\<lambda>p. search p serial_text) fail)"

fun stamp_at :: "nat \<Rightarrow> nat \<Rightarrow> ('t \<times> string) list \<Rightarrow> 't option" where
  "stamp_at pos seen [] = None"
| "stamp_at pos seen ((stamp, chunk) # cs) =
     (let seen' = seen + length chunk in if pos < seen' then Some stamp else stamp_at pos seen' cs)"

definition first_occurrence_stamp ::
  "string \<Rightarrow> (rat \<times> string) list \<Rightarrow> string \<Rightarrow> rat option \<Rightarrow> rat option" where
  "first_occurrence_stamp txt chunks needle since =
     (case find_at needle txt of None \<Rightarrow> None
      | Some pos \<Rightarrow>
          (case (stamp_at pos 0 chunks, since) of
            (Some hit, Some s) \<Rightarrow> if hit \<ge> s then Some hit else None
          | _ \<Rightarrow> None))"

text \<open>\<open>None\<close> is the \<open>ValueError\<close> of \<open>int()\<close> or \<open>float()\<close>.\<close>

definition parse_delay :: "string \<Rightarrow> pfloat option" where
  "parse_delay value =
     (let t = casefold (strip value) in
      if suffix ''ms'' t then map_option (\<lambda>i. Fin (of_int i / 1000)) (py_int (take (length t - 2) t))
      else if suffix ''s'' t then py_float (take (length t - 1) t)
      else py_float t)"

section \<open>Run directories\<close>

text \<open>Each draw is a fresh id with the outcome of \<open>mkdir\<close>.\<close>

datatype mkdir_outcome = Made | Exists | MkdirError exn

definition new_run_dir :: "(nat \<Rightarrow> string \<times> mkdir_outcome) \<Rightarrow> exn + string" where
  "new_run_dir draw =
     (let try = (\<lambda>i k. case draw i of
           (run_id, Made) \<Rightarrow> Inr run_id
         | (_, MkdirError e) \<Rightarrow> Inl e
         | (_, Exists) \<Rightarrow> k) in
      try 0 (try 1 (try 2 (Inl (Exn OSErr (PStr ''cannot create a unique run directory''))))))"

text \<open>A task directory is its name and its \<open>run-*\<close> directories with their mtimes. The result
  lists what is removed; \<open>sorted(..., reverse=True)\<close> keeps the order of equal keys.\<close>

type_synonym run_dir = "string \<times> rat"

definition newest_first :: "run_dir list \<Rightarrow> run_dir list" where
  "newest_first runs = sort_key (\<lambda>r. - snd r) runs"

definition stale_runs :: "nat \<Rightarrow> run_dir list \<Rightarrow> run_dir list" where
  "stale_runs keep runs = drop keep (newest_first runs)"

definition clean_runs :: "int \<Rightarrow> bool \<Rightarrow> run_dir list list \<Rightarrow> exn + run_dir list list" where
  "clean_runs keep marker task_dirs =
     (if keep < 0 then Inl (Exn ValueErr (PFStr [PStr ''keep must be >= 0, got '', PInt keep]))
      else if \<not> marker then Inl (Exn ValueErr (PStr ''no marker - not an ironbench out dir, refusing to clean''))
      else Inr (map (stale_runs (nat keep)) task_dirs))"

section \<open>Stamps are those of the chunk with the first occurrence\<close>

definition starts :: "('t \<times> string) list \<Rightarrow> nat \<Rightarrow> nat" where
  "starts chunks i = length (concat (map snd (take i chunks)))"

lemma starts_simps [simp]:
  "starts chunks 0 = 0" "starts ((t, c) # cs) (Suc i) = length c + starts cs i"
  by (simp_all add: starts_def)

lemma stamp_at_spec:
  "seen \<le> pos \<Longrightarrow> stamp_at pos seen chunks = Some st \<longleftrightarrow>
     (\<exists>i < length chunks. st = fst (chunks ! i) \<and>
        seen + starts chunks i \<le> pos \<and> pos < seen + starts chunks (Suc i))"
proof (induction pos seen chunks rule: stamp_at.induct)
  case (2 pos seen stamp chunk cs)
  show ?case
  proof (cases "pos < seen + length chunk")
    case True
    with 2(2) show ?thesis by (auto simp: Ex_less_Suc2)
  next
    case False
    with 2(1) [OF refl] show ?thesis by (auto simp: Ex_less_Suc2 add.assoc)
  qed
qed simp

lemma first_occurrence_hit:
  "first_occurrence_stamp txt chunks needle since = Some st \<longleftrightarrow>
     (\<exists>pos s i. find_at needle txt = Some pos \<and> since = Some s \<and> s \<le> st \<and>
        i < length chunks \<and> st = fst (chunks ! i) \<and>
        starts chunks i \<le> pos \<and> pos < starts chunks (Suc i))"
proof -
  have at: "stamp_at pos 0 chunks = Some st \<longleftrightarrow>
      (\<exists>i < length chunks. st = fst (chunks ! i) \<and> starts chunks i \<le> pos \<and> pos < starts chunks (Suc i))"
    for pos
    using stamp_at_spec [of 0 pos chunks st] by simp
  have "first_occurrence_stamp txt chunks needle since = Some st \<longleftrightarrow>
      (\<exists>pos s. find_at needle txt = Some pos \<and> since = Some s \<and> s \<le> st \<and> stamp_at pos 0 chunks = Some st)"
    by (auto simp: first_occurrence_stamp_def split: option.splits)
  then show ?thesis by (auto simp: at)
qed

lemma find_at_iff:
  "find_at n xs = Some i \<longleftrightarrow> prefix n (drop i xs) \<and> i \<le> length xs \<and> (\<forall>j<i. \<not> prefix n (drop j xs))"
  (is "_ \<longleftrightarrow> ?first i")
proof
  assume first: "?first i"
  then obtain k where k: "find_at n xs = Some k" using find_at_NoneD [of n xs i] by fastforce
  with find_at_SomeD [OF k] first have "k = i" by (meson linorder_neqE_nat)
  with k show "find_at n xs = Some i" by simp
qed (rule find_at_SomeD)

text \<open>
  An answer counts exactly when it was printed after the stimulus: the stamp returned is that
  of the chunk in which the first occurrence of the answer starts, and it is returned iff a stimulus was written
  and that chunk was not ingested before it.
\<close>

theorem first_occurrence_exact:
  "first_occurrence_stamp txt chunks needle since = Some st \<longleftrightarrow>
     (\<exists>pos s i. pos \<le> length txt \<and> prefix needle (drop pos txt) \<and> (\<forall>j < pos. \<not> prefix needle (drop j txt)) \<and>
        since = Some s \<and> s \<le> st \<and> i < length chunks \<and> st = fst (chunks ! i) \<and>
        starts chunks i \<le> pos \<and> pos < starts chunks (Suc i))"
  unfolding first_occurrence_hit find_at_iff by blast

section \<open>Environment files are read back\<close>

datatype env_style = Plain | Export | PowerShell

fun style_prefix :: "env_style \<Rightarrow> string" where
  "style_prefix Plain = []"
| "style_prefix Export = ''export ''"
| "style_prefix PowerShell = ''$env:''"

definition quoted :: "char option \<Rightarrow> string \<Rightarrow> string" where
  "quoted q v = (case q of None \<Rightarrow> v | Some c \<Rightarrow> c # v @ [c])"

type_synonym env_entry = "env_style \<times> string \<times> char option \<times> string"

fun entry_line :: "env_entry \<Rightarrow> string" where
  "entry_line (st, k, q, v) = style_prefix st @ k @ CHR ''='' # quoted q v"

fun entry_ok :: "env_entry \<Rightarrow> bool" where
  "entry_ok (st, k, q, v) =
     (is_ident k \<and> one_line v \<and>
      (case q of None \<Rightarrow> strip v = v \<and> unquote v = v | Some c \<Rightarrow> c \<in> {ch 39, ch 34}))"

lemma id_char_facts: "id_char c \<Longrightarrow> \<not> py_space c \<and> c \<noteq> CHR ''='' \<and> plain_char c"
  by (auto simp: id_char_def id_start_def is_digit_def py_space_def plain_char_def Let_def)

lemma id_start_facts: "id_start c \<Longrightarrow> id_char c \<and> c \<noteq> CHR ''$'' \<and> c \<noteq> CHR ''#'' \<and> c \<noteq> CHR '' ''"
  by (auto simp: id_char_def id_start_def Let_def)

lemma ident_split:
  assumes "is_ident k"
  shows "takeWhile id_char (k @ CHR ''='' # w) = k"
    and "dropWhile id_char (k @ CHR ''='' # w) = CHR ''='' # w"
proof -
  have "\<not> id_char (CHR ''='')" by (simp add: id_char_def id_start_def is_digit_def)
  then show "takeWhile id_char (k @ CHR ''='' # w) = k" "dropWhile id_char (k @ CHR ''='' # w) = CHR ''='' # w"
    using assms by (simp_all add: is_ident_def list_all_iff)
qed

lemma match_assign_entry:
  assumes "is_ident k"
  shows "match_assign (k @ CHR ''='' # w) = Some (k, strip w)"
proof -
  have "\<not> py_space (CHR ''='')" by (simp add: py_space_def)
  then show ?thesis
    using assms ident_split [OF assms] by (simp add: match_assign_def is_ident_def)
qed

lemma match_export_none:
  assumes "is_ident k"
  shows "match_export (k @ CHR ''='' # w) = None"
proof (cases "length k < 6")
  case True
  have "\<not> prefix ''export'' (k @ CHR ''='' # w)"
  proof
    assume "prefix ''export'' (k @ CHR ''='' # w)"
    then obtain r where r: "k @ CHR ''='' # w = ''export'' @ r" by (auto simp: prefix_def)
    then have "(''export'' @ r) ! length k = CHR ''=''" by (metis nth_append_length)
    then have "''export'' ! length k = CHR ''=''" using True
      by (simp only: nth_append) simp
    moreover have "\<forall>i < 6. ''export'' ! i \<noteq> CHR ''=''" by code_simp
    ultimately show False using True by blast
  qed
  then show ?thesis by (simp add: match_export_def)
next
  case False
  have eq: "\<not> py_space (CHR ''='')" by (simp add: py_space_def)
  have "\<not> py_space (hd (drop 6 k @ CHR ''='' # w))"
  proof (cases "drop 6 k")
    case Nil
    with eq show ?thesis by simp
  next
    case (Cons c cs)
    then have "c \<in> set k" by (metis in_set_dropD list.set_intros(1))
    with assms Cons show ?thesis using id_char_facts by (simp add: is_ident_def list_all_iff)
  qed
  with False show ?thesis by (simp add: match_export_def)
qed

lemma strip_quoted: "entry_ok (st, k, q, v) \<Longrightarrow> strip (quoted q v) = quoted q v"
proof (cases q)
  case (Some c)
  moreover assume "entry_ok (st, k, q, v)"
  ultimately have "\<not> py_space c" by (auto simp: py_space_def ch_def)
  with Some show ?thesis by (simp add: quoted_def strip_fixed)
qed (simp add: quoted_def)

lemma unquote_quoted: "entry_ok (st, k, q, v) \<Longrightarrow> unquote (quoted q v) = v"
  by (cases q) (auto simp: quoted_def unquote_def)

lemma entry_line_strip:
  assumes ok: "entry_ok (st, k, q, v)"
  shows "strip (entry_line (st, k, q, v)) = entry_line (st, k, q, v)"
proof -
  have k: "k \<noteq> []" "\<not> py_space (hd k)"
    using ok id_start_facts id_char_facts by (auto simp: is_ident_def)
  have "last (CHR ''='' # quoted q v) = (if quoted q v = [] then CHR ''='' else last (quoted q v))" by simp
  then have "\<not> py_space (last (CHR ''='' # quoted q v))"
    using strip_last [OF strip_quoted [OF ok]] by (simp add: py_space_def)
  then have "\<not> py_space (last (entry_line (st, k, q, v)))" by simp
  moreover have "\<not> py_space (hd (entry_line (st, k, q, v)))"
    using k by (cases st) (simp_all add: py_space_def)
  ultimately show ?thesis by (intro strip_fixed) simp
qed

lemma env_line_entry:
  assumes ok: "entry_ok (st, k, q, v)"
  shows "env_line (entry_line (st, k, q, v)) = Some (k, v)"
proof -
  let ?w = "CHR ''='' # quoted q v"
  have k: "is_ident k" "k \<noteq> []" "id_start (hd k)" using ok by (auto simp: is_ident_def)
  have as: "match_assign (k @ ?w) = Some (k, quoted q v)"
    using match_assign_entry [OF k(1)] strip_quoted [OF ok] by simp
  have hd: "hd k \<noteq> CHR ''$''" "hd k \<noteq> CHR ''#''" using id_start_facts [OF k(3)] by blast+
  have sp: "py_space (CHR '' '')" "\<not> py_space (hd (k @ ?w))"
    using k id_start_facts id_char_facts by (auto simp: py_space_def)
  then have drop: "dropWhile py_space (CHR '' '' # k @ ?w) = k @ ?w"
    by (simp add: dropWhile_hd)
  show ?thesis
  proof (cases st)
    case Plain
    have "match_ps (k @ ?w) = None" using hd k(2) by (cases k) (simp_all add: match_ps_def)
    then show ?thesis
      using Plain as hd k(2) match_export_none [OF k(1)] entry_line_strip [OF ok] unquote_quoted [OF ok]
      by (simp add: env_line_def)
  next
    case Export
    have "match_ps (''export '' @ k @ ?w) = None" by (simp add: match_ps_def)
    moreover have "match_export (''export '' @ k @ ?w) = Some (k, quoted q v)"
      using drop sp(1) as by (simp add: match_export_def)
    ultimately show ?thesis
      using Export entry_line_strip [OF ok] unquote_quoted [OF ok] by (simp add: env_line_def)
  next
    case PowerShell
    have "match_ps (''$env:'' @ k @ ?w) = Some (k, quoted q v)" using as by (simp add: match_ps_def)
    then show ?thesis
      using PowerShell entry_line_strip [OF ok] unquote_quoted [OF ok] by (simp add: env_line_def)
  qed
qed

lemma plain_chars: "plain_char (CHR ''='')" "plain_char (ch 39)" "plain_char (ch 34)"
  by code_simp+

lemma one_line_prefix: "one_line (style_prefix st)"
proof -
  have "one_line ''export ''" "one_line ''$env:''" by code_simp+
  then show ?thesis by (cases st) (simp_all add: one_line_def)
qed

lemma entry_line_one: "entry_ok e \<Longrightarrow> one_line (entry_line e)"
proof -
  assume ok: "entry_ok e"
  obtain st k q v where e: "e = (st, k, q, v)" by (cases e)
  have "one_line k" using ok id_char_facts by (auto simp: e one_line_def is_ident_def list_all_iff)
  moreover note one_line_prefix [of st]
  moreover have "one_line (CHR ''='' # quoted q v)"
    using ok plain_chars by (auto simp: e one_line_def quoted_def split: option.splits)
  ultimately show ?thesis by (simp add: e one_line_def)
qed

lemma load_fold:
  "list_all2 (\<lambda>l kv. env_line l = Some kv) ls kvs \<Longrightarrow>
   fold (\<lambda>l env. case env_line l of None \<Rightarrow> env | Some (k, v) \<Rightarrow> env(k \<mapsto> v)) ls m = m ++ map_of (rev kvs)"
  by (induction arbitrary: m rule: list_all2_induct) auto

text \<open>
  A written environment file is read back: for entries in any of the three styles (plain,
  \<open>export\<close>, PowerShell), with the value quoted or not, the parsed map holds for each key the value of its
  last entry and nothing else.
\<close>

theorem env_file_roundtrip:
  assumes "list_all entry_ok es"
  shows "load_env_file (Some (concat (map (\<lambda>e. entry_line e @ [ch 10]) es)))
     = map_of (rev (map (\<lambda>(st, k, q, v). (k, v)) es))"
proof -
  have "list_all one_line (map entry_line es)"
    using assms entry_line_one by (auto simp: list_all_iff)
  then have "splitlines (concat (map (\<lambda>e. entry_line e @ [ch 10]) es)) = map entry_line es"
    using splitlines_join [of "map entry_line es"] by (simp add: comp_def)
  moreover have "list_all2 (\<lambda>l kv. env_line l = Some kv) (map entry_line es) (map (\<lambda>(st, k, q, v). (k, v)) es)"
    using assms by (induction es) (auto simp: env_line_entry simp del: entry_line.simps entry_ok.simps)
  ultimately show ?thesis using load_fold [of "map entry_line es"] by (simp add: load_env_file_def)
qed

lemma env_file_roundtrip_witness:
  "load_env_file (Some (concat (map (\<lambda>e. entry_line e @ [ch 10])
      [(Export, ''A'', None, ''1''), (PowerShell, ''A'', Some (ch 39), ''2 3'')]))) ''A'' = Some ''2 3''"
proof -
  have "list_all entry_ok [(Export, ''A'', None, ''1''), (PowerShell, ''A'', Some (ch 39), ''2 3'')]"
    by code_simp
  from env_file_roundtrip [OF this] show ?thesis by simp
qed

section \<open>Cleaning\<close>

text \<open>
  Cleaning keeps the newest runs: per task exactly the runs beyond the first \<open>keep\<close> in age
  order go, so no removed run is newer than a kept one, kept and removed together are the runs
  there were, and a directory without the marker is refused.
\<close>

theorem clean_runs_keeps_newest:
  assumes "clean_runs keep marker task_dirs = Inr removed"
  shows "marker \<and> 0 \<le> keep \<and> length removed = length task_dirs \<and>
    (\<forall>i < length task_dirs.
       length (removed ! i) = length (task_dirs ! i) - nat keep \<and>
       (\<exists>kept. length kept = min (nat keep) (length (task_dirs ! i)) \<and>
          mset (kept @ removed ! i) = mset (task_dirs ! i) \<and>
          (\<forall>a \<in> set kept. \<forall>b \<in> set (removed ! i). snd b \<le> snd a)))"
proof -
  have r: "marker" "0 \<le> keep" "removed = map (stale_runs (nat keep)) task_dirs"
    using assms by (auto simp: clean_runs_def split: if_splits)
  have "\<exists>kept. length kept = min (nat keep) (length runs) \<and>
      mset (kept @ stale_runs (nat keep) runs) = mset runs \<and>
      (\<forall>a \<in> set kept. \<forall>b \<in> set (stale_runs (nat keep) runs). snd b \<le> snd a)" for runs
  proof (intro exI conjI)
    let ?kept = "take (nat keep) (newest_first runs)"
    show "length ?kept = min (nat keep) (length runs)" by (simp add: newest_first_def min.commute)
    have "?kept @ stale_runs (nat keep) runs = newest_first runs" by (simp add: stale_runs_def)
    then show "mset (?kept @ stale_runs (nat keep) runs) = mset runs" by (simp add: newest_first_def)
    have "sorted (map (\<lambda>r. - snd r) (newest_first runs))" by (simp add: newest_first_def)
    then have "sorted (map (\<lambda>r. - snd r) ?kept @ map (\<lambda>r. - snd r) (drop (nat keep) (newest_first runs)))"
      by (metis append_take_drop_id map_append)
    then show "\<forall>a \<in> set ?kept. \<forall>b \<in> set (stale_runs (nat keep) runs). snd b \<le> snd a"
      by (force simp: sorted_append stale_runs_def)
  qed
  moreover have "length (stale_runs (nat keep) runs) = length runs - nat keep" for runs
    by (simp add: stale_runs_def newest_first_def)
  ultimately show ?thesis using r by simp
qed

lemma clean_runs_keeps_newest_witness:
  "\<exists>removed. clean_runs 1 True [[(''run-a'', 1), (''run-b'', 2)]] = Inr removed \<and> length (removed ! 0) = 1"
proof -
  have "clean_runs 1 True [[(''run-a'', 1), (''run-b'', 2)]] = Inr [[(''run-a'', 1)]]"
    by (simp add: clean_runs_def stale_runs_def newest_first_def)
  with clean_runs_keeps_newest [OF this] show ?thesis by auto
qed

end
