(* ===== verification/TaskModel.thy ===== *)
theory TaskModel
  imports PyText
begin

text \<open>
  A benchmark task (\<open>Task\<close> in \<open>src/ironbench/tasks.py\<close>) as loaded from its description, and the
  constants of its format. A YAML mapping is a list of fields.
\<close>

definition TASK_TARGETS :: "string list" where
  "TASK_TARGETS = [''wokwi'', ''renode'', ''unix'', ''plant'', ''real'']"

definition STIMULUS_STEP_KEYS :: "string list" where
  "STIMULUS_STEP_KEYS =
     [''write-serial'', ''wait-serial'', ''delay'', ''set-control'', ''mqtt-publish'', ''mqtt-collect'']"

definition MQTT_STEP_KEYS :: "string list" where
  "MQTT_STEP_KEYS = [''mqtt-publish'', ''mqtt-collect'']"

record task =
  t_name :: string
  t_description :: string
  t_scenario :: "string option"
  t_entry :: string
  t_timeout_sec :: int
  t_expect :: "string list"
  t_fail :: "string list"
  t_stimulus :: "fields list"
  t_target :: string
  t_renode :: fields
  t_noise :: fields
  t_plant :: fields
  t_mqtt :: fields
  t_shim :: string
  t_events :: "fields list"
  t_tags :: "string list"
  t_level :: "int option"
  t_notes :: "string list"
  t_boot_expect :: "string list"
  t_device_modules :: "string list"
  t_api_hint :: string

text \<open>\<open>key in d\<close> and \<open>d.get(key)\<close> on a mapping.\<close>

definition has_key :: "string \<Rightarrow> fields \<Rightarrow> bool" where
  "has_key k d = (map_of d k \<noteq> None)"

definition get_or :: "fields \<Rightarrow> string \<Rightarrow> pyval \<Rightarrow> pyval" where
  "get_or d k v = (case map_of d k of Some x \<Rightarrow> x | None \<Rightarrow> v)"

text \<open>Truth of a value (\<open>bool(x)\<close>).\<close>

fun truthy :: "pyval \<Rightarrow> bool" where
  "truthy PNone = False"
| "truthy (PBool b) = b"
| "truthy (PInt i) = (i \<noteq> 0)"
| "truthy (PNum f) = (f \<noteq> Fin 0)"
| "truthy (PStr s) = (s \<noteq> [])"
| "truthy (PUtf8 b) = (b \<noteq> [])"
| "truthy (PList xs) = (xs \<noteq> [])"
| "truthy (PDict d) = (d \<noteq> [])"
| "truthy (PFStr _) = True"
| "truthy (PRepr _) = True"

definition py_or :: "pyval \<Rightarrow> pyval \<Rightarrow> pyval" where
  "py_or a b = (if truthy a then a else b)"

definition int_or_raise :: "string \<Rightarrow> exn + int" where
  "int_or_raise s =
     (case py_int s of Some i \<Rightarrow> Inr i
      | None \<Rightarrow> Inl (Exn ValueErr (PFStr [PStr ''invalid literal for int(): '', PRepr (PStr s)])))"

text \<open>\<open>int(x)\<close> on a decoded JSON value.\<close>

definition int_of :: "pyval \<Rightarrow> exn + int" where
  "int_of v =
     (case v of
        PInt i \<Rightarrow> Inr i
      | PBool b \<Rightarrow> Inr (if b then 1 else 0)
      | PNum (Fin q) \<Rightarrow> Inr (if 0 \<le> q then \<lfloor>q\<rfloor> else \<lceil>q\<rceil>)
      | PNum NaN \<Rightarrow> Inl (Exn ValueErr (PStr ''cannot convert float NaN to integer''))
      | PNum _ \<Rightarrow> Inl (Exn OtherErr (PStr ''OverflowError''))
      | PStr s \<Rightarrow> int_or_raise s
      | _ \<Rightarrow> Inl (Exn TypeErr (PStr ''int() argument must be a string or a real number'')))"

end
