(* ===== verification/Agent.thy ===== *)
theory Agent
  imports TaskModel TextLines
begin

text \<open>
  The configuration, prompts and reply parsing of the solve agent
  (\<open>src/ironbench/agent.py\<close>). URL parsing, name resolution and the classification of an address
  are parameters.
\<close>

section \<open>Configuration\<close>

record solve_config =
  sc_base_url :: string
  sc_api_key :: string
  sc_model :: string
  sc_max_iterations :: int
  sc_temperature :: pfloat
  sc_timeout_sec :: int
  sc_allow_local :: bool
  sc_max_tokens :: int

definition bounded_field :: "string \<Rightarrow> pyval \<Rightarrow> exn" where
  "bounded_field m v = Exn ValueErr (PFStr [PStr (m @ '', got ''), v])"

text \<open>\<open>__post_init__\<close>: the first field out of range is reported.\<close>

definition config_check :: "solve_config \<Rightarrow> exn + unit" where
  "config_check c =
     (if \<not> (1 \<le> sc_max_iterations c \<and> sc_max_iterations c \<le> 1000)
        then Inl (bounded_field ''max_iterations must be within 1..1000'' (PInt (sc_max_iterations c)))
      else if \<not> (pf_le (Fin 0) (sc_temperature c) \<and> pf_le (sc_temperature c) (Fin 2))
        then Inl (bounded_field ''temperature must be within 0..2'' (PNum (sc_temperature c)))
      else if \<not> (1 \<le> sc_timeout_sec c \<and> sc_timeout_sec c \<le> 3600)
        then Inl (bounded_field ''timeout_sec must be within 1..3600'' (PInt (sc_timeout_sec c)))
      else if \<not> (1 \<le> sc_max_tokens c \<and> sc_max_tokens c \<le> 1048576)
        then Inl (bounded_field ''max_tokens must be within 1..1048576'' (PInt (sc_max_tokens c)))
      else Inr ())"

definition pick :: "string option \<Rightarrow> string list \<Rightarrow> (string \<rightharpoonup> string) \<Rightarrow> (string \<rightharpoonup> string) \<Rightarrow> string \<Rightarrow> string" where
  "pick explicit names environ env dflt =
     (let given = (\<lambda>x. x \<noteq> None \<and> x \<noteq> Some []) in
      if given explicit then the explicit
      else case List.find (\<lambda>n. given (environ n) \<or> given (env n)) names of
        Some n \<Rightarrow> if given (environ n) then the (environ n) else the (env n)
      | None \<Rightarrow> dflt)"

definition resolve_llm_config ::
  "string option \<Rightarrow> string option \<Rightarrow> string option \<Rightarrow> (string \<rightharpoonup> string) \<Rightarrow> (string \<rightharpoonup> string) \<Rightarrow> exn + solve_config" where
  "resolve_llm_config base_url api_key model environ env =
     (let get = (\<lambda>n d. pick None [n] environ env d) in
      case int_or_raise (get ''LLM_MAX_ITERATIONS'' ''5'') of Inl e \<Rightarrow> Inl e | Inr iters \<Rightarrow>
      case int_or_raise (get ''LLM_TIMEOUT'' ''600'') of Inl e \<Rightarrow> Inl e | Inr timeout \<Rightarrow>
      case int_or_raise (get ''LLM_MAX_TOKENS'' ''8192'') of Inl e \<Rightarrow> Inl e | Inr tokens \<Rightarrow>
      let c = \<lparr>sc_base_url = pick base_url [''LLM_BASE_URL''] environ env ''http://localhost:1234/v1'',
               sc_api_key = pick api_key [''LLM_API_KEY''] environ env ''lm-studio'',
               sc_model = pick model [''LLM_MODEL''] environ env ''qwen3.5-9b'',
               sc_max_iterations = iters, sc_temperature = Fin (7 / 10), sc_timeout_sec = timeout,
               sc_allow_local =
                 (casefold (strip (get ''LLM_ALLOW_LOCAL'' ''1'')) \<notin> {''0'', ''false'', ''no''}),
               sc_max_tokens = tokens\<rparr> in
      map_sum id (\<lambda>_. c) (config_check c))"

section \<open>Endpoint boundary\<close>

text \<open>An address with the answers of the \<open>ipaddress\<close> module.\<close>

record ip_info =
  ip_text :: string
  ip_metadata :: bool
  ip_link_local :: bool
  ip_multicast :: bool
  ip_private :: bool
  ip_loopback :: bool
  ip_unspecified :: bool

definition blocked_always :: "ip_info \<Rightarrow> bool" where
  "blocked_always ip = (ip_metadata ip \<or> ip_link_local ip \<or> ip_multicast ip)"

definition blocked_local :: "ip_info \<Rightarrow> bool" where
  "blocked_local ip = (ip_private ip \<or> ip_loopback ip \<or> ip_unspecified ip)"

fun check_addresses :: "bool \<Rightarrow> string \<Rightarrow> ip_info list \<Rightarrow> exn + unit" where
  "check_addresses allow_local host [] = Inr ()"
| "check_addresses allow_local host (ip # ips) =
     (if blocked_always ip
        then Inl (Exn ValueErr (PFStr [PStr ''blocked address '', PStr host, PStr '' -> '', PStr (ip_text ip)]))
      else if \<not> allow_local \<and> blocked_local ip
        then Inl (Exn ValueErr (PFStr [PStr ''private/loopback address '', PStr host, PStr '' -> '', PStr (ip_text ip)]))
      else check_addresses allow_local host ips)"

definition rstrip_dots :: "string \<Rightarrow> string" where
  "rstrip_dots s = rev (dropWhile (\<lambda>c. c = CHR ''.'') (rev s))"

definition validate_endpoint ::
  "(string \<Rightarrow> string option) \<Rightarrow> (string \<Rightarrow> ip_info list option) \<Rightarrow> string \<Rightarrow> bool \<Rightarrow> exn + unit" where
  "validate_endpoint hostname getaddrinfo base_url allow_local =
     (if \<not> (prefix ''http://'' base_url \<or> prefix ''https://'' base_url)
        then Inl (Exn ValueErr (PFStr [PStr ''LLM_BASE_URL must be http/https: '', PStr base_url]))
      else
        let host = rstrip_dots (case hostname base_url of Some h \<Rightarrow> h | None \<Rightarrow> []) in
        if host = [] then Inl (Exn ValueErr (PFStr [PStr ''LLM_BASE_URL has no host: '', PStr base_url]))
        else if casefold host \<in> {''metadata.google.internal'', ''metadata''}
          then Inl (Exn ValueErr (PFStr [PStr ''blocked metadata host: '', PStr host]))
        else case getaddrinfo host of
          None \<Rightarrow> Inl (Exn ValueErr (PFStr [PStr ''LLM_BASE_URL host does not resolve: '', PStr host]))
        | Some infos \<Rightarrow> check_addresses allow_local host infos)"

section \<open>Replies\<close>

text \<open>\<open>payload[key]\<close>, \<open>payload[0]\<close> and \<open>message.get(key)\<close> on a decoded JSON value.\<close>

definition item_of :: "string \<Rightarrow> pyval \<Rightarrow> exn + pyval" where
  "item_of k v =
     (case v of
        PDict d \<Rightarrow> (case map_of d k of Some x \<Rightarrow> Inr x | None \<Rightarrow> Inl (Exn KeyErr (PStr k)))
      | _ \<Rightarrow> Inl (Exn TypeErr (PStr ''not subscriptable by a string'')))"

definition first_of :: "pyval \<Rightarrow> exn + pyval" where
  "first_of v =
     (case v of
        PList (x # _) \<Rightarrow> Inr x
      | PList [] \<Rightarrow> Inl (Exn IndexErr (PStr ''list index out of range''))
      | PStr (c # _) \<Rightarrow> Inr (PStr [c])
      | PStr [] \<Rightarrow> Inl (Exn IndexErr (PStr ''string index out of range''))
      | PDict _ \<Rightarrow> Inl (Exn KeyErr (PInt 0))
      | _ \<Rightarrow> Inl (Exn TypeErr (PStr ''not subscriptable'')))"

definition get_of :: "string \<Rightarrow> pyval \<Rightarrow> exn + pyval" where
  "get_of k v =
     (case v of
        PDict d \<Rightarrow> Inr (get_or d k PNone)
      | _ \<Rightarrow> Inl (Exn AttributeErr (PStr ''object has no attribute 'get' '')))"

record chat_reply =
  cr_content :: pyval
  cr_prompt_tokens :: int
  cr_completion_tokens :: int
  cr_message :: pyval

text \<open>The part of \<open>chat_completion\<close> after \<open>json.loads\<close>; the content is whatever JSON value the
  server sent.\<close>

definition bind_sum :: "'e + 'a \<Rightarrow> ('a \<Rightarrow> 'e + 'b) \<Rightarrow> 'e + 'b" where
  "bind_sum m f = (case m of Inl e \<Rightarrow> Inl e | Inr x \<Rightarrow> f x)"

definition parse_content :: "pyval \<Rightarrow> exn + pyval" where
  "parse_content message =
     bind_sum (get_of ''content'' message) (\<lambda>c.
       let content = py_or c (PStr []) in
       if truthy content then Inr content
       else bind_sum (get_of ''reasoning'' message) (\<lambda>r.
         if truthy r then Inr r
         else bind_sum (get_of ''reasoning_content'' message) (\<lambda>rc. Inr (py_or rc (PStr [])))))"

definition parse_reply :: "pyval \<Rightarrow> exn + chat_reply" where
  "parse_reply payload =
     bind_sum (item_of ''choices'' payload) (\<lambda>choices.
     bind_sum (first_of choices) (\<lambda>choice.
     bind_sum (item_of ''message'' choice) (\<lambda>message.
     bind_sum (parse_content message) (\<lambda>content.
     bind_sum (get_of ''usage'' payload) (\<lambda>u.
     let usage = py_or u (PDict []) in
     bind_sum (get_of ''prompt_tokens'' usage) (\<lambda>p.
     bind_sum (int_of (py_or p (PInt 0))) (\<lambda>pt.
     bind_sum (get_of ''completion_tokens'' usage) (\<lambda>q.
     bind_sum (int_of (py_or q (PInt 0))) (\<lambda>ct.
       Inr \<lparr>cr_content = content, cr_prompt_tokens = pt, cr_completion_tokens = ct,
            cr_message = message\<rparr>)))))))))"

section \<open>Code fences\<close>

text \<open>The opening of a block after its three back quotes: the language tag in any case, white space up to
  the last newline of the run. The result is the text after it.\<close>

definition FENCE :: string where "FENCE = [ch 96, ch 96, ch 96]"

definition after_lang :: "string \<Rightarrow> string" where
  "after_lang s =
     (if casefold (take 6 s) = ''python'' then drop 6 s
      else if casefold (take 11 s) = ''micropython'' then drop 11 s
      else s)"

definition after_newline :: "string \<Rightarrow> string option" where
  "after_newline s =
     (case rpartition_at (ch 10) (takeWhile py_space s) of
        (_, True, rest) \<Rightarrow> Some (rest @ dropWhile py_space s)
      | (_, False, _) \<Rightarrow> None)"

definition fence_body :: "string \<Rightarrow> (string \<times> string) option" where
  "fence_body s =
     (if prefix FENCE s then
        (case after_newline (after_lang (drop 3 s)) of
           None \<Rightarrow> None
         | Some body \<Rightarrow>
             (case find_at FENCE body of
                None \<Rightarrow> None
              | Some i \<Rightarrow> Some (take i body, drop (i + 3) body)))
      else None)"

lemma after_newline_length: "after_newline s = Some r \<Longrightarrow> length r < length s"
proof -
  assume "after_newline s = Some r"
  then obtain b rest where rp: "rpartition_at (ch 10) (takeWhile py_space s) = (b, True, rest)"
    and r: "r = rest @ dropWhile py_space s"
    by (auto simp: after_newline_def split: prod.splits bool.splits)
  have "length rest < length w" if "rpartition_at d w = (b, True, rest)" for d and w :: string
  proof (cases "d \<in> set w")
    case True
    then obtain u v where "w = u @ d # v" "d \<notin> set v" by (meson split_list_last)
    with that show ?thesis by (auto simp: rpartition_at_hit)
  next
    case False
    with that show ?thesis by (auto simp: rpartition_at_miss)
  qed
  from this [OF rp] have "length r < length (takeWhile py_space s @ dropWhile py_space s)"
    by (simp only: r length_append)
  then show "length r < length s" by (simp only: takeWhile_dropWhile_id)
qed

lemma fence_body_length: "fence_body s = Some (body, rest) \<Longrightarrow> length rest < length s"
  by (auto simp: fence_body_def after_lang_def dest!: after_newline_length split: if_splits option.splits)

text \<open>\<open>CODE_FENCE.findall\<close>: the bodies of the blocks, from left to right.\<close>

function code_blocks :: "string \<Rightarrow> string list" where
  "code_blocks [] = []"
| "code_blocks (c # cs) =
     (case fence_body (c # cs) of
        Some (body, rest) \<Rightarrow> body # code_blocks rest
      | None \<Rightarrow> code_blocks cs)"
  by pat_completeness auto
termination
  by (relation "measure length") (auto dest: fence_body_length)

definition extract_code :: "string \<Rightarrow> string option" where
  "extract_code response =
     (case code_blocks response of [] \<Rightarrow> None
      | bs \<Rightarrow> (let code = strip (last bs) in if code = [] then None else Some (code @ [ch 10])))"

section \<open>Prompts and feedback\<close>

type_synonym message = "string \<times> pyval"

text \<open>\<open>sep.join(words)\<close> for a separator of several characters.\<close>

definition join_sep :: "string \<Rightarrow> string list \<Rightarrow> string" where
  "join_sep sep ws = (case ws of [] \<Rightarrow> [] | v # vs \<Rightarrow> v @ concat (map (\<lambda>x. sep @ x) vs))"

definition first_prompt :: "task \<Rightarrow> pyval" where
  "first_prompt t =
     PFStr
      ([PStr ''Task: '', PStr (t_description t), PStr [ch 10, ch 10]] @
       (if t_target t = ''plant''
        then [PStr ''Write the complete code of the main.py file - the controller of the closed-loop system as a control(t, y, setpoint) function. The answer must be a single ```python block with the complete code.'']
        else [PStr ''Write the complete code of the main.py file for MicroPython ESP32. Printing to serial is a regular print(). The answer must be a single ```python block with the complete code.'']) @
       (if t_device_modules t = [] then []
        else [PStr [ch 10, ch 10],
              PStr ''Device environment (IMPORTANT): the board runs bare MicroPython with NO third-party libraries and no package installer - you must implement any device protocol yourself. Modules available on the device: '',
              PStr (join_sep '', '' (t_device_modules t)), PStr ''.'']) @
       (if t_api_hint t = [] then []
        else [PStr [ch 10, ch 10], PStr ''Known-good imports for this board:'', PStr [ch 10], PStr (t_api_hint t)]) @
       (if t_notes t = [] then []
        else [PStr [ch 10, ch 10], PStr ''Expert notes from the bench team:'', PStr [ch 10],
              PStr (join_with (ch 10) (map (\<lambda>n. ''- '' @ n) (t_notes t)))]))"

definition system_prompt :: "task \<Rightarrow> pyval" where
  "system_prompt t =
     (if t_target t = ''plant''
      then PStr ''You are a control-systems engineer. You write a Python controller as a function control(t, y, setpoint). Reply with exactly one ```python block containing the full main.py code, no explanations.''
      else PStr ''You are an embedded engineer. You write MicroPython firmware for ESP32 as a single top-level script. Reply with exactly one ```python block containing the full main.py code, no explanations.'')"

definition TB_HEADER :: string where "TB_HEADER = ''Traceback (most recent call last):''"

text \<open>The lines after the last traceback header.\<close>

fun after_last_header :: "string list \<Rightarrow> string list option" where
  "after_last_header [] = None"
| "after_last_header (l # ls) =
     (case after_last_header ls of
        Some rest \<Rightarrow> Some rest
      | None \<Rightarrow> if strip l = TB_HEADER then Some ls else None)"

definition remove_suffix :: "string \<Rightarrow> string \<Rightarrow> string" where
  "remove_suffix suf s = (if suffix suf s then take (length s - length suf) s else s)"

text \<open>The scan over the frames: the last frame seen and the first line that is not one.\<close>

fun scan_frames :: "string \<Rightarrow> string list \<Rightarrow> string \<times> string" where
  "scan_frames frame [] = (frame, [])"
| "scan_frames frame (l # ls) =
     (let s = strip l in
      if s = [] then scan_frames frame ls
      else if prefix ''File '' s then scan_frames (remove_suffix '', in <module>'' (drop 5 s)) ls
      else (frame, s))"

definition parse_last_traceback :: "string list \<Rightarrow> string option" where
  "parse_last_traceback lines =
     (case after_last_header lines of None \<Rightarrow> None
      | Some ls \<Rightarrow>
          (case scan_frames [] ls of (frame, exc) \<Rightarrow>
            if exc = [] then None
            else Some (exc @ (if frame = [] then [] else '' ('' @ frame @ '')''))))"

definition SERIAL_FEEDBACK_LINES :: nat where "SERIAL_FEEDBACK_LINES = 40"

text \<open>The serial log as its text, \<open>None\<close> when there is no file.\<close>

definition serial_feedback :: "string option \<Rightarrow> pyval" where
  "serial_feedback serial_log =
     (case serial_log of
        None \<Rightarrow> PStr ''(serial output is empty - the firmware did not start)''
      | Some txt \<Rightarrow>
          (let lines = splitlines txt;
               tail = drop (length lines - SERIAL_FEEDBACK_LINES) lines;
               joined = PStr (join_with (ch 10) tail) in
           case parse_last_traceback lines of
             None \<Rightarrow> joined
           | Some d \<Rightarrow> PFStr [PStr ''DIAGNOSIS: '', PStr d, PStr [ch 10, ch 10], PStr ''(last serial output):'', PStr [ch 10], joined]))"

section \<open>Facts\<close>

lemma code_blocks_skip:
  "(\<forall>i < length pre. \<not> prefix FENCE (drop i (pre @ s))) \<Longrightarrow> code_blocks (pre @ s) = code_blocks s"
proof (induction pre)
  case (Cons c pre)
  have "\<not> prefix FENCE (c # pre @ s)" using Cons.prems by force
  then have "fence_body (c # pre @ s) = None" by (simp add: fence_body_def)
  moreover have "\<forall>i < length pre. \<not> prefix FENCE (drop i (pre @ s))"
    using Cons.prems by force
  ultimately show ?case using Cons.IH by simp
qed simp

text \<open>Text in which no fence starts, also not across its end into a following fence.\<close>

definition fence_free :: "string \<Rightarrow> bool" where
  "fence_free s = (ch 96 \<notin> set s)"

lemma fence_free_drop: "fence_free pre \<Longrightarrow> i < length pre \<Longrightarrow> \<not> prefix FENCE (drop i (pre @ s))"
proof
  assume f: "fence_free pre" and i: "i < length pre" and p: "prefix FENCE (drop i (pre @ s))"
  then have "hd (drop i (pre @ s)) = ch 96" by (metis FENCE_def append_Cons list.sel(1) prefix_def)
  moreover have "hd (drop i (pre @ s)) = pre ! i" using i by (simp add: hd_drop_conv_nth nth_append)
  ultimately show False using f i by (auto simp: fence_free_def)
qed

lemma code_blocks_free: "fence_free s \<Longrightarrow> code_blocks s = []"
  using code_blocks_skip [of s "[]"] fence_free_drop [of s _ "[]"] by simp

lemma find_fence: "fence_free body \<Longrightarrow> find_at FENCE (body @ FENCE @ post) = Some (length body)"
proof (induction body)
  case Nil
  show ?case by (cases "FENCE @ post") (simp_all add: FENCE_def)
next
  case (Cons c body)
  then have "\<not> prefix FENCE (c # body @ FENCE @ post)"
    using fence_free_drop [of "c # body" 0 "FENCE @ post"] by simp
  with Cons show ?case by (simp add: fence_free_def)
qed

lemma after_lang_tag: "after_lang (''python'' @ r) = r" "after_lang (''micropython'' @ r) = r"
  by (simp_all add: after_lang_def casefold_def lower_char_def)

lemma fence_body_block:
  assumes "fence_free body" and "body = [] \<or> \<not> py_space (hd body)"
    and "lang \<in> {[], ''python'', ''micropython''}"
  shows "fence_body (FENCE @ lang @ ch 10 # body @ FENCE @ post) = Some (body, post)"
proof -
  have nl: "py_space (ch 10)" by (simp add: py_space_def ch_def)
  have "lower_char (ch 10) \<noteq> CHR ''p''" "lower_char (ch 10) \<noteq> CHR ''m''" by code_simp+
  then have "(casefold (take 6 (ch 10 # w)) = ''python'') = False"
    "(casefold (take 11 (ch 10 # w)) = ''micropython'') = False" for w
    by (simp_all add: casefold_def)
  then have "after_lang (ch 10 # w) = ch 10 # w" for w by (simp only: after_lang_def if_False)
  then have after: "after_lang (lang @ ch 10 # body @ FENCE @ post) = ch 10 # body @ FENCE @ post"
    using assms(3) after_lang_tag by auto
  have hd: "\<not> py_space (hd (body @ FENCE @ post))" "body @ FENCE @ post \<noteq> []"
    using assms(2) by (auto simp: FENCE_def py_space_def ch_def hd_append)
  then have tw: "takeWhile py_space (body @ FENCE @ post) = []"
    and dw: "dropWhile py_space (body @ FENCE @ post) = body @ FENCE @ post"
    by (cases "body @ FENCE @ post"; simp)+
  have "after_newline (ch 10 # body @ FENCE @ post) = Some (body @ FENCE @ post)"
    using nl tw dw by (simp add: after_newline_def rpartition_at_def)
  moreover have "length FENCE = 3" by (simp add: FENCE_def)
  ultimately show ?thesis
    using find_fence [OF assms(1), of post] after by (simp add: fence_body_def)
qed

text \<open>The code the agent sends is the code that runs: from an answer with text around one fenced
  block, tagged or not, the stripped code of the block comes back with one final newline.
\<close>

theorem extract_code_roundtrip:
  assumes "fence_free pre" and "fence_free post" and "fence_free code" and "strip code = code" and "code \<noteq> []"
    and "lang \<in> {[], ''python'', ''micropython''}"
  shows "extract_code (pre @ FENCE @ lang @ ch 10 # code @ ch 10 # FENCE @ post) = Some (code @ [ch 10])"
proof -
  let ?body = "code @ [ch 10]"
  have "fence_free ?body" using assms(3) by (simp add: fence_free_def ch_def)
  moreover have "?body = [] \<or> \<not> py_space (hd ?body)" using strip_hd [OF assms(4,5)] assms(5) by simp
  ultimately have "fence_body (FENCE @ lang @ ch 10 # ?body @ FENCE @ post) = Some (?body, post)"
    using assms(6) by (rule fence_body_block)
  moreover have "FENCE @ w = ch 96 # ch 96 # ch 96 # w" for w by (simp add: FENCE_def)
  ultimately have "code_blocks (FENCE @ lang @ ch 10 # ?body @ FENCE @ post) = ?body # code_blocks post"
    by (simp only: code_blocks.simps option.case prod.case)
  moreover have "code_blocks (pre @ FENCE @ lang @ ch 10 # ?body @ FENCE @ post)
      = code_blocks (FENCE @ lang @ ch 10 # ?body @ FENCE @ post)"
    using fence_free_drop [OF assms(1)] by (intro code_blocks_skip) blast
  ultimately have "code_blocks (pre @ FENCE @ lang @ ch 10 # code @ ch 10 # FENCE @ post) = [?body]"
    using code_blocks_free [OF assms(2)] by simp
  then show ?thesis using strip_newline [OF assms(4,5)] assms(5) by (simp add: extract_code_def)
qed

lemma extract_code_roundtrip_witness:
  "extract_code (''Sure: '' @ FENCE @ ''python'' @ ch 10 # ''print(1)'' @ ch 10 # FENCE @ '' done'')
     = Some (''print(1)'' @ [ch 10])"
proof -
  have "fence_free ''Sure: ''" "fence_free '' done''" "fence_free ''print(1)''"
    "strip ''print(1)'' = ''print(1)''" by code_simp+
  from extract_code_roundtrip [OF this, where lang = "''python''"] show ?thesis by simp
qed

text \<open>
  The request boundary is exact: a base URL is accepted iff its scheme is http or https, it
  has a host that is no metadata name and resolves, no address is link-local, multicast or
  the metadata address, and, unless local addresses are allowed, none is private, loopback or
  unspecified.
\<close>

theorem validate_endpoint_exact:
  "validate_endpoint hostname getaddrinfo url allow_local = Inr () \<longleftrightarrow>
     (prefix ''http://'' url \<or> prefix ''https://'' url) \<and>
     (\<exists>h infos. hostname url = Some h \<and> rstrip_dots h \<noteq> [] \<and>
        casefold (rstrip_dots h) \<notin> {''metadata.google.internal'', ''metadata''} \<and>
        getaddrinfo (rstrip_dots h) = Some infos \<and>
        (\<forall>ip \<in> set infos. \<not> ip_metadata ip \<and> \<not> ip_link_local ip \<and> \<not> ip_multicast ip) \<and>
        (allow_local \<or> (\<forall>ip \<in> set infos. \<not> ip_private ip \<and> \<not> ip_loopback ip \<and> \<not> ip_unspecified ip)))"
proof -
  have addr: "check_addresses allow_local host ips = Inr () \<longleftrightarrow>
      (\<forall>ip \<in> set ips. \<not> blocked_always ip) \<and> (allow_local \<or> (\<forall>ip \<in> set ips. \<not> blocked_local ip))" for host ips
    by (induction ips) auto
  have "rstrip_dots [] = []" by (simp add: rstrip_dots_def)
  then show ?thesis
    by (auto simp: validate_endpoint_def addr blocked_always_def blocked_local_def Let_def
        split: option.splits)
qed

definition public_ip :: ip_info where
  "public_ip =
     \<lparr>ip_text = ''192.0.2.7'', ip_metadata = False, ip_link_local = False, ip_multicast = False,
      ip_private = False, ip_loopback = False, ip_unspecified = False\<rparr>"

lemma validate_endpoint_exact_witness:
  "validate_endpoint (\<lambda>_. Some ''a'') (\<lambda>_. Some [public_ip]) ''https://a'' False = Inr () \<and>
   validate_endpoint (\<lambda>_. Some ''a'') (\<lambda>_. Some [public_ip\<lparr>ip_private := True\<rparr>]) ''https://a'' False \<noteq> Inr ()"
proof -
  have host: "rstrip_dots ''a'' = ''a''" by (simp add: rstrip_dots_def)
  have name: "casefold ''a'' \<notin> {''metadata.google.internal'', ''metadata''}"
    by (simp add: casefold_def lower_char_def)
  show ?thesis
    unfolding validate_endpoint_exact using name by (simp add: public_ip_def host)
qed

end
