(* ===== verification/Solve.thy ===== *)
theory Solve
  imports Agent RunnerCommon
begin

text \<open>
  The solve loop of the agent (\<open>solve_attempt\<close> and \<open>solve\<close> in \<open>src/ironbench/agent.py\<close>): ask the
  model, extract the code, run it, feed the result back. The model and the runner are step functions
  of an outside world of any type; what they may do is any of the outcomes below. The duration and the
  working directory of an attempt are left out of its result and of its event.
\<close>

section \<open>The outside\<close>

text \<open>A call of the model returns the content of its reply, raises \<open>HTTPError\<close> with a status code, or raises.\<close>

datatype llm_outcome = Answers pyval | HttpFails int pyval | LlmRaises exn

type_synonym 'w llm = "'w \<Rightarrow> message list \<Rightarrow> 'w \<times> llm_outcome"

text \<open>The runner is given the iteration number and the code; it returns a result and the text of its serial log.\<close>

type_synonym 'w run_fun = "'w \<Rightarrow> nat \<Rightarrow> string \<Rightarrow> 'w \<times> (exn + task_result)"

text \<open>\<open>b_results\<close>, the results the runner returned so far, is ghost state.\<close>

record 'w bench =
  b_world :: 'w
  b_calls :: nat
  b_sleeps :: nat
  b_results :: "task_result list"
  b_files :: "(string \<times> string) list"
  b_events :: "event list"

definition bench_init :: "'w \<Rightarrow> 'w bench" where
  "bench_init w = \<lparr>b_world = w, b_calls = 0, b_sleeps = 0, b_results = [], b_files = [], b_events = []\<rparr>"

section \<open>One answer of the model\<close>

text \<open>\<open>chat\<close> on a decoded reply of the server.\<close>

definition chat_outcome :: "pyval \<Rightarrow> llm_outcome" where
  "chat_outcome payload =
     (case parse_reply payload of Inl e \<Rightarrow> LlmRaises e | Inr r \<Rightarrow> Answers (cr_content r))"


definition TRANSIENT :: "exn_class list" where
  "TRANSIENT = [OSErr, ValueErr, LookupErr, TypeErr]"

definition LLM_TRIES :: nat where "LLM_TRIES = 3"

datatype ask_result = Got pyval | GaveUp pyval | ConfigAbort int pyval | AskRaises exn

datatype call_class = CGot pyval | CTransient pyval | CAbort int pyval | CRaises exn

definition classify_call :: "llm_outcome \<Rightarrow> call_class" where
  "classify_call oc =
     (case oc of
        Answers r \<Rightarrow> CGot r
      | HttpFails code m \<Rightarrow> if code \<in> {400, 401, 403, 404} then CAbort code m else CTransient m
      | LlmRaises e \<Rightarrow> if catches TRANSIENT e then CTransient (exn_str e) else CRaises e)"

text \<open>The retry loop; the argument is \<open>_llm_tries\<close> before the call.\<close>

fun ask :: "'w llm \<Rightarrow> message list \<Rightarrow> nat \<Rightarrow> 'w bench \<Rightarrow> 'w bench \<times> ask_result" where
  "ask llm msgs 0 s = (s, GaveUp PNone)"
| "ask llm msgs (Suc n) s =
     (case llm (b_world s) msgs of (w, oc) \<Rightarrow>
       let s1 = s\<lparr>b_world := w, b_calls := b_calls s + 1\<rparr> in
       (case classify_call oc of
          CGot r \<Rightarrow> (s1, Got r)
        | CAbort code m \<Rightarrow> (s1, ConfigAbort code m)
        | CRaises e \<Rightarrow> (s1, AskRaises e)
        | CTransient m \<Rightarrow>
            if n = 0 then (s1, GaveUp m)
            else ask llm msgs n (s1\<lparr>b_sleeps := b_sleeps s1 + 1\<rparr>)))"

section \<open>One iteration\<close>

text \<open>The local variables of the loop.\<close>

record attempt_state =
  a_messages :: "message list"
  a_iterations :: nat
  a_solved :: bool
  a_error :: "pyval option"
  a_llm_failed :: bool
  a_run_kind :: "string option"

datatype turn = Goes attempt_state | Stops attempt_state | TurnAborts int pyval | TurnRaises exn

definition NO_BLOCK_PROMPT :: pyval where
  "NO_BLOCK_PROMPT = PStr ''The answer has no ```python block. Try again: exactly one ```python block with the full main.py code.''"

definition failure_prompt :: "task_result \<Rightarrow> pyval" where
  "failure_prompt r =
     PFStr ([PStr ''The check failed.''] @
       (case tr_error r of
          Some e \<Rightarrow> if truthy e then [PStr '' Reason: '', e] else []
        | None \<Rightarrow> []) @
       [PStr [ch 10, ch 10], PStr ''Run output:'', PStr [ch 10, ch 10], serial_feedback (tr_serial_log r),
        PStr [ch 10, ch 10],
        PStr ''Fix the code and again send exactly one ```python block with the full main.py.''])"

definition iteration_event :: "task \<Rightarrow> nat \<Rightarrow> nat \<Rightarrow> event" where
  "iteration_event t attempt n =
     (''iteration'',
      [(''task'', PStr (t_name t)), (''attempt'', PInt (int attempt)), (''n'', PInt (int n))])"

definition iter_name :: "nat \<Rightarrow> string \<Rightarrow> string" where
  "iter_name n kind = ''iter-'' @ show_nat n @ kind"

definition save_run :: "nat \<Rightarrow> string \<Rightarrow> task_result \<Rightarrow> 'w bench \<Rightarrow> 'w bench" where
  "save_run n code r s =
     s\<lparr>b_files := b_files s @ (iter_name n ''.main.py'', code) #
        (case tr_serial_log r of
           Some txt \<Rightarrow> [(iter_name n ''.serial.log'', txt)]
         | None \<Rightarrow> [])\<rparr>"

definition judge_run :: "task_result \<Rightarrow> string \<Rightarrow> attempt_state \<Rightarrow> turn" where
  "judge_run r response a =
     (let a1 = a\<lparr>a_run_kind := Some (tr_error_kind r)\<rparr> in
      if tr_passed r then Stops (a1\<lparr>a_solved := True\<rparr>)
      else if is_infra_result r then
        Stops (a1\<lparr>a_error := Some (PFStr [PStr ''environment not ready, attempt stopped: '',
                                      opt_val id (tr_error r)])\<rparr>)
      else Goes (a1\<lparr>a_messages := a_messages a1 @
             [(''assistant'', PStr response), (''user'', failure_prompt r)]\<rparr>))"

definition run_turn ::
  "'w run_fun \<Rightarrow> task \<Rightarrow> nat \<Rightarrow> bool \<Rightarrow> string \<Rightarrow> attempt_state \<Rightarrow> 'w bench \<Rightarrow> 'w bench \<times> turn" where
  "run_turn runner t attempt journal response a s =
     (case extract_code response of
        None \<Rightarrow> (s, Goes (a\<lparr>a_messages := a_messages a @
                    [(''assistant'', PStr response), (''user'', NO_BLOCK_PROMPT)]\<rparr>))
      | Some code \<Rightarrow>
          let s1 = s\<lparr>b_files := b_files s @ [(''work/main.py'', code)],
                     b_events := b_events s @
                       (if journal then [iteration_event t attempt (a_iterations a)] else [])\<rparr> in
          (case runner (b_world s1) (a_iterations a) code of (w, res) \<Rightarrow>
            let s2 = s1\<lparr>b_world := w\<rparr> in
            (case res of
               Inl e \<Rightarrow> (s2, TurnRaises e)
             | Inr r \<Rightarrow>
                 (save_run (a_iterations a) code r (s2\<lparr>b_results := b_results s2 @ [r]\<rparr>),
                  judge_run r response a))))"

definition iterate ::
  "'w llm \<Rightarrow> 'w run_fun \<Rightarrow> task \<Rightarrow> nat \<Rightarrow> bool \<Rightarrow> attempt_state \<Rightarrow> 'w bench \<Rightarrow> 'w bench \<times> turn" where
  "iterate llm runner t attempt journal a s =
     (let a1 = a\<lparr>a_iterations := a_iterations a + 1\<rparr> in
      case ask llm (a_messages a1) LLM_TRIES s of (s1, q) \<Rightarrow>
      (case q of
         ConfigAbort code m \<Rightarrow> (s1, TurnAborts code m)
       | AskRaises e \<Rightarrow> (s1, TurnRaises e)
       | GaveUp m \<Rightarrow>
           (s1, Stops (a1\<lparr>a_error := Some (PFStr [PStr ''LLM error: '', m]), a_llm_failed := True\<rparr>))
       | Got (PStr response) \<Rightarrow> run_turn runner t attempt journal response a1 s1
       | Got _ \<Rightarrow> (s1, TurnRaises (Exn TypeErr (PStr ''expected string or bytes-like object'')))))"

section \<open>The attempt\<close>

text \<open>How the loop ends: through its condition or a \<open>break\<close>, by \<open>SystemExit\<close>, or by an exception.\<close>

datatype 'a outcome = Returns 'a | Exits int pyval | Raises exn

fun attempt_loop ::
  "'w llm \<Rightarrow> 'w run_fun \<Rightarrow> task \<Rightarrow> nat \<Rightarrow> bool \<Rightarrow> nat \<Rightarrow> attempt_state \<Rightarrow> 'w bench
   \<Rightarrow> 'w bench \<times> attempt_state outcome" where
  "attempt_loop llm runner t attempt journal 0 a s = (s, Returns a)"
| "attempt_loop llm runner t attempt journal (Suc n) a s =
     (case iterate llm runner t attempt journal a s of
        (s1, Goes a1) \<Rightarrow> attempt_loop llm runner t attempt journal n a1 s1
      | (s1, Stops a1) \<Rightarrow> (s1, Returns a1)
      | (s1, TurnAborts code m) \<Rightarrow> (s1, Exits code m)
      | (s1, TurnRaises e) \<Rightarrow> (s1, Raises e))"

record attempt_result =
  ar_task :: string
  ar_attempt :: nat
  ar_solved :: bool
  ar_iterations :: nat
  ar_error :: "pyval option"
  ar_error_kind :: string

definition attempt_start :: "task \<Rightarrow> attempt_state" where
  "attempt_start t =
     \<lparr>a_messages = [(''system'', system_prompt t), (''user'', first_prompt t)],
      a_iterations = 0, a_solved = False, a_error = None, a_llm_failed = False, a_run_kind = None\<rparr>"

definition final_error :: "nat \<Rightarrow> attempt_state \<Rightarrow> pyval option" where
  "final_error limit a =
     (if a_error a = None \<and> \<not> a_solved a
      then Some (PFStr [PStr ''iteration limit ('', PInt (int limit), PStr '') exhausted''])
      else a_error a)"

definition classify :: "attempt_state \<Rightarrow> string" where
  "classify a =
     (if a_solved a then ERROR_NONE
      else if a_llm_failed a then ERROR_INFRA
      else case a_run_kind a of Some k \<Rightarrow> k | None \<Rightarrow> ERROR_RUN)"

definition attempt_verdict :: "task \<Rightarrow> nat \<Rightarrow> nat \<Rightarrow> attempt_state \<Rightarrow> attempt_result" where
  "attempt_verdict t attempt limit a =
     \<lparr>ar_task = t_name t, ar_attempt = attempt, ar_solved = a_solved a, ar_iterations = a_iterations a,
      ar_error = final_error limit a, ar_error_kind = classify a\<rparr>"

definition solve_attempt ::
  "'w llm \<Rightarrow> 'w run_fun \<Rightarrow> task \<Rightarrow> solve_config \<Rightarrow> nat \<Rightarrow> bool \<Rightarrow> 'w bench
   \<Rightarrow> 'w bench \<times> attempt_result outcome" where
  "solve_attempt llm runner t cfg attempt journal s =
     (let limit = nat (sc_max_iterations cfg) in
      case attempt_loop llm runner t attempt journal limit (attempt_start t) s of
        (s1, Returns a) \<Rightarrow> (s1, Returns (attempt_verdict t attempt limit a))
      | (s1, Exits code m) \<Rightarrow> (s1, Exits code m)
      | (s1, Raises e) \<Rightarrow> (s1, Raises e))"

section \<open>The campaign\<close>

definition attempt_event :: "task \<Rightarrow> solve_config \<Rightarrow> attempt_result \<Rightarrow> event" where
  "attempt_event t cfg r =
     (''attempt_result'',
      [(''task'', PStr (ar_task r)), (''attempt'', PInt (int (ar_attempt r))),
       (''solved'', PBool (ar_solved r)), (''iterations'', PInt (int (ar_iterations r))),
       (''model'', PStr (sc_model cfg)), (''error'', opt_val id (ar_error r)),
       (''error_kind'', PStr (ar_error_kind r)), (''notes'', PBool (t_notes t \<noteq> []))])"

fun attempts_from ::
  "'w llm \<Rightarrow> 'w run_fun \<Rightarrow> task \<Rightarrow> solve_config \<Rightarrow> bool \<Rightarrow> nat list \<Rightarrow> 'w bench
   \<Rightarrow> 'w bench \<times> attempt_result list outcome" where
  "attempts_from llm runner t cfg journal [] s = (s, Returns [])"
| "attempts_from llm runner t cfg journal (n # ns) s =
     (case solve_attempt llm runner t cfg n journal s of
        (s1, Exits code m) \<Rightarrow> (s1, Exits code m)
      | (s1, Raises e) \<Rightarrow> (s1, Raises e)
      | (s1, Returns r) \<Rightarrow>
          (case attempts_from llm runner t cfg journal ns s1 of
             (s2, Returns rs) \<Rightarrow> (s2, Returns (r # rs))
           | (s2, Exits code m) \<Rightarrow> (s2, Exits code m)
           | (s2, Raises e) \<Rightarrow> (s2, Raises e)))"

definition solve ::
  "'w llm \<Rightarrow> 'w run_fun \<Rightarrow> task \<Rightarrow> solve_config \<Rightarrow> nat \<Rightarrow> bool \<Rightarrow> 'w bench
   \<Rightarrow> 'w bench \<times> attempt_result list outcome" where
  "solve llm runner t cfg attempts journal s =
     (case attempts_from llm runner t cfg journal [1 ..< Suc attempts] s of
        (s1, Returns rs) \<Rightarrow>
          (if journal then s1\<lparr>b_events := b_events s1 @ map (attempt_event t cfg) rs\<rparr> else s1, Returns rs)
      | (s1, Exits code m) \<Rightarrow> (s1, Exits code m)
      | (s1, Raises e) \<Rightarrow> (s1, Raises e))"

section \<open>What one iteration does\<close>

lemma ask_frame:
  "ask llm msgs n s = (s', q) \<Longrightarrow>
   b_calls s \<le> b_calls s' \<and> b_calls s' \<le> b_calls s + n \<and> b_results s' = b_results s \<and>
   b_events s' = b_events s \<and> b_files s' = b_files s"
proof (induction n arbitrary: s)
  case (Suc n)
  obtain w oc where call: "llm (b_world s) msgs = (w, oc)" by (cases "llm (b_world s) msgs")
  let ?s1 = "s\<lparr>b_world := w, b_calls := b_calls s + 1\<rparr>"
  show ?case
  proof (cases "\<exists>m. classify_call oc = CTransient m \<and> n \<noteq> 0")
    case True
    then have "ask llm msgs n (?s1\<lparr>b_sleeps := b_sleeps ?s1 + 1\<rparr>) = (s', q)"
      using Suc.prems call by (auto simp: Let_def)
    from Suc.IH [OF this] show ?thesis by simp
  next
    case False
    then have "s' = ?s1" using Suc.prems call by (auto simp: Let_def split: call_class.splits if_splits)
    then show ?thesis by simp
  qed
qed simp

text \<open>The three ways an iteration leaves the loop state: no run, a run, or the model gave up.\<close>

lemma iterate_cases:
  assumes "iterate llm runner t attempt journal a s = (s', Goes a') \<or>
           iterate llm runner t attempt journal a s = (s', Stops a')"
  obtains
    (no_block) "iterate llm runner t attempt journal a s = (s', Goes a')"
      "b_results s' = b_results s" "a_solved a' = a_solved a" "a_error a' = a_error a"
      "a_llm_failed a' = a_llm_failed a" "a_run_kind a' = a_run_kind a"
  | (ran) r where "b_results s' = b_results s @ [r]" "a_run_kind a' = Some (tr_error_kind r)"
      "a_llm_failed a' = a_llm_failed a" "a_solved a' = (if tr_passed r then True else a_solved a)"
      "a_error a' \<noteq> None \<longleftrightarrow> a_error a \<noteq> None \<or> \<not> tr_passed r \<and> is_infra_result r"
      "iterate llm runner t attempt journal a s = (s', Goes a') \<longleftrightarrow> \<not> tr_passed r \<and> \<not> is_infra_result r"
  | (gave_up) "iterate llm runner t attempt journal a s = (s', Stops a')" "b_results s' = b_results s"
      "a_llm_failed a'" "a_error a' \<noteq> None" "a_solved a' = a_solved a" "a_run_kind a' = a_run_kind a"
proof -
  obtain s1 q where q: "ask llm (a_messages a) LLM_TRIES s = (s1, q)" by (cases "ask llm (a_messages a) LLM_TRIES s")
  have fr: "b_results s1 = b_results s" using ask_frame [OF q] by simp
  show thesis
  proof (cases q)
    case (GaveUp m)
    with assms q fr show thesis by (intro gave_up) (auto simp: iterate_def Let_def)
  next
    case (Got v)
    with assms q obtain response where v: "v = PStr response"
      by (auto simp: iterate_def Let_def split: pyval.splits)
    show thesis
    proof (cases "extract_code response")
      case None
      with assms q fr Got v show thesis by (intro no_block) (auto simp: iterate_def run_turn_def Let_def)
    next
      case (Some code)
      with assms q Got v fr show thesis
        by (auto simp: iterate_def run_turn_def Let_def judge_run_def save_run_def
            split: prod.splits sum.splits if_splits intro!: ran)
    qed
  qed (use assms q in \<open>auto simp: iterate_def Let_def\<close>)
qed

lemma iterate_counts:
  assumes "iterate llm runner t attempt journal a s = (s', Goes a') \<or>
           iterate llm runner t attempt journal a s = (s', Stops a')"
  shows "a_iterations a' = a_iterations a + 1" and "b_calls s' \<le> b_calls s + 3"
proof -
  obtain s1 q where q: "ask llm (a_messages a) LLM_TRIES s = (s1, q)" by (cases "ask llm (a_messages a) LLM_TRIES s")
  have fr: "b_calls s1 \<le> b_calls s + 3" using ask_frame [OF q] by (simp add: LLM_TRIES_def)
  show "a_iterations a' = a_iterations a + 1" and "b_calls s' \<le> b_calls s + 3"
    using assms q fr
    by (auto simp: iterate_def run_turn_def Let_def judge_run_def save_run_def
        split: ask_result.splits pyval.splits option.splits prod.splits sum.splits if_splits)
qed

section \<open>The whole attempt\<close>

lemma attempt_loop_rule:
  assumes "attempt_loop llm runner t attempt journal n a s = (s', Returns a')"
    and "P a s"
    and go: "\<And>a s s1 a1. P a s \<Longrightarrow> iterate llm runner t attempt journal a s = (s1, Goes a1) \<Longrightarrow> P a1 s1"
    and stop: "\<And>a s s1 a1. P a s \<Longrightarrow> iterate llm runner t attempt journal a s = (s1, Stops a1) \<Longrightarrow> Q a1 s1"
  shows "P a' s' \<and> a_iterations a' = a_iterations a + n \<or> Q a' s' \<and> a_iterations a' \<le> a_iterations a + n"
  using assms(1,2)
proof (induction n arbitrary: a s)
  case (Suc n)
  obtain s1 q where it: "iterate llm runner t attempt journal a s = (s1, q)"
    by (cases "iterate llm runner t attempt journal a s")
  show ?case
  proof (cases q)
    case (Goes a1)
    with Suc.prems it have loop: "attempt_loop llm runner t attempt journal n a1 s1 = (s', Returns a')" by simp
    have "P a1 s1" using go Suc.prems(2) it Goes by blast
    moreover have "a_iterations a1 = a_iterations a + 1"
      using iterate_counts(1) it Goes by blast
    ultimately show ?thesis using Suc.IH [OF loop] by simp
  next
    case (Stops a1)
    with Suc.prems it have "a' = a1" "s' = s1" by simp_all
    moreover have "a_iterations a1 = a_iterations a + 1" using iterate_counts(1) it Stops by blast
    ultimately show ?thesis using stop Suc.prems(2) it Stops by simp
  qed (use Suc.prems it in simp_all)
qed simp

definition rejected :: "task_result \<Rightarrow> bool" where
  "rejected r = (\<not> tr_passed r \<and> \<not> is_infra_result r)"

definition last_kind :: "task_result list \<Rightarrow> string option" where
  "last_kind rs = (if rs = [] then None else Some (tr_error_kind (last rs)))"

text \<open>The state while the loop goes on, and when it has stopped, over the results of its runs.\<close>

definition going :: "'w bench \<Rightarrow> attempt_state \<Rightarrow> 'w bench \<Rightarrow> bool" where
  "going s0 a s =
     (\<exists>rs. b_results s = b_results s0 @ rs \<and> length rs \<le> a_iterations a \<and>
        b_calls s \<le> b_calls s0 + 3 * a_iterations a \<and> list_all rejected rs \<and>
        a_run_kind a = last_kind rs \<and> \<not> a_solved a \<and> a_error a = None \<and> \<not> a_llm_failed a)"

definition stopped :: "'w bench \<Rightarrow> attempt_state \<Rightarrow> 'w bench \<Rightarrow> bool" where
  "stopped s0 a s =
     (\<exists>rs. b_results s = b_results s0 @ rs \<and> length rs \<le> a_iterations a \<and>
        b_calls s \<le> b_calls s0 + 3 * a_iterations a \<and> list_all rejected (butlast rs) \<and>
        a_run_kind a = last_kind rs \<and>
        (if a_solved a then rs \<noteq> [] \<and> tr_passed (last rs) \<and> a_error a = None
         else a_error a \<noteq> None \<and>
           (if a_llm_failed a then list_all rejected rs
            else rs \<noteq> [] \<and> \<not> tr_passed (last rs) \<and> is_infra_result (last rs))))"

lemma going_goes:
  assumes "going s0 a s" and it: "iterate llm runner t attempt journal a s = (s1, Goes a1)"
  shows "going s0 a1 s1"
proof -
  obtain rs where g: "b_results s = b_results s0 @ rs" "length rs \<le> a_iterations a"
    "b_calls s \<le> b_calls s0 + 3 * a_iterations a" "list_all rejected rs" "a_run_kind a = last_kind rs"
    "\<not> a_solved a" "a_error a = None" "\<not> a_llm_failed a"
    using assms(1) unfolding going_def by blast
  have n: "a_iterations a1 = a_iterations a + 1" "b_calls s1 \<le> b_calls s + 3"
    using iterate_counts it by blast+
  show ?thesis
  proof (rule iterate_cases [OF disjI1 [OF it]])
    assume "b_results s1 = b_results s" "a_solved a1 = a_solved a" "a_error a1 = a_error a"
      "a_llm_failed a1 = a_llm_failed a" "a_run_kind a1 = a_run_kind a"
    with g n show ?thesis unfolding going_def by (intro exI [of _ rs]) simp
  next
    fix r
    assume "b_results s1 = b_results s @ [r]" "a_run_kind a1 = Some (tr_error_kind r)"
      "a_llm_failed a1 = a_llm_failed a" "a_solved a1 = (if tr_passed r then True else a_solved a)"
      "a_error a1 \<noteq> None \<longleftrightarrow> a_error a \<noteq> None \<or> \<not> tr_passed r \<and> is_infra_result r"
      "iterate llm runner t attempt journal a s = (s1, Goes a1) \<longleftrightarrow> \<not> tr_passed r \<and> \<not> is_infra_result r"
    with g n it show ?thesis unfolding going_def
      by (intro exI [of _ "rs @ [r]"]) (simp add: rejected_def last_kind_def)
  qed (use it in simp)
qed

lemma going_stops:
  assumes "going s0 a s" and it: "iterate llm runner t attempt journal a s = (s1, Stops a1)"
  shows "stopped s0 a1 s1"
proof -
  obtain rs where g: "b_results s = b_results s0 @ rs" "length rs \<le> a_iterations a"
    "b_calls s \<le> b_calls s0 + 3 * a_iterations a" "list_all rejected rs" "a_run_kind a = last_kind rs"
    "\<not> a_solved a" "a_error a = None" "\<not> a_llm_failed a"
    using assms(1) unfolding going_def by blast
  have n: "a_iterations a1 = a_iterations a + 1" "b_calls s1 \<le> b_calls s + 3"
    using iterate_counts it by blast+
  have bl: "list_all rejected (butlast rs)"
    using g(4) by (auto simp: list_all_iff dest: in_set_butlastD)
  show ?thesis
  proof (rule iterate_cases [OF disjI2 [OF it]])
    fix r
    assume "b_results s1 = b_results s @ [r]" "a_run_kind a1 = Some (tr_error_kind r)"
      "a_llm_failed a1 = a_llm_failed a" "a_solved a1 = (if tr_passed r then True else a_solved a)"
      "a_error a1 \<noteq> None \<longleftrightarrow> a_error a \<noteq> None \<or> \<not> tr_passed r \<and> is_infra_result r"
      "iterate llm runner t attempt journal a s = (s1, Goes a1) \<longleftrightarrow> \<not> tr_passed r \<and> \<not> is_infra_result r"
    with g n it show ?thesis unfolding stopped_def
      by (intro exI [of _ "rs @ [r]"]) (auto simp: last_kind_def)
  next
    assume "b_results s1 = b_results s" "a_llm_failed a1" "a_error a1 \<noteq> None"
      "a_solved a1 = a_solved a" "a_run_kind a1 = a_run_kind a"
    with g n bl show ?thesis unfolding stopped_def by (intro exI [of _ rs]) simp
  qed (use it in simp)
qed

lemma solve_attempt_ends:
  assumes "solve_attempt llm runner t cfg attempt journal s = (s', Returns r)"
  obtains a where "r = attempt_verdict t attempt (nat (sc_max_iterations cfg)) a"
    and "going s a s' \<and> a_iterations a = nat (sc_max_iterations cfg) \<or>
         stopped s a s' \<and> a_iterations a \<le> nat (sc_max_iterations cfg)"
proof -
  obtain a where loop: "attempt_loop llm runner t attempt journal (nat (sc_max_iterations cfg))
      (attempt_start t) s = (s', Returns a)"
    and r: "r = attempt_verdict t attempt (nat (sc_max_iterations cfg)) a"
    using assms by (auto simp: solve_attempt_def Let_def split: prod.splits outcome.splits)
  have "going s (attempt_start t) s" by (simp add: going_def attempt_start_def last_kind_def)
  from attempt_loop_rule [OF loop, of "going s" "stopped s", OF this] going_goes going_stops
  have "going s a s' \<and> a_iterations a = a_iterations (attempt_start t) + nat (sc_max_iterations cfg) \<or>
      stopped s a s' \<and> a_iterations a \<le> a_iterations (attempt_start t) + nat (sc_max_iterations cfg)"
    by blast
  then show thesis using that r by (simp add: attempt_start_def)
qed

text \<open>
  An attempt is bounded: it makes at most \<open>max_iterations\<close> iterations, one run of the code at most in
  each, and at most three calls of the model in each, whatever the model and the runner do.
\<close>

theorem solve_attempt_bounded:
  assumes "solve_attempt llm runner t cfg attempt journal s = (s', Returns r)"
  shows "int (ar_iterations r) \<le> max 0 (sc_max_iterations cfg) \<and>
    length (b_results s') - length (b_results s) \<le> ar_iterations r \<and>
    b_calls s' \<le> b_calls s + 3 * ar_iterations r"
proof -
  obtain a where r: "r = attempt_verdict t attempt (nat (sc_max_iterations cfg)) a"
    and e: "going s a s' \<and> a_iterations a = nat (sc_max_iterations cfg) \<or>
         stopped s a s' \<and> a_iterations a \<le> nat (sc_max_iterations cfg)"
    using solve_attempt_ends [OF assms] .
  have "length (b_results s') - length (b_results s) \<le> a_iterations a \<and>
      b_calls s' \<le> b_calls s + 3 * a_iterations a"
    using e by (auto simp: going_def stopped_def)
  with e show ?thesis by (auto simp: r attempt_verdict_def)
qed


text \<open>A model that first forgets the code block, and a runner that passes what it gets.\<close>

definition demo_answer :: string where
  "demo_answer = FENCE @ ''python'' @ ch 10 # ''x'' @ ch 10 # FENCE"

definition demo_llm :: "nat llm" where
  "demo_llm = (\<lambda>w msgs. (w + 1, Answers (PStr (if w = 0 then ''sorry, later'' else demo_answer))))"

definition demo_result :: task_result where
  "demo_result =
     \<lparr>tr_task = ''blink'', tr_passed = True, tr_exit_code = Some 0, tr_duration = 1, tr_serial_log = None,
      tr_missed = [], tr_hit_fail = [], tr_error = None, tr_error_kind = ERROR_NONE\<rparr>"

definition demo_runner :: "nat run_fun" where
  "demo_runner = (\<lambda>w n code. (w, Inr demo_result))"

definition demo_task :: task where
  "demo_task =
     \<lparr>t_name = ''blink'', t_description = ''blink a led'', t_scenario = None, t_entry = ''main.py'',
      t_timeout_sec = 30, t_expect = [''tick''], t_fail = [], t_stimulus = [], t_target = ''unix'',
      t_renode = [], t_noise = [], t_plant = [], t_mqtt = [], t_shim = [], t_events = [], t_tags = [],
      t_level = None, t_notes = [], t_boot_expect = [], t_device_modules = [], t_api_hint = []\<rparr>"

definition demo_config :: solve_config where
  "demo_config =
     \<lparr>sc_base_url = ''http://localhost'', sc_api_key = [], sc_model = ''m'', sc_max_iterations = 5,
      sc_temperature = Fin 0, sc_timeout_sec = 600, sc_allow_local = True, sc_max_tokens = 8192\<rparr>"

lemma demo_codes: "extract_code ''sorry, later'' = None" "extract_code demo_answer = Some (''x'' @ [ch 10])"
  by code_simp+

lemma demo_solved:
  "\<exists>s r. solve_attempt demo_llm demo_runner demo_task demo_config 1 False (bench_init 0) = (s, Returns r) \<and>
     ar_solved r \<and> ar_iterations r = 2 \<and> b_calls s = 2 \<and> b_results s = [demo_result]"
proof -
  have it1: "iterate demo_llm demo_runner demo_task 1 False (attempt_start demo_task) (bench_init 0) =
      ((bench_init 0)\<lparr>b_world := 1, b_calls := 1\<rparr>,
       Goes ((attempt_start demo_task)\<lparr>a_iterations := 1, a_messages := a_messages (attempt_start demo_task) @
         [(''assistant'', PStr ''sorry, later''), (''user'', NO_BLOCK_PROMPT)]\<rparr>))"
    by (simp add: iterate_def Let_def LLM_TRIES_def numeral_3_eq_3 demo_llm_def classify_call_def
        run_turn_def demo_codes bench_init_def attempt_start_def)
  have it2: "\<exists>s1 a1. iterate demo_llm demo_runner demo_task 1 False a ((bench_init 0)\<lparr>b_world := 1, b_calls := 1\<rparr>) =
      (s1, Stops a1) \<and> a_solved a1 \<and> a_iterations a1 = a_iterations a + 1 \<and> b_calls s1 = 2 \<and> b_results s1 = [demo_result]" for a
    by (simp add: iterate_def Let_def LLM_TRIES_def numeral_3_eq_3 demo_llm_def classify_call_def
        run_turn_def demo_codes bench_init_def demo_runner_def save_run_def judge_run_def demo_result_def)
  let ?a = "(attempt_start demo_task)\<lparr>a_iterations := 1, a_messages := a_messages (attempt_start demo_task) @
         [(''assistant'', PStr ''sorry, later''), (''user'', NO_BLOCK_PROMPT)]\<rparr>"
  obtain s1 a1 where it3: "iterate demo_llm demo_runner demo_task 1 False ?a
      ((bench_init 0)\<lparr>b_world := 1, b_calls := 1\<rparr>) = (s1, Stops a1)"
    and a1: "a_solved a1" "a_iterations a1 = a_iterations ?a + 1" "b_calls s1 = 2" "b_results s1 = [demo_result]"
    using it2 by blast
  have n: "nat (sc_max_iterations demo_config) = Suc (Suc 3)" by (simp add: demo_config_def)
  have "attempt_loop demo_llm demo_runner demo_task 1 False (Suc (Suc 3)) (attempt_start demo_task) (bench_init 0)
      = (s1, Returns a1)"
    by (simp only: attempt_loop.simps it1 it3 prod.case turn.case)
  then have "solve_attempt demo_llm demo_runner demo_task demo_config 1 False (bench_init 0)
      = (s1, Returns (attempt_verdict demo_task 1 (Suc (Suc 3)) a1))"
    by (simp only: solve_attempt_def Let_def n prod.case outcome.case)
  with a1 show ?thesis by (simp add: attempt_verdict_def)
qed

lemma solve_attempt_bounded_witness:
  "\<exists>s r. solve_attempt demo_llm demo_runner demo_task demo_config 1 False (bench_init 0) = (s, Returns r) \<and>
     b_calls s \<le> 6"
proof -
  obtain s r where run: "solve_attempt demo_llm demo_runner demo_task demo_config 1 False (bench_init 0) = (s, Returns r)"
    and n: "ar_iterations r = 2"
    using demo_solved by blast
  with solve_attempt_bounded [OF run] show ?thesis by (intro exI [of _ s] exI [of _ r]) (simp add: bench_init_def)
qed


section \<open>What leaves an attempt as an exception\<close>

lemma ask_raises:
  "ask llm msgs n s = (s', AskRaises e) \<Longrightarrow> \<exists>w w'. llm w msgs = (w', LlmRaises e) \<and> \<not> catches TRANSIENT e"
proof (induction n arbitrary: s)
  case (Suc n)
  obtain w oc where call: "llm (b_world s) msgs = (w, oc)" by (cases "llm (b_world s) msgs")
  show ?case
  proof (cases "classify_call oc")
    case (CRaises x)
    then have "oc = LlmRaises x \<and> \<not> catches TRANSIENT x"
      by (auto simp: classify_call_def split: llm_outcome.splits if_splits)
    with Suc.prems call CRaises show ?thesis by (auto simp: Let_def)
  next
    case (CTransient m)
    with Suc call show ?thesis by (auto simp: Let_def split: if_splits)
  qed (use Suc.prems call in \<open>auto simp: Let_def\<close>)
qed simp

lemma ask_aborts: "ask llm msgs n s = (s', ConfigAbort code m) \<Longrightarrow> code \<in> {400, 401, 403, 404}"
proof (induction n arbitrary: s)
  case (Suc n)
  obtain w oc where call: "llm (b_world s) msgs = (w, oc)" by (cases "llm (b_world s) msgs")
  have "classify_call oc = CAbort c x \<Longrightarrow> c \<in> {400, 401, 403, 404}" for c x
    by (auto simp: classify_call_def split: llm_outcome.splits if_splits)
  with Suc call show ?case by (fastforce simp: Let_def split: call_class.splits if_splits)
qed simp

text \<open>
  C1. What aborts a campaign is exactly stated: \<open>SystemExit\<close> leaves an attempt only for the HTTP status codes 400,
  401, 403 and 404; an exception leaves it only if the model raised one outside the classes that count as
  transient, the model's content was no text, or the runner raised it.
\<close>

theorem solve_attempt_escapes:
  "(snd (solve_attempt llm runner t cfg attempt journal s) = Exits code m \<longrightarrow> code \<in> {400, 401, 403, 404}) \<and>
   (snd (solve_attempt llm runner t cfg attempt journal s) = Raises e \<longrightarrow>
      (\<exists>w msgs w'. llm w msgs = (w', LlmRaises e) \<and> \<not> catches TRANSIENT e) \<or>
      eclass e = TypeErr \<or>
      (\<exists>w n c w'. runner w n c = (w', Inl e)))"
proof -
  let ?E = "(\<exists>w msgs w'. llm w msgs = (w', LlmRaises e) \<and> \<not> catches TRANSIENT e) \<or>
      eclass e = TypeErr \<or> (\<exists>w n c w'. runner w n c = (w', Inl e))"
  have it: "(snd (iterate llm runner t attempt journal a s) = TurnAborts code m \<longrightarrow> code \<in> {400, 401, 403, 404}) \<and>
      (snd (iterate llm runner t attempt journal a s) = TurnRaises e \<longrightarrow> ?E)" for a s
  proof -
    obtain s1 q where q: "ask llm (a_messages a) LLM_TRIES s = (s1, q)"
      by (cases "ask llm (a_messages a) LLM_TRIES s")
    show ?thesis
    proof (cases q)
      case (Got v)
      with q show ?thesis
        by (auto simp: iterate_def Let_def run_turn_def judge_run_def
            split: pyval.splits option.splits prod.splits sum.splits if_splits)
    next
      case (ConfigAbort c x)
      with q ask_aborts [of llm "a_messages a" LLM_TRIES s s1 c x] show ?thesis
        by (auto simp: iterate_def Let_def)
    next
      case (AskRaises x)
      with q ask_raises [of llm "a_messages a" LLM_TRIES s s1 x] show ?thesis
        by (auto simp: iterate_def Let_def)
    qed (use q in \<open>simp add: iterate_def Let_def\<close>)
  qed
  have "(snd (attempt_loop llm runner t attempt journal n a s) = Exits code m \<longrightarrow> code \<in> {400, 401, 403, 404}) \<and>
      (snd (attempt_loop llm runner t attempt journal n a s) = Raises e \<longrightarrow> ?E)" for n a s
  proof (induction n arbitrary: a s)
    case (Suc n)
    obtain s1 q where q: "iterate llm runner t attempt journal a s = (s1, q)"
      by (cases "iterate llm runner t attempt journal a s")
    with it [of a s] Suc show ?case by (cases q) auto
  qed simp
  then show ?thesis
    by (simp add: solve_attempt_def Let_def split: prod.split outcome.split) (metis snd_conv)
qed

text \<open>A reply without a message object is no transient failure.\<close>

definition null_message :: pyval where
  "null_message = PDict [(''choices'', PList [PDict [(''message'', PNone)]])]"

text \<open>
  A malformed reply can crash the campaign: when the server answers with \<open>"message": null\<close>, the
  \<open>AttributeError\<close> of reading it is none of the caught classes and leaves the attempt as an exception, although
  a broken reply is meant to end only the attempt.
\<close>

theorem null_message_crashes:
  assumes "1 \<le> sc_max_iterations cfg"
  shows "\<exists>m. snd (solve_attempt (\<lambda>w msgs. (w, chat_outcome null_message)) runner t cfg attempt journal s)
    = Raises (Exn AttributeErr m)"
proof -
  let ?llm = "\<lambda>w msgs. (w, chat_outcome null_message)"
  obtain m where oc: "chat_outcome null_message = LlmRaises (Exn AttributeErr m)"
    by (simp add: chat_outcome_def parse_reply_def null_message_def bind_sum_def item_of_def first_of_def
        parse_content_def get_of_def)
  have "\<not> catches TRANSIENT (Exn AttributeErr m)"
    by (simp add: catches_def TRANSIENT_def exn_is_def)
  with oc have "classify_call (chat_outcome null_message) = CRaises (Exn AttributeErr m)"
    by (simp add: classify_call_def)
  then have "snd (iterate ?llm runner t attempt journal a s) = TurnRaises (Exn AttributeErr m)" for a s
    by (simp add: iterate_def LLM_TRIES_def numeral_3_eq_3 Let_def)
  moreover obtain n where "nat (sc_max_iterations cfg) = Suc n"
    using assms by (metis Suc_pred zero_less_nat_eq zero_less_one order_less_le_trans)
  ultimately show ?thesis
    by (simp add: solve_attempt_def Let_def split: prod.split turn.split) (metis snd_conv turn.distinct turn.inject)
qed

lemma null_message_crashes_witness:
  "\<exists>m. snd (solve_attempt (\<lambda>w msgs. (w, chat_outcome null_message)) demo_runner demo_task demo_config 1 False
      (bench_init 0)) = Raises (Exn AttributeErr m)"
  by (rule null_message_crashes) (simp add: demo_config_def)

end
