(* ===== verification/PlantRun.thy ===== *)
theory PlantRun
  imports Plant RunnerCommon
begin

text \<open>
  The runner of the plant target (\<open>src/ironbench/runner_plant.py\<close>): the bounded pump of the
  controller's answers, the capped pump of its stderr, the control adapter over the pipes and
  the verdict. What the controller process does is a list of observations, one for each step of the loop.
\<close>

section \<open>The answer pump\<close>

text \<open>The queue of answers between the pump thread and the loop: the producer puts lines and
  finally the end marker, dropping the oldest entry when full; the consumer takes from the front.
  \<open>aq_removed\<close>, what left the queue, with whether it was dropped, is ghost state.\<close>

record answer_queue =
  aq_items :: "string option list"
  aq_dropped :: nat
  aq_removed :: "(bool \<times> string option) list"

datatype queue_op = Produce string | EndOfFile | Consume

definition put_bounded :: "nat \<Rightarrow> string option \<Rightarrow> answer_queue \<Rightarrow> answer_queue" where
  "put_bounded max_lines x s =
     (if length (aq_items s) \<ge> max_lines
      then s\<lparr>aq_items := tl (aq_items s) @ [x], aq_dropped := aq_dropped s + 1,
             aq_removed := aq_removed s @ [(True, hd (aq_items s))]\<rparr>
      else s\<lparr>aq_items := aq_items s @ [x]\<rparr>)"

fun queue_step :: "nat \<Rightarrow> queue_op \<Rightarrow> answer_queue \<Rightarrow> answer_queue" where
  "queue_step m (Produce l) s = put_bounded m (Some l) s"
| "queue_step m EndOfFile s = put_bounded m None s"
| "queue_step m Consume s =
     (case aq_items s of [] \<Rightarrow> s
      | x # q \<Rightarrow> s\<lparr>aq_items := q, aq_removed := aq_removed s @ [(False, x)]\<rparr>)"

definition queue_init :: answer_queue where
  "queue_init = \<lparr>aq_items = [], aq_dropped = 0, aq_removed = []\<rparr>"

definition pump_lines :: "nat \<Rightarrow> queue_op list \<Rightarrow> answer_queue" where
  "pump_lines m ops = fold (queue_step m) ops queue_init"

section \<open>The stderr pump\<close>

text \<open>\<open>splitlines(keepends=True)\<close> and the \<open>while\<close> loop that pops unterminated lines off its end; the
  line popped last is what is kept as the partial line.\<close>

function split_keep :: "string \<Rightarrow> string \<Rightarrow> string list" where
  "split_keep cur [] = (if cur = [] then [] else [cur])"
| "split_keep cur (c # cs) =
     (let b = boundary (c # cs) in
      if b = 0 then split_keep (cur @ [c]) cs
      else (cur @ take b (c # cs)) # split_keep [] (drop b (c # cs)))"
  by pat_completeness auto
termination
  by (relation "measure (\<lambda>(_, s). length s)") auto

definition terminated :: "string \<Rightarrow> bool" where
  "terminated l = (l \<noteq> [] \<and> (last l = ch 10 \<or> last l = ch 13))"

text \<open>The lines come reversed: the last line is first.\<close>

fun pop_partial :: "string list \<Rightarrow> string \<Rightarrow> string list \<times> string" where
  "pop_partial [] partial = ([], partial)"
| "pop_partial (l # ls) partial = (if terminated l then (l # ls, partial) else pop_partial ls l)"

definition stderr_chunk :: "string \<Rightarrow> string \<Rightarrow> string list \<times> string" where
  "stderr_chunk partial chunk =
     (case pop_partial (rev (split_keep [] (partial @ chunk))) [] of (ls, p) \<Rightarrow> (rev ls, p))"

text \<open>The chunks the reads return; an empty list is the end of the stream.\<close>

fun pump_stderr :: "nat \<Rightarrow> nat \<Rightarrow> string \<Rightarrow> string list \<Rightarrow> string list" where
  "pump_stderr max_bytes n partial chunks =
     (if n < max_bytes then
        (case chunks of
           [] \<Rightarrow> (if partial = [] then [] else [partial])
         | c # cs \<Rightarrow>
             (case stderr_chunk partial c of (ls, p) \<Rightarrow>
               ls @ pump_stderr max_bytes (n + length c) p cs))
      else if partial = [] then [] else [partial])"

declare pump_stderr.simps [simp del]

section \<open>The control adapter\<close>

text \<open>What one turn of the waiting loop sees; a list that ends is the wall deadline.\<close>

datatype get_turn = QueueStaysEmpty | Item "string option"

record step_obs =
  so_overflow :: bool
  so_broken :: bool
  so_flood :: nat
  so_death :: pyval
  so_turns :: "get_turn list"

definition abort_run :: "pyval \<Rightarrow> answer" where
  "abort_run m = Aborts m ''run''"

fun await_answer :: "real \<Rightarrow> pyval \<Rightarrow> get_turn list \<Rightarrow> answer" where
  "await_answer t death [] = Aborts (PStr ''controller did not answer (wall limit exceeded)'') ''timeout''"
| "await_answer t death (QueueStaysEmpty # ts) = await_answer t death ts"
| "await_answer t death (Item None # ts) = abort_run death"
| "await_answer t death (Item (Some l) # ts) =
     (case py_float l of
        Some (Fin q) \<Rightarrow> Returns (RFloat (of_rat q))
      | Some f \<Rightarrow> Returns (RNonFinite f)
      | None \<Rightarrow> abort_run (PFStr [PStr ''controller returned a non-number '', PRepr (PStr (take 60 (strip l)))]))"

definition flood_message :: "nat \<Rightarrow> pyval" where
  "flood_message n =
     PFStr [PStr ''controller flooded the answer channel: '', PInt (int n), PStr '' unread stdout line(s) dropped'']"

text \<open>One call of \<open>ipc_control\<close>: the state is the observations still to come.\<close>

definition ipc_control :: "step_obs list controller" where
  "ipc_control obs t y sp =
     (case obs of
        [] \<Rightarrow> ([], await_answer t PNone [])
      | so # rest \<Rightarrow>
          (rest,
           if so_overflow so then abort_run (PStr ''controller does not read stdin: the setpoint write backlog exceeded the 1 MiB cap'')
           else if so_broken so then abort_run (so_death so)
           else if so_flood so > 0 then abort_run (flood_message (so_flood so))
           else await_answer t (so_death so) (so_turns so)))"

section \<open>The verdict\<close>

text \<open>What the runner sees of the process besides its answers: the flood counter after the loop and
  at the end, the exit code from \<open>wait\<close> and from the final \<open>poll\<close>, and the captured stderr.\<close>

record plant_run_obs =
  po_entry_exists :: bool
  po_steps :: "step_obs list"
  po_flood_loop :: nat
  po_flood_final :: nat
  po_wait_exit :: "int option"
  po_poll_exit :: "int option"
  po_stderr :: "string list"
  po_duration :: rat

text \<open>Number formatting is a parameter: the message of a loop error and of a missed requirement,
  and the text of the log.\<close>

record plant_format =
  pf_loop_error :: "loop_error \<Rightarrow> pyval"
  pf_missed :: "missed \<Rightarrow> pyval"
  pf_log :: "log_line list \<Rightarrow> string"

type_synonym verdict_state = "row list \<times> pyval option \<times> string"

definition after_loop :: "plant_format \<Rightarrow> plant_run_obs \<Rightarrow> loop_result \<Rightarrow> exn + verdict_state" where
  "after_loop fmt po lr =
     (case lr of
        LoopRaise e \<Rightarrow> Inl e
      | LoopAbort m kind \<Rightarrow> Inr ([], Some m, if kind = ''timeout'' then ERROR_TIMEOUT else ERROR_RUN)
      | LoopRows rows (Some err) \<Rightarrow> Inr (rows, Some (pf_loop_error fmt err), ERROR_NONE)
      | LoopRows rows None \<Rightarrow>
          (if po_flood_loop po > 0
           then Inr (rows, Some (flood_message (po_flood_loop po)), ERROR_RUN)
           else Inr (rows, None, ERROR_NONE)))"

definition loop_waited :: "plant_run_obs \<Rightarrow> loop_result \<Rightarrow> bool" where
  "loop_waited po lr = (case lr of LoopRows rows None \<Rightarrow> po_flood_loop po = 0 | _ \<Rightarrow> False)"

definition final_exit :: "plant_run_obs \<Rightarrow> loop_result \<Rightarrow> int option" where
  "final_exit po lr =
     (if loop_waited po lr \<and> po_wait_exit po \<noteq> None then po_wait_exit po else po_poll_exit po)"

definition settle_error :: "plant_run_obs \<Rightarrow> loop_result \<Rightarrow> pyval option \<times> string \<Rightarrow> pyval option \<times> string" where
  "settle_error po lr ek =
     (case ek of
        (Some e, k) \<Rightarrow> (Some e, k)
      | (None, k) \<Rightarrow>
          if po_flood_final po > 0 then (Some (flood_message (po_flood_final po)), ERROR_RUN)
          else if final_exit po lr \<notin> {Some 0, None}
            then (Some (PFStr [PStr ''controller process exited with code '', opt_val PInt (final_exit po lr)]), ERROR_RUN)
            else (None, k))"

definition run_plant ::
  "(string \<Rightarrow> bytes) \<Rightarrow> plant_format \<Rightarrow> (string \<Rightarrow> string \<Rightarrow> bool) \<Rightarrow> string \<Rightarrow> string list \<Rightarrow> string list
   \<Rightarrow> plant_spec \<Rightarrow> plant_run_obs \<Rightarrow> exn + task_result" where
  "run_plant sha256 fmt search name expect fail sp po =
     (if \<not> po_entry_exists po then
        Inr \<lparr>tr_task = name, tr_passed = False, tr_exit_code = None, tr_duration = 0, tr_serial_log = None,
             tr_missed = map PStr expect, tr_hit_fail = [],
             tr_error = Some (PStr ''not found: entry file not found''), tr_error_kind = ERROR_INFRA\<rparr>
      else
        (case run_closed_loop sha256 ipc_control sp (po_steps po) of (_, lr) \<Rightarrow>
         case after_loop fmt po lr of
           Inl e \<Rightarrow> Inl e
         | Inr (rows, err0, kind0) \<Rightarrow>
             (case settle_error po lr (err0, kind0) of (err, kind) \<Rightarrow>
               let m = compute_metrics rows sp;
                   missed = (case m of None \<Rightarrow> [] | Some x \<Rightarrow> check_requirements x (ps_requirements sp));
                   log = pf_log fmt (render_log sp rows m missed err (concat (po_stderr po))) in
               (case check_patterns search log expect fail of (missed_patterns, hit_fail) \<Rightarrow>
                 Inr \<lparr>tr_task = name,
                      tr_passed = (missed = [] \<and> missed_patterns = [] \<and> hit_fail = [] \<and> err = None),
                      tr_exit_code = final_exit po lr, tr_duration = po_duration po,
                      tr_serial_log = Some log,
                      tr_missed = map (pf_missed fmt) missed @ map PStr missed_patterns,
                      tr_hit_fail = hit_fail, tr_error = err, tr_error_kind = kind\<rparr>))))"

section \<open>The answer pump keeps its bound\<close>

definition produced :: "queue_op list \<Rightarrow> string option list" where
  "produced ops = concat (map (\<lambda>op. case op of Produce l \<Rightarrow> [Some l] | EndOfFile \<Rightarrow> [None] | Consume \<Rightarrow> []) ops)"

lemma pump_lines_snoc: "pump_lines m (ops @ [op]) = queue_step m op (pump_lines m ops)"
  by (simp add: pump_lines_def)

lemma pump_lines_inv:
  assumes "0 < m"
  shows "length (aq_items (pump_lines m ops)) \<le> m \<and>
    map snd (aq_removed (pump_lines m ops)) @ aq_items (pump_lines m ops) = produced ops \<and>
    aq_dropped (pump_lines m ops) = length (filter fst (aq_removed (pump_lines m ops)))"
proof (induction ops rule: rev_induct)
  case Nil
  show ?case by (simp add: pump_lines_def queue_init_def produced_def)
next
  case (snoc op ops)
  let ?s = "pump_lines m ops"
  have ne: "m \<le> length (aq_items ?s) \<Longrightarrow> aq_items ?s \<noteq> []" using assms by auto
  have pr: "produced (ops @ [op]) = produced ops @ produced [op]" by (simp add: produced_def)
  show ?case
  proof (cases op)
    case Consume
    with snoc pr show ?thesis
      by (cases "aq_items ?s") (auto simp: pump_lines_snoc produced_def)
  next
    case (Produce l)
    with snoc pr ne assms show ?thesis
      by (cases "aq_items ?s") (auto simp: pump_lines_snoc put_bounded_def produced_def)
  next
    case EndOfFile
    with snoc pr ne assms show ?thesis
      by (cases "aq_items ?s") (auto simp: pump_lines_snoc put_bounded_def produced_def)
  qed
qed

text \<open>
  The answer queue is bounded and honest: whatever the controller prints and whenever the loop
  reads, at most \<open>max_lines\<close> entries are held, what left the queue and what it holds are the lines produced, in
  order, the counter is the number of lines dropped, and the end marker is never the one dropped.
\<close>

theorem pump_lines_bounded:
  assumes "0 < max_lines" and "EndOfFile \<notin> set ops" and "\<forall>op \<in> set later. op = Consume"
  shows "let s = pump_lines max_lines (ops @ EndOfFile # later) in
    length (aq_items s) \<le> max_lines \<and>
    map snd (aq_removed s) @ aq_items s = produced ops @ [None] \<and>
    aq_dropped s = length (filter fst (aq_removed s)) \<and>
    (None \<in> set (aq_items s) \<or> (False, None) \<in> set (aq_removed s))"
proof -
  let ?s1 = "pump_lines max_lines (ops @ [EndOfFile])"
  have prod: "produced (ops @ EndOfFile # later) = produced ops @ [None]"
    using assms(3) by (auto simp: produced_def)
  have "None \<in> set (aq_items (pump_lines max_lines ((ops @ [EndOfFile]) @ later))) \<or>
      (False, None) \<in> set (aq_removed (pump_lines max_lines ((ops @ [EndOfFile]) @ later)))"
    using assms(3)
  proof (induction later rule: rev_induct)
    case Nil
    show ?case by (simp add: pump_lines_snoc put_bounded_def)
  next
    case (snoc op later)
    let ?t = "pump_lines max_lines ((ops @ [EndOfFile]) @ later)"
    have "pump_lines max_lines ((ops @ [EndOfFile]) @ later @ [op]) = queue_step max_lines Consume ?t"
      using snoc.prems pump_lines_snoc [of max_lines "(ops @ [EndOfFile]) @ later" op] by simp
    with snoc show ?case by (cases "aq_items ?t") auto
  qed
  with pump_lines_inv [OF assms(1), of "ops @ EndOfFile # later"] show ?thesis
    by (simp add: Let_def prod)
qed

lemma pump_lines_bounded_witness:
  "aq_items (pump_lines 2 [Produce ''1'', Produce ''2'', EndOfFile]) = [Some ''2'', None] \<and>
   aq_dropped (pump_lines 2 [Produce ''1'', Produce ''2'', EndOfFile]) = 1"
  using pump_lines_bounded [of 2 "[Produce ''1'', Produce ''2'']" "[]"]
  by (simp add: pump_lines_def queue_init_def put_bounded_def produced_def)

section \<open>The stderr pump\<close>

text \<open>
  The stderr pump can lose text: a line boundary other than a line feed or carriage return
  counts as an unterminated line of its own, and popping it overwrites the partial line popped before it, so of
  the output \<open>a\f b\<close> only the part up to the form feed is kept.
\<close>

theorem stderr_loses_text:
  "concat (pump_stderr 262144 0 [] [[CHR ''a'', ch 12, CHR ''b'']]) = [CHR ''a'', ch 12]"
proof -
  have "stderr_chunk [] [CHR ''a'', ch 12, CHR ''b''] = ([], [CHR ''a'', ch 12])" by code_simp
  then show ?thesis by (simp add: pump_stderr.simps)
qed

lemma concat_split_keep: "concat (split_keep cur s) = cur @ s"
proof (induction cur s rule: split_keep.induct)
  case (2 cur c cs)
  then show ?case by (cases "boundary (c # cs) = 0") (auto simp: Let_def simp del: boundary.simps)
qed simp

text \<open>Text whose only line boundaries are line feed and carriage return.\<close>

definition simple_text :: "string \<Rightarrow> bool" where
  "simple_text s = list_all (\<lambda>c. plain_char c \<or> c = ch 10 \<or> c = ch 13) s"

lemma boundary_simple:
  assumes "simple_text (c # cs)" and "boundary (c # cs) \<noteq> 0"
  shows "terminated (cur @ take (boundary (c # cs)) (c # cs))"
proof -
  have "c = ch 10 \<or> c = ch 13"
    using assms boundary_plain [of c cs] by (auto simp: simple_text_def)
  then show ?thesis
    by (cases cs) (auto simp: terminated_def Let_def ch_def)
qed

lemma simple_text_drop: "simple_text s \<Longrightarrow> simple_text (drop n s)"
  by (auto simp: simple_text_def list_all_iff dest: in_set_dropD)

lemma split_keep_simple:
  "simple_text s \<Longrightarrow> \<exists>ls l. split_keep cur s = ls @ l \<and> list_all terminated ls \<and> length l \<le> 1"
proof (induction cur s rule: split_keep.induct)
  case (1 cur)
  show ?case by (rule exI [of _ "[]"]) simp
next
  case (2 cur c cs)
  show ?case
  proof (cases "boundary (c # cs) = 0")
    case True
    with 2 show ?thesis by (simp add: simple_text_def Let_def del: boundary.simps)
  next
    case False
    let ?b = "boundary (c # cs)"
    have "simple_text (drop ?b (c # cs))"
      using 2(3) by (rule simple_text_drop)
    with 2(2) False obtain ls l where "split_keep [] (drop ?b (c # cs)) = ls @ l" "list_all terminated ls" "length l \<le> 1"
      by meson
    then show ?thesis
      using False boundary_simple [OF 2(3) False, of cur]
      by (intro exI [of _ "(cur @ take ?b (c # cs)) # ls"] exI [of _ l])
        (simp add: Let_def del: boundary.simps)
  qed
qed

lemma pop_partial_terminated: "list_all terminated ls \<Longrightarrow> pop_partial ls p = (ls, p)"
  by (cases ls) simp_all

lemma stderr_chunk_simple:
  assumes "simple_text (partial @ chunk)" and "stderr_chunk partial chunk = (ls, p)"
  shows "concat ls @ p = partial @ chunk"
proof -
  obtain us l where sp: "split_keep [] (partial @ chunk) = us @ l" "list_all terminated us" "length l \<le> 1"
    using split_keep_simple [OF assms(1)] by blast
  have cc: "concat us @ concat l = partial @ chunk" using concat_split_keep [of "[]" "partial @ chunk"] sp(1) by simp
  have ur: "list_all terminated (rev us)" using sp(2) by (simp add: list_all_iff)
  show ?thesis
  proof (cases l)
    case Nil
    with assms(2) sp(1) cc pop_partial_terminated [OF ur] show ?thesis by (auto simp: stderr_chunk_def)
  next
    case (Cons x xs)
    with sp(3) have l: "l = [x]" by simp
    then have "concat us @ x = partial @ chunk" using cc by simp
    then show ?thesis
      using assms(2) pop_partial_terminated [OF ur]
      by (auto simp: stderr_chunk_def sp(1) l split: if_splits)
  qed
qed

lemma simple_text_append: "simple_text (a @ b) \<longleftrightarrow> simple_text a \<and> simple_text b"
  by (simp add: simple_text_def)

lemma pump_stderr_simple:
  "simple_text (partial @ concat chunks) \<Longrightarrow>
   \<exists>k. concat (pump_stderr m n partial chunks) = partial @ concat (take k chunks) \<and> k \<le> length chunks \<and>
       (k = length chunks \<or> m \<le> n + length (concat (take k chunks))) \<and>
       (k \<noteq> 0 \<longrightarrow> n + length (concat (take (k - 1) chunks)) < m)"
proof (induction chunks arbitrary: n partial)
  case Nil
  show ?case by (simp add: pump_stderr.simps)
next
  case (Cons c cs)
  show ?case
  proof (cases "n < m")
    case False
    then show ?thesis by (intro exI [of _ 0]) (simp add: pump_stderr.simps)
  next
    case True
    obtain ls p where ch: "stderr_chunk partial c = (ls, p)" by (cases "stderr_chunk partial c")
    have eq: "concat ls @ p = partial @ c"
      using stderr_chunk_simple [OF _ ch] Cons.prems by (simp add: simple_text_append)
    have "simple_text (p @ concat cs)"
      using Cons.prems eq by (metis append_assoc concat.simps(2) simple_text_append)
    from Cons.IH [OF this, of "n + length c"] obtain k where
      k: "concat (pump_stderr m (n + length c) p cs) = p @ concat (take k cs)" "k \<le> length cs"
        "k = length cs \<or> m \<le> n + length c + length (concat (take k cs))"
        "k \<noteq> 0 \<longrightarrow> n + length c + length (concat (take (k - 1) cs)) < m"
      by blast
    have "concat (pump_stderr m n partial (c # cs)) = partial @ concat (take (Suc k) (c # cs))"
      using True ch k(1) eq by (subst pump_stderr.simps) simp
    moreover have "n + length (concat (take k (c # cs))) < m" using k(4) True by (cases k) simp_all
    ultimately show ?thesis using k(2,3) by (intro exI [of _ "Suc k"]) (simp add: add.assoc)
  qed
qed

text \<open>
  Otherwise the stderr pump is exact: of output whose lines end in line feeds and carriage returns it
  keeps the chunks read unchanged, reads on until the cap, and holds less than the cap and one chunk.
\<close>

theorem stderr_kept:
  assumes "simple_text (concat chunks)" and "\<forall>c \<in> set chunks. length c \<le> 8192" and "0 < max_bytes"
  shows "\<exists>k. concat (pump_stderr max_bytes 0 [] chunks) = concat (take k chunks) \<and>
    (k < length chunks \<longrightarrow> max_bytes \<le> length (concat (take k chunks))) \<and>
    length (concat (take k chunks)) < max_bytes + 8192"
proof -
  obtain k where k: "concat (pump_stderr max_bytes 0 [] chunks) = concat (take k chunks)"
    "k = length chunks \<or> max_bytes \<le> length (concat (take k chunks))" "k \<le> length chunks"
    "k \<noteq> 0 \<longrightarrow> length (concat (take (k - 1) chunks)) < max_bytes"
    using pump_stderr_simple [of "[]" chunks max_bytes 0] assms(1) by auto
  have "length (concat (take k chunks)) < max_bytes + 8192"
  proof (cases k)
    case (Suc j)
    with k(3) have "take k chunks = take j chunks @ [chunks ! j]" "chunks ! j \<in> set chunks"
      by (simp_all add: take_Suc_conv_app_nth)
    with k(4) Suc assms(2) show ?thesis by fastforce
  qed (use assms(3) in simp)
  with k show ?thesis by auto
qed

lemma stderr_kept_witness:
  "\<exists>k. concat (pump_stderr 262144 0 [] [''a'']) = concat (take k [''a'']) \<and> (k < 1 \<longrightarrow> k = 1)"
proof -
  have "simple_text (concat [''a''])" by code_simp
  moreover have "\<forall>c \<in> set [''a'']. length c \<le> 8192" by simp
  ultimately obtain k where "concat (pump_stderr 262144 0 [] [''a'']) = concat (take k [''a''])"
    "k < length [''a''] \<longrightarrow> 262144 \<le> length (concat (take k [''a'']))"
    using stderr_kept [of "[''a'']" 262144] by auto
  then show ?thesis by (intro exI [of _ k]) (cases k; simp)
qed

section \<open>The verdict is exact\<close>

text \<open>
  C29. A plant task passes exactly when the loop ran to its end without an error, no answer line was dropped,
  the controller exited with code 0 or was still running, every requirement is met on the recorded rows, and the log
  has every expected pattern and no failure pattern; the result then covers all steps of the run.
\<close>

theorem run_plant_passed:
  assumes run: "run_plant sha256 fmt search name expect fail sp po = Inr r" and dt: "0 \<le> ps_dt sp"
  shows "tr_passed r \<longleftrightarrow> po_entry_exists po \<and>
    (\<exists>c rows m log. run_closed_loop sha256 ipc_control sp (po_steps po) = (c, LoopRows rows None) \<and>
       length rows = loop_count sp \<and>
       po_flood_loop po = 0 \<and> po_flood_final po = 0 \<and>
       tr_exit_code r \<in> {Some 0, None} \<and>
       compute_metrics rows sp = Some m \<and> check_requirements m (ps_requirements sp) = [] \<and>
       tr_serial_log r = Some log \<and> (\<forall>p \<in> set expect. search p log) \<and> (\<forall>p \<in> set fail. \<not> search p log))"
proof (cases "po_entry_exists po")
  case False
  with run show ?thesis by (auto simp: run_plant_def)
next
  case True
  obtain c lr where lp: "run_closed_loop sha256 ipc_control sp (po_steps po) = (c, lr)"
    by (cases "run_closed_loop sha256 ipc_control sp (po_steps po)")
  have cnt: "0 < loop_count sp" by (simp add: loop_count_def)
  show ?thesis
  proof (cases "\<exists>rows. lr = LoopRows rows None")
    case False
    with True run lp have "tr_error r \<noteq> None"
      by (auto simp: run_plant_def after_loop_def settle_error_def check_patterns_def Let_def
          split: loop_result.splits option.splits)
    moreover have "tr_passed r \<longrightarrow> tr_error r = None"
      using True run lp
      by (auto simp: run_plant_def check_patterns_def Let_def split: sum.splits prod.splits)
    ultimately show ?thesis using False lp by auto
  next
    case ok: True
    then obtain rows where rows: "lr = LoopRows rows None" by blast
    have len: "length rows = loop_count sp" using run_traced [OF lp [unfolded rows] dt] by blast
    with cnt have "compute_metrics rows sp \<noteq> None" by (auto simp: compute_metrics_def Let_def)
    then obtain m where m: "compute_metrics rows sp = Some m" by blast
    show ?thesis
      using True run lp rows len m
      by (auto simp: run_plant_def after_loop_def settle_error_def check_patterns_def Let_def
          filter_empty_conv split: if_splits)
  qed
qed

text \<open>
  A controller error inside the loop is reported without its class: when the loop ends with a value that is
  no finite number, the result carries the error but the kind \<open>none\<close>, which means no error, instead
  of \<open>run\<close>.
\<close>

theorem run_plant_loop_error_unclassified:
  assumes "run_closed_loop sha256 ipc_control sp (po_steps po) = (c, LoopRows rows (Some err))"
    and "po_entry_exists po"
  shows "\<exists>r. run_plant sha256 fmt search name expect fail sp po = Inr r \<and> \<not> tr_passed r \<and>
    tr_error r = Some (pf_loop_error fmt err) \<and> tr_error_kind r = ERROR_NONE"
  using assms by (simp add: run_plant_def after_loop_def settle_error_def check_patterns_def Let_def)

definition nan_obs :: plant_run_obs where
  "nan_obs =
     \<lparr>po_entry_exists = True,
      po_steps = [\<lparr>so_overflow = False, so_broken = False, so_flood = 0, so_death = PNone,
                   so_turns = [Item (Some ''nan'')]\<rparr>],
      po_flood_loop = 0, po_flood_final = 0, po_wait_exit = None, po_poll_exit = Some 0,
      po_stderr = [], po_duration = 0\<rparr>"

lemma nan_run:
  "run_closed_loop (\<lambda>_. []) ipc_control demo_plant (po_steps nan_obs) =
     ([], LoopRows [] (Some (ControllerNonNumber (RNonFinite NaN) 0)))"
proof -
  have "py_float ''nan'' = Some NaN" by code_simp
  then show ?thesis
    by (simp add: run_closed_loop_def run_loop_def loop_count_def demo_plant_def py_round_def Let_def
        loop_start_def sorted_events_def noise_init_def loop_body_def gauss_def ipc_control_def
        nan_obs_def numeral_2_eq_2)
qed

lemma run_plant_loop_error_unclassified_witness:
  "\<exists>r. run_plant (\<lambda>_. []) \<lparr>pf_loop_error = \<lambda>_. PNone, pf_missed = \<lambda>_. PNone, pf_log = \<lambda>_. []\<rparr>
      (\<lambda>_ _. False) ''p'' [] [] demo_plant nan_obs = Inr r \<and> tr_error r \<noteq> None \<and> tr_error_kind r = ERROR_NONE"
  using run_plant_loop_error_unclassified [OF nan_run] by (fastforce simp: nan_obs_def)

text \<open>A controller that answers one step of a plant that starts at its setpoint.\<close>

definition easy_plant :: plant_spec where
  "easy_plant = demo_plant\<lparr>ps_y0 := 5, ps_duration := 1\<rparr>"

definition easy_obs :: plant_run_obs where
  "easy_obs = nan_obs\<lparr>po_steps :=
     [\<lparr>so_overflow = False, so_broken = False, so_flood = 0, so_death = PNone,
       so_turns = [QueueStaysEmpty, Item (Some ''1'')]\<rparr>]\<rparr>"

lemma easy_run:
  "run_closed_loop (\<lambda>_. []) ipc_control easy_plant (po_steps easy_obs) =
     ([], LoopRows [(0, 5, 5, 1)] None)"
proof -
  have "to_double 1 = Fin 1" by (simp add: to_double_def)
  moreover have "unsigned_float ''1'' = map_option to_double (decimal ''1'')" by (simp add: unsigned_float_def)
  moreover have "decimal ''1'' = Some 1"
    by (simp add: decimal_def opt_digits_def scale10_def is_digit_def digit_val_def)
  moreover have "casefold (strip ''1'') = ''1''" by code_simp
  ultimately have f: "py_float ''1'' = Some (Fin 1)" by (simp add: py_float_def)
  have n: "loop_count easy_plant = Suc 0"
    by (simp add: loop_count_def easy_plant_def demo_plant_def py_round_def)
  have "sorted_events [(1, 2)] = [(1, 2 :: real)]" by (simp add: sorted_events_def)
  then have start: "loop_start easy_plant (po_steps easy_obs) =
      \<lparr>ls_y = 5, ls_noise = noise_init 7, ls_ambient = 0, ls_events = [(1, 2)], ls_ctl = po_steps easy_obs\<rparr>"
    by (simp add: loop_start_def easy_plant_def demo_plant_def)
  have "snd (loop_body (\<lambda>_. []) ipc_control easy_plant 0 (loop_start easy_plant (po_steps easy_obs)))
      = Inr (0, 5, 5, 1)"
    "ls_ctl (fst (loop_body (\<lambda>_. []) ipc_control easy_plant 0 (loop_start easy_plant (po_steps easy_obs)))) = []"
    unfolding start
    by (simp_all add: loop_body_def gauss_def ipc_control_def easy_obs_def easy_plant_def demo_plant_def
        clamp_def f Let_def)
  then show ?thesis
    by (auto simp: run_closed_loop_def run_loop_def n split: prod.splits)
qed

lemma easy_metrics:
  "compute_metrics [(0, 5, 5, 1)] easy_plant =
     Some \<lparr>m_overshoot_pct = 0, m_steady_error = 0, m_settle_time = Some 0, m_final_y = 5\<rparr>"
  by (simp add: compute_metrics_def easy_plant_def demo_plant_def settle_band_def row_y_def row_t_def Let_def)

lemma run_plant_passed_witness:
  "\<exists>r. run_plant (\<lambda>_. []) \<lparr>pf_loop_error = \<lambda>_. PNone, pf_missed = \<lambda>_. PNone, pf_log = \<lambda>_. []\<rparr>
      (\<lambda>_ _. True) ''p'' [''settled''] [] easy_plant easy_obs = Inr r \<and> tr_passed r"
proof -
  let ?fmt = "\<lparr>pf_loop_error = \<lambda>_. PNone, pf_missed = \<lambda>_. PNone, pf_log = \<lambda>_. []\<rparr>"
  obtain r where r: "run_plant (\<lambda>_. []) ?fmt (\<lambda>_ _. True) ''p'' [''settled''] [] easy_plant easy_obs = Inr r"
    and l: "tr_serial_log r = Some []" "tr_exit_code r = Some 0"
    using easy_run
    by (simp add: run_plant_def easy_obs_def nan_obs_def after_loop_def settle_error_def check_patterns_def
        Let_def final_exit_def loop_waited_def)
  let ?m = "\<lparr>m_overshoot_pct = 0, m_steady_error = 0, m_settle_time = Some 0, m_final_y = 5\<rparr>"
  have sp: "length [(0, 5, 5, 1) :: row] = loop_count easy_plant" "0 \<le> ps_dt easy_plant"
    by (simp_all add: loop_count_def easy_plant_def demo_plant_def py_round_def)
  have req: "check_requirements ?m (ps_requirements easy_plant) = []"
    by (simp add: check_requirements_def easy_plant_def demo_plant_def)
  have obs: "po_entry_exists easy_obs" "po_flood_loop easy_obs = 0" "po_flood_final easy_obs = 0"
    by (simp_all add: easy_obs_def nan_obs_def)
  have "tr_passed r"
    unfolding run_plant_passed [OF r sp(2)]
    using obs easy_run sp(1) easy_metrics req l
    by (intro conjI exI [of _ "[]"] exI [of _ "[(0, 5, 5, 1)]"] exI [of _ ?m] exI [of _ "[] :: string"]) simp_all
  with r show ?thesis by blast
qed

end
