(* ===== verification/Tasks.thy ===== *)
theory Tasks
  imports TaskModel Faults Plant RunnerCommon "HOL-Library.Char_ord" "HOL-Library.List_Lexorder"
begin

text \<open>
  Loading a task (\<open>load_task\<close>), re-validating it for a target (\<open>check_target_compat\<close>), both in
  \<open>src/ironbench/tasks.py\<close>, the conversion of its plant section (\<open>PlantSpec.from_section\<close>) and the
  dispatcher \<open>run_task\<close> of \<open>runner.py\<close>. The decoded YAML value is the input; \<open>re.compile\<close> and \<open>str\<close> of
  values that are no strings are parameters. A check is an exception or \<open>None\<close>; the checks are listed in the
  order of the code, and the first exception is the one raised.
\<close>

section \<open>Checks\<close>

definition verr :: "string \<Rightarrow> pyval list \<Rightarrow> exn" where "verr m vs = Exn ValueErr (PFStr (PStr m # vs))"
definition terr :: "string \<Rightarrow> exn" where "terr m = Exn TypeErr (PStr m)"

definition unless :: "bool \<Rightarrow> exn \<Rightarrow> exn option" where
  "unless ok e = (if ok then None else Some e)"

fun first_error :: "exn option list \<Rightarrow> exn option" where
  "first_error [] = None"
| "first_error (None # cs) = first_error cs"
| "first_error (Some e # cs) = Some e"

definition each :: "('a \<Rightarrow> exn option) \<Rightarrow> 'a list \<Rightarrow> exn option" where
  "each f xs = first_error (map f xs)"

definition strings_of :: "pyval \<Rightarrow> string list option" where
  "strings_of v =
     (case v of
        PList xs \<Rightarrow> those (map (\<lambda>x. case x of PStr s \<Rightarrow> Some s | _ \<Rightarrow> None) xs)
      | _ \<Rightarrow> None)"

definition dicts_of :: "pyval \<Rightarrow> fields list option" where
  "dicts_of v =
     (case v of
        PList xs \<Rightarrow> those (map (\<lambda>x. case x of PDict d \<Rightarrow> Some d | _ \<Rightarrow> None) xs)
      | _ \<Rightarrow> None)"

definition dict_of :: "pyval \<Rightarrow> fields option" where
  "dict_of v = (case v of PDict d \<Rightarrow> Some d | _ \<Rightarrow> None)"

definition text_of :: "(pyval \<Rightarrow> string) \<Rightarrow> pyval \<Rightarrow> string" where
  "text_of str_of v = (case v of PStr s \<Rightarrow> s | _ \<Rightarrow> str_of v)"

definition keys_within :: "string list \<Rightarrow> fields \<Rightarrow> bool" where
  "keys_within ks d = list_all (\<lambda>p. fst p \<in> set ks) d"

definition full_string :: "pyval \<Rightarrow> bool" where
  "full_string v = (case v of PStr s \<Rightarrow> s \<noteq> [] | _ \<Rightarrow> False)"

definition word_string :: "pyval \<Rightarrow> bool" where
  "word_string v = (case v of PStr s \<Rightarrow> \<not> blank s | _ \<Rightarrow> False)"

definition is_string :: "pyval \<Rightarrow> bool" where
  "is_string v = (case v of PStr _ \<Rightarrow> True | _ \<Rightarrow> False)"

text \<open>\<open>isinstance(v, (int, float)) and not isinstance(v, bool)\<close>, and the number a value compares as.\<close>

definition is_number :: "pyval \<Rightarrow> bool" where
  "is_number v = (case v of PInt _ \<Rightarrow> True | PNum _ \<Rightarrow> True | _ \<Rightarrow> False)"

definition num_val :: "pyval \<Rightarrow> pfloat option" where
  "num_val v =
     (case v of
        PInt i \<Rightarrow> Some (Fin (of_int i))
      | PBool b \<Rightarrow> Some (Fin (if b then 1 else 0))
      | PNum f \<Rightarrow> Some f
      | _ \<Rightarrow> None)"

definition nonfinite_float :: "pyval \<Rightarrow> bool" where
  "nonfinite_float v = (case v of PNum f \<Rightarrow> \<not> pf_finite f | _ \<Rightarrow> False)"

definition int_at_least :: "int \<Rightarrow> pyval \<Rightarrow> bool" where
  "int_at_least n v = (case v of PInt i \<Rightarrow> n \<le> i | _ \<Rightarrow> False)"

definition v_less :: "pyval \<Rightarrow> rat \<Rightarrow> bool" where
  "v_less v q = (case num_val v of Some f \<Rightarrow> pf_less f (Fin q) | None \<Rightarrow> False)"

definition v_le :: "pyval \<Rightarrow> rat \<Rightarrow> bool" where
  "v_le v q = (case num_val v of Some f \<Rightarrow> pf_le f (Fin q) | None \<Rightarrow> False)"

definition v_in :: "rat \<Rightarrow> pyval \<Rightarrow> rat \<Rightarrow> bool" where
  "v_in a v b = (case num_val v of Some f \<Rightarrow> pf_le (Fin a) f \<and> pf_le f (Fin b) | None \<Rightarrow> False)"

section \<open>Stimulus steps\<close>

definition when_key :: "string \<Rightarrow> fields \<Rightarrow> (pyval \<Rightarrow> exn option) \<Rightarrow> exn option" where
  "when_key k d f = (case map_of d k of Some v \<Rightarrow> f v | None \<Rightarrow> None)"

definition check_publish :: "pyval \<Rightarrow> exn option" where
  "check_publish v =
     (let pub = (case dict_of v of Some d \<Rightarrow> d | None \<Rightarrow> []) in
      first_error
       [unless (dict_of v \<noteq> None \<and> truthy (get_or pub ''topic'' PNone) \<and> has_key ''payload'' pub)
          (verr ''mqtt-publish requires topic and payload'' []),
        unless (word_string (get_or pub ''topic'' PNone)) (verr ''mqtt-publish topic must be a non-empty string'' []),
        unless (is_string (get_or pub ''payload'' PNone)) (verr ''mqtt-publish payload must be a string'' []),
        unless (keys_within [''topic'', ''payload'', ''retain'', ''qos''] pub) (verr ''unknown mqtt-publish keys'' []),
        unless ((case get_or pub ''retain'' (PBool False) of PBool _ \<Rightarrow> True | _ \<Rightarrow> False) \<and>
                num_val (get_or pub ''qos'' (PInt 0)) \<in> {Some (Fin 0), Some (Fin 1)})
          (verr ''mqtt-publish.retain must be bool, qos 0 or 1'' [])])"

definition check_collect :: "pyval \<Rightarrow> exn option" where
  "check_collect v =
     (let col = (case dict_of v of Some d \<Rightarrow> d | None \<Rightarrow> []) in
      first_error
       [unless (dict_of v \<noteq> None \<and> truthy (get_or col ''topic'' PNone) \<and> has_key ''count'' col)
          (verr ''mqtt-collect requires topic and count'' []),
        unless (word_string (get_or col ''topic'' PNone)) (verr ''mqtt-collect topic must be a non-empty string'' []),
        unless (keys_within [''topic'', ''count'', ''timeout_sec''] col) (verr ''unknown mqtt-collect keys'' []),
        unless (int_at_least 1 (get_or col ''count'' PNone)) (verr ''mqtt-collect.count must be an integer >= 1'' []),
        (let ts = get_or col ''timeout_sec'' (PInt 10) in
         unless (is_number ts \<and> (case num_val ts of Some f \<Rightarrow> pf_less (Fin 0) f \<and> pf_le f (Fin 600) | None \<Rightarrow> False))
           (verr ''mqtt-collect.timeout_sec must be a finite number in 1..600, got '' [ts]))])"

definition check_set_control :: "pyval \<Rightarrow> exn option" where
  "check_set_control v =
     (let ctrl = (case dict_of v of Some d \<Rightarrow> d | None \<Rightarrow> []) in
      unless (dict_of v \<noteq> None \<and> word_string (get_or ctrl ''part-id'' PNone) \<and>
              word_string (get_or ctrl ''control'' PNone) \<and>
              (case get_or ctrl ''value'' PNone of
                 PStr _ \<Rightarrow> True | PInt _ \<Rightarrow> True | PNum _ \<Rightarrow> True | PBool _ \<Rightarrow> True | _ \<Rightarrow> False))
        (verr ''set-control requires a mapping with non-empty string part-id and control and a scalar value, got '' [v]))"

definition check_step :: "fields \<Rightarrow> exn option" where
  "check_step step =
     first_error
      [unless (keys_within STIMULUS_STEP_KEYS step) (verr ''unknown stimulus step'' []),
       when_key ''write-serial'' step (\<lambda>v. unless (full_string v) (verr ''write-serial must be a non-empty string, got '' [v])),
       when_key ''mqtt-publish'' step check_publish,
       when_key ''mqtt-collect'' step check_collect,
       when_key ''wait-serial'' step (\<lambda>v. unless (word_string v) (verr ''wait-serial must be a non-empty string answer, got '' [v])),
       when_key ''set-control'' step check_set_control]"

text \<open>A wait for an answer before any stimulus that could ask for it.\<close>

fun wait_before_trigger :: "bool \<Rightarrow> fields list \<Rightarrow> bool" where
  "wait_before_trigger seen [] = False"
| "wait_before_trigger seen (step # steps) =
     (let seen' = (seen \<or> has_key ''write-serial'' step \<or> has_key ''mqtt-publish'' step) in
      has_key ''wait-serial'' step \<and> \<not> seen' \<or> wait_before_trigger seen' steps)"

definition any_step_has :: "string list \<Rightarrow> fields list \<Rightarrow> bool" where
  "any_step_has ks steps = list_ex (\<lambda>s. list_ex (\<lambda>k. has_key k s) ks) steps"

definition ANCHORED :: "string list" where "ANCHORED = [''unix'', ''renode'', ''real'']"

section \<open>Sections\<close>

definition check_renode :: "string \<Rightarrow> pyval \<Rightarrow> exn option" where
  "check_renode target v =
     (let d = (case dict_of v of Some d \<Rightarrow> d | None \<Rightarrow> []) in
      first_error
       [unless (dict_of v \<noteq> None) (terr ''renode must be a mapping (platform/firmware/uart)''),
        unless (keys_within [''platform'', ''firmware'', ''uart''] d) (verr ''unknown renode keys'' []),
        (if target = ''renode'' then
           first_error
            [unless (has_key ''platform'' d \<and> has_key ''firmware'' d)
               (verr ''the renode target requires platform and firmware in the renode section'' []),
             each (\<lambda>k. when_key k d (\<lambda>x. unless (full_string x) (verr ''renode key must be a non-empty string'' [PStr k])))
               [''platform'', ''firmware'', ''uart'']]
         else None)])"

text \<open>\<open>Fault(**f)\<close> succeeds: known keyword arguments, an action, and every comparison of
  \<open>__post_init__\<close> defined and passed.\<close>

definition fault_kwargs_ok :: "fields \<Rightarrow> bool" where
  "fault_kwargs_ok f =
     (keys_within [''action'', ''after_ops'', ''count'', ''probability'', ''ratio'', ''seconds''] f \<and>
      (case map_of f ''action'' of Some (PStr a) \<Rightarrow> a \<in> set ACTIONS | _ \<Rightarrow> False) \<and>
      v_in 0 (get_or f ''probability'' (PInt 1)) 1 \<and>
      v_in 0 (get_or f ''ratio'' (PInt 0)) 1 \<and>
      num_val (get_or f ''seconds'' (PInt 0)) \<noteq> None \<and> \<not> v_less (get_or f ''seconds'' (PInt 0)) 0 \<and>
      num_val (get_or f ''after_ops'' (PInt 0)) \<noteq> None \<and> \<not> v_less (get_or f ''after_ops'' (PInt 0)) 0 \<and>
      (get_or f ''count'' PNone = PNone \<or>
       num_val (get_or f ''count'' PNone) \<noteq> None \<and> \<not> v_less (get_or f ''count'' PNone) 1))"

definition check_noise :: "string \<Rightarrow> pyval \<Rightarrow> exn option" where
  "check_noise target v =
     (let d = (case dict_of v of Some d \<Rightarrow> d | None \<Rightarrow> []);
          faults = dicts_of (get_or d ''faults'' (PList [])) in
      first_error
       [unless (dict_of v \<noteq> None) (terr ''noise must be a mapping (seed/faults)''),
        unless (keys_within [''seed'', ''faults''] d) (verr ''unknown noise keys'' []),
        when_key ''seed'' d (\<lambda>x. unless (case x of PInt _ \<Rightarrow> True | _ \<Rightarrow> False) (verr ''noise.seed must be an integer'' [])),
        unless (faults \<noteq> None) (verr ''noise.faults must be a list of mappings'' []),
        each (\<lambda>f. unless (get_or f ''action'' PNone \<in> {PStr ''drop'', PStr ''corrupt'', PStr ''delay''})
                   (case get_or f ''action'' PNone of
                      PList _ \<Rightarrow> terr ''unhashable type''
                    | PDict _ \<Rightarrow> terr ''unhashable type''
                    | v \<Rightarrow> verr ''noise.faults: action is not supported'' [v])) (case faults of Some fs \<Rightarrow> fs | None \<Rightarrow> []),
        each (\<lambda>f. unless (fault_kwargs_ok f) (verr ''noise.faults'' [])) (case faults of Some fs \<Rightarrow> fs | None \<Rightarrow> []),
        unless (d = [] \<or> target = ''unix'') (verr ''noise is only supported by the unix target'' [])])"

definition check_mqtt :: "string \<Rightarrow> fields list \<Rightarrow> pyval \<Rightarrow> exn option" where
  "check_mqtt target stimulus v =
     first_error
      [unless (\<not> truthy v \<or> target = ''unix'') (verr ''the mqtt section is only supported by the unix target'' []),
       (if any_step_has MQTT_STEP_KEYS stimulus then
          first_error
           [unless (target = ''unix'') (verr ''mqtt steps are only supported by the unix target'' []),
            unless (dict_of v \<noteq> None \<and> truthy v) (verr ''mqtt steps require a non-empty mqtt section'' [])]
        else None),
       (if truthy v then
          first_error
           [unless (dict_of v \<noteq> None) (terr ''the mqtt section must be a mapping''),
            unless (case dict_of v of Some d \<Rightarrow> keys_within [''client_id''] d | None \<Rightarrow> False) (verr ''unknown mqtt keys'' [])]
        else None)]"

definition check_event :: "fields \<Rightarrow> exn option" where
  "check_event ev =
     first_error
      [unless (keys_within [''pattern'', ''count_min'', ''period_ms''] ev) (verr ''unknown events keys'' []),
       unless (full_string (get_or ev ''pattern'' PNone)) (verr ''events.pattern must be a non-empty string'' []),
       unless (int_at_least 1 (get_or ev ''count_min'' PNone)) (verr ''events.count_min must be an integer >= 1'' []),
       (case get_or ev ''period_ms'' PNone of
          PNone \<Rightarrow> None
        | PList [lo, hi] \<Rightarrow>
            first_error
             [unless (is_number lo \<and> is_number hi) (verr ''events.period_ms must be [lo, hi] numbers'' []),
              unless (case (num_val lo, num_val hi) of
                        (Some a, Some b) \<Rightarrow> pf_less (Fin 0) a \<and> pf_less a b | _ \<Rightarrow> False)
                (verr ''events.period_ms must satisfy 0 < lo < hi'' [])]
        | _ \<Rightarrow> Some (verr ''events.period_ms must be [lo, hi] numbers'' []))]"

section \<open>The plant section\<close>

definition PLANT_KEYS :: "string list" where
  "PLANT_KEYS =
     [''model'', ''K'', ''T'', ''ambient'', ''y0'', ''dt'', ''duration'', ''u_min'', ''u_max'', ''noise_std'',
      ''seed'', ''setpoint'', ''requirements'', ''disturbances'']"

definition PLANT_REQUIREMENT_KEYS :: "string list" where
  "PLANT_REQUIREMENT_KEYS = [''steady_error'', ''overshoot'', ''settle_time'']"

text \<open>\<open>float(v)\<close> of a number; \<open>None\<close> is the \<open>OverflowError\<close> of an integer beyond the doubles.\<close>

definition too_large :: "pyval \<Rightarrow> bool" where
  "too_large v = (case v of PInt i \<Rightarrow> \<bar>i\<bar> \<ge> 2 ^ 1024 - 2 ^ 970 | _ \<Rightarrow> False)"

definition overflow :: exn where "overflow = Exn OtherErr (PStr ''OverflowError'')"

definition num_or :: "fields \<Rightarrow> string \<Rightarrow> rat \<Rightarrow> rat" where
  "num_or d k q = (case num_val (get_or d k (PNum (Fin q))) of Some (Fin x) \<Rightarrow> x | _ \<Rightarrow> q)"

definition check_plant_value :: "string \<times> pyval \<Rightarrow> exn option" where
  "check_plant_value kv =
     (case kv of (k, v) \<Rightarrow>
       if k \<in> {''model'', ''requirements'', ''disturbances''} then None
       else if k = ''seed'' then unless (case v of PInt _ \<Rightarrow> True | _ \<Rightarrow> False) (verr ''plant.seed must be an integer'' [])
       else first_error
         [unless (is_number v) (verr ''plant value must be a number'' [PStr k]),
          unless (\<not> nonfinite_float v) (verr ''plant value must be finite'' [PStr k])])"

definition check_requirement :: "string \<times> pyval \<Rightarrow> exn option" where
  "check_requirement kv =
     (case kv of (k, v) \<Rightarrow>
       first_error
        [unless (is_number v \<and> \<not> v_le v 0) (verr ''plant.requirements value must be a number > 0'' [PStr k]),
         unless (\<not> nonfinite_float v) (verr ''plant.requirements value must be finite'' [PStr k])])"

definition check_disturbance :: "fields \<Rightarrow> exn option" where
  "check_disturbance d =
     first_error
      [unless (keys_within [''at'', ''ambient''] d) (verr ''unknown disturbances event keys'' []),
       unless (has_key ''at'' d \<and> has_key ''ambient'' d) (verr ''a disturbances event requires at and ambient'' []),
       unless (is_number (get_or d ''at'' PNone) \<and> \<not> v_less (get_or d ''at'' PNone) 0)
         (verr ''disturbances.at must be a number >= 0'' []),
       unless (is_number (get_or d ''ambient'' PNone)) (verr ''disturbances.ambient must be a number'' []),
       each (\<lambda>k. unless (\<not> nonfinite_float (get_or d k PNone)) (verr ''disturbances value must be finite'' [PStr k]))
         [''at'', ''ambient'']]"

definition no_overflow :: "fields \<Rightarrow> string \<Rightarrow> exn option" where
  "no_overflow d k = unless (\<not> too_large (get_or d k PNone)) overflow"

definition check_plant_section :: "(pyval \<Rightarrow> string) \<Rightarrow> fields \<Rightarrow> exn option" where
  "check_plant_section str_of d =
     (let model = text_of str_of (get_or d ''model'' (PStr ''heater''));
          dt = num_or d ''dt'' (1 / 2); duration = num_or d ''duration'' 0;
          req = get_or d ''requirements'' PNone; dist = get_or d ''disturbances'' (PList []) in
      first_error
       [unless (d \<noteq> []) (verr ''the plant target requires a non-empty plant section'' []),
        unless (keys_within PLANT_KEYS d) (verr ''unknown plant keys'' []),
        unless (model \<in> set PLANT_MODELS) (verr ''plant.model is not supported'' [PStr model]),
        each (\<lambda>k. unless (has_key k d) (verr ''the plant section requires the key'' [PStr k])) [''K'', ''T'', ''duration'', ''setpoint''],
        each check_plant_value d,
        unless (\<not> v_le (get_or d ''K'' PNone) 0) (verr ''plant.K must be > 0'' []),
        unless (\<not> v_le (get_or d ''T'' PNone) 0) (verr ''plant.T must be > 0'' []),
        no_overflow d ''dt'', no_overflow d ''duration'',
        unless (\<not> (dt \<le> 0 \<or> dt > duration)) (verr ''plant.dt must be > 0 and no greater than duration'' []),
        unless (\<not> dt < 1 / 100) (verr ''plant.dt must be >= 0.01'' []),
        unless (\<not> duration / dt > 20000) (verr ''plant duration/dt must be <= 20000 steps'' []),
        no_overflow d ''u_min'', no_overflow d ''u_max'',
        unless (\<not> num_or d ''u_min'' 0 \<ge> num_or d ''u_max'' 1) (verr ''plant.u_min must be less than u_max'' []),
        no_overflow d ''noise_std'',
        unless (\<not> num_or d ''noise_std'' 0 < 0) (verr ''plant.noise_std must be >= 0'' []),
        unless (case dict_of req of Some r \<Rightarrow> r \<noteq> [] | None \<Rightarrow> False)
          (verr ''plant.requirements must be a non-empty mapping of tolerances'' []),
        unless (case dict_of req of Some r \<Rightarrow> keys_within PLANT_REQUIREMENT_KEYS r | None \<Rightarrow> False)
          (verr ''unknown plant.requirements keys'' []),
        each check_requirement (case dict_of req of Some r \<Rightarrow> r | None \<Rightarrow> []),
        unless (dicts_of dist \<noteq> None) (terr ''plant.disturbances must be a list of mappings''),
        each check_disturbance (case dicts_of dist of Some ds \<Rightarrow> ds | None \<Rightarrow> [])])"

definition check_plant :: "(pyval \<Rightarrow> string) \<Rightarrow> string \<Rightarrow> pyval \<Rightarrow> exn option" where
  "check_plant str_of target v =
     first_error
      [unless (\<not> truthy v \<or> target = ''plant'') (verr ''the plant section is only supported by the plant target'' []),
       (if target = ''plant'' then
          (case dict_of v of
             None \<Rightarrow> Some (terr ''the plant section must be a mapping'')
           | Some d \<Rightarrow> check_plant_section str_of d)
        else None)]"

section \<open>Loading\<close>

definition CLASS_TAGS :: "string list" where
  "CLASS_TAGS = [''io'', ''data'', ''protocol'', ''fsm'', ''control'', ''resilience'', ''debug'']"

text \<open>The list under \<open>raw.get(key) or []\<close>.\<close>

definition or_list :: "fields \<Rightarrow> string \<Rightarrow> pyval" where
  "or_list raw k = py_or (get_or raw k PNone) (PList [])"

definition the_strings :: "pyval \<Rightarrow> string list" where
  "the_strings v = (case strings_of v of Some xs \<Rightarrow> xs | None \<Rightarrow> [])"

definition the_dicts :: "pyval \<Rightarrow> fields list" where
  "the_dicts v = (case dicts_of v of Some xs \<Rightarrow> xs | None \<Rightarrow> [])"

definition the_dict :: "pyval \<Rightarrow> fields" where
  "the_dict v = (case dict_of v of Some d \<Rightarrow> d | None \<Rightarrow> [])"

text \<open>\<open>dict(v)\<close> of a value that is a mapping or empty.\<close>

definition dict_error :: "pyval \<Rightarrow> exn option" where
  "dict_error v =
     (case v of PDict _ \<Rightarrow> None | PList [] \<Rightarrow> None | PStr [] \<Rightarrow> None | _ \<Rightarrow> Some (terr ''object is not iterable''))"

definition timeout_error :: "fields \<Rightarrow> exn option" where
  "timeout_error raw =
     (case int_of (get_or raw ''timeout_sec'' (PInt 30)) of
        Inl e \<Rightarrow> Some (if eclass e \<in> {TypeErr, ValueErr} then verr ''timeout_sec must be an integer'' [] else e)
      | Inr n \<Rightarrow> unless (1 \<le> n \<and> n \<le> 600) (verr ''timeout_sec must be within 1..600, got '' [PInt n]))"

definition check_tags :: "pyval \<Rightarrow> exn option" where
  "check_tags v =
     first_error
      [unless (strings_of v \<noteq> None) (verr ''tags must be a list of strings'' []),
       unless (distinct (the_strings v)) (verr ''tags contains duplicates'' []),
       unless (set (the_strings v) \<subseteq> set CLASS_TAGS) (verr ''unknown tags'' [])]"

definition level_of :: "pyval \<Rightarrow> int option" where
  "level_of v = (case v of PInt i \<Rightarrow> Some i | _ \<Rightarrow> None)"

definition check_level :: "pyval \<Rightarrow> exn option" where
  "check_level v =
     unless (v = PNone \<or> (case v of PInt i \<Rightarrow> 1 \<le> i \<and> i \<le> 5 | _ \<Rightarrow> False))
       (verr ''level must be an integer 1..5'' [])"

definition check_words :: "string \<Rightarrow> pyval \<Rightarrow> exn option" where
  "check_words m v =
     unless (strings_of v \<noteq> None \<and> list_all (\<lambda>s. \<not> blank s) (the_strings v)) (verr m [])"

definition environment_of :: "fields \<Rightarrow> pyval" where
  "environment_of raw = py_or (get_or raw ''environment'' PNone) (PDict [])"

definition device_modules_of :: "fields \<Rightarrow> pyval" where
  "device_modules_of raw = or_list (the_dict (environment_of raw)) ''device_modules''"

definition has_environment :: "string \<Rightarrow> fields \<Rightarrow> bool" where
  "has_environment target raw = (truthy (environment_of raw) \<and> target \<in> {''unix'', ''real'', ''wokwi'', ''renode''})"

definition check_environment :: "string \<Rightarrow> fields \<Rightarrow> exn option" where
  "check_environment target raw =
     (if has_environment target raw then
        first_error
         [unless (dict_of (environment_of raw) \<noteq> None) (Exn AttributeErr (PStr ''object has no attribute get'')),
          check_words ''environment.device_modules must be a list of non-empty strings'' (device_modules_of raw),
          unless (distinct (the_strings (device_modules_of raw))) (verr ''environment.device_modules contains duplicates'' [])]
      else None)"

text \<open>\<open>tuple(environment.get("device_modules") or [])\<close>, the only use of the section on the plant target.\<close>

definition modules_error :: "fields \<Rightarrow> exn option" where
  "modules_error raw =
     first_error
      [unless (dict_of (environment_of raw) \<noteq> None) (Exn AttributeErr (PStr ''object has no attribute get'')),
       (case device_modules_of raw of
          PList _ \<Rightarrow> None | PStr _ \<Rightarrow> None | PDict _ \<Rightarrow> None | _ \<Rightarrow> Some (terr ''object is not iterable''))]"

definition modules_tuple :: "(pyval \<Rightarrow> string) \<Rightarrow> pyval \<Rightarrow> string list" where
  "modules_tuple str_of v =
     (case v of
        PList xs \<Rightarrow> map (text_of str_of) xs
      | PStr s \<Rightarrow> map (\<lambda>c. [c]) s
      | PDict d \<Rightarrow> map fst d
      | _ \<Rightarrow> [])"

definition target_of :: "(pyval \<Rightarrow> string) \<Rightarrow> fields \<Rightarrow> string" where
  "target_of str_of raw = text_of str_of (get_or raw ''target'' (PStr ''wokwi''))"

definition shim_of :: "(pyval \<Rightarrow> string) \<Rightarrow> fields \<Rightarrow> string" where
  "shim_of str_of raw = text_of str_of (get_or raw ''shim'' (PStr []))"

definition patterns_of :: "fields \<Rightarrow> string list" where
  "patterns_of raw =
     the_strings (or_list raw ''expect'') @ the_strings (or_list raw ''fail'') @
     map (\<lambda>ev. text_of (\<lambda>_. []) (get_or ev ''pattern'' (PStr []))) (the_dicts (or_list raw ''events''))"

definition task_checks :: "(string \<Rightarrow> bool) \<Rightarrow> (pyval \<Rightarrow> string) \<Rightarrow> fields \<Rightarrow> exn option list" where
  "task_checks re_ok str_of raw =
     (let target = target_of str_of raw; shim = shim_of str_of raw;
          expect = or_list raw ''expect''; events = or_list raw ''events'';
          stimulus = get_or raw ''stimulus'' (PList []); steps = the_dicts stimulus;
          mqtt = get_or raw ''mqtt'' (PDict []); plant = get_or raw ''plant'' (PDict []) in
      [unless (full_string (get_or raw ''name'' PNone)) (verr ''the required field name (string) is missing'' []),
       unless (strings_of expect \<noteq> None) (verr ''expect must be a list of strings'' []),
       unless (strings_of (or_list raw ''fail'') \<noteq> None) (verr ''fail must be a list of strings'' []),
       unless (get_or raw ''scenario'' PNone = PNone \<or> is_string (get_or raw ''scenario'' PNone))
         (verr ''scenario must be a string (path to YAML)'' []),
       timeout_error raw,
       unless (dicts_of stimulus \<noteq> None) (verr ''stimulus must be a list of steps (mappings)'' []),
       each check_step steps,
       unless (target \<in> set TASK_TARGETS) (verr ''unknown target '' [PStr target]),
       unless (\<not> (target = ''unix'' \<and> any_step_has [''set-control''] steps))
         (verr ''set-control steps are not supported by the unix target'' []),
       unless (\<not> (target \<in> set ANCHORED \<and> wait_before_trigger False steps))
         (verr ''wait-serial must be preceded by a write-serial or mqtt-publish step'' []),
       check_renode target (get_or raw ''renode'' (PDict [])),
       check_noise target (get_or raw ''noise'' (PDict [])),
       check_mqtt target steps mqtt,
       unless (shim = [] \<or> target = ''unix'') (verr ''the shim is only supported by the unix target'' []),
       unless (shim = [] \<or> shim = ''machine'') (verr ''unknown shim '' [PStr shim]),
       unless (\<not> truthy events \<or> target = ''unix'') (verr ''the events section is only supported by the unix target'' []),
       unless (dicts_of events \<noteq> None) (verr ''events must be a list of mappings'' []),
       each check_event (the_dicts events),
       each (\<lambda>p. unless (re_ok p) (verr ''invalid regex '' [PRepr (PStr p)])) (patterns_of raw),
       check_plant str_of target plant,
       check_tags (get_or raw ''tags'' (PList [])),
       check_level (get_or raw ''level'' PNone),
       check_words ''notes must be a list of non-empty strings'' (or_list raw ''notes''),
       check_words ''boot_expect must be a list of non-empty strings'' (or_list raw ''boot_expect''),
       unless (set (the_strings (or_list raw ''boot_expect'')) \<subseteq> set (the_strings expect))
         (verr ''boot_expect must be members of expect'' []),
       check_environment target raw,
       unless (truthy expect \<or> truthy (get_or raw ''events'' PNone) \<and> target = ''unix'' \<or>
               target = ''plant'' \<and> truthy (get_or raw ''plant'' PNone))
         (verr ''the task declares no scoring detector - any output would pass'' []),
       unless (word_string (get_or raw ''entry'' (PStr ''main.py'')))
         (verr ''entry must be a non-empty string, got '' [get_or raw ''entry'' (PStr ''main.py'')])])"

text \<open>The conversions of the returned record that can still raise.\<close>

definition convert_checks :: "fields \<Rightarrow> exn option list" where
  "convert_checks raw =
     [dict_error (get_or raw ''plant'' (PDict [])), dict_error (get_or raw ''mqtt'' (PDict [])),
      modules_error raw]"

definition build_task :: "(pyval \<Rightarrow> string) \<Rightarrow> fields \<Rightarrow> task" where
  "build_task str_of raw =
     \<lparr>t_name = text_of str_of (get_or raw ''name'' PNone),
      t_description = text_of str_of (get_or raw ''description'' (PStr [])),
      t_scenario = (case get_or raw ''scenario'' PNone of PStr s \<Rightarrow> Some s | _ \<Rightarrow> None),
      t_entry = text_of str_of (get_or raw ''entry'' (PStr ''main.py'')),
      t_timeout_sec = (case int_of (get_or raw ''timeout_sec'' (PInt 30)) of Inr n \<Rightarrow> n | Inl _ \<Rightarrow> 0),
      t_expect = the_strings (or_list raw ''expect''), t_fail = the_strings (or_list raw ''fail''),
      t_stimulus = the_dicts (get_or raw ''stimulus'' (PList [])), t_target = target_of str_of raw,
      t_renode = the_dict (get_or raw ''renode'' (PDict [])), t_noise = the_dict (get_or raw ''noise'' (PDict [])),
      t_plant = the_dict (get_or raw ''plant'' (PDict [])), t_mqtt = the_dict (get_or raw ''mqtt'' (PDict [])),
      t_shim = shim_of str_of raw, t_events = the_dicts (or_list raw ''events''),
      t_tags = the_strings (get_or raw ''tags'' (PList [])), t_level = level_of (get_or raw ''level'' PNone),
      t_notes = the_strings (or_list raw ''notes''), t_boot_expect = the_strings (or_list raw ''boot_expect''),
      t_device_modules = modules_tuple str_of (device_modules_of raw),
      t_api_hint =
        (if has_environment (target_of str_of raw) raw
         then text_of str_of (py_or (get_or (the_dict (environment_of raw)) ''api_hint'' PNone) (PStr [])) else [])\<rparr>"

text \<open>\<open>None\<close> is a directory without a task file.\<close>

definition load_task :: "(string \<Rightarrow> bool) \<Rightarrow> (pyval \<Rightarrow> string) \<Rightarrow> pyval option \<Rightarrow> exn + task" where
  "load_task re_ok str_of file =
     (case file of
        None \<Rightarrow> Inl (verr ''no task.yaml in the directory'' [])
      | Some (PDict raw) \<Rightarrow>
          (case first_error (task_checks re_ok str_of raw @ convert_checks raw) of
             Some e \<Rightarrow> Inl e
           | None \<Rightarrow> Inr (build_task str_of raw))
      | Some _ \<Rightarrow> Inl (terr ''expected a YAML mapping''))"

section \<open>Target compatibility\<close>

text \<open>The task directories below a root, \<open>None\<close> when the root is none; in the order of their paths, the
  first error wins; the tasks are returned in the order of their names.\<close>

fun load_each :: "(string \<Rightarrow> bool) \<Rightarrow> (pyval \<Rightarrow> string) \<Rightarrow> pyval list \<Rightarrow> exn + task list" where
  "load_each re_ok str_of [] = Inr []"
| "load_each re_ok str_of (v # vs) =
     (case load_task re_ok str_of (Some v) of
        Inl e \<Rightarrow> Inl e
      | Inr t \<Rightarrow> map_sum id ((#) t) (load_each re_ok str_of vs))"

definition load_tasks ::
  "(string \<Rightarrow> bool) \<Rightarrow> (pyval \<Rightarrow> string) \<Rightarrow> (string \<times> pyval) list option \<Rightarrow> exn + task list" where
  "load_tasks re_ok str_of dirs =
     (case dirs of
        None \<Rightarrow> Inl (verr ''tasks directory not found'' [])
      | Some ds \<Rightarrow> map_sum id (sort_key t_name) (load_each re_ok str_of (map snd (sort_key fst ds))))"

definition compat_problems :: "task \<Rightarrow> string list" where
  "compat_problems t =
     (let tg = t_target t; p = (\<lambda>b m. if b then [m] else []) in
      p (tg \<notin> set TASK_TARGETS) ''unknown target'' @
      p (t_plant t \<noteq> [] \<and> tg \<noteq> ''plant'') ''the plant section is only executed by the plant target'' @
      p (tg = ''plant'' \<and> t_plant t = []) ''the plant target has no detector without a plant section'' @
      p (t_events t \<noteq> [] \<and> tg \<noteq> ''unix'') ''the events section is only scored by the unix target'' @
      p (t_shim t \<noteq> [] \<and> tg \<noteq> ''unix'') ''the harness shim is only supported by the unix target'' @
      p (t_noise t \<noteq> [] \<and> tg \<noteq> ''unix'') ''the noise section is only supported by the unix target'' @
      p (t_mqtt t \<noteq> [] \<and> tg \<noteq> ''unix'') ''the mqtt section (broker) is only supported by the unix target'' @
      p (tg = ''unix'' \<and> any_step_has [''set-control''] (t_stimulus t)) ''set-control steps are not supported by the unix target'' @
      p (tg \<noteq> ''unix'' \<and> any_step_has MQTT_STEP_KEYS (t_stimulus t)) ''mqtt stimulus steps are only supported by the unix target'' @
      p (tg = ''renode'' \<and> \<not> (has_key ''platform'' (t_renode t) \<and> has_key ''firmware'' (t_renode t)))
        ''the renode target requires platform and firmware in the renode section'' @
      p (tg \<in> set ANCHORED \<and> wait_before_trigger False (t_stimulus t))
        ''wait-serial must be preceded by a write-serial or mqtt-publish step'' @
      p (\<not> (t_expect t \<noteq> [] \<or> t_events t \<noteq> [] \<and> tg = ''unix'' \<or> t_plant t \<noteq> [] \<and> tg = ''plant''))
        ''no scoring detector on this target - any output would pass'')"

definition check_target_compat :: "task \<Rightarrow> exn + unit" where
  "check_target_compat t =
     (if compat_problems t = [] then Inr ()
      else Inl (Exn ValueErr (PFStr [PStr ''task '', PRepr (PStr (t_name t)), PStr '' is not compatible with target '',
             PRepr (PStr (t_target t)), PList (map PStr (compat_problems t))])))"

section \<open>Dispatch\<close>

definition not_run :: "task \<Rightarrow> pyval \<Rightarrow> task_result" where
  "not_run t err =
     \<lparr>tr_task = t_name t, tr_passed = False, tr_exit_code = None, tr_duration = 0, tr_serial_log = None,
      tr_missed = map PStr (t_expect t), tr_hit_fail = [], tr_error = Some err, tr_error_kind = ERROR_INFRA\<rparr>"

datatype dispatched = Refused task_result event | RunOn string

text \<open>Which runner a task goes to, or the result reported (and journaled) without a run.\<close>

definition run_task :: "bool \<Rightarrow> bool \<Rightarrow> task \<Rightarrow> dispatched" where
  "run_task allow_real injected_transport t =
     (let refuse = (\<lambda>m. Refused (not_run t m) (journal_result (not_run t m))) in
      case check_target_compat t of
        Inl e \<Rightarrow> refuse (exn_str e)
      | Inr _ \<Rightarrow>
          if t_target t \<in> {''wokwi'', ''renode'', ''unix'', ''plant''} then RunOn (t_target t)
          else if t_target t = ''real'' then
            (if \<not> allow_real \<and> \<not> injected_transport
             then refuse (PStr ''refused: the real target wipes main.py on the live board'')
             else RunOn ''real'')
          else refuse (PFStr [PStr ''unknown target '', PRepr (PStr (t_target t)), PStr ''; checks were not run'']))"

section \<open>From the section to the plant\<close>

definition real_of :: "pyval \<Rightarrow> real option" where
  "real_of v = (if too_large v then None else case num_val v of Some (Fin q) \<Rightarrow> Some (of_rat q) | _ \<Rightarrow> None)"

definition real_or :: "fields \<Rightarrow> string \<Rightarrow> rat \<Rightarrow> real option" where
  "real_or d k q = real_of (get_or d k (PNum (Fin q)))"

definition disturbance_of :: "fields \<Rightarrow> (real \<times> real) option" where
  "disturbance_of d =
     (case (real_of (get_or d ''at'' PNone), real_of (get_or d ''ambient'' PNone)) of
        (Some a, Some b) \<Rightarrow> Some (a, b) | _ \<Rightarrow> None)"

text \<open>\<open>PlantSpec.from_section\<close>; \<open>None\<close> where a conversion raises or is not finite.\<close>

definition spec_of_section :: "(pyval \<Rightarrow> string) \<Rightarrow> fields \<Rightarrow> plant_spec option" where
  "spec_of_section str_of d =
     (let amb = num_or d ''ambient'' 20 in
      case (real_of (get_or d ''K'' PNone), real_of (get_or d ''T'' PNone), real_or d ''ambient'' 20,
            real_or d ''y0'' amb, real_or d ''dt'' (1 / 2), real_of (get_or d ''duration'' PNone),
            real_or d ''u_min'' 0, real_or d ''u_max'' 1, real_or d ''noise_std'' 0,
            real_of (get_or d ''setpoint'' PNone),
            those (map disturbance_of (the_dicts (get_or d ''disturbances'' (PList []))))) of
        (Some K, Some T, Some a, Some y0, Some dt, Some dur, Some lo, Some hi, Some ns, Some sp, Some ds) \<Rightarrow>
          Some \<lparr>ps_model = text_of str_of (get_or d ''model'' (PStr ''heater'')), ps_K = K, ps_T = T,
                ps_ambient = a, ps_y0 = y0, ps_dt = dt, ps_duration = dur, ps_u_min = lo, ps_u_max = hi,
                ps_noise_std = ns, ps_seed = (case get_or d ''seed'' (PInt 0) of PInt i \<Rightarrow> i | _ \<Rightarrow> 0),
                ps_setpoint = sp,
                ps_requirements = (\<lambda>k. case map_of (the_dict (get_or d ''requirements'' PNone)) k of
                                         Some v \<Rightarrow> real_of v | None \<Rightarrow> None),
                ps_disturbances = ds\<rparr>
      | _ \<Rightarrow> None)"

section \<open>Facts about checks\<close>

lemma first_error_None [simp]: "first_error cs = None \<longleftrightarrow> list_all (\<lambda>c. c = None) cs"
  by (induction cs rule: first_error.induct) auto

lemma first_error_append: "list_all (\<lambda>c. c = None) us \<Longrightarrow> first_error (us @ vs) = first_error vs"
  by (induction us) auto

lemma unless_None [simp]: "unless ok e = None \<longleftrightarrow> ok"
  by (simp add: unless_def)

lemma each_None [simp]: "each f xs = None \<longleftrightarrow> list_all (\<lambda>x. f x = None) xs"
  by (simp add: each_def list_all_iff)

lemma loaded_checks:
  assumes "load_task re_ok str_of (Some v) = Inr t"
  obtains raw where "v = PDict raw" "t = build_task str_of raw"
    "list_all (\<lambda>c. c = None) (task_checks re_ok str_of raw)"
  using assms by (auto simp: load_task_def split: pyval.splits option.splits)

lemma those_Some: "those xs = Some ys \<longleftrightarrow> xs = map Some ys"
proof (induction xs arbitrary: ys)
  case (Cons x xs)
  then show ?case by (cases ys; cases x) auto
qed auto

lemma those_Nil: "those xs = Some [] \<longleftrightarrow> xs = []"
  by (simp add: those_Some)

lemma those_all: "\<forall>x \<in> set xs. \<exists>p. f x = Some p \<Longrightarrow> \<exists>ys. those (map f xs) = Some ys"
  by (induction xs) auto

lemma the_dict_truthy: "the_dict v \<noteq> [] \<Longrightarrow> truthy v"
  by (cases v) (auto simp: the_dict_def dict_of_def)

lemma the_dicts_truthy: "the_dicts (py_or v (PList [])) \<noteq> [] \<Longrightarrow> truthy v"
  by (auto simp: the_dicts_def py_or_def dicts_of_def split: if_splits)

lemma the_strings_nonempty: "strings_of v \<noteq> None \<Longrightarrow> truthy v \<Longrightarrow> the_strings v \<noteq> []"
  by (cases v) (auto simp: the_strings_def strings_of_def those_Nil)

lemma the_dicts_nonempty: "dicts_of v \<noteq> None \<Longrightarrow> truthy v \<Longrightarrow> the_dicts v \<noteq> []"
  by (cases v) (auto simp: the_dicts_def dicts_of_def those_Nil)

lemma truthy_py_or: "truthy (py_or v (PList [])) \<longleftrightarrow> truthy v"
  by (simp add: py_or_def)

lemma build_task_sel:
  "t_target (build_task str_of raw) = target_of str_of raw"
  "t_expect (build_task str_of raw) = the_strings (or_list raw ''expect'')"
  "t_events (build_task str_of raw) = the_dicts (or_list raw ''events'')"
  "t_plant (build_task str_of raw) = the_dict (get_or raw ''plant'' (PDict []))"
  "t_mqtt (build_task str_of raw) = the_dict (get_or raw ''mqtt'' (PDict []))"
  "t_noise (build_task str_of raw) = the_dict (get_or raw ''noise'' (PDict []))"
  "t_renode (build_task str_of raw) = the_dict (get_or raw ''renode'' (PDict []))"
  "t_shim (build_task str_of raw) = shim_of str_of raw"
  "t_stimulus (build_task str_of raw) = the_dicts (get_or raw ''stimulus'' (PList []))"
  by (simp_all add: build_task_def)

text \<open>What the checks of a loaded task say, by section.\<close>

lemma loaded_facts:
  assumes "list_all (\<lambda>c. c = None) (task_checks re_ok str_of raw)"
  defines "target \<equiv> target_of str_of raw" and "steps \<equiv> the_dicts (get_or raw ''stimulus'' (PList []))"
  shows "target \<in> set TASK_TARGETS"
    and "target = ''unix'' \<Longrightarrow> \<not> any_step_has [''set-control''] steps"
    and "target \<in> set ANCHORED \<Longrightarrow> \<not> wait_before_trigger False steps"
    and "check_renode target (get_or raw ''renode'' (PDict [])) = None"
    and "check_noise target (get_or raw ''noise'' (PDict [])) = None"
    and "check_mqtt target steps (get_or raw ''mqtt'' (PDict [])) = None"
    and "shim_of str_of raw = [] \<or> target = ''unix''"
    and "truthy (or_list raw ''events'') \<Longrightarrow> target = ''unix''"
    and "check_plant str_of target (get_or raw ''plant'' (PDict [])) = None"
    and "strings_of (or_list raw ''expect'') \<noteq> None" and "dicts_of (or_list raw ''events'') \<noteq> None"
    and "truthy (or_list raw ''expect'') \<or> truthy (get_or raw ''events'' PNone) \<and> target = ''unix'' \<or>
         target = ''plant'' \<and> truthy (get_or raw ''plant'' PNone)"
  using assms(1) unfolding task_checks_def Let_def target_def steps_def by auto

text \<open>
  C20. Loading and dispatch agree: a task that loads is compatible with its own target, so the run-time
  re-validation rejects only a target that was swapped in, and in particular every loaded task has a scoring
  detector its target executes.
\<close>

theorem loaded_compatible:
  assumes "load_task re_ok str_of (Some v) = Inr t"
  shows "check_target_compat t = Inr () \<and>
    (t_expect t \<noteq> [] \<or> t_events t \<noteq> [] \<and> t_target t = ''unix'' \<or> t_plant t \<noteq> [] \<and> t_target t = ''plant'')"
proof -
  obtain raw where t: "t = build_task str_of raw"
    and c: "list_all (\<lambda>c. c = None) (task_checks re_ok str_of raw)"
    using assms by (rule loaded_checks)
  note f = loaded_facts [OF c]
  let ?tg = "target_of str_of raw" and ?steps = "the_dicts (get_or raw ''stimulus'' (PList []))"
  have plant: "t_plant t \<noteq> [] \<Longrightarrow> ?tg = ''plant''"
    using f(9) the_dict_truthy by (auto simp: t build_task_sel check_plant_def)
  have plant2: "?tg = ''plant'' \<Longrightarrow> t_plant t \<noteq> []"
    using f(9) by (auto simp: t build_task_sel check_plant_def check_plant_section_def the_dict_def Let_def
        split: option.splits)
  have events: "t_events t \<noteq> [] \<Longrightarrow> ?tg = ''unix''"
    using f(8) the_dicts_truthy [of "get_or raw ''events'' PNone"]
    by (auto simp: t build_task_sel or_list_def truthy_py_or)
  have events2: "truthy (get_or raw ''events'' PNone) \<Longrightarrow> t_events t \<noteq> []"
    using f(11) the_dicts_nonempty [of "or_list raw ''events''"]
    by (simp add: t build_task_sel or_list_def truthy_py_or)
  have expect: "truthy (or_list raw ''expect'') \<Longrightarrow> t_expect t \<noteq> []"
    using f(10) the_strings_nonempty by (simp add: t build_task_sel)
  have noise: "t_noise t \<noteq> [] \<Longrightarrow> ?tg = ''unix''"
    using f(5) by (auto simp: t build_task_sel check_noise_def the_dict_def Let_def split: option.splits)
  have mqtt: "t_mqtt t \<noteq> [] \<Longrightarrow> ?tg = ''unix''"
    using f(6) the_dict_truthy by (auto simp: t build_task_sel check_mqtt_def)
  have steps: "any_step_has MQTT_STEP_KEYS ?steps \<Longrightarrow> ?tg = ''unix''"
    using f(6) by (auto simp: check_mqtt_def)
  have renode: "?tg = ''renode'' \<Longrightarrow> has_key ''platform'' (t_renode t) \<and> has_key ''firmware'' (t_renode t)"
    using f(4) by (auto simp: t build_task_sel check_renode_def the_dict_def Let_def split: option.splits)
  have detector: "t_expect t \<noteq> [] \<or> t_events t \<noteq> [] \<and> ?tg = ''unix'' \<or> t_plant t \<noteq> [] \<and> ?tg = ''plant''"
    using f(12) expect events2 plant2 by blast
  have sel: "t_target t = ?tg" "t_stimulus t = ?steps" "t_shim t = shim_of str_of raw"
    by (simp_all add: t build_task_sel)
  have none: "(if b then [m] else []) = [] \<longleftrightarrow> \<not> b" for b and m :: string by simp
  have "compat_problems t = []"
    unfolding compat_problems_def Let_def append_is_Nil_conv none sel
    by (intro conjI; use f(1,2,3,7) plant plant2 events noise mqtt steps renode detector in blast)
  with detector show ?thesis by (simp add: check_target_compat_def t build_task_sel)
qed

section \<open>A loaded plant task runs\<close>

text \<open>No integer of the section exceeds the range of a double, as any written with fewer than 300 digits.\<close>

definition doubles_only :: "fields \<Rightarrow> bool" where
  "doubles_only d = list_all (\<lambda>kv. \<not> too_large (snd kv)) d"

definition section_sizes_ok :: "fields \<Rightarrow> bool" where
  "section_sizes_ok d =
     (doubles_only d \<and> list_all doubles_only (the_dicts (get_or d ''disturbances'' (PList []))))"

lemma map_of_in: "map_of d k = Some v \<Longrightarrow> (k, v) \<in> set d"
  by (rule map_of_SomeD)

lemma number_real:
  assumes "is_number v" "\<not> nonfinite_float v" "\<not> too_large v"
  shows "\<exists>x. num_val v = Some (Fin x) \<and> real_of v = Some (of_rat x)"
  using assms
  by (cases v) (auto simp: is_number_def nonfinite_float_def num_val_def real_of_def pf_finite_def
      split: pfloat.splits)

text \<open>A numeric key of a checked section has a finite number, given or by default.\<close>

lemma section_number:
  assumes "list_all (\<lambda>kv. check_plant_value kv = None) d" and "doubles_only d"
    and "k \<notin> {''model'', ''requirements'', ''disturbances'', ''seed''}"
  shows "real_or d k q = Some (of_rat (num_or d k q))"
    and "has_key k d \<Longrightarrow> num_val (get_or d k PNone) = Some (Fin (num_or d k q)) \<and>
           real_of (get_or d k PNone) = Some (of_rat (num_or d k q))"
proof -
  have ok: "is_number v \<and> \<not> nonfinite_float v \<and> \<not> too_large v" if "map_of d k = Some v" for v
    using assms map_of_in [OF that] by (auto simp: list_all_iff doubles_only_def check_plant_value_def)
  show "real_or d k q = Some (of_rat (num_or d k q))"
  proof (cases "map_of d k")
    case None
    then show ?thesis by (simp add: real_or_def num_or_def get_or_def real_of_def num_val_def too_large_def)
  next
    case (Some v)
    with ok number_real [of v] show ?thesis by (auto simp: real_or_def num_or_def get_or_def)
  qed
  show "num_val (get_or d k PNone) = Some (Fin (num_or d k q)) \<and>
      real_of (get_or d k PNone) = Some (of_rat (num_or d k q))" if h: "has_key k d"
  proof -
    obtain v where "map_of d k = Some v" using h by (auto simp: has_key_def)
    with ok number_real [of v] show ?thesis by (auto simp: num_or_def get_or_def)
  qed
qed

lemma disturbance_number:
  assumes "check_disturbance d = None" and "doubles_only d"
  shows "\<exists>p. disturbance_of d = Some p"
proof -
  have "\<exists>x. real_of (get_or d k PNone) = Some x" if k: "k \<in> {''at'', ''ambient''}" for k
  proof -
    obtain v where v: "map_of d k = Some v"
      using assms(1) k by (auto simp: check_disturbance_def has_key_def)
    with assms k have "is_number v" "\<not> nonfinite_float v" "\<not> too_large v"
      using map_of_in [OF v]
      by (auto simp: check_disturbance_def get_or_def list_all_iff doubles_only_def)
    with v number_real [of v] show ?thesis by (auto simp: get_or_def)
  qed
  then obtain a b where "real_of (get_or d ''at'' PNone) = Some a" "real_of (get_or d ''ambient'' PNone) = Some b"
    by (metis insertCI)
  then show ?thesis by (simp add: disturbance_of_def)
qed

lemma section_facts:
  assumes "check_plant_section str_of d = None"
  shows "list_all (\<lambda>kv. check_plant_value kv = None) d"
    and "has_key ''K'' d" "has_key ''T'' d" "has_key ''duration'' d" "has_key ''setpoint'' d"
    and "\<not> v_le (get_or d ''K'' PNone) 0" "\<not> v_le (get_or d ''T'' PNone) 0"
    and "1 / 100 \<le> num_or d ''dt'' (1 / 2)"
    and "num_or d ''duration'' 0 / num_or d ''dt'' (1 / 2) \<le> 20000"
    and "num_or d ''u_min'' 0 < num_or d ''u_max'' 1" and "0 \<le> num_or d ''noise_std'' 0"
    and "text_of str_of (get_or d ''model'' (PStr ''heater'')) \<in> set PLANT_MODELS"
    and "dicts_of (get_or d ''disturbances'' (PList [])) \<noteq> None"
    and "list_all (\<lambda>x. check_disturbance x = None) (the_dicts (get_or d ''disturbances'' (PList [])))"
  using assms
  by (simp_all add: check_plant_section_def Let_def the_dicts_def not_less not_le)

text \<open>A loaded plant task can be run: its section converts to plant parameters for which the loop is
  defined, with positive gain and time constant, a step of at least 10 ms, at most 20000 steps, a proper
  actuator range and a non-negative noise level.
\<close>

theorem plant_section_ready:
  assumes load: "load_task re_ok str_of (Some v) = Inr t" and target: "t_target t = ''plant''"
    and sizes: "section_sizes_ok (t_plant t)"
  shows "\<exists>sp. spec_of_section str_of (t_plant t) = Some sp \<and>
    0 < ps_K sp \<and> 0 < ps_T sp \<and> 1 / 100 \<le> ps_dt sp \<and> loop_count sp \<le> 20000 \<and>
    ps_u_min sp < ps_u_max sp \<and> 0 \<le> ps_noise_std sp \<and> ps_model sp \<in> set PLANT_MODELS"
proof -
  obtain raw where t: "t = build_task str_of raw"
    and c: "list_all (\<lambda>c. c = None) (task_checks re_ok str_of raw)"
    using load by (rule loaded_checks)
  let ?d = "t_plant t"
  have "check_plant_section str_of ?d = None"
    using loaded_facts(9) [OF c] target
    by (auto simp: t build_task_sel check_plant_def the_dict_def split: option.splits)
  note f = section_facts [OF this]
  have sz: "doubles_only ?d" using sizes by (simp add: section_sizes_ok_def)
  note num = section_number [OF f(1) sz]
  have req: "real_of (get_or ?d ''K'' PNone) = Some (of_rat (num_or ?d ''K'' 0))"
    "real_of (get_or ?d ''T'' PNone) = Some (of_rat (num_or ?d ''T'' 0))"
    "real_of (get_or ?d ''duration'' PNone) = Some (of_rat (num_or ?d ''duration'' 0))"
    "real_of (get_or ?d ''setpoint'' PNone) = Some (of_rat (num_or ?d ''setpoint'' 0))"
    using num(2) f(2-5) by simp_all
  have pos: "0 < num_or ?d ''K'' 0" "0 < num_or ?d ''T'' 0"
    using num(2) [of "''K''" 0] num(2) [of "''T''" 0] f(2,3,6,7)
    by (auto simp: v_le_def pf_le_def not_less)
  have opt: "real_or ?d ''ambient'' 20 = Some (of_rat (num_or ?d ''ambient'' 20))"
    "real_or ?d ''y0'' q = Some (of_rat (num_or ?d ''y0'' q))"
    "real_or ?d ''dt'' (1 / 2) = Some (of_rat (num_or ?d ''dt'' (1 / 2)))"
    "real_or ?d ''u_min'' 0 = Some (of_rat (num_or ?d ''u_min'' 0))"
    "real_or ?d ''u_max'' 1 = Some (of_rat (num_or ?d ''u_max'' 1))"
    "real_or ?d ''noise_std'' 0 = Some (of_rat (num_or ?d ''noise_std'' 0))" for q
    by (rule num(1), simp)+
  have "\<forall>x \<in> set (the_dicts (get_or ?d ''disturbances'' (PList []))). \<exists>p. disturbance_of x = Some p"
    using f(14) sizes disturbance_number by (auto simp: list_all_iff section_sizes_ok_def)
  then obtain ds where ds: "those (map disturbance_of (the_dicts (get_or ?d ''disturbances'' (PList [])))) = Some ds"
    using those_all by blast
  obtain sp where sp: "spec_of_section str_of ?d = Some sp"
    and sel: "ps_K sp = of_rat (num_or ?d ''K'' 0)" "ps_T sp = of_rat (num_or ?d ''T'' 0)"
      "ps_dt sp = of_rat (num_or ?d ''dt'' (1 / 2))" "ps_duration sp = of_rat (num_or ?d ''duration'' 0)"
      "ps_u_min sp = of_rat (num_or ?d ''u_min'' 0)" "ps_u_max sp = of_rat (num_or ?d ''u_max'' 1)"
      "ps_noise_std sp = of_rat (num_or ?d ''noise_std'' 0)"
      "ps_model sp = text_of str_of (get_or ?d ''model'' (PStr ''heater''))"
    by (simp add: spec_of_section_def Let_def req opt ds)
  have dt: "(1 / 100 :: real) \<le> ps_dt sp"
  proof -
    have "of_rat (1 / 100) \<le> (of_rat (num_or ?d ''dt'' (1 / 2)) :: real)" using f(8) by (simp only: of_rat_less_eq)
    then show ?thesis by (simp add: sel of_rat_divide)
  qed
  have "ps_duration sp / ps_dt sp \<le> of_int 20000"
  proof -
    have "(of_rat (num_or ?d ''duration'' 0 / num_or ?d ''dt'' (1 / 2)) :: real) \<le> of_rat 20000"
      using f(9) by (simp only: of_rat_less_eq)
    then show ?thesis by (simp add: sel of_rat_divide)
  qed
  then have "py_round (ps_duration sp / ps_dt sp) \<le> 20000" by (rule py_round_le)
  then have "loop_count sp \<le> 20000" by (simp add: loop_count_def)
  with sp dt pos f(10,11,12) show ?thesis by (intro exI [of _ sp]) (simp add: sel of_rat_less)
qed

text \<open>A minimal plant task.\<close>

definition plant_yaml :: fields where
  "plant_yaml =
     [(''name'', PStr ''hold''), (''target'', PStr ''plant''),
      (''plant'', PDict [(''K'', PInt 10), (''T'', PInt 4), (''duration'', PInt 20), (''setpoint'', PInt 25),
         (''requirements'', PDict [(''steady_error'', PInt 1)])])]"

lemma plant_yaml_loads:
  "load_task (\<lambda>_. True) (\<lambda>_. []) (Some (PDict plant_yaml)) = Inr (build_task (\<lambda>_. []) plant_yaml)"
proof -
  have "check_plant_section (\<lambda>_. []) (the_dict (get_or plant_yaml ''plant'' (PDict []))) = None"
    by (simp add: plant_yaml_def check_plant_section_def Let_def get_or_def the_dict_def dict_of_def
        keys_within_def PLANT_KEYS_def text_of_def PLANT_MODELS_def has_key_def check_plant_value_def
        is_number_def nonfinite_float_def v_le_def num_val_def pf_le_def num_or_def no_overflow_def
        too_large_def PLANT_REQUIREMENT_KEYS_def check_requirement_def dicts_of_def)
  moreover have "list_all (\<lambda>c. c = None) (convert_checks plant_yaml)" by code_simp
  ultimately have "first_error (task_checks (\<lambda>_. True) (\<lambda>_. []) plant_yaml @ convert_checks plant_yaml) = None"
    unfolding first_error_None list_all_append
    by (simp add: task_checks_def Let_def plant_yaml_def get_or_def full_string_def or_list_def py_or_def
        strings_of_def timeout_error_def int_of_def dicts_of_def the_dicts_def target_of_def text_of_def
        TASK_TARGETS_def ANCHORED_def check_renode_def dict_of_def keys_within_def check_noise_def
        check_mqtt_def any_step_has_def shim_of_def patterns_of_def the_strings_def check_plant_def
        the_dict_def check_tags_def check_level_def check_words_def check_environment_def
        has_environment_def environment_of_def word_string_def when_key_def is_string_def
        blank_iff py_space_def)
  then show ?thesis by (simp add: load_task_def del: first_error_None)
qed

lemma loaded_compatible_witness:
  "check_target_compat (build_task (\<lambda>_. []) plant_yaml) = Inr ()"
  using loaded_compatible [OF plant_yaml_loads] by simp

lemma plant_section_ready_witness:
  "\<exists>sp. spec_of_section (\<lambda>_. []) (t_plant (build_task (\<lambda>_. []) plant_yaml)) = Some sp \<and> 0 < ps_T sp"
proof -
  have "t_target (build_task (\<lambda>_. []) plant_yaml) = ''plant''"
    by (simp add: build_task_sel target_of_def text_of_def plant_yaml_def get_or_def)
  moreover have "t_plant (build_task (\<lambda>_. []) plant_yaml) = the_dict (get_or plant_yaml ''plant'' (PDict []))"
    by (simp add: build_task_sel)
  then have "section_sizes_ok (t_plant (build_task (\<lambda>_. []) plant_yaml))"
    by (simp add: section_sizes_ok_def doubles_only_def plant_yaml_def get_or_def the_dict_def dict_of_def
        the_dicts_def dicts_of_def too_large_def)
  ultimately show ?thesis using plant_section_ready [OF plant_yaml_loads] by blast
qed

section \<open>The gate to the runners\<close>

text \<open>
  C25. The dispatcher is the gate to the hardware: a task reaches a runner iff it is compatible with its
  target, and the live board only with the explicit opt-in or an injected transport; a task that is refused is
  reported as failed for the environment and journaled.
\<close>

theorem run_task_gate:
  "(\<forall>b. run_task allow_real injected t = RunOn b \<longleftrightarrow>
      check_target_compat t = Inr () \<and> b = t_target t \<and> (b = ''real'' \<longrightarrow> allow_real \<or> injected)) \<and>
   (\<forall>r ev. run_task allow_real injected t = Refused r ev \<longrightarrow>
      \<not> tr_passed r \<and> is_infra_result r \<and> tr_error r \<noteq> None \<and> ev = journal_result r)"
proof -
  have refused: "\<not> tr_passed (not_run t m) \<and> is_infra_result (not_run t m) \<and> tr_error (not_run t m) \<noteq> None" for m
    by (simp add: not_run_def is_infra_result_def)
  show ?thesis
  proof (cases "check_target_compat t")
    case (Inl e)
    then show ?thesis using refused by (simp add: run_task_def Let_def)
  next
    case (Inr u)
    then have "compat_problems t = []" by (auto simp: check_target_compat_def split: if_splits)
    then have "t_target t \<in> set TASK_TARGETS" by (simp add: compat_problems_def Let_def split: if_splits)
    then consider "t_target t \<in> {''wokwi'', ''renode'', ''unix'', ''plant''}" "t_target t \<noteq> ''real''"
      | "t_target t = ''real''"
      by (auto simp: TASK_TARGETS_def)
    then show ?thesis
    proof cases
      case 1
      with Inr show ?thesis by (simp only: run_task_def Let_def sum.case if_True) auto
    next
      case 2
      with Inr refused show ?thesis by (auto simp: run_task_def Let_def)
    qed
  qed
qed

definition gate_task :: task where
  "gate_task =
     \<lparr>t_name = ''led'', t_description = [], t_scenario = None, t_entry = ''main.py'', t_timeout_sec = 30,
      t_expect = [''tick''], t_fail = [], t_stimulus = [], t_target = ''real'', t_renode = [], t_noise = [],
      t_plant = [], t_mqtt = [], t_shim = [], t_events = [], t_tags = [], t_level = None, t_notes = [],
      t_boot_expect = [], t_device_modules = [], t_api_hint = []\<rparr>"

lemma run_task_gate_witness:
  "run_task True False gate_task = RunOn ''real'' \<and> run_task False False gate_task \<noteq> RunOn ''real''"
proof -
  have "check_target_compat gate_task = Inr ()" by code_simp
  moreover have "t_target gate_task = ''real''" by (simp add: gate_task_def)
  moreover have "run_task allow_real injected gate_task = RunOn ''real'' \<longleftrightarrow>
      check_target_compat gate_task = Inr () \<and> ''real'' = t_target gate_task \<and>
      (''real'' = ''real'' \<longrightarrow> allow_real \<or> injected)" for allow_real injected
    by (rule spec [OF conjunct1 [OF run_task_gate]])
  ultimately show ?thesis by simp
qed

section \<open>Empty sections\<close>

lemma get_or_null: "get_or ((k, PNone) # raw) j v = (if j = k then PNone else get_or raw j v)"
  by (simp add: get_or_def)

text \<open>
  An empty \<open>mqtt:\<close> key is an error of the wrong class: a task that loads without the key no longer
  loads when the key is given without items, and the exception is a \<open>TypeError\<close> without the path, although an
  empty section is meant to be no error and a format error a \<open>ValueError\<close>.
\<close>

theorem empty_mqtt_section_raises:
  assumes "load_task re_ok str_of (Some (PDict raw)) = Inr t" and "map_of raw ''mqtt'' = None"
  shows "\<exists>m. load_task re_ok str_of (Some (PDict ((''mqtt'', PNone) # raw))) = Inl (Exn TypeErr m)"
proof -
  let ?raw = "(''mqtt'', PNone) # raw"
  have c: "list_all (\<lambda>c. c = None) (task_checks re_ok str_of raw)"
    and cv: "list_all (\<lambda>c. c = None) (convert_checks raw)"
    using assms(1) by (auto simp: load_task_def split: option.splits)
  have m: "get_or raw ''mqtt'' (PDict []) = PDict []" using assms(2) by (simp add: get_or_def)
  have steps: "\<not> any_step_has MQTT_STEP_KEYS (the_dicts (get_or raw ''stimulus'' (PList [])))"
    using loaded_facts(6) [OF c] by (auto simp: m check_mqtt_def)
  have mq: "check_mqtt tg ss PNone = None \<longleftrightarrow> \<not> any_step_has MQTT_STEP_KEYS ss" for tg ss
    by (auto simp: check_mqtt_def dict_of_def)
  have env: "environment_of ?raw = environment_of raw" "or_list ?raw k = (if k = ''mqtt'' then PList [] else or_list raw k)" for k
    by (simp_all add: environment_of_def or_list_def get_or_null py_or_def)
  have same: "target_of str_of ?raw = target_of str_of raw" "shim_of str_of ?raw = shim_of str_of raw"
    "or_list ?raw k = (if k = ''mqtt'' then PList [] else or_list raw k)"
    "patterns_of ?raw = patterns_of raw" "timeout_error ?raw = timeout_error raw"
    "check_environment tg ?raw = check_environment tg raw" for tg k
    by (simp_all add: target_of_def shim_of_def env patterns_of_def timeout_error_def get_or_null)
      (simp only: check_environment_def has_environment_def device_modules_of_def env)
  have "list_all (\<lambda>c. c = None) (task_checks re_ok str_of ?raw)"
    using c steps by (simp add: task_checks_def Let_def mq get_or_null same)
  moreover have "dict_error (get_or ?raw ''plant'' (PDict [])) = None"
    using cv by (simp add: convert_checks_def get_or_null)
  ultimately have "first_error (task_checks re_ok str_of ?raw @ convert_checks ?raw)
      = Some (terr ''object is not iterable'')"
    by (simp add: first_error_append convert_checks_def get_or_null dict_error_def)
  then show ?thesis by (simp add: load_task_def terr_def)
qed

lemma empty_mqtt_section_raises_witness:
  "\<exists>m. load_task (\<lambda>_. True) (\<lambda>_. []) (Some (PDict ((''mqtt'', PNone) # plant_yaml))) = Inl (Exn TypeErr m)"
  using empty_mqtt_section_raises [OF plant_yaml_loads] by (simp add: plant_yaml_def)

end
