(* ===== verification/Floats.thy ===== *)
theory Floats
  imports PyText "HOL-Library.Multiset"
begin

text \<open>
  Sums and differences of floats, which form a commutative monoid: a finite float is the rational it
  denotes, infinities of opposite signs cancel to NaN.
\<close>

instantiation pfloat :: comm_monoid_add
begin

definition zero_pfloat :: pfloat where "zero_pfloat = Fin 0"

fun plus_pfloat :: "pfloat \<Rightarrow> pfloat \<Rightarrow> pfloat" where
  "plus_pfloat (Fin a) (Fin b) = Fin (a + b)"
| "plus_pfloat NaN _ = NaN"
| "plus_pfloat _ NaN = NaN"
| "plus_pfloat (Fin _) y = y"
| "plus_pfloat x (Fin _) = x"
| "plus_pfloat PosInf PosInf = PosInf"
| "plus_pfloat NegInf NegInf = NegInf"
| "plus_pfloat _ _ = NaN"

instance
proof
  fix a b c :: pfloat
  show "a + b + c = a + (b + c)" by (cases a; cases b; cases c) simp_all
  show "a + b = b + a" by (cases a; cases b) simp_all
  show "0 + a = a" by (cases a) (simp_all add: zero_pfloat_def)
qed

end

definition pf_minus :: "pfloat \<Rightarrow> pfloat \<Rightarrow> pfloat" where
  "pf_minus x y = x + pf_neg y"

lemma pf_minus_finite [simp]: "pf_minus (Fin a) (Fin b) = Fin (a - b)"
  by (simp add: pf_minus_def)

text \<open>A sum does not depend on the order of its terms.\<close>

lemma sum_list_mset_cong:
  "mset xs = mset ys \<Longrightarrow> sum_list (map h xs) = (sum_list (map h ys) :: 'n :: comm_monoid_add)"
  unfolding sum_mset_sum_list [symmetric] by simp

end
