(* ===== verification/Report.thy ===== *)
theory Report
  imports TaskModel TextLines Floats "HOL-Library.Multiset" "HOL-Library.Char_ord" "HOL-Library.List_Lexorder"
    "HOL-Library.Product_Lexorder"
begin

text \<open>
  The campaign report (\<open>src/ironbench/report.py\<close>): reading the result lines, aggregation per model
  and task, pass@k, pass^k, pass@1 and the profile per class. \<open>json.loads\<close> is a parameter; a number is the
  rational it denotes. The model and task of a record are strings, as the solve loop writes them.
\<close>

section \<open>Reading\<close>

text \<open>One line: nothing for a blank or a tombstone, \<open>Inl\<close> for one that is no JSON object.\<close>

definition parse_line :: "(string \<Rightarrow> pyval option) \<Rightarrow> string \<Rightarrow> (unit + fields) option" where
  "parse_line json line =
     (if blank line then None
      else case json line of
        Some (PDict rec) \<Rightarrow> if truthy (get_or rec ''tombstone'' PNone) then None else Some (Inr rec)
      | _ \<Rightarrow> Some (Inl ()))"

definition load_file :: "(string \<Rightarrow> pyval option) \<Rightarrow> string \<Rightarrow> fields list \<times> nat" where
  "load_file json txt =
     (let ps = List.map_filter (parse_line json) (splitlines txt) in
      (List.map_filter (\<lambda>p. case p of Inr rec \<Rightarrow> Some rec | Inl _ \<Rightarrow> None) ps,
       length (filter isl ps)))"

text \<open>The files in the order of their paths; the counts of bad lines by file.\<close>

definition load_results ::
  "(string \<Rightarrow> pyval option) \<Rightarrow> (string \<times> string) list \<Rightarrow> fields list \<times> (string \<times> nat) list" where
  "load_results json files =
     (let fs = sort_key fst files in
      (concat (map (\<lambda>(p, txt). fst (load_file json txt)) fs),
       filter (\<lambda>(p, n). n > 0) (map (\<lambda>(p, txt). (p, snd (load_file json txt))) fs)))"

section \<open>Aggregation\<close>

record attempt_row =
  rw_model :: string
  rw_task :: string
  rw_solved :: bool
  rw_infra :: bool
  rw_iterations :: int
  rw_duration :: pfloat

text \<open>\<open>_to_int\<close> and \<open>_to_float\<close>: \<open>TypeError\<close> and \<open>ValueError\<close> give the default; an infinite value makes
  \<open>int()\<close>, and an integer beyond the doubles makes \<open>float()\<close>, raise \<open>OverflowError\<close>, which is not caught.\<close>

definition to_int :: "pyval \<Rightarrow> exn + int" where
  "to_int v =
     (case int_of v of
        Inr i \<Rightarrow> Inr i
      | Inl e \<Rightarrow> if eclass e \<in> {TypeErr, ValueErr} then Inr 0 else Inl e)"

definition to_float :: "pyval \<Rightarrow> exn + pfloat" where
  "to_float v =
     (case v of
        PInt i \<Rightarrow>
          (if \<bar>i\<bar> \<ge> 2 ^ 1024 - 2 ^ 970 then Inl (Exn OtherErr (PStr ''OverflowError'')) else Inr (Fin (of_int i)))
      | PBool b \<Rightarrow> Inr (Fin (if b then 1 else 0))
      | PNum f \<Rightarrow> Inr f
      | PStr s \<Rightarrow> Inr (case py_float s of Some f \<Rightarrow> f | None \<Rightarrow> Fin 0)
      | _ \<Rightarrow> Inr (Fin 0))"

definition str_field :: "fields \<Rightarrow> string \<Rightarrow> string" where
  "str_field rec k = (case get_or rec k (PStr ''?'') of PStr s \<Rightarrow> s | _ \<Rightarrow> ''?'')"

definition row_of :: "fields \<Rightarrow> exn + attempt_row" where
  "row_of rec =
     (case to_int (get_or rec ''iterations'' PNone) of
        Inl e \<Rightarrow> Inl e
      | Inr n \<Rightarrow>
          (case to_float (get_or rec ''duration_sec'' PNone) of
             Inl e \<Rightarrow> Inl e
           | Inr d \<Rightarrow>
               Inr \<lparr>rw_model = str_field rec ''model'', rw_task = str_field rec ''task'',
                    rw_solved = truthy (get_or rec ''solved'' PNone),
                    rw_infra = (get_or rec ''error_kind'' PNone = PStr ''infra''),
                    rw_iterations = n, rw_duration = d\<rparr>))"

type_synonym pair_key = "string \<times> string"

record group_stats =
  g_model :: string
  g_task :: string
  g_attempts :: nat
  g_solved :: nat
  g_iterations :: int
  g_duration :: pfloat
  g_infra :: nat

definition row_key :: "attempt_row \<Rightarrow> pair_key" where
  "row_key r = (rw_model r, rw_task r)"

text \<open>An attempt that failed for the environment; a solved one never counts as such.\<close>

definition infra_row :: "attempt_row \<Rightarrow> bool" where
  "infra_row r = (rw_infra r \<and> \<not> rw_solved r)"

definition live_row :: "attempt_row \<Rightarrow> bool" where
  "live_row r = (\<not> infra_row r)"

definition group_init :: "pair_key \<Rightarrow> group_stats" where
  "group_init k =
     \<lparr>g_model = fst k, g_task = snd k, g_attempts = 0, g_solved = 0, g_iterations = 0, g_duration = 0, g_infra = 0\<rparr>"

definition group_add :: "attempt_row \<Rightarrow> group_stats \<Rightarrow> group_stats" where
  "group_add r g =
     g\<lparr>g_attempts := g_attempts g + 1, g_solved := g_solved g + (if rw_solved r then 1 else 0),
       g_iterations := g_iterations g + rw_iterations r, g_duration := g_duration g + rw_duration r,
       g_infra := g_infra g + (if infra_row r then 1 else 0)\<rparr>"

text \<open>The default dictionary, in the order of first use.\<close>

fun tally_row :: "attempt_row \<Rightarrow> (pair_key \<times> group_stats) list \<Rightarrow> (pair_key \<times> group_stats) list" where
  "tally_row r [] = [(row_key r, group_add r (group_init (row_key r)))]"
| "tally_row r ((k, g) # al) =
     (if k = row_key r then (k, group_add r g) # al else (k, g) # tally_row r al)"

definition tally :: "attempt_row list \<Rightarrow> (pair_key \<times> group_stats) list" where
  "tally rows = fold tally_row rows []"

definition aggregate :: "attempt_row list \<Rightarrow> group_stats list" where
  "aggregate rows = map snd (sort_key fst (tally rows))"

section \<open>Rates\<close>

definition effective_attempts :: "group_stats \<Rightarrow> nat" where
  "effective_attempts g = g_attempts g - g_infra g"

definition incomplete :: "group_stats \<Rightarrow> bool" where
  "incomplete g = (g_attempts g > 0 \<and> effective_attempts g = 0)"

definition success_rate :: "group_stats \<Rightarrow> rat option" where
  "success_rate g =
     (if effective_attempts g = 0 then None
      else Some (round2 (of_nat (g_solved g) / of_nat (effective_attempts g))))"

definition avg_iterations :: "group_stats \<Rightarrow> rat" where
  "avg_iterations g =
     (if g_attempts g = 0 then 0
      else of_int (py_round (of_int (g_iterations g) / of_nat (g_attempts g) * 10 :: rat)) / 10)"

definition avg_duration :: "group_stats \<Rightarrow> pfloat" where
  "avg_duration g =
     (if g_attempts g = 0 then Fin 0
      else case g_duration g of
        Fin q \<Rightarrow> Fin (of_int (py_round (q / of_nat (g_attempts g) * 10)) / 10)
      | f \<Rightarrow> f)"

definition group_passed :: "group_stats \<Rightarrow> bool" where
  "group_passed g = (g_solved g > 0)"

definition all_solved :: "group_stats \<Rightarrow> bool" where
  "all_solved g = (group_passed g \<and> g_solved g = effective_attempts g)"

definition share :: "('a \<Rightarrow> bool) \<Rightarrow> 'a list \<Rightarrow> rat" where
  "share P xs = (if xs = [] then 0 else round2 (of_nat (length (filter P xs)) / of_nat (length xs)))"

definition complete_groups :: "attempt_row list \<Rightarrow> group_stats list" where
  "complete_groups rows = filter (\<lambda>g. \<not> incomplete g) (aggregate rows)"

definition pass_at_k :: "attempt_row list \<Rightarrow> rat" where
  "pass_at_k rows = share group_passed (complete_groups rows)"

definition pass_at_k_reliability :: "attempt_row list \<Rightarrow> rat" where
  "pass_at_k_reliability rows = share (\<lambda>g. g_solved g = effective_attempts g) (complete_groups rows)"

definition pass_at_1 :: "attempt_row list \<Rightarrow> rat" where
  "pass_at_1 rows =
     (let gs = complete_groups rows in
      if gs = [] then 0
      else round2 (sum_list (map (\<lambda>g. the (success_rate g)) gs) / of_nat (length gs)))"

section \<open>Class profile\<close>

text \<open>The tags of a task, \<open>None\<close> when there is no metadata. A cell counts attempts and solved.\<close>

type_synonym profile = "(pair_key \<times> nat \<times> nat) list"

fun cell_add :: "pair_key \<Rightarrow> bool \<Rightarrow> profile \<Rightarrow> profile" where
  "cell_add k b [] = [(k, 1, if b then 1 else 0)]"
| "cell_add k b ((j, a, s) # p) =
     (if j = k then (j, a + 1, s + (if b then 1 else 0)) # p else (j, a, s) # cell_add k b p)"

definition profile_row :: "(string \<rightharpoonup> string list) \<Rightarrow> attempt_row \<Rightarrow> profile \<Rightarrow> profile" where
  "profile_row meta r p =
     (case meta (rw_task r) of
        None \<Rightarrow> p
      | Some tags \<Rightarrow>
          if infra_row r then p
          else fold (\<lambda>tag. cell_add (rw_model r, tag) (rw_solved r)) tags p)"

definition class_profile :: "(string \<rightharpoonup> string list) \<Rightarrow> attempt_row list \<Rightarrow> profile" where
  "class_profile meta rows = sort_key fst (fold (profile_row meta) rows [])"

definition cell_rate :: "nat \<times> nat \<Rightarrow> rat" where
  "cell_rate c = (case c of (attempts, solved) \<Rightarrow>
     if attempts = 0 then 0 else round2 (of_nat solved / of_nat attempts))"

section \<open>The report\<close>

text \<open>One group as it is reported, with the tags and the level of its task.\<close>

record group_report =
  gr_stats :: group_stats
  gr_success_rate :: "rat option"
  gr_avg_iterations :: rat
  gr_avg_duration :: pfloat
  gr_passed :: bool
  gr_all_solved :: bool
  gr_incomplete :: bool
  gr_tags :: "string list"
  gr_level :: "int option"

record campaign_report =
  cr_campaign :: string
  cr_models :: "string list"
  cr_tasks :: "string list"
  cr_pass_at_k :: rat
  cr_pass_at_1 :: rat
  cr_reliability :: rat
  cr_groups :: "group_report list"
  cr_profile :: profile
  cr_unparseable :: "(string \<times> nat) list"

definition group_report_of :: "(string \<rightharpoonup> string list \<times> int option) \<Rightarrow> group_stats \<Rightarrow> group_report" where
  "group_report_of meta g =
     (case (case meta (g_task g) of Some m \<Rightarrow> m | None \<Rightarrow> ([], None)) of (tags, level) \<Rightarrow>
       \<lparr>gr_stats = g, gr_success_rate = success_rate g, gr_avg_iterations = avg_iterations g,
        gr_avg_duration = avg_duration g, gr_passed = group_passed g, gr_all_solved = all_solved g,
        gr_incomplete = incomplete g, gr_tags = tags, gr_level = level\<rparr>)"

fun rows_of :: "fields list \<Rightarrow> exn + attempt_row list" where
  "rows_of [] = Inr []"
| "rows_of (rec # recs) =
     (case row_of rec of
        Inl e \<Rightarrow> Inl e
      | Inr r \<Rightarrow> map_sum id ((#) r) (rows_of recs))"

definition build_report ::
  "(string \<Rightarrow> pyval option) \<Rightarrow> string \<Rightarrow> (string \<rightharpoonup> string list \<times> int option) \<Rightarrow> (string \<times> string) list
   \<Rightarrow> exn + campaign_report" where
  "build_report json campaign meta files =
     (case load_results json files of (recs, unparseable) \<Rightarrow>
      case rows_of recs of
        Inl e \<Rightarrow> Inl e
      | Inr rows \<Rightarrow>
          let stats = aggregate rows in
          Inr \<lparr>cr_campaign = campaign, cr_models = sorted_list_of_set (set (map g_model stats)),
               cr_tasks = sorted_list_of_set (set (map g_task stats)),
               cr_pass_at_k = pass_at_k rows, cr_pass_at_1 = pass_at_1 rows,
               cr_reliability = pass_at_k_reliability rows,
               cr_groups = map (group_report_of meta) stats,
               cr_profile = class_profile (\<lambda>t. map_option fst (meta t)) rows,
               cr_unparseable = unparseable\<rparr>)"

section \<open>Aggregation is counting\<close>

definition count_rows :: "(attempt_row \<Rightarrow> bool) \<Rightarrow> pair_key \<Rightarrow> attempt_row list \<Rightarrow> nat" where
  "count_rows P k rows = length (filter (\<lambda>r. row_key r = k \<and> P r) rows)"

definition group_spec :: "attempt_row list \<Rightarrow> pair_key \<Rightarrow> group_stats" where
  "group_spec rows k =
     (let rs = filter (\<lambda>r. row_key r = k) rows in
      \<lparr>g_model = fst k, g_task = snd k, g_attempts = length rs, g_solved = length (filter rw_solved rs),
       g_iterations = sum_list (map rw_iterations rs), g_duration = sum_list (map rw_duration rs),
       g_infra = length (filter infra_row rs)\<rparr>)"

lemma group_spec_snoc:
  "group_spec (rows @ [r]) k = (if row_key r = k then group_add r (group_spec rows k) else group_spec rows k)"
  by (simp add: group_spec_def group_add_def Let_def)

lemma group_spec_none: "k \<notin> row_key ` set rows \<Longrightarrow> group_spec rows k = group_init k"
proof -
  assume "k \<notin> row_key ` set rows"
  then have "filter (\<lambda>r. row_key r = k) rows = []" by (auto simp: filter_empty_conv)
  then show ?thesis by (simp add: group_spec_def group_init_def)
qed

lemma tally_row_keys: "map fst (tally_row r al) =
    (if row_key r \<in> fst ` set al then map fst al else map fst al @ [row_key r])"
  by (induction r al rule: tally_row.induct) force+

lemma tally_row_map:
  "distinct (map fst al) \<Longrightarrow>
   map_of (tally_row r al) = (map_of al)(row_key r \<mapsto>
     group_add r (case map_of al (row_key r) of Some g \<Rightarrow> g | None \<Rightarrow> group_init (row_key r)))"
  by (induction al) auto

lemma tally_spec:
  "distinct (map fst (tally rows)) \<and> fst ` set (tally rows) = row_key ` set rows \<and>
   (\<forall>k g. map_of (tally rows) k = Some g \<longrightarrow> g = group_spec rows k)"
proof (induction rows rule: rev_induct)
  case Nil
  show ?case by (simp add: tally_def)
next
  case (snoc r rows)
  have t: "tally (rows @ [r]) = tally_row r (tally rows)" by (simp add: tally_def)
  have none: "map_of (tally rows) (row_key r) = None \<Longrightarrow> group_spec rows (row_key r) = group_init (row_key r)"
    using snoc by (intro group_spec_none) (simp add: map_of_eq_None_iff)
  have "distinct (map fst (tally (rows @ [r])))"
    using snoc by (simp add: t tally_row_keys)
  moreover have "fst ` set (tally (rows @ [r])) = row_key ` set (rows @ [r])"
  proof -
    have "fst ` set (tally (rows @ [r])) = set (map fst (tally_row r (tally rows)))" by (simp add: t)
    then show ?thesis using snoc by (auto simp: tally_row_keys)
  qed
  moreover have "g = group_spec (rows @ [r]) k" if "map_of (tally (rows @ [r])) k = Some g" for k g
  proof -
    have ih: "map_of (tally rows) k = Some h \<Longrightarrow> h = group_spec rows k" for h using snoc by blast
    show ?thesis
    proof (cases "k = row_key r")
      case True
      with that snoc ih none show ?thesis
        by (cases "map_of (tally rows) (row_key r)") (simp_all add: t tally_row_map group_spec_snoc)
    next
      case False
      with that snoc ih show ?thesis by (simp add: t tally_row_map group_spec_snoc)
    qed
  qed
  ultimately show ?case by blast
qed

lemma tally_sorted:
  "sort_key fst (tally rows) = map (\<lambda>k. (k, group_spec rows k)) (sorted_list_of_set (row_key ` set rows))"
proof -
  let ?s = "sort_key fst (tally rows)"
  have d: "distinct (map fst (tally rows))" and dom: "fst ` set (tally rows) = row_key ` set rows"
    using tally_spec by blast+
  have keys: "map fst ?s = sorted_list_of_set (row_key ` set rows)"
  proof (rule sorted_distinct_set_unique)
    show "sorted (map fst ?s)" by simp
    have "mset (map fst ?s) = mset (map fst (tally rows))" by simp
    then show "distinct (map fst ?s)" using d by (metis mset_eq_imp_distinct_iff)
    show "set (map fst ?s) = set (sorted_list_of_set (row_key ` set rows))" using dom by simp
  qed simp_all
  have "p = (fst p, group_spec rows (fst p))" if "p \<in> set ?s" for p
  proof -
    have "map_of (tally rows) (fst p) = Some (snd p)" using that d by (intro map_of_is_SomeI) simp_all
    then have "snd p = group_spec rows (fst p)" using tally_spec by blast
    then show ?thesis by (metis prod.collapse)
  qed
  then have "?s = map (\<lambda>p. (fst p, group_spec rows (fst p))) ?s" by (intro map_idI [symmetric]) simp
  then show ?thesis by (metis (no_types, lifting) keys map_map comp_apply map_eq_conv)
qed

text \<open>
  The report counts exactly: the groups are those of the model and task pairs that occur, in their
  order, and each holds the number of its attempts, of the solved and of the infrastructure failures
  among them, and the sums of iterations and durations; so the order of the records does not matter.
\<close>

theorem aggregate_counts:
  "aggregate rows = map (group_spec rows) (sorted_list_of_set (row_key ` set rows)) \<and>
   (mset rows = mset rows' \<longrightarrow> aggregate rows = aggregate rows')"
proof -
  have agg: "aggregate rs = map (group_spec rs) (sorted_list_of_set (row_key ` set rs))" for rs
    by (simp add: aggregate_def tally_sorted)
  have "aggregate rows = aggregate rows'" if eq: "mset rows = mset rows'"
  proof -
    have "group_spec rows k = group_spec rows' k" for k
    proof -
      let ?f = "filter (\<lambda>r. row_key r = k)"
      have m: "mset (?f rows) = mset (?f rows')" using eq by simp
      have "mset (filter P (?f rows)) = mset (filter P (?f rows'))" for P
        using m by (simp only: mset_filter)
      then have "length (filter P (?f rows)) = length (filter P (?f rows'))" for P
        by (rule mset_eq_length)
      moreover have "sum_list (map rw_iterations (?f rows)) = sum_list (map rw_iterations (?f rows'))"
        "sum_list (map rw_duration (?f rows)) = sum_list (map rw_duration (?f rows'))"
        using m by (rule sum_list_mset_cong)+
      moreover have "length (?f rows) = length (?f rows')" using m by (rule mset_eq_length)
      ultimately show ?thesis by (simp add: group_spec_def Let_def)
    qed
    moreover have "set rows = set rows'" using eq by (rule mset_eq_setD)
    ultimately show ?thesis by (simp add: agg)
  qed
  with agg show ?thesis by blast
qed

definition demo_row :: "string \<Rightarrow> bool \<Rightarrow> bool \<Rightarrow> attempt_row" where
  "demo_row t solved infra =
     \<lparr>rw_model = ''m'', rw_task = t, rw_solved = solved, rw_infra = infra, rw_iterations = 2, rw_duration = Fin 1\<rparr>"

lemma aggregate_counts_witness:
  "aggregate [demo_row ''a'' True False, demo_row ''b'' False True] =
   aggregate [demo_row ''b'' False True, demo_row ''a'' True False]"
proof -
  have "mset [demo_row ''a'' True False, demo_row ''b'' False True] =
      mset [demo_row ''b'' False True, demo_row ''a'' True False]"
    by (simp add: add_mset_commute)
  with aggregate_counts show ?thesis by blast
qed

section \<open>Infrastructure failures do not count\<close>

lemma aggregate_eq: "aggregate rows = map (group_spec rows) (sorted_list_of_set (row_key ` set rows))"
  by (simp add: aggregate_def tally_sorted)

definition live_count :: "attempt_row list \<Rightarrow> pair_key \<Rightarrow> nat" where
  "live_count rows k = length (filter (\<lambda>r. row_key r = k \<and> live_row r) rows)"

definition solved_count :: "attempt_row list \<Rightarrow> pair_key \<Rightarrow> nat" where
  "solved_count rows k = length (filter (\<lambda>r. row_key r = k \<and> rw_solved r) rows)"

lemma group_spec_counts:
  "effective_attempts (group_spec rows k) = live_count rows k"
  "g_solved (group_spec rows k) = solved_count rows k"
proof -
  let ?rs = "filter (\<lambda>r. row_key r = k) rows"
  have "length ?rs = length (filter infra_row ?rs) + length (filter (\<lambda>r. \<not> infra_row r) ?rs)"
    by (rule sum_length_filter_compl [symmetric])
  then show "effective_attempts (group_spec rows k) = live_count rows k"
    by (simp add: effective_attempts_def group_spec_def live_count_def live_row_def Let_def)
  show "g_solved (group_spec rows k) = solved_count rows k"
    by (simp add: group_spec_def solved_count_def Let_def)
qed

lemma solved_le_live: "solved_count rows k \<le> live_count rows k"
proof -
  have "filter (\<lambda>r. row_key r = k \<and> rw_solved r) rows
      = filter rw_solved (filter (\<lambda>r. row_key r = k \<and> live_row r) rows)"
    by (rule trans [OF _ filter_filter [symmetric]], rule filter_cong)
      (auto simp: live_row_def infra_row_def)
  then show ?thesis unfolding solved_count_def live_count_def by (metis length_filter_le)
qed

definition live_keys :: "attempt_row list \<Rightarrow> pair_key list" where
  "live_keys rows = sorted_list_of_set (row_key ` set (filter live_row rows))"

lemma live_count_pos: "0 < live_count rows k \<longleftrightarrow> k \<in> set (live_keys rows)"
proof -
  have "0 < live_count rows k \<longleftrightarrow> filter (\<lambda>r. row_key r = k \<and> live_row r) rows \<noteq> []"
    by (simp add: live_count_def)
  then show ?thesis by (auto simp: live_keys_def filter_empty_conv)
qed

lemma complete_groups_eq: "complete_groups rows = map (group_spec rows) (live_keys rows)"
proof -
  let ?ks = "sorted_list_of_set (row_key ` set rows)"
  have inc: "incomplete (group_spec rows k) \<longleftrightarrow> live_count rows k = 0" if k: "k \<in> set ?ks" for k
  proof -
    obtain r where "r \<in> set rows" "row_key r = k" using k by auto
    then have "filter (\<lambda>r. row_key r = k) rows \<noteq> []" by (auto simp: filter_empty_conv)
    then have "0 < g_attempts (group_spec rows k)" by (simp add: group_spec_def Let_def)
    then show ?thesis by (simp add: incomplete_def group_spec_counts)
  qed
  have "filter (\<lambda>k. 0 < live_count rows k) ?ks = live_keys rows"
  proof (rule sorted_distinct_set_unique)
    show "sorted (filter (\<lambda>k. 0 < live_count rows k) ?ks)"
      using sorted_filter [of "\<lambda>k. k" ?ks] by simp
    show "set (filter (\<lambda>k. 0 < live_count rows k) ?ks) = set (live_keys rows)"
      by (auto simp: live_count_pos) (auto simp: live_keys_def)
  qed (simp_all add: live_keys_def)
  moreover have "filter (\<lambda>g. \<not> incomplete g) (map (group_spec rows) ?ks)
      = map (group_spec rows) (filter (\<lambda>k. 0 < live_count rows k) ?ks)"
    unfolding filter_map by (rule arg_cong [where f = "map (group_spec rows)"], rule filter_cong)
      (simp_all add: inc)
  ultimately show ?thesis by (simp add: complete_groups_def aggregate_eq)
qed

lemma counts_filter_live:
  "live_count (filter live_row rows) k = live_count rows k"
  "solved_count (filter live_row rows) k = solved_count rows k"
  "live_keys (filter live_row rows) = live_keys rows"
proof -
  show "live_count (filter live_row rows) k = live_count rows k"
    unfolding live_count_def filter_filter by (rule arg_cong [where f = length], rule filter_cong) auto
  show "solved_count (filter live_row rows) k = solved_count rows k"
    unfolding solved_count_def filter_filter
    by (rule arg_cong [where f = length], rule filter_cong) (auto simp: live_row_def infra_row_def)
  show "live_keys (filter live_row rows) = live_keys rows" by (simp add: live_keys_def)
qed

lemma share_map: "share P (map f xs) = share (\<lambda>x. P (f x)) xs"
  by (simp add: share_def filter_map comp_def)

lemma scores_eq:
  "pass_at_k rows = share (\<lambda>k. 0 < solved_count rows k) (live_keys rows)"
  "pass_at_k_reliability rows = share (\<lambda>k. solved_count rows k = live_count rows k) (live_keys rows)"
  "pass_at_1 rows =
     (let ks = live_keys rows in
      if ks = [] then 0
      else round2 (sum_list (map (\<lambda>k. round2 (of_nat (solved_count rows k) / of_nat (live_count rows k))) ks)
             / of_nat (length ks)))"
proof -
  have rate: "the (success_rate (group_spec rows k)) = round2 (of_nat (solved_count rows k) / of_nat (live_count rows k))"
    if "k \<in> set (live_keys rows)" for k
    using that live_count_pos [of rows k] by (simp add: success_rate_def group_spec_counts)
  show "pass_at_1 rows =
     (let ks = live_keys rows in
      if ks = [] then 0
      else round2 (sum_list (map (\<lambda>k. round2 (of_nat (solved_count rows k) / of_nat (live_count rows k))) ks)
             / of_nat (length ks)))"
    using rate by (simp add: pass_at_1_def complete_groups_eq Let_def comp_def cong: map_cong)
qed (simp_all add: pass_at_k_def pass_at_k_reliability_def complete_groups_eq share_map
      group_spec_counts group_passed_def)

lemma profile_live: "fold (profile_row meta) rows p = fold (profile_row meta) (filter live_row rows) p"
  by (induction rows arbitrary: p) (auto simp: profile_row_def live_row_def split: option.split)

text \<open>
  C39. The report is honest about the environment: attempts that failed for the infrastructure change no score;
  pass@k, pass^k, pass@1 and the class profile are those of the live attempts alone.
\<close>

theorem infra_neutral:
  "pass_at_k rows = pass_at_k (filter live_row rows) \<and>
   pass_at_k_reliability rows = pass_at_k_reliability (filter live_row rows) \<and>
   pass_at_1 rows = pass_at_1 (filter live_row rows) \<and>
   class_profile meta rows = class_profile meta (filter live_row rows)"
  unfolding scores_eq counts_filter_live class_profile_def
  using profile_live [of meta rows "[]"] by simp

section \<open>The scores are ordered\<close>

lemma length_filter_sum: "(of_nat (length (filter P xs)) :: rat) = sum_list (map (\<lambda>x. if P x then 1 else 0) xs)"
  by (induction xs) auto

text \<open>
  The scores are consistent: reliability is at most pass@1, which is at most pass@k, and all lie
  between 0 and 1.
\<close>

theorem scores_ordered:
  "0 \<le> pass_at_k_reliability rows \<and> pass_at_k_reliability rows \<le> pass_at_1 rows \<and>
   pass_at_1 rows \<le> pass_at_k rows \<and> pass_at_k rows \<le> 1"
proof (cases "live_keys rows = []")
  case True
  then show ?thesis by (simp add: scores_eq share_def)
next
  case False
  let ?ks = "live_keys rows" and ?n = "of_nat (length (live_keys rows)) :: rat"
  let ?rate = "\<lambda>k. round2 (of_nat (solved_count rows k) / of_nat (live_count rows k))"
  let ?all = "sum_list (map (\<lambda>k. if solved_count rows k = live_count rows k then 1 else 0) ?ks) :: rat"
  let ?any = "sum_list (map (\<lambda>k. if 0 < solved_count rows k then 1 else 0) ?ks) :: rat"
  let ?sum = "sum_list (map ?rate ?ks)"
  have n: "0 < ?n" using False by simp
  have r01: "0 \<le> ?rate k \<and> ?rate k \<le> 1" for k
    using solved_le_live [of rows k] by (intro round2_unit) (auto simp: divide_le_eq)
  have one: "round2 1 = 1" "round2 0 = 0" by (simp_all add: round2_def py_round_def)
  have "?all \<le> ?sum"
  proof (rule sum_list_mono)
    fix k assume "k \<in> set ?ks"
    then have "0 < live_count rows k" by (simp add: live_count_pos)
    then show "(if solved_count rows k = live_count rows k then 1 else 0) \<le> ?rate k"
      using r01 [of k] one by auto
  qed
  moreover have "?sum \<le> ?any"
    by (rule sum_list_mono) (use r01 one in auto)
  moreover have "0 \<le> ?all" by (rule sum_list_nonneg) auto
  moreover have "?any \<le> ?n"
  proof -
    have "?any = of_nat (length (filter (\<lambda>k. 0 < solved_count rows k) ?ks))" by (simp only: length_filter_sum)
    also have "\<dots> \<le> ?n" by (simp only: of_nat_le_iff length_filter_le)
    finally show ?thesis .
  qed
  moreover have "pass_at_k_reliability rows = round2 (?all / ?n)" "pass_at_k rows = round2 (?any / ?n)"
    "pass_at_1 rows = round2 (?sum / ?n)"
    using False by (simp_all only: scores_eq share_def length_filter_sum if_False Let_def)
  ultimately show ?thesis
    using n round2_mono [of "?all / ?n" "?sum / ?n"] round2_mono [of "?sum / ?n" "?any / ?n"]
      round2_unit [of "?all / ?n"] round2_unit [of "?any / ?n"]
    by (simp add: divide_right_mono)
qed

section \<open>Garbage that is not tolerated\<close>

text \<open>An infinite iteration count, which \<open>json.loads\<close> accepts, raises; other garbage counts as 0.\<close>

lemma infinite_iterations_raise:
  "row_of [(''iterations'', PNum PosInf)] = Inl (Exn OtherErr (PStr ''OverflowError''))"
  "\<exists>r. row_of [(''iterations'', PNone)] = Inr r \<and> rw_iterations r = 0"
  by (simp_all add: row_of_def to_int_def to_float_def get_or_def int_of_def)

section \<open>Every line is accounted for\<close>

definition tombstone_line :: "(string \<Rightarrow> pyval option) \<Rightarrow> string \<Rightarrow> bool" where
  "tombstone_line json l =
     (case json l of Some (PDict rec) \<Rightarrow> truthy (get_or rec ''tombstone'' PNone) | _ \<Rightarrow> False)"

definition full_lines :: "string \<Rightarrow> string list" where
  "full_lines txt = filter (\<lambda>l. \<not> blank l) (splitlines txt)"

lemma load_file_lines:
  "length (fst (load_file json txt)) + snd (load_file json txt) + length (filter (tombstone_line json) (full_lines txt))
     = length (full_lines txt)"
proof -
  let ?ps = "\<lambda>ls. List.map_filter (parse_line json) ls"
  have "length (List.map_filter (\<lambda>p. case p of Inr rec \<Rightarrow> Some rec | Inl _ \<Rightarrow> None) (?ps ls)) + length (filter isl (?ps ls))
      + length (filter (tombstone_line json) (filter (\<lambda>l. \<not> blank l) ls)) = length (filter (\<lambda>l. \<not> blank l) ls)" for ls
    by (induction ls)
      (auto simp: List.map_filter_def parse_line_def tombstone_line_def split: option.splits pyval.splits)
  then show ?thesis by (simp add: load_file_def full_lines_def Let_def)
qed

lemma load_results_parts:
  "fst (load_results json files) = concat (map (\<lambda>f. fst (load_file json (snd f))) (sort_key fst files))"
  "map snd (snd (load_results json files)) = filter (\<lambda>n. 0 < n) (map (\<lambda>f. snd (load_file json (snd f))) (sort_key fst files))"
proof -
  have "map snd (filter (\<lambda>(p, n). n > 0) (map (\<lambda>(p, txt). (p, h txt)) fs)) = filter (\<lambda>n. 0 < n) (map (\<lambda>f. h (snd f)) fs)"
    for h :: "string \<Rightarrow> nat" and fs :: "(string \<times> string) list"
    by (induction fs) auto
  then show "map snd (snd (load_results json files)) = filter (\<lambda>n. 0 < n) (map (\<lambda>f. snd (load_file json (snd f))) (sort_key fst files))"
    unfolding load_results_def Let_def snd_conv .
  show "fst (load_results json files) = concat (map (\<lambda>f. fst (load_file json (snd f))) (sort_key fst files))"
    unfolding load_results_def Let_def by (simp only: fst_conv case_prod_beta')
qed

lemma rows_of_length: "rows_of recs = Inr rows \<Longrightarrow> length rows = length recs"
proof (induction recs arbitrary: rows)
  case (Cons rec recs)
  then show ?case by (cases "rows_of recs") (auto split: sum.splits)
qed simp

lemma filter_sum: "sum_list (filter (\<lambda>n. 0 < n) ns) = sum_list (ns :: nat list)"
  by (induction ns) auto

lemma attempts_sum: "sum_list (map g_attempts (aggregate rows)) = length rows"
proof -
  let ?K = "row_key ` set rows"
  have "sum_list (map g_attempts (aggregate rows)) = (\<Sum>k \<in> ?K. g_attempts (group_spec rows k))"
    by (simp add: aggregate_eq comp_def sum_list_distinct_conv_sum_set)
  also have "\<dots> = (\<Sum>k \<in> ?K. length (filter (\<lambda>r. row_key r = k) rows))"
    by (simp add: group_spec_def Let_def)
  also have "\<dots> = (\<Sum>k \<in> ?K. count_list (map row_key rows) k)"
    by (simp add: count_list_eq_length_filter filter_map comp_def eq_commute)
  also have "\<dots> = length (map row_key rows)"
    using sum_count_set [of "map row_key rows" ?K] by simp
  finally show ?thesis by simp
qed

text \<open>Nothing is dropped silently: the attempts of all groups, the unparseable lines reported and the
  tombstones together are exactly the lines of the result files that are not blank.
\<close>

theorem report_accounts_for_lines:
  assumes "build_report json campaign meta files = Inr r"
  shows "sum_list (map (\<lambda>g. g_attempts (gr_stats g)) (cr_groups r)) + sum_list (map snd (cr_unparseable r))
      + length (filter (tombstone_line json) (concat (map (\<lambda>f. full_lines (snd f)) files)))
    = length (concat (map (\<lambda>f. full_lines (snd f)) files))"
proof -
  let ?fs = "sort_key fst files"
  have stats: "gr_stats (group_report_of meta g) = g" for g
    by (simp add: group_report_of_def split: prod.split)
  obtain recs bad rows where l: "load_results json files = (recs, bad)" and rows: "rows_of recs = Inr rows"
    and r: "map gr_stats (cr_groups r) = aggregate rows" "cr_unparseable r = bad"
    using assms by (auto simp: build_report_def Let_def comp_def stats split: prod.splits sum.splits)
  have "map snd bad = filter (\<lambda>n. 0 < n) (map (\<lambda>f. snd (load_file json (snd f))) ?fs)"
    using load_results_parts [of json files] l by simp
  then have bad: "sum_list (map snd bad) = sum_list (map (\<lambda>f. snd (load_file json (snd f))) ?fs)"
    by (simp add: filter_sum)
  have attempts: "sum_list (map (\<lambda>g. g_attempts (gr_stats g)) (cr_groups r)) = length recs"
  proof -
    have "map (\<lambda>g. g_attempts (gr_stats g)) (cr_groups r) = map g_attempts (aggregate rows)"
      unfolding r(1) [symmetric] map_map comp_def ..
    then show ?thesis using attempts_sum [of rows] rows_of_length [OF rows] by (simp only:)
  qed
  have recs: "length recs = sum_list (map (\<lambda>f. length (fst (load_file json (snd f)))) ?fs)"
    using load_results_parts [of json files] l by (simp add: length_concat comp_def)
  have lines: "length (filter P (concat (map (\<lambda>f. full_lines (snd f)) fs)))
      = sum_list (map (\<lambda>f. length (filter P (full_lines (snd f)))) fs)" for P and fs :: "(string \<times> string) list"
    by (induction fs) auto
  have perm: "sum_list (map h ?fs) = sum_list (map h files)" for h :: "string \<times> string \<Rightarrow> nat"
    by (rule sum_list_mset_cong) simp
  have "sum_list (map (\<lambda>f. length (fst (load_file json (snd f)))) fs) + sum_list (map (\<lambda>f. snd (load_file json (snd f))) fs)
      + sum_list (map (\<lambda>f. length (filter (tombstone_line json) (full_lines (snd f)))) fs)
      = sum_list (map (\<lambda>f. length (full_lines (snd f))) fs)" for fs :: "(string \<times> string) list"
  proof (induction fs)
    case (Cons f fs)
    then show ?case using load_file_lines [of json "snd f"] by simp
  qed simp
  with attempts bad recs perm r(2) show ?thesis
    using lines [of "tombstone_line json" files] lines [of "\<lambda>_. True" files] by simp
qed

definition demo_results :: "string \<Rightarrow> pyval option" where
  "demo_results l = (if l = ''t'' then Some (PDict [(''tombstone'', PBool True)])
     else if l = ''a'' then Some (PDict [(''solved'', PBool True)]) else None)"

lemma report_accounts_for_lines_witness:
  "\<exists>r. build_report demo_results ''c'' Map.empty [(''f'', ''t'' @ ch 10 # ''a'' @ ch 10 # ''x'')] = Inr r \<and>
     sum_list (map (\<lambda>g. g_attempts (gr_stats g)) (cr_groups r)) + sum_list (map snd (cr_unparseable r)) + 1 = 3"
proof -
  let ?files = "[(''f'', ''t'' @ ch 10 # ''a'' @ ch 10 # ''x'')]"
  have lines: "full_lines (''t'' @ ch 10 # ''a'' @ ch 10 # ''x'') = [''t'', ''a'', ''x'']" by code_simp
  have loaded: "load_results demo_results ?files = ([[(''solved'', PBool True)]], [(''f'', 1)])" by code_simp
  have row: "row_of [(''solved'', PBool True)] \<noteq> Inl e" for e
    by (simp add: row_of_def to_int_def to_float_def get_or_def int_of_def)
  obtain a where "row_of [(''solved'', PBool True)] = Inr a"
    using row by (cases "row_of [(''solved'', PBool True)]") auto
  then obtain r where "build_report demo_results ''c'' Map.empty ?files = Inr r"
    unfolding build_report_def loaded by (simp add: Let_def)
  with report_accounts_for_lines [OF this] lines show ?thesis by (simp add: demo_results_def tombstone_line_def get_or_def)
qed

end
