(* ===== verification/JournalView.thy ===== *)
theory JournalView
  imports TaskModel TextLines "HOL-Library.Char_ord" "HOL-Library.List_Lexorder" "HOL-Library.Product_Lexorder"
begin

text \<open>
  The HTML view of a journal (\<open>src/ironbench/journal_view.py\<close>): lenient reading, the view model
  with its cut in the middle, and the page with the events embedded as JSON. \<open>json.loads\<close>,
  \<open>json.dumps\<close>, the rendering of a time stamp and the text of the template are parameters. A
  decoded JSON value shares no parts, so the in-place walk of \<open>_sanitize\<close> is a recursion over it.
\<close>

section \<open>Reading\<close>

text \<open>The texts of the files of the rotation chain, \<open>None\<close> for no file at all; \<open>Inl\<close> is a skipped line.\<close>

definition view_line :: "(string \<Rightarrow> pyval option) \<Rightarrow> string \<Rightarrow> (unit + fields) option" where
  "view_line json line =
     (if blank line then None
      else case json line of Some (PDict rec) \<Rightarrow> Some (Inr rec) | _ \<Rightarrow> Some (Inl ()))"

definition load_events_lenient ::
  "(string \<Rightarrow> pyval option) \<Rightarrow> string list \<Rightarrow> exn + fields list \<times> nat" where
  "load_events_lenient json files =
     (if files = [] then Inl (Exn FileNotFoundErr (PStr ''journal not found''))
      else
        let ps = List.map_filter (view_line json) (concat (map splitlines files)) in
        Inr (List.map_filter (\<lambda>p. case p of Inr rec \<Rightarrow> Some rec | Inl _ \<Rightarrow> None) ps,
             length (filter isl ps)))"

section \<open>The view model\<close>

definition SERVICE_KEYS :: "string list" where
  "SERVICE_KEYS = [''ts'', ''seq'', ''actor'', ''kind'']"

text \<open>A number as a sort key: the infinities lie beyond every finite number; a time stamp that is not a
  number, like a missing one, sorts as 0.\<close>

definition ts_number :: "fields \<Rightarrow> pfloat option" where
  "ts_number e =
     (case map_of e ''ts'' of
        Some (PInt i) \<Rightarrow> Some (Fin (of_int i))
      | Some (PBool b) \<Rightarrow> Some (Fin (if b then 1 else 0))
      | Some (PNum f) \<Rightarrow> Some f
      | _ \<Rightarrow> None)"

definition ts_key :: "fields \<Rightarrow> int \<times> rat" where
  "ts_key e =
     (case ts_number e of
        Some (Fin q) \<Rightarrow> (0, q) | Some PosInf \<Rightarrow> (1, 0) | Some NegInf \<Rightarrow> (- 1, 0) | _ \<Rightarrow> (0, 0))"

text \<open>\<open>events[-n:]\<close>: of \<open>n = 0\<close> the whole list.\<close>

definition py_last :: "nat \<Rightarrow> 'a list \<Rightarrow> 'a list" where
  "py_last n xs = (if n = 0 then xs else drop (length xs - n) xs)"

definition cut_events :: "nat \<Rightarrow> 'a list \<Rightarrow> 'a list \<times> nat" where
  "cut_events max_events events =
     (if length events > max_events
      then (take (max_events div 2) events @ py_last (max_events div 2) events, length events - max_events)
      else (events, 0))"

fun pf_text :: "pfloat \<Rightarrow> string" where
  "pf_text PosInf = ''inf''"
| "pf_text NegInf = ''-inf''"
| "pf_text NaN = ''nan''"
| "pf_text (Fin q) = []"

fun sanitize_value :: "pyval \<Rightarrow> pyval" where
  "sanitize_value (PNum f) = (if pf_finite f then PNum f else PStr (pf_text f))"
| "sanitize_value (PList xs) = PList (map sanitize_value xs)"
| "sanitize_value (PDict d) = PDict (map (\<lambda>(k, v). (k, sanitize_value v)) d)"
| "sanitize_value v = v"

definition sanitize :: "fields \<Rightarrow> fields" where
  "sanitize d = map (\<lambda>(k, v). (k, sanitize_value v)) d"

record view_row =
  vr_time :: string
  vr_actor :: string
  vr_kind :: string
  vr_conn :: string
  vr_payload :: fields

definition as_str :: "(pyval \<Rightarrow> string) \<Rightarrow> pyval \<Rightarrow> string" where
  "as_str dumps v = (case v of PStr s \<Rightarrow> s | _ \<Rightarrow> dumps v)"

definition view_row_of :: "(pyval \<Rightarrow> string) \<Rightarrow> (pfloat \<Rightarrow> string) \<Rightarrow> fields \<Rightarrow> view_row" where
  "view_row_of dumps row_time e =
     \<lparr>vr_time = (case ts_number e of Some f \<Rightarrow> row_time f | None \<Rightarrow> []),
      vr_actor = as_str dumps (get_or e ''actor'' (PStr ''?'')),
      vr_kind = as_str dumps (get_or e ''kind'' (PStr ''?'')),
      vr_conn = (case map_of e ''conn'' of Some v \<Rightarrow> as_str dumps v | None \<Rightarrow> []),
      vr_payload = sanitize (filter (\<lambda>(k, v). k \<notin> set SERVICE_KEYS \<and> k \<noteq> ''conn'') e)\<rparr>"

record view =
  v_source :: string
  v_generated :: string
  v_rows :: "view_row list"
  v_file_events :: nat
  v_shown_events :: nat
  v_skipped_lines :: nat
  v_omitted_events :: nat
  v_span :: "string list"
  v_kinds :: "string list"
  v_actors :: "string list"
  v_conns :: "string list"

definition facet :: "(pyval \<Rightarrow> string) \<Rightarrow> string \<Rightarrow> fields list \<Rightarrow> string list" where
  "facet dumps key events =
     sorted_list_of_set (set (List.map_filter (\<lambda>e. map_option (as_str dumps) (map_of e key)) events))"

definition build_view ::
  "(string \<Rightarrow> pyval option) \<Rightarrow> (pyval \<Rightarrow> string) \<Rightarrow> (pfloat \<Rightarrow> string) \<Rightarrow> string \<Rightarrow> string \<Rightarrow> nat
   \<Rightarrow> string list \<Rightarrow> exn + view" where
  "build_view json dumps row_time source generated max_events files =
     (case load_events_lenient json files of
        Inl e \<Rightarrow> Inl e
      | Inr (events0, skipped) \<Rightarrow>
          (case cut_events max_events (sort_key ts_key events0) of (events, omitted) \<Rightarrow>
            let rows = map (view_row_of dumps row_time) events;
                stamps = List.map_filter ts_number events in
            Inr \<lparr>v_source = source, v_generated = generated, v_rows = rows,
                 v_file_events = length events0, v_shown_events = length rows,
                 v_skipped_lines = skipped, v_omitted_events = omitted,
                 v_span = (if stamps = [] then [] else [row_time (hd stamps), row_time (last stamps)]),
                 v_kinds = facet dumps ''kind'' events, v_actors = facet dumps ''actor'' events,
                 v_conns = facet dumps ''conn'' events\<rparr>))"

section \<open>The page\<close>

fun escape_char :: "char \<Rightarrow> string" where
  "escape_char c =
     (if c = CHR ''&'' then ''&amp;''
      else if c = CHR ''<'' then ''&lt;''
      else if c = CHR ''>'' then ''&gt;''
      else if c = ch 34 then ''&quot;''
      else if c = ch 39 then ''&#x27;''
      else [c])"

definition html_escape :: "string \<Rightarrow> string" where
  "html_escape s = concat (map escape_char s)"

definition END_TAG :: string where "END_TAG = ''</''"
definition END_TAG_SAFE :: string where "END_TAG_SAFE = [CHR ''<'', ch 92, CHR ''/'']"
definition COMMENT :: string where "COMMENT = ''<!--''"
definition COMMENT_SAFE :: string where "COMMENT_SAFE = CHR ''<'' # ch 92 # ''u0021--''"

definition embed_json :: "string \<Rightarrow> string" where
  "embed_json blob = replace_all COMMENT COMMENT_SAFE (replace_all END_TAG END_TAG_SAFE blob)"

definition summary_html :: "view \<Rightarrow> string list" where
  "summary_html v =
     [show_nat (v_file_events v) @ '' event(s)'', show_nat (v_shown_events v) @ '' shown''] @
     (if v_skipped_lines v = 0 then []
      else [''<b>'' @ show_nat (v_skipped_lines v) @ '' unparseable line(s) skipped</b>'']) @
     (if v_omitted_events v = 0 then []
      else [''<b>'' @ show_nat (v_omitted_events v) @ '' middle event(s) omitted</b>'']) @
     (case v_span v of
        a # b # _ \<Rightarrow> [''span '' @ html_escape a @ '' .. '' @ html_escape b]
      | _ \<Rightarrow> []) @
     [''generated '' @ html_escape (v_generated v)]"

definition SEPARATOR :: string where
  "SEPARATOR = CHR '' '' # ch 194 # ch 183 # '' ''"

text \<open>The pass over the template: each token, at its leftmost occurrence, is replaced by its value, and the
  value is not looked at again.\<close>

definition TOKENS :: "string list" where
  "TOKENS = [''__SOURCE__'', ''__SUMMARY__'', ''__DATA_JSON__'']"

function fill_template :: "(string \<Rightarrow> string) \<Rightarrow> string \<Rightarrow> string" where
  "fill_template val [] = []"
| "fill_template val (c # cs) =
     (case List.find (\<lambda>tok. prefix tok (c # cs)) TOKENS of
        Some tok \<Rightarrow> val tok @ fill_template val (drop (length tok) (c # cs))
      | None \<Rightarrow> c # fill_template val cs)"
  by pat_completeness auto
termination
proof (relation "measure (\<lambda>(_, s). length s)")
  fix c :: char and cs tok
  assume "List.find (\<lambda>tok. prefix tok (c # cs)) TOKENS = Some tok"
  then have "tok \<in> set TOKENS" by (auto simp: find_Some_iff)
  then have "0 < length tok" by (auto simp: TOKENS_def)
  then show "((val, drop (length tok) (c # cs)), (val, c # cs)) \<in> measure (\<lambda>(_, s). length s)"
    for val :: "string \<Rightarrow> string"
    by simp
qed auto

fun page_value :: "(view \<Rightarrow> string) \<Rightarrow> view \<Rightarrow> string \<Rightarrow> string" where
  "page_value dump_view v tok =
     (if tok = ''__DATA_JSON__'' then embed_json (dump_view v)
      else if tok = ''__SOURCE__'' then html_escape (v_source v)
      else (case summary_html v of [] \<Rightarrow> [] | p # ps \<Rightarrow> p @ concat (map (\<lambda>x. SEPARATOR @ x) ps)))"

definition render_html :: "string \<Rightarrow> (view \<Rightarrow> string) \<Rightarrow> view \<Rightarrow> string" where
  "render_html template dump_view v = fill_template (page_value dump_view v) template"

text \<open>The output file is refused when it exists and is the journal itself.\<close>

definition write_view_guard :: "bool \<Rightarrow> exn option" where
  "write_view_guard same_file =
     (if same_file then Some (Exn ValueErr (PStr ''refusing to overwrite the journal with its view'')) else None)"

section \<open>Replacing\<close>

lemma replace_all_hit:
  "prefix old (d # ds) \<Longrightarrow> old \<noteq> [] \<Longrightarrow>
   replace_all old new (d # ds) = new @ replace_all old new (drop (length old) (d # ds))"
  by simp

lemma replace_all_miss:
  "\<not> prefix old (d # ds) \<Longrightarrow> replace_all old new (d # ds) = d # replace_all old new ds"
  by simp

declare replace_all.simps(2) [simp del]

text \<open>A pattern and its replacement that both start with a character found nowhere else in them.\<close>

lemma replace_prefix:
  assumes "c \<notin> set q"
  shows "prefix q (replace_all (c # ps) (c # ns) s) \<Longrightarrow> prefix q s"
  using assms
proof (induction s arbitrary: q)
  case (Cons d ds)
  show ?case
  proof (cases "prefix (c # ps) (d # ds)")
    case True
    with Cons.prems show ?thesis by (cases q) (auto simp: replace_all_hit)
  next
    case False
    with Cons show ?thesis by (cases q) (auto simp: replace_all_miss)
  qed
qed simp

definition free_of :: "'a list \<Rightarrow> 'a list \<Rightarrow> bool" where
  "free_of q s = (\<forall>j. \<not> prefix q (drop j s))"

lemma free_of_occurs: "q \<noteq> [] \<Longrightarrow> free_of q s \<longleftrightarrow> \<not> occurs q s"
  using find_at_SomeD [of q s] find_at_NoneD [of q s]
  by (cases "find_at q s") (auto simp: free_of_def occurs_def)

lemma free_of_Cons: "free_of q (d # s) \<longleftrightarrow> \<not> prefix q (d # s) \<and> free_of q s"
proof
  assume "free_of q (d # s)"
  then show "\<not> prefix q (d # s) \<and> free_of q s"
    unfolding free_of_def by (metis drop_0 drop_Suc_Cons)
next
  assume "\<not> prefix q (d # s) \<and> free_of q s"
  then show "free_of q (d # s)" unfolding free_of_def by (metis drop_Cons' drop_0)
qed

lemma free_of_drop: "free_of q s \<Longrightarrow> free_of q (drop k s)"
  by (simp add: free_of_def)

lemma free_of_append:
  "c \<notin> set us \<Longrightarrow> free_of (c # q) (us @ s) \<longleftrightarrow> free_of (c # q) s"
  by (induction us) (auto simp: free_of_Cons)

lemma replace_removes:
  assumes "c \<notin> set ps" and "c \<notin> set (n # ns)" and "ps = p # ps'" and "n \<noteq> p"
  shows "free_of (c # ps) (replace_all (c # ps) (c # n # ns) s)"
proof (induction "c # ps" "c # n # ns" s rule: replace_all.induct)
  case 1
  show ?case using assms(3) by (simp add: free_of_def)
next
  case (2 d ds)
  let ?R = "replace_all (c # ps) (c # n # ns)"
  show ?case
  proof (cases "prefix (c # ps) (d # ds)")
    case True
    have "\<not> prefix (c # ps) (c # (n # ns) @ r)" for r using assms(3,4) by simp
    moreover have "free_of (c # ps) ((n # ns) @ ?R (drop (length (c # ps)) (d # ds)))"
      using 2(1) True free_of_append [OF assms(2)] by simp
    moreover have "?R (d # ds) = c # (n # ns) @ ?R (drop (length (c # ps)) (d # ds))"
      using replace_all_hit [OF True] by simp
    ultimately show ?thesis by (simp only: free_of_Cons simp_thms)
  next
    case False
    then have "free_of (c # ps) (?R ds)" using 2(2) by simp
    moreover have "\<not> prefix (c # ps) (d # ?R ds)"
      using False replace_prefix [OF assms(1), of ps "n # ns" ds] by auto
    ultimately show ?thesis unfolding replace_all_miss [OF False] free_of_Cons by blast
  qed
qed

text \<open>A pair that the replacement neither contains nor can complete stays absent.\<close>

lemma replace_keeps_free:
  assumes "free_of [c, b] s" and "b \<noteq> c" and "c \<notin> set ns" and "ns = n # ns'" and "n \<noteq> b"
  shows "free_of [c, b] (replace_all (c # ps) (c # ns) s)"
  using assms(1)
proof (induction "c # ps" "c # ns" s rule: replace_all.induct)
  case 1
  show ?case by (simp add: free_of_def)
next
  case (2 d ds)
  let ?R = "replace_all (c # ps) (c # ns)"
  show ?case
  proof (cases "prefix (c # ps) (d # ds)")
    case True
    have "free_of [c, b] (?R (drop (length (c # ps)) (d # ds)))"
      by (rule 2(1)) (use True free_of_drop [OF 2(3), of "length (c # ps)"] in auto)
    then have "free_of [c, b] (ns @ ?R (drop (length (c # ps)) (d # ds)))"
      using free_of_append [OF assms(3)] by simp
    moreover have "\<not> prefix [c, b] (c # ns @ r)" for r using assms(4,5) by simp
    moreover have "?R (d # ds) = c # ns @ ?R (drop (length (c # ps)) (d # ds))"
      using replace_all_hit [OF True] by simp
    ultimately show ?thesis by (simp only: free_of_Cons simp_thms)
  next
    case False
    have "free_of [c, b] ds" using 2(3) by (simp add: free_of_Cons)
    then have "free_of [c, b] (?R ds)" using 2(2) False by simp
    moreover have "\<not> prefix [c, b] (d # ?R ds)"
    proof
      assume "prefix [c, b] (d # ?R ds)"
      then have "d = c" "prefix [b] (?R ds)" by auto
      with replace_prefix [of c "[b]" ps ns ds] assms(2) have "prefix [c, b] (d # ds)" by auto
      with 2(3) show False by (simp add: free_of_Cons)
    qed
    ultimately show ?thesis unfolding replace_all_miss [OF False] free_of_Cons by blast
  qed
qed

lemma backslash: "ch 92 \<noteq> CHR ''<''" "ch 92 \<noteq> CHR ''/''" "ch 92 \<noteq> CHR ''!''"
  by code_simp+

text \<open>
  No journal content can leave the data block of the page: whatever the JSON text of the
  events is, the text embedded in the script element contains neither an end tag opening nor a comment
  opening.
\<close>

theorem embed_json_inert: "\<not> occurs ''</'' (embed_json blob) \<and> \<not> occurs ''<!--'' (embed_json blob)"
proof
  let ?r = "replace_all END_TAG END_TAG_SAFE blob"
  have one: "free_of ''</'' ?r"
    unfolding END_TAG_def END_TAG_SAFE_def
    by (rule replace_removes [where p = "CHR ''/''" and ps' = "[]"]) (use backslash in auto)
  have "free_of [CHR ''<'', CHR ''/''] (replace_all (CHR ''<'' # ''!--'') (CHR ''<'' # ch 92 # ''u0021--'') ?r)"
    by (rule replace_keeps_free) (use one backslash in auto)
  then show "\<not> occurs ''</'' (embed_json blob)"
    by (simp add: free_of_occurs embed_json_def COMMENT_def COMMENT_SAFE_def)
  have "free_of (CHR ''<'' # ''!--'') (replace_all (CHR ''<'' # ''!--'') (CHR ''<'' # ch 92 # ''u0021--'') ?r)"
    by (rule replace_removes [where p = "CHR ''!''" and ps' = "''--''"]) (use backslash in auto)
  then show "\<not> occurs ''<!--'' (embed_json blob)"
    by (simp add: free_of_occurs embed_json_def COMMENT_def COMMENT_SAFE_def)
qed

section \<open>Counting\<close>

lemma map_filter_split:
  "length (List.map_filter (\<lambda>p. case p of Inr r \<Rightarrow> Some r | Inl _ \<Rightarrow> None) ps) + length (filter isl ps) = length ps"
  by (induction ps) (auto simp: List.map_filter_def split: sum.splits)

lemma view_line_some: "view_line json l = None \<longleftrightarrow> blank l"
  by (auto simp: view_line_def split: option.splits pyval.splits)

lemma map_filter_length: "length (List.map_filter f xs) = length (filter (\<lambda>x. f x \<noteq> None) xs)"
  by (simp add: List.map_filter_def)

lemma length_py_last: "length (py_last n xs) = (if n = 0 then length xs else min n (length xs))"
  by (auto simp: py_last_def min_def)

text \<open>
  The header of the view counts every line: the events and the skipped lines are all the lines that
  are not blank, and the shown and omitted events together are the events of the file whenever the limit is
  even and positive. An odd limit of at least 3 shows one event that is counted nowhere, and with
  a limit below 2 everything is shown although events are reported as omitted.
\<close>

theorem build_view_counts:
  assumes "build_view json dumps row_time source generated max_events files = Inr v"
  shows "v_file_events v + v_skipped_lines v
      = length (filter (\<lambda>l. \<not> blank l) (concat (map splitlines files))) \<and>
    v_shown_events v = length (v_rows v) \<and>
    (if v_file_events v \<le> max_events then v_shown_events v = v_file_events v \<and> v_omitted_events v = 0
     else v_omitted_events v = v_file_events v - max_events \<and>
       v_shown_events v =
         (if max_events < 2 then v_file_events v
          else if even max_events then max_events else max_events - 1))"
proof -
  obtain events skipped where l: "load_events_lenient json files = Inr (events, skipped)"
    using assms by (auto simp: build_view_def split: sum.splits)
  obtain shown om where c: "cut_events max_events (sort_key ts_key events) = (shown, om)"
    by (cases "cut_events max_events (sort_key ts_key events)")
  have v: "v_file_events v = length events" "v_skipped_lines v = skipped" "v_shown_events v = length shown"
    "v_omitted_events v = om" "length (v_rows v) = length shown"
    using assms l c by (auto simp: build_view_def Let_def)
  have "length events + skipped = length (filter (\<lambda>l. \<not> blank l) (concat (map splitlines files)))"
    using l map_filter_split [of "List.map_filter (view_line json) (concat (map splitlines files))"]
    by (auto simp: load_events_lenient_def map_filter_length view_line_some Let_def split: if_splits)
  moreover have "if length events \<le> max_events then length shown = length events \<and> om = 0
     else om = length events - max_events \<and>
       length shown = (if max_events < 2 then length events else if even max_events then max_events else max_events - 1)"
  proof (cases "length events \<le> max_events")
    case True
    with c show ?thesis by (auto simp: cut_events_def)
  next
    case False
    let ?h = "max_events div 2"
    have sh: "length shown = min ?h (length events) + (if ?h = 0 then length events else min ?h (length events))"
      and om: "om = length events - max_events"
      using c False by (auto simp: cut_events_def length_py_last min.commute)
    have "?h \<le> length events" using False by simp
    then have "length shown = (if ?h = 0 then length events else 2 * ?h)" using sh by (simp add: min_def)
    moreover have "2 * ?h = (if even max_events then max_events else max_events - 1)" by presburger
    moreover have "?h = 0 \<longleftrightarrow> max_events < 2" by presburger
    ultimately show ?thesis using False om by simp
  qed
  ultimately show ?thesis by (simp add: v)
qed

definition demo_json :: "string \<Rightarrow> pyval option" where
  "demo_json l = (if l = ''e'' then Some (PDict [(''ts'', PInt 1)]) else None)"

lemma demo_view:
  "\<exists>v. build_view demo_json (\<lambda>_. []) (\<lambda>_. []) ''j'' ''now'' 3 [''e'' @ ch 10 # ''e'' @ ch 10 # ''e'' @ ch 10 # ''e'' @ ch 10 # ''x''] = Inr v"
  by (simp add: build_view_def load_events_lenient_def Let_def split: prod.split)

lemma build_view_counts_witness:
  "\<exists>v. build_view demo_json (\<lambda>_. []) (\<lambda>_. []) ''j'' ''now'' 3
      [''e'' @ ch 10 # ''e'' @ ch 10 # ''e'' @ ch 10 # ''e'' @ ch 10 # ''x''] = Inr v \<and>
    v_file_events v + v_skipped_lines v = 5"
proof -
  obtain v where v: "build_view demo_json (\<lambda>_. []) (\<lambda>_. []) ''j'' ''now'' 3
      [''e'' @ ch 10 # ''e'' @ ch 10 # ''e'' @ ch 10 # ''e'' @ ch 10 # ''x''] = Inr v"
    using demo_view by blast
  have "length (filter (\<lambda>l. \<not> blank l) (concat (map splitlines
      [''e'' @ ch 10 # ''e'' @ ch 10 # ''e'' @ ch 10 # ''e'' @ ch 10 # ''x'']))) = 5"
    by code_simp
  with build_view_counts [OF v] v show ?thesis by auto
qed

section \<open>The page\<close>

lemma token_start: "tok \<in> set TOKENS \<Longrightarrow> prefix tok s \<Longrightarrow> s \<noteq> [] \<and> hd s = CHR ''_''"
  by (auto simp: TOKENS_def prefix_def)

lemma token_unique:
  "tok \<in> set TOKENS \<Longrightarrow> List.find (\<lambda>t. prefix t (tok @ s)) TOKENS = Some tok"
  by (auto simp: TOKENS_def)

text \<open>
  Values cannot expand tokens: in the page each token of the template is replaced by its value, and neither the
  value nor the text before it is searched for tokens again.
\<close>

theorem fill_template_once:
  assumes "tok \<in> set TOKENS" and "CHR ''_'' \<notin> set pre"
  shows "fill_template val (pre @ tok @ post) = pre @ val tok @ fill_template val post"
  using assms(2)
proof (induction pre)
  case Nil
  obtain c cs where tok: "tok = c # cs" using assms(1) by (auto simp: TOKENS_def)
  have "List.find (\<lambda>t. prefix t (c # cs @ post)) TOKENS = Some (c # cs)"
    using token_unique [OF assms(1), of post] tok by simp
  then show ?case by (simp add: tok)
next
  case (Cons c pre)
  have "List.find (\<lambda>t. prefix t (c # pre @ tok @ post)) TOKENS = None"
    using token_start [of _ "c # pre @ tok @ post"] Cons.prems by (auto simp: find_None_iff)
  with Cons show ?case by simp
qed

lemma fill_template_once_witness:
  "fill_template (\<lambda>_. ''__SUMMARY__'') (''<h1>'' @ ''__SOURCE__'' @ ''</h1>'') = ''<h1>__SUMMARY__</h1>''"
proof -
  have "fill_template (\<lambda>_. ''__SUMMARY__'') ''</h1>'' = ''</h1>''" by code_simp
  then show ?thesis using fill_template_once [of "''__SOURCE__''" "''<h1>''"] by (simp add: TOKENS_def)
qed

lemma html_escape_inert: "c \<in> set (html_escape s) \<Longrightarrow> c \<noteq> CHR ''<'' \<and> c \<noteq> CHR ''>'' \<and> c \<noteq> ch 34 \<and> c \<noteq> ch 39"
proof -
  have "c \<noteq> CHR ''<'' \<and> c \<noteq> CHR ''>'' \<and> c \<noteq> ch 34 \<and> c \<noteq> ch 39" if "c \<in> set (escape_char d)" for d
  proof -
    have "\<forall>c \<in> set (''&amp;'' @ ''&lt;'' @ ''&gt;'' @ ''&quot;'' @ ''&#x27;'').
        c \<noteq> CHR ''<'' \<and> c \<noteq> CHR ''>'' \<and> c \<noteq> ch 34 \<and> c \<noteq> ch 39"
      by code_simp
    then show ?thesis using that by (auto split: if_splits)
  qed
  then show "c \<in> set (html_escape s) \<Longrightarrow> c \<noteq> CHR ''<'' \<and> c \<noteq> CHR ''>'' \<and> c \<noteq> ch 34 \<and> c \<noteq> ch 39"
    by (auto simp: html_escape_def simp del: escape_char.simps)
qed

end
