(* ===== verification/Stimulus.thy ===== *)
theory Stimulus
  imports RunnerCommon Tasks Floats
begin

text \<open>
  What the serial targets share (\<open>src/ironbench/runner_unix.py\<close>, \<open>runner_real.py\<close>): the box of
  ingested output, the waiting for an answer, the anti-cheat verdict over the settled log and the scoring
  of timed events. Lengths are those of the UTF-8 bytes; \<open>re.search\<close> is a parameter that returns the end of
  the match.
\<close>

section \<open>The output box\<close>

definition MAX_SERIAL_TEXT :: nat where "MAX_SERIAL_TEXT = 1048576"

definition TRUNCATED :: string where
  "TRUNCATED = ch 10 # ''[ironharness: serial output truncated at 1048576 bytes - further output discarded]'' @ [ch 10]"

record box =
  bx_text :: string
  bx_chunks :: "(rat \<times> string) list"
  bx_dropped :: bool

definition box_init :: box where
  "box_init = \<lparr>bx_text = [], bx_chunks = [], bx_dropped = False\<rparr>"

definition box_append :: "rat \<Rightarrow> string \<Rightarrow> box \<Rightarrow> box" where
  "box_append now chunk b =
     (if bx_dropped b then b
      else if length (bx_text b) + length chunk > MAX_SERIAL_TEXT
        then b\<lparr>bx_dropped := True, bx_chunks := bx_chunks b @ [(now, TRUNCATED)],
               bx_text := bx_text b @ TRUNCATED\<rparr>
      else b\<lparr>bx_chunks := bx_chunks b @ [(now, chunk)], bx_text := bx_text b @ chunk\<rparr>)"

definition box_run :: "(rat \<times> string) list \<Rightarrow> box \<Rightarrow> box" where
  "box_run appends b = fold (\<lambda>(now, chunk). box_append now chunk) appends b"

text \<open>One box holds at least what another held: text and chunks only grow at their ends.\<close>

definition grows :: "box \<Rightarrow> box \<Rightarrow> bool" where
  "grows b b' = (prefix (bx_text b) (bx_text b') \<and> prefix (bx_chunks b) (bx_chunks b'))"

definition box_ok :: "box \<Rightarrow> bool" where
  "box_ok b = (concat (map snd (bx_chunks b)) = bx_text b \<and>
     length (bx_text b) \<le> MAX_SERIAL_TEXT + (if bx_dropped b then length TRUNCATED else 0))"

lemma box_append_step: "box_ok b \<Longrightarrow> box_ok (box_append now chunk b) \<and> grows b (box_append now chunk b)"
  by (auto simp: box_ok_def box_append_def grows_def)

interpretation growth: evolution grows
  by unfold_locales (auto simp: grows_def)

lemma box_run_step: "box_ok b \<Longrightarrow> box_ok (box_run appends b) \<and> grows b (box_run appends b)"
proof (induction appends arbitrary: b)
  case Nil
  then show ?case by (simp add: box_run_def growth.refl)
next
  case (Cons a appends)
  obtain now chunk where a: "a = (now, chunk)" by (cases a)
  have "box_run (a # appends) b = box_run appends (box_append now chunk b)" by (simp add: box_run_def a)
  with Cons.IH [of "box_append now chunk b"] box_append_step [OF Cons.prems, of now chunk]
  show ?case by (metis growth.trans)
qed

text \<open>
  The box of ingested output is consistent and bounded after any sequence of appends: the text is the
  chunks in their order, it exceeds the cap by at most the truncation notice, and what is in it never changes.
\<close>

theorem output_box_bounded:
  "concat (map snd (bx_chunks (box_run appends box_init))) = bx_text (box_run appends box_init) \<and>
   length (bx_text (box_run appends box_init)) \<le> MAX_SERIAL_TEXT + length TRUNCATED \<and>
   grows (box_run appends box_init) (box_run later (box_run appends box_init))"
proof -
  have ok: "box_ok (box_run appends box_init)"
    using box_run_step [of box_init appends] by (simp add: box_ok_def box_init_def)
  with box_run_step [OF ok, of later] show ?thesis by (auto simp: box_ok_def split: if_splits)
qed

section \<open>Waiting for an answer\<close>

text \<open>One turn of a waiting loop: the box as the stamp is taken, the text as it is looked up a moment later, and
  whether the wall deadline has passed or the output ended.\<close>

record wait_turn =
  wt_box :: box
  wt_text :: string
  wt_over :: bool

definition answer_stamp :: "box \<Rightarrow> string \<Rightarrow> rat option \<Rightarrow> rat option" where
  "answer_stamp b needle since = first_occurrence_stamp (bx_text b) (bx_chunks b) needle since"

text \<open>The stamp of the answer, \<open>Some None\<close> when there is no genuine one; \<open>None\<close> when the turns do not end the loop.\<close>

fun await_needle :: "string \<Rightarrow> rat option \<Rightarrow> wait_turn list \<Rightarrow> rat option option" where
  "await_needle needle since [] = None"
| "await_needle needle since (w # ws) =
     (if answer_stamp (wt_box w) needle since \<noteq> None \<or> occurs needle (wt_text w)
        then Some (answer_stamp (wt_box w) needle since)
      else if wt_over w then Some None
      else await_needle needle since ws)"

lemma stamp_at_append: "stamp_at pos seen cs = Some st \<Longrightarrow> stamp_at pos seen (cs @ ds) = Some st"
  by (induction pos seen cs rule: stamp_at.induct) (auto simp: Let_def split: if_splits)

lemma answer_stamp_grows:
  assumes "grows b b'" and "answer_stamp b needle since = Some st"
  shows "answer_stamp b' needle since = Some st"
proof -
  obtain t cs where b': "bx_text b' = bx_text b @ t" "bx_chunks b' = bx_chunks b @ cs"
    using assms(1) by (auto simp: grows_def prefix_def)
  with assms(2) show ?thesis
    by (auto simp: answer_stamp_def first_occurrence_stamp_def find_at_append stamp_at_append
        split: option.splits if_splits)
qed

lemma await_needle_credited:
  "await_needle needle since ws = Some (Some st) \<Longrightarrow> \<exists>w \<in> set ws. answer_stamp (wt_box w) needle since = Some st"
  by (induction needle since ws rule: await_needle.induct) (auto split: if_splits)

lemma await_needle_returns: "\<exists>w \<in> set ws. wt_over w \<Longrightarrow> await_needle needle since ws \<noteq> None"
  by (induction needle since ws rule: await_needle.induct) auto

section \<open>The verdict over the settled log\<close>

definition pre_printed :: "box \<Rightarrow> (string \<times> rat option) list \<Rightarrow> (string \<times> rat option) option" where
  "pre_printed b waited =
     List.find (\<lambda>(needle, since). occurs needle (bx_text b) \<and> answer_stamp b needle since = None) waited"

definition pre_printed_error :: "string \<Rightarrow> pyval" where
  "pre_printed_error needle =
     PFStr [PStr ''anti-cheat: '', PRepr (PStr needle),
            PStr '' was printed before the stimulus asked for it (pre-printed output)'']"

lemma pre_printed_None:
  "pre_printed b waited = None \<longleftrightarrow>
     (\<forall>(needle, since) \<in> set waited. occurs needle (bx_text b) \<longrightarrow> answer_stamp b needle since \<noteq> None)"
  by (auto simp: pre_printed_def find_None_iff)

section \<open>Timed events\<close>

type_synonym search = "string \<Rightarrow> string \<Rightarrow> nat option"

record event_spec =
  es_pattern :: string
  es_count_min :: int
  es_period :: "(pfloat \<times> pfloat) option"

definition event_of :: "fields \<Rightarrow> event_spec" where
  "event_of ev =
     \<lparr>es_pattern = text_of (\<lambda>_. []) (get_or ev ''pattern'' PNone),
      es_count_min = (case get_or ev ''count_min'' PNone of PInt i \<Rightarrow> i | _ \<Rightarrow> 0),
      es_period =
        (case get_or ev ''period_ms'' PNone of
           PList [lo, hi] \<Rightarrow>
             (case (num_val lo, num_val hi) of (Some a, Some b) \<Rightarrow> Some (a, b) | _ \<Rightarrow> None)
         | _ \<Rightarrow> None)\<rparr>"

text \<open>\<open>s.split()[-1]\<close>, empty for a blank text.\<close>

definition last_word :: "string \<Rightarrow> string" where
  "last_word s = rev (takeWhile (\<lambda>c. \<not> py_space c) (dropWhile py_space (rev s)))"

definition event_stamp :: "search \<Rightarrow> string \<Rightarrow> string \<Rightarrow> pfloat option" where
  "event_stamp search pattern line =
     (case search pattern line of
        None \<Rightarrow> None
      | Some e \<Rightarrow> (let w = last_word (drop e line) in if w = [] then None else py_float w))"

definition event_stamps :: "search \<Rightarrow> string \<Rightarrow> string \<Rightarrow> pfloat list" where
  "event_stamps search pattern txt = List.map_filter (event_stamp search pattern) (splitlines txt)"

definition gap_ok :: "pfloat \<times> pfloat \<Rightarrow> pfloat \<times> pfloat \<Rightarrow> bool" where
  "gap_ok period ab = (pf_le (fst period) (pf_minus (snd ab) (fst ab)) \<and> pf_le (pf_minus (snd ab) (fst ab)) (snd period))"

text \<open>\<open>itertools.pairwise\<close>.\<close>

definition gaps :: "'a list \<Rightarrow> ('a \<times> 'a) list" where "gaps xs = zip xs (tl xs)"

definition check_event_lines :: "search \<Rightarrow> string \<Rightarrow> event_spec \<Rightarrow> pyval list" where
  "check_event_lines search txt ev =
     (let stamps = event_stamps search (es_pattern ev) txt in
      if int (length stamps) < es_count_min ev
        then [PFStr [PStr ''events['', PStr (es_pattern ev), PStr '']: '', PInt (int (length stamps)),
                     PStr '' events < required '', PInt (es_count_min ev)]]
      else case es_period ev of
        None \<Rightarrow> []
      | Some p \<Rightarrow>
          (case List.find (\<lambda>ab. \<not> gap_ok p ab) (gaps stamps) of
             None \<Rightarrow> []
           | Some ab \<Rightarrow>
               [PFStr [PStr ''events['', PStr (es_pattern ev), PStr '']: period '',
                       PNum (pf_minus (snd ab) (fst ab)), PStr ''ms outside '', PNum (fst p), PNum (snd p)]]))"

definition check_events :: "search \<Rightarrow> string \<Rightarrow> event_spec list \<Rightarrow> pyval list" where
  "check_events search txt evs = concat (map (check_event_lines search txt) evs)"

definition EVENT_STAMP_TOLERANCE_SEC :: rat where "EVENT_STAMP_TOLERANCE_SEC = 15 / 100"

definition chunk_stamps :: "search \<Rightarrow> string \<Rightarrow> box \<Rightarrow> rat list" where
  "chunk_stamps search pattern b =
     concat (map (\<lambda>(stamp, chunk).
        map (\<lambda>_. stamp) (filter (\<lambda>l. search pattern l \<noteq> None) (splitlines chunk))) (bx_chunks b))"

text \<open>A bound in milliseconds, in seconds, moved by the tolerance.\<close>

definition sec_bound :: "pfloat \<Rightarrow> rat \<Rightarrow> pfloat" where
  "sec_bound f d = (case f of Fin q \<Rightarrow> Fin (q / 1000 + d) | _ \<Rightarrow> f)"

definition check_event_realtime :: "search \<Rightarrow> box \<Rightarrow> event_spec \<Rightarrow> pyval list" where
  "check_event_realtime search b ev =
     (case es_period ev of
        None \<Rightarrow> []
      | Some (lo, hi) \<Rightarrow>
          let stamps = chunk_stamps search (es_pattern ev) b;
              p = (sec_bound lo (- EVENT_STAMP_TOLERANCE_SEC), sec_bound hi EVENT_STAMP_TOLERANCE_SEC) in
          if int (length stamps) < es_count_min ev then []
          else (case List.find (\<lambda>ab. \<not> gap_ok p ab) (gaps (map Fin stamps)) of
             None \<Rightarrow> []
           | Some ab \<Rightarrow>
               [PFStr [PStr ''events['', PStr (es_pattern ev), PStr ''] (real-time): period '',
                       PNum (pf_minus (snd ab) (fst ab)), PStr ''s outside '', PNum lo, PNum hi]]))"

definition check_events_realtime :: "search \<Rightarrow> box \<Rightarrow> event_spec list \<Rightarrow> pyval list" where
  "check_events_realtime search b evs = concat (map (check_event_realtime search b) evs)"

lemma gaps_nth: "(\<forall>ab \<in> set (gaps xs). P ab) \<longleftrightarrow> (\<forall>i. Suc i < length xs \<longrightarrow> P (xs ! i, xs ! Suc i))"
proof -
  have "length (gaps xs) = length xs - 1" by (simp add: gaps_def)
  moreover have "Suc i < length xs \<Longrightarrow> gaps xs ! i = (xs ! i, xs ! Suc i)" for i
    by (simp add: gaps_def nth_tl)
  ultimately show ?thesis unfolding all_set_conv_all_nth by (metis less_diff_conv Suc_eq_plus1)
qed

lemma find_gap_None:
  "List.find (\<lambda>ab. \<not> gap_ok p ab) (gaps xs) = None \<longleftrightarrow> (\<forall>i. Suc i < length xs \<longrightarrow> gap_ok p (xs ! i, xs ! Suc i))"
  using gaps_nth [of xs "gap_ok p"] by (auto simp: find_None_iff)

text \<open>
  Event scoring is exact: nothing is missed iff every declared event has at least its minimum number of
  stamped lines in the log and every two consecutive stamps of it are a declared period apart.
\<close>

theorem check_events_exact:
  "check_events search txt evs = [] \<longleftrightarrow>
     (\<forall>ev \<in> set evs.
        es_count_min ev \<le> int (length (event_stamps search (es_pattern ev) txt)) \<and>
        (case es_period ev of None \<Rightarrow> True
         | Some p \<Rightarrow> \<forall>i. Suc i < length (event_stamps search (es_pattern ev) txt) \<longrightarrow>
             gap_ok p (event_stamps search (es_pattern ev) txt ! i, event_stamps search (es_pattern ev) txt ! Suc i)))"
proof -
  have "check_event_lines search txt ev = [] \<longleftrightarrow>
      es_count_min ev \<le> int (length (event_stamps search (es_pattern ev) txt)) \<and>
      (case es_period ev of None \<Rightarrow> True
       | Some p \<Rightarrow> \<forall>i. Suc i < length (event_stamps search (es_pattern ev) txt) \<longrightarrow>
           gap_ok p (event_stamps search (es_pattern ev) txt ! i, event_stamps search (es_pattern ev) txt ! Suc i))" for ev
    by (auto simp: check_event_lines_def Let_def find_gap_None [symmetric] split: option.splits)
  then show ?thesis by (simp add: check_events_def)
qed

text \<open>
  A dump is caught: if the lines of a periodic event reached the harness within a window shorter than
  the declared period less the tolerance, and there are at least two of them and the required number, the run misses
  the real-time check, whatever time stamps the lines themselves carry.
\<close>

theorem burst_dump_missed:
  assumes ev: "ev \<in> set evs" "es_period ev = Some (Fin lo, hi)"
    and stamps: "chunk_stamps search (es_pattern ev) b = stamps" "2 \<le> length stamps"
      "es_count_min ev \<le> int (length stamps)"
    and window: "\<forall>s \<in> set stamps. t \<le> s \<and> s \<le> t + w" "w + 15 / 100 < lo / 1000"
  shows "check_events_realtime search b evs \<noteq> []"
proof -
  let ?p = "(sec_bound (Fin lo) (- EVENT_STAMP_TOLERANCE_SEC), sec_bound hi EVENT_STAMP_TOLERANCE_SEC)"
  obtain a c rest where st: "stamps = a # c # rest"
    using stamps(2) by (cases stamps rule: remdups_adj.cases) auto
  with window have "c - a \<le> w" by auto
  with window(2) have "\<not> lo / 1000 - 15 / 100 \<le> c - a" by simp
  then have "\<not> gap_ok ?p (Fin a, Fin c)"
    by (auto simp: gap_ok_def sec_bound_def pf_le_def EVENT_STAMP_TOLERANCE_SEC_def)
  then have "List.find (\<lambda>ab. \<not> gap_ok ?p ab) (gaps (map Fin stamps)) \<noteq> None"
    by (simp add: gaps_def st)
  then have "check_event_realtime search b ev \<noteq> []"
    using ev(2) stamps by (auto simp: check_event_realtime_def Let_def)
  then show ?thesis using ev(1) by (auto simp: check_events_realtime_def)
qed

definition demo_event :: event_spec where
  "demo_event = \<lparr>es_pattern = ''tick'', es_count_min = 2, es_period = Some (Fin 500, Fin 600)\<rparr>"

definition demo_search :: search where
  "demo_search pattern line = (if prefix pattern line then Some (length pattern) else None)"

lemma check_events_exact_witness:
  "check_events demo_search (''tick nan'' @ ch 10 # ''tick nan'') [demo_event\<lparr>es_period := None\<rparr>] = [] \<and>
   check_events demo_search ''tick nan'' [demo_event\<lparr>es_period := None\<rparr>] \<noteq> []"
proof -
  have "event_stamps demo_search ''tick'' (''tick nan'' @ ch 10 # ''tick nan'') = [NaN, NaN]"
    "event_stamps demo_search ''tick'' ''tick nan'' = [NaN]" by code_simp+
  then show ?thesis unfolding check_events_exact by (simp add: demo_event_def)
qed

lemma burst_dump_missed_witness:
  "check_events_realtime demo_search
     \<lparr>bx_text = ''tick 0'' @ ch 10 # ''tick 550'', bx_chunks = [(1, ''tick 0'' @ [ch 10]), (101 / 100, ''tick 550'')], bx_dropped = False\<rparr>
     [demo_event] \<noteq> []"
proof (rule burst_dump_missed [where ev = demo_event and lo = 500 and hi = "Fin 600" and stamps = "[1, 101 / 100]" and t = 1 and w = "1 / 100"])
  have "splitlines (''tick 0'' @ [ch 10]) = [''tick 0'']" "splitlines ''tick 550'' = [''tick 550'']" by code_simp+
  then show "chunk_stamps demo_search (es_pattern demo_event)
     \<lparr>bx_text = ''tick 0'' @ ch 10 # ''tick 550'', bx_chunks = [(1, ''tick 0'' @ [ch 10]), (101 / 100, ''tick 550'')], bx_dropped = False\<rparr>
     = [1, 101 / 100]"
    by (simp add: chunk_stamps_def demo_search_def demo_event_def)
qed (simp_all add: demo_event_def)

end
