(* ===== verification/UnixRun.thy ===== *)
theory UnixRun
  imports Stimulus
begin

text \<open>
  The runner of the unix target (\<open>src/ironbench/runner_unix.py\<close>): driving the stimulus, the
  exit code, the verdicts and the result. What the firmware, the broker and the clock do is a list of
  observations, one for each step of the stimulus. Staging into WSL and starting the processes is
  one observation, the exception they may end in. The strings of a step are those the loader checked.
\<close>

section \<open>Driving the stimulus\<close>

text \<open>Waiting before a trigger until no chunk arrived for three looks of 50 ms; each look is the number of
  chunks and whether the deadline has passed before it. \<open>None\<close> when the looks do not end it.\<close>

fun quiet_loop :: "nat option \<Rightarrow> nat \<Rightarrow> (nat \<times> bool) list \<Rightarrow> nat option option" where
  "quiet_loop seen quiet looks =
     (if 3 \<le> quiet then Some seen
      else case looks of
        [] \<Rightarrow> None
      | (now, late) # rest \<Rightarrow>
          if late then Some seen
          else if Some now \<noteq> seen then quiet_loop (Some now) 0 rest
          else quiet_loop seen (quiet + 1) rest)"

definition wait_quiet :: "(nat \<times> bool) list \<Rightarrow> nat option option" where
  "wait_quiet looks = quiet_loop None 0 looks"

record drive =
  dv_waited :: "(string \<times> rat option) list"
  dv_done :: nat
  dv_last :: "rat option"
  dv_triggers :: "rat list"
  dv_sent :: "(bool \<times> string) list"
  dv_published :: "fields list"
  dv_subscribed :: "string list"
  dv_notes :: "string list"

definition drive_init :: "string list \<Rightarrow> drive" where
  "drive_init subscribed =
     \<lparr>dv_waited = [], dv_done = 0, dv_last = None, dv_triggers = [], dv_sent = [], dv_published = [],
      dv_subscribed = subscribed, dv_notes = []\<rparr>"

text \<open>What one step of the stimulus sees: whether the wall deadline has passed, whether the output has ended, the
  turns of a waiting loop, the clock at a trigger, the messages a collect step read in time, the exception of a call to
  the broker.\<close>

record unix_turn =
  ut_late :: bool
  ut_eof :: bool
  ut_waits :: "wait_turn list"
  ut_now :: rat
  ut_messages :: "(string \<times> string) list"
  ut_raises :: "exn option"

datatype flow = Goes drive | Breaks drive | Fails exn

definition step_text :: "(pyval \<Rightarrow> string) \<Rightarrow> string \<Rightarrow> fields \<Rightarrow> string" where
  "step_text str_of k step = text_of str_of (get_or step k PNone)"

definition unix_newlines :: "string \<Rightarrow> string" where
  "unix_newlines s = replace_all [ch 13] [ch 10] (replace_all [ch 13, ch 10] [ch 10] s)"

text \<open>What is written, with whether it goes through the noisy line; the final newline never does.\<close>

definition deliveries :: "bool \<Rightarrow> string \<Rightarrow> (bool \<times> string) list" where
  "deliveries noisy raw =
     (if noisy \<and> suffix [ch 10] raw then [(True, butlast raw), (False, [ch 10])] else [(noisy, raw)])"

text \<open>\<open>time.sleep\<close> of the delay, cut to the time left: a value that is no delay, negative or NaN raises.\<close>

definition delay_error :: "string \<Rightarrow> exn option" where
  "delay_error value =
     (case parse_delay value of
        None \<Rightarrow> Some (Exn ValueErr (PStr ''invalid delay''))
      | Some f \<Rightarrow>
          if f = NaN then Some (Exn ValueErr (PStr ''Invalid value NaN (not a number)''))
          else if pf_less f (Fin 0) then Some (Exn ValueErr (PStr ''sleep length must be non-negative''))
          else None)"

definition triggered :: "rat \<Rightarrow> drive \<Rightarrow> drive" where
  "triggered now d = d\<lparr>dv_last := Some now, dv_triggers := dv_triggers d @ [now]\<rparr>"

definition collect_notes :: "string \<Rightarrow> int \<Rightarrow> (string \<times> string) list \<Rightarrow> string list" where
  "collect_notes topic need msgs =
     map (\<lambda>(t, p). ''mqtt: '' @ t @ '' '' @ p @ [ch 10]) msgs @
     (if int (length msgs) < need
      then [''mqtt: collect '' @ topic @ '': received '' @ show_nat (length msgs) @ '' of '' @ show_nat (nat need) @ [ch 10]]
      else [])"

definition subscribe_once :: "string \<Rightarrow> drive \<Rightarrow> drive" where
  "subscribe_once topic d =
     (if topic \<in> set (dv_subscribed d) then d else d\<lparr>dv_subscribed := dv_subscribed d @ [topic]\<rparr>)"

definition unix_wait :: "string \<Rightarrow> unix_turn \<Rightarrow> drive \<Rightarrow> flow option" where
  "unix_wait needle u d =
     (let d1 = d\<lparr>dv_waited := dv_waited d @ [(needle, dv_last d)]\<rparr> in
      case await_needle needle (dv_last d) (ut_waits u) of
        None \<Rightarrow> None
      | Some None \<Rightarrow> Some (Breaks d1)
      | Some (Some _) \<Rightarrow> Some (Goes (d1\<lparr>dv_done := dv_done d1 + 1\<rparr>)))"

definition unix_collect :: "(pyval \<Rightarrow> string) \<Rightarrow> fields \<Rightarrow> unix_turn \<Rightarrow> drive \<Rightarrow> flow" where
  "unix_collect str_of col u d =
     (let topic = step_text str_of ''topic'' col in
      case ut_raises u of
        Some e \<Rightarrow> Fails e
      | None \<Rightarrow>
          Goes ((subscribe_once topic d)\<lparr>dv_notes := dv_notes d @
            collect_notes topic (case get_or col ''count'' PNone of PInt i \<Rightarrow> i | _ \<Rightarrow> 0) (ut_messages u)\<rparr>))"

definition unix_step :: "(pyval \<Rightarrow> string) \<Rightarrow> bool \<Rightarrow> bool \<Rightarrow> fields \<Rightarrow> unix_turn \<Rightarrow> drive \<Rightarrow> flow option" where
  "unix_step str_of noisy client step u d =
     (if ut_late u then Some (Breaks d)
      else if has_key ''wait-serial'' step then unix_wait (step_text str_of ''wait-serial'' step) u d
      else if ut_eof u then Some (Breaks d)
      else if has_key ''delay'' step then
        (case delay_error (step_text str_of ''delay'' step) of Some e \<Rightarrow> Some (Fails e) | None \<Rightarrow> Some (Goes d))
      else if has_key ''write-serial'' step then
        Some (Goes ((triggered (ut_now u) d)\<lparr>dv_sent := dv_sent d @
          deliveries noisy (unix_newlines (step_text str_of ''write-serial'' step))\<rparr>))
      else if has_key ''mqtt-publish'' step \<and> client then
        (case ut_raises u of
           Some e \<Rightarrow> Some (Fails e)
         | None \<Rightarrow> Some (Goes ((triggered (ut_now u) d)\<lparr>dv_published := dv_published d @
             [the_dict (get_or step ''mqtt-publish'' PNone)]\<rparr>)))
      else if has_key ''mqtt-collect'' step \<and> client then
        Some (unix_collect str_of (the_dict (get_or step ''mqtt-collect'' PNone)) u d)
      else Some (Goes d))"

text \<open>The loop; \<open>None\<close> when the observations do not end it.\<close>

fun unix_drive ::
  "(pyval \<Rightarrow> string) \<Rightarrow> bool \<Rightarrow> bool \<Rightarrow> fields list \<Rightarrow> unix_turn list \<Rightarrow> drive \<Rightarrow> (exn + drive) option" where
  "unix_drive str_of noisy client [] us d = Some (Inr d)"
| "unix_drive str_of noisy client (step # steps) [] d = None"
| "unix_drive str_of noisy client (step # steps) (u # us) d =
     (case unix_step str_of noisy client step u d of
        None \<Rightarrow> None
      | Some (Goes d1) \<Rightarrow> unix_drive str_of noisy client steps us d1
      | Some (Breaks d1) \<Rightarrow> Some (Inr d1)
      | Some (Fails e) \<Rightarrow> Some (Inl e))"

section \<open>The end of a run\<close>

text \<open>\<open>proc.wait\<close> with a timeout; \<open>TimeoutExpired\<close> is no \<open>OSError\<close>.\<close>

datatype proc_wait = ExitedWith int | StillRunning

definition timeout_expired :: exn where "timeout_expired = Exn OtherErr (PStr ''TimeoutExpired'')"

definition plain_patterns :: "string list \<Rightarrow> string list" where
  "plain_patterns expect = filter (\<lambda>p. p \<noteq> [] \<and> plain_text p \<noteq> None) expect"

definition all_plain :: "string list \<Rightarrow> string \<Rightarrow> bool" where
  "all_plain expect txt = (plain_patterns expect \<noteq> [] \<and> list_all (\<lambda>p. occurs p txt) (plain_patterns expect))"

definition unix_exit :: "bool \<Rightarrow> bool \<Rightarrow> bool \<Rightarrow> proc_wait \<Rightarrow> bool \<Rightarrow> exn + int option" where
  "unix_exit eof matched late w dies =
     (if eof then (case w of ExitedWith c \<Rightarrow> Inr (Some c) | StillRunning \<Rightarrow> Inl timeout_expired)
      else if matched \<or> late then
        (case w of ExitedWith c \<Rightarrow> Inr (Some c)
         | StillRunning \<Rightarrow> if dies then Inr None else Inl timeout_expired)
      else (case w of ExitedWith c \<Rightarrow> Inr (Some c) | StillRunning \<Rightarrow> Inr None))"

definition wait_needles :: "(pyval \<Rightarrow> string) \<Rightarrow> fields list \<Rightarrow> string list" where
  "wait_needles str_of steps = map (step_text str_of ''wait-serial'') (filter (has_key ''wait-serial'') steps)"

definition zero_waits_error :: pyval where
  "zero_waits_error = PStr ''anti-cheat: the firmware exited before the first wait-serial step - expected output must be produced in response to the stimulus''"

definition not_delivered_error :: pyval where
  "not_delivered_error = PStr ''stimulus not delivered: the firmware never read stdin and the write backlog exceeded the 1 MiB cap - later answers could not be produced in response to the stimulus''"

definition dump_error :: "(pyval \<Rightarrow> string) \<Rightarrow> fields list \<Rightarrow> box \<Rightarrow> bool \<Rightarrow> drive \<Rightarrow> pyval option" where
  "dump_error str_of steps b eof d =
     (case pre_printed b (dv_waited d) of
        Some (needle, _) \<Rightarrow> Some (pre_printed_error needle)
      | None \<Rightarrow>
          if eof \<and> dv_done d = 0 \<and> wait_needles str_of steps \<noteq> [] then
            (case List.find (\<lambda>n. occurs n (bx_text b)) (wait_needles str_of steps) of
               Some n \<Rightarrow> Some (pre_printed_error n)
             | None \<Rightarrow> Some zero_waits_error)
          else None)"

definition unix_verdict ::
  "(pyval \<Rightarrow> string) \<Rightarrow> fields list \<Rightarrow> box \<Rightarrow> bool \<Rightarrow> drive \<Rightarrow> bool \<Rightarrow> int option \<Rightarrow> pyval option \<times> string" where
  "unix_verdict str_of steps b eof d flooded exit_code =
     (let e1 = dump_error str_of steps b eof d;
          e2 = (if e1 = None \<and> flooded then Some not_delivered_error else e1);
          e3 = (if exit_code \<notin> {Some 0, None}
                then Some (PFStr [PStr ''micropython exited with code '', opt_val PInt exit_code]) else e2) in
      (e3, if e3 = None then ERROR_NONE else ERROR_RUN))"

text \<open>The handlers around the run, in their order; \<open>None\<close> is an exception that escapes.\<close>

definition unix_failure :: "exn \<Rightarrow> pyval option" where
  "unix_failure e =
     (if catches [ValueErr] e then Some (PFStr [PStr ''failed to prepare task: '', exn_str e])
      else if catches [ConnectionErr] e then Some (PFStr [PStr ''failed to connect: '', exn_str e])
      else if catches [FileNotFoundErr] e then Some (PFStr [PStr ''not found: '', exn_str e])
      else if catches [OSErr] e then Some (PFStr [PStr ''I/O error while starting micropython: '', exn_str e])
      else None)"

record unix_obs =
  uo_prepare :: "exn option"
  uo_turns :: "unix_turn list"
  uo_seen :: string
  uo_eof :: bool
  uo_late :: bool
  uo_wait :: proc_wait
  uo_dies :: bool
  uo_box :: box
  uo_eof_end :: bool
  uo_overflow :: bool
  uo_duration :: rat

text \<open>The topics subscribed up front.\<close>

definition collect_topics :: "(pyval \<Rightarrow> string) \<Rightarrow> fields list \<Rightarrow> string list" where
  "collect_topics str_of steps =
     remdups (map (\<lambda>s. step_text str_of ''topic'' (the_dict (get_or s ''mqtt-collect'' PNone)))
       (filter (has_key ''mqtt-collect'') steps))"

text \<open>The body: the error with its kind, the exit code and the text of the log.\<close>

type_synonym run_end = "pyval option \<times> string \<times> int option \<times> string"

definition unix_raised :: "exn \<Rightarrow> exn + run_end" where
  "unix_raised e = (case unix_failure e of None \<Rightarrow> Inl e | Some m \<Rightarrow> Inr (Some m, ERROR_INFRA, None, []))"

definition unix_body :: "(pyval \<Rightarrow> string) \<Rightarrow> task \<Rightarrow> unix_obs \<Rightarrow> (exn + run_end) option" where
  "unix_body str_of t uo =
     (let client = (t_mqtt t \<noteq> []) in
      case uo_prepare uo of
        Some e \<Rightarrow> Some (unix_raised e)
      | None \<Rightarrow>
          (case unix_drive str_of (t_noise t \<noteq> []) client (t_stimulus t) (uo_turns uo)
                  (drive_init (if client then collect_topics str_of (t_stimulus t) else [])) of
             None \<Rightarrow> None
           | Some (Inl e) \<Rightarrow> Some (unix_raised e)
           | Some (Inr d) \<Rightarrow>
               (case unix_exit (uo_eof uo) (all_plain (t_expect t) (uo_seen uo)) (uo_late uo) (uo_wait uo) (uo_dies uo) of
                  Inl e \<Rightarrow> Some (unix_raised e)
                | Inr code \<Rightarrow>
                    (case unix_verdict str_of (t_stimulus t) (uo_box uo) (uo_eof_end uo) d (uo_overflow uo) code of
                       (err, kind) \<Rightarrow> Some (Inr (err, kind, code, bx_text (uo_box uo)))))))"

definition unix_missed :: "search \<Rightarrow> task \<Rightarrow> box \<Rightarrow> string \<Rightarrow> pyval list \<times> string list" where
  "unix_missed search t b txt =
     (case check_patterns (\<lambda>p s. search p s \<noteq> None) txt (t_expect t) (t_fail t) of
        (missed, hit_fail) \<Rightarrow>
          (map PStr missed @ check_events search txt (map event_of (t_events t)) @
           (if t_events t = [] then [] else check_events_realtime search b (map event_of (t_events t))), hit_fail))"

definition run_unix :: "(pyval \<Rightarrow> string) \<Rightarrow> search \<Rightarrow> task \<Rightarrow> unix_obs \<Rightarrow> (exn + task_result) option" where
  "run_unix str_of search t uo =
     (if any_step_has [''set-control''] (t_stimulus t)
      then Some (Inr (not_run t (PStr ''set-control is not supported by the unix target (Wokwi buttons/sensors)'')))
      else case unix_body str_of t uo of
        None \<Rightarrow> None
      | Some (Inl e) \<Rightarrow> Some (Inl e)
      | Some (Inr (err, kind, code, txt)) \<Rightarrow>
          (case unix_missed search t (uo_box uo) txt of
             (missed, hit_fail) \<Rightarrow>
               Some (Inr \<lparr>tr_task = t_name t, tr_passed = (missed = [] \<and> hit_fail = [] \<and> err = None),
                          tr_exit_code = code, tr_duration = uo_duration uo,
                          tr_serial_log = (if txt = [] then None else Some txt), tr_missed = missed,
                          tr_hit_fail = hit_fail, tr_error = err, tr_error_kind = kind\<rparr>)))"

section \<open>What a pass means\<close>

lemma unix_raised_cases:
  "unix_raised e = Inl e \<or> (\<exists>m. unix_raised e = Inr (Some m, ERROR_INFRA, None, []))"
  by (auto simp: unix_raised_def split: option.splits)

lemma unix_verdict_clean:
  "fst (unix_verdict str_of steps b eof d flooded code) = None \<longleftrightarrow>
     dump_error str_of steps b eof d = None \<and> \<not> flooded \<and> code \<in> {Some 0, None}"
  by (auto simp: unix_verdict_def Let_def)

lemma unix_body_clean:
  assumes "unix_body str_of t uo = Some (Inr (err, kind, code, out))"
  shows "err = None \<longleftrightarrow> uo_prepare uo = None \<and>
     (\<exists>d code.
        unix_drive str_of (t_noise t \<noteq> []) (t_mqtt t \<noteq> []) (t_stimulus t) (uo_turns uo)
          (drive_init (if t_mqtt t \<noteq> [] then collect_topics str_of (t_stimulus t) else [])) = Some (Inr d) \<and>
        unix_exit (uo_eof uo) (all_plain (t_expect t) (uo_seen uo)) (uo_late uo) (uo_wait uo) (uo_dies uo) = Inr code \<and>
        code \<in> {Some 0, None} \<and> dump_error str_of (t_stimulus t) (uo_box uo) (uo_eof_end uo) d = None) \<and>
     \<not> uo_overflow uo" (is ?A)
    and "err = None \<Longrightarrow> out = bx_text (uo_box uo)" (is "_ \<Longrightarrow> ?B")
proof -
  have raised: "unix_raised e = Inr (x, kind, code, out) \<Longrightarrow> \<exists>m. x = Some m" for e x kind code out
    using unix_raised_cases [of e] by auto
  let ?drive = "unix_drive str_of (t_noise t \<noteq> []) (t_mqtt t \<noteq> []) (t_stimulus t) (uo_turns uo)
          (drive_init (if t_mqtt t \<noteq> [] then collect_topics str_of (t_stimulus t) else []))"
  let ?exit = "unix_exit (uo_eof uo) (all_plain (t_expect t) (uo_seen uo)) (uo_late uo) (uo_wait uo) (uo_dies uo)"
  consider (prep) e where "uo_prepare uo = Some e" | (none) "uo_prepare uo = None" "?drive = None"
    | (fails) e where "uo_prepare uo = None" "?drive = Some (Inl e)"
    | (hang) d e where "uo_prepare uo = None" "?drive = Some (Inr d)" "?exit = Inl e"
    | (fine) d code where "uo_prepare uo = None" "?drive = Some (Inr d)" "?exit = Inr code"
    by (metis option.exhaust sum.exhaust)
  then have "?A \<and> (err = None \<longrightarrow> ?B)"
  proof cases
    case fine
    from assms fine
    have v: "unix_verdict str_of (t_stimulus t) (uo_box uo) (uo_eof_end uo) d (uo_overflow uo) code = (err, kind)"
      "out = bx_text (uo_box uo)"
      by (auto simp: unix_body_def Let_def split: prod.splits)
    from unix_verdict_clean [of str_of "t_stimulus t" "uo_box uo" "uo_eof_end uo" d "uo_overflow uo" code]
    have "err = None \<longleftrightarrow> dump_error str_of (t_stimulus t) (uo_box uo) (uo_eof_end uo) d = None \<and>
        \<not> uo_overflow uo \<and> code \<in> {Some 0, None}" by (simp add: v)
    with fine v(2) show ?thesis by auto
  qed (use assms in \<open>auto simp: unix_body_def Let_def dest: raised\<close>)
  then show ?A and "err = None \<Longrightarrow> ?B" by blast+
qed

text \<open>
  C18. A run on the unix target passes exactly when the harness could prepare and drive it, the process ended
  with 0 or was stopped, no dump was found, the stimulus was delivered, every expected and no failure pattern is in the log,
  and every declared event is there on time, both in its own stamps and in those of the harness.
\<close>

theorem unix_passed_exact:
  assumes "run_unix str_of search t uo = Some (Inr r)"
  shows "tr_passed r \<longleftrightarrow>
    \<not> any_step_has [''set-control''] (t_stimulus t) \<and> uo_prepare uo = None \<and>
    (\<exists>d code.
        unix_drive str_of (t_noise t \<noteq> []) (t_mqtt t \<noteq> []) (t_stimulus t) (uo_turns uo)
          (drive_init (if t_mqtt t \<noteq> [] then collect_topics str_of (t_stimulus t) else [])) = Some (Inr d) \<and>
        unix_exit (uo_eof uo) (all_plain (t_expect t) (uo_seen uo)) (uo_late uo) (uo_wait uo) (uo_dies uo) = Inr code \<and>
        code \<in> {Some 0, None} \<and> dump_error str_of (t_stimulus t) (uo_box uo) (uo_eof_end uo) d = None) \<and>
    \<not> uo_overflow uo \<and>
    (\<forall>p \<in> set (t_expect t). search p (bx_text (uo_box uo)) \<noteq> None) \<and>
    (\<forall>p \<in> set (t_fail t). search p (bx_text (uo_box uo)) = None) \<and>
    check_events search (bx_text (uo_box uo)) (map event_of (t_events t)) = [] \<and>
    check_events_realtime search (uo_box uo) (map event_of (t_events t)) = []"
proof (cases "any_step_has [''set-control''] (t_stimulus t)")
  case True
  with assms show ?thesis by (auto simp: run_unix_def not_run_def)
next
  case False
  with assms obtain err kind code out where
    body: "unix_body str_of t uo = Some (Inr (err, kind, code, out))"
    and r: "tr_passed r \<longleftrightarrow> fst (unix_missed search t (uo_box uo) out) = [] \<and> snd (unix_missed search t (uo_box uo) out) = [] \<and> err = None"
    by (auto simp: run_unix_def split: option.splits sum.splits prod.splits)
  have "fst (unix_missed search t (uo_box uo) out) = [] \<and> snd (unix_missed search t (uo_box uo) out) = [] \<longleftrightarrow>
    (\<forall>p \<in> set (t_expect t). search p out \<noteq> None) \<and> (\<forall>p \<in> set (t_fail t). search p out = None) \<and>
    check_events search out (map event_of (t_events t)) = [] \<and>
    check_events_realtime search (uo_box uo) (map event_of (t_events t)) = []"
    by (auto simp: unix_missed_def check_patterns_def filter_empty_conv check_events_realtime_def)
  note miss = this
  show ?thesis
  proof (cases "err = None")
    case True
    with unix_body_clean [OF body] r miss False show ?thesis by simp
  next
    case False
    with unix_body_clean(1) [OF body] r show ?thesis by blast
  qed
qed

section \<open>The verdict and the drive\<close>

definition answered :: "box \<Rightarrow> string \<times> rat option \<Rightarrow> bool" where
  "answered b w = (answer_stamp b (fst w) (snd w) \<noteq> None)"

definition turns_into :: "box \<Rightarrow> unix_turn \<Rightarrow> bool" where
  "turns_into b u = list_all (\<lambda>w. grows (wt_box w) b) (ut_waits u)"

definition all_credited :: "box \<Rightarrow> drive \<Rightarrow> bool" where
  "all_credited b d = (length (dv_waited d) = dv_done d \<and> list_all (answered b) (dv_waited d))"

definition stopped_at_most_one :: "box \<Rightarrow> drive \<Rightarrow> bool" where
  "stopped_at_most_one b d =
     (all_credited b d \<or>
      (\<exists>ws w. dv_waited d = ws @ [w] \<and> length ws = dv_done d \<and> list_all (answered b) ws))"

lemma unix_step_credited:
  assumes "all_credited b d" and "turns_into b u" and "unix_step str_of noisy client step u d = Some f"
  shows "case f of Goes d1 \<Rightarrow> all_credited b d1 \<and> dv_done d1 = length (dv_waited d1) | Breaks d1 \<Rightarrow> stopped_at_most_one b d1
     | Fails e \<Rightarrow> True"
proof (cases "ut_late u \<or> \<not> has_key ''wait-serial'' step")
  case True
  with assms(1,3) show ?thesis
    by (auto simp: unix_step_def unix_collect_def triggered_def subscribe_once_def all_credited_def
        stopped_at_most_one_def Let_def split: if_splits option.splits)
next
  case False
  then have w: "unix_wait (step_text str_of ''wait-serial'' step) u d = Some f" (is "unix_wait ?n u d = _")
    using assms(3) by (simp add: unix_step_def)
  show ?thesis
  proof (cases "await_needle ?n (dv_last d) (ut_waits u)")
    case (Some st)
    show ?thesis
    proof (cases st)
      case None
      with Some w assms(1) show ?thesis
        by (auto simp: unix_wait_def stopped_at_most_one_def all_credited_def)
    next
      case (Some s)
      with \<open>await_needle ?n (dv_last d) (ut_waits u) = Some st\<close> await_needle_credited
      obtain x where "x \<in> set (ut_waits u)" "answer_stamp (wt_box x) ?n (dv_last d) = Some s" by blast
      with assms(2) have "answer_stamp b ?n (dv_last d) = Some s"
        by (auto simp: turns_into_def list_all_iff intro: answer_stamp_grows)
      with Some \<open>await_needle ?n (dv_last d) (ut_waits u) = Some st\<close> w assms(1) show ?thesis
        by (auto simp: unix_wait_def all_credited_def answered_def)
    qed
  qed (use w in \<open>simp add: unix_wait_def\<close>)
qed

lemma unix_drive_credited:
  "unix_drive str_of noisy client steps us d = Some (Inr d') \<Longrightarrow> all_credited b d \<Longrightarrow> list_all (turns_into b) us \<Longrightarrow>
   stopped_at_most_one b d'"
proof (induction str_of noisy client steps us d rule: unix_drive.induct)
  case (3 str_of noisy client step steps u us d)
  then obtain f where f: "unix_step str_of noisy client step u d = Some f" by (auto split: option.splits)
  from unix_step_credited [OF "3.prems"(2) _ f] "3.prems"(3)
  have "case f of Goes d1 \<Rightarrow> all_credited b d1 \<and> dv_done d1 = length (dv_waited d1) | Breaks d1 \<Rightarrow> stopped_at_most_one b d1 | Fails e \<Rightarrow> True"
    by simp
  with "3.IH" "3.prems" f show ?case by (cases f) auto
qed (auto simp: stopped_at_most_one_def)

text \<open>
  C26. The verdict never condemns an answer the drive credited: over a settled log that every look at the output
  grew into, the only waited needle it can call pre-printed is the last one, at which the drive stopped without credit.
\<close>

theorem credited_not_condemned:
  assumes drive: "unix_drive str_of noisy client steps us (drive_init topics) = Some (Inr d)"
    and settled: "\<forall>u \<in> set us. \<forall>w \<in> set (ut_waits u). grows (wt_box w) b"
    and verdict: "pre_printed b (dv_waited d) = Some e"
  shows "dv_waited d \<noteq> [] \<and> e = last (dv_waited d) \<and> length (dv_waited d) = dv_done d + 1"
proof -
  have "stopped_at_most_one b d"
    using drive settled
    by (intro unix_drive_credited [OF drive]) (auto simp: all_credited_def drive_init_def turns_into_def list_all_iff)
  moreover have fst_e: "e \<in> set (dv_waited d)" "\<not> answered b e"
    using verdict by (auto simp: pre_printed_def find_Some_iff answered_def) (metis nth_mem)
  ultimately show ?thesis by (auto simp: stopped_at_most_one_def all_credited_def list_all_iff)
qed

section \<open>Anchored waits\<close>

lemma step_anchor:
  assumes "unix_step str_of noisy client step u d = Some f" and "length step \<le> 1"
    and "has_key ''mqtt-publish'' step \<Longrightarrow> client"
    and "has_key ''wait-serial'' step \<Longrightarrow> dv_last d \<noteq> None"
    and "\<forall>w \<in> set (dv_waited d). snd w \<noteq> None"
  shows "case f of
      Goes d1 \<Rightarrow> (\<forall>w \<in> set (dv_waited d1). snd w \<noteq> None) \<and>
        (dv_last d \<noteq> None \<or> has_key ''write-serial'' step \<or> has_key ''mqtt-publish'' step \<longrightarrow> dv_last d1 \<noteq> None)
    | Breaks d1 \<Rightarrow> (\<forall>w \<in> set (dv_waited d1). snd w \<noteq> None)
    | Fails e \<Rightarrow> True"
proof -
  have one: "has_key k step \<Longrightarrow> has_key k' step \<Longrightarrow> k = k'" for k k'
    using assms(2) by (cases step) (auto simp: has_key_def split: if_splits)
  consider (late) "ut_late u" | (wait) "\<not> ut_late u" "has_key ''wait-serial'' step"
    | (other) "\<not> ut_late u" "\<not> has_key ''wait-serial'' step" by blast
  then show ?thesis
  proof cases
    case late
    with assms show ?thesis by (auto simp: unix_step_def)
  next
    case wait
    with assms(1) have "unix_wait (step_text str_of ''wait-serial'' step) u d = Some f" by (simp add: unix_step_def)
    with assms(4,5) wait one [of "''wait-serial''" "''write-serial''"] one [of "''wait-serial''" "''mqtt-publish''"]
    show ?thesis by (auto simp: unix_wait_def Let_def split: option.splits)
  next
    case other
    show ?thesis
    proof (cases "has_key ''write-serial'' step")
      case True
      with one [of "''write-serial''" "''delay''"] have "\<not> has_key ''delay'' step" by auto
      with True other assms show ?thesis by (auto simp: unix_step_def triggered_def split: if_splits)
    next
      case False
      show ?thesis
      proof (cases "has_key ''mqtt-publish'' step")
        case True
        with one [of "''mqtt-publish''" "''delay''"] have "\<not> has_key ''delay'' step" by auto
        with True False other assms show ?thesis
          by (auto simp: unix_step_def triggered_def split: if_splits option.splits)
      next
        case no: False
        with False other assms show ?thesis
          by (auto simp: unix_step_def unix_collect_def subscribe_once_def Let_def split: if_splits option.splits)
      qed
    qed
  qed
qed

lemma triggered_no_wait: "\<not> wait_before_trigger True steps"
  by (induction steps) (auto simp: Let_def)

lemma drive_anchored:
  "unix_drive str_of noisy client steps us d = Some (Inr d') \<Longrightarrow> \<not> wait_before_trigger (dv_last d \<noteq> None) steps \<Longrightarrow>
   \<forall>s \<in> set steps. length s \<le> 1 \<and> (has_key ''mqtt-publish'' s \<longrightarrow> client) \<Longrightarrow>
   \<forall>w \<in> set (dv_waited d). snd w \<noteq> None \<Longrightarrow> \<forall>w \<in> set (dv_waited d'). snd w \<noteq> None"
proof (induction str_of noisy client steps us d rule: unix_drive.induct)
  case (3 str_of noisy client step steps u us d)
  then obtain f where f: "unix_step str_of noisy client step u d = Some f" by (auto split: option.splits)
  have one: "has_key k step \<Longrightarrow> has_key k' step \<Longrightarrow> k = k'" for k k'
    using "3.prems"(3) by (cases step) (auto simp: has_key_def split: if_splits)
  have "has_key ''wait-serial'' step \<Longrightarrow> dv_last d \<noteq> None"
    using "3.prems"(2) one [of "''wait-serial''" "''write-serial''"] one [of "''wait-serial''" "''mqtt-publish''"]
    by (auto simp: Let_def)
  with step_anchor [OF f] "3.prems"
  have a: "case f of
      Goes d1 \<Rightarrow> (\<forall>w \<in> set (dv_waited d1). snd w \<noteq> None) \<and>
        (dv_last d \<noteq> None \<or> has_key ''write-serial'' step \<or> has_key ''mqtt-publish'' step \<longrightarrow> dv_last d1 \<noteq> None)
    | Breaks d1 \<Rightarrow> (\<forall>w \<in> set (dv_waited d1). snd w \<noteq> None)
    | Fails e \<Rightarrow> True" by simp
  show ?case
  proof (cases f)
    case (Goes d1)
    let ?seen = "dv_last d \<noteq> None \<or> has_key ''write-serial'' step \<or> has_key ''mqtt-publish'' step"
    from "3.prems"(2) have "\<not> wait_before_trigger ?seen steps" by (auto simp: Let_def)
    moreover have "?seen \<longrightarrow> dv_last d1 \<noteq> None" using a Goes by simp
    ultimately have "\<not> wait_before_trigger (dv_last d1 \<noteq> None) steps"
      by (cases ?seen; cases "dv_last d1") (auto simp: triggered_no_wait)
    with "3.IH" [OF f Goes] "3.prems" f Goes a show ?thesis by auto
  qed (use a f "3.prems" in auto)
qed auto

lemma compat_anchored:
  assumes "check_target_compat t = Inr ()" and "t_target t = ''unix''"
  shows "\<not> wait_before_trigger False (t_stimulus t)"
  using assms by (auto simp: check_target_compat_def compat_problems_def ANCHORED_def Let_def split: if_splits)

text \<open>
  The re-validation before a run gives every wait its anchor: for a task of the unix target whose steps
  each have one key, and publish only with an mqtt section, whatever happens during the run every wait the drive
  reached had a trigger before it, so its answer can be credited.
\<close>

theorem anchored_waits:
  assumes "check_target_compat t = Inr ()" and "t_target t = ''unix''"
    and "\<forall>s \<in> set (t_stimulus t). length s \<le> 1 \<and> (has_key ''mqtt-publish'' s \<longrightarrow> t_mqtt t \<noteq> [])"
    and "unix_drive str_of noisy (t_mqtt t \<noteq> []) (t_stimulus t) us (drive_init topics) = Some (Inr d)"
  shows "\<forall>w \<in> set (dv_waited d). snd w \<noteq> None"
  using drive_anchored [OF assms(4)] compat_anchored [OF assms(1,2)] assms(3) by (simp add: drive_init_def)

text \<open>
  A step that both writes and waits passes the validation and cannot be passed by the firmware: the runner
  only waits, without a trigger, and whatever output then holds the needle is condemned as printed before the
  stimulus.
\<close>

theorem write_and_wait_condemned:
  assumes "\<not> ut_late u" and "occurs (step_text str_of ''wait-serial'' step) (bx_text b)"
    and "step = [(''write-serial'', PStr x), (''wait-serial'', PStr y)]"
    and "unix_drive str_of noisy client [step] [u] (drive_init topics) = Some (Inr d)"
  shows "\<not> wait_before_trigger False [step] \<and> dv_sent d = [] \<and> dv_done d = 0 \<and>
    dump_error str_of [step] b eof d = Some (pre_printed_error y)"
proof -
  have n: "step_text str_of ''wait-serial'' step = y" by (simp add: assms(3) step_text_def get_or_def text_of_def)
  have none: "answer_stamp bb y None = None" for bb
    by (simp add: answer_stamp_def first_occurrence_stamp_def split: option.splits)
  have never: "await_needle y None ws \<noteq> Some (Some st)" for ws st
    using await_needle_credited [of y None ws st] none by auto
  have "unix_step str_of noisy client step u (drive_init topics) = unix_wait y u (drive_init topics)"
    using assms(1) n by (simp add: unix_step_def assms(3) has_key_def)
  with assms(4) never have "d = (drive_init topics)\<lparr>dv_waited := [(y, None)]\<rparr>"
    by (auto simp: unix_wait_def drive_init_def Let_def split: option.splits)
  then show ?thesis
    using assms(2) n none
    by (simp add: assms(3) has_key_def drive_init_def dump_error_def pre_printed_def Let_def)
qed

text \<open>C35. A firmware that closes its output and keeps running takes the run down: the expired wait for its exit is
  no error that the runner handles, so there is no result.
\<close>

theorem closed_output_escapes:
  assumes "\<not> any_step_has [''set-control''] (t_stimulus t)" and "uo_prepare uo = None"
    and "unix_drive str_of (t_noise t \<noteq> []) (t_mqtt t \<noteq> []) (t_stimulus t) (uo_turns uo)
          (drive_init (if t_mqtt t \<noteq> [] then collect_topics str_of (t_stimulus t) else [])) = Some (Inr d)"
    and "uo_eof uo" and "uo_wait uo = StillRunning"
  shows "run_unix str_of search t uo = Some (Inl timeout_expired)"
proof -
  have "unix_failure timeout_expired = None" by code_simp
  with assms show ?thesis by (simp add: run_unix_def unix_body_def unix_exit_def Let_def unix_raised_def)
qed

text \<open>
  An honest answer can be lost: when it arrives between the look for its stamp and the look at the text, the
  drive stops without credit, and if it was the first and the firmware then ends, the verdict calls it pre-printed although the
  settled log shows that it came after its stimulus.
\<close>

theorem late_answer_condemned:
  assumes "ut_waits u = [w]" and "answer_stamp (wt_box w) y (Some s) = None" and "occurs y (wt_text w)"
    and "\<not> ut_late u" and "\<not> ut_late v" and "\<not> ut_eof v" and "ut_now v = s"
    and "answer_stamp b y (Some s) = Some st" and "occurs y (bx_text b)"
    and "steps = [[(''write-serial'', PStr x)], [(''wait-serial'', PStr y)]]"
  shows "\<exists>d. unix_drive str_of noisy client steps [v, u] (drive_init topics) = Some (Inr d) \<and>
    dv_waited d = [(y, Some s)] \<and> pre_printed b (dv_waited d) = None \<and>
    dump_error str_of steps b True d = Some (pre_printed_error y)"
proof -
  have n: "step_text str_of ''wait-serial'' [(''wait-serial'', PStr y)] = y"
    by (simp add: step_text_def get_or_def text_of_def)
  from assms(1-3) have "await_needle y (Some s) (ut_waits u) = Some None" by simp
  with n assms show ?thesis
    by (simp add: unix_step_def has_key_def triggered_def unix_wait_def Let_def drive_init_def
        dump_error_def pre_printed_def wait_needles_def)
qed

section \<open>Witnesses\<close>

definition demo_box :: box where
  "demo_box = \<lparr>bx_text = ''ab'', bx_chunks = [(0, ''a''), (2, ''b'')], bx_dropped = False\<rparr>"

definition demo_turn :: unix_turn where
  "demo_turn = \<lparr>ut_late = False, ut_eof = False, ut_waits = [\<lparr>wt_box = demo_box, wt_text = ''ab'', wt_over = True\<rparr>], ut_now = 1,
     ut_messages = [], ut_raises = None\<rparr>"

definition demo_steps :: "fields list" where
  "demo_steps = [[(''write-serial'', PStr ''x'')], [(''wait-serial'', PStr ''b'')], [(''wait-serial'', PStr ''a'')]]"

definition demo_drive :: drive where
  "demo_drive = \<lparr>dv_waited = [(''b'', Some 1), (''a'', Some 1)], dv_done = 1, dv_last = Some 1, dv_triggers = [1],
     dv_sent = [(False, ''x'')], dv_published = [], dv_subscribed = [], dv_notes = []\<rparr>"

lemma demo_drive: "unix_drive (\<lambda>_. []) False False demo_steps [demo_turn, demo_turn, demo_turn] (drive_init []) = Some (Inr demo_drive)"
  by code_simp

definition demo_task :: task where
  "demo_task = \<lparr>t_name = ''t'', t_description = [], t_scenario = None, t_entry = ''m'', t_timeout_sec = 1,
     t_expect = [''b''], t_fail = [], t_stimulus = demo_steps, t_target = ''unix'', t_renode = [], t_noise = [],
     t_plant = [], t_mqtt = [], t_shim = [], t_events = [], t_tags = [], t_level = None, t_notes = [],
     t_boot_expect = [], t_device_modules = [], t_api_hint = []\<rparr>"

definition demo_obs :: unix_obs where
  "demo_obs = \<lparr>uo_prepare = None, uo_turns = [demo_turn, demo_turn, demo_turn], uo_seen = ''ab'', uo_eof = True, uo_late = False,
     uo_wait = StillRunning, uo_dies = False, uo_box = demo_box, uo_eof_end = True, uo_overflow = False, uo_duration = 2\<rparr>"

definition quiet_obs :: unix_obs where
  "quiet_obs = demo_obs\<lparr>uo_turns := [demo_turn, demo_turn], uo_wait := ExitedWith 0\<rparr>"

definition short_task :: task where "short_task = demo_task\<lparr>t_stimulus := take 2 demo_steps\<rparr>"

definition has_text :: search where
  "has_text p s = (if occurs p s then Some (length p) else None)"

lemma unix_passed_exact_witness: "\<exists>r. run_unix (\<lambda>_. []) has_text short_task quiet_obs = Some (Inr r) \<and> tr_passed r"
proof -
  have "run_unix (\<lambda>_. []) has_text short_task quiet_obs =
    Some (Inr \<lparr>tr_task = ''t'', tr_passed = True, tr_exit_code = Some 0, tr_duration = 2, tr_serial_log = Some ''ab'',
      tr_missed = [], tr_hit_fail = [], tr_error = None, tr_error_kind = ERROR_NONE\<rparr>)" (is "_ = Some (Inr ?r)")
    by code_simp
  moreover from unix_passed_exact [OF this] have "tr_passed ?r" by simp
  ultimately show ?thesis by blast
qed

lemma credited_not_condemned_witness:
  "(''a'', Some 1) = last (dv_waited demo_drive) \<and> length (dv_waited demo_drive) = dv_done demo_drive + 1"
proof -
  have "pre_printed demo_box (dv_waited demo_drive) = Some (''a'', Some 1)" by code_simp
  from credited_not_condemned [OF demo_drive _ this] show ?thesis
    by (simp add: demo_turn_def growth.refl)
qed

lemma anchored_waits_witness: "\<forall>w \<in> set (dv_waited demo_drive). snd w \<noteq> None"
proof (rule anchored_waits [of demo_task])
  show "check_target_compat demo_task = Inr ()" by code_simp
  show "unix_drive (\<lambda>_. []) False (t_mqtt demo_task \<noteq> []) (t_stimulus demo_task) [demo_turn, demo_turn, demo_turn] (drive_init [])
      = Some (Inr demo_drive)"
    using demo_drive by (simp add: demo_task_def)
qed (simp_all add: demo_task_def demo_steps_def has_key_def)

lemma write_and_wait_condemned_witness:
  "dump_error (\<lambda>_. []) [[(''write-serial'', PStr ''x''), (''wait-serial'', PStr ''b'')]] demo_box True
     ((drive_init [])\<lparr>dv_waited := [(''b'', None)]\<rparr>) = Some (pre_printed_error ''b'')"
proof -
  have "unix_drive (\<lambda>_. []) False False [[(''write-serial'', PStr ''x''), (''wait-serial'', PStr ''b'')]] [demo_turn] (drive_init [])
      = Some (Inr ((drive_init [])\<lparr>dv_waited := [(''b'', None)]\<rparr>))"
    "occurs (step_text (\<lambda>_. []) ''wait-serial'' [(''write-serial'', PStr ''x''), (''wait-serial'', PStr ''b'')]) (bx_text demo_box)"
    "\<not> ut_late demo_turn"
    by code_simp+
  from write_and_wait_condemned [OF this(3,2) refl this(1)] show ?thesis by blast
qed

lemma closed_output_escapes_witness: "run_unix (\<lambda>_. []) has_text demo_task demo_obs = Some (Inl timeout_expired)"
proof (rule closed_output_escapes)
  show "\<not> any_step_has [''set-control''] (t_stimulus demo_task)" by code_simp
  show "unix_drive (\<lambda>_. []) (t_noise demo_task \<noteq> []) (t_mqtt demo_task \<noteq> []) (t_stimulus demo_task) (uo_turns demo_obs)
      (drive_init (if t_mqtt demo_task \<noteq> [] then collect_topics (\<lambda>_. []) (t_stimulus demo_task) else [])) = Some (Inr demo_drive)"
    using demo_drive by (simp add: demo_task_def demo_obs_def)
qed (simp_all add: demo_obs_def)

lemma late_answer_condemned_witness:
  "\<exists>d. unix_drive (\<lambda>_. []) False False (take 2 demo_steps)
      [demo_turn, demo_turn\<lparr>ut_waits := [\<lparr>wt_box = box_init, wt_text = ''ab'', wt_over = False\<rparr>]\<rparr>] (drive_init []) = Some (Inr d) \<and>
    dump_error (\<lambda>_. []) (take 2 demo_steps) demo_box True d = Some (pre_printed_error ''b'')"
proof -
  let ?w = "\<lparr>wt_box = box_init, wt_text = ''ab'', wt_over = False\<rparr>"
  let ?u = "demo_turn\<lparr>ut_waits := [?w]\<rparr>"
  have "ut_waits ?u = [?w]" "answer_stamp (wt_box ?w) ''b'' (Some 1) = None" "occurs ''b'' (wt_text ?w)"
    "\<not> ut_late ?u" "\<not> ut_late demo_turn" "\<not> ut_eof demo_turn" "ut_now demo_turn = 1"
    "answer_stamp demo_box ''b'' (Some 1) = Some 2" "occurs ''b'' (bx_text demo_box)" by code_simp+
  moreover have "take 2 demo_steps = [[(''write-serial'', PStr ''x'')], [(''wait-serial'', PStr ''b'')]]"
    by (simp add: demo_steps_def)
  ultimately show ?thesis using late_answer_condemned by blast
qed

end
