(* ===== verification/RealRun.thy ===== *)
theory RealRun
  imports UnixRun PlantRun
begin

text \<open>
  The runner of a live board (\<open>src/ironbench/runner_real.py\<close>, \<open>realhw.py\<close>): the bounded buffer of the
  REPL, the backup of the user's program before it is wiped, the staging, the cut of the echo, and the drive. The link is
  a list of observations; texts are UTF-8 and positions count bytes.
\<close>

section \<open>The buffer of the REPL\<close>

text \<open>One read that returned data, decoded; the cap is looked at before the data.\<close>

definition pump_one :: "rat \<Rightarrow> string \<Rightarrow> box \<Rightarrow> box" where
  "pump_one now chunk b =
     (if length (bx_text b) \<ge> MAX_SERIAL_TEXT then
        (if bx_dropped b then b
         else b\<lparr>bx_dropped := True, bx_chunks := bx_chunks b @ [(now, TRUNCATED)], bx_text := bx_text b @ TRUNCATED\<rparr>)
      else b\<lparr>bx_chunks := bx_chunks b @ [(now, chunk)], bx_text := bx_text b @ chunk\<rparr>)"

definition pump_all :: "(rat \<times> string) list \<Rightarrow> box \<Rightarrow> box" where
  "pump_all reads b = fold (\<lambda>(now, chunk). pump_one now chunk) reads b"

fun cut_chunks :: "nat \<Rightarrow> nat \<Rightarrow> ('t \<times> string) list \<Rightarrow> ('t \<times> string) list" where
  "cut_chunks pos seen [] = []"
| "cut_chunks pos seen ((stamp, chunk) # cs) =
     (if pos < seen + length chunk then [(stamp, drop (pos - seen) chunk)] else []) @
     cut_chunks pos (seen + length chunk) cs"

definition truncate_box :: "nat \<Rightarrow> box \<Rightarrow> box" where
  "truncate_box pos b =
     (if pos = 0 then b else b\<lparr>bx_text := drop pos (bx_text b), bx_chunks := cut_chunks pos 0 (bx_chunks b)\<rparr>)"

text \<open>\<open>rfind\<close>: the greatest index where a text occurs.\<close>

fun rfind :: "'a list \<Rightarrow> 'a list \<Rightarrow> nat option" where
  "rfind n [] = (if n = [] then Some 0 else None)"
| "rfind n (x # xs) =
     (case rfind n xs of Some i \<Rightarrow> Some (Suc i) | None \<Rightarrow> if prefix n (x # xs) then Some 0 else None)"

definition rstrip :: "string \<Rightarrow> string" where
  "rstrip s = rev (dropWhile py_space (rev s))"

definition PASTE_BANNER :: string where "PASTE_BANNER = ''paste mode''"

definition echo_truncated :: exn where
  "echo_truncated = Exn TransportIoError (PStr ''staging echo truncated (FIFO/link lost the tail) - the run cannot be scored honestly; retry with a fresh paste'')"

definition truncate_after_staging_echo :: "string \<Rightarrow> box \<Rightarrow> exn + box" where
  "truncate_after_staging_echo code b =
     (case filter (\<lambda>l. l \<noteq> []) (map rstrip (splitlines code)) of
        [] \<Rightarrow> Inr b
      | first # rest \<Rightarrow>
          (case rfind (last (first # rest)) (bx_text b) of
             Some pos \<Rightarrow>
               Inr (truncate_box
                 (case find_at [ch 10] (drop pos (bx_text b)) of
                    None \<Rightarrow> length (bx_text b) | Some e \<Rightarrow> pos + e + 1) b)
           | None \<Rightarrow>
               (case find_at PASTE_BANNER (bx_text b) of
                  None \<Rightarrow> Inr b
                | Some i \<Rightarrow> if occurs first (drop i (bx_text b)) then Inl echo_truncated else Inr b)))"

section \<open>The backup of the user's program\<close>

definition PROBE_QUIET_SEC :: rat where "PROBE_QUIET_SEC = 2"
definition PROBE_TOTAL_CAP :: rat where "PROBE_TOTAL_CAP = 10"
definition PROBE_MAX_BYTES :: nat where "PROBE_MAX_BYTES = 262144"

definition BACKUP_MARK :: string where "BACKUP_MARK = ''IH-BACKUP ''"
definition ABSENT_MARK :: string where "ABSENT_MARK = ''IH-BACKUP-ABSENT''"

datatype backup = Saved bytes | Absent | Unknown

text \<open>What the text after the probe says; \<open>None\<close> is to go on waiting.\<close>

definition backup_answer :: "string \<Rightarrow> backup option" where
  "backup_answer txt =
     (if occurs ABSENT_MARK txt then Some Absent
      else case find_at BACKUP_MARK txt of
        None \<Rightarrow> None
      | Some i \<Rightarrow>
          let rest = drop (i + length BACKUP_MARK) txt in
          (case find_at [ch 10] rest of
             None \<Rightarrow> None
           | Some nl \<Rightarrow> map_option Saved (from_hex (strip (take nl rest)))))"

text \<open>One look: the clock at the loop's condition, the text since the probe after the drain, the clock then.\<close>

record look =
  lk_now :: rat
  lk_text :: string
  lk_after :: rat

fun backup_loop :: "rat \<Rightarrow> rat \<Rightarrow> nat \<Rightarrow> look list \<Rightarrow> backup option" where
  "backup_loop started deadline seen [] = None"
| "backup_loop started deadline seen (l # ls) =
     (if lk_now l \<ge> deadline then Some Unknown
      else case backup_answer (lk_text l) of
        Some r \<Rightarrow> Some r
      | None \<Rightarrow>
          backup_loop started
            (if seen < length (lk_text l) \<and> length (lk_text l) < PROBE_MAX_BYTES
             then min (lk_after l + PROBE_QUIET_SEC) (started + PROBE_TOTAL_CAP) else deadline)
            (length (lk_text l)) ls)"

definition backup_main :: "rat \<Rightarrow> look list \<Rightarrow> backup option" where
  "backup_main started looks = backup_loop started (started + PROBE_QUIET_SEC) 0 looks"

section \<open>Staging\<close>

definition CTRL_C :: string where "CTRL_C = [ch 3]"
definition CTRL_D :: string where "CTRL_D = [ch 4]"
definition CTRL_E :: string where "CTRL_E = [ch 5]"

definition REMOVE_MAIN :: string where
  "REMOVE_MAIN = ''import os; os.remove('' @ [ch 39] @ ''main.py'' @ [ch 39] @ '') if '' @ [ch 39] @ ''main.py'' @ [ch 39] @
     '' in os.listdir() else None'' @ [ch 13, ch 10]"

definition BACKUP_PROBE_LINES :: "string list" where
  "BACKUP_PROBE_LINES =
     (let q = (\<lambda>s. [ch 39] @ s @ [ch 39]) in
      [''import binascii, os'' @ [ch 13, ch 10],
       ''print('' @ q ''IH-BACK'' @ '' + '' @ q ''UP'' @ '', binascii.hexlify(open('' @ q ''main.py'' @ '', '' @ q ''rb'' @
         '').read()).decode()) if '' @ q ''main.py'' @ '' in os.listdir() else print('' @ q ''IH-BACK'' @ '' + '' @
         q ''UP-ABSENT'' @ '')'' @ [ch 13, ch 10]])"

definition WRITE_CHUNK :: nat where "WRITE_CHUNK = 24"

text \<open>The pieces a write reaches the link in.\<close>

function link_chunks :: "string \<Rightarrow> string list" where
  "link_chunks s = (if s = [] then [] else take WRITE_CHUNK s # link_chunks (drop WRITE_CHUNK s))"
  by pat_completeness auto
termination
  by (relation "measure length") (auto simp: WRITE_CHUNK_def)

declare link_chunks.simps [simp del]

text \<open>Each turn of the paste loop: whether the banner is there, whether the deadline has passed. The result is
  the number of attempts and whether paste mode was reached.\<close>

fun paste_loop :: "nat \<Rightarrow> (bool \<times> bool) list \<Rightarrow> (nat \<times> bool) option" where
  "paste_loop n [] = None"
| "paste_loop n ((banner, late) # ts) =
     (if banner then Some (n, True) else if late then Some (n, False) else paste_loop (n + 1) ts)"

text \<open>The lines written before the deadline, and whether that is all of them.\<close>

fun stage_lines :: "string list \<Rightarrow> bool list \<Rightarrow> (string list \<times> bool) option" where
  "stage_lines [] lates = Some ([], True)"
| "stage_lines (l # ls) [] = None"
| "stage_lines (l # ls) (late # lates) =
     (if late then Some ([], False) else map_option (\<lambda>(ws, ok). (l # ws, ok)) (stage_lines ls lates))"

record boot_obs =
  bo_started :: rat
  bo_looks :: "look list"
  bo_save :: "exn option"
  bo_paste :: "(bool \<times> bool) list"
  bo_lates :: "bool list"
  bo_staged :: box

definition no_backup_error :: exn where
  "no_backup_error = Exn ConnectionErr (PStr ''refusing to wipe main.py without a verified backup (the backup probe got no parseable answer)'')"

definition no_paste_error :: exn where
  "no_paste_error = Exn ConnectionErr (PStr ''board did not enter paste mode (Ctrl+E)'')"

definition stage_timeout :: exn where
  "stage_timeout = Exn TimeoutErr (PStr ''staging exceeded the wall deadline (IH-57)'')"

text \<open>The writes in their order, with the failure or the buffer that is left. The exception of saving the backup is
  an observation.\<close>

definition boot :: "string \<Rightarrow> boot_obs \<Rightarrow> (string list \<times> (exn + box)) option" where
  "boot code bo =
     (let probe = [CTRL_C @ CTRL_C] @ BACKUP_PROBE_LINES; wiped = probe @ [REMOVE_MAIN, CTRL_D] in
      case backup_main (bo_started bo) (bo_looks bo) of
        None \<Rightarrow> None
      | Some st \<Rightarrow>
          if st = Unknown then Some (probe, Inl no_backup_error)
          else (case (st, bo_save bo) of
            (Saved _, Some e) \<Rightarrow> Some (probe, Inl e)
          | _ \<Rightarrow>
              (case paste_loop 0 (bo_paste bo) of
                 None \<Rightarrow> None
               | Some (n, False) \<Rightarrow> Some (wiped @ replicate n CTRL_E, Inl no_paste_error)
               | Some (n, True) \<Rightarrow>
                   (case stage_lines (split_keep [] code) (bo_lates bo) of
                      None \<Rightarrow> None
                    | Some (ws, False) \<Rightarrow> Some (wiped @ replicate n CTRL_E @ ws, Inl stage_timeout)
                    | Some (ws, True) \<Rightarrow>
                        Some (wiped @ replicate n CTRL_E @ ws @ [CTRL_D],
                              truncate_after_staging_echo code (bo_staged bo))))))"

section \<open>The run\<close>

definition real_newlines :: "string \<Rightarrow> string" where
  "real_newlines s = replace_all [ch 10] [ch 13] (replace_all [ch 13, ch 10] [ch 13] s)"

text \<open>One step of the stimulus. The order of the keys is not that of the unix target, the end of the
  output is unknown, and the count of credited waits is not used.\<close>

definition real_step :: "(pyval \<Rightarrow> string) \<Rightarrow> fields \<Rightarrow> unix_turn \<Rightarrow> drive \<Rightarrow> flow option" where
  "real_step str_of step u d =
     (if ut_late u then Some (Breaks d)
      else if has_key ''delay'' step then
        (case delay_error (step_text str_of ''delay'' step) of Some e \<Rightarrow> Some (Fails e) | None \<Rightarrow> Some (Goes d))
      else if has_key ''wait-serial'' step then unix_wait (step_text str_of ''wait-serial'' step) u d
      else if has_key ''write-serial'' step then
        (case ut_raises u of
           Some e \<Rightarrow> Some (Fails e)
         | None \<Rightarrow> Some (Goes ((triggered (ut_now u) d)\<lparr>dv_sent := dv_sent d @
             [(False, real_newlines (step_text str_of ''write-serial'' step))]\<rparr>)))
      else Some (Goes d))"

fun real_drive :: "(pyval \<Rightarrow> string) \<Rightarrow> fields list \<Rightarrow> unix_turn list \<Rightarrow> drive \<Rightarrow> (exn + drive) option" where
  "real_drive str_of [] us d = Some (Inr d)"
| "real_drive str_of (step # steps) [] d = None"
| "real_drive str_of (step # steps) (u # us) d =
     (case real_step str_of step u d of
        None \<Rightarrow> None
      | Some (Goes d1) \<Rightarrow> real_drive str_of steps us d1
      | Some (Breaks d1) \<Rightarrow> Some (Inr d1)
      | Some (Fails e) \<Rightarrow> Some (Inl e))"

definition real_unsupported :: "task \<Rightarrow> string option" where
  "real_unsupported t =
     (if any_step_has [''set-control''] (t_stimulus t) then Some ''real target does not support set-control (Wokwi buttons/sensors)''
      else if t_mqtt t \<noteq> [] then Some ''real target does not support the mqtt section yet''
      else if t_noise t \<noteq> [] then Some ''real target does not support noise injection (the link is physical)''
      else None)"

text \<open>What a run sees: whether there is a transport or a port, the exception of reading the entry or opening the link,
  its text, the staging, the turns, the exception of the final reading, the box after it.\<close>

record real_obs =
  ro_transport :: bool
  ro_port :: bool
  ro_open :: "exn option"
  ro_code :: string
  ro_boot :: boot_obs
  ro_turns :: "unix_turn list"
  ro_tail :: "exn option"
  ro_box :: box
  ro_duration :: rat

definition real_failure :: "exn \<Rightarrow> (pyval option \<times> string) option" where
  "real_failure e =
     (if catches [TimeoutErr] e then Some (Some (PFStr [PStr ''wall deadline exceeded: '', exn_str e]), ERROR_TIMEOUT)
      else if catches [OSErr, ConnectionErr, ValueErr, AssertionErr] e
        then Some (Some (PFStr [PStr ''failed to talk to the board: '', exn_str e]), ERROR_INFRA)
      else None)"

definition real_raised :: "exn \<Rightarrow> exn + (pyval option \<times> string \<times> string)" where
  "real_raised e = (case real_failure e of None \<Rightarrow> Inl e | Some (m, k) \<Rightarrow> Inr (m, k, []))"

definition real_body :: "(pyval \<Rightarrow> string) \<Rightarrow> task \<Rightarrow> real_obs \<Rightarrow> (exn + (pyval option \<times> string \<times> string)) option" where
  "real_body str_of t ro =
     (case ro_open ro of
        Some e \<Rightarrow> Some (real_raised e)
      | None \<Rightarrow>
          (case boot (ro_code ro) (ro_boot ro) of
             None \<Rightarrow> None
           | Some (_, Inl e) \<Rightarrow> Some (real_raised e)
           | Some (_, Inr _) \<Rightarrow>
               (case real_drive str_of (t_stimulus t) (ro_turns ro) (drive_init []) of
                  None \<Rightarrow> None
                | Some (Inl e) \<Rightarrow> Some (real_raised e)
                | Some (Inr d) \<Rightarrow>
                    (case ro_tail ro of
                       Some e \<Rightarrow> Some (real_raised e)
                     | None \<Rightarrow>
                         Some (Inr (case pre_printed (ro_box ro) (dv_waited d) of
                             Some (needle, _) \<Rightarrow> (Some (pre_printed_error needle), ERROR_RUN, bx_text (ro_box ro))
                           | None \<Rightarrow> (None, ERROR_NONE, bx_text (ro_box ro))))))))"

definition run_real :: "(pyval \<Rightarrow> string) \<Rightarrow> search \<Rightarrow> task \<Rightarrow> real_obs \<Rightarrow> (exn + task_result) option" where
  "run_real str_of search t ro =
     (case real_unsupported t of
        Some m \<Rightarrow> Some (Inr (not_run t (PStr m)))
      | None \<Rightarrow>
          if \<not> ro_transport ro \<and> \<not> ro_port ro
          then Some (Inr (not_run t (PStr (''IRONBENCH_REAL_PORT is not set '' @ [ch 226, ch 128, ch 148] @
            '' live-hardware runs are opt-in (set the env var to the board'' @ [ch 39] @ ''s COM/tty port)''))))
          else case real_body str_of t ro of
            None \<Rightarrow> None
          | Some (Inl e) \<Rightarrow> Some (Inl e)
          | Some (Inr (err, kind, txt)) \<Rightarrow>
              (case check_patterns (\<lambda>p s. search p s \<noteq> None) txt (t_expect t) (t_fail t) of
                 (missed, hit_fail) \<Rightarrow>
                   Some (Inr \<lparr>tr_task = t_name t, tr_passed = (missed = [] \<and> hit_fail = [] \<and> err = None),
                              tr_exit_code = None, tr_duration = ro_duration ro,
                              tr_serial_log = (if txt = [] then None else Some txt), tr_missed = map PStr missed,
                              tr_hit_fail = hit_fail, tr_error = err, tr_error_kind = kind\<rparr>)))"

section \<open>The buffer\<close>

lemma stamp_at_shift: "stamp_at (pos + k) (seen + k) cs = stamp_at pos seen cs"
  by (induction pos seen cs rule: stamp_at.induct) (auto simp: Let_def add_ac)

lemma cut_chunks_all: "pos < s \<Longrightarrow> cut_chunks pos s cs = cs"
  by (induction pos s cs rule: cut_chunks.induct) auto

lemma stamp_at_cut:
  "seen \<le> pos \<Longrightarrow> stamp_at q 0 (cut_chunks pos seen cs) = stamp_at (pos + q) seen cs"
proof (induction pos seen cs arbitrary: q rule: cut_chunks.induct)
  case (2 pos seen stamp chunk cs)
  show ?case
  proof (cases "pos < seen + length chunk")
    case False
    with 2 show ?thesis by simp
  next
    case True
    let ?k = "seen + length chunk - pos"
    have "stamp_at q ?k cs = stamp_at (q + pos) (?k + pos) cs" by (simp add: stamp_at_shift)
    also have "?k + pos = seen + length chunk" using True by simp
    finally have "stamp_at q ?k cs = stamp_at (pos + q) (seen + length chunk) cs" by (simp add: add.commute)
    moreover have "length (drop (pos - seen) chunk) = ?k" using 2(2) by simp
    moreover have "q < ?k \<longleftrightarrow> pos + q < seen + length chunk" using True by linarith
    ultimately show ?thesis using True by (simp add: Let_def cut_chunks_all)
  qed
qed simp

lemma concat_cut:
  "seen \<le> pos \<Longrightarrow> concat (map snd (cut_chunks pos seen cs)) = drop (pos - seen) (concat (map snd cs))"
proof (induction pos seen cs rule: cut_chunks.induct)
  case (2 pos seen stamp chunk cs)
  show ?case
  proof (cases "pos < seen + length chunk")
    case True
    with 2(2) show ?thesis by (simp add: cut_chunks_all)
  next
    case False
    with 2 show ?thesis by (simp add: diff_diff_add)
  qed
qed simp

definition box_fits :: "box \<Rightarrow> bool" where
  "box_fits b = (concat (map snd (bx_chunks b)) = bx_text b)"

lemma pump_all_fits: "box_fits b \<Longrightarrow> box_fits (pump_all reads b)"
proof (induction reads arbitrary: b)
  case (Cons r reads)
  have "box_fits (pump_one (fst r) (snd r) b)" using Cons.prems by (simp add: box_fits_def pump_one_def)
  from Cons.IH [OF this] show ?case by (simp add: pump_all_def split_def)
qed (simp add: pump_all_def)

text \<open>
  Cutting the echo off keeps the anti-cheat exact: after any reads, dropping the first bytes leaves text and
  chunks consistent, and every byte that stays is still mapped to the stamp of the read that brought it.
\<close>

theorem echo_cut_keeps_stamps:
  "concat (map snd (bx_chunks (truncate_box pos (pump_all reads box_init)))) = bx_text (truncate_box pos (pump_all reads box_init)) \<and>
   bx_text (truncate_box pos (pump_all reads box_init)) = drop pos (bx_text (pump_all reads box_init)) \<and>
   stamp_at q 0 (bx_chunks (truncate_box pos (pump_all reads box_init))) = stamp_at (pos + q) 0 (bx_chunks (pump_all reads box_init))"
proof -
  have "box_fits (pump_all reads box_init)" by (rule pump_all_fits) (simp add: box_fits_def box_init_def)
  then show ?thesis by (simp add: truncate_box_def box_fits_def concat_cut stamp_at_cut)
qed

section \<open>The backup\<close>

lemma backup_loop_decides:
  "backup_loop started deadline seen looks = Some r \<Longrightarrow> r \<noteq> Unknown \<Longrightarrow> deadline \<le> started + PROBE_TOTAL_CAP \<Longrightarrow>
   \<exists>l \<in> set looks. backup_answer (lk_text l) = Some r \<and> lk_now l < started + PROBE_TOTAL_CAP"
proof (induction started deadline seen looks rule: backup_loop.induct)
  case (2 started deadline seen l ls)
  then have now: "lk_now l < deadline" by (auto split: if_splits)
  show ?case
  proof (cases "backup_answer (lk_text l)")
    case None
    with 2 now show ?thesis by (auto split: if_splits)
  next
    case (Some r')
    with 2 now show ?thesis by auto
  qed
qed simp


lemma find_at_first:
  assumes "\<not> occurs n (a @ butlast n)" and "n \<noteq> []"
  shows "find_at n (a @ n @ b) = Some (length a)"
  unfolding find_at_iff
proof (intro conjI allI impI)
  fix j assume j: "j < length a"
  show "\<not> prefix n (drop j (a @ n @ b))"
  proof
    assume p: "prefix n (drop j (a @ n @ b))"
    have "a @ n @ b = (a @ butlast n) @ [last n] @ b" using assms(2) by simp
    with p have "prefix n (drop j (a @ butlast n) @ [last n] @ b)" using j by simp
    moreover have "length n \<le> length (drop j (a @ butlast n))" using j assms(2) by (cases n) auto
    ultimately have "prefix n (drop j (a @ butlast n))"
      by (meson prefixI prefix_length_prefix)
    then obtain zs where "drop j (a @ butlast n) = n @ zs" by (auto simp: prefix_def)
    then have "a @ butlast n = take j (a @ butlast n) @ n @ zs" by (metis append_take_drop_id)
    with assms(1) show False unfolding occurs_iff by blast
  qed
qed auto

lemma hex_text: "c \<in> set (to_hex bs) \<Longrightarrow> c \<noteq> ch 10 \<and> \<not> py_space c"
proof -
  have "\<forall>n \<in> {0..<16}. hex_digit n \<noteq> ch 10 \<and> \<not> py_space (hex_digit n)" by code_simp
  moreover assume "c \<in> set (to_hex bs)"
  then obtain b where "b \<in> set bs" "c \<in> set (hex_byte b)" by (auto simp: to_hex_def)
  then have "c = hex_digit (unat b div 16) \<or> c = hex_digit (unat b mod 16)" by (simp add: hex_byte_def)
  moreover have "unat b div 16 < 16" "unat b mod 16 < 16" using unat_byte_less [of b] by linarith+
  ultimately show ?thesis by auto
qed

lemma find_at_char: "c \<notin> set a \<Longrightarrow> find_at [c] (a @ c # b) = Some (length a)"
  by (induction a) auto

lemma find_at_absent: "c \<notin> set a \<Longrightarrow> find_at [c] a = None"
  by (induction a) auto


section \<open>Staging\<close>

lemma link_chunks_spec: "concat (link_chunks s) = s \<and> (\<forall>c \<in> set (link_chunks s). c \<noteq> [] \<and> length c \<le> 24)"
proof (induction s rule: link_chunks.induct)
  case (1 s)
  then show ?case
    by (cases "s = []") (auto simp: link_chunks.simps [of s] link_chunks.simps [of "[]"] WRITE_CHUNK_def)
qed

lemma link_chunks_concat: "concat (concat (map link_chunks ws)) = concat ws"
  by (induction ws) (simp_all add: link_chunks_spec)

lemma stage_lines_all: "stage_lines ls lates = Some (ws, True) \<Longrightarrow> ws = ls"
  by (induction ls lates arbitrary: ws rule: stage_lines.induct) (auto split: if_splits)

text \<open>
  The board gets the program as it is: a staging that ends well sent, in pieces of at most 24 bytes, exactly the
  text of the program between entering and leaving paste mode, after the wipe and the reset.
\<close>

theorem staged_program:
  assumes "boot code bo = Some (ws, Inr b)"
  shows "(\<exists>n. concat (concat (map link_chunks ws)) =
      CTRL_C @ CTRL_C @ concat BACKUP_PROBE_LINES @ REMOVE_MAIN @ CTRL_D @ concat (replicate n CTRL_E) @ code @ CTRL_D) \<and>
    (\<forall>c \<in> set (concat (map link_chunks ws)). length c \<le> 24)"
proof -
  from assms obtain n lines where
    ws: "ws = [CTRL_C @ CTRL_C] @ BACKUP_PROBE_LINES @ [REMOVE_MAIN, CTRL_D] @ replicate n CTRL_E @ lines @ [CTRL_D]"
    and "stage_lines (split_keep [] code) (bo_lates bo) = Some (lines, True)"
    by (auto simp: boot_def Let_def split: option.splits if_splits backup.splits bool.splits)
  from stage_lines_all [OF this(2)] have "concat lines = code" by (simp add: concat_split_keep)
  with ws have "concat (concat (map link_chunks ws)) =
      CTRL_C @ CTRL_C @ concat BACKUP_PROBE_LINES @ REMOVE_MAIN @ CTRL_D @ concat (replicate n CTRL_E) @ code @ CTRL_D"
    unfolding link_chunks_concat by simp
  moreover have "\<forall>c \<in> set (concat (map link_chunks ws)). length c \<le> 24" using link_chunks_spec by auto
  ultimately show ?thesis by blast
qed

section \<open>What a pass means\<close>

lemma real_raised_cases: "real_raised e = Inl e \<or> (\<exists>m k. real_raised e = Inr (Some m, k, []))"
  by (auto simp: real_raised_def real_failure_def split: option.splits)

lemma real_body_clean:
  assumes "real_body str_of t ro = Some (Inr (err, kind, out))"
  shows "(err = None \<longleftrightarrow> ro_open ro = None \<and> ro_tail ro = None \<and>
     (\<exists>ws b d. boot (ro_code ro) (ro_boot ro) = Some (ws, Inr b) \<and>
        real_drive str_of (t_stimulus t) (ro_turns ro) (drive_init []) = Some (Inr d) \<and>
        pre_printed (ro_box ro) (dv_waited d) = None)) \<and>
    (err = None \<longrightarrow> out = bx_text (ro_box ro))"
proof -
  have raised: "real_raised e = Inr (x, k, y) \<Longrightarrow> \<exists>m. x = Some m" for e x k y
    using real_raised_cases [of e] by auto
  show ?thesis
    using assms unfolding real_body_def
    by (auto split: option.splits sum.splits prod.splits dest: raised)
qed

text \<open>
  A run on the board passes exactly when the task asks for nothing the target lacks, there is a board, the
  program was backed up, staged and driven, no waited answer was printed before its stimulus, every expected and no
  failure pattern is in the log.
\<close>

theorem real_passed_exact:
  assumes "run_real str_of search t ro = Some (Inr r)"
  shows "tr_passed r \<longleftrightarrow>
    real_unsupported t = None \<and> (ro_transport ro \<or> ro_port ro) \<and> ro_open ro = None \<and> ro_tail ro = None \<and>
    (\<exists>ws b d. boot (ro_code ro) (ro_boot ro) = Some (ws, Inr b) \<and>
       real_drive str_of (t_stimulus t) (ro_turns ro) (drive_init []) = Some (Inr d) \<and>
       pre_printed (ro_box ro) (dv_waited d) = None) \<and>
    (\<forall>p \<in> set (t_expect t). search p (bx_text (ro_box ro)) \<noteq> None) \<and>
    (\<forall>p \<in> set (t_fail t). search p (bx_text (ro_box ro)) = None)"
proof (cases "real_unsupported t = None \<and> (ro_transport ro \<or> ro_port ro)")
  case False
  with assms show ?thesis by (auto simp: run_real_def not_run_def split: option.splits if_splits)
next
  case True
  with assms obtain err kind out where
    body: "real_body str_of t ro = Some (Inr (err, kind, out))"
    and r: "tr_passed r \<longleftrightarrow> (\<forall>p \<in> set (t_expect t). search p out \<noteq> None) \<and> (\<forall>p \<in> set (t_fail t). search p out = None) \<and> err = None"
    by (auto simp: run_real_def check_patterns_def filter_empty_conv split: option.splits sum.splits prod.splits)
  from real_body_clean [OF body] r True show ?thesis by (cases "err = None") auto
qed

section \<open>Witnesses\<close>

definition good_boot :: boot_obs where
  "good_boot = \<lparr>bo_started = 0, bo_looks = [\<lparr>lk_now = 1, lk_text = BACKUP_MARK @ ''00'' @ [ch 13, ch 10], lk_after = 1\<rparr>],
     bo_save = None, bo_paste = [(False, False), (True, False)], bo_lates = [False],
     bo_staged = \<lparr>bx_text = ''paste mode'' @ ch 10 # ''x'' @ [ch 10] @ ''b'', bx_chunks = [(0, ''paste mode'' @ ch 10 # ''x'' @ [ch 10] @ ''b'')], bx_dropped = False\<rparr>\<rparr>"

definition good_writes :: "string list" where
  "good_writes = [CTRL_C @ CTRL_C] @ BACKUP_PROBE_LINES @ [REMOVE_MAIN, CTRL_D, CTRL_E, ''x'', CTRL_D]"

lemma good_boot: "boot ''x'' good_boot = Some (good_writes, Inr \<lparr>bx_text = ''b'', bx_chunks = [(0, ''b'')], bx_dropped = False\<rparr>)"
  by code_simp



lemma staged_program_witness:
  "\<exists>n. concat (concat (map link_chunks good_writes)) =
      CTRL_C @ CTRL_C @ concat BACKUP_PROBE_LINES @ REMOVE_MAIN @ CTRL_D @ concat (replicate n CTRL_E) @ ''x'' @ CTRL_D"
  by (rule conjunct1 [OF staged_program [OF good_boot]])

definition real_task :: task where "real_task = short_task\<lparr>t_target := ''real''\<rparr>"

definition good_real :: real_obs where
  "good_real = \<lparr>ro_transport = True, ro_port = False, ro_open = None, ro_code = ''x'', ro_boot = good_boot,
     ro_turns = [demo_turn, demo_turn], ro_tail = None, ro_box = demo_box, ro_duration = 3\<rparr>"

lemma real_passed_exact_witness: "\<exists>r. run_real (\<lambda>_. []) has_text real_task good_real = Some (Inr r) \<and> tr_passed r"
proof -
  have "run_real (\<lambda>_. []) has_text real_task good_real =
    Some (Inr \<lparr>tr_task = ''t'', tr_passed = True, tr_exit_code = None, tr_duration = 3, tr_serial_log = Some ''ab'',
      tr_missed = [], tr_hit_fail = [], tr_error = None, tr_error_kind = ERROR_NONE\<rparr>)" (is "_ = Some (Inr ?r)")
    by code_simp
  moreover from real_passed_exact [OF this] have "tr_passed ?r" by simp
  ultimately show ?thesis by blast
qed

end
