(* ===== verification/McpWire.thy ===== *)
theory McpWire
  imports Agent Tasks
begin

text \<open>
  The MCP client (\<open>src/ironbench/mcp_wire.py\<close>): JSON-RPC over the lines a server prints, one request at a
  time. What happens to a request is a list of events, the messages as they come and the moment its deadline passes; a
  message may come late and meet the next request. \<open>json.loads\<close> is a parameter.
\<close>

section \<open>The reader\<close>

definition GARBAGE :: string where "GARBAGE = ''__stdout_garbage__''"

definition wire_value :: "(string \<Rightarrow> pyval option) \<Rightarrow> string \<Rightarrow> pyval option" where
  "wire_value json line =
     (let l = strip line in
      if l = [] then None
      else Some (case json l of Some v \<Rightarrow> v | None \<Rightarrow> PDict [(GARBAGE, PStr l)]))"

text \<open>The queue after the output has ended; \<open>None\<close> of Python marks the end.\<close>

definition read_wire :: "(string \<Rightarrow> pyval option) \<Rightarrow> string list \<Rightarrow> pyval list" where
  "read_wire json lines = List.map_filter (wire_value json) lines @ [PNone]"

section \<open>Requests\<close>

text \<open>\<open>McpWireError\<close>, or another exception.\<close>

datatype wire_err = WireErr pyval | Raised exn

datatype wire_event = Arrives pyval | Deadline

text \<open>The client: how sending each request ends (a dead server, a broken pipe), the events, the next id.\<close>

record wire =
  wi_sends :: "wire_err option list"
  wi_events :: "wire_event list"
  wi_next_id :: int

definition garbage_in :: "pyval \<Rightarrow> exn + bool" where
  "garbage_in v =
     (case v of
        PDict d \<Rightarrow> Inr (has_key GARBAGE d)
      | PList xs \<Rightarrow> Inr (PStr GARBAGE \<in> set xs)
      | PStr s \<Rightarrow> Inr (occurs GARBAGE s)
      | _ \<Rightarrow> Inl (terr ''argument is not iterable''))"

definition same_id :: "int \<Rightarrow> pyval \<Rightarrow> bool" where
  "same_id i v = (num_val v = Some (Fin (of_int i)))"

definition wire_timeout :: exn where "wire_timeout = Exn TimeoutErr (PStr ''no JSON-RPC response'')"

definition wire_closed :: wire_err where
  "wire_closed = WireErr (PStr ''server closed stdout before responding'')"

fun await_reply :: "int \<Rightarrow> wire_event list \<Rightarrow> (wire_event list \<times> (wire_err + pyval)) option" where
  "await_reply i [] = None"
| "await_reply i (Deadline # es) = Some (es, Inl (Raised wire_timeout))"
| "await_reply i (Arrives v # es) =
     (if v = PNone then Some (es, Inl wire_closed)
      else case garbage_in v of
        Inl e \<Rightarrow> Some (es, Inl (Raised e))
      | Inr True \<Rightarrow> Some (es, Inl (WireErr (PFStr [PStr ''non-JSON on the server stdout: '', PRepr v])))
      | Inr False \<Rightarrow>
          (case get_of ''id'' v of
             Inl e \<Rightarrow> Some (es, Inl (Raised e))
           | Inr x \<Rightarrow> if same_id i x then Some (es, Inr v) else await_reply i es))"

definition request :: "int \<Rightarrow> wire \<Rightarrow> (wire \<times> (wire_err + pyval)) option" where
  "request i w =
     (case wi_sends w of
        [] \<Rightarrow> None
      | Some e # ss \<Rightarrow> Some (w\<lparr>wi_sends := ss\<rparr>, Inl e)
      | None # ss \<Rightarrow>
          (case await_reply i (wi_events w) of
             None \<Rightarrow> None
           | Some (es, r) \<Rightarrow> Some (w\<lparr>wi_sends := ss, wi_events := es\<rparr>, r)))"

definition raised :: "exn + 'a \<Rightarrow> wire_err + 'a" where
  "raised r = map_sum Raised id r"

definition has_error :: "pyval \<Rightarrow> bool" where
  "has_error v = (case v of PDict d \<Rightarrow> has_key ''error'' d | _ \<Rightarrow> False)"

definition initialize :: "wire \<Rightarrow> (wire \<times> (wire_err + unit)) option" where
  "initialize w =
     (case request (wi_next_id w) (w\<lparr>wi_next_id := wi_next_id w + 1\<rparr>) of
        None \<Rightarrow> None
      | Some (w1, Inl e) \<Rightarrow> Some (w1, Inl e)
      | Some (w1, Inr v) \<Rightarrow>
          Some (w1, if has_error v then Inl (WireErr (PFStr [PStr ''initialize failed: '', v])) else Inr ()))"

definition list_tools :: "wire \<Rightarrow> (wire \<times> (wire_err + pyval)) option" where
  "list_tools w =
     (let i = wi_next_id w + 1 in
      case request i (w\<lparr>wi_next_id := i\<rparr>) of
        None \<Rightarrow> None
      | Some (w1, Inl e) \<Rightarrow> Some (w1, Inl e)
      | Some (w1, Inr v) \<Rightarrow>
          Some (w1, if has_error v then Inl (WireErr (PFStr [PStr ''tools/list failed: '', v]))
                    else raised (bind_sum (item_of ''result'' v) (item_of ''tools''))))"

record tool_reply =
  tl_ok :: bool
  tl_text :: pyval

text \<open>The texts of the parts that are objects.\<close>

definition parts_text :: "pyval \<Rightarrow> exn + pyval list" where
  "parts_text parts =
     (case parts of
        PList xs \<Rightarrow> Inr (map (\<lambda>d. get_or d ''text'' (PStr [])) (List.map_filter dict_of xs))
      | PStr _ \<Rightarrow> Inr []
      | PDict _ \<Rightarrow> Inr []
      | _ \<Rightarrow> Inl (terr ''object is not iterable''))"

definition join_lines :: "(pyval \<Rightarrow> string) \<Rightarrow> pyval list \<Rightarrow> string" where
  "join_lines str_of vs = join_sep [ch 10] (map (text_of str_of) vs)"

definition tool_result :: "(pyval \<Rightarrow> string) \<Rightarrow> pyval \<Rightarrow> exn + tool_reply" where
  "tool_result str_of v =
     (if has_error v
      then Inr \<lparr>tl_ok = False, tl_text = PFStr [PStr ''jsonrpc error: '', get_or (the_dict v) ''error'' PNone]\<rparr>
      else
        bind_sum (get_of ''result'' v) (\<lambda>r.
        let result = py_or r (PDict []) in
        bind_sum (get_of ''content'' result) (\<lambda>c.
        bind_sum (parts_text (py_or c (PList []))) (\<lambda>ts.
        bind_sum (get_of ''isError'' result) (\<lambda>bad.
        let out = join_lines str_of ts in
        Inr (if truthy bad then \<lparr>tl_ok = False, tl_text = PStr (if out = [] then ''tool error'' else out)\<rparr>
             else \<lparr>tl_ok = True, tl_text = PStr out\<rparr>))))))"

definition call_tool :: "(pyval \<Rightarrow> string) \<Rightarrow> wire \<Rightarrow> (wire \<times> (wire_err + tool_reply)) option" where
  "call_tool str_of w =
     (let i = wi_next_id w + 1 in
      case request i (w\<lparr>wi_next_id := i\<rparr>) of
        None \<Rightarrow> None
      | Some (w1, Inl e) \<Rightarrow> Some (w1, Inl e)
      | Some (w1, Inr v) \<Rightarrow> Some (w1, raised (tool_result str_of v)))"

section \<open>Facts\<close>

text \<open>
  A request is answered by its own reply and by nothing else: what passes by before it are objects with another
  id, and what comes after it stays for the next request.
\<close>

theorem reply_is_own:
  "await_reply i es = Some (rest, Inr v) \<Longrightarrow>
   \<exists>skipped. es = map Arrives skipped @ Arrives v # rest \<and> same_id i (get_or (the_dict v) ''id'' PNone) \<and>
     dict_of v \<noteq> None \<and> garbage_in v = Inr False \<and>
     (\<forall>u \<in> set skipped. dict_of u \<noteq> None \<and> \<not> same_id i (get_or (the_dict u) ''id'' PNone) \<and> garbage_in u = Inr False)"
proof (induction i es rule: await_reply.induct)
  case (3 i u es)
  then have g: "garbage_in u = Inr False" and "u \<noteq> PNone"
    by (auto split: if_splits sum.splits bool.splits)
  with 3(2) obtain x where x: "get_of ''id'' u = Inr x" by (auto split: sum.splits)
  then have d: "dict_of u \<noteq> None" "x = get_or (the_dict u) ''id'' PNone"
    by (auto simp: get_of_def dict_of_def the_dict_def get_or_def split: pyval.splits)
  show ?case
  proof (cases "same_id i x")
    case True
    with 3(2) g x d \<open>u \<noteq> PNone\<close> show ?thesis by (intro exI [of _ "[]"]) simp
  next
    case False
    with 3(2) g x \<open>u \<noteq> PNone\<close> have "await_reply i es = Some (rest, Inr v)" by simp
    from 3(1) [OF \<open>u \<noteq> PNone\<close> g _ x False this] obtain skipped where
      "es = map Arrives skipped @ Arrives v # rest \<and> same_id i (get_or (the_dict v) ''id'' PNone) \<and>
       dict_of v \<noteq> None \<and> garbage_in v = Inr False \<and>
       (\<forall>u \<in> set skipped. dict_of u \<noteq> None \<and> \<not> same_id i (get_or (the_dict u) ''id'' PNone) \<and> garbage_in u = Inr False)"
      by blast
    with False d g show ?thesis by (intro exI [of _ "u # skipped"]) auto
  qed
qed auto

text \<open>
  A reply that comes after the deadline of its request does not answer the next one.
\<close>

theorem late_reply_skipped:
  assumes "dict_of v \<noteq> None" and "garbage_in v = Inr False" and "get_or (the_dict v) ''id'' PNone = PInt i" and "i \<noteq> j"
  shows "await_reply i (Deadline # Arrives v # es) = Some (Arrives v # es, Inl (Raised wire_timeout)) \<and>
    await_reply j (Arrives v # es) = await_reply j es"
  using assms
  by (auto simp: get_of_def dict_of_def the_dict_def get_or_def same_id_def num_val_def split: pyval.splits)

text \<open>
  A line with a bare JSON number, boolean, list or null is not reported as what it is: null counts as the end of
  the output though the server goes on, the others raise an exception that is no wire error.
\<close>

theorem stray_json_misread:
  assumes "v \<in> {PNone, PInt n, PBool b, PList []}"
  shows "(v = PNone \<longrightarrow> await_reply i (Arrives v # es) = Some (es, Inl wire_closed)) \<and>
    (v \<noteq> PNone \<longrightarrow>
      (\<exists>e. await_reply i (Arrives v # es) = Some (es, Inl (Raised e)) \<and> eclass e \<in> {TypeErr, AttributeErr}))"
  using assms by (auto simp: garbage_in_def get_of_def terr_def)

text \<open>
  A failed tool call is data: for an answer whose result is an object with a list of parts, or an error, the call
  returns, and it is a success exactly when there is no error and the result is not marked as one.
\<close>

theorem tool_call_is_data:
  assumes "v = PDict d"
    and "has_key ''error'' d \<or> (\<exists>r. get_or d ''result'' PNone = PDict r \<and> get_or r ''content'' PNone = PList parts)"
  shows "\<exists>t. tool_result str_of v = Inr t \<and>
    (tl_ok t \<longleftrightarrow> \<not> has_key ''error'' d \<and> \<not> truthy (get_or (the_dict (get_or d ''result'' PNone)) ''isError'' PNone))"
proof (cases "has_key ''error'' d")
  case True
  with assms(1) show ?thesis by (simp add: tool_result_def has_error_def)
next
  case False
  with assms(2) obtain r where r: "get_or d ''result'' PNone = PDict r" "get_or r ''content'' PNone = PList parts" by blast
  then have result: "py_or (PDict r) (PDict []) = PDict r" by (simp add: py_or_def)
  have "\<exists>ts. parts_text (py_or (PList parts) (PList [])) = Inr ts" by (cases parts) (simp_all add: py_or_def parts_text_def)
  then obtain ts where "parts_text (py_or (PList parts) (PList [])) = Inr ts" by blast
  with False r result assms(1) show ?thesis
    by (simp add: tool_result_def has_error_def bind_sum_def get_of_def get_or_def [symmetric] the_dict_def dict_of_def Let_def)
qed

section \<open>Witnesses\<close>

definition reply :: "int \<Rightarrow> pyval" where
  "reply i = PDict [(''id'', PInt i), (''result'', PDict [(''content'', PList [PDict [(''text'', PStr ''ok'')]])])]"

lemma reply_is_own_witness:
  "\<exists>skipped. [Arrives (reply 1), Arrives (reply 2), Deadline] = map Arrives skipped @ Arrives (reply 2) # [Deadline]"
proof -
  have "await_reply 2 [Arrives (reply 1), Arrives (reply 2), Deadline] = Some ([Deadline], Inr (reply 2))" by code_simp
  from reply_is_own [OF this] show ?thesis by blast
qed

lemma late_reply_skipped_witness: "await_reply 2 (Arrives (reply 1) # [Deadline]) = await_reply 2 [Deadline]"
proof -
  have "dict_of (reply 1) \<noteq> None" "garbage_in (reply 1) = Inr False" "get_or (the_dict (reply 1)) ''id'' PNone = PInt 1"
    by code_simp+
  from late_reply_skipped [OF this, of 2 "[Deadline]"] show ?thesis by simp
qed

lemma stray_json_misread_witness: "await_reply 1 [Arrives PNone, Arrives (reply 1)] = Some ([Arrives (reply 1)], Inl wire_closed)"
  using stray_json_misread [of PNone 0 False 1 "[Arrives (reply 1)]"] by simp

lemma tool_call_is_data_witness: "\<exists>t. tool_result (\<lambda>_. []) (reply 1) = Inr t \<and> tl_ok t"
proof -
  have r: "reply 1 = PDict [(''id'', PInt 1), (''result'', PDict [(''content'', PList [PDict [(''text'', PStr ''ok'')]])])]"
    by (simp add: reply_def)
  from tool_call_is_data [OF r, where parts = "[PDict [(''text'', PStr ''ok'')]]" and str_of = "\<lambda>_. []"]
  show ?thesis by (simp add: has_key_def get_or_def the_dict_def dict_of_def)
qed

end
