(* ===== verification/OpsTasks.thy ===== *)
theory OpsTasks
  imports Tasks
begin

text \<open>
  Ops tasks (\<open>src/ironbench/ops_tasks.py\<close>): the loader check by check, in the order of the code. The
  decoded YAML value is the input, with string keys; whether a file exists beside the task is a parameter. Lengths of
  strings are those of their UTF-8 bytes.
\<close>

section \<open>Data\<close>

record ops_budget =
  ob_max_iterations :: int
  ob_iter_timeout_sec :: int

record ops_asset =
  oa_name :: string
  oa_path :: pyval
  oa_url :: pyval
  oa_sha256 :: pyval

text \<open>A step or a check: its kind and its parameters.\<close>

type_synonym ops_step = "string \<times> fields"
type_synonym ops_check = "string \<times> fields"

record ops_task =
  op_name :: string
  op_description :: string
  op_wall_sec :: int
  op_budget :: ops_budget
  op_judge :: "ops_check list"
  op_level :: int
  op_tags :: "string list"
  op_notes :: "string list"
  op_dossier :: "string list"
  op_allowed_tools :: "string list"
  op_assets :: "ops_asset list"
  op_setup :: "ops_step list"
  op_restore :: "ops_step list"

definition ALLOWED_TOOLS :: "string list" where
  "ALLOWED_TOOLS = [''serial'', ''file'', ''esp'', ''mqtt'']"

definition STEP_KINDS :: "(string \<times> string list) list" where
  "STEP_KINDS =
     [(''wipe_flash'', []), (''flash_asset'', [''asset'']), (''deploy_file'', [''asset'', ''target'']),
      (''remove_file'', [''path''])]"

definition CHECK_KINDS :: "(string \<times> string list) list" where
  "CHECK_KINDS =
     [(''boot_expect'', [''literals'', ''within_sec'', ''repl_echo'']),
      (''device_file'', [''path'', ''asset'', ''contains'']),
      (''bus_scan'', [''i2c_scl'', ''i2c_sda'', ''onewire_pin'', ''i2c_expected'', ''onewire_family'']),
      (''inventory_match'', [''i2c'', ''onewire'', ''i2c_scl'', ''i2c_sda'', ''onewire_pin'']),
      (''mqtt_collect'', [''host'', ''port'', ''topic'', ''expect_regex'', ''within_sec''])]"

definition find_asset :: "ops_task \<Rightarrow> string \<Rightarrow> exn + ops_asset" where
  "find_asset t n =
     (case List.find (\<lambda>a. oa_name a = n) (op_assets t) of
        Some a \<Rightarrow> Inr a
      | None \<Rightarrow> Inl (verr ''undeclared asset'' [PStr (op_name t), PStr n]))"

section \<open>Checks\<close>

definition reject_unknown :: "fields \<Rightarrow> string list \<Rightarrow> exn option" where
  "reject_unknown given allowed = unless (keys_within allowed given) (verr ''unknown keys'' [])"

definition int_within :: "int \<Rightarrow> int \<Rightarrow> pyval \<Rightarrow> bool" where
  "int_within lo hi v = (case v of PInt i \<Rightarrow> lo \<le> i \<and> i \<le> hi | _ \<Rightarrow> False)"

definition int_in :: "pyval \<Rightarrow> int \<Rightarrow> int \<Rightarrow> exn option" where
  "int_in v lo hi = unless (int_within lo hi v) (verr ''expected int in range, got '' [v])"

definition the_int :: "pyval \<Rightarrow> int" where
  "the_int v = (case v of PInt i \<Rightarrow> i | _ \<Rightarrow> 0)"

definition starts_with :: "string list \<Rightarrow> pyval \<Rightarrow> bool" where
  "starts_with ps v = (case v of PStr s \<Rightarrow> list_ex (\<lambda>p. prefix p s) ps | _ \<Rightarrow> False)"

definition absolute :: "pyval \<Rightarrow> bool" where
  "absolute v = starts_with [''/''] v"

definition is_bool :: "pyval \<Rightarrow> bool" where
  "is_bool v = (case v of PBool _ \<Rightarrow> True | _ \<Rightarrow> False)"

definition hashable :: "pyval \<Rightarrow> bool" where
  "hashable v = (case v of PList _ \<Rightarrow> False | PDict _ \<Rightarrow> False | _ \<Rightarrow> True)"

text \<open>\<open>isinstance(v, list) and set(v) <= allowed\<close>, with the exception of hashing.\<close>

definition subset_list :: "string list \<Rightarrow> pyval \<Rightarrow> exn \<Rightarrow> exn option" where
  "subset_list allowed v e =
     (case v of
        PList xs \<Rightarrow>
          if \<not> list_all hashable xs then Some (terr ''unhashable type'')
          else unless (list_all (\<lambda>x. case x of PStr s \<Rightarrow> s \<in> set allowed | _ \<Rightarrow> False) xs) e
      | _ \<Rightarrow> Some e)"

definition full_strings :: "pyval \<Rightarrow> bool" where
  "full_strings v = (case v of PList xs \<Rightarrow> list_all full_string xs | _ \<Rightarrow> False)"

definition check_asset :: "string \<times> pyval \<Rightarrow> exn option" where
  "check_asset ns =
     (let spec = the_dict (snd ns); path = get_or spec ''path'' PNone; url = get_or spec ''url'' PNone;
          sha = get_or spec ''sha256'' PNone in
      first_error
       [unless (dict_of (snd ns) \<noteq> None) (terr ''asset: expected a mapping''),
        reject_unknown spec [''path'', ''url'', ''sha256''],
        unless (truthy path \<noteq> truthy url) (verr ''asset: exactly one of path/url is required'' []),
        (if url \<noteq> PNone then
           first_error
            [unless (starts_with [''https://'', ''file://''] url) (verr ''asset: url must be https or file://, got '' [url]),
             unless (case sha of PStr s \<Rightarrow> length s = 64 | _ \<Rightarrow> False)
               (verr ''asset: a 64-char sha256 pin is mandatory for url assets'' [])]
         else unless (full_string path) (verr ''asset: path must be a non-empty string'' []))])"

definition asset_of :: "string \<times> pyval \<Rightarrow> ops_asset" where
  "asset_of ns =
     (let spec = the_dict (snd ns) in
      \<lparr>oa_name = fst ns, oa_path = get_or spec ''path'' PNone, oa_url = get_or spec ''url'' PNone,
       oa_sha256 = get_or spec ''sha256'' PNone\<rparr>)"

text \<open>The file of an asset with a path; a path that is no string cannot be joined.\<close>

definition asset_file :: "(string \<Rightarrow> bool) \<Rightarrow> ops_asset \<Rightarrow> exn option" where
  "asset_file exists a =
     (case oa_path a of
        PNone \<Rightarrow> None
      | PStr p \<Rightarrow> unless (exists p) (verr ''asset file is missing'' [PStr (oa_name a)])
      | _ \<Rightarrow> Some (terr ''unsupported operand type(s) for /''))"

text \<open>The kind and parameters of an entry with one key.\<close>

definition entry_of :: "pyval \<Rightarrow> string \<times> fields" where
  "entry_of v = (case v of PDict [(k, p)] \<Rightarrow> (k, the_dict (py_or p (PDict []))) | _ \<Rightarrow> ([], []))"

definition check_entry :: "(string \<times> string list) list \<Rightarrow> pyval \<Rightarrow> exn option" where
  "check_entry kinds v =
     (case v of
        PDict [(k, p)] \<Rightarrow>
          (case map_of kinds k of
             None \<Rightarrow> Some (verr ''unknown kind '' [PStr k])
           | Some allowed \<Rightarrow>
               (case py_or p (PDict []) of
                  PDict d \<Rightarrow> reject_unknown d allowed
                | _ \<Rightarrow> Some (terr ''params must be a mapping'')))
      | _ \<Rightarrow> Some (verr ''expected a single-key mapping {kind: params}'' []))"

definition check_ops_step :: "pyval \<Rightarrow> exn option" where
  "check_ops_step v =
     (case entry_of v of (kind, params) \<Rightarrow>
       first_error
        [check_entry STEP_KINDS v,
         unless (list_all (\<lambda>k. has_key k params) (case map_of STEP_KINDS kind of Some ks \<Rightarrow> ks | None \<Rightarrow> []))
           (verr ''missing params'' []),
         unless (kind = ''flash_asset'' \<longrightarrow> is_string (get_or params ''asset'' PNone)) (verr ''asset must be a name'' []),
         unless (kind = ''deploy_file'' \<longrightarrow> absolute (get_or params ''target'' PNone))
           (verr ''deploy_file: target must be an absolute device path'' []),
         each (\<lambda>k. when_key k params (\<lambda>x. unless (is_string x) (verr ''must be a string'' [PStr k]))) [''asset'', ''path''],
         unless (kind = ''remove_file'' \<longrightarrow> absolute (get_or params ''path'' (PStr [])))
           (verr ''remove_file: path must be an absolute device path'' [])])"

definition parse_steps :: "pyval \<Rightarrow> exn + ops_step list" where
  "parse_steps raw =
     (case raw of
        PNone \<Rightarrow> Inr []
      | PList xs \<Rightarrow> (case each check_ops_step xs of Some e \<Rightarrow> Inl e | None \<Rightarrow> Inr (map entry_of xs))
      | _ \<Rightarrow> Inl (terr ''expected a list of steps''))"

definition is_port :: "pyval \<Rightarrow> bool" where
  "is_port v = int_within 1 65535 v"

definition check_boot :: "fields \<Rightarrow> exn option" where
  "check_boot p =
     first_error
      [unless (full_strings (get_or p ''literals'' PNone) \<and> truthy (get_or p ''literals'' PNone))
         (verr ''boot_expect: literals must be a non-empty str list'' []),
       when_key ''within_sec'' p (\<lambda>v. int_in v 5 120),
       unless (is_bool (get_or p ''repl_echo'' (PBool False))) (verr ''boot_expect: repl_echo must be boolean'' [])]"

definition check_device_file :: "fields \<Rightarrow> exn option" where
  "check_device_file p =
     first_error
      [unless (absolute (get_or p ''path'' PNone)) (verr ''device_file: path must be an absolute device path'' []),
       unless (has_key ''asset'' p \<noteq> has_key ''contains'' p) (verr ''device_file: exactly one of asset/contains is required'' []),
       when_key ''contains'' p (\<lambda>v. unless (is_string v) (verr ''device_file: contains must be a regex string'' []))]"

definition check_pins :: "fields \<Rightarrow> exn option" where
  "check_pins p = each (\<lambda>k. when_key k p (\<lambda>v. int_in v 0 60)) [''i2c_scl'', ''i2c_sda'', ''onewire_pin'']"

text \<open>An address: an integer or a boolean in 0..127.\<close>

definition bus_address :: "pyval \<Rightarrow> bool" where
  "bus_address v = (case v of PInt i \<Rightarrow> 0 \<le> i \<and> i \<le> 127 | PBool _ \<Rightarrow> True | _ \<Rightarrow> False)"

definition check_bus_scan :: "fields \<Rightarrow> exn option" where
  "check_bus_scan p =
     first_error
      [check_pins p,
       when_key ''i2c_expected'' p (\<lambda>v.
         unless (case v of PList xs \<Rightarrow> list_all bus_address xs | _ \<Rightarrow> False)
           (verr ''bus_scan: i2c_expected must be a list of 0..127 ints'' [])),
       when_key ''onewire_family'' p (\<lambda>v. int_in v 0 255)]"

definition check_inventory :: "fields \<Rightarrow> exn option" where
  "check_inventory p =
     first_error
      [check_pins p,
       each (\<lambda>k. unless (is_bool (get_or p k (PBool False))) (terr ''inventory_match: must be boolean'')) [''i2c'', ''onewire''],
       unless (truthy (get_or p ''i2c'' (PBool False)) \<or> truthy (get_or p ''onewire'' (PBool False)))
         (verr ''inventory_match: at least one of i2c/onewire is required'' [])]"

definition check_mqtt_collect :: "fields \<Rightarrow> exn option" where
  "check_mqtt_collect p =
     (let host = get_or p ''host'' PNone; port = get_or p ''port'' PNone in
      first_error
       [each (\<lambda>k. unless (full_string (get_or p k PNone)) (verr ''mqtt_collect: must be a non-empty string'' [PStr k]))
          [''topic'', ''expect_regex''],
        when_key ''within_sec'' p (\<lambda>v. int_in v 5 300),
        unless (host = PNone \<or> is_string host) (verr ''mqtt_collect: host must be a string'' []),
        unless (port = PNone \<or> is_port port) (verr ''mqtt_collect: port must be an int in [1, 65535]'' []),
        unless ((host = PNone) = (port = PNone)) (verr ''mqtt_collect: host and port must be set together'' [])])"

definition check_ops_check :: "pyval \<Rightarrow> exn option" where
  "check_ops_check v =
     (case entry_of v of (kind, params) \<Rightarrow>
       first_error
        [check_entry CHECK_KINDS v,
         (if kind = ''boot_expect'' then check_boot params
          else if kind = ''device_file'' then check_device_file params
          else if kind = ''bus_scan'' then check_bus_scan params
          else if kind = ''inventory_match'' then check_inventory params
          else check_mqtt_collect params)])"

definition parse_checks :: "pyval \<Rightarrow> exn + ops_check list" where
  "parse_checks raw =
     (case raw of
        PList xs \<Rightarrow>
          if xs = [] then Inl (verr ''at least one state check is mandatory'' [])
          else (case each check_ops_check xs of Some e \<Rightarrow> Inl e | None \<Rightarrow> Inr (map entry_of xs))
      | _ \<Rightarrow> Inl (verr ''at least one state check is mandatory'' []))"

section \<open>Loading\<close>

definition TASK_KEYS :: "string list" where
  "TASK_KEYS =
     [''name'', ''description'', ''wall_sec'', ''budget'', ''judge'', ''level'', ''tags'', ''notes'', ''dossier'',
      ''allowed_tools'', ''assets'', ''setup'', ''restore'']"

definition budget_raw :: "fields \<Rightarrow> pyval" where
  "budget_raw raw = py_or (get_or raw ''budget'' PNone) (PDict [])"

definition assets_raw :: "fields \<Rightarrow> pyval" where
  "assets_raw raw = py_or (get_or raw ''assets'' PNone) (PDict [])"

definition head_checks :: "fields \<Rightarrow> exn option list" where
  "head_checks raw =
     (let tools = get_or raw ''allowed_tools'' (PList [PStr ''serial'']); budget = the_dict (budget_raw raw) in
      [reject_unknown raw TASK_KEYS,
       unless (word_string (get_or raw ''name'' PNone)) (verr ''name must be a non-empty string'' []),
       unless (word_string (get_or raw ''description'' PNone)) (verr ''description must be a non-empty string'' []),
       int_in (get_or raw ''wall_sec'' (PInt 900)) 60 3600,
       int_in (get_or raw ''level'' (PInt 3)) 1 5,
       subset_list CLASS_TAGS (get_or raw ''tags'' (PList [])) (verr ''tags must be a subset'' []),
       unless (full_strings (get_or raw ''notes'' (PList []))) (verr ''notes must be a non-empty string list'' []),
       unless (full_strings (get_or raw ''dossier'' (PList []))) (verr ''dossier must be a non-empty string list'' []),
       (if tools = PList [] then Some (verr ''allowed_tools must be a non-empty subset'' [])
        else subset_list ALLOWED_TOOLS tools (verr ''allowed_tools must be a non-empty subset'' [])),
       unless (dict_of (budget_raw raw) \<noteq> None) (terr ''budget must be a mapping''),
       reject_unknown budget [''max_iterations'', ''iter_timeout_sec''],
       int_in (get_or budget ''max_iterations'' (PInt 8)) 1 20,
       int_in (get_or budget ''iter_timeout_sec'' (PInt 300)) 10 1200,
       unless (dict_of (assets_raw raw) \<noteq> None) (terr ''assets must be a mapping''),
       each check_asset (the_dict (assets_raw raw))])"

text \<open>A step or check that names an asset names a declared one.\<close>

definition declared :: "ops_asset list \<Rightarrow> string \<times> fields \<Rightarrow> exn option" where
  "declared assets s =
     when_key ''asset'' (snd s) (\<lambda>ref.
       unless (list_ex (\<lambda>a. ref = PStr (oa_name a)) assets) (verr ''references undeclared asset'' [PStr (fst s), ref]))"

definition load_ops_task :: "(string \<Rightarrow> bool) \<Rightarrow> pyval \<Rightarrow> exn + ops_task" where
  "load_ops_task exists v =
     (case v of
        PDict raw \<Rightarrow>
          let assets = map asset_of (the_dict (assets_raw raw)); budget = the_dict (budget_raw raw) in
          (case first_error (head_checks raw @ [each (asset_file exists) assets]) of
             Some e \<Rightarrow> Inl e
           | None \<Rightarrow>
               (case parse_steps (get_or raw ''setup'' PNone) of
                  Inl e \<Rightarrow> Inl e
                | Inr setup \<Rightarrow>
                    (case parse_steps (get_or raw ''restore'' PNone) of
                       Inl e \<Rightarrow> Inl e
                     | Inr restore \<Rightarrow>
                         (case each (declared assets) (setup @ restore) of
                            Some e \<Rightarrow> Inl e
                          | None \<Rightarrow>
                              (case parse_checks (get_or raw ''judge'' PNone) of
                                 Inl e \<Rightarrow> Inl e
                               | Inr judge \<Rightarrow>
                                   (case each (declared assets) judge of
                                      Some e \<Rightarrow> Inl e
                                    | None \<Rightarrow>
                                        Inr \<lparr>op_name = text_of (\<lambda>_. []) (get_or raw ''name'' PNone),
                                             op_description = text_of (\<lambda>_. []) (get_or raw ''description'' PNone),
                                             op_wall_sec = the_int (get_or raw ''wall_sec'' (PInt 900)),
                                             op_budget =
                                               \<lparr>ob_max_iterations = the_int (get_or budget ''max_iterations'' (PInt 8)),
                                                ob_iter_timeout_sec = the_int (get_or budget ''iter_timeout_sec'' (PInt 300))\<rparr>,
                                             op_judge = judge, op_level = the_int (get_or raw ''level'' (PInt 3)),
                                             op_tags = the_strings (get_or raw ''tags'' (PList [])),
                                             op_notes = the_strings (get_or raw ''notes'' (PList [])),
                                             op_dossier = the_strings (get_or raw ''dossier'' (PList [])),
                                             op_allowed_tools = the_strings (get_or raw ''allowed_tools'' (PList [PStr ''serial''])),
                                             op_assets = assets, op_setup = setup, op_restore = restore\<rparr>))))))
      | _ \<Rightarrow> Inl (terr ''expected a mapping at the top level''))"

fun load_each_ops :: "((string \<Rightarrow> bool) \<times> pyval) list \<Rightarrow> exn + ops_task list" where
  "load_each_ops [] = Inr []"
| "load_each_ops ((exists, v) # vs) =
     (case load_ops_task exists v of
        Inl e \<Rightarrow> Inl e
      | Inr t \<Rightarrow> map_sum id ((#) t) (load_each_ops vs))"

text \<open>The task files with their paths, each with its directory.\<close>

definition load_ops_tasks :: "(string \<times> (string \<Rightarrow> bool) \<times> pyval) list \<Rightarrow> exn + ops_task list" where
  "load_ops_tasks files =
     (case load_each_ops (map snd (sort_key fst files)) of
        Inl e \<Rightarrow> Inl e
      | Inr ts \<Rightarrow>
          if distinct (map op_name ts) then Inr ts
          else Inl (verr ''duplicate ops task names'' []))"

section \<open>What a loaded task guarantees\<close>

definition kind_keys :: "(string \<times> string list) list \<Rightarrow> string \<times> fields \<Rightarrow> bool" where
  "kind_keys kinds s = (case map_of kinds (fst s) of None \<Rightarrow> False | Some ks \<Rightarrow> keys_within ks (snd s))"

definition all_keys :: "(string \<times> string list) list \<Rightarrow> string \<times> fields \<Rightarrow> bool" where
  "all_keys kinds s =
     (case map_of kinds (fst s) of None \<Rightarrow> False | Some ks \<Rightarrow> list_all (\<lambda>k. has_key k (snd s)) ks)"

definition asset_resolves :: "ops_task \<Rightarrow> string \<times> fields \<Rightarrow> bool" where
  "asset_resolves t s =
     (case map_of (snd s) ''asset'' of
        None \<Rightarrow> True
      | Some v \<Rightarrow> (case v of PStr n \<Rightarrow> (case find_asset t n of Inr a \<Rightarrow> oa_name a = n | Inl _ \<Rightarrow> False) | _ \<Rightarrow> False))"

lemma check_entry_kind:
  assumes "check_entry kinds v = None"
  shows "kind_keys kinds (entry_of v)"
proof (cases v)
  case (PDict d)
  with assms obtain k p where d: "d = [(k, p)]"
    by (cases d rule: remdups_adj.cases) (auto simp: check_entry_def)
  with assms PDict obtain allowed where k: "map_of kinds k = Some allowed"
    by (auto simp: check_entry_def split: option.splits)
  show ?thesis
  proof (cases "py_or p (PDict [])")
    case (PDict params)
    with \<open>v = PDict d\<close> d k assms show ?thesis
      by (simp add: check_entry_def entry_of_def kind_keys_def reject_unknown_def the_dict_def dict_of_def)
  qed (use assms d k \<open>v = PDict d\<close> in \<open>simp_all add: check_entry_def\<close>)
qed (use assms in \<open>simp_all add: check_entry_def\<close>)

lemma parse_steps_map:
  assumes "parse_steps raw = Inr steps"
  shows "\<exists>xs. list_all (\<lambda>x. check_ops_step x = None) xs \<and> steps = map entry_of xs"
proof (cases raw)
  case PNone
  with assms have "steps = map entry_of []" by (simp add: parse_steps_def)
  then show ?thesis by (intro exI [of _ "[]"]) simp
next
  case (PList xs)
  with assms have "list_all (\<lambda>x. check_ops_step x = None) xs \<and> steps = map entry_of xs"
    by (auto simp: parse_steps_def simp del: each_None split: option.splits) (simp only: each_None)
  then show ?thesis by blast
qed (use assms in \<open>simp_all add: parse_steps_def\<close>)

lemma parse_steps_sound:
  assumes "parse_steps raw = Inr steps"
  shows "\<forall>s \<in> set steps. kind_keys STEP_KINDS s \<and> all_keys STEP_KINDS s"
proof
  fix s :: "string \<times> fields"
  assume "s \<in> set steps"
  obtain xs where xs: "list_all (\<lambda>x. check_ops_step x = None) xs" "steps = map entry_of xs"
    using parse_steps_map [OF assms] by blast
  from \<open>s \<in> set steps\<close> obtain v where v: "v \<in> set xs" "s = entry_of v" unfolding xs(2) set_map by (rule imageE)
  with xs(1) have ok: "check_ops_step v = None" by (simp only: list_all_iff)
  then have "check_entry STEP_KINDS v = None" by (simp add: check_ops_step_def split: prod.splits)
  from check_entry_kind [OF this] have k: "kind_keys STEP_KINDS s" by (simp only: v(2))
  then obtain ks where "map_of STEP_KINDS (fst s) = Some ks" by (auto simp: kind_keys_def split: option.splits)
  with ok v(2) k show "kind_keys STEP_KINDS s \<and> all_keys STEP_KINDS s"
    by (auto simp: check_ops_step_def all_keys_def split: prod.splits)
qed

lemma parse_checks_sound:
  assumes "parse_checks raw = Inr checks"
  shows "checks \<noteq> [] \<and> (\<forall>c \<in> set checks. kind_keys CHECK_KINDS c)"
proof -
  from assms obtain xs where xs: "raw = PList xs" "xs \<noteq> []" "list_all (\<lambda>x. check_ops_check x = None) xs" "checks = map entry_of xs"
    by (auto simp: parse_checks_def split: pyval.splits option.splits if_splits)
  have "kind_keys CHECK_KINDS (entry_of v)" if "check_ops_check v = None" for v
  proof -
    from that have "check_entry CHECK_KINDS v = None" by (simp add: check_ops_check_def split: prod.splits)
    then show ?thesis by (rule check_entry_kind)
  qed
  with xs show ?thesis by (auto simp: list_all_iff)
qed

lemma declared_resolves:
  assumes "declared (op_assets t) s = None"
  shows "asset_resolves t s"
proof (cases "map_of (snd s) ''asset''")
  case (Some v)
  with assms obtain a where a: "a \<in> set (op_assets t)" "v = PStr (oa_name a)"
    by (auto simp: declared_def when_key_def list_ex_iff)
  have "List.find (\<lambda>x. oa_name x = oa_name a) (op_assets t) \<noteq> None"
    using a(1) by (auto simp: find_None_iff)
  then obtain b where "List.find (\<lambda>x. oa_name x = oa_name a) (op_assets t) = Some b" by blast
  moreover from this have "oa_name b = oa_name a" by (auto simp: find_Some_iff)
  ultimately show ?thesis using Some a(2) by (simp add: asset_resolves_def find_asset_def)
qed (simp add: asset_resolves_def)

lemma int_in_None [simp]: "int_in v lo hi = None \<longleftrightarrow> int_within lo hi v"
  by (simp add: int_in_def)

lemma the_int_within: "int_within lo hi v \<Longrightarrow> lo \<le> the_int v \<and> the_int v \<le> hi"
  by (auto simp: int_within_def the_int_def split: pyval.splits)

lemma loaded_ops_task:
  assumes "load_ops_task exists v = Inr t"
  shows "60 \<le> op_wall_sec t \<and> op_wall_sec t \<le> 3600 \<and>
    1 \<le> ob_max_iterations (op_budget t) \<and> ob_max_iterations (op_budget t) \<le> 20 \<and>
    10 \<le> ob_iter_timeout_sec (op_budget t) \<and> ob_iter_timeout_sec (op_budget t) \<le> 1200 \<and>
    op_judge t \<noteq> [] \<and>
    (\<forall>s \<in> set (op_setup t @ op_restore t). kind_keys STEP_KINDS s \<and> all_keys STEP_KINDS s) \<and>
    (\<forall>c \<in> set (op_judge t). kind_keys CHECK_KINDS c) \<and>
    (\<forall>s \<in> set (op_setup t @ op_restore t @ op_judge t). asset_resolves t s)"
proof -
  from assms obtain raw su re ju where
    heads: "list_all (\<lambda>c. c = None) (head_checks raw)"
    and su: "parse_steps (get_or raw ''setup'' PNone) = Inr su"
    and re: "parse_steps (get_or raw ''restore'' PNone) = Inr re"
    and ju: "parse_checks (get_or raw ''judge'' PNone) = Inr ju"
    and refs: "list_all (\<lambda>s. declared (op_assets t) s = None) (su @ re)"
      "list_all (\<lambda>s. declared (op_assets t) s = None) ju"
    and t: "op_wall_sec t = the_int (get_or raw ''wall_sec'' (PInt 900))"
      "ob_max_iterations (op_budget t) = the_int (get_or (the_dict (budget_raw raw)) ''max_iterations'' (PInt 8))"
      "ob_iter_timeout_sec (op_budget t) = the_int (get_or (the_dict (budget_raw raw)) ''iter_timeout_sec'' (PInt 300))"
      "op_judge t = ju" "op_setup t = su" "op_restore t = re"
    by (auto simp: load_ops_task_def Let_def split: pyval.splits option.splits sum.splits)
  from heads have "int_within 60 3600 (get_or raw ''wall_sec'' (PInt 900))"
    "int_within 1 20 (get_or (the_dict (budget_raw raw)) ''max_iterations'' (PInt 8))"
    "int_within 10 1200 (get_or (the_dict (budget_raw raw)) ''iter_timeout_sec'' (PInt 300))"
    by (simp_all add: head_checks_def Let_def)
  then have "60 \<le> op_wall_sec t \<and> op_wall_sec t \<le> 3600"
    "1 \<le> ob_max_iterations (op_budget t) \<and> ob_max_iterations (op_budget t) \<le> 20"
    "10 \<le> ob_iter_timeout_sec (op_budget t) \<and> ob_iter_timeout_sec (op_budget t) \<le> 1200"
    using the_int_within by (auto simp: t)
  moreover have "asset_resolves t s" if "s \<in> set (op_setup t @ op_restore t @ op_judge t)" for s
    by (rule declared_resolves) (use that refs in \<open>auto simp: t list_all_iff\<close>)
  ultimately show ?thesis
    using parse_steps_sound [OF su] parse_steps_sound [OF re] parse_checks_sound [OF ju]
    by (auto simp: t)
qed


text \<open>
  The tasks come in the order of their directories, not of their names, and no two have the same name.
\<close>

theorem ops_tasks_order:
  "(\<forall>ts. load_ops_tasks files = Inr ts \<longrightarrow>
      distinct (map op_name ts) \<and> length ts = length files \<and>
      (\<forall>i < length ts. case sort_key fst files ! i of (path, exists, v) \<Rightarrow> load_ops_task exists v = Inr (ts ! i)))"
proof (intro allI impI)
  fix ts
  assume "load_ops_tasks files = Inr ts"
  then have ts: "load_each_ops (map snd (sort_key fst files)) = Inr ts" and d: "distinct (map op_name ts)"
    by (auto simp: load_ops_tasks_def split: sum.splits if_splits)
  have each: "load_each_ops fs = Inr us \<Longrightarrow>
      length us = length fs \<and> (\<forall>i < length us. load_ops_task (fst (fs ! i)) (snd (fs ! i)) = Inr (us ! i))" for fs us
  proof (induction fs arbitrary: us rule: load_each_ops.induct)
    case (2 exists v vs)
    then obtain t us' where us: "us = t # us'" "load_ops_task exists v = Inr t" "load_each_ops vs = Inr us'"
      by (cases "load_each_ops vs") (auto split: sum.splits)
    from "2.IH" [OF us(2,3)] us show ?case by (auto simp: nth_Cons split: nat.splits)
  qed simp
  from each [OF ts] d show "distinct (map op_name ts) \<and> length ts = length files \<and>
      (\<forall>i < length ts. case sort_key fst files ! i of (path, exists, v) \<Rightarrow> load_ops_task exists v = Inr (ts ! i))"
    by (auto simp: split_def)
qed

section \<open>Witnesses\<close>

definition demo_raw :: "string \<Rightarrow> pyval" where
  "demo_raw n =
     PDict [(''name'', PStr n), (''description'', PStr ''d''),
            (''setup'', PList [PDict [(''wipe_flash'', PNone)]]),
            (''judge'', PList [PDict [(''boot_expect'', PDict [(''literals'', PList [PStr ''M''])])]])]"

definition demo_ops :: "string \<Rightarrow> ops_task" where
  "demo_ops n =
     \<lparr>op_name = n, op_description = ''d'', op_wall_sec = 900,
      op_budget = \<lparr>ob_max_iterations = 8, ob_iter_timeout_sec = 300\<rparr>,
      op_judge = [(''boot_expect'', [(''literals'', PList [PStr ''M''])])], op_level = 3, op_tags = [], op_notes = [],
      op_dossier = [], op_allowed_tools = [''serial''], op_assets = [], op_setup = [(''wipe_flash'', [])], op_restore = []\<rparr>"

lemma demo_loads: "load_ops_task (\<lambda>_. False) (demo_raw ''a'') = Inr (demo_ops ''a'')"
  "load_ops_task (\<lambda>_. False) (demo_raw ''b'') = Inr (demo_ops ''b'')"
  by code_simp+


lemma ops_tasks_order_witness:
  "\<exists>t u. load_ops_tasks [(''x'', (\<lambda>_. False), demo_raw ''b''), (''y'', (\<lambda>_. False), demo_raw ''a'')] = Inr [t, u] \<and>
    op_name t = ''b'' \<and> op_name u = ''a''"
proof -
  have l: "load_ops_tasks [(''x'', (\<lambda>_. False), demo_raw ''b''), (''y'', (\<lambda>_. False), demo_raw ''a'')] =
      Inr [demo_ops ''b'', demo_ops ''a'']"
    using demo_loads by (simp add: load_ops_tasks_def sort_key_def less_eq_char_def) (simp add: demo_ops_def)
  from spec [OF ops_tasks_order, THEN mp, OF l] show ?thesis using l by (simp add: demo_ops_def)
qed

end
