(* ===== verification/OpsAssets.thy ===== *)
theory OpsAssets
  imports OpsTasks Agent
begin

text \<open>
  Resolving the assets of an ops task (\<open>src/ironbench/ops_assets.py\<close>). The file system is a map from paths to
  bytes; SHA-256, the parsing of URLs, the resolver and the download are parameters.
\<close>

section \<open>The URL boundary\<close>

record url_parts =
  up_scheme :: string
  up_netloc :: string
  up_path :: string
  up_hostname :: "string option"

definition url_error :: "string \<Rightarrow> string \<Rightarrow> exn" where
  "url_error m x = Exn ValueErr (PFStr [PStr m, PStr x])"

fun asset_addresses :: "string \<Rightarrow> ip_info list \<Rightarrow> exn option" where
  "asset_addresses host [] = None"
| "asset_addresses host (ip # ips) =
     (if blocked_always ip then Some (url_error ''blocked address '' host)
      else if blocked_local ip then Some (url_error ''private/loopback address is forbidden for assets '' host)
      else asset_addresses host ips)"

definition validate_asset_url ::
  "(string \<Rightarrow> url_parts) \<Rightarrow> (string \<Rightarrow> ip_info list option) \<Rightarrow> string \<Rightarrow> exn option" where
  "validate_asset_url urlsplit getaddrinfo url =
     (let parts = urlsplit url in
      if up_scheme parts = ''file'' then
        unless (up_netloc parts \<in> {[], ''localhost''} \<and> prefix ''/'' (up_path parts))
          (url_error ''asset url must be file://localhost/abs/path, got '' url)
      else if up_scheme parts \<noteq> ''https'' then Some (url_error ''asset url must be https, got '' url)
      else
        let host = rstrip_dots (case up_hostname parts of Some h \<Rightarrow> h | None \<Rightarrow> []) in
        if host = [] then Some (url_error ''asset url has no host: '' url)
        else if casefold host \<in> {''metadata.google.internal'', ''metadata''} then Some (url_error ''blocked metadata host: '' host)
        else (case getaddrinfo host of
          None \<Rightarrow> Some (url_error ''asset url host does not resolve: '' host)
        | Some infos \<Rightarrow> asset_addresses host infos))"

section \<open>Resolution\<close>

definition MAX_DOWNLOAD_BYTES :: nat where "MAX_DOWNLOAD_BYTES = 67108864"

type_synonym files = "string \<rightharpoonup> string"

text \<open>What is outside: SHA-256 in hexadecimal, URLs, names, the file behind a file URL, the body of a download (an
  exception when it fails or redirects).\<close>

record asset_world =
  aw_sha256 :: "string \<Rightarrow> string"
  aw_urlsplit :: "string \<Rightarrow> url_parts"
  aw_getaddrinfo :: "string \<Rightarrow> ip_info list option"
  aw_url2path :: "string \<Rightarrow> string"
  aw_download :: "string \<Rightarrow> exn + string"

definition join_path :: "string \<Rightarrow> string \<Rightarrow> string" where
  "join_path d p = (if prefix ''/'' p then p else d @ ''/'' @ p)"

definition cache_target :: "string \<Rightarrow> string \<Rightarrow> string \<Rightarrow> string" where
  "cache_target cache_dir name sha = join_path cache_dir (name @ ''-'' @ take 16 sha)"

definition fetch_asset :: "asset_world \<Rightarrow> files \<Rightarrow> string \<Rightarrow> string \<Rightarrow> exn + string" where
  "fetch_asset aw fs name url =
     (if prefix ''file://'' url then
        (case fs (aw_url2path aw (up_path (aw_urlsplit aw url))) of
           None \<Rightarrow> Inl (Exn FileNotFoundErr (PStr url)) | Some d \<Rightarrow> Inr d)
      else case aw_download aw url of
        Inl e \<Rightarrow> Inl e
      | Inr body \<Rightarrow>
          let d = take (MAX_DOWNLOAD_BYTES + 1) body in
          if length d > MAX_DOWNLOAD_BYTES then Inl (url_error ''download exceeds the cap: '' name) else Inr d)"

definition resolve_asset ::
  "asset_world \<Rightarrow> string \<Rightarrow> string \<Rightarrow> ops_asset \<Rightarrow> files \<Rightarrow> files \<times> (exn + string)" where
  "resolve_asset aw task_dir cache_dir a fs =
     (case oa_path a of
        PStr p \<Rightarrow>
          (let path = join_path task_dir p in
           if fs path = None then (fs, Inl (Exn FileNotFoundErr (PStr path))) else (fs, Inr path))
      | PNone \<Rightarrow>
          (case (oa_url a, oa_sha256 a) of
             (PStr url, PStr sha) \<Rightarrow>
               (case validate_asset_url (aw_urlsplit aw) (aw_getaddrinfo aw) url of
                  Some e \<Rightarrow> (fs, Inl e)
                | None \<Rightarrow>
                    let target = cache_target cache_dir (oa_name a) sha in
                    (case fs target of
                       Some d \<Rightarrow>
                         if aw_sha256 aw d \<noteq> sha
                         then (fs, Inl (url_error ''cached file does not match its sha256 pin: '' (oa_name a)))
                         else (fs, Inr target)
                     | None \<Rightarrow>
                         (case fetch_asset aw fs (oa_name a) url of
                            Inl e \<Rightarrow> (fs, Inl e)
                          | Inr d \<Rightarrow>
                              if aw_sha256 aw d \<noteq> sha
                              then (fs, Inl (url_error ''refusing to flash a non-golden image: '' (oa_name a)))
                              else (fs(target \<mapsto> d), Inr target))))
           | _ \<Rightarrow> (fs, Inl (Exn AssertionErr PNone)))
      | _ \<Rightarrow> (fs, Inl (terr ''unsupported operand type(s) for /'')))"

text \<open>The dictionary: a later asset of the same name replaces an earlier one.\<close>

fun resolve_assets ::
  "asset_world \<Rightarrow> string \<Rightarrow> string \<Rightarrow> ops_asset list \<Rightarrow> files \<Rightarrow> files \<times> (exn + (string \<rightharpoonup> string))" where
  "resolve_assets aw task_dir cache_dir [] fs = (fs, Inr Map.empty)"
| "resolve_assets aw task_dir cache_dir (a # as) fs =
     (case resolve_asset aw task_dir cache_dir a fs of
        (fs1, Inl e) \<Rightarrow> (fs1, Inl e)
      | (fs1, Inr path) \<Rightarrow>
          (case resolve_assets aw task_dir cache_dir as fs1 of
             (fs2, Inl e) \<Rightarrow> (fs2, Inl e)
           | (fs2, Inr m) \<Rightarrow> (fs2, Inr ([oa_name a \<mapsto> path] ++ m))))"

section \<open>Facts\<close>

lemma asset_addresses_None:
  "asset_addresses host ips = None \<longleftrightarrow> (\<forall>ip \<in> set ips. \<not> blocked_always ip \<and> \<not> blocked_local ip)"
  by (induction ips) auto

lemma resolve_assets_names:
  "resolve_assets aw td cd as fs = (fs', Inr m) \<Longrightarrow> dom m = oa_name ` set as"
proof (induction as arbitrary: fs fs' m)
  case (Cons a as)
  then obtain fs1 path m' where "resolve_assets aw td cd as fs1 = (fs', Inr m')" "m = [oa_name a \<mapsto> path] ++ m'"
    by (auto split: prod.splits sum.splits)
  with Cons.IH show ?case by auto
qed simp

lemma resolve_url_cases:
  assumes "resolve_asset aw td cd a fs = (fs', Inr path)" and "oa_path a = PNone"
  obtains (hit) url sha d where "oa_url a = PStr url" "oa_sha256 a = PStr sha"
      "validate_asset_url (aw_urlsplit aw) (aw_getaddrinfo aw) url = None"
      "path = cache_target cd (oa_name a) sha" "fs path = Some d" "aw_sha256 aw d = sha" "fs' = fs"
    | (load) url sha d where "oa_url a = PStr url" "oa_sha256 a = PStr sha"
      "validate_asset_url (aw_urlsplit aw) (aw_getaddrinfo aw) url = None"
      "path = cache_target cd (oa_name a) sha" "aw_sha256 aw d = sha" "fs' = fs(path \<mapsto> d)"
proof -
  from assms obtain url sha where us: "oa_url a = PStr url" "oa_sha256 a = PStr sha"
    by (auto simp: resolve_asset_def split: pyval.splits)
  with assms have ok: "validate_asset_url (aw_urlsplit aw) (aw_getaddrinfo aw) url = None"
    by (auto simp: resolve_asset_def split: option.splits)
  note r = assms(1) [unfolded resolve_asset_def assms(2) us Let_def, simplified, unfolded ok, simplified]
  show thesis
  proof (cases "fs (cache_target cd (oa_name a) sha)")
    case (Some d)
    with r have "path = cache_target cd (oa_name a) sha" "aw_sha256 aw d = sha" "fs' = fs" by (auto split: if_splits)
    with Some hit us ok show thesis by blast
  next
    case None
    with r obtain d where "fetch_asset aw fs (oa_name a) url = Inr d" "aw_sha256 aw d = sha"
      "path = cache_target cd (oa_name a) sha" "fs' = fs(cache_target cd (oa_name a) sha \<mapsto> d)"
      by (auto split: if_splits sum.splits)
    with load us ok show thesis by blast
  qed
qed


text \<open>
  A pin with an upper-case letter is accepted by the loader and can never be met: the hash is computed in
  lower case, so a URL asset with such a pin does not resolve.
\<close>

theorem upper_case_pin_never_met:
  assumes "\<And>d. list_all (\<lambda>c. c \<in> set ''0123456789abcdef'') (aw_sha256 aw d)"
    and "oa_sha256 a = PStr sha" and "oa_path a = PNone" and "\<exists>c \<in> set sha. c \<in> set ''ABCDEF''"
  shows "\<exists>e. snd (resolve_asset aw td cd a fs) = Inl e"
proof (cases "resolve_asset aw td cd a fs")
  case (Pair fs' r)
  show ?thesis
  proof (cases r)
    case (Inr path)
    from assms(4) obtain c where c: "c \<in> set sha" "c \<in> set ''ABCDEF''" by blast
    from Pair Inr have "resolve_asset aw td cd a fs = (fs', Inr path)" by simp
    then obtain d where d: "aw_sha256 aw d = sha"
      using assms(3) by (cases rule: resolve_url_cases) (use assms(2) in \<open>metis pyval.inject(4)\<close>)+
    have "list_all (\<lambda>c. c \<in> set ''0123456789abcdef'') sha" using assms(1) [of d] by (simp only: d)
    with c(1) have "c \<in> set ''0123456789abcdef''" unfolding list_all_iff by (rule bspec [rotated])
    moreover have "list_all (\<lambda>c. c \<notin> set ''ABCDEF'') ''0123456789abcdef''" by code_simp
    ultimately show ?thesis using c(2) unfolding list_all_iff by blast
  qed (simp add: Pair)
qed

section \<open>Witnesses\<close>

definition demo_sum :: "string \<Rightarrow> string" where "demo_sum d = replicate 64 (CHR ''0'')"

definition demo_world :: asset_world where
  "demo_world = \<lparr>aw_sha256 = demo_sum, aw_urlsplit = (\<lambda>_. \<lparr>up_scheme = ''https'', up_netloc = ''h'', up_path = ''/f'', up_hostname = Some ''h''\<rparr>),
     aw_getaddrinfo = (\<lambda>_. Some [public_ip]), aw_url2path = (\<lambda>p. p), aw_download = (\<lambda>_. Inr ''D'')\<rparr>"

definition demo_asset :: "string \<Rightarrow> ops_asset" where
  "demo_asset sha = \<lparr>oa_name = ''fw'', oa_path = PNone, oa_url = PStr ''https://h/f'', oa_sha256 = PStr sha\<rparr>"

lemma demo_resolves:
  "resolve_asset demo_world ''t'' ''c'' (demo_asset (demo_sum [])) Map.empty =
     ([''c/fw-0000000000000000'' \<mapsto> ''D''], Inr ''c/fw-0000000000000000'')"
proof -
  have "cache_target ''c'' ''fw'' (demo_sum []) = ''c/fw-0000000000000000''" by code_simp
  moreover have "validate_asset_url (aw_urlsplit demo_world) (aw_getaddrinfo demo_world) ''https://h/f'' = None" by code_simp
  moreover have "\<not> prefix ''file://'' ''https://h/f''" by simp
  ultimately show ?thesis
    by (simp add: resolve_asset_def demo_asset_def fetch_asset_def demo_world_def MAX_DOWNLOAD_BYTES_def demo_sum_def Let_def)
qed


lemma upper_case_pin_never_met_witness:
  "\<exists>e. snd (resolve_asset demo_world ''t'' ''c'' (demo_asset ''A'') Map.empty) = Inl e"
proof (rule upper_case_pin_never_met)
  show "\<exists>c \<in> set ''A''. c \<in> set ''ABCDEF''" by (rule bexI [of _ "CHR ''A''"]) simp_all
qed (simp_all add: demo_world_def demo_sum_def demo_asset_def list_all_iff)

end
