(* ===== verification/OpsArms.thy ===== *)
theory OpsArms
  imports McpWire OpsTasks
begin

text \<open>
  The two arms of the ops experiment (\<open>src/ironbench/ops_arms.py\<close>). What the language model answers, the
  scripts do and the server prints are observations, so the messages sent are not modelled; \<open>json.dumps\<close>,
  \<open>json.loads\<close>, \<open>JSONDecoder.raw_decode\<close> and \<open>str\<close> are parameters. Texts are UTF-8, their length counts bytes.
\<close>

section \<open>Turns and results\<close>

record turn =
  tn_iteration :: nat
  tn_kind :: string
  tn_content :: string
  tn_observation :: string
  tn_ok :: bool

record arm_result =
  ar_turns :: "turn list"
  ar_claimed :: "string option"
  ar_claim_iteration :: "nat option"
  ar_tokens_in :: int
  ar_tokens_out :: int
  ar_timed_out :: bool

definition arm_init :: arm_result where
  "arm_init = \<lparr>ar_turns = [], ar_claimed = None, ar_claim_iteration = None, ar_tokens_in = 0, ar_tokens_out = 0,
               ar_timed_out = False\<rparr>"

definition iterations :: "arm_result \<Rightarrow> nat" where
  "iterations r = length (ar_turns r)"

definition add_turn :: "nat \<Rightarrow> string \<Rightarrow> string \<Rightarrow> string \<Rightarrow> bool \<Rightarrow> arm_result \<Rightarrow> arm_result" where
  "add_turn it kind content obs ok r =
     r\<lparr>ar_turns := ar_turns r @ [\<lparr>tn_iteration = it, tn_kind = kind, tn_content = content, tn_observation = obs, tn_ok = ok\<rparr>]\<rparr>"

definition add_tokens :: "chat_reply \<Rightarrow> arm_result \<Rightarrow> arm_result" where
  "add_tokens c r =
     r\<lparr>ar_tokens_in := ar_tokens_in r + cr_prompt_tokens c, ar_tokens_out := ar_tokens_out r + cr_completion_tokens c\<rparr>"

definition set_claim :: "nat \<Rightarrow> string \<Rightarrow> arm_result \<Rightarrow> arm_result" where
  "set_claim it v r = r\<lparr>ar_claimed := Some v, ar_claim_iteration := Some it\<rparr>"

definition transcript :: "arm_result \<Rightarrow> string" where
  "transcript r =
     join_sep [ch 10] (concat (map (\<lambda>t.
       [''=== iter '' @ show_nat (tn_iteration t) @ '' ['' @ tn_kind t @ ''] ==='', tn_content t] @
       (if tn_observation t = [] then [] else [''--- observation ---'' @ [ch 10] @ tn_observation t])) (ar_turns r)))"

definition OBSERVATION_CAP :: nat where "OBSERVATION_CAP = 4096"

definition cap_text :: "string \<Rightarrow> string" where
  "cap_text s =
     (if length s \<le> OBSERVATION_CAP then s
      else ''[... '' @ show_nat (length s - OBSERVATION_CAP) @ '' bytes truncated ...]'' @ [ch 10] @
           drop (length s - OBSERVATION_CAP) s)"

section \<open>Claims and payloads\<close>

text \<open>A match of the claim pattern at the start of a line: white space after the colon and after the verdict,
  up to the end of a line.\<close>

definition line_ends :: "string \<Rightarrow> bool" where
  "line_ends s = (dropWhile py_space s = [] \<or> ch 10 \<in> set (takeWhile py_space s))"

definition claim_at :: "string \<Rightarrow> string option" where
  "claim_at s =
     (if prefix ''CLAIM:'' s then
        let r = dropWhile py_space (drop 6 s) in
        if prefix ''SUCCESS'' r \<and> line_ends (drop 7 r) then Some ''SUCCESS''
        else if prefix ''FAIL'' r \<and> line_ends (drop 4 r) then Some ''FAIL''
        else None
      else None)"

fun claims_from :: "bool \<Rightarrow> string \<Rightarrow> string list" where
  "claims_from start [] = []"
| "claims_from start (c # cs) =
     (if start then (case claim_at (c # cs) of Some v \<Rightarrow> [v] | None \<Rightarrow> []) else []) @ claims_from (c = ch 10) cs"

definition parse_claim :: "string \<Rightarrow> string option" where
  "parse_claim s = (case claims_from True s of [] \<Rightarrow> None | cs \<Rightarrow> Some (last cs))"

text \<open>The decoder gives the value and the length of the text it read, at least one byte.\<close>

function last_json :: "(string \<Rightarrow> (pyval \<times> nat) option) \<Rightarrow> fields option \<Rightarrow> string \<Rightarrow> fields option" where
  "last_json raw_decode found s =
     (case find_at ''{'' s of
        None \<Rightarrow> found
      | Some i \<Rightarrow>
          (case raw_decode (drop i s) of
             None \<Rightarrow> last_json raw_decode found (drop (i + 1) s)
           | Some (v, n) \<Rightarrow>
               last_json raw_decode (case v of PDict d \<Rightarrow> Some d | _ \<Rightarrow> found) (drop (i + max 1 n) s)))"
  by pat_completeness auto
termination
proof (relation "measure (\<lambda>(_, _, s). length s)", goal_cases)
  case (2 rd found s i)
  then show ?case using find_at_bound [of "''{''" s i] by simp
next
  case (3 rd found s i x v n)
  then show ?case using find_at_bound [of "''{''" s i] by simp
qed simp

declare last_json.simps [simp del]

definition extract_last_json :: "(string \<Rightarrow> (pyval \<times> nat) option) \<Rightarrow> string \<Rightarrow> fields option" where
  "extract_last_json raw_decode s = last_json raw_decode None s"

definition parse_tool_arguments :: "(string \<Rightarrow> pyval option) \<Rightarrow> pyval \<Rightarrow> fields" where
  "parse_tool_arguments json raw =
     (case raw of
        PDict d \<Rightarrow> d
      | PStr s \<Rightarrow> if blank s then [] else (case json s of Some (PDict d) \<Rightarrow> d | _ \<Rightarrow> [])
      | _ \<Rightarrow> [])"

definition upper_char :: "char \<Rightarrow> char" where
  "upper_char c = (let n = of_char c :: nat in if 97 \<le> n \<and> n \<le> 122 then char_of (n - 32) else c)"

definition upper :: "string \<Rightarrow> string" where "upper s = map upper_char s"

text \<open>The regular expressions of the claim work on strings only.\<close>

definition content_text :: "pyval \<Rightarrow> exn + string" where
  "content_text v = (case v of PStr s \<Rightarrow> Inr s | _ \<Rightarrow> Inl (terr ''expected string or bytes-like object''))"

definition LLM_RETRIES :: nat where "LLM_RETRIES = 3"

fun chat_retry :: "nat \<Rightarrow> (exn + 'a) list \<Rightarrow> (exn + 'a) option" where
  "chat_retry n [] = None"
| "chat_retry n (r # rs) =
     (case r of
        Inr c \<Rightarrow> Some (Inr c)
      | Inl e \<Rightarrow> if catches [OSErr] e \<and> 1 < n then chat_retry (n - 1) rs else Some (Inl e))"

definition chat_with_retry :: "(exn + 'a) list \<Rightarrow> (exn + 'a) option" where
  "chat_with_retry rs = chat_retry LLM_RETRIES rs"

section \<open>The bare arm\<close>

datatype script_end = Exited int string string | Killed string

definition script_result :: "script_end \<Rightarrow> int \<times> string \<times> bool" where
  "script_result e =
     (case e of
        Killed out \<Rightarrow> (124, cap_text (out @ [ch 10] @ ''[script killed: iteration timeout]''), True)
      | Exited code out err \<Rightarrow>
          (code, cap_text (out @ (if err = [] then [] else [ch 10] @ ''[stderr]'' @ [ch 10] @ err)), False))"

text \<open>One iteration: the deadline, the reply, the exception of writing the script, its end.\<close>

record bare_obs =
  bb_late :: bool
  bb_reply :: "exn + chat_reply"
  bb_write :: "exn option"
  bb_script :: script_end

text \<open>The result of an iteration, with whether the loop ends.\<close>

definition bare_turn :: "nat \<Rightarrow> bare_obs \<Rightarrow> arm_result \<Rightarrow> exn + bool \<times> arm_result" where
  "bare_turn it ob r =
     (if bb_late ob then Inr (True, r\<lparr>ar_timed_out := True\<rparr>)
      else case bb_reply ob of
        Inl e \<Rightarrow> Inl e
      | Inr c \<Rightarrow>
          let r1 = add_tokens c r in
          (case content_text (cr_content c) of
             Inl e \<Rightarrow> Inl e
           | Inr s \<Rightarrow>
               (case parse_claim s of
                  Some v \<Rightarrow> Inr (True, set_claim it v (add_turn it ''claim'' (strip s) [] True r1))
                | None \<Rightarrow>
                    (case extract_code s of
                       None \<Rightarrow> Inr (False, add_turn it ''invalid'' s ''Reply with one ```python block.'' True r1)
                     | Some code \<Rightarrow>
                         (case bb_write ob of
                            Some e \<Rightarrow> Inl e
                          | None \<Rightarrow>
                              (case script_result (bb_script ob) of
                                 (exit_code, out, timed) \<Rightarrow>
                                   let r2 = add_turn it ''script'' code
                                     (''exit='' @ show_int exit_code @ [ch 10] @ out) (exit_code = 0) r1 in
                                   Inr (timed, if timed then r2\<lparr>ar_timed_out := True\<rparr> else r2)))))))"

fun bare_loop :: "nat \<Rightarrow> nat \<Rightarrow> bare_obs list \<Rightarrow> arm_result \<Rightarrow> (exn + arm_result) option" where
  "bare_loop max_it it [] r = (if max_it < it then Some (Inr r) else None)"
| "bare_loop max_it it (ob # obs) r =
     (if max_it < it then Some (Inr r)
      else case bare_turn it ob r of
        Inl e \<Rightarrow> Some (Inl e)
      | Inr (True, r1) \<Rightarrow> Some (Inr r1)
      | Inr (False, r1) \<Rightarrow> bare_loop max_it (it + 1) obs r1)"

definition bare_run :: "nat \<Rightarrow> bare_obs list \<Rightarrow> (exn + arm_result) option" where
  "bare_run max_it obs = bare_loop max_it 1 obs arm_init"

section \<open>The tools arm\<close>

text \<open>What is outside: \<open>json.loads\<close>, \<open>json.dumps\<close>, \<open>raw_decode\<close>, \<open>str\<close> of a value.\<close>

record json_world =
  jw_loads :: "string \<Rightarrow> pyval option"
  jw_dumps :: "pyval \<Rightarrow> string"
  jw_decode :: "string \<Rightarrow> (pyval \<times> nat) option"
  jw_str :: "pyval \<Rightarrow> string"

definition get_default :: "string \<Rightarrow> pyval \<Rightarrow> pyval \<Rightarrow> exn + pyval" where
  "get_default k dflt v =
     (case v of
        PDict d \<Rightarrow> Inr (get_or d k dflt)
      | _ \<Rightarrow> Inl (Exn AttributeErr (PStr ''object has no attribute get'')))"

definition items_of :: "pyval \<Rightarrow> exn + pyval list" where
  "items_of v =
     (case v of
        PList xs \<Rightarrow> Inr xs
      | PStr s \<Rightarrow> Inr (map (\<lambda>c. PStr [c]) s)
      | PDict d \<Rightarrow> Inr (map (\<lambda>p. PStr (fst p)) d)
      | _ \<Rightarrow> Inl (terr ''object is not iterable''))"

text \<open>The tools of the allowed families.\<close>

fun catalog_of :: "string list \<Rightarrow> pyval list \<Rightarrow> exn + pyval list" where
  "catalog_of families [] = Inr []"
| "catalog_of families (t # ts) =
     (case get_default ''name'' (PStr []) t of
        Inl e \<Rightarrow> Inl e
      | Inr (PStr n) \<Rightarrow>
          map_sum id (\<lambda>cs. if list_ex (\<lambda>f. prefix (f @ ''_'') n) families then t # cs else cs) (catalog_of families ts)
      | Inr _ \<Rightarrow> Inl (Exn AttributeErr (PStr ''object has no attribute startswith'')))"

definition CLAIM_TOOL :: pyval where
  "CLAIM_TOOL =
     PDict [(''type'', PStr ''function''),
       (''function'', PDict
          [(''name'', PStr ''claim''),
           (''description'', PStr ''End the attempt with your verdict about the task.''),
           (''parameters'', PDict
              [(''type'', PStr ''object''),
               (''properties'', PDict
                  [(''verdict'', PDict [(''type'', PStr ''string''), (''enum'', PList [PStr ''SUCCESS'', PStr ''FAIL''])]),
                   (''inventory'', PDict [(''type'', PStr ''object''),
                      (''description'', PStr ''Optional: reported inventory data (task-specific).'')])]),
               (''required'', PList [PStr ''verdict''])])])]"

definition native_tool :: "pyval \<Rightarrow> exn + pyval" where
  "native_tool t =
     bind_sum (item_of ''name'' t) (\<lambda>n.
     bind_sum (get_default ''description'' (PStr []) t) (\<lambda>d.
     bind_sum (get_default ''inputSchema'' PNone t) (\<lambda>p.
       Inr (PDict [(''type'', PStr ''function''),
         (''function'', PDict [(''name'', n), (''description'', d),
            (''parameters'', py_or p (PDict [(''type'', PStr ''object''), (''properties'', PDict [])]))])]))))"

fun native_tools :: "pyval list \<Rightarrow> exn + pyval list" where
  "native_tools [] = Inr [CLAIM_TOOL]"
| "native_tools (t # ts) = bind_sum (native_tool t) (\<lambda>n. map_sum id ((#) n) (native_tools ts))"

text \<open>A call over the wire and its turn.\<close>

definition tool_turn ::
  "json_world \<Rightarrow> nat \<Rightarrow> string \<Rightarrow> pyval \<Rightarrow> wire \<Rightarrow> arm_result \<Rightarrow> (wire \<times> (wire_err + arm_result)) option" where
  "tool_turn jw it name args w r =
     (case call_tool (jw_str jw) w of
        None \<Rightarrow> None
      | Some (w1, Inl e) \<Rightarrow> Some (w1, Inl e)
      | Some (w1, Inr call) \<Rightarrow>
          Some (w1, Inr (add_turn it ''tool'' (jw_dumps jw (PDict [(''tool'', PStr name), (''arguments'', args)]))
            (''TOOL '' @ name @ '' -> '' @ (if tl_ok call then ''OK'' else ''ERROR'') @ [ch 10] @
             cap_text (text_of (jw_str jw) (tl_text call))) (tl_ok call) r)))"

definition verdict_claim :: "nat \<Rightarrow> string \<Rightarrow> arm_result \<Rightarrow> arm_result" where
  "verdict_claim it v r = (if v \<in> {''SUCCESS'', ''FAIL''} then set_claim it v r else r)"

text \<open>The name and the arguments of a native call.\<close>

definition call_parts :: "json_world \<Rightarrow> pyval \<Rightarrow> exn + string \<times> fields" where
  "call_parts jw tc =
     bind_sum (get_of ''function'' tc) (\<lambda>f.
     let fn = py_or f (PDict []) in
     bind_sum (get_default ''name'' (PStr []) fn) (\<lambda>n.
     bind_sum (get_of ''arguments'' fn) (\<lambda>a.
       Inr (text_of (jw_str jw) n, parse_tool_arguments (jw_loads jw) a))))"

text \<open>The native calls of one reply, in their order; the flag is that a claim was among them.\<close>

fun tool_calls ::
  "json_world \<Rightarrow> nat \<Rightarrow> pyval list \<Rightarrow> wire \<Rightarrow> arm_result \<Rightarrow> bool \<Rightarrow> (wire \<times> (wire_err + bool \<times> arm_result)) option" where
  "tool_calls jw it [] w r ends = Some (w, Inr (ends, r))"
| "tool_calls jw it (tc # tcs) w r ends =
     (case call_parts jw tc of
        Inl e \<Rightarrow> Some (w, Inl (Raised e))
      | Inr (name, args) \<Rightarrow>
          if name = ''claim'' then
            tool_calls jw it tcs w
              (verdict_claim it (upper (text_of (jw_str jw) (get_or args ''verdict'' (PStr []))))
                 (add_turn it ''claim'' (jw_dumps jw (PDict args)) [] True r)) True
          else
            (case tool_turn jw it name (PDict args) w r of
               None \<Rightarrow> None
             | Some (w1, Inl e) \<Rightarrow> Some (w1, Inl e)
             | Some (w1, Inr r1) \<Rightarrow> tool_calls jw it tcs w1 r1 ends))"

text \<open>A reply without native calls.\<close>

definition text_turn ::
  "json_world \<Rightarrow> nat \<Rightarrow> pyval \<Rightarrow> wire \<Rightarrow> arm_result \<Rightarrow> (wire \<times> (wire_err + bool \<times> arm_result)) option" where
  "text_turn jw it content w r =
     (case content_text content of
        Inl e \<Rightarrow> Some (w, Inl (Raised e))
      | Inr s \<Rightarrow>
          (case parse_claim s of
             Some v \<Rightarrow> Some (w, Inr (True, set_claim it v (add_turn it ''claim'' (strip s) [] True r)))
           | None \<Rightarrow>
               (case extract_last_json (jw_decode jw) s of
                  None \<Rightarrow> Some (w, Inr (False, add_turn it ''invalid'' s ''Call a tool, or call claim with your verdict.'' True r))
                | Some payload \<Rightarrow>
                    if has_key ''claim'' payload then
                      Some (w, Inr (True, verdict_claim it (upper (text_of (jw_str jw) (get_or payload ''claim'' (PStr []))))
                        (add_turn it ''claim'' (jw_dumps jw (PDict payload)) [] True r)))
                    else (case get_or payload ''tool'' PNone of
                       PStr name \<Rightarrow>
                         (case tool_turn jw it name (py_or (get_or payload ''arguments'' PNone) (PDict [])) w r of
                            None \<Rightarrow> None
                          | Some (w1, Inl e) \<Rightarrow> Some (w1, Inl e)
                          | Some (w1, Inr r1) \<Rightarrow> Some (w1, Inr (False, r1)))
                     | _ \<Rightarrow> Some (w, Inr (False, add_turn it ''invalid'' s ''Missing tool name.'' True r))))))"

record mcp_obs =
  mo_late :: bool
  mo_reply :: "exn + chat_reply"

definition mcp_turn ::
  "json_world \<Rightarrow> nat \<Rightarrow> mcp_obs \<Rightarrow> wire \<Rightarrow> arm_result \<Rightarrow> (wire \<times> (wire_err + bool \<times> arm_result)) option" where
  "mcp_turn jw it ob w r =
     (if mo_late ob then Some (w, Inr (True, r\<lparr>ar_timed_out := True\<rparr>))
      else case mo_reply ob of
        Inl e \<Rightarrow> Some (w, Inl (Raised e))
      | Inr c \<Rightarrow>
          let r1 = add_tokens c r in
          (case get_of ''tool_calls'' (py_or (cr_message c) (PDict [])) of
             Inl e \<Rightarrow> Some (w, Inl (Raised e))
           | Inr cs \<Rightarrow>
               if truthy cs then
                 (case items_of cs of
                    Inl e \<Rightarrow> Some (w, Inl (Raised e))
                  | Inr tcs \<Rightarrow> tool_calls jw it tcs w r1 False)
               else text_turn jw it (cr_content c) w r1))"

fun mcp_loop ::
  "json_world \<Rightarrow> nat \<Rightarrow> nat \<Rightarrow> mcp_obs list \<Rightarrow> wire \<Rightarrow> arm_result \<Rightarrow> (wire_err + arm_result) option" where
  "mcp_loop jw max_it it [] w r = (if max_it < it then Some (Inr r) else None)"
| "mcp_loop jw max_it it (ob # obs) w r =
     (if max_it < it then Some (Inr r)
      else case mcp_turn jw it ob w r of
        None \<Rightarrow> None
      | Some (w1, Inl e) \<Rightarrow> Some (Inl e)
      | Some (w1, Inr (True, r1)) \<Rightarrow> Some (Inr r1)
      | Some (w1, Inr (False, r1)) \<Rightarrow> mcp_loop jw max_it (it + 1) obs w1 r1)"

text \<open>The client comes from the factory, which may fail; it is closed however the run ends.\<close>

definition mcp_run ::
  "json_world \<Rightarrow> string list \<Rightarrow> nat \<Rightarrow> wire_err + wire \<Rightarrow> mcp_obs list \<Rightarrow> (wire_err + arm_result) option" where
  "mcp_run jw families max_it factory obs =
     (case factory of
        Inl e \<Rightarrow> Some (Inl e)
      | Inr w \<Rightarrow>
          (case list_tools w of
             None \<Rightarrow> None
           | Some (w1, Inl e) \<Rightarrow> Some (Inl e)
           | Some (w1, Inr tools) \<Rightarrow>
               (case bind_sum (items_of tools) (\<lambda>ts. bind_sum (catalog_of families ts) native_tools) of
                  Inl e \<Rightarrow> Some (Inl (Raised e))
                | Inr _ \<Rightarrow> mcp_loop jw max_it 1 obs w1 arm_init)))"

section \<open>Incidents and declared operations\<close>

text \<open>The two patterns of the incident scan are parameters: the ports a script names, and whether it opens a
  port without a time-out.\<close>

definition scan_bare_accidents ::
  "(string \<Rightarrow> string list) \<Rightarrow> (string \<Rightarrow> bool) \<Rightarrow> string list \<Rightarrow> string \<Rightarrow> string list" where
  "scan_bare_accidents ports_in no_timeout scripts assigned =
     concat (map (\<lambda>s.
       (let ps = filter (\<lambda>p. p \<noteq> assigned) (ports_in s) in
        (if ps = [] then [] else [''wrong_port_reference:'' @ hd (sort ps)]) @
        (if no_timeout s then [''serial_open_without_timeout''] else []))) scripts)"

section \<open>Claims are sound\<close>

definition claim_sound :: "nat \<Rightarrow> arm_result \<Rightarrow> bool" where
  "claim_sound max_it r =
     (\<forall>v. ar_claimed r = Some v \<longrightarrow>
        v \<in> {''SUCCESS'', ''FAIL''} \<and> \<not> ar_timed_out r \<and>
        (\<exists>t \<in> set (ar_turns r). tn_kind t = ''claim'' \<and> ar_claim_iteration r = Some (tn_iteration t) \<and> tn_iteration t \<le> max_it))"

definition open_run :: "arm_result \<Rightarrow> bool" where
  "open_run r = (ar_claimed r = None \<and> \<not> ar_timed_out r)"

lemma add_turn_sel [simp]:
  "ar_claimed (add_turn it k c ob ok r) = ar_claimed r" "ar_timed_out (add_turn it k c ob ok r) = ar_timed_out r"
  "ar_claim_iteration (add_turn it k c ob ok r) = ar_claim_iteration r"
  "ar_turns (add_turn it k c ob ok r) =
     ar_turns r @ [\<lparr>tn_iteration = it, tn_kind = k, tn_content = c, tn_observation = ob, tn_ok = ok\<rparr>]"
  by (simp_all add: add_turn_def)

lemma add_tokens_sel [simp]:
  "ar_claimed (add_tokens c r) = ar_claimed r" "ar_timed_out (add_tokens c r) = ar_timed_out r"
  "ar_claim_iteration (add_tokens c r) = ar_claim_iteration r" "ar_turns (add_tokens c r) = ar_turns r"
  by (simp_all add: add_tokens_def)

lemma set_claim_sel [simp]:
  "ar_claimed (set_claim it v r) = Some v" "ar_timed_out (set_claim it v r) = ar_timed_out r"
  "ar_claim_iteration (set_claim it v r) = Some it" "ar_turns (set_claim it v r) = ar_turns r"
  by (simp_all add: set_claim_def)

lemma open_run_sound: "open_run r \<Longrightarrow> claim_sound m r"
  by (simp add: open_run_def claim_sound_def)

lemma claim_at_verdict: "claim_at s = Some v \<Longrightarrow> v \<in> {''SUCCESS'', ''FAIL''}"
  unfolding claim_at_def Let_def by (cases "prefix ''CLAIM:'' s") (auto simp del: prefix_code split: if_split_asm)

lemma claims_from_verdicts: "v \<in> set (claims_from start s) \<Longrightarrow> v \<in> {''SUCCESS'', ''FAIL''}"
proof (induction start s rule: claims_from.induct)
  case (2 start c cs)
  then have "claim_at (c # cs) = Some v \<or> v \<in> set (claims_from (c = ch 10) cs)"
    by (cases start; cases "claim_at (c # cs)") auto
  then show ?case using "2.IH" claim_at_verdict by blast
qed simp

lemma parse_claim_verdict: "parse_claim s = Some v \<Longrightarrow> v \<in> {''SUCCESS'', ''FAIL''}"
proof -
  assume "parse_claim s = Some v"
  then have "claims_from True s \<noteq> []" "v = last (claims_from True s)"
    by (auto simp: parse_claim_def split: list.splits)
  then have "v \<in> set (claims_from True s)" by simp
  then show ?thesis by (rule claims_from_verdicts)
qed

lemma bare_turn_cases:
  assumes "bare_turn it ob r = Inr (b, r')" and "open_run r"
  shows "(\<not> b \<longrightarrow> open_run r') \<and> claim_sound it r' \<and>
    (ar_turns r' = ar_turns r \<and> ar_timed_out r' \<or> (\<exists>t. ar_turns r' = ar_turns r @ [t] \<and> tn_iteration t = it)) \<and>
    (ar_claimed r' \<noteq> None \<longrightarrow> ar_claim_iteration r' = Some it \<and> tn_kind (last (ar_turns r')) = ''claim'')"
  using assms
  by (auto simp: bare_turn_def Let_def open_run_def claim_sound_def dest: parse_claim_verdict
      split: if_splits sum.splits option.splits prod.splits)

definition numbered :: "nat \<Rightarrow> arm_result \<Rightarrow> bool" where
  "numbered n r = (map tn_iteration (ar_turns r) = [1..<n + 1])"

lemma numbered_length: "numbered n r \<Longrightarrow> length (ar_turns r) = n"
proof -
  assume "numbered n r"
  then have "length (map tn_iteration (ar_turns r)) = length [1..<n + 1]" by (simp only: numbered_def)
  then show ?thesis by simp
qed

lemma bare_loop_sound:
  "bare_loop m it obs r = Some (Inr r') \<Longrightarrow> open_run r \<Longrightarrow> 1 \<le> it \<Longrightarrow> numbered (it - 1) r \<Longrightarrow> it \<le> m + 1 \<Longrightarrow>
   claim_sound m r' \<and> numbered (iterations r') r' \<and> iterations r' \<le> m \<and>
   (ar_claimed r' \<noteq> None \<longrightarrow> ar_claim_iteration r' = Some (iterations r') \<and> tn_kind (last (ar_turns r')) = ''claim'')"
proof (induction m it obs r rule: bare_loop.induct)
  case (1 m it r)
  from 1(4) have "length (ar_turns r) = it - 1" by (rule numbered_length)
  with 1 show ?case by (auto simp: open_run_sound iterations_def open_run_def split: if_splits)
next
  case (2 m it ob obs r)
  from "2.prems"(4) have len: "length (ar_turns r) = it - 1" by (rule numbered_length)
  show ?case
  proof (cases "m < it")
    case True
    with 2 len show ?thesis by (auto simp: open_run_sound iterations_def open_run_def)
  next
    case False
    with "2.prems"(1) obtain b r1 where t: "bare_turn it ob r = Inr (b, r1)" by (auto split: sum.splits)
    note c = bare_turn_cases [OF t "2.prems"(2)]
    obtain n where n: "it = Suc n" using "2.prems"(3) by (cases it) auto
    have num: "numbered (iterations r1) r1 \<and> iterations r1 \<le> it \<and> (ar_timed_out r1 \<or> iterations r1 = it)"
      using c "2.prems"(4) len by (auto simp: numbered_def iterations_def n)
    show ?thesis
    proof (cases b)
      case True
      with "2.prems"(1) t False have "r' = r1" by simp
      moreover have "claim_sound m r1" using c False by (auto simp: claim_sound_def)
      moreover have "ar_claimed r1 \<noteq> None \<Longrightarrow> iterations r1 = it" using c num by (auto simp: claim_sound_def)
      ultimately show ?thesis using c num False by auto
    next
      case no: False
      then have b: "b = False" and "open_run r1" using c by blast+
      moreover from this num have "iterations r1 = it" by (auto simp: open_run_def)
      ultimately show ?thesis using "2.IH" [OF False t refl b] "2.prems" num no t False by (auto simp: open_run_def)
    qed
  qed
qed

lemma bare_run_sound:
  assumes "bare_run max_it obs = Some (Inr r)"
  shows "claim_sound max_it r \<and> numbered (iterations r) r \<and> iterations r \<le> max_it \<and>
     (ar_claimed r \<noteq> None \<longrightarrow> ar_claim_iteration r = Some (iterations r) \<and> tn_kind (last (ar_turns r)) = ''claim'')"
  using assms unfolding bare_run_def
  by (rule bare_loop_sound) (simp_all add: open_run_def arm_init_def numbered_def)

lemma bare_loop_claims:
  "bare_run max_it obs = Some (Inr r) \<Longrightarrow> ar_claimed r = Some v \<Longrightarrow> 0 < iterations r \<and> \<not> ar_timed_out r"
  using bare_run_sound [of max_it obs r] by (auto simp: claim_sound_def iterations_def)

text \<open>
  The bare arm keeps to its budget and to the claim protocol: its turns are the iterations 1, 2, 3 and so on, at
  most the budget; a verdict is SUCCESS or FAIL, is the last turn, and excludes a timeout.
\<close>

theorem bare_arm_protocol:
  assumes "bare_run max_it obs = Some (Inr r)"
  shows "map tn_iteration (ar_turns r) = [1..<iterations r + 1] \<and> iterations r \<le> max_it \<and>
    (\<forall>v. ar_claimed r = Some v \<longrightarrow>
      v \<in> {''SUCCESS'', ''FAIL''} \<and> \<not> ar_timed_out r \<and> 0 < iterations r \<and>
      ar_claim_iteration r = Some (iterations r) \<and> tn_kind (last (ar_turns r)) = ''claim'')"
  using bare_run_sound [OF assms] by (auto simp: claim_sound_def numbered_def iterations_def)

lemma claim_sound_add_turn: "claim_sound m r \<Longrightarrow> claim_sound m (add_turn it k c ob ok r)"
  by (fastforce simp: claim_sound_def)

lemma claim_sound_mono: "claim_sound m r \<Longrightarrow> m \<le> n \<Longrightarrow> claim_sound n r"
  by (fastforce simp: claim_sound_def)

lemma verdict_claim_sound:
  "claim_sound it r \<Longrightarrow> \<not> ar_timed_out r \<Longrightarrow>
   claim_sound it (verdict_claim it v (add_turn it ''claim'' c ob ok r)) \<and>
   \<not> ar_timed_out (verdict_claim it v (add_turn it ''claim'' c ob ok r))"
  by (cases "v \<in> {''SUCCESS'', ''FAIL''}") (simp_all add: verdict_claim_def claim_sound_add_turn claim_sound_def)

lemma tool_turn_turns:
  "tool_turn jw it name args w r = Some (w', Inr r') \<Longrightarrow> \<exists>c ob ok. r' = add_turn it ''tool'' c ob ok r"
  by (auto simp: tool_turn_def split: option.splits prod.splits sum.splits)

lemma verdict_claim_turns [simp]: "ar_turns (verdict_claim it v r) = ar_turns r"
  by (simp add: verdict_claim_def)

text \<open>The run so far has no verdict unless a claim has been seen in this reply.\<close>

definition calls_ok :: "nat \<Rightarrow> bool \<Rightarrow> arm_result \<Rightarrow> bool" where
  "calls_ok it ends r = (claim_sound it r \<and> \<not> ar_timed_out r \<and> (ends \<or> ar_claimed r = None))"

lemma tool_calls_ok:
  "tool_calls jw it tcs w r ends = Some (w', Inr (b, r')) \<Longrightarrow> calls_ok it ends r \<Longrightarrow>
   calls_ok it b r' \<and> length (ar_turns r') = length (ar_turns r) + length tcs"
proof (induction jw it tcs w r ends rule: tool_calls.induct)
  case (2 jw it tc tcs w r ends)
  then obtain name args where p: "call_parts jw tc = Inr (name, args)" by (auto split: sum.splits)
  show ?case
  proof (cases "name = ''claim''")
    case True
    let ?r = "verdict_claim it (upper (text_of (jw_str jw) (get_or args ''verdict'' (PStr []))))
                 (add_turn it ''claim'' (jw_dumps jw (PDict args)) [] True r)"
    have "calls_ok it True ?r" using "2.prems"(2) verdict_claim_sound by (simp add: calls_ok_def)
    with "2.IH"(1) [OF p refl True] "2.prems"(1) p True show ?thesis by simp
  next
    case False
    with p "2.prems"(1) obtain w1 r1 where t: "tool_turn jw it name (PDict args) w r = Some (w1, Inr r1)"
      by (auto split: option.splits sum.splits)
    then obtain c ob ok where r1: "r1 = add_turn it ''tool'' c ob ok r" using tool_turn_turns by blast
    with "2.prems"(2) have "calls_ok it ends r1" by (simp add: calls_ok_def claim_sound_add_turn)
    with "2.IH"(2) [OF p refl False t refl refl] "2.prems"(1) p t False r1 show ?thesis by simp
  qed
qed simp

lemma text_turn_ok:
  assumes "text_turn jw it content w r = Some (w', Inr (b, r'))" and "calls_ok it False r"
  shows "calls_ok it b r'"
proof -
  from assms(1) obtain s where s: "content_text content = Inr s" by (auto simp: text_turn_def split: sum.splits)
  show ?thesis
  proof (cases "parse_claim s")
    case (Some v)
    with assms s parse_claim_verdict [OF Some] show ?thesis
      by (auto simp: text_turn_def calls_ok_def claim_sound_def)
  next
    case None
    show ?thesis
    proof (cases "extract_last_json (jw_decode jw) s")
      case no: None
      with None assms s show ?thesis by (auto simp: text_turn_def calls_ok_def claim_sound_add_turn)
    next
      case (Some payload)
      show ?thesis
      proof (cases "has_key ''claim'' payload")
        case True
        with None Some assms s verdict_claim_sound show ?thesis by (auto simp: text_turn_def calls_ok_def)
      next
        case False
        with None Some assms s show ?thesis
          by (auto simp: text_turn_def calls_ok_def claim_sound_add_turn dest!: tool_turn_turns
              split: pyval.splits option.splits sum.splits)
      qed
    qed
  qed
qed

lemma mcp_turn_ok:
  assumes "mcp_turn jw it ob w r = Some (w', Inr (b, r'))" and "open_run r"
  shows "claim_sound it r' \<and> (\<not> b \<longrightarrow> open_run r')"
proof (cases "mo_late ob")
  case True
  with assms show ?thesis by (auto simp: mcp_turn_def claim_sound_def open_run_def)
next
  case False
  with assms(1) obtain c where c: "mo_reply ob = Inr c" by (auto simp: mcp_turn_def split: sum.splits)
  have "calls_ok it False (add_tokens c r)" using assms(2) by (simp add: calls_ok_def open_run_def claim_sound_def)
  with assms(1) c False have "calls_ok it b r'"
    by (auto simp: mcp_turn_def Let_def dest: tool_calls_ok text_turn_ok split: sum.splits if_splits)
  then show ?thesis by (auto simp: calls_ok_def open_run_def)
qed

lemma mcp_loop_ok:
  "mcp_loop jw m it obs w r = Some (Inr r') \<Longrightarrow> open_run r \<Longrightarrow> claim_sound m r'"
proof (induction jw m it obs w r rule: mcp_loop.induct)
  case (1 jw m it w r)
  then show ?case by (auto simp: open_run_sound split: if_splits)
next
  case (2 jw m it ob obs w r)
  show ?case
  proof (cases "m < it")
    case True
    with 2 show ?thesis by (auto simp: open_run_sound)
  next
    case False
    with "2.prems"(1) obtain w1 b r1 where t: "mcp_turn jw it ob w r = Some (w1, Inr (b, r1))"
      by (auto split: option.splits sum.splits)
    note ok = mcp_turn_ok [OF t "2.prems"(2)]
    show ?thesis
    proof (cases b)
      case True
      with t False "2.prems"(1) have "r' = r1" by simp
      with ok False show ?thesis using claim_sound_mono [of it r1 m] by simp
    next
      case no: False
      then have b: "b = False" by simp
      with ok have "open_run r1" by blast
      with "2.IH" [OF False t refl refl refl b] "2.prems"(1) t False b show ?thesis by simp
    qed
  qed
qed

lemma mcp_run_sound:
  assumes "mcp_run jw families max_it factory obs = Some (Inr r)"
  shows "claim_sound max_it r"
proof -
  from assms obtain w where "mcp_loop jw max_it 1 obs w arm_init = Some (Inr r)"
    by (auto simp: mcp_run_def split: sum.splits option.splits)
  then show ?thesis by (rule mcp_loop_ok) (simp add: open_run_def arm_init_def)
qed

lemma mcp_loop_claims:
  "mcp_run jw families max_it factory obs = Some (Inr r) \<Longrightarrow> ar_claimed r = Some v \<Longrightarrow> 0 < iterations r \<and> \<not> ar_timed_out r"
  using mcp_run_sound [of jw families max_it factory obs r] by (auto simp: claim_sound_def iterations_def)


text \<open>
  The iteration count of the tools arm is not bounded by the iteration budget: every native call of a reply is
  made and leaves a turn of its own, those after a claim too.
\<close>

theorem native_calls_all_made:
  assumes "tool_calls jw it tcs w arm_init False = Some (w', Inr (b, r))"
  shows "iterations r = length tcs"
  using tool_calls_ok [OF assms] by (simp add: calls_ok_def claim_sound_def arm_init_def iterations_def)

text \<open>
  The last object of a reply is found whole: behind prose without braces, what is returned is the object the
  decoder reads there, whatever is nested in it, if no further brace follows it.
\<close>

theorem last_json_whole:
  assumes "CHR ''{'' \<notin> set prose" and "CHR ''{'' \<notin> set rest" and "obj \<noteq> []" and "hd obj = CHR ''{''"
    and "raw_decode (obj @ rest) = Some (PDict d, length obj)"
  shows "extract_last_json raw_decode (prose @ obj @ rest) = Some d"
proof -
  obtain o' where obj: "obj = CHR ''{'' # o'" using assms(3,4) by (cases obj) auto
  have "find_at ''{'' (prose @ obj @ rest) = Some (length prose)"
    using assms(1) by (induction prose) (auto simp: obj)
  moreover have "find_at ''{'' rest = None" using assms(2) by (induction rest) auto
  moreover have "max 1 (length obj) = length obj" by (simp add: obj)
  ultimately show ?thesis
    using assms(5) by (simp add: extract_last_json_def last_json.simps [of _ _ "prose @ obj @ rest"] last_json.simps [of _ _ rest])
qed

section \<open>Witnesses\<close>

definition claim_reply :: chat_reply where
  "claim_reply = \<lparr>cr_content = PStr ''CLAIM: SUCCESS'', cr_prompt_tokens = 1, cr_completion_tokens = 1,
     cr_message = PDict [(''tool_calls'', PNone)]\<rparr>"

definition claimed_run :: arm_result where
  "claimed_run = \<lparr>ar_turns = [\<lparr>tn_iteration = 1, tn_kind = ''claim'', tn_content = ''CLAIM: SUCCESS'', tn_observation = [], tn_ok = True\<rparr>],
     ar_claimed = Some ''SUCCESS'', ar_claim_iteration = Some 1, ar_tokens_in = 1, ar_tokens_out = 1, ar_timed_out = False\<rparr>"

lemma bare_claims:
  "bare_run 2 [\<lparr>bb_late = False, bb_reply = Inr claim_reply, bb_write = None, bb_script = Killed []\<rparr>] = Some (Inr claimed_run)"
  by code_simp

lemma bare_arm_protocol_witness: "iterations claimed_run \<le> 2 \<and> tn_kind (last (ar_turns claimed_run)) = ''claim''"
  using bare_arm_protocol [OF bare_claims] by (simp add: claimed_run_def)

definition demo_json :: json_world where
  "demo_json = \<lparr>jw_loads = (\<lambda>_. None), jw_dumps = (\<lambda>_. ''j''), jw_decode = (\<lambda>_. None), jw_str = (\<lambda>_. [])\<rparr>"

definition demo_wire :: wire where
  "demo_wire = \<lparr>wi_sends = [None], wi_events = [Arrives (PDict [(''id'', PInt 1), (''result'', PDict [(''tools'', PList [])])])], wi_next_id = 0\<rparr>"

lemma mcp_claims:
  "mcp_run demo_json [''serial''] 2 (Inr demo_wire) [\<lparr>mo_late = False, mo_reply = Inr claim_reply\<rparr>] = Some (Inr claimed_run)"
  by code_simp


definition native_claim :: pyval where
  "native_claim = PDict [(''function'', PDict [(''name'', PStr ''claim''), (''arguments'', PDict [(''verdict'', PStr ''fail'')])])]"

lemma native_calls_all_made_witness:
  "\<exists>r. tool_calls demo_json 1 [native_claim, native_claim] demo_wire arm_init False = Some (demo_wire, Inr (True, r)) \<and> iterations r = 2"
proof -
  have "\<exists>r. tool_calls demo_json 1 [native_claim, native_claim] demo_wire arm_init False = Some (demo_wire, Inr (True, r))"
    by (simp add: native_claim_def call_parts_def bind_sum_def get_of_def get_default_def get_or_def py_or_def
        text_of_def parse_tool_arguments_def)
  then obtain r where r: "tool_calls demo_json 1 [native_claim, native_claim] demo_wire arm_init False = Some (demo_wire, Inr (True, r))" ..
  with native_calls_all_made [OF r] show ?thesis by auto
qed

lemma last_json_whole_witness:
  "extract_last_json (\<lambda>s. Some (PDict [(''a'', PInt 1)], 7)) (''so: '' @ ''{\"a\":1}'' @ ''.'') = Some [(''a'', PInt 1)]"
  by (rule last_json_whole) simp_all

end
