(* ===== verification/OpsJudge.thy ===== *)
theory OpsJudge
  imports OpsArms
begin

text \<open>
  The state judge (\<open>src/ironbench/ops_judge.py\<close>). What the board prints, the bytes it returns and the messages of
  the broker are observations of each check; \<open>ast.literal_eval\<close>, \<open>json.loads\<close>, \<open>re.search\<close> and \<open>str\<close> are
  parameters. The details are the texts of the code with their values.
\<close>

section \<open>Reports\<close>

record check_outcome =
  co_kind :: string
  co_passed :: bool
  co_detail :: pyval

record judge_report =
  jr_passed :: bool
  jr_outcomes :: "check_outcome list"

definition outcome :: "string \<Rightarrow> bool \<Rightarrow> pyval list \<Rightarrow> exn + check_outcome" where
  "outcome kind ok vs = Inr \<lparr>co_kind = kind, co_passed = ok, co_detail = PFStr vs\<rparr>"

definition failed_outcomes :: "judge_report \<Rightarrow> check_outcome list" where
  "failed_outcomes r = filter (\<lambda>c. \<not> co_passed c) (jr_outcomes r)"

section \<open>Reading the board\<close>

definition CHECK_TEXT_CAP :: nat where "CHECK_TEXT_CAP = 262144"

text \<open>The decoded reads before the deadline.\<close>

fun collect_text :: "string list \<Rightarrow> string \<Rightarrow> string list \<Rightarrow> string" where
  "collect_text stop_at seen [] = seen"
| "collect_text stop_at seen (d # ds) =
     (if d = [] then collect_text stop_at seen ds
      else let t = seen @ d in
        if length t \<ge> CHECK_TEXT_CAP then take CHECK_TEXT_CAP t
        else if stop_at \<noteq> [] \<and> list_all (\<lambda>l. occurs l t) stop_at then t
        else collect_text stop_at t ds)"

definition REPL_MARKER :: string where "REPL_MARKER = ''JUDGE-OK''"

fun echo_text :: "string \<Rightarrow> string list \<Rightarrow> string" where
  "echo_text seen [] = seen"
| "echo_text seen (d # ds) =
     (if d = [] then echo_text seen ds
      else if occurs REPL_MARKER (seen @ d) then seen @ d else echo_text (seen @ d) ds)"

text \<open>\<open>re.findall\<close> of a bracket without brackets inside.\<close>

fun bracket_end :: "string \<Rightarrow> nat option" where
  "bracket_end [] = None"
| "bracket_end (c # cs) =
     (if c = CHR '']'' then Some 0 else if c = CHR ''['' then None else map_option Suc (bracket_end cs))"

lemma bracket_end_bound: "bracket_end s = Some n \<Longrightarrow> n < length s"
  by (induction s arbitrary: n) (auto split: if_splits)

function inner_brackets :: "string \<Rightarrow> string list" where
  "inner_brackets [] = []"
| "inner_brackets (c # cs) =
     (if c = CHR ''['' then
        (case bracket_end cs of
           Some n \<Rightarrow> (c # take (n + 1) cs) # inner_brackets (drop (n + 1) cs)
         | None \<Rightarrow> inner_brackets cs)
      else inner_brackets cs)"
  by pat_completeness auto
termination by (relation "measure length") auto

text \<open>\<open>lstrip\<close> of the prompt characters.\<close>

definition cleaned :: "string \<Rightarrow> string" where
  "cleaned s = strip (dropWhile (\<lambda>c. c = CHR ''>'') (strip s))"

definition parse_brackets :: "(string \<Rightarrow> pyval option) \<Rightarrow> string \<Rightarrow> exn + pyval list" where
  "parse_brackets literal_eval seen =
     (case List.map_filter (\<lambda>c. case literal_eval c of Some (PList xs) \<Rightarrow> Some xs | _ \<Rightarrow> None)
         (cleaned seen # rev (inner_brackets seen)) of
        xs # _ \<Rightarrow> Inr xs
      | [] \<Rightarrow> Inl (verr ''no parsable list in board output'' []))"

section \<open>The checks\<close>

text \<open>What a check meets: the reads of the boot, an exception of the link, the reads after the probe, the file it
  got back, the two answers of the buses, the address in the environment, the connection to the broker and its
  payloads.\<close>

record check_obs =
  ck_reads :: "exn + string list"
  ck_echo :: "exn + string list"
  ck_file :: "exn + string"
  ck_i2c :: "exn + string"
  ck_onewire :: "exn + string"
  ck_env_host :: string
  ck_env_port :: string
  ck_broker :: "exn option"
  ck_payloads :: "exn + string list"

record judge_world =
  jd_literal :: "string \<Rightarrow> pyval option"
  jd_loads :: "string \<Rightarrow> pyval option"
  jd_search :: "string \<Rightarrow> string \<Rightarrow> bool"
  jd_str :: "pyval \<Rightarrow> string"
  jd_transcript :: string
  jd_assets :: "string \<rightharpoonup> string"

definition check_boot_expect :: "judge_world \<Rightarrow> fields \<Rightarrow> check_obs \<Rightarrow> exn + check_outcome" where
  "check_boot_expect jd p ob =
     bind_sum (items_of (get_or p ''literals'' (PList []))) (\<lambda>xs.
     bind_sum (ck_reads ob) (\<lambda>reads.
     let literals = map (text_of (jd_str jd)) xs; out = collect_text literals [] reads;
         missing = filter (\<lambda>l. \<not> occurs l out) literals in
     if missing \<noteq> [] then outcome ''boot_expect'' False [PStr ''boot output misses '', PList (map PStr missing)]
     else if truthy (get_or p ''repl_echo'' PNone) then
       bind_sum (ck_echo ob) (\<lambda>echo.
         if occurs REPL_MARKER (echo_text [] echo) then outcome ''boot_expect'' True [PStr ''all present'']
         else outcome ''boot_expect'' False [PStr ''board did not execute the REPL probe (no interactive shell?)''])
     else outcome ''boot_expect'' True [PStr ''all present'']))"

text \<open>The bytes of an asset come from the file system at the time; here they are part of the world.\<close>

definition check_device_file_on :: "judge_world \<Rightarrow> fields \<Rightarrow> check_obs \<Rightarrow> exn + check_outcome" where
  "check_device_file_on jd p ob =
     (case map_of p ''path'' of
        None \<Rightarrow> Inl (Exn KeyErr (PStr ''path''))
      | Some path \<Rightarrow>
          (case ck_file ob of
             Inl e \<Rightarrow>
               if catches [MpReplError] e then outcome ''device_file'' False [path, PStr '': board refused: '', exn_str e] else Inl e
           | Inr content \<Rightarrow>
               (case map_of p ''asset'' of
                  Some a \<Rightarrow>
                    (case jd_assets jd (text_of (jd_str jd) a) of
                       None \<Rightarrow> outcome ''device_file'' False [PStr ''asset unresolved: '', PRepr a]
                     | Some golden \<Rightarrow>
                         if content \<noteq> golden then outcome ''device_file'' False [path, PStr '': content mismatch'']
                         else outcome ''device_file'' True [path, PStr '' matches the golden bytes''])
                | None \<Rightarrow>
                    (let pattern = text_of (jd_str jd) (get_or p ''contains'' (PStr [])) in
                     if jd_search jd pattern content then outcome ''device_file'' True [path, PStr '' matches '', PRepr (PStr pattern)]
                     else outcome ''device_file'' False [path, PStr '': no match for '', PRepr (PStr pattern)]))))"

text \<open>\<open>int()\<close> of the pins is done before the bus is touched.\<close>

definition scan_bus :: "judge_world \<Rightarrow> fields \<Rightarrow> check_obs \<Rightarrow> exn + pyval list \<times> pyval list" where
  "scan_bus jd p ob =
     bind_sum (int_of (get_or p ''i2c_scl'' (PInt 22))) (\<lambda>_.
     bind_sum (int_of (get_or p ''i2c_sda'' (PInt 21))) (\<lambda>_.
     bind_sum (int_of (get_or p ''onewire_pin'' (PInt 4))) (\<lambda>_.
     bind_sum (ck_i2c ob) (\<lambda>i_out.
     bind_sum (parse_brackets (jd_literal jd) i_out) (\<lambda>i2c.
     bind_sum (ck_onewire ob) (\<lambda>o_out.
     bind_sum (parse_brackets (jd_literal jd) o_out) (\<lambda>onewire. Inr (i2c, onewire))))))))"

fun ints_of :: "pyval list \<Rightarrow> exn + int list" where
  "ints_of [] = Inr []"
| "ints_of (v # vs) = bind_sum (int_of v) (\<lambda>i. bind_sum (ints_of vs) (\<lambda>is. Inr (i # is)))"

text \<open>\<open>sorted(scan) == ints\<close>; a scan that is no list of integers is equal to none, or raises, which fails the check
  too.\<close>

definition scan_is :: "pyval list \<Rightarrow> int list \<Rightarrow> bool" where
  "scan_is scan is = (those (map (\<lambda>v. case v of PInt i \<Rightarrow> Some i | _ \<Rightarrow> None) scan) \<noteq> None \<and>
     sort (List.map_filter (\<lambda>v. case v of PInt i \<Rightarrow> Some i | _ \<Rightarrow> None) scan) = sort is)"

text \<open>\<open>onewire[0][0]\<close>.\<close>

definition first_rom_byte :: "pyval list \<Rightarrow> exn + pyval" where
  "first_rom_byte onewire = (case onewire of [] \<Rightarrow> Inr PNone | rom # _ \<Rightarrow> first_of rom)"

text \<open>Equality of values as Python compares them, for numbers and strings.\<close>

definition py_equal :: "pyval \<Rightarrow> pyval \<Rightarrow> bool" where
  "py_equal a b = (a = b \<or> num_val a \<noteq> None \<and> num_val a \<noteq> Some NaN \<and> num_val a = num_val b)"

definition check_bus_scan_on :: "judge_world \<Rightarrow> fields \<Rightarrow> check_obs \<Rightarrow> exn + check_outcome" where
  "check_bus_scan_on jd p ob =
     bind_sum (scan_bus jd p ob) (\<lambda>(i2c, onewire).
     bind_sum (case map_of p ''i2c_expected'' of
         None \<Rightarrow> Inr None | Some v \<Rightarrow> bind_sum (items_of v) (\<lambda>xs. map_sum id Some (ints_of xs))) (\<lambda>expected.
     if (case expected of Some is \<Rightarrow> \<not> scan_is i2c is | None \<Rightarrow> False)
     then outcome ''bus_scan'' False [PStr ''i2c differs from expected'', PList i2c]
     else
       bind_sum (case map_of p ''onewire_family'' of None \<Rightarrow> Inr None | Some v \<Rightarrow> map_sum id Some (int_of v)) (\<lambda>family.
       (case family of
          None \<Rightarrow> outcome ''bus_scan'' True [PList i2c, PList onewire]
        | Some f \<Rightarrow>
            bind_sum (first_rom_byte onewire) (\<lambda>b.
              if onewire = [] \<or> \<not> py_equal b (PInt f)
              then outcome ''bus_scan'' False [PStr ''onewire family not found'', PInt f]
              else outcome ''bus_scan'' True [PList i2c, PList onewire])))))"

text \<open>The object after a marker: white space, then a brace to the last closing brace of the line.\<close>

definition inventory_at :: "string \<Rightarrow> string option" where
  "inventory_at s =
     (if prefix ''INVENTORY:'' s then
        (let r = dropWhile py_space (drop 10 s); line = takeWhile (\<lambda>c. c \<noteq> ch 10) r in
         if prefix ''{'' line \<and> CHR ''}'' \<in> set line
         then Some (rev (dropWhile (\<lambda>c. c \<noteq> CHR ''}'') (rev line))) else None)
      else None)"

text \<open>The matches in their order; a match cannot start inside another one's marker, and one inside an object's line is
  skipped with it.\<close>

function inventories :: "string \<Rightarrow> string list" where
  "inventories [] = []"
| "inventories (c # cs) =
     (case inventory_at (c # cs) of
        Some obj \<Rightarrow> obj # inventories (drop (length obj + length (takeWhile py_space (drop 10 (c # cs))) + 9) cs)
      | None \<Rightarrow> inventories cs)"
  by pat_completeness auto
termination by (relation "measure length") auto

definition inventory_problems :: "fields \<Rightarrow> fields \<Rightarrow> pyval list \<Rightarrow> pyval list \<Rightarrow> exn + pyval list" where
  "inventory_problems p reported i2c onewire =
     bind_sum
       (if truthy (get_or p ''i2c'' (PBool True)) then
          (case get_or reported ''i2c'' PNone of
             PList got \<Rightarrow> bind_sum (ints_of got) (\<lambda>is. Inr (if scan_is i2c is then [] else [PStr ''i2c differs'']))
           | _ \<Rightarrow> Inr [PStr ''i2c differs''])
        else Inr []) (\<lambda>ps.
     bind_sum
       (if truthy (get_or p ''onewire'' (PBool False)) then
          bind_sum (first_rom_byte onewire) (\<lambda>actual.
            Inr (if py_equal (get_or reported ''onewire_family'' PNone) actual then [] else [PStr ''onewire_family differs'']))
        else Inr []) (\<lambda>qs. Inr (ps @ qs)))"

definition check_inventory_match :: "judge_world \<Rightarrow> fields \<Rightarrow> check_obs \<Rightarrow> exn + check_outcome" where
  "check_inventory_match jd p ob =
     (case rev (inventories (jd_transcript jd)) of
        [] \<Rightarrow> outcome ''inventory_match'' False [PStr ''transcript has no INVENTORY: {...} line'']
      | last_one # _ \<Rightarrow>
          (case jd_loads jd last_one of
             None \<Rightarrow> outcome ''inventory_match'' False [PStr ''INVENTORY is not JSON'']
           | Some (PDict reported) \<Rightarrow>
               bind_sum (scan_bus jd p ob) (\<lambda>(i2c, onewire).
               bind_sum (inventory_problems p reported i2c onewire) (\<lambda>problems.
                 if problems \<noteq> [] then outcome ''inventory_match'' False problems
                 else outcome ''inventory_match'' True [PStr ''reported inventory matches the bus'']))
           | Some _ \<Rightarrow> outcome ''inventory_match'' False [PStr ''INVENTORY must be a JSON object'']))"

text \<open>The payloads are those that come before the deadline.\<close>

definition check_mqtt_collect_on :: "judge_world \<Rightarrow> fields \<Rightarrow> check_obs \<Rightarrow> exn + check_outcome" where
  "check_mqtt_collect_on jd p ob =
     (let host = py_or (get_or p ''host'' PNone) (PStr (ck_env_host ob));
          port = py_or (get_or p ''port'' PNone) (PStr (ck_env_port ob)) in
      if \<not> truthy host \<or> \<not> truthy port
      then Inl (verr ''mqtt_collect: host/port params or OPS_AB_MQTT_HOST/PORT required'' [])
      else case map_of p ''expect_regex'' of
        None \<Rightarrow> Inl (Exn KeyErr (PStr ''expect_regex''))
      | Some pattern \<Rightarrow>
          bind_sum (int_of port) (\<lambda>_.
          (case ck_broker ob of
             Some e \<Rightarrow> Inl e
           | None \<Rightarrow>
               bind_sum (ck_payloads ob) (\<lambda>ps.
                 if list_ex (jd_search jd (text_of (jd_str jd) pattern)) ps
                 then outcome ''mqtt_collect'' True [PStr ''matched'']
                 else outcome ''mqtt_collect'' False [PInt (int (length ps)), PStr '' message(s), none matched'']))))"

text \<open>The check of a kind; another kind has no method, which is outside the containment.\<close>

definition run_check :: "judge_world \<Rightarrow> ops_check \<Rightarrow> check_obs \<Rightarrow> (exn + check_outcome) option" where
  "run_check jd c ob =
     (case c of (kind, p) \<Rightarrow>
       if kind = ''boot_expect'' then Some (check_boot_expect jd p ob)
       else if kind = ''device_file'' then Some (check_device_file_on jd p ob)
       else if kind = ''bus_scan'' then Some (check_bus_scan_on jd p ob)
       else if kind = ''inventory_match'' then Some (check_inventory_match jd p ob)
       else if kind = ''mqtt_collect'' then Some (check_mqtt_collect_on jd p ob)
       else None)"

definition contain_error :: "string \<Rightarrow> exn + check_outcome \<Rightarrow> check_outcome" where
  "contain_error kind r =
     (case r of
        Inr c \<Rightarrow> c
      | Inl e \<Rightarrow> \<lparr>co_kind = kind, co_passed = False, co_detail = PFStr [PStr ''judge error: '', exn_str e]\<rparr>)"

text \<open>The checks with what each meets; \<open>None\<close> is the \<open>AttributeError\<close> of an unknown kind.\<close>

definition run_checks :: "judge_world \<Rightarrow> (ops_check \<times> check_obs) list \<Rightarrow> judge_report option" where
  "run_checks jd cs =
     (case those (map (\<lambda>(c, ob). map_option (contain_error (fst c)) (run_check jd c ob)) cs) of
        None \<Rightarrow> None
      | Some os \<Rightarrow> Some \<lparr>jr_passed = list_all co_passed os, jr_outcomes = os\<rparr>)"

section \<open>What a verdict means\<close>

lemma those_all_Some:
  "those xs = Some ys \<longleftrightarrow> xs = map Some ys"
proof (induction xs arbitrary: ys)
  case (Cons x xs)
  then show ?case by (cases x; cases ys) (auto split: option.splits)
qed auto

lemma those_None: "those xs = None \<longleftrightarrow> None \<in> set xs"
  by (induction xs) (auto split: option.splits)

lemma contain_error_passed: "co_passed (contain_error kind r) \<longleftrightarrow> (\<exists>co. r = Inr co \<and> co_passed co)"
  by (cases r) (simp_all add: contain_error_def)

lemma run_checks_outcomes:
  assumes "run_checks jd cs = Some r"
  shows "map (\<lambda>(c, ob). map_option (contain_error (fst c)) (run_check jd c ob)) cs = map Some (jr_outcomes r) \<and>
    (jr_passed r \<longleftrightarrow> list_all co_passed (jr_outcomes r))"
  using assms by (auto simp: run_checks_def those_all_Some split: option.splits)

lemma run_checks_exact:
  assumes "run_checks jd cs = Some r"
  shows "length (jr_outcomes r) = length cs \<and>
    (jr_passed r \<longleftrightarrow> (\<forall>(c, ob) \<in> set cs. \<exists>co. run_check jd c ob = Some (Inr co) \<and> co_passed co))"
proof -
  note out = run_checks_outcomes [OF assms]
  from arg_cong [OF conjunct1 [OF out], of length] have len: "length (jr_outcomes r) = length cs" by simp
  have one: "map_option (contain_error (fst c)) (run_check jd c ob) = Some co' \<Longrightarrow>
      co_passed co' \<longleftrightarrow> (\<exists>co. run_check jd c ob = Some (Inr co) \<and> co_passed co)" for c ob co'
    by (auto simp: contain_error_passed)
  have "list_all co_passed os \<longleftrightarrow> (\<forall>(c, ob) \<in> set cs. \<exists>co. run_check jd c ob = Some (Inr co) \<and> co_passed co)"
    if "map (\<lambda>(c, ob). map_option (contain_error (fst c)) (run_check jd c ob)) cs = map Some os" for os
    using that
  proof (induction cs arbitrary: os)
    case (Cons x cs)
    then obtain o1 os' where os: "os = o1 # os'" by (cases os) auto
    obtain c ob where x: "x = (c, ob)" by (cases x)
    from Cons.prems have "map_option (contain_error (fst c)) (run_check jd c ob) = Some o1"
      "map (\<lambda>(c, ob). map_option (contain_error (fst c)) (run_check jd c ob)) cs = map Some os'" by (simp_all add: os x)
    with one [of c ob o1] Cons.IH [of os'] show ?case by (simp add: os x)
  qed simp
  with out len show ?thesis by blast
qed

lemma run_checks_passed:
  "run_checks jd cs = Some r \<Longrightarrow> jr_passed r \<Longrightarrow> (c, ob) \<in> set cs \<Longrightarrow>
   \<exists>co. run_check jd c ob = Some (Inr co) \<and> co_passed co"
  using run_checks_exact [of jd cs r] by blast


text \<open>
  The judge always reaches a verdict on a task that loaded, whatever the board does, and a pass has evidence: at
  least one check ran and passed.
\<close>

theorem loaded_task_judged:
  assumes "load_ops_task exists v = Inr t" and "map fst cs = op_judge t"
  shows "\<exists>r. run_checks jd cs = Some r \<and>
    (jr_passed r \<longrightarrow> (\<exists>(c, ob) \<in> set cs. \<exists>co. run_check jd c ob = Some (Inr co) \<and> co_passed co))"
proof -
  note wf = loaded_ops_task [OF assms(1)]
  have known: "run_check jd c ob \<noteq> None" if "kind_keys CHECK_KINDS c" for c ob
    using that by (cases c) (auto simp: kind_keys_def CHECK_KINDS_def run_check_def split: if_splits)
  have "\<forall>x \<in> set cs. map_option (contain_error (fst (fst x))) (run_check jd (fst x) (snd x)) \<noteq> None"
  proof
    fix x assume "x \<in> set cs"
    then have "fst x \<in> set (op_judge t)" using assms(2) by (metis imageI set_map)
    with wf known show "map_option (contain_error (fst (fst x))) (run_check jd (fst x) (snd x)) \<noteq> None" by blast
  qed
  then have "None \<notin> set (map (\<lambda>(c, ob). map_option (contain_error (fst c)) (run_check jd c ob)) cs)"
    by (auto simp: split_def)
  then have "those (map (\<lambda>(c, ob). map_option (contain_error (fst c)) (run_check jd c ob)) cs) \<noteq> None"
    unfolding those_None .
  then obtain r where r: "run_checks jd cs = Some r" by (auto simp: run_checks_def)
  have "cs \<noteq> []" using wf assms(2) by auto
  then obtain x where x: "x \<in> set cs" by (cases cs) auto
  have "list_all co_passed (jr_outcomes r) \<Longrightarrow> \<exists>co. run_check jd (fst x) (snd x) = Some (Inr co) \<and> co_passed co"
  proof -
    assume ok: "list_all co_passed (jr_outcomes r)"
    have "map_option (contain_error (fst (fst x))) (run_check jd (fst x) (snd x)) \<in> set (map Some (jr_outcomes r))"
      unfolding conjunct1 [OF run_checks_outcomes [OF r], symmetric] using x by (force simp: split_def)
    with ok show ?thesis by (auto simp: list_all_iff contain_error_passed dest!: bspec)
  qed
  with r x run_checks_outcomes [OF r] show ?thesis by (auto simp: split_def intro!: bexI [of _ x])
qed

lemma collect_text_prefix: "prefix (collect_text stop_at seen ds) (seen @ concat ds)"
proof (induction ds arbitrary: seen)
  case (Cons d ds)
  have "prefix (seen @ d) (seen @ concat (d # ds))" by simp
  moreover have "prefix (take CHECK_TEXT_CAP (seen @ d)) (seen @ d)" by (rule take_is_prefix)
  ultimately have "prefix (take CHECK_TEXT_CAP (seen @ d)) (seen @ concat (d # ds))" by (rule prefix_order.trans [rotated])
  with Cons.IH [of "seen @ d"] Cons.IH [of seen] show ?case by (auto simp: Let_def)
qed simp

lemma collect_text_bound: "length seen \<le> CHECK_TEXT_CAP \<Longrightarrow> length (collect_text stop_at seen ds) \<le> CHECK_TEXT_CAP"
  by (induction ds arbitrary: seen) (auto simp: Let_def)

lemma echo_text_prefix: "prefix (echo_text seen ds) (seen @ concat ds)"
proof (induction ds arbitrary: seen)
  case (Cons d ds)
  from Cons.IH [of "seen @ d"] Cons.IH [of seen] show ?case by auto
qed simp

lemma occurs_prefix: "occurs n s \<Longrightarrow> prefix s t \<Longrightarrow> occurs n t"
  unfolding occurs_iff prefix_def by (metis append.assoc)

lemma boot_check_needs_output':
  assumes "check_boot_expect jd p ob = Inr co" and "co_passed co"
  shows "\<exists>xs reads. items_of (get_or p ''literals'' (PList [])) = Inr xs \<and> ck_reads ob = Inr reads \<and>
    (\<forall>x \<in> set xs. occurs (text_of (jd_str jd) x) (concat reads)) \<and>
    (truthy (get_or p ''repl_echo'' PNone) \<longrightarrow> (\<exists>echo. ck_echo ob = Inr echo \<and> occurs REPL_MARKER (concat echo)))"
proof -
  from assms(1) obtain xs reads where xs: "items_of (get_or p ''literals'' (PList [])) = Inr xs" "ck_reads ob = Inr reads"
    by (auto simp: check_boot_expect_def bind_sum_def split: sum.splits)
  let ?ls = "map (text_of (jd_str jd)) xs"
  have all: "filter (\<lambda>l. \<not> occurs l (collect_text ?ls [] reads)) ?ls = []"
    using assms xs by (auto simp: check_boot_expect_def bind_sum_def Let_def outcome_def split: if_splits)
  have "occurs (text_of (jd_str jd) x) (concat reads)" if "x \<in> set xs" for x
  proof (rule occurs_prefix)
    from all that show "occurs (text_of (jd_str jd) x) (collect_text ?ls [] reads)"
      unfolding filter_empty_conv by auto
    show "prefix (collect_text ?ls [] reads) (concat reads)" using collect_text_prefix [of ?ls "[]" reads] by simp
  qed
  moreover have "\<exists>echo. ck_echo ob = Inr echo \<and> occurs REPL_MARKER (concat echo)" if "truthy (get_or p ''repl_echo'' PNone)"
  proof -
    from that assms xs all obtain echo where e: "ck_echo ob = Inr echo" "occurs REPL_MARKER (echo_text [] echo)"
      by (auto simp: check_boot_expect_def bind_sum_def Let_def outcome_def split: if_splits sum.splits)
    with echo_text_prefix [of "[]" echo] occurs_prefix show ?thesis by auto
  qed
  ultimately show ?thesis using xs by blast
qed

text \<open>
  C1. A boot check cannot be passed by words: it passes only if the board itself printed every literal after the
  reset, and, where an echo is asked for, printed the marker, which the probe does not contain.
\<close>

theorem boot_check_needs_output:
  assumes "check_boot_expect jd p ob = Inr co" and "co_passed co"
  shows "\<exists>xs reads. items_of (get_or p ''literals'' (PList [])) = Inr xs \<and> ck_reads ob = Inr reads \<and>
    (\<forall>x \<in> set xs. occurs (text_of (jd_str jd) x) (concat reads)) \<and>
    (truthy (get_or p ''repl_echo'' PNone) \<longrightarrow> (\<exists>echo. ck_echo ob = Inr echo \<and> occurs REPL_MARKER (concat echo)))"
  using boot_check_needs_output' [OF assms] .

text \<open>
  A file check against an asset passes only if the board returned exactly the golden bytes.
\<close>

theorem device_file_golden:
  assumes "check_device_file_on jd p ob = Inr co" and "co_passed co" and "map_of p ''asset'' = Some (PStr a)"
  shows "\<exists>golden. jd_assets jd a = Some golden \<and> ck_file ob = Inr golden"
  using assms
  by (auto simp: check_device_file_on_def outcome_def text_of_def split: option.splits sum.splits if_splits)

text \<open>
  An inventory check that asks for the OneWire family alone is failed by the very answer it asks for: the loader
  takes a missing i2c as false, the judge as true, so a report without i2c is a problem on any bus.
\<close>

theorem onewire_only_demands_i2c:
  assumes "p = [(''onewire'', PBool True)]" and "reported = [(''onewire_family'', PInt f)]"
  shows "check_inventory p = None \<and>
    (\<forall>i2c onewire ps. inventory_problems p reported i2c onewire = Inr ps \<longrightarrow> ps \<noteq> [])"
  by (simp add: assms check_inventory_def check_pins_def when_key_def get_or_def is_bool_def
      inventory_problems_def bind_sum_def split: sum.splits)

section \<open>Witnesses\<close>

definition demo_judge :: judge_world where
  "demo_judge = \<lparr>jd_literal = (\<lambda>_. Some (PList [])), jd_loads = (\<lambda>_. None), jd_search = (\<lambda>_ _. False), jd_str = (\<lambda>_. []),
     jd_transcript = [], jd_assets = [''fw'' \<mapsto> ''D'']\<rparr>"

definition demo_check :: check_obs where
  "demo_check = \<lparr>ck_reads = Inr [''M''], ck_echo = Inr [], ck_file = Inr ''D'', ck_i2c = Inr [], ck_onewire = Inr [], ck_env_host = [],
     ck_env_port = [], ck_broker = None, ck_payloads = Inr []\<rparr>"

lemma demo_boot:
  "check_boot_expect demo_judge [(''literals'', PList [PStr ''M''])] demo_check =
     Inr \<lparr>co_kind = ''boot_expect'', co_passed = True, co_detail = PFStr [PStr ''all present'']\<rparr>"
proof -
  have "collect_text [''M''] [] [''M''] = ''M''" by (simp add: CHECK_TEXT_CAP_def occurs_def)
  then show ?thesis
    by (simp add: check_boot_expect_def demo_judge_def demo_check_def bind_sum_def get_or_def items_of_def text_of_def
        outcome_def Let_def occurs_def del: collect_text.simps)
qed

lemma demo_report:
  "run_checks demo_judge [((''boot_expect'', [(''literals'', PList [PStr ''M''])]), demo_check)] =
     Some \<lparr>jr_passed = True, jr_outcomes = [\<lparr>co_kind = ''boot_expect'', co_passed = True, co_detail = PFStr [PStr ''all present'']\<rparr>]\<rparr>"
  by (simp add: run_checks_def run_check_def demo_boot contain_error_def)


lemma loaded_task_judged_witness: "\<exists>r. run_checks demo_judge [((''boot_expect'', [(''literals'', PList [PStr ''M''])]), demo_check)] = Some r"
  using loaded_task_judged [OF demo_loads(1), of "[((''boot_expect'', [(''literals'', PList [PStr ''M''])]), demo_check)]" demo_judge]
  by (auto simp: demo_ops_def)

lemma boot_check_needs_output_witness: "\<exists>reads. ck_reads demo_check = Inr reads \<and> occurs ''M'' (concat reads)"
  using boot_check_needs_output [OF demo_boot] by (auto simp: get_or_def items_of_def text_of_def)

lemma device_file_golden_witness: "\<exists>golden. jd_assets demo_judge ''fw'' = Some golden \<and> ck_file demo_check = Inr golden"
proof -
  have "check_device_file_on demo_judge [(''path'', PStr ''/m''), (''asset'', PStr ''fw'')] demo_check =
      Inr \<lparr>co_kind = ''device_file'', co_passed = True, co_detail = PFStr [PStr ''/m'', PStr '' matches the golden bytes'']\<rparr>"
    by (simp add: check_device_file_on_def demo_check_def demo_judge_def text_of_def outcome_def)
  from device_file_golden [OF this] show ?thesis by simp
qed

lemma onewire_only_demands_i2c_witness:
  "check_inventory [(''onewire'', PBool True)] = None \<and>
   inventory_problems [(''onewire'', PBool True)] [(''onewire_family'', PInt 40)] [] [PList [PInt 40]] = Inr [PStr ''i2c differs'']"
proof -
  have "inventory_problems [(''onewire'', PBool True)] [(''onewire_family'', PInt 40)] [] [PList [PInt 40]] = Inr [PStr ''i2c differs'']"
    by (simp add: inventory_problems_def get_or_def bind_sum_def first_rom_byte_def first_of_def py_equal_def)
  with onewire_only_demands_i2c [OF refl refl, of 40] show ?thesis by blast
qed

end
