(* ===== verification/OpsRun.thy ===== *)
theory OpsRun
  imports OpsJudge OpsAssets
begin

text \<open>
  One attempt of the ops experiment (\<open>src/ironbench/ops_run.py\<close>): preflight, seeded setup, the arm, the judge,
  the metrics and the restore. What the board, the flasher and the link do in a step is an observation; the pattern of
  boot evidence and the counting of operations in scripts are parameters. Writing artifacts is not modelled.
\<close>

section \<open>Preflight\<close>

definition keep_last :: "nat \<Rightarrow> 'a list \<Rightarrow> 'a list" where
  "keep_last n xs = drop (length xs - n) xs"

definition ops_preflight :: "(string \<Rightarrow> bool) \<Rightarrow> exn + string list \<Rightarrow> exn + string" where
  "ops_preflight evidence reads =
     (case reads of
        Inl e \<Rightarrow>
          if catches [OSErr, RuntimeErr] e
          then Inl (Exn ConnectionErr (PFStr [PStr ''preflight transport failure: '', exn_str e])) else Inl e
      | Inr ds \<Rightarrow>
          if evidence (concat ds) then Inr (keep_last 2000 (concat ds))
          else Inl (Exn ConnectionErr (PStr ''port shows no boot evidence'')))"

section \<open>Setup and restore\<close>

text \<open>What a step meets: the exception of reading the asset or opening the link, that of the operation, and the
  length of the data.\<close>

record step_obs =
  so_open :: "exn option"
  so_do :: "exn option"
  so_length :: nat

definition param_text :: "(pyval \<Rightarrow> string) \<Rightarrow> fields \<Rightarrow> string \<Rightarrow> exn + string" where
  "param_text str_of p k = (case map_of p k of Some v \<Rightarrow> Inr (text_of str_of v) | None \<Rightarrow> Inl (Exn KeyErr (PStr k)))"

definition asset_path :: "(pyval \<Rightarrow> string) \<Rightarrow> (string \<rightharpoonup> string) \<Rightarrow> fields \<Rightarrow> exn + string" where
  "asset_path str_of assets p =
     bind_sum (param_text str_of p ''asset'') (\<lambda>n.
       case assets n of Some path \<Rightarrow> Inr path | None \<Rightarrow> Inl (Exn KeyErr (PStr n)))"

definition after :: "exn option \<Rightarrow> exn + 'a \<Rightarrow> exn + 'a" where
  "after e r = (case e of Some x \<Rightarrow> Inl x | None \<Rightarrow> r)"

text \<open>A file that is not there is as good as removed.\<close>

definition run_step ::
  "(pyval \<Rightarrow> string) \<Rightarrow> (exn \<Rightarrow> string) \<Rightarrow> (string \<rightharpoonup> string) \<Rightarrow> ops_step \<Rightarrow> step_obs \<Rightarrow> exn + pyval" where
  "run_step str_of exn_text assets s ob =
     (case s of (kind, p) \<Rightarrow>
       if kind = ''wipe_flash'' then after (so_do ob) (Inr (PStr ''flash erased''))
       else if kind = ''flash_asset'' then
         bind_sum (asset_path str_of assets p) (\<lambda>path. after (so_do ob) (Inr (PFStr [PStr ''flashed '', PStr path])))
       else if kind = ''deploy_file'' then
         bind_sum (asset_path str_of assets p) (\<lambda>_.
           after (so_open ob)
             (bind_sum (param_text str_of p ''target'') (\<lambda>target.
               after (so_do ob) (Inr (PFStr [PStr ''deployed '', PStr target, PInt (int (so_length ob))])))))
       else if kind = ''remove_file'' then
         after (so_open ob)
           (bind_sum (param_text str_of p ''path'') (\<lambda>path.
             (case so_do ob of
                Some e \<Rightarrow> if occurs ''ENOENT'' (exn_text e) then Inr (PFStr [PStr ''removed '', PStr path]) else Inl e
              | None \<Rightarrow> Inr (PFStr [PStr ''removed '', PStr path]))))
       else Inl (verr ''unknown step kind'' [PStr kind]))"

definition step_event :: "string \<Rightarrow> nat \<Rightarrow> ops_step \<Rightarrow> event" where
  "step_event phase i s =
     (''harness_step_'' @ phase, [(''index'', PInt (int i)), (''kind'', PStr (fst s))] @ snd s)"

definition failed_event :: "string \<Rightarrow> nat \<Rightarrow> ops_step \<Rightarrow> exn \<Rightarrow> event" where
  "failed_event phase i s e =
     (''harness_step_'' @ phase @ ''_failed'', [(''index'', PInt (int i)), (''kind'', PStr (fst s)), (''error'', exn_str e)])"

definition done_event :: "string \<Rightarrow> nat \<Rightarrow> pyval \<Rightarrow> event" where
  "done_event phase i note =
     (''harness_step_'' @ phase @ ''_done'', [(''index'', PInt (int i)), (''result'', note)])"

text \<open>\<open>OpsSetupError\<close> is its message.\<close>

definition setup_error :: "string \<Rightarrow> nat \<Rightarrow> ops_step \<Rightarrow> exn \<Rightarrow> pyval" where
  "setup_error phase i s e =
     PFStr [PStr phase, PStr '' step '', PInt (int i), PStr (fst s), PStr '' failed: '', exn_str e]"

fun run_steps ::
  "(pyval \<Rightarrow> string) \<Rightarrow> (exn \<Rightarrow> string) \<Rightarrow> (string \<rightharpoonup> string) \<Rightarrow> string \<Rightarrow> nat \<Rightarrow> ops_step list \<Rightarrow> step_obs list \<Rightarrow>
   (event list \<times> (pyval + pyval list)) option" where
  "run_steps str_of exn_text assets phase i [] obs = Some ([], Inr [])"
| "run_steps str_of exn_text assets phase i (s # ss) [] = None"
| "run_steps str_of exn_text assets phase i (s # ss) (ob # obs) =
     (case run_step str_of exn_text assets s ob of
        Inl e \<Rightarrow> Some ([step_event phase i s, failed_event phase i s e], Inl (setup_error phase i s e))
      | Inr note \<Rightarrow>
          (case run_steps str_of exn_text assets phase (i + 1) ss obs of
             None \<Rightarrow> None
           | Some (evs, r) \<Rightarrow>
               Some ([step_event phase i s, done_event phase i note] @ evs, map_sum id ((#) note) r)))"

definition best_effort_restore ::
  "(pyval \<Rightarrow> string) \<Rightarrow> (exn \<Rightarrow> string) \<Rightarrow> (string \<rightharpoonup> string) \<Rightarrow> ops_task \<Rightarrow> step_obs list \<Rightarrow> (event list \<times> pyval option) option" where
  "best_effort_restore str_of exn_text assets t obs =
     (if op_restore t = [] then Some ([], None)
      else case run_steps str_of exn_text assets ''restore'' 0 (op_restore t) obs of
        None \<Rightarrow> None
      | Some (evs, Inl m) \<Rightarrow> Some (evs, Some m)
      | Some (evs, Inr _) \<Rightarrow> Some (evs, None))"

section \<open>Dossier and metrics\<close>

text \<open>The assets in the order of their dictionary.\<close>

definition dossier_line :: "string \<Rightarrow> (string \<times> string) list \<Rightarrow> string \<Rightarrow> string" where
  "dossier_line port assets line =
     fold (\<lambda>(n, path) s. replace_all (''$ASSET_'' @ n) path s) assets (replace_all ''$PORT'' port line)"

definition build_dossier :: "ops_task \<Rightarrow> string \<Rightarrow> (string \<times> string) list \<Rightarrow> string" where
  "build_dossier t port assets = join_sep [ch 10] (map (dossier_line port assets) (op_dossier t))"

definition build_task_prompt :: "ops_task \<Rightarrow> string \<Rightarrow> (string \<times> string) list \<Rightarrow> string" where
  "build_task_prompt t port assets =
     join_sep [ch 10, ch 10]
       ([''Task: '' @ strip (op_description t)] @
        (let d = build_dossier t port assets in if d = [] then [] else [''Bench facts:'' @ [ch 10] @ d]) @
        (if op_notes t = [] then []
         else [''Expert notes from the bench team:'' @ [ch 10] @ join_sep [ch 10] (map (\<lambda>n. ''- '' @ n) (op_notes t))]))"

text \<open>The operations a script declares are counted by two patterns.\<close>

definition count_script_ops :: "(string \<Rightarrow> nat) \<Rightarrow> (string \<Rightarrow> nat) \<Rightarrow> string list \<Rightarrow> nat" where
  "count_script_ops serial_opens esptools scripts = sum_list (map (\<lambda>s. serial_opens s + esptools s) scripts)"

definition journaled_tool :: "string \<Rightarrow> bool" where
  "journaled_tool n = list_ex (\<lambda>p. prefix p n) [''serial_'', ''esp_'', ''file_'', ''mqtt_'']"

definition tool_op :: "json_world \<Rightarrow> turn \<Rightarrow> exn + nat" where
  "tool_op jw t =
     (if tn_kind t \<noteq> ''tool'' then Inr 0
      else case jw_loads jw (tn_content t) of
        None \<Rightarrow> Inl (Exn ValueErr (PStr ''JSONDecodeError''))
      | Some v \<Rightarrow>
          bind_sum (get_default ''tool'' (PStr []) v) (\<lambda>n.
          bind_sum (content_text n) (\<lambda>s. Inr (if journaled_tool s then 1 else 0))))"

fun count_tool_ops :: "json_world \<Rightarrow> turn list \<Rightarrow> exn + nat" where
  "count_tool_ops jw [] = Inr 0"
| "count_tool_ops jw (t # ts) = bind_sum (tool_op jw t) (\<lambda>n. map_sum id ((+) n) (count_tool_ops jw ts))"

definition JOURNALED_KINDS :: "string list" where
  "JOURNALED_KINDS =
     [''serial_open'', ''serial_write'', ''serial_read'', ''serial_reset'', ''serial_put'', ''serial_get'',
      ''esp_flash'', ''esp_erase'', ''file_write'', ''file_delete'']"

text \<open>What a line adds to the operations and to the lines dropped.\<close>

definition journal_line :: "json_world \<Rightarrow> string \<Rightarrow> nat \<times> nat" where
  "journal_line jw line =
     (if blank line then (0, 0)
      else case jw_loads jw line of
        Some (PDict d) \<Rightarrow>
          (if text_of (jw_str jw) (get_or d ''kind'' (PStr [])) \<in> set JOURNALED_KINDS then 1 else 0, 0)
      | _ \<Rightarrow> (0, 1))"

text \<open>The journal files; one that is missing is skipped.\<close>

definition count_journal_ops :: "json_world \<Rightarrow> string option list \<Rightarrow> nat \<times> nat" where
  "count_journal_ops jw files =
     (let ls = map (journal_line jw) (concat (map splitlines (List.map_filter id files))) in
      (sum_list (map fst ls), sum_list (map snd ls)))"

definition journal_coverage :: "json_world \<Rightarrow> nat \<Rightarrow> string option list \<Rightarrow> rat option \<times> nat" where
  "journal_coverage jw declared_ops files =
     (case count_journal_ops jw files of (ops, dropped) \<Rightarrow>
       (if declared_ops = 0 then None else Some (min 1 (of_nat ops / of_nat declared_ops)), dropped))"

section \<open>The attempt\<close>

record ops_row =
  rw_task :: string
  rw_arm :: string
  rw_model :: string
  rw_attempt :: int
  rw_solved :: bool
  rw_claimed :: "string option"
  rw_silent_failure :: bool
  rw_iterations :: nat
  rw_duration :: rat
  rw_tokens_in :: int
  rw_tokens_out :: int
  rw_error :: "pyval option"
  rw_error_kind :: string
  rw_judge :: "judge_report option"
  rw_coverage :: "rat option"
  rw_accidents :: "string list"
  rw_restore_failed :: bool
  rw_dropped :: nat

text \<open>What an attempt meets: the assets by name, the reads of the preflight, the steps, how the arm ends, what each
  check meets, the journal files, the clock.\<close>

record attempt_obs =
  at_assets :: "exn + (string \<rightharpoonup> string)"
  at_preflight :: "exn + string list"
  at_setup :: "step_obs list"
  at_arm :: "wire_err + arm_result"
  at_checks :: "nat \<Rightarrow> check_obs"
  at_journals :: "string option list"
  at_restore :: "step_obs list"
  at_duration :: rat

record attempt_config =
  ac_arm :: string
  ac_model :: string
  ac_attempt :: int
  ac_port :: string
  ac_preflight :: bool

text \<open>What is outside: JSON and \<open>str\<close>, the text of an exception, the patterns of boot evidence, of script
  operations and of incidents, and the judge's.\<close>

record attempt_world =
  wd_json :: json_world
  wd_exn_text :: "exn \<Rightarrow> string"
  wd_evidence :: "string \<Rightarrow> bool"
  wd_serial_opens :: "string \<Rightarrow> nat"
  wd_esptools :: "string \<Rightarrow> nat"
  wd_ports_in :: "string \<Rightarrow> string list"
  wd_no_timeout :: "string \<Rightarrow> bool"
  wd_literal :: "string \<Rightarrow> pyval option"
  wd_search :: "string \<Rightarrow> string \<Rightarrow> bool"
  wd_asset_bytes :: "string \<rightharpoonup> string"

definition base_row :: "ops_task \<Rightarrow> attempt_config \<Rightarrow> attempt_obs \<Rightarrow> ops_row" where
  "base_row t ac ob =
     \<lparr>rw_task = op_name t, rw_arm = ac_arm ac, rw_model = ac_model ac, rw_attempt = ac_attempt ac, rw_solved = False,
      rw_claimed = None, rw_silent_failure = False, rw_iterations = 0, rw_duration = at_duration ob, rw_tokens_in = 0,
      rw_tokens_out = 0, rw_error = None, rw_error_kind = ''none'', rw_judge = None, rw_coverage = None, rw_accidents = [],
      rw_restore_failed = False, rw_dropped = 0\<rparr>"

definition infra_attempt :: "ops_task \<Rightarrow> attempt_config \<Rightarrow> attempt_obs \<Rightarrow> pyval \<Rightarrow> ops_row" where
  "infra_attempt t ac ob m = (base_row t ac ob)\<lparr>rw_error := Some m, rw_error_kind := ''infra''\<rparr>"

definition infra_event :: "string \<Rightarrow> pyval \<Rightarrow> event" where
  "infra_event stage m = (''attempt_infra'', [(''stage'', PStr stage), (''error'', m)])"

definition judge_world_of :: "attempt_world \<Rightarrow> arm_result \<Rightarrow> judge_world" where
  "judge_world_of wd r =
     \<lparr>jd_literal = wd_literal wd, jd_loads = jw_loads (wd_json wd), jd_search = wd_search wd, jd_str = jw_str (wd_json wd),
      jd_transcript = transcript r, jd_assets = wd_asset_bytes wd\<rparr>"

text \<open>The judge's report, when there is something to judge; an unknown kind of check escapes.\<close>

definition judge_attempt :: "attempt_world \<Rightarrow> ops_task \<Rightarrow> attempt_obs \<Rightarrow> arm_result \<Rightarrow> exn + judge_report option" where
  "judge_attempt wd t ob r =
     (if 0 < iterations r \<and> \<not> ar_timed_out r
      then (case run_checks (judge_world_of wd r) (zip (op_judge t) (map (at_checks ob) [0..<length (op_judge t)])) of
              None \<Rightarrow> Inl (Exn AttributeErr (PStr ''object has no attribute of the check'')) | Some rep \<Rightarrow> Inr (Some rep))
      else Inr None)"

text \<open>The operations an attempt declared, and its incidents.\<close>

definition declared_ops :: "attempt_world \<Rightarrow> attempt_config \<Rightarrow> arm_result \<Rightarrow> exn + nat \<times> string list" where
  "declared_ops wd ac r =
     (let scripts = map tn_content (filter (\<lambda>t. tn_kind t = ''script'') (ar_turns r)) in
      if ac_arm ac = ''bare''
      then Inr (count_script_ops (wd_serial_opens wd) (wd_esptools wd) scripts,
                scan_bare_accidents (wd_ports_in wd) (wd_no_timeout wd) scripts (ac_port ac))
      else map_sum id (\<lambda>n. (n, [])) (count_tool_ops (wd_json wd) (ar_turns r)))"

text \<open>The row of an attempt whose arm came to an end.\<close>

definition judged_row ::
  "attempt_world \<Rightarrow> ops_task \<Rightarrow> attempt_config \<Rightarrow> attempt_obs \<Rightarrow> arm_result \<Rightarrow> judge_report option \<Rightarrow> nat \<times> string list \<Rightarrow>
   pyval option \<Rightarrow> ops_row" where
  "judged_row wd t ac ob r rep decl restore_error =
     (let solved = (case rep of Some j \<Rightarrow> jr_passed j | None \<Rightarrow> False);
          kind = (if ar_timed_out r then ''timeout'' else ''none'');
          kind' = (if restore_error \<noteq> None \<and> kind = ''none'' \<and> \<not> solved then ''infra'' else kind);
          cov = journal_coverage (wd_json wd) (fst decl) (at_journals ob) in
      (base_row t ac ob)\<lparr>rw_solved := solved, rw_claimed := ar_claimed r,
         rw_silent_failure := (ar_claimed r = Some ''SUCCESS'' \<and> \<not> solved), rw_iterations := iterations r,
         rw_tokens_in := ar_tokens_in r, rw_tokens_out := ar_tokens_out r,
         rw_error := map_option (\<lambda>m. PFStr [PStr ''restore failed: '', m]) restore_error, rw_error_kind := kind',
         rw_judge := rep, rw_coverage := fst cov, rw_dropped := snd cov, rw_accidents := snd decl,
         rw_restore_failed := (restore_error \<noteq> None)\<rparr>)"

text \<open>After the setup: the arm, the judge, the restore. Only \<open>OSError\<close> and \<open>McpWireError\<close> of the arm are
  caught.\<close>

definition attempt_arm ::
  "attempt_world \<Rightarrow> ops_task \<Rightarrow> attempt_config \<Rightarrow> (string \<rightharpoonup> string) \<Rightarrow> attempt_obs \<Rightarrow>
   (event list \<times> (exn + ops_row)) option" where
  "attempt_arm wd t ac assets ob =
     (let restore = best_effort_restore (jw_str (wd_json wd)) (wd_exn_text wd) assets t (at_restore ob);
          arm_failed = (\<lambda>m. map_option (\<lambda>(evs, _). (infra_event ''arm'' m # evs,
             Inr (infra_attempt t ac ob (PFStr [PStr ''arm failed: '', m])))) restore) in
      case at_arm ob of
        Inl (WireErr m) \<Rightarrow> arm_failed m
      | Inl (Raised e) \<Rightarrow> if catches [OSErr] e then arm_failed (exn_str e) else Some ([], Inl e)
      | Inr r \<Rightarrow>
          (case bind_sum (judge_attempt wd t ob r) (\<lambda>rep. bind_sum (declared_ops wd ac r) (\<lambda>decl. Inr (rep, decl))) of
             Inl e \<Rightarrow> Some ([], Inl e)
           | Inr (rep, decl) \<Rightarrow>
               map_option (\<lambda>(evs, err). (evs, Inr (judged_row wd t ac ob r rep decl err))) restore))"

definition run_ops_attempt ::
  "attempt_world \<Rightarrow> ops_task \<Rightarrow> attempt_config \<Rightarrow> attempt_obs \<Rightarrow> (event list \<times> (exn + ops_row)) option" where
  "run_ops_attempt wd t ac ob =
     (if ac_arm ac \<notin> {''bare'', ''mcp''} then Some ([], Inl (verr ''unknown arm'' [PRepr (PStr (ac_arm ac))]))
      else case at_assets ob of
        Inl e \<Rightarrow> Some ([infra_event ''assets'' (exn_str e)], Inr (infra_attempt t ac ob (PFStr [PStr ''assets: '', exn_str e])))
      | Inr assets \<Rightarrow>
          (case (if ac_preflight ac then ops_preflight (wd_evidence wd) (at_preflight ob) else Inr []) of
             Inl e \<Rightarrow>
               Some (if catches [ConnectionErr] e
                     then ([infra_event ''preflight'' (exn_str e)], Inr (infra_attempt t ac ob (exn_str e)))
                     else ([], Inl e))
           | Inr _ \<Rightarrow>
               (case run_steps (jw_str (wd_json wd)) (wd_exn_text wd) assets ''setup'' 0 (op_setup t) (at_setup ob) of
                  None \<Rightarrow> None
                | Some (evs, Inl m) \<Rightarrow>
                    map_option (\<lambda>(evs', _). (evs @ evs', Inr (infra_attempt t ac ob m)))
                      (best_effort_restore (jw_str (wd_json wd)) (wd_exn_text wd) assets t (at_restore ob))
                | Some (evs, Inr _) \<Rightarrow>
                    map_option (\<lambda>(evs', r). (evs @ evs', r)) (attempt_arm wd t ac assets ob))))"

section \<open>Steps\<close>

text \<open>What a step of a loaded task finds: its kind, its parameters, its asset.\<close>

definition step_ready :: "(string \<rightharpoonup> string) \<Rightarrow> ops_step \<Rightarrow> bool" where
  "step_ready assets s =
     (kind_keys STEP_KINDS s \<and> all_keys STEP_KINDS s \<and>
      (\<forall>n. map_of (snd s) ''asset'' = Some n \<longrightarrow> (\<exists>a. n = PStr a \<and> assets a \<noteq> None)))"

lemma step_kind_cases:
  assumes "kind_keys STEP_KINDS s"
  obtains "fst s = ''wipe_flash''" | "fst s = ''flash_asset''" | "fst s = ''deploy_file''" | "fst s = ''remove_file''"
  using assms by (auto simp: kind_keys_def STEP_KINDS_def split: if_splits)

lemma run_step_ready:
  assumes "step_ready assets s" and "so_open ob = None" and "so_do ob = None"
  shows "\<exists>note. run_step str_of exn_text assets s ob = Inr note"
proof -
  obtain kind p where s: "s = (kind, p)" by (cases s)
  have k: "kind_keys STEP_KINDS s" and "all_keys STEP_KINDS s" using assms(1) by (auto simp: step_ready_def)
  then have key: "map_of STEP_KINDS kind = Some ks \<Longrightarrow> n \<in> set ks \<Longrightarrow> map_of p n \<noteq> None" for n ks
    by (auto simp: all_keys_def s list_all_iff has_key_def)
  have asset: "map_of p ''asset'' \<noteq> None \<Longrightarrow> \<exists>path. asset_path str_of assets p = Inr path"
    using assms(1) by (auto simp: step_ready_def s asset_path_def param_text_def bind_sum_def text_of_def)
  show ?thesis
    using k
  proof (cases rule: step_kind_cases)
    case 1
    then show ?thesis using assms(3) by (simp add: s run_step_def after_def)
  next
    case 2
    then have "map_of p ''asset'' \<noteq> None" using key [of "[''asset'']" "''asset''"] by (simp add: s STEP_KINDS_def)
    from asset [OF this] 2 assms(3) show ?thesis by (auto simp: s run_step_def after_def bind_sum_def)
  next
    case 3
    then have "map_of p ''asset'' \<noteq> None" "map_of p ''target'' \<noteq> None"
      using key [of "[''asset'', ''target'']"] by (simp_all add: s STEP_KINDS_def)
    with asset 3 assms(2,3) show ?thesis by (auto simp: s run_step_def after_def bind_sum_def param_text_def)
  next
    case 4
    then have "map_of p ''path'' \<noteq> None" using key [of "[''path'']" "''path''"] by (simp add: s STEP_KINDS_def)
    with 4 assms(2,3) show ?thesis by (auto simp: s run_step_def after_def bind_sum_def param_text_def)
  qed
qed

lemma run_steps_ready:
  "list_all (step_ready assets) ss \<Longrightarrow> list_all (\<lambda>ob. so_open ob = None \<and> so_do ob = None) obs \<Longrightarrow> length obs = length ss \<Longrightarrow>
   \<exists>evs notes. run_steps str_of exn_text assets phase i ss obs = Some (evs, Inr notes) \<and> length notes = length ss"
proof (induction str_of exn_text assets phase i ss obs rule: run_steps.induct)
  case (3 str_of exn_text assets phase i s ss ob obs)
  from run_step_ready [of assets s ob str_of exn_text] "3.prems" obtain nt where
    "run_step str_of exn_text assets s ob = Inr nt" by auto
  with "3.IH" "3.prems" show ?case by fastforce
qed auto

text \<open>
  The steps of a loaded task fail only for the board's reasons: with its assets resolved, if no operation and
  no link fails, setup and restore complete, one note for each step.
\<close>

theorem loaded_steps_complete:
  assumes "load_ops_task exists v = Inr t" and "resolve_assets aw td cd (op_assets t) fs = (fs', Inr assets)"
    and "ss \<in> {op_setup t, op_restore t}" and "length obs = length ss"
    and "\<forall>ob \<in> set obs. so_open ob = None \<and> so_do ob = None"
  shows "\<exists>evs notes. run_steps str_of exn_text assets phase i ss obs = Some (evs, Inr notes) \<and> length notes = length ss"
proof (rule run_steps_ready)
  note wf = loaded_ops_task [OF assms(1)]
  have "step_ready assets s" if "s \<in> set ss" for s
  proof -
    have mem: "s \<in> set (op_setup t @ op_restore t)" using that assms(3) by auto
    have "\<exists>a. n = PStr a \<and> assets a \<noteq> None" if "map_of (snd s) ''asset'' = Some n" for n
    proof -
      have "asset_resolves t s" using wf mem by auto
      with that obtain a x where a: "n = PStr a" "find_asset t a = Inr x" "oa_name x = a"
        by (auto simp: asset_resolves_def split: pyval.splits sum.splits)
      then have "x \<in> set (op_assets t)"
        by (auto simp: find_asset_def find_Some_iff split: option.splits)
      then have "a \<in> dom assets" using a(3) resolve_assets_names [OF assms(2)] by auto
      with a(1) show ?thesis by auto
    qed
    with wf mem show ?thesis by (auto simp: step_ready_def)
  qed
  then show "list_all (step_ready assets) ss" by (simp only: list_all_iff) blast
qed (use assms in \<open>auto simp: list_all_iff\<close>)

section \<open>Rows\<close>

lemma judged_row_sel:
  "rw_claimed (judged_row wd t ac ob r rep decl err) = ar_claimed r"
  "rw_judge (judged_row wd t ac ob r rep decl err) = rep"
  "rw_solved (judged_row wd t ac ob r rep decl err) \<longleftrightarrow> (\<exists>j. rep = Some j \<and> jr_passed j)"
  "rw_silent_failure (judged_row wd t ac ob r rep decl err) \<longleftrightarrow>
     ar_claimed r = Some ''SUCCESS'' \<and> \<not> (\<exists>j. rep = Some j \<and> jr_passed j)"
  by (simp_all add: judged_row_def Let_def split: option.split)

lemma infra_attempt_sel [simp]:
  "\<not> rw_solved (infra_attempt t ac ob m)" "\<not> rw_silent_failure (infra_attempt t ac ob m)"
  "rw_error_kind (infra_attempt t ac ob m) = ''infra''"
  by (simp_all add: infra_attempt_def base_row_def)

text \<open>A row is an infrastructure failure before the judge, or the row of an arm that came to an end.\<close>

lemma attempt_arm_cases:
  assumes "run_ops_attempt wd t ac ob = Some (evs, Inr row)"
  obtains m where "row = infra_attempt t ac ob m"
    | r rep decl err where "at_arm ob = Inr r" "judge_attempt wd t ob r = Inr rep"
      "row = judged_row wd t ac ob r rep decl err"
proof -
  have arm: "attempt_arm wd t ac assets ob = Some (evs', Inr row) \<Longrightarrow> thesis" for assets evs'
    by (auto simp: attempt_arm_def Let_def bind_sum_def intro: that
        split: sum.splits wire_err.splits if_splits prod.splits)
  from assms show thesis
    unfolding run_ops_attempt_def
    by (auto split: if_splits sum.splits option.splits prod.splits intro: that arm)
qed

lemma judge_attempt_Some:
  assumes "judge_attempt wd t ob r = Inr rep"
  shows "rep \<noteq> None \<longleftrightarrow> 0 < iterations r \<and> \<not> ar_timed_out r"
proof (cases "0 < iterations r \<and> \<not> ar_timed_out r")
  case True
  with assms show ?thesis
    by (cases "run_checks (judge_world_of wd r) (zip (op_judge t) (map (at_checks ob) [0..<length (op_judge t)]))")
      (auto simp: judge_attempt_def)
next
  case False
  with assms show ?thesis by (simp only: judge_attempt_def if_False sum.inject) auto
qed

text \<open>
  C11. A silent failure is never a guess: in a row of either arm that is marked as one, the agent claimed success,
  the judge ran on the board and refuted it.
\<close>

theorem silent_failure_was_judged:
  assumes "run_ops_attempt wd t ac ob = Some (evs, Inr row)" and "rw_silent_failure row"
    and "(\<exists>bobs x. bare_run max_it bobs = Some x \<and> at_arm ob = raised x) \<or>
      (\<exists>families factory mobs. mcp_run (wd_json wd) families max_it factory mobs = Some (at_arm ob))"
  shows "rw_claimed row = Some ''SUCCESS'' \<and> \<not> rw_solved row \<and> (\<exists>j. rw_judge row = Some j \<and> \<not> jr_passed j)"
  using assms(1)
proof (cases rule: attempt_arm_cases)
  case (1 m)
  with assms(2) show ?thesis by simp
next
  case (2 r rep decl err)
  with assms(2) have claim: "ar_claimed r = Some ''SUCCESS''" and not: "\<not> (\<exists>j. rep = Some j \<and> jr_passed j)"
    by (simp_all add: judged_row_sel)
  have "0 < iterations r \<and> \<not> ar_timed_out r"
    using assms(3)
  proof (elim disjE exE conjE)
    fix bobs x
    assume "bare_run max_it bobs = Some x" "at_arm ob = raised x"
    with 2(1) have "bare_run max_it bobs = Some (Inr r)" by (cases x) (simp_all add: raised_def)
    with bare_loop_claims claim show ?thesis by blast
  next
    fix families factory mobs
    assume "mcp_run (wd_json wd) families max_it factory mobs = Some (at_arm ob)"
    with 2(1) mcp_loop_claims claim show ?thesis by fastforce
  qed
  with judge_attempt_Some [OF 2(2)] not claim 2(3) show ?thesis by (auto simp: judged_row_sel)
qed

text \<open>
  C24. A solve is the judge's: a row is solved only if the judge ran after an attempt that did not time out and every
  check of the task passed; such a row is never an infrastructure failure, even when the restore failed.
\<close>

theorem solved_is_judged:
  assumes "run_ops_attempt wd t ac ob = Some (evs, Inr row)" and "rw_solved row"
  shows "rw_error_kind row = ''none'' \<and> (\<exists>r. at_arm ob = Inr r \<and> \<not> ar_timed_out r \<and>
    (\<forall>i < length (op_judge t). \<exists>co.
       run_check (judge_world_of wd r) (op_judge t ! i) (at_checks ob i) = Some (Inr co) \<and> co_passed co))"
  using assms(1)
proof (cases rule: attempt_arm_cases)
  case (1 m)
  with assms(2) show ?thesis by simp
next
  case (2 r rep decl err)
  with assms(2) obtain j where j: "rep = Some j" "jr_passed j" by (auto simp: judged_row_sel)
  with judge_attempt_Some [OF 2(2)] have run: "0 < iterations r" "\<not> ar_timed_out r" by auto
  let ?cs = "zip (op_judge t) (map (at_checks ob) [0..<length (op_judge t)])"
  from 2(2) run j(1) have "run_checks (judge_world_of wd r) ?cs = Some j"
    by (auto simp: judge_attempt_def split: option.splits)
  with j(2) run_checks_passed have all: "\<forall>(c, ck) \<in> set ?cs. \<exists>co. run_check (judge_world_of wd r) c ck = Some (Inr co) \<and> co_passed co"
    by blast
  have "\<exists>co. run_check (judge_world_of wd r) (op_judge t ! i) (at_checks ob i) = Some (Inr co) \<and> co_passed co"
    if "i < length (op_judge t)" for i
  proof -
    have "(op_judge t ! i, at_checks ob i) \<in> set ?cs" using that by (auto simp: in_set_zip intro!: exI [of _ i])
    with all show ?thesis by blast
  qed
  moreover have "rw_error_kind row = ''none''" using 2(3) j run by (simp add: judged_row_def Let_def)
  ultimately show ?thesis using 2(1) run by blast
qed

section \<open>The restore\<close>

lemma run_steps_events:
  "run_steps str_of exn_text assets phase i ss obs = Some (evs, r) \<Longrightarrow>
   (\<forall>ev \<in> set evs. fst ev \<in> {''harness_step_'' @ phase, ''harness_step_'' @ phase @ ''_failed'', ''harness_step_'' @ phase @ ''_done''}) \<and>
   (ss \<noteq> [] \<longrightarrow> (\<exists>ev \<in> set evs. fst ev = ''harness_step_'' @ phase))"
proof (induction str_of exn_text assets phase i ss obs arbitrary: evs r rule: run_steps.induct)
  case (3 str_of exn_text assets phase i s ss ob obs)
  show ?case
  proof (cases "run_step str_of exn_text assets s ob")
    case (Inl e)
    with "3.prems" show ?thesis by (auto simp: step_event_def failed_event_def)
  next
    case (Inr nt)
    with "3.prems" obtain evs' r' where
      "run_steps str_of exn_text assets phase (i + 1) ss obs = Some (evs', r')"
      "evs = [step_event phase i s, done_event phase i nt] @ evs'"
      by (auto split: option.splits)
    with "3.IH" [OF Inr this(1)] show ?thesis by (auto simp: step_event_def done_event_def)
  qed
qed auto

lemma restore_events:
  assumes "best_effort_restore str_of exn_text assets t obs = Some (evs, x)" and "op_restore t \<noteq> []"
  shows "\<exists>ev \<in> set evs. fst ev = ''harness_step_restore''"
proof -
  from assms obtain r where "run_steps str_of exn_text assets ''restore'' 0 (op_restore t) obs = Some (evs, r)"
    by (auto simp: best_effort_restore_def split: option.splits sum.splits)
  from run_steps_events [OF this] assms(2) show ?thesis by simp
qed

text \<open>
  Every attempt that leaves a row after the preflight has begun the restore, whether the setup failed, the arm
  failed or the judge decided.
\<close>

theorem row_implies_restore:
  assumes "run_ops_attempt wd t ac ob = Some (evs, Inr row)" and "at_assets ob = Inr assets"
    and "\<not> ac_preflight ac" and "op_restore t \<noteq> []"
  shows "\<exists>ev \<in> set evs. fst ev = ''harness_step_restore''"
proof -
  let ?restore = "best_effort_restore (jw_str (wd_json wd)) (wd_exn_text wd) assets t (at_restore ob)"
  have "\<exists>evs1 evs2 x. ?restore = Some (evs2, x) \<and> evs = evs1 @ evs2"
    using assms(1)
    by (auto simp: run_ops_attempt_def assms(2,3) attempt_arm_def Let_def
        split: if_splits option.splits sum.splits prod.splits wire_err.splits)
  with restore_events [OF _ assms(4)] show ?thesis by (metis Un_iff set_append)
qed

text \<open>
  An exception of the arm that is neither an \<open>OSError\<close> nor a wire error takes the attempt down with the board
  as it is: no row and no restore. A chat completion without choices is such an exception.
\<close>

theorem malformed_reply_skips_restore:
  assumes "run_steps (jw_str (wd_json wd)) (wd_exn_text wd) assets ''setup'' 0 (op_setup t) (at_setup ob) = Some (evs, Inr notes)"
    and "at_assets ob = Inr assets" and "\<not> ac_preflight ac" and "ac_arm ac = ''bare''"
    and "bare_run (m + 1) [\<lparr>bb_late = False, bb_reply = parse_reply (PDict [(''error'', x)]), bb_write = w, bb_script = sc\<rparr>] = Some y"
    and "at_arm ob = raised y"
  shows "run_ops_attempt wd t ac ob = Some (evs, Inl (Exn KeyErr (PStr ''choices''))) \<and>
    (\<forall>ev \<in> set evs. fst ev \<noteq> ''harness_step_restore'')"
proof -
  have "parse_reply (PDict [(''error'', x)]) = Inl (Exn KeyErr (PStr ''choices''))"
    by (simp add: parse_reply_def item_of_def bind_sum_def)
  with assms(5) have "y = Inl (Exn KeyErr (PStr ''choices''))" by (simp add: bare_run_def bare_turn_def)
  with assms(6) have arm: "at_arm ob = Inl (Raised (Exn KeyErr (PStr ''choices'')))" by (simp add: raised_def)
  have "\<not> catches [OSErr] (Exn KeyErr (PStr ''choices''))" by code_simp
  with arm have "attempt_arm wd t ac assets ob = Some ([], Inl (Exn KeyErr (PStr ''choices'')))"
    by (simp add: attempt_arm_def Let_def)
  with assms(1-4) have "run_ops_attempt wd t ac ob = Some (evs, Inl (Exn KeyErr (PStr ''choices'')))"
    by (simp add: run_ops_attempt_def)
  moreover have "fst ev \<noteq> ''harness_step_restore''" if "ev \<in> set evs" for ev
    using run_steps_events [OF assms(1)] that by auto
  ultimately show ?thesis by blast
qed

text \<open>
  A name that begins another asset's name takes over its references in the dossier: the agent is told a path
  that does not exist.
\<close>

theorem asset_name_prefix_collides:
  "dossier_line ''P'' [(''fw'', ''A''), (''fw2'', ''B'')] ''$ASSET_fw2'' = ''A2''"
  by code_simp

section \<open>Witnesses\<close>

definition demo_attempt :: attempt_obs where
  "demo_attempt = \<lparr>at_assets = Inr Map.empty, at_preflight = Inr [], at_setup = [\<lparr>so_open = None, so_do = None, so_length = 0\<rparr>],
     at_arm = Inr claimed_run, at_checks = (\<lambda>_. demo_check), at_journals = [], at_restore = [\<lparr>so_open = None, so_do = None, so_length = 0\<rparr>],
     at_duration = 5\<rparr>"

definition demo_config :: attempt_config where
  "demo_config = \<lparr>ac_arm = ''bare'', ac_model = ''m'', ac_attempt = 1, ac_port = ''P'', ac_preflight = False\<rparr>"

definition demo_attempt_world :: attempt_world where
  "demo_attempt_world = \<lparr>wd_json = demo_json, wd_exn_text = (\<lambda>_. []), wd_evidence = (\<lambda>_. True), wd_serial_opens = (\<lambda>_. 0),
     wd_esptools = (\<lambda>_. 0), wd_ports_in = (\<lambda>_. []), wd_no_timeout = (\<lambda>_. False), wd_literal = (\<lambda>_. None),
     wd_search = (\<lambda>_ _. False), wd_asset_bytes = Map.empty\<rparr>"

definition restoring :: ops_task where "restoring = (demo_ops ''a'')\<lparr>op_restore := [(''wipe_flash'', [])]\<rparr>"

definition silent_board :: attempt_obs where
  "silent_board = demo_attempt\<lparr>at_checks := (\<lambda>_. demo_check\<lparr>ck_reads := Inl (Exn OSErr PNone)\<rparr>)\<rparr>"

lemma demo_steps_run:
  "run_steps str_of exn_text as ph i [(''wipe_flash'', [])] [\<lparr>so_open = None, so_do = None, so_length = 0\<rparr>] =
     Some ([step_event ph i (''wipe_flash'', []), done_event ph i (PStr ''flash erased'')], Inr [PStr ''flash erased''])"
  by (simp add: run_step_def after_def)

lemma demo_judged:
  "run_checks (judge_world_of demo_attempt_world claimed_run) [((''boot_expect'', [(''literals'', PList [PStr ''M''])]), demo_check)] =
     Some \<lparr>jr_passed = True, jr_outcomes = [\<lparr>co_kind = ''boot_expect'', co_passed = True, co_detail = PFStr [PStr ''all present'']\<rparr>]\<rparr>"
  "\<exists>out. run_checks (judge_world_of demo_attempt_world claimed_run)
     [((''boot_expect'', [(''literals'', PList [PStr ''M''])]), demo_check\<lparr>ck_reads := Inl (Exn OSErr PNone)\<rparr>)] =
     Some \<lparr>jr_passed = False, jr_outcomes = out\<rparr>"
proof -
  have "collect_text [''M''] [] [''M''] = ''M''" by (simp add: CHECK_TEXT_CAP_def occurs_def)
  then show "run_checks (judge_world_of demo_attempt_world claimed_run) [((''boot_expect'', [(''literals'', PList [PStr ''M''])]), demo_check)] =
     Some \<lparr>jr_passed = True, jr_outcomes = [\<lparr>co_kind = ''boot_expect'', co_passed = True, co_detail = PFStr [PStr ''all present'']\<rparr>]\<rparr>"
    by (simp add: run_checks_def run_check_def check_boot_expect_def judge_world_of_def demo_attempt_world_def demo_check_def demo_json_def
        bind_sum_def get_or_def items_of_def text_of_def outcome_def Let_def occurs_def contain_error_def del: collect_text.simps)
  show "\<exists>out. run_checks (judge_world_of demo_attempt_world claimed_run)
     [((''boot_expect'', [(''literals'', PList [PStr ''M''])]), demo_check\<lparr>ck_reads := Inl (Exn OSErr PNone)\<rparr>)] =
     Some \<lparr>jr_passed = False, jr_outcomes = out\<rparr>"
    by (simp add: run_checks_def run_check_def check_boot_expect_def demo_check_def bind_sum_def get_or_def items_of_def contain_error_def)
qed

lemma demo_rows:
  "\<exists>evs row. run_ops_attempt demo_attempt_world restoring demo_config demo_attempt = Some (evs, Inr row) \<and> rw_solved row"
  "\<exists>evs row. run_ops_attempt demo_attempt_world restoring demo_config silent_board = Some (evs, Inr row) \<and> rw_silent_failure row"
proof -
  have task: "op_setup restoring = [(''wipe_flash'', [])]" "op_restore restoring = [(''wipe_flash'', [])]"
    "op_judge restoring = [(''boot_expect'', [(''literals'', PList [PStr ''M''])])]"
    by (simp_all add: restoring_def demo_ops_def)
  have arm: "at_arm demo_attempt = Inr claimed_run" "at_arm silent_board = Inr claimed_run"
    "at_assets demo_attempt = Inr Map.empty" "at_assets silent_board = Inr Map.empty"
    "at_checks demo_attempt = (\<lambda>_. demo_check)" "at_checks silent_board = (\<lambda>_. demo_check\<lparr>ck_reads := Inl (Exn OSErr PNone)\<rparr>)"
    "at_setup demo_attempt = [\<lparr>so_open = None, so_do = None, so_length = 0\<rparr>]" "at_setup silent_board = [\<lparr>so_open = None, so_do = None, so_length = 0\<rparr>]"
    "at_restore demo_attempt = [\<lparr>so_open = None, so_do = None, so_length = 0\<rparr>]" "at_restore silent_board = [\<lparr>so_open = None, so_do = None, so_length = 0\<rparr>]"
    by (simp_all add: demo_attempt_def silent_board_def)
  have run: "0 < iterations claimed_run" "\<not> ar_timed_out claimed_run" "ar_claimed claimed_run = Some ''SUCCESS''"
    by (simp_all add: claimed_run_def iterations_def)
  have config: "ac_arm demo_config = ''bare''" "\<not> ac_preflight demo_config" by (simp_all add: demo_config_def)
  then obtain d where d: "declared_ops demo_attempt_world demo_config claimed_run = Inr d"
    by (simp add: declared_ops_def Let_def)
  show "\<exists>evs row. run_ops_attempt demo_attempt_world restoring demo_config demo_attempt = Some (evs, Inr row) \<and> rw_solved row"
    using demo_judged(1)
    by (simp add: run_ops_attempt_def attempt_arm_def best_effort_restore_def task arm config run demo_steps_run judge_attempt_def
        d bind_sum_def judged_row_sel del: run_steps.simps)
  show "\<exists>evs row. run_ops_attempt demo_attempt_world restoring demo_config silent_board = Some (evs, Inr row) \<and> rw_silent_failure row"
    using demo_judged(2)
    by (auto simp: run_ops_attempt_def attempt_arm_def best_effort_restore_def task arm config run demo_steps_run judge_attempt_def
        d bind_sum_def judged_row_sel simp del: run_steps.simps)
qed

lemma demo_bare: "bare_run 2 [\<lparr>bb_late = False, bb_reply = Inr claim_reply, bb_write = None, bb_script = Killed []\<rparr>] = Some (Inr claimed_run) \<and>
    at_arm silent_board = raised (Inr claimed_run)"
  using bare_claims by (simp add: silent_board_def demo_attempt_def raised_def)

lemma loaded_steps_complete_witness:
  "\<exists>evs notes. run_steps (\<lambda>_. []) (\<lambda>_. []) Map.empty ''setup'' 0 (op_setup (demo_ops ''a''))
     [\<lparr>so_open = None, so_do = None, so_length = 0\<rparr>] = Some (evs, Inr notes) \<and> length notes = length (op_setup (demo_ops ''a''))"
proof (rule loaded_steps_complete [OF demo_loads(1)])
  show "resolve_assets demo_world ''t'' ''c'' (op_assets (demo_ops ''a'')) Map.empty = (Map.empty, Inr Map.empty)"
    by (simp add: demo_ops_def)
qed (simp_all add: demo_ops_def)

lemma silent_failure_was_judged_witness: "\<exists>(row :: ops_row) j. rw_claimed row = Some ''SUCCESS'' \<and> rw_judge row = Some j \<and> \<not> jr_passed j"
proof -
  obtain evs row where row: "run_ops_attempt demo_attempt_world restoring demo_config silent_board = Some (evs, Inr row)"
    "rw_silent_failure row" using demo_rows(2) by blast
  have "(\<exists>bobs x. bare_run 2 bobs = Some x \<and> at_arm silent_board = raised x) \<or>
      (\<exists>families factory mobs. mcp_run (wd_json demo_attempt_world) families 2 factory mobs = Some (at_arm silent_board))"
    using demo_bare by blast
  from silent_failure_was_judged [OF row this] show ?thesis by blast
qed

lemma solved_is_judged_witness: "\<exists>row :: ops_row. rw_solved row \<and> rw_error_kind row = ''none''"
proof -
  obtain evs row where row: "run_ops_attempt demo_attempt_world restoring demo_config demo_attempt = Some (evs, Inr row)" "rw_solved row"
    using demo_rows(1) by blast
  from solved_is_judged [OF row] row(2) show ?thesis by blast
qed

lemma row_implies_restore_witness:
  "\<exists>evs row. run_ops_attempt demo_attempt_world restoring demo_config silent_board = Some (evs, Inr row) \<and>
    (\<exists>ev \<in> set evs. fst ev = ''harness_step_restore'')"
proof -
  obtain evs row where row: "run_ops_attempt demo_attempt_world restoring demo_config silent_board = Some (evs, Inr row)"
    using demo_rows(2) by blast
  have "\<exists>ev \<in> set evs. fst ev = ''harness_step_restore''"
    by (rule row_implies_restore [OF row]) (simp_all add: silent_board_def demo_attempt_def demo_config_def restoring_def)
  with row show ?thesis by blast
qed

lemma malformed_reply_skips_restore_witness:
  "\<exists>evs. run_ops_attempt demo_attempt_world restoring demo_config
     (demo_attempt\<lparr>at_arm := Inl (Raised (Exn KeyErr (PStr ''choices'')))\<rparr>) = Some (evs, Inl (Exn KeyErr (PStr ''choices''))) \<and>
     (\<forall>ev \<in> set evs. fst ev \<noteq> ''harness_step_restore'')"
proof -
  let ?ob = "demo_attempt\<lparr>at_arm := Inl (Raised (Exn KeyErr (PStr ''choices'')))\<rparr>"
  have r: "parse_reply (PDict [(''error'', PNone)]) = Inl (Exn KeyErr (PStr ''choices''))"
    by (simp add: parse_reply_def item_of_def bind_sum_def)
  have b: "bare_run (1 + 1) [\<lparr>bb_late = False, bb_reply = parse_reply (PDict [(''error'', PNone)]), bb_write = None, bb_script = Killed []\<rparr>]
      = Some (Inl (Exn KeyErr (PStr ''choices'')))"
    by (simp add: bare_run_def bare_turn_def r)
  have su: "op_setup restoring = [(''wipe_flash'', [])]" "at_setup ?ob = [\<lparr>so_open = None, so_do = None, so_length = 0\<rparr>]"
    by (simp_all add: restoring_def demo_ops_def demo_attempt_def)
  have "run_steps (jw_str (wd_json demo_attempt_world)) (wd_exn_text demo_attempt_world) Map.empty ''setup'' 0 (op_setup restoring) (at_setup ?ob)
      = Some ([step_event ''setup'' 0 (''wipe_flash'', []), done_event ''setup'' 0 (PStr ''flash erased'')], Inr [PStr ''flash erased''])"
    unfolding su by (rule demo_steps_run)
  moreover have "at_assets ?ob = Inr Map.empty" "\<not> ac_preflight demo_config" "ac_arm demo_config = ''bare''"
    "at_arm ?ob = raised (Inl (Exn KeyErr (PStr ''choices'')))"
    by (simp_all add: demo_attempt_def demo_config_def raised_def)
  ultimately show ?thesis using malformed_reply_skips_restore [OF _ _ _ _ b] by blast
qed

end
