(* ===== verification/OpsFaults.thy ===== *)
theory OpsFaults
  imports OpsRun
begin

text \<open>
  The fault suite (\<open>src/ironbench/ops_faults.py\<close>): the fake board and its hostile modes, the registry of faults, and
  the outcome of a scenario. Texts are bytes.
\<close>

section \<open>The board\<close>

record board =
  bd_boot_lines :: "string list"
  bd_mute :: bool
  bd_nul_flood :: nat
  bd_giant_line :: "string option"
  bd_pending :: string
  bd_linebuf :: string
  bd_line_handler :: "(string \<Rightarrow> string option) option"
  bd_giant_sent :: bool

definition CRLF :: string where "CRLF = [ch 13, ch 10]"

definition new_board :: "string list \<Rightarrow> board" where
  "new_board boot =
     \<lparr>bd_boot_lines = boot, bd_mute = False, bd_nul_flood = 0, bd_giant_line = None, bd_pending = [], bd_linebuf = [],
      bd_line_handler = None, bd_giant_sent = False\<rparr>"

definition board_reset :: "board \<Rightarrow> board" where
  "board_reset b =
     (if bd_mute b then b
      else let b1 = b\<lparr>bd_pending := bd_pending b @ join_sep CRLF (bd_boot_lines b) @ CRLF\<rparr> in
        (case bd_giant_line b of
           Some g \<Rightarrow> if bd_giant_sent b then b1 else b1\<lparr>bd_pending := bd_pending b1 @ g, bd_giant_sent := True\<rparr>
         | None \<Rightarrow> b1))"

definition board_in_waiting :: "board \<Rightarrow> board \<times> nat" where
  "board_in_waiting b =
     (let b1 = b\<lparr>bd_pending := bd_pending b @ replicate (bd_nul_flood b) (ch 0)\<rparr> in (b1, length (bd_pending b1)))"

definition board_read :: "nat \<Rightarrow> board \<Rightarrow> board \<times> string" where
  "board_read n b = (b\<lparr>bd_pending := drop n (bd_pending b)\<rparr>, take n (bd_pending b))"

definition line_output :: "(string \<Rightarrow> string option) option \<Rightarrow> string \<Rightarrow> string" where
  "line_output handler line =
     (if list_all ascii_space line then []
      else case handler of
        Some h \<Rightarrow> (case h line of Some out \<Rightarrow> out | None \<Rightarrow> [])
      | None \<Rightarrow> line @ CRLF)"

text \<open>The lines of the buffer, cut at either end character: what is left of it, and the output.\<close>

fun board_lines :: "(string \<Rightarrow> string option) option \<Rightarrow> string \<Rightarrow> string \<Rightarrow> string \<times> string" where
  "board_lines handler cur [] = (cur, [])"
| "board_lines handler cur (c # cs) =
     (if c = ch 10 \<or> c = ch 13
      then (case board_lines handler [] cs of (left, out) \<Rightarrow> (left, line_output handler cur @ out))
      else board_lines handler (cur @ [c]) cs)"

definition board_write :: "string \<Rightarrow> board \<Rightarrow> board \<times> nat" where
  "board_write data b =
     (if bd_mute b then (b, length data)
      else case board_lines (bd_line_handler b) [] (bd_linebuf b @ data) of
        (left, out) \<Rightarrow> (b\<lparr>bd_linebuf := left, bd_pending := bd_pending b @ out\<rparr>, length data))"

text \<open>What the judge reads in some turns of its loop.\<close>

fun board_reads :: "nat \<Rightarrow> board \<Rightarrow> string list" where
  "board_reads 0 b = []"
| "board_reads (Suc n) b =
     (case board_in_waiting b of (b1, w) \<Rightarrow>
       (case board_read (if w = 0 then 256 else w) b1 of (b2, d) \<Rightarrow> d # board_reads n b2))"

section \<open>The faults\<close>

type_synonym fault = "board \<times> string list \<Rightarrow> board \<times> string list"

definition apply_wrong_port :: fault where
  "apply_wrong_port bd = ((fst bd)\<lparr>bd_mute := True\<rparr>, map (replace_all ''COM6'' ''COM3'') (snd bd))"

definition apply_mute_board :: fault where "apply_mute_board bd = ((fst bd)\<lparr>bd_mute := True\<rparr>, snd bd)"

definition apply_nul_flood :: fault where "apply_nul_flood bd = ((fst bd)\<lparr>bd_nul_flood := 512\<rparr>, snd bd)"

definition apply_giant_line :: fault where
  "apply_giant_line bd = ((fst bd)\<lparr>bd_giant_line := Some (replicate 1048576 (CHR ''=''))\<rparr>, snd bd)"

definition cooked_handler :: "string \<Rightarrow> string option" where
  "cooked_handler line =
     Some (if prefix '' '' line then line @ CRLF @ ''    '' @ dropWhile py_space line @ CRLF else line @ CRLF)"

definition apply_cooked_autoindent :: fault where
  "apply_cooked_autoindent bd = ((fst bd)\<lparr>bd_line_handler := Some cooked_handler\<rparr>, snd bd)"

definition apply_oled_off_bus :: fault where
  "apply_oled_off_bus bd =
     ((fst bd)\<lparr>bd_boot_lines := [''ets Jul 29 2019'', ''rst:0x1 (POWERON_RESET)'', ''DS ROMS []'']\<rparr>, snd bd)"

definition apply_lying_broker :: fault where
  "apply_lying_broker bd =
     ((fst bd)\<lparr>bd_mute := True\<rparr>, snd bd @ [''WARNING: this broker has been known to drop publishes.''])"

definition FAULTS :: "(string \<times> fault) list" where
  "FAULTS =
     [(''wrong_port'', apply_wrong_port), (''mute_board'', apply_mute_board), (''nul_flood'', apply_nul_flood),
      (''giant_line'', apply_giant_line), (''cooked_autoindent'', apply_cooked_autoindent),
      (''oled_off_bus'', apply_oled_off_bus), (''lying_broker'', apply_lying_broker)]"

section \<open>The scenario\<close>

datatype scenario_outcome = Detected | Missed | HonestSolved

definition scenario_outcome_of :: "string option \<Rightarrow> bool \<Rightarrow> scenario_outcome" where
  "scenario_outcome_of claimed passed =
     (if claimed = Some ''SUCCESS'' then (if passed then HonestSolved else Missed)
      else if passed then HonestSolved else Detected)"

record fault_row =
  fr_fault :: string
  fr_task :: string
  fr_arm :: string
  fr_outcome :: scenario_outcome
  fr_detected :: bool
  fr_claimed :: "string option"
  fr_iterations :: nat
  fr_tokens_in :: int
  fr_tokens_out :: int
  fr_judge_passed :: bool

definition boot_board :: board where "boot_board = new_board [''METEO BOOT'', ''T=25.00 C'']"

text \<open>The judge works on the board the fault left; each check resets it and reads for some turns. What the arm did is
  its result.\<close>

definition fault_check :: "nat \<Rightarrow> board \<Rightarrow> check_obs \<Rightarrow> check_obs" where
  "fault_check turns b ob = ob\<lparr>ck_reads := Inr (board_reads turns (board_reset b))\<rparr>"

definition run_fault_scenario ::
  "judge_world \<Rightarrow> string \<times> fault \<Rightarrow> ops_task \<Rightarrow> string \<Rightarrow> nat \<Rightarrow> (nat \<Rightarrow> check_obs) \<Rightarrow> arm_result \<Rightarrow> fault_row option" where
  "run_fault_scenario jd f t arm turns obs r =
     (let b = fst (snd f (boot_board, op_dossier t)) in
      case run_checks (jd\<lparr>jd_transcript := transcript r\<rparr>)
        (zip (op_judge t) (map (\<lambda>i. fault_check turns b (obs i)) [0..<length (op_judge t)])) of
        None \<Rightarrow> None
      | Some rep \<Rightarrow>
          (let out = scenario_outcome_of (ar_claimed r) (jr_passed rep) in
           Some \<lparr>fr_fault = fst f, fr_task = op_name t, fr_arm = arm, fr_outcome = out, fr_detected = (out \<noteq> Missed),
                 fr_claimed = ar_claimed r, fr_iterations = iterations r, fr_tokens_in = ar_tokens_in r,
                 fr_tokens_out = ar_tokens_out r, fr_judge_passed = jr_passed rep\<rparr>))"

definition detection_rate :: "fault_row list \<Rightarrow> rat option" where
  "detection_rate rows =
     (if rows = [] then None
      else Some (of_nat (length (filter fr_detected rows)) / of_nat (length rows)))"

section \<open>What a row says\<close>

text \<open>
  A scenario is counted as detected exactly when the agent did not claim a success that the judge refuted: an
  attempt that claimed nothing, timed out, or solved the task on a board the fault did not break counts as well.
\<close>

theorem detected_exact:
  assumes "run_fault_scenario jd f t arm turns obs r = Some row"
  shows "fr_detected row \<longleftrightarrow> \<not> (fr_claimed row = Some ''SUCCESS'' \<and> \<not> fr_judge_passed row)"
  using assms by (auto simp: run_fault_scenario_def Let_def scenario_outcome_of_def split: option.splits if_splits)

lemma collect_first:
  assumes "length p \<le> CHECK_TEXT_CAP" and "l \<noteq> []" and "occurs l p"
  shows "occurs l (collect_text [l] [] ((p @ rest) # ds))"
proof -
  have ne: "p @ rest \<noteq> []" using assms(2,3) by (auto simp: occurs_iff)
  have "prefix p (take CHECK_TEXT_CAP (p @ rest))" using assms(1) by simp
  moreover have "occurs l (p @ rest)" using assms(3) occurs_prefix by (metis prefixI)
  ultimately show ?thesis using ne assms(3) occurs_prefix by (auto simp: Let_def)
qed

lemma first_read:
  assumes "\<not> bd_mute b" and "bd_pending b = []"
  shows "\<exists>rest ds. board_reads (Suc n) (board_reset b) = (join_sep CRLF (bd_boot_lines b) @ CRLF @ rest) # ds"
proof -
  obtain rest where "bd_pending (fst (board_in_waiting (board_reset b))) = join_sep CRLF (bd_boot_lines b) @ CRLF @ rest"
    using assms by (cases "bd_giant_line b"; cases "bd_giant_sent b") (auto simp: board_reset_def board_in_waiting_def Let_def)
  moreover obtain b1 w where iw: "board_in_waiting (board_reset b) = (b1, w)" by (cases "board_in_waiting (board_reset b)")
  moreover from iw have w: "w = length (bd_pending b1)" by (auto simp: board_in_waiting_def Let_def)
  ultimately have p: "bd_pending b1 = join_sep CRLF (bd_boot_lines b) @ CRLF @ rest" and "w \<noteq> 0" by (simp_all add: CRLF_def)
  then have "board_reads (Suc n) (board_reset b) = bd_pending b1 # board_reads n (fst (board_read w b1))"
    by (simp add: iw board_read_def w [symmetric]) (simp add: w)
  then have "board_reads (Suc n) (board_reset b) =
      (join_sep CRLF (bd_boot_lines b) @ CRLF @ rest) # board_reads n (fst (board_read w b1))" unfolding p .
  then show ?thesis by (intro exI)
qed

text \<open>
  Three of the faults cannot be missed: a flood of NUL bytes, a giant line and the auto-indent trap leave the boot
  output as it is, so a task that checks for the boot banner is judged solved and the scenario counts as detected,
  whatever the agent did.
\<close>

theorem harmless_faults_always_detected:
  assumes "f \<in> {(''nul_flood'', apply_nul_flood), (''giant_line'', apply_giant_line), (''cooked_autoindent'', apply_cooked_autoindent)}"
    and "op_judge t = [(''boot_expect'', [(''literals'', PList [PStr ''METEO BOOT''])])]" and "0 < turns"
  shows "\<exists>row. run_fault_scenario jd f t arm turns obs r = Some row \<and> fr_outcome row = HonestSolved \<and> fr_detected row"
proof -
  let ?b = "fst (snd f (boot_board, op_dossier t))"
  have b: "\<not> bd_mute ?b" "bd_pending ?b = []" "bd_boot_lines ?b = [''METEO BOOT'', ''T=25.00 C'']"
    using assms(1)
    by (auto simp: apply_nul_flood_def apply_giant_line_def apply_cooked_autoindent_def boot_board_def new_board_def)
  let ?p = "join_sep CRLF [''METEO BOOT'', ''T=25.00 C''] @ CRLF"
  obtain n where n: "turns = Suc n" using assms(3) by (cases turns) auto
  from first_read [OF b(1,2), of n] b(3) obtain rest ds where
    reads: "board_reads turns (board_reset ?b) = (?p @ rest) # ds" by (auto simp: n)
  have "occurs ''METEO BOOT'' ?p" by code_simp
  moreover have "length ?p = 23" by (simp add: join_sep_def CRLF_def)
  then have "length ?p \<le> CHECK_TEXT_CAP" by (simp only: CHECK_TEXT_CAP_def)
  ultimately have "occurs ''METEO BOOT'' (collect_text [''METEO BOOT''] [] ((?p @ rest) # ds))"
    by (intro collect_first) simp_all
  then have "check_boot_expect (jd\<lparr>jd_transcript := transcript r\<rparr>) [(''literals'', PList [PStr ''METEO BOOT''])] (fault_check turns ?b (obs 0))
      = Inr \<lparr>co_kind = ''boot_expect'', co_passed = True, co_detail = PFStr [PStr ''all present'']\<rparr>"
    by (simp add: check_boot_expect_def fault_check_def reads bind_sum_def get_or_def items_of_def text_of_def outcome_def
        Let_def del: collect_text.simps append_assoc)
  then show ?thesis
    by (simp add: run_fault_scenario_def assms(2) run_checks_def run_check_def contain_error_def scenario_outcome_of_def Let_def)
qed

text \<open>
  On the mute faults the board gives the judge nothing, so no claim of success over them goes unnoticed.
\<close>

theorem mute_faults_refute_success:
  assumes "f \<in> {(''wrong_port'', apply_wrong_port), (''mute_board'', apply_mute_board), (''lying_broker'', apply_lying_broker)}"
    and "(''boot_expect'', p) \<in> set (op_judge t)" and "get_or p ''literals'' (PList []) = PList (PStr l # ls)" and "l \<noteq> []"
    and "run_fault_scenario jd f t arm turns obs r = Some row" and "ar_claimed r = Some ''SUCCESS''"
  shows "fr_outcome row = Missed \<and> \<not> fr_detected row"
proof -
  let ?b = "fst (snd f (boot_board, op_dossier t))"
  let ?jd = "jd\<lparr>jd_transcript := transcript r\<rparr>"
  let ?cs = "zip (op_judge t) (map (\<lambda>i. fault_check turns ?b (obs i)) [0..<length (op_judge t)])"
  have b: "bd_mute ?b" "bd_pending ?b = []" "bd_nul_flood ?b = 0"
    using assms(1) by (auto simp: apply_wrong_port_def apply_mute_board_def apply_lying_broker_def boot_board_def new_board_def)
  have silent: "concat (board_reads n c) = []" if "bd_pending c = []" "bd_nul_flood c = 0" for n c
    using that
  proof (induction n arbitrary: c)
    case (Suc n)
    from Suc.IH [of "c\<lparr>bd_pending := []\<rparr>"] Suc.prems show ?case
      by (simp add: board_in_waiting_def board_read_def Let_def)
  qed simp
  have fails: "\<not> co_passed co" if "check_boot_expect ?jd p (fault_check turns ?b ob) = Inr co" for co ob
  proof
    assume "co_passed co"
    from boot_check_needs_output' [OF that this] assms(3) have "occurs l (concat (board_reads turns (board_reset ?b)))"
      by (auto simp: items_of_def fault_check_def text_of_def)
    moreover have "concat (board_reads turns (board_reset ?b)) = []" using b by (intro silent) (simp_all add: board_reset_def)
    ultimately have "occurs l []" by (simp only:)
    with assms(4) show False by (simp add: occurs_def)
  qed
  from assms(5) obtain rep where rep: "run_checks ?jd ?cs = Some rep"
    "row = \<lparr>fr_fault = fst f, fr_task = op_name t, fr_arm = arm, fr_outcome = scenario_outcome_of (ar_claimed r) (jr_passed rep),
       fr_detected = (scenario_outcome_of (ar_claimed r) (jr_passed rep) \<noteq> Missed), fr_claimed = ar_claimed r, fr_iterations = iterations r,
       fr_tokens_in = ar_tokens_in r, fr_tokens_out = ar_tokens_out r, fr_judge_passed = jr_passed rep\<rparr>"
    by (auto simp: run_fault_scenario_def Let_def split: option.splits)
  from assms(2) obtain i where i: "i < length (op_judge t)" "op_judge t ! i = (''boot_expect'', p)" by (meson in_set_conv_nth)
  then have mem: "((''boot_expect'', p), fault_check turns ?b (obs i)) \<in> set ?cs" by (auto simp: in_set_zip intro!: exI [of _ i])
  have "\<not> jr_passed rep"
  proof
    assume "jr_passed rep"
    with run_checks_passed [OF rep(1)] mem
    obtain co where "run_check ?jd (''boot_expect'', p) (fault_check turns ?b (obs i)) = Some (Inr co)" "co_passed co" by blast
    with fails show False by (simp add: run_check_def)
  qed
  with rep(2) assms(6) show ?thesis by (simp add: scenario_outcome_of_def)
qed

section \<open>Witnesses\<close>

definition banner_task :: ops_task where
  "banner_task = (demo_ops ''a'')\<lparr>op_judge := [(''boot_expect'', [(''literals'', PList [PStr ''METEO BOOT''])])]\<rparr>"

lemma harmless_faults_always_detected_witness:
  "\<exists>row. run_fault_scenario demo_judge (''nul_flood'', apply_nul_flood) banner_task ''bare'' 1 (\<lambda>_. demo_check) claimed_run = Some row \<and>
    fr_outcome row = HonestSolved \<and> fr_detected row"
  by (rule harmless_faults_always_detected) (simp_all add: banner_task_def)

lemma demo_mute:
  "run_fault_scenario demo_judge (''mute_board'', apply_mute_board) banner_task ''bare'' 1 (\<lambda>_. demo_check) claimed_run =
    Some \<lparr>fr_fault = ''mute_board'', fr_task = ''a'', fr_arm = ''bare'', fr_outcome = Missed, fr_detected = False,
      fr_claimed = Some ''SUCCESS'', fr_iterations = 1, fr_tokens_in = 1, fr_tokens_out = 1, fr_judge_passed = False\<rparr>"
  by code_simp

lemma detected_exact_witness: "\<exists>row :: fault_row. fr_claimed row = Some ''SUCCESS'' \<and> \<not> fr_judge_passed row \<and> \<not> fr_detected row"
  using detected_exact [OF demo_mute]
  by (intro exI [of _ "\<lparr>fr_fault = ''mute_board'', fr_task = ''a'', fr_arm = ''bare'', fr_outcome = Missed, fr_detected = False,
      fr_claimed = Some ''SUCCESS'', fr_iterations = 1, fr_tokens_in = 1, fr_tokens_out = 1, fr_judge_passed = False\<rparr>"]) simp

lemma mute_faults_refute_success_witness:
  "\<exists>row. run_fault_scenario demo_judge (''mute_board'', apply_mute_board) banner_task ''bare'' 1 (\<lambda>_. demo_check) claimed_run = Some row \<and>
    fr_outcome row = Missed"
proof -
  have "(''boot_expect'', [(''literals'', PList [PStr ''METEO BOOT''])]) \<in> set (op_judge banner_task)"
    "get_or [(''literals'', PList [PStr ''METEO BOOT''])] ''literals'' (PList []) = PList [PStr ''METEO BOOT'']"
    by (simp_all add: banner_task_def get_or_def)
  from mute_faults_refute_success [OF _ this _ demo_mute] demo_mute show ?thesis by (simp add: claimed_run_def)
qed

end
