(* ===== verification/CampaignFile.thy ===== *)
theory CampaignFile
  imports TextLines TaskModel
begin

text \<open>
  The result file of a campaign (\<open>_start_rows_campaign\<close>, \<open>_append_row\<close>, \<open>_replace_results_atomically\<close> and
  \<open>clean_stale_attempts\<close> of \<open>src/ironbench/cli.py\<close>): the records it holds, one for each line, the staged files
  beside it and the attempt directories. What each call of the operating system does is an observation.
\<close>

section \<open>Lines\<close>

text \<open>How a record is written: as one line that \<open>json.loads\<close> reads back.\<close>

definition written :: "(string \<Rightarrow> pyval option) \<Rightarrow> (fields \<Rightarrow> string) \<Rightarrow> fields \<Rightarrow> bool" where
  "written json dumps r =
     (one_line (dumps r) \<and> dumps r \<noteq> [] \<and> strip (dumps r) = dumps r \<and> json (dumps r) = Some (PDict r))"

section \<open>Replacing a file\<close>

definition REPLACE_TRIES :: nat where "REPLACE_TRIES = 6"

text \<open>The tries of \<open>os.replace\<close>: the sleeps between them and the exception that escapes, if any; \<open>None\<close> when the
  observations end before the loop.\<close>

fun replace_loop :: "nat \<Rightarrow> rat \<Rightarrow> exn option list \<Rightarrow> (rat list \<times> exn option) option" where
  "replace_loop n delay [] = None"
| "replace_loop n delay (None # os) = Some ([], None)"
| "replace_loop n delay (Some e # os) =
     (if \<not> catches [PermissionErr] e \<or> n + 1 = REPLACE_TRIES then Some ([], Some e)
      else map_option (\<lambda>(ds, r). (delay # ds, r)) (replace_loop (n + 1) (min (delay * 2) 1) os))"

definition replace_tries :: "exn option list \<Rightarrow> (rat list \<times> exn option) option" where
  "replace_tries = replace_loop 0 (1 / 20)"

section \<open>The directory of a campaign\<close>

record campaign_dir =
  cd_results :: "fields list option"
  cd_staged :: "string \<rightharpoonup> fields list"
  cd_attempts :: "string list"

text \<open>Staged files are named by the process that wrote them. Those that cannot be removed stay.\<close>

definition sweep_staged :: "(string \<Rightarrow> bool) \<Rightarrow> campaign_dir \<Rightarrow> campaign_dir" where
  "sweep_staged stuck d = d\<lparr>cd_staged := (\<lambda>n. if stuck n then cd_staged d n else None)\<rparr>"

text \<open>Writing the staged file and replacing the results with it.\<close>

definition stage_results ::
  "string \<Rightarrow> fields list \<Rightarrow> exn option \<Rightarrow> exn option list \<Rightarrow> campaign_dir \<Rightarrow> (campaign_dir \<times> exn option) option" where
  "stage_results pid recs write_error tries d =
     (case write_error of
        Some e \<Rightarrow> Some (d, Some e)
      | None \<Rightarrow>
          (let d1 = d\<lparr>cd_staged := (cd_staged d)(pid \<mapsto> recs)\<rparr> in
           map_option (\<lambda>(_, r). case r of
               Some e \<Rightarrow> (d1, Some e)
             | None \<Rightarrow> (d1\<lparr>cd_results := Some recs, cd_staged := (cd_staged d1)(pid := None)\<rparr>, None))
             (replace_tries tries)))"

definition tombstone_of :: "fields \<Rightarrow> fields" where
  "tombstone_of header = (''tombstone'', PBool True) # header"

definition start_rows_campaign ::
  "string \<Rightarrow> fields \<Rightarrow> (string \<Rightarrow> bool) \<Rightarrow> exn option \<Rightarrow> exn option list \<Rightarrow> campaign_dir \<Rightarrow> (campaign_dir \<times> exn option) option" where
  "start_rows_campaign pid header stuck write_error tries d =
     stage_results pid [tombstone_of header] write_error tries (sweep_staged stuck d)"

definition append_row :: "fields \<Rightarrow> campaign_dir \<Rightarrow> campaign_dir" where
  "append_row r d = d\<lparr>cd_results := Some ((case cd_results d of Some rs \<Rightarrow> rs | None \<Rightarrow> []) @ [r])\<rparr>"

text \<open>A record for an attempt that could not be run to its own verdict.\<close>

definition crash_row :: "pyval \<Rightarrow> fields \<Rightarrow> fields" where
  "crash_row err ident = [(''crashed'', PBool True), (''error_kind'', PStr ''infra''), (''error'', err)] @ ident"

text \<open>The directories of a previous campaign, whose removal ignores errors, and its staged files; the number reported.\<close>

definition clean_stale_attempts :: "bool \<Rightarrow> (string \<Rightarrow> bool) \<Rightarrow> (string \<Rightarrow> bool) \<Rightarrow> string list \<Rightarrow> campaign_dir \<Rightarrow> campaign_dir \<times> nat" where
  "clean_stale_attempts exists_dir kept stuck names d =
     (if \<not> exists_dir then (d, 0)
      else (sweep_staged stuck (d\<lparr>cd_attempts := filter kept (cd_attempts d)\<rparr>),
            length (cd_attempts d) + length (filter (\<lambda>n. cd_staged d n \<noteq> None \<and> \<not> stuck n) names)))"

section \<open>The tries are bounded\<close>

lemma replace_loop_bounds:
  "replace_loop n delay os = Some (ds, r) \<Longrightarrow> n < REPLACE_TRIES \<Longrightarrow> length ds + n < REPLACE_TRIES"
proof (induction n delay os arbitrary: ds rule: replace_loop.induct)
  case (3 n delay e os)
  then show ?case by (fastforce split: if_splits)
qed auto

text \<open>Six observations are enough, and the delays double from a twentieth of a second.\<close>

lemma replace_loop_ends:
  "n < REPLACE_TRIES \<Longrightarrow> REPLACE_TRIES \<le> n + length os \<Longrightarrow> replace_loop n delay os \<noteq> None"
proof (induction n delay os rule: replace_loop.induct)
  case (3 n delay e os)
  then show ?case by auto
qed auto

lemma replace_loop_success:
  "replace_loop n delay os = Some (ds, None) \<Longrightarrow> length ds < length os \<and> os ! length ds = None \<and>
     (\<forall>i < length ds. \<exists>e. os ! i = Some e \<and> catches [PermissionErr] e)"
proof (induction n delay os arbitrary: ds rule: replace_loop.induct)
  case (3 n delay e os)
  then obtain ds' where "replace_loop (n + 1) (min (delay * 2) 1) os = Some (ds', None)" "ds = delay # ds'"
    "catches [PermissionErr] e" "\<not> (\<not> catches [PermissionErr] e \<or> n + 1 = REPLACE_TRIES)"
    by (auto split: if_splits)
  with "3.IH" [of ds'] show ?case by (auto simp: less_Suc_eq_0_disj nth_Cons split: nat.splits)
qed auto

lemma replace_loop_pauses:
  "replace_loop n delay os = Some (ds, r) \<Longrightarrow> n < REPLACE_TRIES \<Longrightarrow> 0 \<le> delay \<Longrightarrow>
     sum_list ds \<le> delay * (2 ^ (REPLACE_TRIES - 1 - n) - 1)"
proof (induction n delay os arbitrary: ds rule: replace_loop.induct)
  case (3 n delay e os)
  show ?case
  proof (cases "\<not> catches [PermissionErr] e \<or> n + 1 = REPLACE_TRIES")
    case False
    then obtain ds' where rest: "replace_loop (n + 1) (min (delay * 2) 1) os = Some (ds', r)" and ds: "ds = delay # ds'"
      using "3.prems"(1) by auto
    from False "3.prems"(2) have n: "n + 1 < REPLACE_TRIES" by simp
    then obtain k where k: "REPLACE_TRIES - 1 - n = Suc k" "REPLACE_TRIES - 1 - (n + 1) = k"
      by (auto intro: that [of "REPLACE_TRIES - 1 - (n + 1)"])
    have "sum_list ds' \<le> min (delay * 2) 1 * (2 ^ k - 1)"
      using "3.IH" [OF False rest n] "3.prems"(3) k(2) by simp
    also have "\<dots> \<le> delay * 2 * (2 ^ k - 1)" by (intro mult_right_mono) (simp_all add: min_def)
    finally have "sum_list ds \<le> delay + delay * 2 * (2 ^ k - 1)" by (simp add: ds)
    then show ?thesis unfolding k(1) by (simp add: algebra_simps)
  qed (use "3.prems" in auto)
qed auto

lemma stage_results_parts:
  assumes "stage_results pid recs write_error tries d = Some (d', err)"
  shows "cd_results d' = (if err = None then Some recs else cd_results d)" "cd_attempts d' = cd_attempts d"
    "n \<noteq> pid \<Longrightarrow> cd_staged d' n = cd_staged d n"
proof -
  have "cd_results d' = (if err = None then Some recs else cd_results d) \<and> cd_attempts d' = cd_attempts d \<and>
    (n \<noteq> pid \<longrightarrow> cd_staged d' n = cd_staged d n)"
  proof (cases write_error)
    case None
    with assms obtain ds where "replace_tries tries = Some (ds, err)"
      by (auto simp: stage_results_def Let_def split: option.splits)
    with assms None show ?thesis by (cases err) (auto simp: stage_results_def Let_def)
  qed (use assms in \<open>auto simp: stage_results_def\<close>)
  then show "cd_results d' = (if err = None then Some recs else cd_results d)" "cd_attempts d' = cd_attempts d"
    "n \<noteq> pid \<Longrightarrow> cd_staged d' n = cd_staged d n"
    by auto
qed

text \<open>
  Replacing the results takes at most six tries and 1.55 seconds of pauses, and only refusals for lack of
  permission are tried again. Whatever happens the results are afterwards the old records or the whole of the new
  ones, never a mixture: the new ones exactly when no exception is raised, and then nothing stays staged.
\<close>

theorem replace_results_atomic:
  assumes "stage_results pid recs write_error tries d = Some (d', err)"
  shows "cd_results d' = (if err = None then Some recs else cd_results d) \<and>
    (err = None \<longrightarrow> cd_staged d' pid = None) \<and>
    (\<forall>n. n \<noteq> pid \<longrightarrow> cd_staged d' n = cd_staged d n) \<and> cd_attempts d' = cd_attempts d \<and>
    (write_error = None \<longrightarrow> (\<exists>ds. replace_tries tries = Some (ds, err) \<and> length ds < REPLACE_TRIES \<and> sum_list ds \<le> 31 / 20 \<and>
       (err = None \<longrightarrow> tries ! length ds = None \<and> (\<forall>i < length ds. \<exists>e. tries ! i = Some e \<and> catches [PermissionErr] e))))"
proof (cases write_error)
  case None
  then obtain ds where ds: "replace_tries tries = Some (ds, err)"
    and d': "d' = (let d1 = d\<lparr>cd_staged := (cd_staged d)(pid \<mapsto> recs)\<rparr> in
      if err = None then d1\<lparr>cd_results := Some recs, cd_staged := (cd_staged d1)(pid := None)\<rparr> else d1)"
    using assms by (auto simp: stage_results_def Let_def split: option.splits)
  have "length ds < REPLACE_TRIES" "sum_list ds \<le> 31 / 20"
    using replace_loop_bounds [of 0 "1 / 20" tries ds err] replace_loop_pauses [of 0 "1 / 20" tries ds err] ds
    by (simp_all add: replace_tries_def REPLACE_TRIES_def)
  moreover have "err = None \<longrightarrow> tries ! length ds = None \<and> (\<forall>i < length ds. \<exists>e. tries ! i = Some e \<and> catches [PermissionErr] e)"
    using replace_loop_success ds unfolding replace_tries_def by blast
  ultimately show ?thesis using ds d' by (auto simp: Let_def)
qed (use assms in \<open>auto simp: stage_results_def\<close>)

lemma replace_results_atomic_witness:
  "\<exists>d'. stage_results ''7'' [[]] None [Some (Exn PermissionErr PNone), None] \<lparr>cd_results = None, cd_staged = Map.empty, cd_attempts = []\<rparr>
      = Some (d', None) \<and> cd_results d' = Some [[]] \<and> cd_staged d' ''7'' = None"
proof -
  let ?d = "\<lparr>cd_results = None, cd_staged = Map.empty, cd_attempts = []\<rparr>"
  have "catches [PermissionErr] (Exn PermissionErr PNone)" by code_simp
  then obtain d' where "stage_results ''7'' [[]] None [Some (Exn PermissionErr PNone), None] ?d = Some (d', None)"
    by (simp add: stage_results_def replace_tries_def REPLACE_TRIES_def Let_def)
  with replace_results_atomic [OF this] show ?thesis by simp
qed

lemma stage_results_total:
  "REPLACE_TRIES \<le> length tries \<Longrightarrow> stage_results pid recs we tries d \<noteq> None"
  using replace_loop_ends [of 0 tries "1 / 20"] unfolding stage_results_def replace_tries_def Let_def
  by (cases we; cases "replace_loop 0 (1 / 20) tries") (simp_all add: REPLACE_TRIES_def)

end
