(* ===== verification/OpsReport.thy ===== *)
theory OpsReport
  imports OpsFaults CampaignFile Floats "HOL-Library.AList" "HOL-Library.Char_ord" "HOL-Library.List_Lexorder"
begin

text \<open>
  The summary of an ops campaign (\<open>src/ironbench/ops_report.py\<close>): reading the rows and aggregating them per
  model and arm. \<open>json.loads\<close> and \<open>str\<close> are parameters; a number is the rational it denotes. The Markdown
  rendering is not modelled.
\<close>

section \<open>Reading rows\<close>

text \<open>One line: nothing for a blank one or a tombstone, \<open>Inl\<close> for one that is no JSON object.\<close>

definition row_line :: "(string \<Rightarrow> pyval option) \<Rightarrow> string \<Rightarrow> (unit + fields) option" where
  "row_line json line =
     (let l = strip line in
      if l = [] then None
      else case json l of
        Some (PDict rec) \<Rightarrow> if truthy (get_or rec ''tombstone'' PNone) then None else Some (Inr rec)
      | _ \<Rightarrow> Some (Inl ()))"

definition load_rows :: "(string \<Rightarrow> pyval option) \<Rightarrow> string \<Rightarrow> fields list \<times> nat" where
  "load_rows json txt =
     (let ls = List.map_filter (row_line json) (splitlines txt) in
      (List.map_filter (\<lambda>p. case p of Inr rec \<Rightarrow> Some rec | Inl _ \<Rightarrow> None) ls, length (filter isl ls)))"

section \<open>Aggregation\<close>

definition row_get :: "fields \<Rightarrow> string \<Rightarrow> pyval" where
  "row_get r k = get_or r k PNone"

definition row_solved :: "fields \<Rightarrow> bool" where
  "row_solved r = truthy (row_get r ''solved'')"

text \<open>A row that is judged; the others are infrastructure failures.\<close>

definition judged :: "fields \<Rightarrow> bool" where
  "judged r = (row_get r ''error_kind'' \<noteq> PStr ''infra'' \<or> row_solved r)"

definition bucket_key :: "fields \<Rightarrow> pyval \<times> pyval" where
  "bucket_key r = (row_get r ''model'', row_get r ''arm'')"

fun put_bucket :: "fields \<Rightarrow> ((pyval \<times> pyval) \<times> fields list) list \<Rightarrow> ((pyval \<times> pyval) \<times> fields list) list" where
  "put_bucket r [] = [(bucket_key r, [r])]"
| "put_bucket r ((k, rs) # bs) = (if k = bucket_key r then (k, rs @ [r]) # bs else (k, rs) # put_bucket r bs)"

text \<open>Keys of a dictionary must be hashable.\<close>

definition buckets :: "fields list \<Rightarrow> exn + ((pyval \<times> pyval) \<times> fields list) list" where
  "buckets rows =
     (if list_all (\<lambda>r. hashable (row_get r ''model'') \<and> hashable (row_get r ''arm'')) rows
      then Inr (fold put_bucket rows []) else Inl (Exn TypeErr (PStr ''unhashable type'')))"

text \<open>\<open>sum(r.get(k) or 0 for r in rows)\<close>, and a mean of a non-empty list.\<close>

definition num_sum :: "pyval list \<Rightarrow> exn + pfloat" where
  "num_sum vs =
     (if list_all (\<lambda>v. num_val v \<noteq> None) vs then Inr (sum_list (map (\<lambda>v. the (num_val v)) vs))
      else Inl (Exn TypeErr (PStr ''unsupported operand type(s) for +'')))"

definition field_sum :: "string \<Rightarrow> fields list \<Rightarrow> exn + pfloat" where
  "field_sum k rows = num_sum (map (\<lambda>r. py_or (row_get r k) (PInt 0)) rows)"

definition field_mean :: "string \<Rightarrow> fields list \<Rightarrow> exn + pfloat option" where
  "field_mean k rows =
     (if rows = [] then Inr None
      else map_sum id (\<lambda>t. Some (case t of Fin q \<Rightarrow> Fin (q / of_nat (length rows)) | x \<Rightarrow> x)) (field_sum k rows))"

text \<open>The length of a text counts its characters: the bytes that do not continue one.\<close>

definition py_length :: "pyval \<Rightarrow> exn + nat" where
  "py_length v =
     (case v of
        PList xs \<Rightarrow> Inr (length xs)
      | PStr s \<Rightarrow> Inr (length (filter (\<lambda>c. (of_char c :: nat) div 64 \<noteq> 2) s))
      | PDict d \<Rightarrow> Inr (length d)
      | _ \<Rightarrow> Inl (Exn TypeErr (PStr ''object has no len()'')))"

fun accident_sum :: "fields list \<Rightarrow> exn + nat" where
  "accident_sum [] = Inr 0"
| "accident_sum (r # rs) =
     bind_sum (py_length (py_or (row_get r ''accidents'') (PList []))) (\<lambda>n. map_sum id ((+) n) (accident_sum rs))"

definition rate_of :: "(fields \<Rightarrow> bool) \<Rightarrow> fields list \<Rightarrow> rat option" where
  "rate_of P rows = (if rows = [] then None else Some (of_nat (length (filter P rows)) / of_nat (length rows)))"

record ops_group =
  og_attempts :: nat
  og_solved :: nat
  og_pass_rate :: "rat option"
  og_silent :: nat
  og_silent_rate :: "rat option"
  og_honest_fail :: nat
  og_no_claim :: nat
  og_accidents :: nat
  og_tokens_in :: pfloat
  og_tokens_out :: pfloat
  og_avg_iterations :: "pfloat option"
  og_avg_duration :: "pfloat option"
  og_solve_duration :: "pfloat option"
  og_solve_tokens_in :: "pfloat option"
  og_solve_tokens_out :: "pfloat option"

definition row_silent :: "fields \<Rightarrow> bool" where
  "row_silent r = truthy (row_get r ''silent_failure'')"

definition row_honest_fail :: "fields \<Rightarrow> bool" where
  "row_honest_fail r = (\<not> row_solved r \<and> row_get r ''claimed'' = PStr ''FAIL'')"

definition row_no_claim :: "fields \<Rightarrow> bool" where
  "row_no_claim r = (\<not> row_solved r \<and> \<not> truthy (row_get r ''claimed''))"

definition group_of :: "fields list \<Rightarrow> exn + ops_group" where
  "group_of rows =
     (let done = filter row_solved rows in
      bind_sum (accident_sum rows) (\<lambda>acc.
      bind_sum (field_sum ''tokens_in'' rows) (\<lambda>ti.
      bind_sum (field_sum ''tokens_out'' rows) (\<lambda>to.
      bind_sum (field_mean ''iterations'' rows) (\<lambda>it.
      bind_sum (field_mean ''duration_sec'' rows) (\<lambda>du.
      bind_sum (field_mean ''duration_sec'' done) (\<lambda>sd.
      bind_sum (field_mean ''tokens_in'' done) (\<lambda>si.
      bind_sum (field_mean ''tokens_out'' done) (\<lambda>so.
      Inr \<lparr>og_attempts = length rows, og_solved = length done, og_pass_rate = rate_of row_solved rows,
           og_silent = length (filter row_silent rows), og_silent_rate = rate_of row_silent rows,
           og_honest_fail = length (filter row_honest_fail rows), og_no_claim = length (filter row_no_claim rows),
           og_accidents = acc, og_tokens_in = ti, og_tokens_out = to, og_avg_iterations = it, og_avg_duration = du,
           og_solve_duration = sd, og_solve_tokens_in = si, og_solve_tokens_out = so\<rparr>)))))))))"

record fault_group =
  fg_injected :: nat
  fg_detected :: nat
  fg_rate :: "rat option"

definition row_detected :: "fields \<Rightarrow> bool" where
  "row_detected r = truthy (row_get r ''detected'')"

definition rows_detection_rate :: "fields list \<Rightarrow> rat option" where
  "rows_detection_rate rows = rate_of row_detected rows"

definition fault_group_of :: "fields list \<Rightarrow> fault_group" where
  "fault_group_of rows =
     \<lparr>fg_injected = length rows, fg_detected = length (filter row_detected rows), fg_rate = rows_detection_rate rows\<rparr>"

text \<open>The name of a group is the text of its key; a later bucket of the same name replaces the earlier one.\<close>

definition group_name :: "(pyval \<Rightarrow> string) \<Rightarrow> pyval \<times> pyval \<Rightarrow> string" where
  "group_name str_of k = text_of str_of (fst k) @ '' / '' @ text_of str_of (snd k)"

fun named_groups ::
  "(pyval \<Rightarrow> string) \<Rightarrow> ((pyval \<times> pyval) \<times> fields list) list \<Rightarrow> (string \<times> ops_group) list \<Rightarrow> exn + (string \<times> ops_group) list" where
  "named_groups str_of [] gs = Inr gs"
| "named_groups str_of ((k, rs) # bs) gs =
     bind_sum (group_of rs) (\<lambda>g. named_groups str_of bs (AList.update (group_name str_of k) g gs))"

definition named_faults :: "(pyval \<Rightarrow> string) \<Rightarrow> ((pyval \<times> pyval) \<times> fields list) list \<Rightarrow> (string \<times> fault_group) list" where
  "named_faults str_of bs = fold (\<lambda>(k, rs). AList.update (group_name str_of k) (fault_group_of rs)) bs []"

record ops_summary =
  su_total :: nat
  su_judged :: nat
  su_infra :: nat
  su_dropped :: nat
  su_groups :: "(string \<times> ops_group) list"
  su_faults :: "(string \<times> fault_group) list"

definition summarize :: "(pyval \<Rightarrow> string) \<Rightarrow> fields list \<Rightarrow> nat \<Rightarrow> exn + ops_summary" where
  "summarize str_of rows dropped =
     bind_sum (buckets (filter judged rows)) (\<lambda>bs.
     bind_sum (named_groups str_of bs []) (\<lambda>gs.
     bind_sum (buckets (filter (\<lambda>r. truthy (row_get r ''fault'')) rows)) (\<lambda>fs.
     Inr \<lparr>su_total = length rows, su_judged = length (filter judged rows),
          su_infra = length (filter (\<lambda>r. \<not> judged r) rows), su_dropped = dropped, su_groups = sort_key fst gs,
          su_faults = named_faults str_of fs\<rparr>)))"

section \<open>Buckets and groups\<close>

lemma put_bucket_map:
  "map_of (put_bucket r bs) k =
     (if k = bucket_key r then Some ((case map_of bs k of Some rs \<Rightarrow> rs | None \<Rightarrow> []) @ [r]) else map_of bs k)"
  by (induction r bs rule: put_bucket.induct) auto

lemma put_bucket_keys:
  "map fst (put_bucket r bs) = (if bucket_key r \<in> fst ` set bs then map fst bs else map fst bs @ [bucket_key r])"
  by (induction r bs rule: put_bucket.induct) (auto split: if_splits)

lemma buckets_distinct: "distinct (map fst (fold put_bucket rows []))"
  by (induction rows rule: rev_induct) (auto simp: put_bucket_keys)

lemma buckets_map:
  "map_of (fold put_bucket rows []) k =
     (if k \<in> bucket_key ` set rows then Some (filter (\<lambda>r. bucket_key r = k) rows) else None)"
proof (induction rows rule: rev_induct)
  case (snoc r rows)
  have "filter (\<lambda>r. bucket_key r = k) rows = []" if "k \<notin> bucket_key ` set rows"
    using that by (auto simp: filter_empty_conv)
  with snoc show ?case by (auto simp: put_bucket_map)
qed simp

lemma buckets_keys: "fst ` set (fold put_bucket rows []) = bucket_key ` set rows"
proof -
  have "fst ` set (fold put_bucket rows []) = dom (map_of (fold put_bucket rows []))" by (simp add: dom_map_of_conv_image_fst)
  also have "\<dots> = bucket_key ` set rows" by (auto simp: buckets_map dom_def split: if_splits)
  finally show ?thesis .
qed

lemma update_fresh: "n \<notin> fst ` set gs \<Longrightarrow> AList.update n g gs = gs @ [(n, g)]"
  by (induction gs) auto

text \<open>When the names differ, the groups are the buckets, one by one.\<close>

lemma named_groups_fresh:
  assumes "named_groups str_of bs gs = Inr gs'" and "distinct (map fst gs @ map (group_name str_of \<circ> fst) bs)"
  shows "\<exists>os. gs' = gs @ os \<and> list_all2 (\<lambda>b p. fst p = group_name str_of (fst b) \<and> group_of (snd b) = Inr (snd p)) bs os"
  using assms
proof (induction str_of bs gs rule: named_groups.induct)
  case (2 str_of k rs bs gs)
  from 2(2) obtain g where g: "group_of rs = Inr g"
    and rest: "named_groups str_of bs (AList.update (group_name str_of k) g gs) = Inr gs'"
    by (auto simp: bind_sum_def split: sum.splits)
  from 2(3) have fresh: "group_name str_of k \<notin> fst ` set gs" by auto
  have "distinct (map fst (AList.update (group_name str_of k) g gs) @ map (group_name str_of \<circ> fst) bs)"
    using 2(3) fresh by (simp add: update_fresh comp_def)
  from 2(1) [OF rest this] obtain os where
    "gs' = (gs @ [(group_name str_of k, g)]) @ os"
    "list_all2 (\<lambda>b p. fst p = group_name str_of (fst b) \<and> group_of (snd b) = Inr (snd p)) bs os"
    using fresh by (auto simp: update_fresh)
  with g show ?case by (intro exI [of _ "(group_name str_of k, g) # os"]) auto
qed simp

lemma group_of_counts:
  assumes "group_of rows = Inr g"
  shows "og_attempts g = length rows" "og_solved g = length (filter row_solved rows)"
    "og_silent g = length (filter row_silent rows)" "og_honest_fail g = length (filter row_honest_fail rows)"
    "og_no_claim g = length (filter row_no_claim rows)" "og_pass_rate g = rate_of row_solved rows"
  using assms unfolding group_of_def Let_def bind_sum_def by (auto split: sum.split_asm)

section \<open>The summary counts the rows\<close>

definition rows_at :: "pyval \<times> pyval \<Rightarrow> fields list \<Rightarrow> fields list" where
  "rows_at k rows = filter (\<lambda>r. judged r \<and> bucket_key r = k) rows"

lemma put_bucket_size:
  "sum_list (map (length \<circ> snd) (put_bucket r bs)) = Suc (sum_list (map (length \<circ> snd) bs))"
  by (induction r bs rule: put_bucket.induct) auto

lemma buckets_size: "sum_list (map (length \<circ> snd) (fold put_bucket rows [])) = length rows"
  by (induction rows rule: rev_induct) (simp_all add: put_bucket_size [unfolded comp_def] comp_def)

lemma map_of_sorted: "distinct (map fst gs) \<Longrightarrow> map_of (sort_key fst gs) = map_of gs"
  by (subst map_of_inject_set) (simp_all add: distinct_map)

text \<open>The groups and the buckets they come from.\<close>

lemma summary_groups:
  assumes s: "summarize str_of rows dropped = Inr s"
    and names: "inj_on (group_name str_of) (bucket_key ` set (filter judged rows))"
  obtains os where "su_groups s = sort_key fst os" "distinct (map fst os)"
    "list_all2 (\<lambda>b p. fst p = group_name str_of (fst b) \<and> group_of (snd b) = Inr (snd p))
       (fold put_bucket (filter judged rows) []) os"
proof -
  let ?bs = "fold put_bucket (filter judged rows) []"
  obtain gs where g: "named_groups str_of ?bs [] = Inr gs" and sg: "su_groups s = sort_key fst gs"
    using s by (auto simp: summarize_def buckets_def bind_sum_def split: sum.split_asm if_split_asm)
  have d: "distinct (map (group_name str_of) (map fst ?bs))"
    using names buckets_distinct [of "filter judged rows"] by (simp only: distinct_map set_map buckets_keys)
  then obtain os where os: "gs = [] @ os"
    "list_all2 (\<lambda>b p. fst p = group_name str_of (fst b) \<and> group_of (snd b) = Inr (snd p)) ?bs os"
    using named_groups_fresh [OF g] by (auto simp: comp_def)
  have "map fst os = map (group_name str_of) (map fst ?bs)"
    using os(2) by (induction rule: list_all2_induct) auto
  with d sg os that show thesis by (simp only: append_Nil)
qed


definition demo_rows :: "fields list" where
  "demo_rows =
     [[(''model'', PStr ''m''), (''arm'', PStr ''mcp''), (''solved'', PBool True), (''claimed'', PStr ''SUCCESS'')],
      [(''model'', PStr ''m''), (''arm'', PStr ''mcp''), (''silent_failure'', PBool True), (''claimed'', PStr ''SUCCESS'')],
      [(''model'', PStr ''m''), (''arm'', PStr ''bare''), (''error_kind'', PStr ''infra'')]]"


section \<open>Lines\<close>

text \<open>Every line that is not blank is a row, a tombstone or counted as dropped.\<close>

definition boundary_line :: "(string \<Rightarrow> pyval option) \<Rightarrow> string \<Rightarrow> bool" where
  "boundary_line json l =
     (case json (strip l) of Some (PDict rec) \<Rightarrow> truthy (get_or rec ''tombstone'' PNone) | _ \<Rightarrow> False)"

lemma load_rows_lines:
  "length (fst (load_rows json txt)) + snd (load_rows json txt) +
     length (filter (\<lambda>l. strip l \<noteq> [] \<and> boundary_line json l) (splitlines txt))
   = length (filter (\<lambda>l. strip l \<noteq> []) (splitlines txt))"
proof -
  have "length (List.map_filter (\<lambda>p. case p of Inr rec \<Rightarrow> Some rec | Inl _ \<Rightarrow> None) (List.map_filter (row_line json) ls))
      + length (filter isl (List.map_filter (row_line json) ls))
      + length (filter (\<lambda>l. strip l \<noteq> [] \<and> boundary_line json l) ls) = length (filter (\<lambda>l. strip l \<noteq> []) ls)" for ls
  proof (induction ls)
    case (Cons l ls)
    show ?case
    proof (cases "json (strip l)")
      case None
      with Cons show ?thesis by (simp add: List.map_filter_simps row_line_def boundary_line_def Let_def)
    next
      case (Some v)
      with Cons show ?thesis by (cases v) (simp_all add: List.map_filter_simps row_line_def boundary_line_def Let_def)
    qed
  qed (simp add: List.map_filter_simps)
  then show ?thesis by (simp add: load_rows_def Let_def)
qed

lemma load_rows_written:
  assumes "list_all (written json dumps) rs"
  shows "load_rows json (concat (map (\<lambda>r. dumps r @ [ch 10]) rs)) = (filter (\<lambda>r. \<not> truthy (row_get r ''tombstone'')) rs, 0)"
proof -
  have "splitlines (concat (map (\<lambda>l. l @ [ch 10]) (map dumps rs))) = map dumps rs"
    using assms by (intro splitlines_join) (auto simp: written_def list_all_iff)
  then have "splitlines (concat (map (\<lambda>r. dumps r @ [ch 10]) rs)) = map dumps rs" by (simp add: comp_def)
  moreover have "List.map_filter (row_line json) (map dumps rs)
      = map Inr (filter (\<lambda>r. \<not> truthy (row_get r ''tombstone'')) rs)"
    using assms by (induction rs) (simp_all add: List.map_filter_simps row_line_def written_def row_get_def Let_def)
  moreover have "List.map_filter (\<lambda>p. case p of Inr rec \<Rightarrow> Some rec | Inl _ \<Rightarrow> None) (map Inr rs) = rs" for rs :: "fields list"
    by (induction rs) (simp_all add: List.map_filter_simps)
  moreover have "filter isl (map Inr rs) = []" for rs :: "fields list" by (induction rs) simp_all
  ultimately show ?thesis by (simp add: load_rows_def)
qed

text \<open>The line separator of Unicode, as \<open>json.dumps(..., ensure_ascii=False)\<close> leaves it inside a string.\<close>

definition LINE_SEPARATOR :: string where "LINE_SEPARATOR = [ch 226, ch 128, ch 168]"

lemma split_from_separator:
  "one_line s \<Longrightarrow> split_from cur (s @ LINE_SEPARATOR @ t) = (cur @ s) # split_from [] t"
proof (induction s arbitrary: cur)
  case Nil
  have bytes: "of_char (ch 226) = (226 :: nat)" by (simp add: ch_def)
  have "boundary (ch 226 # ch 128 # ch 168 # t) = 3" by (simp add: bytes Let_def)
  then show ?case by (simp add: LINE_SEPARATOR_def Let_def del: boundary.simps)
next
  case (Cons c s)
  then have "boundary (c # s @ LINE_SEPARATOR @ t) = 0" by (intro boundary_plain) (simp add: one_line_def)
  with Cons show ?case by (simp add: one_line_def Let_def del: boundary.simps)
qed

text \<open>
  A row whose text holds a Unicode line separator (an error message, what a board printed) is torn by the reader,
  which cuts at every boundary \<open>splitlines\<close> knows, while the writer ends a row with a newline only: the row is
  lost and two lines are counted as dropped, whatever the row said, and the rows after it are read as before.
\<close>

theorem separator_tears_row:
  assumes "one_line a" "one_line b" and "strip a \<noteq> []" "strip b \<noteq> []"
    and "json (strip a) = None" "json (strip b) = None"
  shows "load_rows json (a @ LINE_SEPARATOR @ b @ ch 10 # rest)
    = (fst (load_rows json rest), snd (load_rows json rest) + 2)"
proof -
  have "splitlines (a @ LINE_SEPARATOR @ b @ ch 10 # rest) = a # b # splitlines rest"
    using split_from_separator [OF assms(1), of "[]"] split_from_break [OF assms(2), of "[]"] by (simp add: splitlines_def)
  then show ?thesis using assms by (simp add: load_rows_def List.map_filter_simps row_line_def Let_def)
qed

lemma separator_tears_row_witness:
  "load_rows (\<lambda>l. if l = ''r'' then Some (PDict []) else None) (''{'' @ LINE_SEPARATOR @ ''}'' @ ch 10 # ''r'') = ([[]], 2)"
proof -
  have "one_line ''{''" "one_line ''}''" "strip ''{'' \<noteq> []" "strip ''}'' \<noteq> []" "strip ''{'' \<noteq> ''r''" "strip ''}'' \<noteq> ''r''"
    "load_rows (\<lambda>l. if l = ''r'' then Some (PDict []) else None) ''r'' = ([[]], 0)"
    by code_simp+
  then show ?thesis
    using separator_tears_row [of "''{''" "''}''" "\<lambda>l. if l = ''r'' then Some (PDict []) else None" "''r''"] by simp
qed

section \<open>Fault rows\<close>

text \<open>The dictionary of a fault row, as the suite writes it with the model added.\<close>

definition outcome_name :: "scenario_outcome \<Rightarrow> string" where
  "outcome_name out = (case out of Detected \<Rightarrow> ''detected'' | Missed \<Rightarrow> ''missed'' | HonestSolved \<Rightarrow> ''honest_solved'')"

definition fault_fields :: "string \<Rightarrow> string \<Rightarrow> fault_row \<Rightarrow> fields" where
  "fault_fields model incident fr =
     [(''fault'', PStr (fr_fault fr)), (''incident'', PStr incident), (''task'', PStr (fr_task fr)),
      (''arm'', PStr (fr_arm fr)), (''outcome'', PStr (outcome_name (fr_outcome fr))), (''detected'', PBool (fr_detected fr)),
      (''claimed'', (case fr_claimed fr of Some c \<Rightarrow> PStr c | None \<Rightarrow> PNone)), (''iterations'', PInt (int (fr_iterations fr))),
      (''tokens_in'', PInt (fr_tokens_in fr)), (''tokens_out'', PInt (fr_tokens_out fr)),
      (''judge_passed'', PBool (fr_judge_passed fr)), (''model'', PStr model)]"

lemma update_set: "p \<in> set (AList.update n g gs) \<Longrightarrow> p = (n, g) \<or> p \<in> set gs"
  by (induction gs) (auto split: if_splits)

text \<open>Every group is that of some bucket.\<close>

lemma named_groups_from:
  "named_groups str_of bs gs = Inr gs' \<Longrightarrow> p \<in> set gs' \<Longrightarrow>
     p \<in> set gs \<or> (\<exists>b \<in> set bs. group_of (snd b) = Inr (snd p))"
proof (induction str_of bs gs rule: named_groups.induct)
  case (2 str_of k rs bs gs)
  from 2(2) obtain g where g: "group_of rs = Inr g"
    and rest: "named_groups str_of bs (AList.update (group_name str_of k) g gs) = Inr gs'"
    by (auto simp: bind_sum_def split: sum.splits)
  from 2(1) [OF rest 2(3)] g show ?case by (auto dest: update_set)
qed simp

lemma summary_group_from:
  assumes "summarize str_of rows dropped = Inr s" and "p \<in> set (su_groups s)"
  obtains rs where "group_of rs = Inr (snd p)" "rs \<noteq> []" "set rs \<subseteq> set rows"
proof -
  let ?bs = "fold put_bucket (filter judged rows) []"
  obtain gs where g: "named_groups str_of ?bs [] = Inr gs" "su_groups s = sort_key fst gs"
    using assms(1) by (auto simp: summarize_def buckets_def bind_sum_def split: sum.split_asm if_split_asm)
  with named_groups_from [OF g(1), of p] assms(2) obtain b where b: "b \<in> set ?bs" "group_of (snd b) = Inr (snd p)" by auto
  then have "map_of ?bs (fst b) = Some (snd b)" by (simp add: buckets_distinct)
  then have "snd b = filter (\<lambda>r. bucket_key r = fst b) (filter judged rows)" "fst b \<in> bucket_key ` set (filter judged rows)"
    by (auto simp: buckets_map split: if_splits)
  then have "snd b \<noteq> []" "set (snd b) \<subseteq> set rows" by (auto simp: filter_empty_conv)
  with b(2) show thesis by (rule that)
qed

text \<open>
  The summary takes the rows of the fault suite for attempts: they have neither a verdict of an attempt nor an
  error kind, so all of them are judged and none is solved; the pass rate of every group made of them is 0 even where
  the judge confirmed every scenario.
\<close>

theorem fault_rows_unsolved:
  assumes "summarize str_of (map (\<lambda>(m, i, fr). fault_fields m i fr) frs) dropped = Inr s"
  shows "su_judged s = length frs \<and> (\<forall>p \<in> set (su_groups s). og_solved (snd p) = 0 \<and> og_pass_rate (snd p) = Some 0)"
proof -
  let ?rows = "map (\<lambda>(m, i, fr). fault_fields m i fr) frs"
  have row: "judged r \<and> \<not> row_solved r" if "r \<in> set ?rows" for r
    using that by (auto simp: judged_def row_solved_def row_get_def get_or_def fault_fields_def)
  then have "filter judged ?rows = ?rows" by (intro filter_True) blast
  then have "su_judged s = length frs"
    using assms by (auto simp: summarize_def bind_sum_def split: sum.split_asm)
  moreover have "og_solved (snd p) = 0 \<and> og_pass_rate (snd p) = Some 0" if p: "p \<in> set (su_groups s)" for p
  proof -
    obtain rs where rs: "group_of rs = Inr (snd p)" "rs \<noteq> []" "set rs \<subseteq> set ?rows"
      using summary_group_from [OF assms p] .
    then have "filter row_solved rs = []" using row by (auto simp: filter_empty_conv)
    with group_of_counts [OF rs(1)] rs(2) show ?thesis by (simp add: rate_of_def)
  qed
  ultimately show ?thesis by blast
qed

definition solved_fault :: fault_row where
  "solved_fault = \<lparr>fr_fault = ''nul_flood'', fr_task = ''t'', fr_arm = ''mcp'', fr_outcome = HonestSolved, fr_detected = True,
     fr_claimed = Some ''SUCCESS'', fr_iterations = 1, fr_tokens_in = 0, fr_tokens_out = 0, fr_judge_passed = True\<rparr>"

lemma fault_rows_unsolved_witness:
  "\<exists>s. summarize (\<lambda>_. []) [fault_fields ''m'' ''i'' solved_fault] 0 = Inr s \<and> su_judged s = 1 \<and>
     (\<exists>p. su_groups s = [p] \<and> og_pass_rate (snd p) = Some 0)"
proof -
  let ?r = "[(''m'', ''i'', solved_fault)]"
  have "(case summarize (\<lambda>_. []) [fault_fields ''m'' ''i'' solved_fault] 0 of Inl _ \<Rightarrow> False | Inr s \<Rightarrow> length (su_groups s) = 1)"
    by code_simp
  then obtain s p where s: "summarize (\<lambda>_. []) (map (\<lambda>(m, i, fr). fault_fields m i fr) ?r) 0 = Inr s" "su_groups s = [p]"
    by (auto split: sum.splits simp: length_Suc_conv)
  with fault_rows_unsolved [OF s(1)] show ?thesis by (cases p) auto
qed

end
