(* ===== verification/OpsCli.thy ===== *)
theory OpsCli
  imports OpsReport
begin

text \<open>
  The ops campaigns of the command line (\<open>_cmd_ops_ab\<close> and \<open>_cmd_ops_faults\<close> of \<open>src/ironbench/cli.py\<close>): gates,
  the attempts in their order, the rows that survive, the exit code. The parsed arguments, the loaded tasks, the model
  of the configuration and what every attempt meets are arguments; the text of an exception with the name of its class
  is a parameter. An append that fails leaves nothing. Printing and opening the journal are not modelled.
\<close>

section \<open>Records\<close>

text \<open>\<open>OpsAttemptResult.row\<close>, with the report of the judge as it is written.\<close>

definition judge_dict :: "judge_report option \<Rightarrow> pyval" where
  "judge_dict rep =
     (case rep of
        None \<Rightarrow> PDict []
      | Some j \<Rightarrow>
          PDict [(''passed'', PBool (jr_passed j)),
            (''outcomes'', PList (map (\<lambda>c. PDict [(''kind'', PStr (co_kind c)), (''passed'', PBool (co_passed c)),
                                          (''detail'', co_detail c)]) (jr_outcomes j)))])"

definition opt_field :: "('a \<Rightarrow> pyval) \<Rightarrow> 'a option \<Rightarrow> pyval" where
  "opt_field f x = (case x of Some v \<Rightarrow> f v | None \<Rightarrow> PNone)"

definition row_fields :: "string \<Rightarrow> ops_row \<Rightarrow> fields" where
  "row_fields run_dir r =
     [(''task'', PStr (rw_task r)), (''arm'', PStr (rw_arm r)), (''model'', PStr (rw_model r)),
      (''attempt'', PInt (rw_attempt r)), (''solved'', PBool (rw_solved r)), (''claimed'', opt_field PStr (rw_claimed r)),
      (''silent_failure'', PBool (rw_silent_failure r)), (''iterations'', PInt (int (rw_iterations r))),
      (''duration_sec'', PNum (Fin (rw_duration r))), (''tokens_in'', PInt (rw_tokens_in r)),
      (''tokens_out'', PInt (rw_tokens_out r)), (''error'', opt_field id (rw_error r)),
      (''error_kind'', PStr (rw_error_kind r)), (''judge'', judge_dict (rw_judge r)),
      (''journal_coverage'', opt_field (\<lambda>q. PNum (Fin q)) (rw_coverage r)),
      (''accidents'', PList (map PStr (rw_accidents r))), (''restore_failed'', PBool (rw_restore_failed r)),
      (''run_dir'', PStr run_dir), (''journal_dropped'', PInt (int (rw_dropped r)))]"

section \<open>Attempts of both arms\<close>

record ab_args =
  aa_allow_real :: bool
  aa_task :: string
  aa_arm :: string
  aa_models :: "string list"
  aa_attempts :: int
  aa_port :: string

text \<open>The dictionary of the tasks by name.\<close>

definition by_name :: "ops_task list \<Rightarrow> (string \<times> ops_task) list" where
  "by_name ts = fold (\<lambda>t. AList.update (op_name t) t) ts []"

definition arms_of :: "string \<Rightarrow> string list" where
  "arms_of arm = (if arm = ''both'' then [''bare'', ''mcp''] else [arm])"

type_synonym ab_item = "string \<times> ops_task \<times> string \<times> int"

definition ab_plan :: "string list \<Rightarrow> ops_task list \<Rightarrow> string list \<Rightarrow> int \<Rightarrow> ab_item list" where
  "ab_plan models ts arms n = [(m, t, a, i). m \<leftarrow> models, t \<leftarrow> ts, a \<leftarrow> arms, i \<leftarrow> [1..n]]"

text \<open>What one attempt meets, and how its journal entry and its append end.\<close>

record ab_turn =
  tu_meets :: attempt_obs
  tu_run_dir :: string
  tu_journal :: "exn option"
  tu_append :: "exn option"

record ab_state =
  ab_dir :: campaign_dir
  ab_events :: "event list"
  ab_code :: nat

definition ab_ident :: "ab_item \<Rightarrow> fields" where
  "ab_ident p =
     (case p of (m, t, a, i) \<Rightarrow>
       [(''task'', PStr (op_name t)), (''arm'', PStr a), (''model'', PStr m), (''attempt'', PInt i)])"

definition item_config :: "string \<Rightarrow> ab_item \<Rightarrow> attempt_config" where
  "item_config port p =
     (case p of (m, t, a, i) \<Rightarrow> \<lparr>ac_arm = a, ac_model = m, ac_attempt = i, ac_port = port, ac_preflight = True\<rparr>)"

text \<open>The journal entry, the row and the exit code of an attempt.\<close>

definition ab_record :: "(exn \<Rightarrow> string) \<Rightarrow> ab_item \<Rightarrow> string \<Rightarrow> exn + ops_row \<Rightarrow> nat \<Rightarrow> event \<times> fields \<times> nat" where
  "ab_record crash_text p run_dir res code =
     (case res of
        Inl e \<Rightarrow> ((''attempt_crashed'', [(''error'', exn_str e)]), crash_row (PStr (crash_text e)) (ab_ident p), 1)
      | Inr r \<Rightarrow> ((''ops_attempt_result'', row_fields run_dir r), row_fields run_dir r,
                 if \<not> rw_solved r \<and> code = 0 then 1 else code))"

definition ab_attempt ::
  "attempt_world \<Rightarrow> (exn \<Rightarrow> string) \<Rightarrow> string \<Rightarrow> ab_item \<Rightarrow> ab_turn \<Rightarrow> ab_state \<Rightarrow> (ab_state \<times> exn option) option" where
  "ab_attempt wd crash_text port p tu st =
     map_option (\<lambda>(_, res).
       case ab_record crash_text p (tu_run_dir tu) res (ab_code st) of (ev, row, code) \<Rightarrow>
         (case tu_journal tu of
            Some e \<Rightarrow> (st, Some e)
          | None \<Rightarrow>
              (let st1 = st\<lparr>ab_events := ab_events st @ [ev]\<rparr> in
               case tu_append tu of
                 Some e \<Rightarrow> (st1, Some e)
               | None \<Rightarrow> (st1\<lparr>ab_dir := append_row row (ab_dir st), ab_code := code\<rparr>, None))))
       (run_ops_attempt wd (fst (snd p)) (item_config port p) (tu_meets tu))"

fun ab_loop ::
  "attempt_world \<Rightarrow> (exn \<Rightarrow> string) \<Rightarrow> string \<Rightarrow> ab_item list \<Rightarrow> ab_turn list \<Rightarrow> ab_state \<Rightarrow> (ab_state \<times> exn option) option" where
  "ab_loop wd crash_text port [] tus st = Some (st, None)"
| "ab_loop wd crash_text port (p # ps) [] st = None"
| "ab_loop wd crash_text port (p # ps) (tu # tus) st =
     (case ab_attempt wd crash_text port p tu st of
        None \<Rightarrow> None
      | Some (st1, Some e) \<Rightarrow> Some (st1, Some e)
      | Some (st1, None) \<Rightarrow> ab_loop wd crash_text port ps tus st1)"

text \<open>The tasks selected, and the gates before anything is touched.\<close>

definition ab_selected :: "ab_args \<Rightarrow> ops_task list \<Rightarrow> ops_task list option" where
  "ab_selected args ts =
     (if aa_task args = ''all'' then Some (map snd (by_name ts))
      else map_option (\<lambda>t. [t]) (map_of (by_name ts) (aa_task args)))"

definition ab_header :: "string \<Rightarrow> string list \<Rightarrow> ops_task list \<Rightarrow> int \<Rightarrow> fields" where
  "ab_header campaign models ts n =
     [(''campaign'', PStr campaign), (''kind'', PStr ''ops-ab''), (''models'', PList (map PStr models)),
      (''tasks'', PList (map (PStr \<circ> op_name) ts)), (''attempts'', PInt n)]"

text \<open>What the start of the campaign meets.\<close>

record start_obs =
  st_campaign :: string
  st_pid :: string
  st_stuck :: "string \<Rightarrow> bool"
  st_write :: "exn option"
  st_tries :: "exn option list"

definition start_campaign :: "start_obs \<Rightarrow> fields \<Rightarrow> campaign_dir \<Rightarrow> (campaign_dir \<times> exn option) option" where
  "start_campaign so header d = start_rows_campaign (st_pid so) header (st_stuck so) (st_write so) (st_tries so) d"

definition cmd_ops_ab ::
  "attempt_world \<Rightarrow> (exn \<Rightarrow> string) \<Rightarrow> ab_args \<Rightarrow> exn + ops_task list \<Rightarrow> exn + string \<Rightarrow> start_obs \<Rightarrow> ab_turn list \<Rightarrow>
   campaign_dir \<Rightarrow> (ab_state \<times> (exn + nat)) option" where
  "cmd_ops_ab wd crash_text args loaded cfg_model so tus d =
     (let st0 = \<lparr>ab_dir = d, ab_events = [], ab_code = 0\<rparr> in
      if \<not> aa_allow_real args then Some (st0, Inr 2)
      else if aa_attempts args < 1 then Some (st0, Inr 2)
      else case loaded of
        Inl e \<Rightarrow> Some (st0, Inl e)
      | Inr ts \<Rightarrow>
          (case ab_selected args ts of
             None \<Rightarrow> Some (st0, Inr 2)
           | Some selected \<Rightarrow>
               (case cfg_model of
                  Inl e \<Rightarrow> Some (st0, Inl e)
                | Inr model \<Rightarrow>
                    (let models = (if aa_models args = [] then [model] else aa_models args) in
                     case start_campaign so (ab_header (st_campaign so) models selected (aa_attempts args)) d of
                       None \<Rightarrow> None
                     | Some (d1, Some e) \<Rightarrow> Some (st0\<lparr>ab_dir := d1\<rparr>, Inl e)
                     | Some (d1, None) \<Rightarrow>
                         map_option (\<lambda>(st, r). (st, case r of Some e \<Rightarrow> Inl e | None \<Rightarrow> Inr (ab_code st)))
                           (ab_loop wd crash_text (aa_port args)
                              (ab_plan models selected (arms_of (aa_arm args)) (aa_attempts args)) tus
                              (st0\<lparr>ab_dir := d1\<rparr>))))))"

section \<open>One row for each attempt\<close>

definition row_of_item :: "ab_item \<Rightarrow> fields \<Rightarrow> bool" where
  "row_of_item p r =
     (case p of (m, t, a, i) \<Rightarrow>
       row_get r ''task'' = PStr (op_name t) \<and> row_get r ''arm'' = PStr a \<and> row_get r ''model'' = PStr m \<and>
       row_get r ''attempt'' = PInt i \<and> row_get r ''tombstone'' = PNone)"

lemma run_row_ident:
  assumes "run_ops_attempt wd t ac ob = Some (evs, Inr row)"
  shows "rw_task row = op_name t" "rw_arm row = ac_arm ac" "rw_model row = ac_model ac" "rw_attempt row = ac_attempt ac"
  using assms by (cases rule: attempt_arm_cases; simp add: infra_attempt_def judged_row_def base_row_def Let_def)+

lemma crash_row_ident: "row_of_item p (crash_row err (ab_ident p))" "\<not> row_solved (crash_row err (ab_ident p))"
  by (cases p; simp add: row_of_item_def crash_row_def ab_ident_def row_get_def get_or_def row_solved_def)+

lemma row_fields_get:
  "row_get (row_fields rd r) ''task'' = PStr (rw_task r)" "row_get (row_fields rd r) ''arm'' = PStr (rw_arm r)"
  "row_get (row_fields rd r) ''model'' = PStr (rw_model r)" "row_get (row_fields rd r) ''attempt'' = PInt (rw_attempt r)"
  "row_get (row_fields rd r) ''tombstone'' = PNone" "row_get (row_fields rd r) ''solved'' = PBool (rw_solved r)"
  "row_solved (row_fields rd r) = rw_solved r"
  by (simp_all add: row_fields_def row_get_def get_or_def row_solved_def)

lemma ab_record_row:
  assumes "run_ops_attempt wd (fst (snd p)) (item_config port p) ob = Some (evs, res)"
    and "ab_record crash_text p rd res code = (ev, row, code')"
  shows "row_of_item p row" "code' = 0 \<longleftrightarrow> code = 0 \<and> row_solved row" "code \<le> 1 \<Longrightarrow> code' \<le> 1"
proof -
  obtain m t a i where p: "p = (m, t, a, i)" by (cases p)
  have "row_of_item p row \<and> (code' = 0 \<longleftrightarrow> code = 0 \<and> row_solved row) \<and> (code \<le> 1 \<longrightarrow> code' \<le> 1)"
  proof (cases res)
    case (Inl e)
    with assms(2) show ?thesis using crash_row_ident [where p = p and err = "PStr (crash_text e)"] by (auto simp: ab_record_def)
  next
    case (Inr r)
    with assms(1) p have "rw_task r = op_name t" "rw_arm r = a" "rw_model r = m" "rw_attempt r = i"
      using run_row_ident by (fastforce simp: item_config_def)+
    with Inr assms(2) p show ?thesis by (auto simp: ab_record_def row_of_item_def row_fields_get split: if_splits)
  qed
  then show "row_of_item p row" "code' = 0 \<longleftrightarrow> code = 0 \<and> row_solved row" "code \<le> 1 \<Longrightarrow> code' \<le> 1" by auto
qed

text \<open>The loop appends the rows of its attempts in their order; an exception leaves those before it.\<close>

lemma ab_loop_rows:
  assumes "ab_loop wd crash_text port ps tus st = Some (st', err)" and "cd_results (ab_dir st) = Some rs"
  shows "\<exists>rows. cd_results (ab_dir st') = Some (rs @ rows) \<and> length rows \<le> length ps \<and>
    list_all2 row_of_item (take (length rows) ps) rows \<and> (err = None \<longrightarrow> length rows = length ps) \<and>
    (ab_code st' = 0 \<longleftrightarrow> ab_code st = 0 \<and> list_all row_solved rows) \<and> (ab_code st \<le> 1 \<longrightarrow> ab_code st' \<le> 1)"
  using assms
proof (induction wd crash_text port ps tus st arbitrary: rs rule: ab_loop.induct)
  case (1 wd crash_text port tus st)
  then show ?case by (intro exI [of _ "[]"]) simp
next
  case (3 wd crash_text port p ps tu tus st)
  obtain st1 e1 where one: "ab_attempt wd crash_text port p tu st = Some (st1, e1)"
    using 3(2) by (cases "ab_attempt wd crash_text port p tu st") auto
  then obtain evs res where
    run: "run_ops_attempt wd (fst (snd p)) (item_config port p) (tu_meets tu) = Some (evs, res)"
    by (auto simp: ab_attempt_def)
  obtain ev row code where rec: "ab_record crash_text p (tu_run_dir tu) res (ab_code st) = (ev, row, code)"
    by (metis prod_cases3)
  note r = ab_record_row [OF run rec]
  show ?case
  proof (cases e1)
    case (Some e)
    with one run rec have "ab_dir st1 = ab_dir st" "ab_code st1 = ab_code st"
      by (auto simp: ab_attempt_def Let_def split: option.splits)
    with Some 3(2,3) one show ?thesis by (intro exI [of _ "[]"]) auto
  next
    case None
    with one run rec 3(3) have st1: "cd_results (ab_dir st1) = Some (rs @ [row])" "ab_code st1 = code"
      by (auto simp: ab_attempt_def append_row_def Let_def split: option.splits)
    from None one 3(2) have "ab_loop wd crash_text port ps tus st1 = Some (st', err)" by simp
    from 3(1) [OF one [unfolded None] refl refl this st1(1)] show ?thesis
    proof (elim exE conjE)
      fix rows
      assume rows: "cd_results (ab_dir st') = Some ((rs @ [row]) @ rows)" "length rows \<le> length ps"
        "list_all2 row_of_item (take (length rows) ps) rows" "err = None \<longrightarrow> length rows = length ps"
        and code: "(ab_code st' = 0) = (ab_code st1 = 0 \<and> list_all row_solved rows)" "ab_code st1 \<le> 1 \<longrightarrow> ab_code st' \<le> 1"
      show ?thesis
      proof (intro exI [of _ "row # rows"] conjI)
        show "ab_code st' = 0 \<longleftrightarrow> ab_code st = 0 \<and> list_all row_solved (row # rows)"
          using code(1) r(2) st1(2) by simp
        show "ab_code st \<le> 1 \<longrightarrow> ab_code st' \<le> 1" using code(2) r(3) st1(2) by simp
      qed (use rows r(1) in simp_all)
    qed
  qed
qed simp

lemma ab_plan_length: "length (ab_plan models ts arms n) = length models * length ts * length arms * nat n"
  by (simp add: ab_plan_def length_concat comp_def sum_list_triv mult.assoc)

lemma start_campaign_results:
  "start_campaign so header d = Some (d1, err) \<Longrightarrow>
     cd_results d1 = (if err = None then Some [tombstone_of header] else cd_results d)"
  unfolding start_campaign_def start_rows_campaign_def by (drule stage_results_parts(1)) (simp add: sweep_staged_def)

lemma item_rows_live: "list_all2 row_of_item ps rows \<Longrightarrow> \<forall>r \<in> set rows. \<not> truthy (row_get r ''tombstone'')"
  by (induction rule: list_all2_induct) (auto simp: row_of_item_def)


text \<open>A campaign of one attempt whose assets cannot be had.\<close>

definition demo_start :: start_obs where
  "demo_start = \<lparr>st_campaign = ''c'', st_pid = ''7'', st_stuck = (\<lambda>_. False), st_write = None, st_tries = [None]\<rparr>"

definition demo_dir :: campaign_dir where
  "demo_dir = \<lparr>cd_results = Some [[(''model'', PStr ''old'')]], cd_staged = Map.empty, cd_attempts = []\<rparr>"

definition demo_args :: ab_args where
  "demo_args = \<lparr>aa_allow_real = True, aa_task = ''a'', aa_arm = ''bare'', aa_models = [''m''], aa_attempts = 1, aa_port = ''p''\<rparr>"

definition no_assets :: ab_turn where
  "no_assets = \<lparr>tu_meets = demo_attempt\<lparr>at_assets := Inl (Exn OSErr (PStr ''offline''))\<rparr>, tu_run_dir = ''r'', tu_journal = None,
     tu_append = None\<rparr>"


section \<open>The fault suite\<close>

record fault_args =
  fa_arm :: string
  fa_models :: "string list"
  fa_faults :: "string list"
  fa_dry_run :: bool

text \<open>What a scenario meets: the loop of the bare arm, the turns a check of the judge reads for, what else the checks
  meet, and how the append ends. The suite hands no client to the tools arm.\<close>

record fault_turn =
  fu_bare :: "bare_obs list"
  fu_turns :: nat
  fu_checks :: "nat \<Rightarrow> check_obs"
  fu_append :: "exn option"

definition no_client :: "wire_err + wire" where
  "no_client = Inl (Raised (Exn TypeErr (PStr ''object is not callable'')))"

type_synonym fault_item = "string \<times> string \<times> string \<times> fault"

definition suite_arm :: "attempt_world \<Rightarrow> ops_task \<Rightarrow> string \<Rightarrow> fault_turn \<Rightarrow> (wire_err + arm_result) option" where
  "suite_arm wd t arm fu =
     (let n = nat (ob_max_iterations (op_budget t)) in
      if arm = ''bare'' then map_option raised (bare_run n (fu_bare fu))
      else mcp_run (wd_json wd) (op_allowed_tools t) n no_client [])"

text \<open>One scenario: the row of its judge, or the exception that escapes.\<close>

definition suite_scenario :: "attempt_world \<Rightarrow> ops_task \<Rightarrow> fault_item \<Rightarrow> fault_turn \<Rightarrow> (wire_err + fault_row) option" where
  "suite_scenario wd t p fu =
     (case p of (m, arm, f) \<Rightarrow>
       map_option (\<lambda>x. case x of
           Inl e \<Rightarrow> Inl e
         | Inr r \<Rightarrow>
             (case run_fault_scenario ((judge_world_of wd r)\<lparr>jd_assets := Map.empty\<rparr>) f t arm (fu_turns fu) (fu_checks fu) r of
                None \<Rightarrow> Inl (Raised (Exn AttributeErr (PStr ''object has no attribute of the check'')))
              | Some row \<Rightarrow> Inr row))
         (suite_arm wd t arm fu))"

definition suite_row :: "(string \<Rightarrow> string) \<Rightarrow> (wire_err \<Rightarrow> string) \<Rightarrow> ops_task \<Rightarrow> fault_item \<Rightarrow> wire_err + fault_row \<Rightarrow> fields" where
  "suite_row incident crash_text t p res =
     (case p of (m, arm, f) \<Rightarrow>
       case res of
         Inl e \<Rightarrow> crash_row (PStr (crash_text e))
           [(''task'', PStr (op_name t)), (''arm'', PStr arm), (''model'', PStr m), (''scenario'', PStr (fst f))]
       | Inr row \<Rightarrow> fault_fields m (incident (fr_fault row)) row)"

definition suite_plan :: "string list \<Rightarrow> string list \<Rightarrow> (string \<times> fault) list \<Rightarrow> fault_item list" where
  "suite_plan models arms faults = [(m, a, f). m \<leftarrow> models, a \<leftarrow> arms, f \<leftarrow> faults]"

definition suite_bad :: "wire_err + fault_row \<Rightarrow> bool" where
  "suite_bad res = (case res of Inl _ \<Rightarrow> True | Inr row \<Rightarrow> fr_outcome row = Missed)"

text \<open>The loop keeps the rows in memory as well; an exception of an append escapes.\<close>

fun suite_loop ::
  "attempt_world \<Rightarrow> (string \<Rightarrow> string) \<Rightarrow> (wire_err \<Rightarrow> string) \<Rightarrow> ops_task \<Rightarrow> fault_item list \<Rightarrow> fault_turn list \<Rightarrow>
   campaign_dir \<times> fields list \<times> nat \<Rightarrow> ((campaign_dir \<times> fields list \<times> nat) \<times> exn option) option" where
  "suite_loop wd incident crash_text t [] fus st = Some (st, None)"
| "suite_loop wd incident crash_text t (p # ps) [] st = None"
| "suite_loop wd incident crash_text t (p # ps) (fu # fus) (d, rows, code) =
     (case suite_scenario wd t p fu of
        None \<Rightarrow> None
      | Some res \<Rightarrow>
          (let row = suite_row incident crash_text t p res in
           case fu_append fu of
             Some e \<Rightarrow> Some ((d, rows @ [row], code), Some e)
           | None \<Rightarrow>
               suite_loop wd incident crash_text t ps fus
                 (append_row row d, rows @ [row], if suite_bad res then 1 else code)))"

definition suite_header :: "string \<Rightarrow> string list \<Rightarrow> ops_task \<Rightarrow> string list \<Rightarrow> (string \<times> fault) list \<Rightarrow> fields" where
  "suite_header campaign models t arms faults =
     [(''campaign'', PStr campaign), (''kind'', PStr ''ops-faults''), (''models'', PList (map PStr models)),
      (''task'', PStr (op_name t)), (''arms'', PList (map PStr arms)), (''faults'', PList (map (PStr \<circ> fst) faults))]"

text \<open>The faults named, when all of them are known.\<close>

definition suite_faults :: "string list \<Rightarrow> (string \<times> fault) list option" where
  "suite_faults ids =
     (if ids = [] then Some FAULTS
      else those (map (\<lambda>i. map_option (Pair i) (map_of FAULTS i)) ids))"

text \<open>The rate is over the rows that are no crash markers.\<close>

definition cmd_ops_faults ::
  "attempt_world \<Rightarrow> (string \<Rightarrow> string) \<Rightarrow> (wire_err \<Rightarrow> string) \<Rightarrow> fault_args \<Rightarrow> (exn + ops_task) option \<Rightarrow> exn + string \<Rightarrow>
   start_obs \<Rightarrow> fault_turn list \<Rightarrow> campaign_dir \<Rightarrow> (campaign_dir \<times> (exn + nat \<times> rat option)) option" where
  "cmd_ops_faults wd incident crash_text args loaded cfg_model so fus d =
     (case loaded of
        None \<Rightarrow> Some (d, Inr (2, None))
      | Some (Inl e) \<Rightarrow> Some (d, Inl e)
      | Some (Inr t) \<Rightarrow>
          (case suite_faults (fa_faults args) of
             None \<Rightarrow> Some (d, Inr (2, None))
           | Some faults \<Rightarrow>
               if fa_dry_run args then Some (d, Inr (0, None))
               else case cfg_model of
                 Inl e \<Rightarrow> Some (d, Inl e)
               | Inr model \<Rightarrow>
                   (let models = (if fa_models args = [] then [model] else fa_models args); arms = arms_of (fa_arm args) in
                    case start_campaign so (suite_header (st_campaign so) models t arms faults) d of
                      None \<Rightarrow> None
                    | Some (d1, Some e) \<Rightarrow> Some (d1, Inl e)
                    | Some (d1, None) \<Rightarrow>
                        map_option (\<lambda>((d2, rows, code), r). (d2, case r of
                            Some e \<Rightarrow> Inl e
                          | None \<Rightarrow> Inr (code, rows_detection_rate (filter (\<lambda>r. \<not> truthy (row_get r ''crashed'')) rows))))
                          (suite_loop wd incident crash_text t (suite_plan models arms faults) fus (d1, [], 0)))))"

definition crashed_row :: "fields \<Rightarrow> bool" where
  "crashed_row r = truthy (row_get r ''crashed'')"

definition missed_row :: "fields \<Rightarrow> bool" where
  "missed_row r = (row_get r ''outcome'' = PStr ''missed'')"

text \<open>The row of a scenario; in the tools arm it is a crash marker.\<close>

definition row_of_scenario :: "ops_task \<Rightarrow> fault_item \<Rightarrow> fields \<Rightarrow> bool" where
  "row_of_scenario t p r =
     (case p of (m, arm, f) \<Rightarrow>
       row_get r ''task'' = PStr (op_name t) \<and> row_get r ''arm'' = PStr arm \<and> row_get r ''model'' = PStr m \<and>
       row_get r ''tombstone'' = PNone \<and> (arm \<noteq> ''bare'' \<longrightarrow> crashed_row r))"

lemma suite_row_facts:
  assumes "suite_scenario wd t p fu = Some res"
  shows "row_of_scenario t p (suite_row incident crash_text t p res)"
    "suite_bad res \<longleftrightarrow> crashed_row (suite_row incident crash_text t p res) \<or> missed_row (suite_row incident crash_text t p res)"
proof -
  obtain m arm f where p: "p = (m, arm, f)" by (cases p)
  have "row_of_scenario t p (suite_row incident crash_text t p res) \<and>
    (suite_bad res \<longleftrightarrow> crashed_row (suite_row incident crash_text t p res) \<or> missed_row (suite_row incident crash_text t p res))"
  proof (cases res)
    case (Inl e)
    then show ?thesis
      by (simp add: p suite_row_def crash_row_def row_of_scenario_def row_get_def get_or_def crashed_row_def missed_row_def suite_bad_def)
  next
    case (Inr row)
    obtain x where x: "suite_arm wd t arm fu = Some x"
      using assms by (cases "suite_arm wd t arm fu") (simp_all add: suite_scenario_def p)
    obtain r where r: "x = Inr r" using assms Inr x by (cases x) (simp_all add: suite_scenario_def p)
    have bare: "arm = ''bare''"
    proof (rule ccontr)
      assume "arm \<noteq> ''bare''"
      with x r show False by (simp add: suite_arm_def mcp_run_def no_client_def Let_def)
    qed
    have run: "run_fault_scenario ((judge_world_of wd r)\<lparr>jd_assets := Map.empty\<rparr>) f t arm (fu_turns fu) (fu_checks fu) r = Some row"
      using assms Inr x r by (auto simp: suite_scenario_def p split: option.splits)
    then have "fr_task row = op_name t" "fr_arm row = arm"
      by (auto simp: run_fault_scenario_def Let_def split: option.splits)
    then show ?thesis using Inr bare
      by (cases "fr_outcome row")
        (simp_all add: p suite_row_def fault_fields_def row_of_scenario_def row_get_def get_or_def crashed_row_def missed_row_def
          suite_bad_def outcome_name_def)
  qed
  then show "row_of_scenario t p (suite_row incident crash_text t p res)"
    "suite_bad res \<longleftrightarrow> crashed_row (suite_row incident crash_text t p res) \<or> missed_row (suite_row incident crash_text t p res)"
    by auto
qed

lemma suite_loop_rows:
  assumes "suite_loop wd incident crash_text t ps fus (d, mem, code) = Some ((d', mem', code'), None)"
    and "cd_results d = Some (hdr # mem)"
  shows "\<exists>rows. cd_results d' = Some (hdr # mem @ rows) \<and> mem' = mem @ rows \<and> list_all2 (row_of_scenario t) ps rows \<and>
    (code' = 0 \<longleftrightarrow> code = 0 \<and> list_all (\<lambda>r. \<not> crashed_row r \<and> \<not> missed_row r) rows) \<and> (code \<le> 1 \<longrightarrow> code' \<le> 1)"
  using assms
proof (induction wd incident crash_text t ps fus "(d, mem, code)" arbitrary: d mem code rule: suite_loop.induct)
  case (3 wd incident crash_text t p ps fu fus d mem code)
  obtain res where res: "suite_scenario wd t p fu = Some res"
    using 3(2) by (cases "suite_scenario wd t p fu") auto
  define row where "row = suite_row incident crash_text t p res"
  define code1 where "code1 = (if suite_bad res then 1 else code)"
  note row = suite_row_facts [OF res, of incident crash_text, folded row_def]
  have ap: "fu_append fu = None" using 3(2) res by (cases "fu_append fu") (auto simp: Let_def)
  have rest: "suite_loop wd incident crash_text t ps fus (append_row row d, mem @ [row], code1) = Some ((d', mem', code'), None)"
    using 3(2) res ap by (simp add: row_def code1_def Let_def)
  have "cd_results (append_row row d) = Some (hdr # mem @ [row])" using 3(3) by (simp add: append_row_def)
  from 3(1) [OF res row_def ap, folded code1_def, OF rest this] show ?case
  proof (elim exE conjE)
    fix rows
    assume rows: "cd_results d' = Some (hdr # (mem @ [row]) @ rows)" "mem' = (mem @ [row]) @ rows"
      "list_all2 (row_of_scenario t) ps rows"
      and code: "(code' = 0) = (code1 = 0 \<and> list_all (\<lambda>r. \<not> crashed_row r \<and> \<not> missed_row r) rows)" "code1 \<le> 1 \<longrightarrow> code' \<le> 1"
    show ?case
    proof (intro exI [of _ "row # rows"] conjI)
      show "(code' = 0) = (code = 0 \<and> list_all (\<lambda>r. \<not> crashed_row r \<and> \<not> missed_row r) (row # rows))"
        using code(1) row(2) by (auto simp: code1_def)
      show "code \<le> 1 \<longrightarrow> code' \<le> 1" using code(2) by (simp add: code1_def)
    qed (use rows row(1) in simp_all)
  qed
qed simp_all

lemma suite_plan_length: "length (suite_plan models arms faults) = length models * length arms * length faults"
  by (simp add: suite_plan_def length_concat comp_def sum_list_triv mult.assoc)

text \<open>A suite that returns, with its header and rows.\<close>

lemma cmd_ops_faults_rows:
  assumes "cmd_ops_faults wd incident crash_text args (Some (Inr t)) cfg so fus d = Some (d', Inr (code, rate))"
    and "suite_faults (fa_faults args) = Some faults" and "\<not> fa_dry_run args"
  shows "\<exists>model models header rows. cfg = Inr model \<and> models = (if fa_models args = [] then [model] else fa_models args) \<and>
    cd_results d' = Some (tombstone_of header # rows) \<and>
    list_all2 (row_of_scenario t) (suite_plan models (arms_of (fa_arm args)) faults) rows \<and>
    (code = 0 \<longleftrightarrow> list_all (\<lambda>r. \<not> crashed_row r \<and> \<not> missed_row r) rows) \<and> code \<le> 1 \<and>
    rate = rows_detection_rate (filter (\<lambda>r. \<not> crashed_row r) rows)"
proof -
  obtain model where cfg: "cfg = Inr model" using assms by (cases cfg) (auto simp: cmd_ops_faults_def)
  define models where "models = (if fa_models args = [] then [model] else fa_models args)"
  define header where "header = suite_header (st_campaign so) models t (arms_of (fa_arm args)) faults"
  obtain d1 where start: "start_campaign so header d = Some (d1, None)"
    using assms cfg
    by (auto simp: cmd_ops_faults_def header_def models_def Let_def split: option.splits)
  obtain mem where loop: "suite_loop wd incident crash_text t (suite_plan models (arms_of (fa_arm args)) faults) fus (d1, [], 0)
      = Some ((d', mem, code), None)"
    and rate: "rate = rows_detection_rate (filter (\<lambda>r. \<not> truthy (row_get r ''crashed'')) mem)"
    using assms cfg start
    by (auto simp: cmd_ops_faults_def header_def models_def Let_def split: option.splits)
  have "cd_results d1 = Some [tombstone_of header]" using start_campaign_results [OF start] by simp
  from suite_loop_rows [OF loop this] obtain rows where
    "cd_results d' = Some (tombstone_of header # [] @ rows)" "mem = [] @ rows"
    "list_all2 (row_of_scenario t) (suite_plan models (arms_of (fa_arm args)) faults) rows"
    "(code = 0) = ((0 :: nat) = 0 \<and> list_all (\<lambda>r. \<not> crashed_row r \<and> \<not> missed_row r) rows)" "code \<le> 1"
    by (elim exE conjE) simp
  with cfg rate models_def show ?thesis by (auto simp: crashed_row_def)
qed

text \<open>
  The exit code of the fault suite: of a suite that was not a dry run there is one row for every model, arm and
  fault in this order after the tombstone of the campaign, and the exit code is 0 exactly when no scenario crashed and
  no attempt claimed a success that the judge refuted; it is 1 otherwise. The rate it prints is over the scenarios
  that did not crash.
\<close>

theorem fault_suite_exit:
  assumes "cmd_ops_faults wd incident crash_text args (Some (Inr t)) cfg so fus d = Some (d', Inr (code, rate))"
    and "suite_faults (fa_faults args) = Some faults" and "\<not> fa_dry_run args"
  shows "\<exists>models header rows. (fa_models args \<noteq> [] \<longrightarrow> models = fa_models args) \<and> models \<noteq> [] \<and>
    cd_results d' = Some (tombstone_of header # rows) \<and>
    length rows = length models * length (arms_of (fa_arm args)) * length faults \<and>
    list_all2 (row_of_scenario t) (suite_plan models (arms_of (fa_arm args)) faults) rows \<and>
    code = (if list_all (\<lambda>r. \<not> crashed_row r \<and> \<not> missed_row r) rows then 0 else 1) \<and>
    rate = rows_detection_rate (filter (\<lambda>r. \<not> crashed_row r) rows)"
proof -
  from cmd_ops_faults_rows [OF assms] show ?thesis
  proof (elim exE conjE)
    fix model models header rows
    assume m: "models = (if fa_models args = [] then [model] else fa_models args)"
      and r: "cd_results d' = Some (tombstone_of header # rows)"
        "list_all2 (row_of_scenario t) (suite_plan models (arms_of (fa_arm args)) faults) rows"
        "(code = 0) = list_all (\<lambda>r. \<not> crashed_row r \<and> \<not> missed_row r) rows" "code \<le> 1"
        "rate = rows_detection_rate (filter (\<lambda>r. \<not> crashed_row r) rows)"
    have "code = (if list_all (\<lambda>r. \<not> crashed_row r \<and> \<not> missed_row r) rows then 0 else 1)" using r(3,4) by auto
    moreover have "length rows = length models * length (arms_of (fa_arm args)) * length faults"
      using list_all2_lengthD [OF r(2)] by (simp add: suite_plan_length)
    ultimately show ?thesis using m r by (intro exI [of _ models] exI [of _ header] exI [of _ rows]) simp
  qed
qed

text \<open>C37. From the command line the tools arm of the fault suite never runs: no client is handed to it, so every scenario
  of that arm is recorded as crashed, and a suite that includes the arm, which is the default, never exits with 0.
\<close>

theorem faults_mcp_always_crashes:
  assumes "cmd_ops_faults wd incident crash_text args (Some (Inr t)) cfg so fus d = Some (d', Inr (code, rate))"
    and "suite_faults (fa_faults args) = Some faults" and "\<not> fa_dry_run args" and "fa_arm args \<in> {''both'', ''mcp''}"
  shows "code = 1 \<and> (\<exists>header rows. cd_results d' = Some (tombstone_of header # rows) \<and>
    (\<forall>r \<in> set rows. row_get r ''arm'' = PStr ''mcp'' \<longrightarrow> crashed_row r) \<and> (\<exists>r \<in> set rows. row_get r ''arm'' = PStr ''mcp''))"
proof -
  have some: "faults \<noteq> []"
    using assms(2) by (cases "fa_faults args") (auto simp: suite_faults_def FAULTS_def split: option.splits)
  from cmd_ops_faults_rows [OF assms(1-3)] show ?thesis
  proof (elim exE conjE)
    fix model models header rows
    assume m: "models = (if fa_models args = [] then [model] else fa_models args)"
      and r: "cd_results d' = Some (tombstone_of header # rows)"
        "list_all2 (row_of_scenario t) (suite_plan models (arms_of (fa_arm args)) faults) rows"
      and code: "(code = 0) = list_all (\<lambda>r. \<not> crashed_row r \<and> \<not> missed_row r) rows" "code \<le> 1"
    have crashed: "crashed_row x" if "x \<in> set rows" "row_get x ''arm'' = PStr ''mcp''" for x
      using r(2) that by (induction rule: list_all2_induct) (auto simp: row_of_scenario_def)
    obtain m f where "(m, ''mcp'', f) \<in> set (suite_plan models (arms_of (fa_arm args)) faults)"
    proof -
      have "models \<noteq> []" by (simp add: m)
      then obtain m ms where "models = m # ms" by (cases models) auto
      moreover obtain f fs where "faults = f # fs" using some by (cases faults) auto
      ultimately show thesis using assms(4) that [of m f] by (auto simp: suite_plan_def arms_of_def)
    qed
    with r(2) obtain x where x: "x \<in> set rows" "row_get x ''arm'' = PStr ''mcp''"
      by (induction rule: list_all2_induct) (auto simp: row_of_scenario_def)
    with crashed code have "code = 1" by (auto simp: list_all_iff)
    with r(1) x crashed show ?thesis by auto
  qed
qed

text \<open>A suite of one scenario in which the agent claims success over a mute board, and the same in the tools arm.\<close>

definition demo_suite :: "string \<Rightarrow> fault_args" where
  "demo_suite arm = \<lparr>fa_arm = arm, fa_models = [''m''], fa_faults = [''mute_board''], fa_dry_run = False\<rparr>"

definition demo_scenario :: fault_turn where
  "demo_scenario =
     \<lparr>fu_bare = [\<lparr>bb_late = False, bb_reply = Inr claim_reply, bb_write = None, bb_script = Killed []\<rparr>], fu_turns = 1,
      fu_checks = (\<lambda>_. demo_check), fu_append = None\<rparr>"

definition demo_faulted :: ops_task where
  "demo_faulted = banner_task\<lparr>op_budget := \<lparr>ob_max_iterations = 2, ob_iter_timeout_sec = 1\<rparr>\<rparr>"

lemma demo_suite_runs:
  "case cmd_ops_faults demo_attempt_world id (\<lambda>_. []) (demo_suite ''bare'') (Some (Inr demo_faulted)) (Inr ''m'') demo_start [demo_scenario]
     demo_dir of Some (_, Inr (c, _)) \<Rightarrow> c = 1 | _ \<Rightarrow> False"
  "case cmd_ops_faults demo_attempt_world id (\<lambda>_. []) (demo_suite ''mcp'') (Some (Inr demo_faulted)) (Inr ''m'') demo_start [demo_scenario]
     demo_dir of Some (_, Inr (c, _)) \<Rightarrow> c = 1 | _ \<Rightarrow> False"
  by code_simp+

lemma exits_one:
  "(case x of Some (_, Inr (c, _)) \<Rightarrow> c = (1 :: nat) | _ \<Rightarrow> False) \<Longrightarrow> \<exists>d' rate. x = Some (d', Inr (1, rate))"
  by (auto split: option.split_asm prod.split_asm sum.split_asm)

lemma demo_suite_faults: "suite_faults (fa_faults (demo_suite arm)) = Some [(''mute_board'', apply_mute_board)]" "\<not> fa_dry_run (demo_suite arm)"
  by (simp_all add: demo_suite_def suite_faults_def FAULTS_def)

lemma fault_suite_exit_witness:
  "\<exists>d' rate. cmd_ops_faults demo_attempt_world id (\<lambda>_. []) (demo_suite ''bare'') (Some (Inr demo_faulted)) (Inr ''m'') demo_start
     [demo_scenario] demo_dir = Some (d', Inr (1, rate)) \<and> length (the (cd_results d')) = 2"
proof -
  obtain d' rate where r: "cmd_ops_faults demo_attempt_world id (\<lambda>_. []) (demo_suite ''bare'') (Some (Inr demo_faulted)) (Inr ''m'') demo_start
     [demo_scenario] demo_dir = Some (d', Inr (1, rate))"
    using exits_one [OF demo_suite_runs(1)] by blast
  from fault_suite_exit [OF r demo_suite_faults] have "length (the (cd_results d')) = 2"
    by (auto simp: demo_suite_def arms_of_def)
  with r show ?thesis by blast
qed

lemma faults_mcp_always_crashes_witness:
  "\<exists>d' rate header rows. cmd_ops_faults demo_attempt_world id (\<lambda>_. []) (demo_suite ''mcp'') (Some (Inr demo_faulted)) (Inr ''m'') demo_start
     [demo_scenario] demo_dir = Some (d', Inr (1, rate)) \<and> cd_results d' = Some (tombstone_of header # rows) \<and> (\<exists>r \<in> set rows. crashed_row r)"
proof -
  obtain d' rate where r: "cmd_ops_faults demo_attempt_world id (\<lambda>_. []) (demo_suite ''mcp'') (Some (Inr demo_faulted)) (Inr ''m'') demo_start
     [demo_scenario] demo_dir = Some (d', Inr (1, rate))"
    using exits_one [OF demo_suite_runs(2)] by blast
  have "fa_arm (demo_suite ''mcp'') \<in> {''both'', ''mcp''}" by (simp add: demo_suite_def)
  from faults_mcp_always_crashes [OF r demo_suite_faults this] r show ?thesis by blast
qed

end
