(* ===== verification/Cli.thy ===== *)
theory Cli
  imports Solve Tasks Report CampaignFile
begin

text \<open>
  The command line (\<open>main\<close> and \<open>agent_solve_results\<close> of \<open>src/ironbench/cli.py\<close>): \<open>run\<close>, \<open>solve\<close> and \<open>clean\<close>
  with their gates and exit codes, and the campaign of \<open>solve\<close> around its result file. The parsed arguments, the
  loaded tasks and the back ends are arguments; an option that is not given is the empty text. Parsing of arguments,
  printing, \<open>list\<close>, \<open>report\<close> and \<open>journal\<close> are not modelled here; what they print is built in \<open>Report\<close> and \<open>JournalView\<close>.
\<close>

section \<open>The line of a result\<close>

fun joined :: "string \<Rightarrow> pyval list \<Rightarrow> pyval list" where
  "joined sep [] = []"
| "joined sep [v] = [v]"
| "joined sep (v # w # vs) = v # PStr sep # joined sep (w # vs)"

definition fmt_result :: "task_result \<Rightarrow> pyval" where
  "fmt_result r =
     (let head = (\<lambda>v. [PStr v, PStr (tr_task r), PStr '' ('', PNum (Fin (tr_duration r)), PStr ''s)'']) in
      if tr_passed r then PFStr (head ''PASS '')
      else
        PFStr (head ''FAIL '' @ PStr '': '' # joined ''; ''
          ((if tr_missed r \<noteq> [] then [PFStr (PStr ''not found in serial: '' # joined '', '' (map PRepr (tr_missed r)))] else []) @
           (if tr_hit_fail r \<noteq> []
            then [PFStr (PStr ''forbidden output: '' # joined '', '' (map (PRepr \<circ> PStr) (tr_hit_fail r)))] else []) @
           (case tr_error r of Some e \<Rightarrow> if truthy e then [e] else [] | None \<Rightarrow> []) @
           (case tr_exit_code r of
              Some c \<Rightarrow> if c = 0 then [] else [PFStr [PStr ''exit='', PInt c]] | None \<Rightarrow> []))))"

section \<open>Running tasks\<close>

record run_args =
  ra_task :: string
  ra_all :: bool
  ra_target :: string
  ra_allow_real :: bool

type_synonym back_end = "nat \<Rightarrow> string \<Rightarrow> task \<Rightarrow> exn + task_result"

text \<open>The loop over the selected tasks: the calls of the back ends, and the results or the exception that escapes.\<close>

fun run_all :: "back_end \<Rightarrow> bool \<Rightarrow> nat \<Rightarrow> task list \<Rightarrow> (string \<times> task) list \<times> (exn + task_result list)" where
  "run_all be allow_real i [] = ([], Inr [])"
| "run_all be allow_real i (t # ts) =
     (case run_task allow_real False t of
        Refused r _ \<Rightarrow> (case run_all be allow_real (i + 1) ts of (cs, x) \<Rightarrow> (cs, map_sum id ((#) r) x))
      | RunOn b \<Rightarrow>
          (case be i b t of
             Inl e \<Rightarrow> ([(b, t)], Inl e)
           | Inr r \<Rightarrow> (case run_all be allow_real (i + 1) ts of (cs, x) \<Rightarrow> ((b, t) # cs, map_sum id ((#) r) x))))"

definition run_selection :: "run_args \<Rightarrow> task list \<Rightarrow> task list option" where
  "run_selection args ts =
     (if ra_task args \<noteq> []
      then (case filter (\<lambda>t. t_name t = ra_task args) ts of [] \<Rightarrow> None | sel \<Rightarrow> Some sel)
      else if ra_all args then Some ts else None)"

definition retarget :: "string \<Rightarrow> task \<Rightarrow> task" where
  "retarget target t = (if target = [] then t else t\<lparr>t_target := target\<rparr>)"

definition cmd_run :: "back_end \<Rightarrow> run_args \<Rightarrow> task list \<Rightarrow> (string \<times> task) list \<times> (exn + nat)" where
  "cmd_run be args ts =
     (case run_selection args ts of
        None \<Rightarrow> ([], Inr 2)
      | Some sel \<Rightarrow>
          (let sel' = map (retarget (ra_target args)) sel in
           if ra_target args \<noteq> [] \<and> list_ex (\<lambda>t. check_target_compat t \<noteq> Inr ()) sel' then ([], Inr 2)
           else if \<not> ra_allow_real args \<and> list_ex (\<lambda>t. t_target t = ''real'') sel' then ([], Inr 2)
           else (case run_all be (ra_allow_real args) 0 sel' of
                   (cs, Inl e) \<Rightarrow> (cs, Inl e)
                 | (cs, Inr rs) \<Rightarrow> (cs, Inr (if list_all tr_passed rs then 0 else 1)))))"

section \<open>A campaign of attempts\<close>

definition solve_tombstone :: "task \<Rightarrow> solve_config \<Rightarrow> int \<Rightarrow> fields" where
  "solve_tombstone t cfg attempts =
     [(''task'', PStr (t_name t)), (''tombstone'', PBool True), (''model'', PStr (sc_model cfg)), (''attempts'', PInt attempts),
      (''notes'', PBool (t_notes t \<noteq> []))]"

text \<open>The duration of an attempt is what its number measured.\<close>

definition result_fields :: "task \<Rightarrow> solve_config \<Rightarrow> (nat \<Rightarrow> rat) \<Rightarrow> attempt_result \<Rightarrow> fields" where
  "result_fields t cfg dur r =
     [(''task'', PStr (ar_task r)), (''attempt'', PInt (int (ar_attempt r))), (''solved'', PBool (ar_solved r)),
      (''iterations'', PInt (int (ar_iterations r))), (''model'', PStr (sc_model cfg)),
      (''duration_sec'', PNum (Fin (dur (ar_attempt r)))), (''error'', opt_val id (ar_error r)),
      (''error_kind'', PStr (ar_error_kind r)), (''notes'', PBool (t_notes t \<noteq> []))]"

text \<open>What the file operations of a campaign meet: the process, what cannot be removed, the two replacements.\<close>

record campaign_obs =
  co_pid :: string
  co_kept :: "string \<Rightarrow> bool"
  co_stuck :: "string \<Rightarrow> bool"
  co_staged :: "string list"
  co_first :: "exn option \<times> exn option list"
  co_last :: "exn option \<times> exn option list"

definition agent_solve_results ::
  "'w llm \<Rightarrow> 'w run_fun \<Rightarrow> task \<Rightarrow> solve_config \<Rightarrow> int \<Rightarrow> (nat \<Rightarrow> rat) \<Rightarrow> campaign_obs \<Rightarrow> campaign_dir \<Rightarrow> 'w bench \<Rightarrow>
   (campaign_dir \<times> 'w bench \<times> attempt_result list outcome) option" where
  "agent_solve_results llm runner t cfg attempts dur co d b =
     (let d0 = fst (clean_stale_attempts True (co_kept co) (co_stuck co) (co_staged co) d) in
      case stage_results (co_pid co) [solve_tombstone t cfg attempts] (fst (co_first co)) (snd (co_first co)) d0 of
        None \<Rightarrow> None
      | Some (d1, Some e) \<Rightarrow> Some (d1, b, Raises e)
      | Some (d1, None) \<Rightarrow>
          (case solve llm runner t cfg (nat attempts) True b of
             (b1, Exits c m) \<Rightarrow> Some (d1, b1, Exits c m)
           | (b1, Raises e) \<Rightarrow> Some (d1, b1, Raises e)
           | (b1, outcome.Returns rs) \<Rightarrow>
               map_option (\<lambda>(d2, err). (d2, b1, case err of Some e \<Rightarrow> Raises e | None \<Rightarrow> outcome.Returns rs))
                 (stage_results (co_pid co) (map (result_fields t cfg dur) rs) (fst (co_last co)) (snd (co_last co)) d1)))"

record solve_args =
  so_task :: string
  so_attempts :: int
  so_iterations :: "int option"
  so_target :: string
  so_allow_real :: bool

text \<open>The gates of \<open>solve\<close>: the task and the configuration to go on with, an exit code, or an exception.\<close>

definition solve_gate :: "solve_args \<Rightarrow> task list \<Rightarrow> exn + solve_config \<Rightarrow> exn + (nat + task \<times> solve_config)" where
  "solve_gate args ts loaded_cfg =
     (case find (\<lambda>t. t_name t = so_task args) ts of
        None \<Rightarrow> Inr (Inl 2)
      | Some t0 \<Rightarrow>
          (let t = retarget (so_target args) t0 in
           if so_attempts args < 1 then Inr (Inl 2)
           else if so_target args \<noteq> [] \<and> check_target_compat t \<noteq> Inr () then Inr (Inl 2)
           else if t_target t = ''real'' \<and> \<not> so_allow_real args then Inr (Inl 2)
           else case loaded_cfg of
             Inl e \<Rightarrow> Inl e
           | Inr cfg \<Rightarrow>
               (case so_iterations args of
                  None \<Rightarrow> Inr (Inr (t, cfg))
                | Some n \<Rightarrow> if 1 \<le> n \<and> n \<le> 1000 then Inr (Inr (t, cfg\<lparr>sc_max_iterations := n\<rparr>)) else Inr (Inl 2))))"

definition cmd_solve ::
  "'w llm \<Rightarrow> (task \<Rightarrow> 'w run_fun) \<Rightarrow> solve_args \<Rightarrow> task list \<Rightarrow> exn + solve_config \<Rightarrow> (nat \<Rightarrow> rat) \<Rightarrow> campaign_obs \<Rightarrow>
   campaign_dir \<Rightarrow> 'w bench \<Rightarrow> (campaign_dir \<times> 'w bench \<times> nat outcome) option" where
  "cmd_solve llm runner args ts loaded_cfg dur co d b =
     (case solve_gate args ts loaded_cfg of
        Inl e \<Rightarrow> Some (d, b, Raises e)
      | Inr (Inl c) \<Rightarrow> Some (d, b, outcome.Returns c)
      | Inr (Inr (t, cfg)) \<Rightarrow>
          map_option (\<lambda>(d', b', out). (d', b', case out of
              outcome.Returns rs \<Rightarrow> outcome.Returns (if list_ex ar_solved rs then 0 else 1)
            | Exits c m \<Rightarrow> Exits c m
            | Raises e \<Rightarrow> Raises e))
            (agent_solve_results llm (runner t) t cfg (so_attempts args) dur co d b))"

section \<open>Cleaning\<close>

definition cmd_clean :: "int \<Rightarrow> bool \<Rightarrow> run_dir list list \<Rightarrow> run_dir list list \<times> nat" where
  "cmd_clean keep marker task_dirs =
     (if keep < 0 then ([], 2)
      else case clean_runs keep marker task_dirs of Inl e \<Rightarrow> ([], 2) | Inr removed \<Rightarrow> (removed, 0))"

section \<open>The run command\<close>

lemma run_task_on:
  assumes "run_task allow_real False t = RunOn b"
  shows "b = t_target t" "check_target_compat t = Inr ()" "b = ''real'' \<Longrightarrow> allow_real"
proof -
  have c: "check_target_compat t = Inr ()" using assms by (cases "check_target_compat t") (auto simp: run_task_def Let_def)
  with assms have "b = t_target t \<and> (b = ''real'' \<longrightarrow> allow_real)" by (auto simp: run_task_def Let_def split: if_split_asm)
  with c show "b = t_target t" "check_target_compat t = Inr ()" "b = ''real'' \<Longrightarrow> allow_real" by auto
qed

lemma run_task_refused: "run_task allow_real injected t = Refused r ev \<Longrightarrow> \<not> tr_passed r"
  by (auto simp: run_task_def Let_def not_run_def split: sum.split_asm if_split_asm)

lemma run_all_calls:
  "run_all be allow_real i ts = (cs, x) \<Longrightarrow> (b, t) \<in> set cs \<Longrightarrow>
     t \<in> set ts \<and> run_task allow_real False t = RunOn b"
proof (induction be allow_real i ts arbitrary: cs x rule: run_all.induct)
  case (2 be allow_real i u ts)
  obtain cs' x' where rest: "run_all be allow_real (i + 1) ts = (cs', x')" by fastforce
  show ?case
  proof (cases "run_task allow_real False u")
    case (Refused r ev)
    with 2(3) rest have "cs = cs'" by simp
    with 2(1) [OF Refused rest] 2(4) show ?thesis by simp
  next
    case (RunOn c)
    show ?thesis
    proof (cases "be i c u")
      case (Inl e)
      with RunOn 2(3,4) show ?thesis by auto
    next
      case (Inr r)
      with RunOn 2(3) rest have "cs = (c, u) # cs'" by simp
      with 2(2) [OF RunOn Inr rest] 2(4) RunOn show ?thesis by auto
    qed
  qed
qed simp

lemma run_all_passed:
  "run_all be allow_real i ts = (cs, Inr rs) \<Longrightarrow> list_all tr_passed rs \<Longrightarrow>
     cs = map (\<lambda>t. (t_target t, t)) ts \<and> (\<forall>j < length ts. \<exists>r. be (i + j) (t_target (ts ! j)) (ts ! j) = Inr r \<and> tr_passed r)"
proof (induction be allow_real i ts arbitrary: cs rs rule: run_all.induct)
  case (2 be allow_real i u ts)
  obtain cs' x' where rest: "run_all be allow_real (i + 1) ts = (cs', x')" by fastforce
  show ?case
  proof (cases "run_task allow_real False u")
    case (Refused r ev)
    with 2(3,4) rest run_task_refused [OF Refused] show ?thesis by (cases x') auto
  next
    case (RunOn c)
    then obtain r rs' where r: "be i c u = Inr r" "x' = Inr rs'" "cs = (c, u) # cs'" "rs = r # rs'"
      using 2(3) rest by (cases "be i c u"; cases x') auto
    have "cs' = map (\<lambda>t. (t_target t, t)) ts \<and> (\<forall>j < length ts. \<exists>r. be (i + 1 + j) (t_target (ts ! j)) (ts ! j) = Inr r \<and> tr_passed r)"
      using 2(2) [OF RunOn r(1)] rest r(2,4) 2(4) by simp
    moreover have "c = t_target u" using run_task_on(1) [OF RunOn] .
    ultimately show ?thesis using r 2(4) by (auto simp: nth_Cons less_Suc_eq_0_disj split: nat.splits)
  qed
qed simp

lemma cmd_run_refuses:
  assumes "cmd_run be args ts = (cs, res)"
  shows "res = Inr 2 \<longleftrightarrow> (case run_selection args ts of None \<Rightarrow> True | Some sel \<Rightarrow>
    \<exists>t \<in> retarget (ra_target args) ` set sel.
      ra_target args \<noteq> [] \<and> check_target_compat t \<noteq> Inr () \<or> \<not> ra_allow_real args \<and> t_target t = ''real'')"
proof (cases "run_selection args ts")
  case (Some sel)
  let ?sel = "map (retarget (ra_target args)) sel"
  show ?thesis
  proof (cases "ra_target args \<noteq> [] \<and> list_ex (\<lambda>t. check_target_compat t \<noteq> Inr ()) ?sel \<or>
      \<not> ra_allow_real args \<and> list_ex (\<lambda>t. t_target t = ''real'') ?sel")
    case True
    then have "res = Inr 2" using assms Some by (auto simp: cmd_run_def Let_def split: if_splits)
    with True Some show ?thesis by (auto simp: list_ex_iff)
  next
    case False
    then have "res \<noteq> Inr 2"
      using assms Some by (auto simp: cmd_run_def Let_def split: if_split_asm prod.split_asm sum.split_asm)
    with False Some show ?thesis by (auto simp: list_ex_iff)
  qed
qed (use assms in \<open>simp add: cmd_run_def\<close>)

text \<open>
  C21. What \<open>run\<close> does. A back end is started only for a selected task, on the target the task is for, or on the one
  asked for, for which the task is compatible; the live board only with the explicit confirmation. It is
  refused with 2, and then starts nothing, exactly when no task is selected, one is not compatible with the target asked
  for, or the board is not confirmed. The exit code 0 means that every selected task ran on its target and passed.
\<close>

theorem run_command_exact:
  assumes "cmd_run be args ts = (cs, res)"
  shows "(\<forall>(b, t) \<in> set cs. b = t_target t \<and> check_target_compat t = Inr () \<and> (b = ''real'' \<longrightarrow> ra_allow_real args) \<and>
      (ra_target args \<noteq> [] \<longrightarrow> b = ra_target args) \<and>
      (\<exists>sel. run_selection args ts = Some sel \<and> t \<in> retarget (ra_target args) ` set sel)) \<and>
    (res = Inr 2 \<longrightarrow> cs = []) \<and>
    (res = Inr 2 \<longleftrightarrow> (case run_selection args ts of None \<Rightarrow> True | Some sel \<Rightarrow>
      \<exists>t \<in> retarget (ra_target args) ` set sel.
        ra_target args \<noteq> [] \<and> check_target_compat t \<noteq> Inr () \<or> \<not> ra_allow_real args \<and> t_target t = ''real'')) \<and>
    (res = Inr 0 \<longrightarrow> (\<exists>sel. run_selection args ts = Some sel \<and>
       cs = map ((\<lambda>t. (t_target t, t)) \<circ> retarget (ra_target args)) sel \<and>
       (\<forall>i < length cs. \<exists>r. be i (fst (cs ! i)) (snd (cs ! i)) = Inr r \<and> tr_passed r)))"
proof (cases "cs = [] \<and> res = Inr 2")
  case False
  then obtain sel where sel: "run_selection args ts = Some sel"
    using assms by (cases "run_selection args ts") (auto simp: cmd_run_def)
  let ?sel = "map (retarget (ra_target args)) sel"
  obtain x where run: "run_all be (ra_allow_real args) 0 ?sel = (cs, x)"
    and res: "res = (case x of Inl e \<Rightarrow> Inl e | Inr rs \<Rightarrow> Inr (if list_all tr_passed rs then 0 else 1))"
    using assms False sel by (auto simp: cmd_run_def Let_def split: if_split_asm prod.split_asm sum.split_asm)
  have calls: "b = t_target t \<and> check_target_compat t = Inr () \<and> (b = ''real'' \<longrightarrow> ra_allow_real args) \<and>
      (ra_target args \<noteq> [] \<longrightarrow> b = ra_target args) \<and> t \<in> retarget (ra_target args) ` set sel"
    if "(b, t) \<in> set cs" for b t
  proof -
    from run_all_calls [OF run that] have t: "t \<in> retarget (ra_target args) ` set sel"
      and on: "run_task (ra_allow_real args) False t = RunOn b" by auto
    have "ra_target args \<noteq> [] \<longrightarrow> t_target t = ra_target args" using t by (auto simp: retarget_def)
    with run_task_on [OF on] t show ?thesis by auto
  qed
  have usage: "res \<noteq> Inr 2" using res by (cases x) auto
  have ended: "cs = map ((\<lambda>t. (t_target t, t)) \<circ> retarget (ra_target args)) sel \<and>
       (\<forall>i < length cs. \<exists>r. be i (fst (cs ! i)) (snd (cs ! i)) = Inr r \<and> tr_passed r)" if zero: "res = Inr 0"
  proof -
    obtain rs where x: "x = Inr rs" "list_all tr_passed rs" using zero res by (cases x) (auto split: if_split_asm)
    from run_all_passed [OF run [unfolded x(1)] x(2)]
    have cs: "cs = map (\<lambda>t. (t_target t, t)) ?sel"
      and passed: "\<forall>j < length ?sel. \<exists>r. be (0 + j) (t_target (?sel ! j)) (?sel ! j) = Inr r \<and> tr_passed r"
      by blast+
    show ?thesis unfolding cs using passed by simp
  qed
  have started: "case c of (b, t) \<Rightarrow> b = t_target t \<and> check_target_compat t = Inr () \<and> (b = ''real'' \<longrightarrow> ra_allow_real args) \<and>
      (ra_target args \<noteq> [] \<longrightarrow> b = ra_target args) \<and>
      (\<exists>sel. run_selection args ts = Some sel \<and> t \<in> retarget (ra_target args) ` set sel)" if "c \<in> set cs" for c
    using calls [of "fst c" "snd c"] that sel by (cases c) simp
  show ?thesis
  proof (intro conjI ballI impI cmd_run_refuses [OF assms])
    assume "res = Inr 0"
    from ended [OF this] sel show "\<exists>sel. run_selection args ts = Some sel \<and>
       cs = map ((\<lambda>t. (t_target t, t)) \<circ> retarget (ra_target args)) sel \<and>
       (\<forall>i < length cs. \<exists>r. be i (fst (cs ! i)) (snd (cs ! i)) = Inr r \<and> tr_passed r)"
      by (elim conjE) (intro exI [of _ sel] conjI)
  qed (use started usage in \<open>blast+\<close>)
qed (use cmd_run_refuses [OF assms] in simp)

section \<open>The solve command\<close>

lemma load_file_written:
  assumes "list_all (written json dumps) rs" and "list_all (\<lambda>r. \<not> blank (dumps r)) rs"
  shows "load_file json (concat (map (\<lambda>r. dumps r @ [ch 10]) rs))
    = (filter (\<lambda>r. \<not> truthy (get_or r ''tombstone'' PNone)) rs, 0)"
proof -
  have "splitlines (concat (map (\<lambda>l. l @ [ch 10]) (map dumps rs))) = map dumps rs"
    using assms(1) by (intro splitlines_join) (auto simp: written_def list_all_iff)
  then have "splitlines (concat (map (\<lambda>r. dumps r @ [ch 10]) rs)) = map dumps rs" by (simp add: comp_def)
  moreover have "List.map_filter (parse_line json) (map dumps rs)
      = map Inr (filter (\<lambda>r. \<not> truthy (get_or r ''tombstone'' PNone)) rs)"
    using assms by (induction rs) (simp_all add: List.map_filter_simps parse_line_def written_def)
  moreover have "List.map_filter (\<lambda>p. case p of Inr rec \<Rightarrow> Some rec | Inl _ \<Rightarrow> None) (map Inr rs) = rs" for rs :: "fields list"
    by (induction rs) (simp_all add: List.map_filter_simps)
  moreover have "filter isl (map Inr rs) = []" for rs :: "fields list" by (induction rs) simp_all
  ultimately show ?thesis by (simp add: load_file_def)
qed

lemma sweep_results: "cd_results (fst (clean_stale_attempts e k st ns d)) = cd_results d"
  by (simp add: clean_stale_attempts_def sweep_staged_def)

lemma agent_solve_results_cases:
  assumes "agent_solve_results llm runner t cfg attempts dur co d b = Some (d', b', out)"
  shows "cd_results d' = cd_results d \<and> b' = b \<and> (\<exists>e. out = Raises e) \<or>
    cd_results d' = Some [solve_tombstone t cfg attempts] \<and> (\<forall>rs. out \<noteq> outcome.Returns rs) \<or>
    (\<exists>rs. snd (solve llm runner t cfg (nat attempts) True b) = outcome.Returns rs \<and> out = outcome.Returns rs \<and>
       cd_results d' = Some (map (result_fields t cfg dur) rs))"
proof -
  obtain d1 e1 where first: "stage_results (co_pid co) [solve_tombstone t cfg attempts] (fst (co_first co)) (snd (co_first co))
      (fst (clean_stale_attempts True (co_kept co) (co_stuck co) (co_staged co) d)) = Some (d1, e1)"
    using assms by (auto simp: agent_solve_results_def Let_def split: option.splits)
  note d1 = stage_results_parts(1) [OF first]
  show ?thesis
  proof (cases e1)
    case (Some e)
    with assms first d1 show ?thesis by (auto simp: agent_solve_results_def Let_def sweep_results)
  next
    case None
    obtain b1 s where s: "solve llm runner t cfg (nat attempts) True b = (b1, s)" by fastforce
    show ?thesis
    proof (cases s)
      case (Returns rs)
      then obtain d2 e2 where lst: "stage_results (co_pid co) (map (result_fields t cfg dur) rs) (fst (co_last co)) (snd (co_last co)) d1
          = Some (d2, e2)"
        and out: "d' = d2" "out = (case e2 of Some e \<Rightarrow> Raises e | None \<Rightarrow> outcome.Returns rs)"
        using assms first None s by (auto simp: agent_solve_results_def Let_def)
      from stage_results_parts(1) [OF lst] d1 None out s Returns show ?thesis by (cases e2) auto
    qed (use assms first None s d1 in \<open>auto simp: agent_solve_results_def Let_def\<close>)
  qed
qed

text \<open>
  C33. What \<open>solve\<close> leaves behind. A refused command, among them every one for the live board without the explicit
  confirmation, asks the model nothing and changes nothing. Otherwise the result file holds what was there before
  only if the campaign ended before its first attempt; a campaign that dies later leaves its own tombstone, which the
  report reads as no rows, never older numbers; one that ends leaves exactly the rows of its attempts, and the exit
  code is 0 exactly when one of them was solved.
\<close>

theorem solve_command_exact:
  assumes "cmd_solve llm runner args ts loaded_cfg dur co d b = Some (d', b', out)"
  shows "d' = d \<and> b' = b \<and> (out = outcome.Returns 2 \<or> (\<exists>e. out = Raises e)) \<or>
    (\<exists>t cfg. solve_gate args ts loaded_cfg = Inr (Inr (t, cfg)) \<and> (t_target t = ''real'' \<longrightarrow> so_allow_real args) \<and>
      (cd_results d' = cd_results d \<and> b' = b \<and> (\<exists>e. out = Raises e) \<or>
       cd_results d' = Some [solve_tombstone t cfg (so_attempts args)] \<and> (\<forall>c. out \<noteq> outcome.Returns c) \<and>
         (\<forall>json dumps. written json dumps (solve_tombstone t cfg (so_attempts args)) \<longrightarrow>
            \<not> blank (dumps (solve_tombstone t cfg (so_attempts args))) \<longrightarrow>
            load_file json (dumps (solve_tombstone t cfg (so_attempts args)) @ [ch 10]) = ([], 0)) \<or>
       (\<exists>rs. snd (solve llm (runner t) t cfg (nat (so_attempts args)) True b) = outcome.Returns rs \<and>
          cd_results d' = Some (map (result_fields t cfg dur) rs) \<and>
          out = outcome.Returns (if list_ex ar_solved rs then 0 else 1))))"
proof (cases "solve_gate args ts loaded_cfg")
  case (Inr g)
  show ?thesis
  proof (cases g)
    case (Inr tc)
    obtain t cfg where tc: "tc = (t, cfg)" by (cases tc)
    have gate: "solve_gate args ts loaded_cfg = Inr (Inr (t, cfg))" using \<open>solve_gate args ts loaded_cfg = Inr g\<close> Inr tc by simp
    then have "t_target t = ''real'' \<longrightarrow> so_allow_real args"
      by (auto simp: solve_gate_def Let_def split: option.split_asm if_split_asm sum.split_asm)
    moreover obtain res where res: "agent_solve_results llm (runner t) t cfg (so_attempts args) dur co d b = Some (d', b', res)"
      and out: "out = (case res of outcome.Returns rs \<Rightarrow> outcome.Returns (if list_ex ar_solved rs then 0 else 1)
        | Exits c m \<Rightarrow> Exits c m | Raises e \<Rightarrow> Raises e)"
      using assms gate by (auto simp: cmd_solve_def)
    moreover have "load_file json (dumps (solve_tombstone t cfg n) @ [ch 10]) = ([], 0)"
      if "written json dumps (solve_tombstone t cfg n)" "\<not> blank (dumps (solve_tombstone t cfg n))" for json dumps n
      using load_file_written [of json dumps "[solve_tombstone t cfg n]"] that by (simp add: solve_tombstone_def get_or_def)
    ultimately show ?thesis using agent_solve_results_cases [OF res] gate by (elim disjE) (cases res; auto)+
  qed (use assms Inr in \<open>auto simp: cmd_solve_def solve_gate_def Let_def split: option.split_asm if_split_asm sum.split_asm\<close>)
qed (use assms in \<open>auto simp: cmd_solve_def\<close>)

section \<open>Witnesses\<close>

definition demo_run :: run_args where
  "demo_run = \<lparr>ra_task = ''blink'', ra_all = False, ra_target = [], ra_allow_real = False\<rparr>"

definition demo_back_end :: back_end where "demo_back_end = (\<lambda>i b t. Inr demo_result)"

lemma demo_compatible: "check_target_compat demo_task = Inr ()" by code_simp

lemma run_command_exact_witness:
  "cmd_run demo_back_end demo_run [demo_task] = ([(''unix'', demo_task)], Inr 0) \<and>
     (\<exists>r. demo_back_end 0 ''unix'' demo_task = Inr r \<and> tr_passed r)"
proof -
  have t: "t_target demo_task = ''unix''" "t_name demo_task = ''blink''" by (simp_all add: demo_task_def)
  have r: "cmd_run demo_back_end demo_run [demo_task] = ([(''unix'', demo_task)], Inr 0)"
    using demo_compatible
    by (simp add: cmd_run_def demo_run_def run_selection_def retarget_def run_task_def demo_back_end_def demo_result_def t Let_def)
  have "\<forall>i < length [(''unix'', demo_task)]. \<exists>r. demo_back_end i (fst ([(''unix'', demo_task)] ! i)) (snd ([(''unix'', demo_task)] ! i)) = Inr r \<and>
      tr_passed r"
    using run_command_exact [OF r] by (elim conjE impE [OF _ refl] exE)
  with r show ?thesis by simp
qed

definition demo_files :: campaign_dir where
  "demo_files = \<lparr>cd_results = Some [[(''task'', PStr ''old'')]], cd_staged = Map.empty, cd_attempts = []\<rparr>"

definition demo_ops_of_os :: campaign_obs where
  "demo_ops_of_os = \<lparr>co_pid = ''7'', co_kept = (\<lambda>_. False), co_stuck = (\<lambda>_. False), co_staged = [], co_first = (None, [None]),
     co_last = (None, [None])\<rparr>"

definition demo_solve :: solve_args where
  "demo_solve = \<lparr>so_task = ''blink'', so_attempts = 1, so_iterations = None, so_target = [], so_allow_real = False\<rparr>"

text \<open>A model whose configuration is refused ends the campaign with its tombstone.\<close>

lemma solve_command_exact_witness:
  "\<exists>d' b' m. cmd_solve (\<lambda>w msgs. (w, HttpFails 401 PNone)) (\<lambda>_. demo_runner) demo_solve [demo_task] (Inr demo_config) (\<lambda>_. 0)
      demo_ops_of_os demo_files (bench_init (0 :: nat)) = Some (d', b', Exits 401 m) \<and>
    cd_results d' = Some [solve_tombstone demo_task demo_config 1]"
proof -
  have gate: "solve_gate demo_solve [demo_task] (Inr demo_config) = Inr (Inr (demo_task, demo_config))"
    by (simp add: solve_gate_def demo_solve_def demo_task_def retarget_def)
  have "\<exists>b m. solve (\<lambda>w msgs. (w, HttpFails 401 PNone)) demo_runner demo_task demo_config 1 True (bench_init (0 :: nat)) = (b, Exits 401 m)"
    by (simp add: solve_def solve_attempt_def demo_config_def iterate_def LLM_TRIES_def eval_nat_numeral classify_call_def
        bench_init_def attempt_start_def Let_def)
  then obtain b m where s: "solve (\<lambda>w msgs. (w, HttpFails 401 PNone)) demo_runner demo_task demo_config 1 True (bench_init (0 :: nat)) = (b, Exits 401 m)"
    by blast
  have one: "so_attempts demo_solve = 1" by (simp add: demo_solve_def)
  have "replace_tries [None] = Some ([], None)" by (simp add: replace_tries_def)
  then obtain d' where run: "cmd_solve (\<lambda>w msgs. (w, HttpFails 401 PNone)) (\<lambda>_. demo_runner) demo_solve [demo_task] (Inr demo_config) (\<lambda>_. 0)
      demo_ops_of_os demo_files (bench_init (0 :: nat)) = Some (d', b, Exits 401 m)"
    using s one by (simp add: cmd_solve_def gate agent_solve_results_def stage_results_def demo_ops_of_os_def Let_def)
  from one solve_command_exact [OF run] gate have "cd_results d' = Some [solve_tombstone demo_task demo_config 1]" by auto
  with run show ?thesis by blast
qed

end
